(* ===== verification/Py_Values.thy ===== *)
theory Py_Values
  imports Complex_Main "HOL-Library.AList" "HOL-Library.Word"
begin

text \<open>
  The prelude: the fragment of Python that the modelled modules are written in.

  \<^item> \<open>exn\<close> names the exception classes the modelled code raises or lets escape
    (\<open>OtherError\<close> carries the name of a class the program defines); the messages are
    labels, not the texts of the program;
    a fallible operation returns \<open>exn + 'a\<close>, and a fallible operation on a state
    returns the state reached when the exception left it as well, because Python
    keeps the mutations made before the raise.
  \<^item> \<open>pyval\<close> is the JSON-like value type carried by messages, configuration
    files and OneBot payloads. A \<open>dict\<close> is an association list in insertion order:
    assignment is \<open>AList.update\<close> (in place, else appended), \<open>pop\<close> is
    \<open>AList.delete\<close>, \<open>get\<close> is \<open>map_of\<close>.
  \<^item> A Python string is a \<open>string\<close> whose characters are the code points below 256;
    \<open>strip\<close>, \<open>lower\<close> and \<open>isspace\<close> are those of \<open>str\<close> on that range.
  \<^item> Floating-point numbers are not values of \<open>pyval\<close>; clock readings are \<open>rat\<close>.
\<close>

named_theorems py_defs \<open>definitions of the Python fragment, unfolded to evaluate\<close>

section \<open>Exceptions and stateful operations\<close>

datatype exn =
    TypeError
  | ValueError string
  | KeyError string
  | IndexError
  | RuntimeError string
  | RecursionError
  | OtherError string string

type_synonym ('s, 'a) action = "'s \<Rightarrow> (exn + 'a) \<times> 's"

definition ret :: "'a \<Rightarrow> ('s, 'a) action" where
  "ret x s = (Inr x, s)"

definition raise_exn :: "exn \<Rightarrow> ('s, 'a) action" where
  "raise_exn e s = (Inl e, s)"

definition bnd :: "('s, 'a) action \<Rightarrow> ('a \<Rightarrow> ('s, 'b) action) \<Rightarrow> ('s, 'b) action" where
  "bnd m k s = (case m s of (Inl e, t) \<Rightarrow> (Inl e, t) | (Inr x, t) \<Rightarrow> k x t)"

definition gets :: "('s \<Rightarrow> 'a) \<Rightarrow> ('s, 'a) action" where
  "gets f s = (Inr (f s), s)"

definition modify :: "('s \<Rightarrow> 's) \<Rightarrow> ('s, unit) action" where
  "modify f s = (Inr (), f s)"

definition lift_exn :: "exn + 'a \<Rightarrow> ('s, 'a) action" where
  "lift_exn r s = (r, s)"

definition when_do :: "bool \<Rightarrow> ('s, unit) action \<Rightarrow> ('s, unit) action" where
  "when_do b m = (if b then m else ret ())"

lemmas action_defs = ret_def raise_exn_def bnd_def gets_def modify_def lift_exn_def when_do_def

text \<open>A \<open>for\<close> loop whose body acts on the state and may raise.\<close>

primrec for_each :: "'b list \<Rightarrow> ('b \<Rightarrow> ('s, unit) action) \<Rightarrow> ('s, unit) action" where
  "for_each [] f = ret ()"
| "for_each (x # xs) f = bnd (f x) (\<lambda>_. for_each xs f)"

text \<open>
  Hoare triples for both outcomes: \<open>keeps P m\<close> says that \<open>P\<close> holds in the state \<open>m\<close>
  leaves behind, whether it returned or raised.
\<close>

definition keeps :: "('s \<Rightarrow> bool) \<Rightarrow> ('s, 'a) action \<Rightarrow> bool" where
  "keeps P m \<longleftrightarrow> (\<forall>s. P s \<longrightarrow> P (snd (m s)))"

lemma keepsI [intro?]: "(\<And>s. P s \<Longrightarrow> P (snd (m s))) \<Longrightarrow> keeps P m"
  by (simp add: keeps_def)

lemma keepsD: "keeps P m \<Longrightarrow> P s \<Longrightarrow> P (snd (m s))"
  by (simp add: keeps_def)

lemma keeps_ret [simp, intro]: "keeps P (ret x)"
  by (simp add: keeps_def ret_def)

lemma keeps_raise [simp, intro]: "keeps P (raise_exn e)"
  by (simp add: keeps_def raise_exn_def)

lemma keeps_gets [simp, intro]: "keeps P (gets f)"
  by (simp add: keeps_def gets_def)

lemma keeps_lift [simp, intro]: "keeps P (lift_exn r)"
  by (simp add: keeps_def lift_exn_def)

lemma keeps_bnd [intro]: "keeps P m \<Longrightarrow> (\<And>x. keeps P (k x)) \<Longrightarrow> keeps P (bnd m k)"
  by (fastforce simp: keeps_def bnd_def split: prod.split sum.split)

lemma keeps_modify [intro]: "(\<And>s. P s \<Longrightarrow> P (f s)) \<Longrightarrow> keeps P (modify f)"
  by (simp add: keeps_def modify_def)

lemma keeps_when [intro]: "(b \<Longrightarrow> keeps P m) \<Longrightarrow> keeps P (when_do b m)"
  by (simp add: when_do_def)

lemma keeps_if [intro]: "(b \<Longrightarrow> keeps P m) \<Longrightarrow> (\<not> b \<Longrightarrow> keeps P n) \<Longrightarrow> keeps P (if b then m else n)"
  by simp

lemma keeps_for_each: "(\<And>x. x \<in> set xs \<Longrightarrow> keeps P (f x)) \<Longrightarrow> keeps P (for_each xs f)"
  by (induction xs) auto

section \<open>Strings\<close>

definition py_isspace :: "char \<Rightarrow> bool" where
  "py_isspace c = (let n = (of_char c :: int) in
     (9 \<le> n \<and> n \<le> 13) \<or> (28 \<le> n \<and> n \<le> 32) \<or> n = 133 \<or> n = 160)"

definition py_lstrip :: "string \<Rightarrow> string" where
  "py_lstrip s = dropWhile py_isspace s"

definition py_rstrip :: "string \<Rightarrow> string" where
  "py_rstrip s = rev (dropWhile py_isspace (rev s))"

definition py_strip :: "string \<Rightarrow> string" where
  "py_strip s = py_rstrip (py_lstrip s)"

definition py_rstrip_char :: "char \<Rightarrow> string \<Rightarrow> string" where
  "py_rstrip_char c s = rev (dropWhile (\<lambda>d. d = c) (rev s))"

definition py_lower_char :: "char \<Rightarrow> char" where
  "py_lower_char c = (let n = (of_char c :: int) in
     if (65 \<le> n \<and> n \<le> 90) \<or> (192 \<le> n \<and> n \<le> 222 \<and> n \<noteq> 215) then char_of (n + 32) else c)"

definition py_lower :: "string \<Rightarrow> string" where
  "py_lower s = map py_lower_char s"

definition py_isdigit :: "char \<Rightarrow> bool" where
  "py_isdigit c = (let n = (of_char c :: int) in 48 \<le> n \<and> n \<le> 57)"

definition startswith :: "string \<Rightarrow> string \<Rightarrow> bool" where
  "startswith s p = (take (length p) s = p)"

primrec intercalate :: "string \<Rightarrow> string list \<Rightarrow> string" where
  "intercalate sep [] = []"
| "intercalate sep (x # xs) = (if xs = [] then x else x @ sep @ intercalate sep xs)"

text \<open>\<open>s.split(c)\<close> for a one-character separator: always at least one field.\<close>

fun split_on :: "char \<Rightarrow> string \<Rightarrow> string list" where
  "split_on c [] = [[]]"
| "split_on c (x # xs) =
     (if x = c then [] # split_on c xs
      else (case split_on c xs of [] \<Rightarrow> [[x]] | f # fs \<Rightarrow> (x # f) # fs))"

text \<open>\<open>s.partition(c)\<close>: the text before, whether the separator was found, the text after.\<close>

definition partition_on :: "char \<Rightarrow> string \<Rightarrow> string \<times> bool \<times> string" where
  "partition_on c s = (takeWhile (\<lambda>x. x \<noteq> c) s, c \<in> set s, tl (dropWhile (\<lambda>x. x \<noteq> c) s))"

lemma takeWhile_upto: "(\<forall>x \<in> set w. P x) \<Longrightarrow> \<not> P y \<Longrightarrow> takeWhile P (w @ y # r) = w"
  by (induction w) auto

lemma dropWhile_upto: "(\<forall>x \<in> set w. P x) \<Longrightarrow> \<not> P y \<Longrightarrow> dropWhile P (w @ y # r) = y # r"
  by (induction w) auto

lemma split_on_upto: "c \<notin> set w \<Longrightarrow> split_on c (w @ c # r) = w # split_on c r"
  by (induction w) auto

lemma split_on_none: "c \<notin> set w \<Longrightarrow> split_on c w = [w]"
  by (induction w) auto

lemma split_intercalate:
  "xs \<noteq> [] \<Longrightarrow> \<forall>x \<in> set xs. c \<notin> set x \<Longrightarrow> split_on c (intercalate [c] xs) = xs"
proof (induction xs)
  case (Cons x xs)
  then show ?case
    by (cases "xs = []") (simp_all add: split_on_none split_on_upto)
qed simp

lemma split_on_nonempty [simp]: "split_on c s \<noteq> []"
  by (induction s) (auto split: list.splits)

lemma split_on_free: "x \<in> set (split_on c s) \<Longrightarrow> c \<notin> set x"
  by (induction s arbitrary: x) (auto split: list.splits if_splits)

lemma intercalate_split: "intercalate [c] (split_on c s) = s"
  by (induction s) (auto split: list.splits if_splits simp: neq_Nil_conv)

lemma py_strip_nonspace:
  assumes "list_all (\<lambda>c. \<not> py_isspace c) s"
  shows "py_strip s = s"
proof -
  have "dropWhile py_isspace s = s"
    using assms by (cases s) auto
  moreover have "dropWhile py_isspace (rev s) = rev s"
    using assms by (cases s rule: rev_cases) auto
  ultimately show ?thesis
    by (simp add: py_strip_def py_lstrip_def py_rstrip_def)
qed

lemma py_strip_idem [simp]: "py_strip (py_strip s) = py_strip s"
proof -
  let ?l = "dropWhile py_isspace s"
  have l: "?l = [] \<or> \<not> py_isspace (hd ?l)"
    by (metis hd_dropWhile)
  let ?r = "rev (dropWhile py_isspace (rev ?l))"
  have pre: "\<exists>t. ?l = ?r @ t"
    by (metis rev_append rev_rev_ident takeWhile_dropWhile_id)
  have "?r = [] \<or> \<not> py_isspace (hd ?r)"
    using l pre by (metis hd_append2 append_is_Nil_conv)
  then have 1: "dropWhile py_isspace ?r = ?r"
    by (cases ?r) (simp_all del: rev_is_Nil_conv dropWhile_eq_Nil_conv)
  have "dropWhile py_isspace (dropWhile py_isspace (rev ?l)) = dropWhile py_isspace (rev ?l)"
    by (simp add: dropWhile_idem)
  with 1 show ?thesis
    by (simp add: py_strip_def py_lstrip_def py_rstrip_def)
qed

lemma py_strip_Nil [simp]: "py_strip [] = []"
  by (simp add: py_strip_def py_lstrip_def py_rstrip_def)

section \<open>Decimal numerals\<close>

function dec :: "int \<Rightarrow> string" where
  "dec n = (if n < 10 then [char_of (48 + n)] else dec (n div 10) @ [char_of (48 + n mod 10)])"
  by pat_completeness auto
termination
  by (relation "measure nat") auto

declare dec.simps [simp del]

definition str_int :: "int \<Rightarrow> string" where
  "str_int n = (if n < 0 then CHR ''-'' # dec (- n) else dec n)"

definition digit_val :: "char \<Rightarrow> int" where
  "digit_val c = of_char c - 48"

text \<open>
  The digits of \<open>int(s)\<close>: a single underscore is allowed between two digits. The flag
  says whether the previous character was a digit.
\<close>

fun parse_digits :: "int \<Rightarrow> bool \<Rightarrow> string \<Rightarrow> int option" where
  "parse_digits acc p [] = (if p then Some acc else None)"
| "parse_digits acc p (c # cs) =
     (if py_isdigit c then parse_digits (10 * acc + digit_val c) True cs
      else if c = CHR ''_'' \<and> p then parse_digits acc False cs else None)"

definition int_of_string :: "string \<Rightarrow> int option" where
  "int_of_string s =
     (case py_strip s of
        [] \<Rightarrow> None
      | c # cs \<Rightarrow>
          if c = CHR ''-'' then map_option uminus (parse_digits 0 False cs)
          else if c = CHR ''+'' then parse_digits 0 False cs
          else parse_digits 0 False (c # cs))"

lemma digit_char:
  assumes "0 \<le> d" "d < 10"
  shows "py_isdigit (char_of (48 + d :: int))" "digit_val (char_of (48 + d)) = d"
    "\<not> py_isspace (char_of (48 + d))" "char_of (48 + d) \<noteq> CHR ''-''"
    "char_of (48 + d) \<noteq> CHR ''+''"
proof -
  have m: "(48 + d) mod 256 = 48 + d"
    using assms by simp
  then have o: "of_char (char_of (48 + d)) = 48 + d"
    by simp
  show "py_isdigit (char_of (48 + d :: int))" "digit_val (char_of (48 + d)) = d"
    "\<not> py_isspace (char_of (48 + d))"
    using assms by (simp_all add: py_isdigit_def digit_val_def py_isspace_def o Let_def)
  show "char_of (48 + d) \<noteq> CHR ''-''" "char_of (48 + d) \<noteq> CHR ''+''"
    using assms o by (auto dest!: arg_cong [where f = "of_char :: char \<Rightarrow> int"] simp del: of_char_of)
qed

lemma dec_digits: "0 \<le> n \<Longrightarrow> \<forall>c \<in> set (dec n). py_isdigit c \<and> \<not> py_isspace c \<and> c \<noteq> CHR ''-'' \<and> c \<noteq> CHR ''+''"
proof (induction n rule: dec.induct)
  case (1 n)
  show ?case
  proof (cases "n < 10")
    case True
    with "1.prems" show ?thesis by (auto simp: dec.simps [of n] digit_char)
  next
    case False
    with "1.IH" have "\<forall>c \<in> set (dec (n div 10)). py_isdigit c \<and> \<not> py_isspace c \<and> c \<noteq> CHR ''-'' \<and> c \<noteq> CHR ''+''"
      by simp
    with False show ?thesis by (auto simp: dec.simps [of n] digit_char)
  qed
qed

lemma dec_nonempty [simp]: "dec n \<noteq> []"
  by (subst dec.simps) simp

lemma parse_digits_all:
  "\<forall>c \<in> set ds. py_isdigit c \<Longrightarrow>
   parse_digits acc p ds =
     (if ds = [] \<and> \<not> p then None else Some (foldl (\<lambda>a c. 10 * a + digit_val c) acc ds))"
  by (induction ds arbitrary: acc p) auto

lemma foldl_dec: "0 \<le> n \<Longrightarrow> foldl (\<lambda>a c. 10 * a + digit_val c) 0 (dec n) = n"
proof (induction n rule: dec.induct)
  case (1 n)
  show ?case
  proof (cases "n < 10")
    case True
    with "1.prems" show ?thesis by (simp add: dec.simps [of n] digit_char)
  next
    case False
    with "1.IH" have "foldl (\<lambda>a c. 10 * a + digit_val c) 0 (dec (n div 10)) = n div 10"
      by simp
    with False show ?thesis by (simp add: dec.simps [of n] digit_char)
  qed
qed

lemma parse_dec: "0 \<le> n \<Longrightarrow> parse_digits 0 False (dec n) = Some n"
  using dec_digits [of n] by (simp add: parse_digits_all foldl_dec)

text \<open>Printing an integer and reading it back gives the integer.\<close>

lemma int_of_str_int [simp]: "int_of_string (str_int n) = Some n"
proof (cases "n < 0")
  case True
  have "list_all (\<lambda>c. \<not> py_isspace c) (CHR ''-'' # dec (- n))"
    using dec_digits [of "- n"] True by (auto simp: list_all_iff py_isspace_def)
  with True show ?thesis
    by (simp add: int_of_string_def str_int_def py_strip_nonspace parse_dec)
next
  case False
  then have "list_all (\<lambda>c. \<not> py_isspace c) (dec n)"
    using dec_digits [of n] by (auto simp: list_all_iff)
  moreover obtain c cs where c: "dec n = c # cs"
    by (cases "dec n") auto
  moreover have "c \<noteq> CHR ''-'' \<and> c \<noteq> CHR ''+''"
    using dec_digits [of n] False unfolding c by simp
  ultimately show ?thesis
    using False parse_dec [of n] by (simp add: int_of_string_def str_int_def py_strip_nonspace)
qed

lemma str_int_inject [simp]: "str_int m = str_int n \<longleftrightarrow> m = n"
proof
  assume "str_int m = str_int n"
  then have "int_of_string (str_int m) = int_of_string (str_int n)" by simp
  then show "m = n" by simp
qed simp

lemma str_int_nonempty [simp]: "str_int n \<noteq> []"
  by (simp add: str_int_def)

lemma py_strip_str_int [simp]: "py_strip (str_int n) = str_int n"
proof (rule py_strip_nonspace)
  show "list_all (\<lambda>c. \<not> py_isspace c) (str_int n)"
    using dec_digits [of n] dec_digits [of "- n"]
    by (auto simp: list_all_iff str_int_def py_isspace_def)
qed

section \<open>JSON-like values\<close>

datatype pyval =
    PNone
  | PBool bool
  | PInt int
  | PStr string
  | PList "pyval list"
  | PDict "(string \<times> pyval) list"

type_synonym entry = "(string \<times> pyval) list"

fun truthy :: "pyval \<Rightarrow> bool" where
  "truthy PNone = False"
| "truthy (PBool b) = b"
| "truthy (PInt i) = (i \<noteq> 0)"
| "truthy (PStr s) = (s \<noteq> [])"
| "truthy (PList xs) = (xs \<noteq> [])"
| "truthy (PDict kvs) = (kvs \<noteq> [])"

text \<open>\<open>x or y\<close>.\<close>

definition py_or :: "pyval \<Rightarrow> pyval \<Rightarrow> pyval" where
  "py_or x y = (if truthy x then x else y)"

definition hex_digit :: "int \<Rightarrow> char" where
  "hex_digit n = char_of (if n < 10 then 48 + n else 87 + n)"

definition repr_char :: "char \<Rightarrow> char \<Rightarrow> string" where
  "repr_char q c = (let n = (of_char c :: int) in
     if c = q \<or> n = 92 then [CHR 0x5C, c]
     else if n = 9 then [CHR 0x5C, CHR ''t'']
     else if n = 10 then [CHR 0x5C, CHR ''n'']
     else if n = 13 then [CHR 0x5C, CHR ''r'']
     else if n < 32 \<or> (127 \<le> n \<and> n < 161) \<or> n = 173
     then [CHR 0x5C, CHR ''x'', hex_digit (n div 16), hex_digit (n mod 16)]
     else [c])"

definition repr_string :: "string \<Rightarrow> string" where
  "repr_string s =
     (let q = (if CHR 0x27 \<in> set s \<and> CHR 0x22 \<notin> set s then CHR 0x22 else CHR 0x27)
      in q # concat (map (repr_char q) s) @ [q])"

primrec py_repr :: "pyval \<Rightarrow> string" where
  "py_repr PNone = ''None''"
| "py_repr (PBool b) = (if b then ''True'' else ''False'')"
| "py_repr (PInt i) = str_int i"
| "py_repr (PStr s) = repr_string s"
| "py_repr (PList xs) = ''['' @ intercalate '', '' (map py_repr xs) @ '']''"
| "py_repr (PDict kvs) =
     ''{'' @ intercalate '', ''
        (map (\<lambda>(k, r). repr_string k @ '': '' @ r) (map (map_prod id py_repr) kvs)) @ ''}''"

fun py_str :: "pyval \<Rightarrow> string" where
  "py_str (PStr s) = s"
| "py_str v = py_repr v"

text \<open>\<open>int(v)\<close>: a string is parsed, \<open>None\<close>, lists and dictionaries are a \<open>TypeError\<close>.\<close>

fun py_int :: "pyval \<Rightarrow> exn + int" where
  "py_int (PBool b) = Inr (if b then 1 else 0)"
| "py_int (PInt i) = Inr i"
| "py_int (PStr s) = (case int_of_string s of None \<Rightarrow> Inl (ValueError ''int'') | Some i \<Rightarrow> Inr i)"
| "py_int v = Inl TypeError"

text \<open>\<open>d.get(k)\<close> and \<open>d.get(k, default)\<close> on a dictionary.\<close>

definition dget :: "entry \<Rightarrow> string \<Rightarrow> pyval" where
  "dget e k = (case map_of e k of None \<Rightarrow> PNone | Some v \<Rightarrow> v)"

definition dget_or :: "entry \<Rightarrow> string \<Rightarrow> pyval \<Rightarrow> pyval" where
  "dget_or e k d = (case map_of e k of None \<Rightarrow> d | Some v \<Rightarrow> v)"

definition has_key :: "entry \<Rightarrow> string \<Rightarrow> bool" where
  "has_key e k = (map_of e k \<noteq> None)"

text \<open>The two coercions the code applies to almost every field it reads.\<close>

definition str_field :: "entry \<Rightarrow> string \<Rightarrow> string" where
  \<comment> \<open>\<open>str(e.get(k) or "").strip()\<close>\<close>
  "str_field e k = py_strip (py_str (py_or (dget e k) (PStr [])))"

definition raw_str_field :: "entry \<Rightarrow> string \<Rightarrow> string" where
  \<comment> \<open>\<open>str(e.get(k) or "")\<close>\<close>
  "raw_str_field e k = py_str (py_or (dget e k) (PStr []))"

definition int_field :: "entry \<Rightarrow> string \<Rightarrow> exn + int" where
  \<comment> \<open>\<open>int(e.get(k) or 0)\<close>\<close>
  "int_field e k = py_int (py_or (dget e k) (PInt 0))"

fun as_dict :: "pyval \<Rightarrow> entry option" where
  "as_dict (PDict kvs) = Some kvs"
| "as_dict v = None"

fun as_list :: "pyval \<Rightarrow> pyval list option" where
  "as_list (PList xs) = Some xs"
| "as_list v = None"

definition is_dict :: "pyval \<Rightarrow> bool" where
  "is_dict v = (as_dict v \<noteq> None)"

lemmas pyval_simps [py_defs] =
  py_or_def dget_def dget_or_def has_key_def str_field_def raw_str_field_def int_field_def is_dict_def

lemmas string_simps [py_defs] =
  py_strip_def py_lstrip_def py_rstrip_def py_isspace_def py_lower_def py_lower_char_def
  py_isdigit_def startswith_def partition_on_def

lemma is_dict_iff [simp]: "is_dict v \<longleftrightarrow> (\<exists>kvs. v = PDict kvs)"
  by (cases v) (auto simp: is_dict_def)

lemma as_dict_Some [simp]: "as_dict v = Some kvs \<longleftrightarrow> v = PDict kvs"
  by (cases v) auto

lemma as_dict_None: "as_dict v = None \<longleftrightarrow> (\<forall>kvs. v \<noteq> PDict kvs)"
  by (cases v) auto

lemma as_list_Some [simp]: "as_list v = Some xs \<longleftrightarrow> v = PList xs"
  by (cases v) auto

lemma dget_update [simp]: "dget (AList.update k v e) j = (if j = k then v else dget e j)"
  by (simp add: dget_def update_conv')

lemma str_field_strip [simp]: "py_strip (str_field e k) = str_field e k"
  by (simp add: str_field_def)

lemma int_field_PInt: "dget e k = PInt i \<Longrightarrow> int_field e k = Inr i"
  by (cases "i = 0") (simp_all add: int_field_def py_or_def)

lemma raw_str_field_PStr: "dget e k = PStr s \<Longrightarrow> raw_str_field e k = s"
  by (simp add: raw_str_field_def py_or_def)

lemma str_field_PStr: "dget e k = PStr s \<Longrightarrow> str_field e k = py_strip s"
  by (simp add: str_field_def py_or_def)

section \<open>Dictionaries as association lists\<close>

abbreviation keys_of :: "('k \<times> 'v) list \<Rightarrow> 'k list" where
  "keys_of al \<equiv> map fst al"

abbreviation unique_keys :: "('k \<times> 'v) list \<Rightarrow> bool" where
  "unique_keys al \<equiv> distinct (map fst al)"

lemma map_of_update [simp]: "map_of (AList.update k v al) = (map_of al)(k \<mapsto> v)"
  by (rule update_conv')

lemma map_of_delete [simp]: "map_of (AList.delete k al) = (map_of al)(k := None)"
  by (rule delete_conv')

lemma unique_keys_delete [simp]: "unique_keys al \<Longrightarrow> unique_keys (AList.delete k al)"
  by (rule distinct_delete)

lemma length_delete_mem:
  "unique_keys al \<Longrightarrow> length (AList.delete k al) = (if k \<in> fst ` set al then length al - 1 else length al)"
proof (induction al)
  case Nil
  then show ?case by simp
next
  case (Cons p al)
  show ?case
  proof (cases "fst p = k")
    case True
    with Cons.prems have "k \<notin> fst ` set al" by auto
    with True Cons show ?thesis by (cases p) (simp add: delete_id)
  next
    case False
    with Cons show ?thesis
      by (cases p) (auto simp: neq_Nil_conv dest: split_list)
  qed
qed

lemma update_new: "k \<notin> fst ` set al \<Longrightarrow> AList.update k v al = al @ [(k, v)]"
  by (induction al) auto

lemma map_of_Some_iff_mem: "unique_keys al \<Longrightarrow> map_of al k = Some v \<longleftrightarrow> (k, v) \<in> set al"
  by (simp add: map_of_eq_Some_iff)

section \<open>Pure code that may raise\<close>

definition sbind :: "exn + 'a \<Rightarrow> ('a \<Rightarrow> exn + 'b) \<Rightarrow> exn + 'b" where
  "sbind r k = (case r of Inl e \<Rightarrow> Inl e | Inr x \<Rightarrow> k x)"

lemma sbind_simps [simp]: "sbind (Inl e) k = Inl e" "sbind (Inr x) k = k x"
  by (simp_all add: sbind_def)

lemma sbind_Inr: "sbind r k = Inr y \<longleftrightarrow> (\<exists>x. r = Inr x \<and> k x = Inr y)"
  by (cases r) auto

text \<open>A list comprehension whose body may raise: the first exception wins.\<close>

primrec traverse :: "('a \<Rightarrow> exn + 'b) \<Rightarrow> 'a list \<Rightarrow> exn + 'b list" where
  "traverse f [] = Inr []"
| "traverse f (x # xs) = sbind (f x) (\<lambda>y. sbind (traverse f xs) (\<lambda>ys. Inr (y # ys)))"

lemma traverse_Inr: "traverse f xs = Inr ys \<longleftrightarrow> list_all2 (\<lambda>x y. f x = Inr y) xs ys"
  by (induction xs arbitrary: ys) (auto simp: sbind_Inr list_all2_Cons1)

lemma traverse_total: "(\<And>x. x \<in> set xs \<Longrightarrow> f x = Inr (g x)) \<Longrightarrow> traverse f xs = Inr (map g xs)"
  by (induction xs) auto

lemma list_all2_right: "list_all2 P xs ys \<Longrightarrow> y \<in> set ys \<Longrightarrow> \<exists>x \<in> set xs. P x y"
  by (induction rule: list_all2_induct) auto

text \<open>\<open>for x in v\<close>: the items of a list, the keys of a dictionary, the characters of a string.\<close>

fun py_iter :: "pyval \<Rightarrow> exn + pyval list" where
  "py_iter (PList xs) = Inr xs"
| "py_iter (PDict kvs) = Inr (map (\<lambda>(k, _). PStr k) kvs)"
| "py_iter (PStr s) = Inr (map (\<lambda>c. PStr [c]) s)"
| "py_iter v = Inl TypeError"

text \<open>
  \<open>dict(v)\<close>: a dictionary is copied, a sequence must consist of two-element items. Keys
  are strings throughout the model; an item with another key is a \<open>TypeError\<close> here.
\<close>

fun dict_item :: "pyval \<Rightarrow> exn + (string \<times> pyval)" where
  "dict_item (PList [PStr k, v]) = Inr (k, v)"
| "dict_item (PStr [a, b]) = Inr ([a], PStr [b])"
| "dict_item (PList xs) = (if length xs = 2 then Inl TypeError else Inl (ValueError ''dict''))"
| "dict_item (PStr s) = Inl (ValueError ''dict'')"
| "dict_item v = Inl TypeError"

fun py_dict :: "pyval \<Rightarrow> exn + entry" where
  "py_dict (PDict kvs) = Inr kvs"
| "py_dict (PList xs) =
     sbind (traverse dict_item xs) (\<lambda>its. Inr (fold (\<lambda>(k, v). AList.update k v) its []))"
| "py_dict (PStr s) = (if s = [] then Inr [] else Inl (ValueError ''dict''))"
| "py_dict v = Inl TypeError"

end
