(* ===== verification/Id_Map.thy ===== *)
theory Id_Map
  imports Py_Values
begin

text \<open>
  \<open>rocketcat_shell/bridge/id_map.py\<close>: the surrogate-id map \<open>DurableIdMap\<close> kept in
  one JSON file. A payload holds, for each namespace, a counter, the forward map from
  Rocket.Chat ids to OneBot surrogate ids and the reverse map from the decimal text of
  a surrogate id to the Rocket.Chat id. The \<open>message\<close> namespace is a bounded window:
  the oldest entries are dropped when it overflows, and the surviving entries are
  renumbered from 1 once the counter reaches twice the window.

  The locale \<open>id_store\<close> is the contract that the rest of the bridge relies on
  (allocate, look up in both directions); it is interpreted here on the JSON map and in
  \<open>Hot_State\<close> on the in-memory engine.
\<close>

section \<open>Namespaces and payload\<close>

datatype ns = NsRoom | NsMessage | NsThread | NsContext

definition all_ns :: "ns list" where
  "all_ns = [NsRoom, NsMessage, NsThread, NsContext]"

fun bases :: "ns \<Rightarrow> int" where
  "bases NsRoom = 2000000000"
| "bases NsMessage = 3000000000"
| "bases NsThread = 4000000000"
| "bases NsContext = 5000000000"

fun ns_name :: "ns \<Rightarrow> string" where
  "ns_name NsRoom = ''room''"
| "ns_name NsMessage = ''message''"
| "ns_name NsThread = ''thread''"
| "ns_name NsContext = ''context''"

definition ns_of_name :: "string \<Rightarrow> ns option" where
  "ns_of_name s = find (\<lambda>n. ns_name n = s) all_ns"

record id_mapping =
  im_namespace :: string
  im_source_id :: string
  im_surrogate_id :: int

record window_snapshot =
  ws_active :: "(string \<times> int) list"
  ws_changed :: bool
  ws_removed :: int
  ws_compacted :: bool
  ws_active_count :: int
  ws_max_entries :: int

record id_payload =
  counters :: "ns \<Rightarrow> int"
  forward :: "ns \<Rightarrow> (string \<times> int) list"
  reverse :: "ns \<Rightarrow> (string \<times> string) list"

definition default_window :: int where
  "default_window = 1000"

definition normalize_window :: "pyval \<Rightarrow> int" where
  "normalize_window v =
     (case py_int v of
        Inl e \<Rightarrow> default_window
      | Inr n \<Rightarrow> if n > 0 then n else default_window)"

definition message_window_lower_surrogate_id :: int where
  "message_window_lower_surrogate_id = bases NsMessage + 1"

definition message_window_upper_surrogate_id :: "pyval \<Rightarrow> int" where
  "message_window_upper_surrogate_id v = bases NsMessage + normalize_window v"

definition message_reset_counter :: "pyval \<Rightarrow> int" where
  "message_reset_counter v = normalize_window v * 2"

definition message_reset_surrogate_id :: "pyval \<Rightarrow> int" where
  "message_reset_surrogate_id v = bases NsMessage + message_reset_counter v"

definition empty_payload :: id_payload where
  "empty_payload = \<lparr>counters = (\<lambda>_. 0), forward = (\<lambda>_. []), reverse = (\<lambda>_. [])\<rparr>"

text \<open>
  The map object: the window size of the object and the payload in its file. A file that
  does not exist yet is read as the empty payload.
\<close>

record durable_map =
  dm_window :: int
  dm_payload :: id_payload

section \<open>Window maintenance\<close>

text \<open>\<open>sorted(reverse.items(), key=lambda item: int(item[0]))\<close>: a stable sort on the parsed key.\<close>

definition key_int :: "string \<Rightarrow> int" where
  "key_int k = (case int_of_string k of None \<Rightarrow> 0 | Some i \<Rightarrow> i)"

definition ordered_reverse :: "(string \<times> string) list \<Rightarrow> exn + (string \<times> string) list" where
  "ordered_reverse r =
     (if list_all (\<lambda>(k, _). int_of_string k \<noteq> None) r
      then Inr (sort_key (\<lambda>(k, _). key_int k) r)
      else Inl (ValueError ''int''))"

fun evict :: "(string \<times> string) list \<Rightarrow> (string \<times> int) list \<Rightarrow> (string \<times> string) list \<Rightarrow>
    (string \<times> int) list \<times> (string \<times> string) list" where
  "evict [] f r = (f, r)"
| "evict ((sk, src) # es) f r = evict es (AList.delete src f) (AList.delete sk r)"

text \<open>
  The renumbering loop: the forward map under construction, the reverse map under
  construction and whether some id changed. \<open>int(forward.get(source_key) or 0)\<close> is the
  old id, 0 when the key is missing.
\<close>

fun renumber :: "(string \<times> int) list \<Rightarrow> int \<Rightarrow> string list \<Rightarrow> (string \<times> int) list \<Rightarrow>
    (string \<times> string) list \<Rightarrow> bool \<Rightarrow> (string \<times> int) list \<times> (string \<times> string) list \<times> bool" where
  "renumber old i [] nf nr ch = (nf, nr, ch)"
| "renumber old i (s # ss) nf nr ch =
     (let new_id = bases NsMessage + i;
          old_id = (case map_of old s of None \<Rightarrow> 0 | Some j \<Rightarrow> j)
      in renumber old (i + 1) ss (AList.update s new_id nf) (AList.update (str_int new_id) s nr)
           (ch \<or> old_id \<noteq> new_id))"

definition compact_message_window :: "id_payload \<Rightarrow> exn + (bool \<times> id_payload)" where
  "compact_message_window p =
     (case ordered_reverse (reverse p NsMessage) of
        Inl e \<Rightarrow> Inl e
      | Inr items \<Rightarrow>
          (let sources = map snd items in
           if sources = [] then
             Inr (False, p\<lparr>counters := (counters p)(NsMessage := 0)\<rparr>)
           else
             (case renumber (forward p NsMessage) 1 sources [] [] False of
                (nf, nr, ch) \<Rightarrow>
                  Inr (ch, p\<lparr>forward := (forward p)(NsMessage := nf),
                            reverse := (reverse p)(NsMessage := nr),
                            counters := (counters p)(NsMessage := int (length sources))\<rparr>))))"

definition trim_overflow :: "int \<Rightarrow> id_payload \<Rightarrow> exn + (int \<times> id_payload)" where
  "trim_overflow w p =
     (let overflow = int (length (forward p NsMessage)) - w in
      if overflow > 0 then
        (case ordered_reverse (reverse p NsMessage) of
           Inl e \<Rightarrow> Inl e
         | Inr items \<Rightarrow>
             (case evict (take (nat overflow) items) (forward p NsMessage) (reverse p NsMessage) of
                (f, r) \<Rightarrow> Inr (overflow, p\<lparr>forward := (forward p)(NsMessage := f),
                                         reverse := (reverse p)(NsMessage := r)\<rparr>)))
      else Inr (0, p))"

definition maintain_message_window ::
    "int \<Rightarrow> bool \<Rightarrow> bool \<Rightarrow> id_payload \<Rightarrow> exn + (window_snapshot option \<times> id_payload)" where
  "maintain_message_window w force_compact always p =
     (case trim_overflow w p of
        Inl e \<Rightarrow> Inl e
      | Inr (removed, p1) \<Rightarrow>
          (let due = force_compact \<or> counters p1 NsMessage \<ge> message_reset_counter (PInt w);
               step = (if due then
                         (case compact_message_window p1 of
                            Inl e \<Rightarrow> Inl e
                          | Inr (ch, p2) \<Rightarrow> Inr (forward p1 NsMessage \<noteq> [], ch \<or> removed > 0, p2))
                       else Inr (False, removed > 0, p1))
           in case step of
                Inl e \<Rightarrow> Inl e
              | Inr (compacted, changed, p2) \<Rightarrow>
                  (if \<not> changed \<and> \<not> always then Inr (None, p2)
                   else Inr (Some \<lparr>ws_active = forward p2 NsMessage, ws_changed = changed,
                               ws_removed = removed, ws_compacted = compacted,
                               ws_active_count = int (length (forward p2 NsMessage)),
                               ws_max_entries = w\<rparr>, p2))))"

section \<open>Operations\<close>

text \<open>
  \<open>JsonStore.mutate\<close> writes the file only when the mutator returned, so a raise leaves
  the payload as it was. The result of \<open>get_or_create\<close> is the mapping and the window
  snapshot that \<open>_notify_message_window_changed\<close> is called with.
\<close>

definition get_or_create :: "string \<Rightarrow> string \<Rightarrow> (durable_map, id_mapping \<times> window_snapshot option) action" where
  "get_or_create namespace source_key d =
     (case ns_of_name namespace of
        None \<Rightarrow> (Inl (KeyError (''unsupported namespace: '' @ namespace)), d)
      | Some n \<Rightarrow>
          (let p = dm_payload d in
           case map_of (forward p n) source_key of
             Some i \<Rightarrow> (Inr (\<lparr>im_namespace = namespace, im_source_id = source_key, im_surrogate_id = i\<rparr>, None), d)
           | None \<Rightarrow>
               (let c = counters p n + 1;
                    i = bases n + c;
                    p1 = p\<lparr>counters := (counters p)(n := c),
                           forward := (forward p)(n := AList.update source_key i (forward p n)),
                           reverse := (reverse p)(n := AList.update (str_int i) source_key (reverse p n))\<rparr>
                in if n = NsMessage then
                     (case maintain_message_window (dm_window d) False False p1 of
                        Inl e \<Rightarrow> (Inl e, d)
                      | Inr (snap, p2) \<Rightarrow>
                          (case map_of (forward p2 NsMessage) source_key of
                             None \<Rightarrow> (Inl (KeyError source_key), d)
                           | Some j \<Rightarrow>
                               (Inr (\<lparr>im_namespace = namespace, im_source_id = source_key,
                                      im_surrogate_id = j\<rparr>, snap), d\<lparr>dm_payload := p2\<rparr>)))
                   else (Inr (\<lparr>im_namespace = namespace, im_source_id = source_key,
                               im_surrogate_id = i\<rparr>, None), d\<lparr>dm_payload := p1\<rparr>))))"

definition rebuild_message_window :: "bool \<Rightarrow> (durable_map, window_snapshot) action" where
  "rebuild_message_window force_compact d =
     (case maintain_message_window (dm_window d) force_compact True (dm_payload d) of
        Inl e \<Rightarrow> (Inl e, d)
      | Inr (None, p) \<Rightarrow>
          (Inr \<lparr>ws_active = [], ws_changed = False, ws_removed = 0, ws_compacted = False,
                ws_active_count = 0, ws_max_entries = dm_window d\<rparr>, d\<lparr>dm_payload := p\<rparr>)
      | Inr (Some snap, p) \<Rightarrow> (Inr snap, d\<lparr>dm_payload := p\<rparr>))"

definition notify_active :: "window_snapshot option \<Rightarrow> (string \<times> int) list option" where
  \<comment> \<open>the argument the registered callback is called with, if it is called\<close>
  "notify_active snap =
     (case snap of None \<Rightarrow> None | Some w \<Rightarrow> if ws_changed w then Some (ws_active w) else None)"

definition get_source :: "string \<Rightarrow> string \<Rightarrow> durable_map \<Rightarrow> exn + string option" where
  "get_source namespace surrogate d =
     (case ns_of_name namespace of
        None \<Rightarrow> Inl (KeyError (''unsupported namespace: '' @ namespace))
      | Some n \<Rightarrow> Inr (map_of (reverse (dm_payload d) n) surrogate))"

definition get_surrogate :: "string \<Rightarrow> string \<Rightarrow> durable_map \<Rightarrow> exn + int option" where
  "get_surrogate namespace source_id d =
     (case ns_of_name namespace of
        None \<Rightarrow> Inl (KeyError (''unsupported namespace: '' @ namespace))
      | Some n \<Rightarrow> Inr (map_of (forward (dm_payload d) n) source_id))"

definition set_message_window_size :: "pyval \<Rightarrow> durable_map \<Rightarrow> durable_map" where
  "set_message_window_size v d = d\<lparr>dm_window := normalize_window v\<rparr>"

definition snapshot_to_dict :: "window_snapshot \<Rightarrow> entry" where
  "snapshot_to_dict w =
     [(''changed'', PBool (ws_changed w)),
      (''removed_count'', PInt (ws_removed w)),
      (''compacted'', PBool (ws_compacted w)),
      (''active_count'', PInt (ws_active_count w)),
      (''max_entries'', PInt (ws_max_entries w)),
      (''highest_surrogate_id'',
         (if ws_active w = [] then PNone else PInt (Max (set (map snd (ws_active w)))))),
      (''reset_surrogate_id'', PInt (message_reset_surrogate_id (PInt (ws_max_entries w))))]"

section \<open>The two maps mirror each other\<close>

definition rev_pair :: "string \<times> int \<Rightarrow> string \<times> string" where
  "rev_pair p = (str_int (snd p), fst p)"

definition mirrors :: "(string \<times> int) list \<Rightarrow> (string \<times> string) list \<Rightarrow> bool" where
  "mirrors f r \<longleftrightarrow> unique_keys f \<and> unique_keys r \<and> set r = rev_pair ` set f"

lemma rev_pair_simp [simp]: "rev_pair (s, i) = (str_int i, s)"
  by (simp add: rev_pair_def)

lemma inj_rev_pair: "inj rev_pair"
  by (auto simp: inj_def rev_pair_def)

lemma mirrors_Nil [simp]: "mirrors [] []"
  by (simp add: mirrors_def)

lemma mirrors_mem: "mirrors f r \<Longrightarrow> (k, s) \<in> set r \<longleftrightarrow> (\<exists>i. k = str_int i \<and> (s, i) \<in> set f)"
  by (force simp: mirrors_def rev_pair_def)

lemma mirrors_lookup:
  assumes "mirrors f r"
  shows "map_of r (str_int i) = Some s \<longleftrightarrow> map_of f s = Some i"
  using assms mirrors_mem [OF assms, of "str_int i" s]
  by (simp add: mirrors_def map_of_Some_iff_mem)

lemma mirrors_values:
  assumes "mirrors f r" "(s, i) \<in> set f" "(t, i) \<in> set f"
  shows "s = t"
proof -
  from assms have "(str_int i, s) \<in> set r" "(str_int i, t) \<in> set r"
    by (auto simp: mirrors_mem)
  moreover have "unique_keys r"
    using assms(1) by (simp add: mirrors_def)
  ultimately show ?thesis
    by (metis eq_key_imp_eq_value)
qed

lemma mirrors_length: "mirrors f r \<Longrightarrow> length r = length f"
  unfolding mirrors_def
  by (metis card_image distinct_card distinct_map inj_on_subset inj_rev_pair subset_UNIV)

lemma mirrors_insert:
  assumes m: "mirrors f r" and s: "map_of f s = None" and i: "\<And>t. (t, i) \<notin> set f"
  shows "mirrors (AList.update s i f) (AList.update (str_int i) s r)"
proof -
  have sf: "s \<notin> fst ` set f"
    using s by (simp add: map_of_eq_None_iff)
  have "str_int i \<notin> fst ` set r"
    using m i by (auto simp: mirrors_def rev_pair_def)
  with m sf show ?thesis
    by (simp add: mirrors_def update_new)
qed

lemma set_delete_unique:
  "unique_keys al \<Longrightarrow> (k, v) \<in> set al \<Longrightarrow> set (AList.delete k al) = set al - {(k, v)}"
  by (auto simp: AList.delete_eq dest: eq_key_imp_eq_value)

lemma mirrors_delete:
  assumes m: "mirrors f r" and p: "(s, i) \<in> set f"
  shows "mirrors (AList.delete s f) (AList.delete (str_int i) r)"
proof -
  have "(str_int i, s) \<in> set r"
    using m p by (simp add: mirrors_mem)
  then have "set (AList.delete (str_int i) r) = set r - {(str_int i, s)}"
    using m by (intro set_delete_unique) (auto simp: mirrors_def)
  also have "\<dots> = rev_pair ` (set f - {(s, i)})"
    using m inj_rev_pair by (simp add: mirrors_def image_set_diff)
  also have "set f - {(s, i)} = set (AList.delete s f)"
    using m p by (intro set_delete_unique [symmetric]) (auto simp: mirrors_def)
  finally show ?thesis
    using m by (simp add: mirrors_def)
qed

text \<open>Evicting a list of reverse entries removes exactly the mirrored forward entries.\<close>

lemma evict_mirrors:
  assumes "mirrors f r" "set es \<subseteq> set r" "distinct es" "evict es f r = (f', r')"
  shows "mirrors f' r' \<and> set r' = set r - set es \<and> set f' \<subseteq> set f"
  using assms
proof (induction es arbitrary: f r)
  case Nil
  then show ?case by simp
next
  case (Cons e es)
  obtain k s where e: "e = (k, s)" by (cases e)
  with Cons.prems obtain i where p: "(s, i) \<in> set f" "k = str_int i"
    by (auto simp: mirrors_def rev_pair_def)
  have er: "(k, s) \<in> set r" using Cons.prems e by simp
  have ur: "set (AList.delete k r) = set r - {(k, s)}"
    using Cons.prems(1) er by (intro set_delete_unique) (auto simp: mirrors_def)
  have "set es \<subseteq> set (AList.delete k r)"
    using Cons.prems(2,3) e ur by auto
  moreover have "mirrors (AList.delete s f) (AList.delete k r)"
    using Cons.prems(1) p by (simp add: mirrors_delete)
  moreover have "evict es (AList.delete s f) (AList.delete k r) = (f', r')"
    using Cons.prems(4) e by simp
  ultimately have "mirrors f' r' \<and> set r' = set (AList.delete k r) - set es
      \<and> set f' \<subseteq> set (AList.delete s f)"
    using Cons.prems(3) by (intro Cons.IH) auto
  with e ur show ?case by (auto simp: AList.delete_eq)
qed

lemma ordered_reverse_mirrors:
  assumes "mirrors f r"
  shows "ordered_reverse r = Inr (sort_key (\<lambda>(k, _). key_int k) r)"
  using assms by (auto simp: ordered_reverse_def mirrors_def list_all_iff rev_pair_def)

text \<open>
  Trimming keeps the mirror, leaves at most \<open>w\<close> entries, and what it drops is older
  (has a smaller id) than everything it keeps.
\<close>

lemma trim_overflow_spec:
  assumes m: "mirrors (forward p NsMessage) (reverse p NsMessage)" and w: "0 \<le> w"
    and t: "trim_overflow w p = Inr (removed, p')"
  shows "mirrors (forward p' NsMessage) (reverse p' NsMessage)
    \<and> int (length (forward p' NsMessage)) = min w (int (length (forward p NsMessage)))
    \<and> set (forward p' NsMessage) \<subseteq> set (forward p NsMessage)
    \<and> (\<forall>s i t j. (s, i) \<in> set (forward p NsMessage) - set (forward p' NsMessage)
         \<longrightarrow> (t, j) \<in> set (forward p' NsMessage) \<longrightarrow> i < j)
    \<and> counters p' = counters p \<and> (\<forall>n. n \<noteq> NsMessage \<longrightarrow> forward p' n = forward p n \<and> reverse p' n = reverse p n)"
proof (cases "int (length (forward p NsMessage)) - w > 0")
  case False
  with t m w show ?thesis by (simp add: trim_overflow_def Let_def)
next
  case True
  let ?f = "forward p NsMessage" and ?r = "reverse p NsMessage"
  let ?items = "sort_key (\<lambda>(k, _). key_int k) ?r"
  let ?n = "nat (int (length ?f) - w)"
  obtain f' r' where e: "evict (take ?n ?items) ?f ?r = (f', r')"
    by (cases "evict (take ?n ?items) ?f ?r") simp
  have p': "p' = p\<lparr>forward := (forward p)(NsMessage := f'), reverse := (reverse p)(NsMessage := r')\<rparr>"
    using t True e ordered_reverse_mirrors [OF m] by (auto simp: trim_overflow_def Let_def)
  have d: "distinct ?items"
    using m by (simp add: mirrors_def distinct_map)
  have sub: "set (take ?n ?items) \<subseteq> set ?r"
    by (metis set_sort set_take_subset)
  from evict_mirrors [OF m sub _ e] d
  have ev: "mirrors f' r'" "set r' = set ?r - set (take ?n ?items)" "set f' \<subseteq> set ?f"
    by simp_all
  have split: "set r' = set (drop ?n ?items)"
  proof -
    have "set ?r = set (take ?n ?items) \<union> set (drop ?n ?items)"
      by (metis append_take_drop_id set_append set_sort)
    moreover have "set (take ?n ?items) \<inter> set (drop ?n ?items) = {}"
      using d by (simp add: set_take_disj_set_drop_if_distinct)
    ultimately show ?thesis using ev(2) by blast
  qed
  have "distinct r'"
    using ev(1) by (simp add: mirrors_def distinct_map)
  then have "length r' = card (set r')"
    by (simp add: distinct_card)
  also have "\<dots> = length (drop ?n ?items)"
    unfolding split by (intro distinct_card distinct_drop d)
  finally have "length r' = length (drop ?n ?items)" .
  then have "length f' = length ?f - ?n"
    using mirrors_length [OF ev(1)] mirrors_length [OF m] by simp
  then have len: "int (length f') = min w (int (length ?f))"
    using True w by auto
  have old: "i < j" if si: "(s, i) \<in> set ?f - set f'" and tj: "(t, j) \<in> set f'" for s i t j
  proof -
    have "(str_int i, s) \<in> set ?r - set r'"
      using si by (simp add: mirrors_mem [OF m] mirrors_mem [OF ev(1)])
    with ev(2) have a: "(str_int i, s) \<in> set (take ?n ?items)"
      by blast
    have b: "(str_int j, t) \<in> set (drop ?n ?items)"
      using tj ev(1) split by (metis mirrors_mem)
    have "sorted (map (\<lambda>(k, _). key_int k) (take ?n ?items @ drop ?n ?items))"
      by (metis append_take_drop_id sorted_sort_key)
    then have ord: "\<forall>x \<in> (\<lambda>(k, _). key_int k) ` set (take ?n ?items).
        \<forall>y \<in> (\<lambda>(k, _). key_int k) ` set (drop ?n ?items). x \<le> y"
      unfolding map_append sorted_append set_map by (elim conjE)
    have "key_int (str_int i) \<le> key_int (str_int j)"
      by (rule ord [THEN bspec, THEN bspec, OF rev_image_eqI [OF a] rev_image_eqI [OF b]]) simp_all
    then have "i \<le> j"
      by (simp add: key_int_def)
    moreover have "i \<noteq> j"
      using si tj ev(3) mirrors_values [OF m, of s i t] by auto
    ultimately show ?thesis by simp
  qed
  show ?thesis
    using p' ev len old by auto
qed

text \<open>The renumbering loop in closed form.\<close>

fun number_from :: "int \<Rightarrow> string list \<Rightarrow> (string \<times> int) list" where
  "number_from i [] = []"
| "number_from i (s # ss) = (s, bases NsMessage + i) # number_from (i + 1) ss"

lemma number_from_keys [simp]: "map fst (number_from i ss) = ss"
  by (induction ss arbitrary: i) auto

lemma number_from_length [simp]: "length (number_from i ss) = length ss"
  by (induction ss arbitrary: i) auto

lemma number_from_range:
  "(s, j) \<in> set (number_from i ss) \<Longrightarrow>
     s \<in> set ss \<and> bases NsMessage + i \<le> j \<and> j < bases NsMessage + i + int (length ss)"
  by (induction ss arbitrary: i) fastforce+

lemma renumber_closed:
  assumes "distinct ss" "\<forall>s \<in> set ss. s \<notin> fst ` set nf" "\<forall>k \<in> fst ` set nr. key_int k < bases NsMessage + i"
  shows "\<exists>ch'. renumber old i ss nf nr ch =
    (nf @ number_from i ss, nr @ map rev_pair (number_from i ss), ch')"
  using assms
proof (induction ss arbitrary: i nf nr ch)
  case Nil
  then show ?case by simp
next
  case (Cons s ss)
  let ?id = "bases NsMessage + i"
  have nf: "AList.update s ?id nf = nf @ [(s, ?id)]"
    using Cons.prems by (intro update_new) auto
  have "str_int ?id \<notin> fst ` set nr"
    using Cons.prems(3) by (force simp: key_int_def)
  then have nr: "AList.update (str_int ?id) s nr = nr @ [(str_int ?id, s)]"
    by (rule update_new)
  have "\<forall>k \<in> fst ` set (nr @ [(str_int ?id, s)]). key_int k < bases NsMessage + (i + 1)"
    using Cons.prems(3) by (force simp: key_int_def)
  then have "\<exists>ch'. renumber old (i + 1) ss (nf @ [(s, ?id)]) (nr @ [(str_int ?id, s)])
      (ch \<or> (case map_of old s of None \<Rightarrow> 0 | Some j \<Rightarrow> j) \<noteq> ?id) =
      ((nf @ [(s, ?id)]) @ number_from (i + 1) ss,
       (nr @ [(str_int ?id, s)]) @ map rev_pair (number_from (i + 1) ss), ch')"
    using Cons.prems(1,2) by (intro Cons.IH) auto
  with nf nr show ?case
    by (simp only: renumber.simps Let_def) simp
qed

lemma number_from_mirrors:
  assumes "distinct ss"
  shows "mirrors (number_from i ss) (map rev_pair (number_from i ss))"
proof -
  have "distinct (map snd (number_from i ss))"
  proof (induction ss arbitrary: i)
    case (Cons s ss)
    then show ?case by (fastforce dest: number_from_range)
  qed simp
  then have "distinct (map fst (map rev_pair (number_from i ss)))"
    by (auto simp: distinct_map rev_pair_def inj_on_def)
  with assms show ?thesis
    by (simp add: mirrors_def)
qed

section \<open>Compaction and the window invariant\<close>

definition ids_in_range :: "int \<Rightarrow> int \<Rightarrow> (string \<times> int) list \<Rightarrow> bool" where
  "ids_in_range b c f \<longleftrightarrow> (\<forall>p \<in> set f. b < snd p \<and> snd p \<le> b + c)"

definition ns_inv :: "id_payload \<Rightarrow> ns \<Rightarrow> bool" where
  "ns_inv p n \<longleftrightarrow> mirrors (forward p n) (reverse p n)
     \<and> ids_in_range (bases n) (counters p n) (forward p n) \<and> 0 \<le> counters p n"

definition durable_inv :: "durable_map \<Rightarrow> bool" where
  "durable_inv d \<longleftrightarrow> 1 \<le> dm_window d \<and> (\<forall>n. ns_inv (dm_payload d) n)"

lemma number_from_order:
  assumes "sorted (map h ss)" "(s, a) \<in> set (number_from i ss)" "(t, b) \<in> set (number_from i ss)" "h s < h t"
  shows "a < b"
  using assms
proof (induction ss arbitrary: i)
  case Nil
  then show ?case by simp
next
  case (Cons u ss)
  show ?case
  proof (cases "(t, b) = (u, bases NsMessage + i)")
    case True
    with Cons.prems show ?thesis by (auto dest!: number_from_range)
  next
    case t: False
    then have tb: "(t, b) \<in> set (number_from (i + 1) ss)"
      using Cons.prems(3) by auto
    show ?thesis
    proof (cases "(s, a) = (u, bases NsMessage + i)")
      case True
      with number_from_range [OF tb] show ?thesis by simp
    next
      case False
      with Cons.prems tb show ?thesis by (intro Cons.IH [of "i + 1"]) auto
    qed
  qed
qed

lemma compact_spec:
  assumes m: "mirrors (forward p NsMessage) (reverse p NsMessage)"
  shows "\<exists>ch p'. compact_message_window p = Inr (ch, p') \<and> mirrors (forward p' NsMessage) (reverse p' NsMessage)
    \<and> fst ` set (forward p' NsMessage) = fst ` set (forward p NsMessage)
    \<and> length (forward p' NsMessage) = length (forward p NsMessage)
    \<and> counters p' NsMessage = int (length (forward p NsMessage))
    \<and> ids_in_range (bases NsMessage) (counters p' NsMessage) (forward p' NsMessage)
    \<and> (\<forall>n. n \<noteq> NsMessage \<longrightarrow> forward p' n = forward p n \<and> reverse p' n = reverse p n \<and> counters p' n = counters p n)
    \<and> (\<forall>s i t j i' j'. (s, i) \<in> set (forward p NsMessage) \<longrightarrow> (t, j) \<in> set (forward p NsMessage) \<longrightarrow> i < j
         \<longrightarrow> (s, i') \<in> set (forward p' NsMessage) \<longrightarrow> (t, j') \<in> set (forward p' NsMessage) \<longrightarrow> i' < j')"
proof -
  let ?f = "forward p NsMessage" and ?r = "reverse p NsMessage"
  let ?items = "sort_key (\<lambda>(k, _). key_int k) ?r"
  let ?ss = "map snd ?items"
  have "set ?ss = snd ` set ?r"
    by simp
  also have "\<dots> = snd ` rev_pair ` set ?f"
    using m by (simp only: mirrors_def)
  also have "\<dots> = fst ` set ?f"
    by (simp add: image_image rev_pair_def)
  finally have setss: "set ?ss = fst ` set ?f" .
  have lenss: "length ?ss = length ?f"
    using mirrors_length [OF m] by simp
  have "card (fst ` set ?f) = length ?f"
    using m distinct_card [of "map fst ?f"] by (simp add: mirrors_def)
  then have "card (set ?ss) = length ?ss"
    by (simp only: setss lenss)
  then have dss: "distinct ?ss"
    by (rule card_distinct)
  show ?thesis
  proof (cases "?ss = []")
    case True
    with lenss have f: "?f = []" by simp
    with mirrors_length [OF m] have "?r = []" by simp
    with f show ?thesis
      by (simp add: compact_message_window_def ordered_reverse_def ids_in_range_def ex_bool_eq)
  next
    case False
    obtain ch where rn: "renumber ?f 1 ?ss [] [] False = (number_from 1 ?ss, map rev_pair (number_from 1 ?ss), ch)"
      using renumber_closed [OF dss, of "[]" "[]" 1 ?f False] by auto
    let ?p = "p\<lparr>forward := (forward p)(NsMessage := number_from 1 ?ss),
        reverse := (reverse p)(NsMessage := map rev_pair (number_from 1 ?ss)),
        counters := (counters p)(NsMessage := int (length ?ss))\<rparr>"
    have c: "compact_message_window p = Inr (ch, ?p)"
      using False rn by (simp add: compact_message_window_def ordered_reverse_mirrors [OF m] Let_def)
    have keys: "fst ` set (number_from 1 ?ss) = fst ` set ?f"
      unfolding setss [symmetric] by (metis number_from_keys set_map)
    have range: "ids_in_range (bases NsMessage) (int (length ?ss)) (number_from 1 ?ss)"
      unfolding ids_in_range_def using number_from_range [of _ _ 1 ?ss] by fastforce
    have old: "key_int k = the (map_of ?f s)" if "(k, s) \<in> set ?items" for k s
    proof -
      from that obtain i where "k = str_int i" "(s, i) \<in> set ?f"
        by (auto simp: mirrors_mem [OF m])
      moreover have "unique_keys ?f"
        using m by (simp add: mirrors_def)
      ultimately show ?thesis
        by (simp add: key_int_def)
    qed
    have E: "map (\<lambda>s. the (map_of ?f s)) ?ss = map (\<lambda>(k, _). key_int k) ?items"
      using old by (auto simp: comp_def)
    have srt: "sorted (map (\<lambda>s. the (map_of ?f s)) ?ss)"
      unfolding E by (rule sorted_sort_key)
    have ord: "i' < j'"
      if "(s, i) \<in> set ?f" "(t, j) \<in> set ?f" "i < j"
        "(s, i') \<in> set (number_from 1 ?ss)" "(t, j') \<in> set (number_from 1 ?ss)" for s i t j i' j'
    proof (rule number_from_order [OF srt that(4,5)])
      have "unique_keys ?f"
        using m by (simp add: mirrors_def)
      with that show "the (map_of ?f s) < the (map_of ?f t)"
        by simp
    qed
    show ?thesis
    proof (intro exI conjI)
      show "compact_message_window p = Inr (ch, ?p)" by (rule c)
      show "mirrors (forward ?p NsMessage) (reverse ?p NsMessage)"
        using number_from_mirrors [OF dss, of 1] by simp
      show "fst ` set (forward ?p NsMessage) = fst ` set ?f"
        using keys by simp
      show "length (forward ?p NsMessage) = length ?f" "counters ?p NsMessage = int (length ?f)"
        using lenss by simp_all
      show "ids_in_range (bases NsMessage) (counters ?p NsMessage) (forward ?p NsMessage)"
        using range by simp
      show "\<forall>n. n \<noteq> NsMessage \<longrightarrow> forward ?p n = forward p n \<and> reverse ?p n = reverse p n \<and> counters ?p n = counters p n"
        by simp
      show "\<forall>s i t j i' j'. (s, i) \<in> set ?f \<longrightarrow> (t, j) \<in> set ?f \<longrightarrow> i < j
         \<longrightarrow> (s, i') \<in> set (forward ?p NsMessage) \<longrightarrow> (t, j') \<in> set (forward ?p NsMessage) \<longrightarrow> i' < j'"
        by (intro allI impI, rule ord) simp_all
    qed
  qed
qed

lemma trim_overflow_total:
  "mirrors (forward p NsMessage) (reverse p NsMessage) \<Longrightarrow> \<exists>removed p1. trim_overflow w p = Inr (removed, p1)"
  by (auto simp: trim_overflow_def Let_def ordered_reverse_mirrors split: prod.splits)

text \<open>
  Maintenance after an insertion: it never fails, keeps the invariant, bounds the window
  by \<open>w\<close> and the counter by \<open>2 * w\<close>, and keeps the newest entry.
\<close>

lemma maintain_spec:
  assumes i: "ns_inv p NsMessage" and w: "1 \<le> w"
    and newest: "(k, hi) \<in> set (forward p NsMessage)" "\<forall>(t, j) \<in> set (forward p NsMessage). j \<le> hi"
  shows "\<exists>snap p'. maintain_message_window w fc always p = Inr (snap, p') \<and> ns_inv p' NsMessage
    \<and> int (length (forward p' NsMessage)) \<le> w
    \<and> counters p' NsMessage < 2 * w
    \<and> (\<exists>j. (k, j) \<in> set (forward p' NsMessage))
    \<and> (\<forall>n. n \<noteq> NsMessage \<longrightarrow> forward p' n = forward p n \<and> reverse p' n = reverse p n \<and> counters p' n = counters p n)
    \<and> (\<forall>ws. snap = Some ws \<longrightarrow> ws_active ws = forward p' NsMessage)"
proof -
  have m: "mirrors (forward p NsMessage) (reverse p NsMessage)"
    using i by (simp add: ns_inv_def)
  obtain removed p1 where t: "trim_overflow w p = Inr (removed, p1)"
    using trim_overflow_total [OF m] by blast
  note spec = trim_overflow_spec [OF m _ t]
  have m1: "mirrors (forward p1 NsMessage) (reverse p1 NsMessage)"
    and l1: "int (length (forward p1 NsMessage)) = min w (int (length (forward p NsMessage)))"
    and sub: "set (forward p1 NsMessage) \<subseteq> set (forward p NsMessage)"
    and old: "\<And>s i t j. (s, i) \<in> set (forward p NsMessage) - set (forward p1 NsMessage) \<Longrightarrow>
         (t, j) \<in> set (forward p1 NsMessage) \<Longrightarrow> i < j"
    and c1: "counters p1 = counters p"
    and fr1: "\<And>n. n \<noteq> NsMessage \<Longrightarrow> forward p1 n = forward p n \<and> reverse p1 n = reverse p n"
    using spec w by auto
  have k1: "(k, hi) \<in> set (forward p1 NsMessage)"
  proof (rule ccontr)
    assume no: "(k, hi) \<notin> set (forward p1 NsMessage)"
    have "forward p NsMessage \<noteq> []"
      using newest(1) by auto
    then have "0 < length (forward p NsMessage)"
      by simp
    then have "0 < length (forward p1 NsMessage)"
      using l1 w by linarith
    then obtain t j where tj: "(t, j) \<in> set (forward p1 NsMessage)"
      by (cases "forward p1 NsMessage") auto
    with old [of k hi] newest(1) no have "hi < j" by blast
    with newest(2) sub tj show False by fastforce
  qed
  have i1: "ns_inv p1 NsMessage"
    using i m1 sub c1 by (auto simp: ns_inv_def ids_in_range_def)
  show ?thesis
  proof (cases "fc \<or> counters p1 NsMessage \<ge> message_reset_counter (PInt w)")
    case False
    then have "counters p1 NsMessage < 2 * w"
      using w by (simp add: message_reset_counter_def normalize_window_def)
    with False t i1 l1 k1 c1 fr1 show ?thesis
      by (auto simp: maintain_message_window_def Let_def)
  next
    case True
    obtain ch p2 where c: "compact_message_window p1 = Inr (ch, p2)"
      and m2: "mirrors (forward p2 NsMessage) (reverse p2 NsMessage)"
      and keys: "fst ` set (forward p2 NsMessage) = fst ` set (forward p1 NsMessage)"
      and l2: "length (forward p2 NsMessage) = length (forward p1 NsMessage)"
      and c2: "counters p2 NsMessage = int (length (forward p1 NsMessage))"
      and r2: "ids_in_range (bases NsMessage) (counters p2 NsMessage) (forward p2 NsMessage)"
      and fr2: "\<forall>n. n \<noteq> NsMessage \<longrightarrow> forward p2 n = forward p1 n \<and> reverse p2 n = reverse p1 n \<and> counters p2 n = counters p1 n"
      using compact_spec [OF m1] by blast
    have i2: "ns_inv p2 NsMessage"
      using m2 r2 c2 by (simp add: ns_inv_def)
    have "k \<in> fst ` set (forward p2 NsMessage)"
      using k1 keys by force
    then have k2: "\<exists>j. (k, j) \<in> set (forward p2 NsMessage)"
      by auto
    show ?thesis
      using True t c i2 l1 l2 c2 k2 fr1 fr2 c1 w
      by (auto simp: maintain_message_window_def Let_def)
  qed
qed

lemma ns_of_name_name [simp]: "ns_of_name (ns_name n) = Some n"
  by (cases n) (simp_all add: ns_of_name_def all_ns_def)

lemma ns_of_name_Some: "ns_of_name s = Some n \<Longrightarrow> s = ns_name n"
  by (auto simp: ns_of_name_def find_Some_iff)

text \<open>Allocation on the JSON map: it succeeds, keeps the invariant, and both lookups agree with it.\<close>

lemma durable_invI:
  "1 \<le> dm_window d \<Longrightarrow> (\<And>x. ns_inv p x) \<Longrightarrow> durable_inv (d\<lparr>dm_payload := p\<rparr>)"
  by (simp add: durable_inv_def)

lemma get_or_create_spec:
  assumes d: "durable_inv d" and n: "ns_of_name nm = Some n"
  shows "\<exists>m snap d'. get_or_create nm k d = (Inr (m, snap), d') \<and> durable_inv d'
    \<and> dm_window d' = dm_window d
    \<and> get_surrogate nm k d' = Inr (Some (im_surrogate_id m))
    \<and> get_source nm (str_int (im_surrogate_id m)) d' = Inr (Some k)
    \<and> (get_surrogate nm k d = Inr (Some i) \<longrightarrow> im_surrogate_id m = i \<and> d' = d)
    \<and> (n = NsMessage \<longrightarrow> get_surrogate nm k d = Inr None \<longrightarrow>
         int (length (forward (dm_payload d') NsMessage)) \<le> dm_window d
         \<and> counters (dm_payload d') NsMessage < 2 * dm_window d)"
proof -
  let ?p = "dm_payload d"
  have pi: "ns_inv ?p n" and w: "1 \<le> dm_window d"
    using d by (auto simp: durable_inv_def)
  show ?thesis
  proof (cases "map_of (forward ?p n) k")
    case (Some j)
    with pi have "map_of (reverse ?p n) (str_int j) = Some k"
      by (simp add: mirrors_lookup [of "forward ?p n"] ns_inv_def)
    with Some d n show ?thesis
      by (auto simp add: get_or_create_def get_surrogate_def get_source_def)
  next
    case None
    let ?c = "counters ?p n + 1"
    let ?i = "bases n + ?c"
    let ?p1 = "?p\<lparr>counters := (counters ?p)(n := ?c),
        forward := (forward ?p)(n := AList.update k ?i (forward ?p n)),
        reverse := (reverse ?p)(n := AList.update (str_int ?i) k (reverse ?p n))\<rparr>"
    have fresh: "(t, ?i) \<notin> set (forward ?p n)" for t
      using pi by (force simp: ns_inv_def ids_in_range_def)
    have k: "k \<notin> fst ` set (forward ?p n)"
      using None by (simp add: map_of_eq_None_iff)
    have m1: "mirrors (AList.update k ?i (forward ?p n)) (AList.update (str_int ?i) k (reverse ?p n))"
      using pi None fresh by (simp add: ns_inv_def mirrors_insert)
    have i1: "ns_inv ?p1 n"
      using pi m1 k by (auto simp: ns_inv_def ids_in_range_def update_new)
    have others: "ns_inv ?p1 x" if "x \<noteq> n" for x
      using that d by (simp add: durable_inv_def ns_inv_def)
    show ?thesis
    proof (cases "n = NsMessage")
      case False
      have "ns_inv ?p1 x" for x
        using i1 others [of x] by (cases "x = n") simp_all
      then have "durable_inv (d\<lparr>dm_payload := ?p1\<rparr>)"
        using w by (intro durable_invI)
      with False None n m1 show ?thesis
        by (simp add: get_or_create_def get_surrogate_def get_source_def Let_def)
    next
      case True
      have "\<forall>x \<in> set (forward ?p n). snd x \<le> ?i"
      proof
        fix x assume "x \<in> set (forward ?p n)"
        then have "snd x \<le> bases n + counters ?p n"
          using pi unfolding ns_inv_def ids_in_range_def by blast
        then show "snd x \<le> ?i" by simp
      qed
      then have "\<forall>(t, j) \<in> set (forward ?p1 NsMessage). j \<le> ?i"
        using k True by (auto simp: update_new)
      moreover have "(k, ?i) \<in> set (forward ?p1 NsMessage)"
        using True k by (simp add: update_new)
      ultimately obtain snap p2 j where mt: "maintain_message_window (dm_window d) False False ?p1 = Inr (snap, p2)"
        and i2: "ns_inv p2 NsMessage" and l2: "int (length (forward p2 NsMessage)) \<le> dm_window d"
        and c2: "counters p2 NsMessage < 2 * dm_window d" and j: "(k, j) \<in> set (forward p2 NsMessage)"
        and fr: "\<forall>n. n \<noteq> NsMessage \<longrightarrow> forward p2 n = forward ?p1 n \<and> reverse p2 n = reverse ?p1 n \<and> counters p2 n = counters ?p1 n"
        using maintain_spec [of ?p1 "dm_window d" k ?i False False] i1 w True by blast
      have kj: "map_of (forward p2 NsMessage) k = Some j"
        using j i2 by (simp add: ns_inv_def mirrors_def)
      then have jk: "map_of (reverse p2 NsMessage) (str_int j) = Some k"
        using i2 by (simp add: ns_inv_def mirrors_lookup [of "forward p2 NsMessage"])
      have "ns_inv p2 x" for x
        using i2 others [of x] fr True by (cases "x = NsMessage") (auto simp: ns_inv_def)
      then have "durable_inv (d\<lparr>dm_payload := p2\<rparr>)"
        using w by (simp add: durable_inv_def)
      with True None n mt kj jk l2 c2 show ?thesis
        by (simp add: get_or_create_def get_surrogate_def get_source_def Let_def)
    qed
  qed
qed

text \<open>Allocation in one namespace leaves the lookups of the other permanent namespaces alone.\<close>

lemma trim_overflow_frame:
  "trim_overflow w p = Inr (removed, p1) \<Longrightarrow> n \<noteq> NsMessage \<Longrightarrow> forward p1 n = forward p n"
  by (auto simp: trim_overflow_def Let_def split: if_splits sum.splits prod.splits)

lemma compact_frame:
  "compact_message_window p = Inr (ch, p1) \<Longrightarrow> n \<noteq> NsMessage \<Longrightarrow> forward p1 n = forward p n"
  by (auto simp: compact_message_window_def Let_def split: if_splits sum.splits prod.splits)

lemma maintain_frame:
  assumes m: "maintain_message_window w fc always p = Inr (snap, p')" and n: "n \<noteq> NsMessage"
  shows "forward p' n = forward p n"
proof -
  obtain removed p1 where t: "trim_overflow w p = Inr (removed, p1)"
    using m by (auto simp: maintain_message_window_def split: sum.splits)
  show ?thesis
    using m t n trim_overflow_frame [OF t n]
    by (auto simp: maintain_message_window_def Let_def compact_frame split: if_splits sum.splits prod.splits)
qed

lemma get_or_create_frame:
  assumes g: "get_or_create (ns_name n) k d = (r, d')" and m: "m \<noteq> NsMessage" "(m, j) \<noteq> (n, k)"
  shows "map_of (forward (dm_payload d') m) j = map_of (forward (dm_payload d) m) j"
  using g m
  by (auto simp: get_or_create_def Let_def split: option.splits if_splits sum.splits prod.splits
      dest!: maintain_frame [where n = m])

section \<open>The id-store contract\<close>

text \<open>
  What the translators rely on: \<open>alloc\<close> always succeeds, repeats its answer for a known
  key without touching the store, and its answer can be read back in both directions.
\<close>

locale id_store =
  fixes inv :: "'s \<Rightarrow> bool"
    and alloc :: "ns \<Rightarrow> string \<Rightarrow> ('s, int) action"
    and sur :: "'s \<Rightarrow> ns \<Rightarrow> string \<Rightarrow> int option"
    and src :: "'s \<Rightarrow> ns \<Rightarrow> int \<Rightarrow> string option"
  assumes alloc_ok: "inv s \<Longrightarrow> \<exists>i s'. alloc n k s = (Inr i, s') \<and> inv s' \<and> sur s' n k = Some i"
    and alloc_known: "inv s \<Longrightarrow> sur s n k = Some i \<Longrightarrow> alloc n k s = (Inr i, s)"
    and agree: "inv s \<Longrightarrow> src s n i = Some k \<longleftrightarrow> sur s n k = Some i"
    and frame: "inv s \<Longrightarrow> alloc n k s = (r, s') \<Longrightarrow> m \<noteq> NsMessage \<Longrightarrow> (m, j) \<noteq> (n, k) \<Longrightarrow>
      sur s' m j = sur s m j"
begin

primrec alloc_all :: "(ns \<times> string) list \<Rightarrow> 's \<Rightarrow> 's" where
  "alloc_all [] s = s"
| "alloc_all (x # xs) s = alloc_all xs (snd (alloc (fst x) (snd x) s))"

lemma alloc_inv: "inv s \<Longrightarrow> inv (snd (alloc n k s))"
  using alloc_ok [of s n k] by auto

lemma alloc_all_inv: "inv s \<Longrightarrow> inv (alloc_all xs s)"
  by (induction xs arbitrary: s) (auto simp: alloc_inv)

lemma alloc_readback: "inv s \<Longrightarrow> \<exists>i s'. alloc n k s = (Inr i, s') \<and> src s' n i = Some k"
  using alloc_ok [of s n k] agree by metis

lemma alloc_twice: "inv s \<Longrightarrow> alloc n k s = (Inr i, s') \<Longrightarrow> alloc n k s' = (Inr i, s')"
  using alloc_ok [of s n k] alloc_known [of s' n k] by auto

lemma sur_inject: "inv s \<Longrightarrow> sur s n j = Some i \<Longrightarrow> sur s n k = Some i \<Longrightarrow> j = k"
  using agree by (metis option.inject)

text \<open>An id outside the bounded message window is permanent.\<close>

lemma permanent:
  "inv s \<Longrightarrow> sur s n k = Some i \<Longrightarrow> n \<noteq> NsMessage \<Longrightarrow> sur (alloc_all xs s) n k = Some i"
proof (induction xs arbitrary: s)
  case Nil
  then show ?case by simp
next
  case (Cons x xs)
  obtain m j where x: "x = (m, j)" by (cases x)
  let ?s = "snd (alloc m j s)"
  have "sur ?s n k = Some i"
  proof (cases "(n, k) = (m, j)")
    case True
    with Cons.prems alloc_known show ?thesis by simp
  next
    case False
    with Cons.prems frame [of s m j "fst (alloc m j s)" ?s n k] show ?thesis by simp
  qed
  with Cons x alloc_inv [of s m j] show ?case by simp
qed

end

definition json_alloc :: "ns \<Rightarrow> string \<Rightarrow> (durable_map, int) action" where
  "json_alloc n k = bnd (get_or_create (ns_name n) k) (\<lambda>(m, _). ret (im_surrogate_id m))"

definition json_sur :: "durable_map \<Rightarrow> ns \<Rightarrow> string \<Rightarrow> int option" where
  "json_sur d n k = (case get_surrogate (ns_name n) k d of Inl _ \<Rightarrow> None | Inr r \<Rightarrow> r)"

definition json_src :: "durable_map \<Rightarrow> ns \<Rightarrow> int \<Rightarrow> string option" where
  "json_src d n i = (case get_source (ns_name n) (str_int i) d of Inl _ \<Rightarrow> None | Inr r \<Rightarrow> r)"

lemma json_sur_eq: "json_sur d n k = map_of (forward (dm_payload d) n) k"
  by (simp add: json_sur_def get_surrogate_def)

lemma json_src_eq: "json_src d n i = map_of (reverse (dm_payload d) n) (str_int i)"
  by (simp add: json_src_def get_source_def)

interpretation json_ids: id_store durable_inv json_alloc json_sur json_src
proof unfold_locales
  fix s n k
  assume "durable_inv s"
  from get_or_create_spec [OF this ns_of_name_name, of n k]
  show "\<exists>i s'. json_alloc n k s = (Inr i, s') \<and> durable_inv s' \<and> json_sur s' n k = Some i"
    by (fastforce simp: json_alloc_def action_defs json_sur_def)
next
  fix s n k i
  assume "json_sur s n k = Some i"
  then show "json_alloc n k s = (Inr i, s)"
    by (simp add: json_sur_eq json_alloc_def action_defs get_or_create_def)
next
  fix s n i k
  assume "durable_inv s"
  then have "ns_inv (dm_payload s) n"
    by (simp add: durable_inv_def)
  then show "json_src s n i = Some k \<longleftrightarrow> json_sur s n k = Some i"
    by (simp add: json_sur_eq json_src_eq ns_inv_def mirrors_lookup [of "forward (dm_payload s) n"])
next
  fix s n k r s' m j
  assume a: "json_alloc n k s = (r, s')" "m \<noteq> NsMessage" "(m, j) \<noteq> (n, k)"
  obtain r' where "get_or_create (ns_name n) k s = (r', s')"
    using a(1) by (auto simp: json_alloc_def action_defs split: prod.splits sum.splits)
  from get_or_create_frame [OF this a(2,3)] show "json_sur s' m j = json_sur s m j"
    by (simp add: json_sur_eq)
qed

lemma empty_durable_inv: "1 \<le> w \<Longrightarrow> durable_inv \<lparr>dm_window = w, dm_payload = empty_payload\<rparr>"
  by (simp add: durable_inv_def ns_inv_def empty_payload_def ids_in_range_def)

end
