(* ===== verification/Storage.thy ===== *)
theory Storage
  imports Id_Map
begin

text \<open>
  \<open>rocketcat_shell/bridge/storage.py\<close>: the three JSON-file stores (messages, private
  rooms, context rooms). \<open>JsonStore.mutate\<close> rewrites the file only when the mutator
  returned, so a raise leaves the payload unchanged; the model of an operation is
  therefore a function \<open>payload \<Rightarrow> exn + payload\<close>. Stored entries are dictionaries.

  The locale \<open>context_rooms\<close> is the ordering contract of a context-room store: a stored
  binding is never replaced by an older one. It is interpreted here on the JSON store
  and in \<open>Hot_State\<close> on the in-memory engine.
\<close>

section \<open>Messages\<close>

record message_payload =
  mp_by_source :: "(string \<times> entry) list"
  mp_by_surrogate :: "(string \<times> entry) list"
  mp_latest :: "(string \<times> (string \<times> entry) list) list"

definition empty_message_payload :: message_payload where
  "empty_message_payload = \<lparr>mp_by_source = [], mp_by_surrogate = [], mp_latest = []\<rparr>"

definition bucket_of :: "(string \<times> (string \<times> entry) list) list \<Rightarrow> string \<Rightarrow> (string \<times> entry) list" where
  "bucket_of latest ctx = (case map_of latest ctx of None \<Rightarrow> [] | Some b \<Rightarrow> b)"

definition existing_timestamp :: "(string \<times> entry) list \<Rightarrow> string \<Rightarrow> exn + int" where
  "existing_timestamp bucket sender =
     (case map_of bucket sender of None \<Rightarrow> Inr 0 | Some e \<Rightarrow> int_field e ''timestamp'')"

definition latest_record :: "string \<Rightarrow> string \<Rightarrow> string \<Rightarrow> int \<Rightarrow> entry" where
  "latest_record source room thread ts =
     [(''source_id'', PStr source), (''room_source_id'', PStr room),
      (''thread_source_id'', PStr thread), (''timestamp'', PInt ts)]"

text \<open>One step on the bucket of a context: a message at least as new replaces the record.\<close>

definition note_latest ::
    "string \<Rightarrow> string \<Rightarrow> entry \<Rightarrow> int \<Rightarrow> (string \<times> (string \<times> entry) list) list \<Rightarrow>
     exn + (string \<times> (string \<times> entry) list) list" where
  "note_latest ctx sender rec ts latest =
     (let bucket = bucket_of latest ctx in
      sbind (existing_timestamp bucket sender) (\<lambda>old.
        Inr (AList.update ctx (if ts \<ge> old then AList.update sender rec bucket else bucket) latest)))"

definition ms_put :: "entry \<Rightarrow> message_payload \<Rightarrow> exn + message_payload" where
  "ms_put e p =
     (case (map_of e ''source_id'', map_of e ''surrogate_id'') of
        (None, _) \<Rightarrow> Inl (KeyError ''source_id'')
      | (_, None) \<Rightarrow> Inl (KeyError ''surrogate_id'')
      | (Some sv, Some gv) \<Rightarrow>
          (let source = py_str sv; surrogate = py_str gv;
               ctx = str_field e ''context_source_id''; sender = str_field e ''sender_source_id'';
               room = str_field e ''room_source_id''; thread = str_field e ''thread_source_id''
           in sbind (int_field e ''timestamp'') (\<lambda>ts.
                (let p1 = p\<lparr>mp_by_source := AList.update source e (mp_by_source p),
                           mp_by_surrogate := AList.update surrogate e (mp_by_surrogate p)\<rparr>
                 in if ctx \<noteq> [] \<and> sender \<noteq> [] \<and> room \<noteq> [] then
                      sbind (note_latest ctx sender (latest_record source room thread ts) ts (mp_latest p1))
                        (\<lambda>l. Inr (p1\<lparr>mp_latest := l\<rparr>))
                    else Inr p1))))"

definition ms_get_by_source :: "message_payload \<Rightarrow> string \<Rightarrow> entry option" where
  "ms_get_by_source p s = map_of (mp_by_source p) s"

definition ms_get_by_surrogate :: "message_payload \<Rightarrow> string \<Rightarrow> entry option" where
  "ms_get_by_surrogate p s = map_of (mp_by_surrogate p) s"

text \<open>
  The two lookups of the latest room and thread: the clock reading \<open>now\<close> and the age
  limit are rationals; a record with a positive timestamp older than the limit is ignored.
\<close>

definition expired :: "rat \<Rightarrow> rat option \<Rightarrow> entry \<Rightarrow> exn + bool" where
  "expired now max_age e =
     (case max_age of
        None \<Rightarrow> Inr False
      | Some a \<Rightarrow> sbind (int_field e ''timestamp'') (\<lambda>ts. Inr (ts > 0 \<and> now - of_int ts > a)))"

definition ms_latest_field ::
    "string \<Rightarrow> rat \<Rightarrow> rat option \<Rightarrow> message_payload \<Rightarrow> string \<Rightarrow> string \<Rightarrow> exn + string option" where
  "ms_latest_field field now max_age p ctx sender =
     (case map_of (bucket_of (mp_latest p) ctx) sender of
        None \<Rightarrow> Inr None
      | Some e \<Rightarrow>
          (let v = str_field e field in
           if v = [] then Inr None
           else sbind (expired now max_age e) (\<lambda>x. Inr (if x then None else Some v))))"

definition ms_latest_room ::
    "rat \<Rightarrow> rat option \<Rightarrow> message_payload \<Rightarrow> string \<Rightarrow> string \<Rightarrow> exn + string option" where
  "ms_latest_room = ms_latest_field ''room_source_id''"

definition ms_latest_thread ::
    "rat \<Rightarrow> rat option \<Rightarrow> message_payload \<Rightarrow> string \<Rightarrow> string \<Rightarrow> exn + string option" where
  "ms_latest_thread = ms_latest_field ''thread_source_id''"

section \<open>Rewriting the surrogate ids inside a stored message\<close>

definition id_list :: "pyval \<Rightarrow> exn + string list" where
  \<comment> \<open>\<open>[str(x) for x in (v or []) if str(x)]\<close>\<close>
  "id_list v = sbind (py_iter (py_or v (PList [])))
     (\<lambda>xs. Inr (List.filter (\<lambda>s. s \<noteq> []) (map py_str xs)))"

definition is_reply :: "pyval \<Rightarrow> bool" where
  "is_reply seg = (case as_dict seg of None \<Rightarrow> False | Some d \<Rightarrow> raw_str_field d ''type'' = ''reply'')"

definition retarget_reply :: "entry \<Rightarrow> int \<Rightarrow> exn + pyval" where
  "retarget_reply seg target =
     sbind (py_dict (py_or (dget seg ''data'') (PDict [])))
       (\<lambda>data. Inr (PDict (AList.update ''data''
          (PDict (AList.update ''id'' (PStr (str_int target)) data)) seg)))"

fun rewrite_segments :: "(string \<times> int) list \<Rightarrow> string list \<Rightarrow> string \<Rightarrow> pyval list \<Rightarrow> exn + pyval list" where
  "rewrite_segments act ids dflt [] = Inr []"
| "rewrite_segments act ids dflt (seg # segs) =
     (if \<not> is_reply seg then
        sbind (rewrite_segments act ids dflt segs) (\<lambda>out. Inr (seg # out))
      else
        (let cur = (case ids of [] \<Rightarrow> dflt | i # _ \<Rightarrow> i);
             ids' = tl ids
         in if cur \<noteq> [] then
              (case map_of act cur of
                 Some target \<Rightarrow>
                   sbind (retarget_reply (the (as_dict seg)) target)
                     (\<lambda>seg'. sbind (rewrite_segments act ids' dflt segs) (\<lambda>out. Inr (seg' # out)))
               | None \<Rightarrow> rewrite_segments act ids' dflt segs)
            else rewrite_segments act ids' dflt segs))"

definition rewrite_entry_surrogate :: "entry \<Rightarrow> int \<Rightarrow> (string \<times> int) list \<Rightarrow> exn + entry" where
  "rewrite_entry_surrogate e0 surrogate act =
     (let e = AList.update ''surrogate_id'' (PInt surrogate) e0;
          r0 = str_field e ''reply_source_id''
      in sbind (id_list (dget e ''reply_source_ids'')) (\<lambda>ids0.
         (case as_dict (dget e ''onebot_message'') of
            None \<Rightarrow>
              (case as_list (dget e ''onebot_message_segments'') of
                 None \<Rightarrow> Inr e
               | Some segs \<Rightarrow>
                   sbind (rewrite_segments act ids0 r0 segs)
                     (\<lambda>out. Inr (AList.update ''onebot_message_segments'' (PList out) e)))
          | Some ev0 \<Rightarrow>
              (let ev = AList.update ''message_id'' (PInt surrogate) ev0;
                   r = (if r0 \<noteq> [] then r0 else str_field ev ''rocketchat_reply_source_id'')
               in sbind (if ids0 \<noteq> [] then Inr ids0 else id_list (dget ev ''rocketchat_reply_source_ids''))
                    (\<lambda>ids. (case as_list (dget ev ''message'') of
                       None \<Rightarrow> Inr (AList.update ''onebot_message'' (PDict ev) e)
                     | Some segs \<Rightarrow>
                         sbind (rewrite_segments act ids r segs)
                           (\<lambda>out. Inr (AList.update ''onebot_message''
                              (PDict (AList.update ''message'' (PList out) ev)) e))))))))"

fun build_latest :: "entry list \<Rightarrow> (string \<times> (string \<times> entry) list) list \<Rightarrow>
    exn + (string \<times> (string \<times> entry) list) list" where
  "build_latest [] latest = Inr latest"
| "build_latest (e # es) latest =
     (let ctx = str_field e ''context_source_id''; sender = str_field e ''sender_source_id'';
          room = str_field e ''room_source_id''; source = str_field e ''source_id'';
          thread = str_field e ''thread_source_id''
      in if ctx = [] \<or> sender = [] \<or> room = [] \<or> source = [] then build_latest es latest
         else sbind (int_field e ''timestamp'') (\<lambda>ts.
                sbind (note_latest ctx sender (latest_record source room thread ts) ts latest)
                  (\<lambda>latest'. build_latest es latest')))"

text \<open>
  The retained messages: the active mappings in increasing order of surrogate id, each
  with its stored entry rewritten. The loop is shared by the JSON store and the engine.
\<close>

fun retain :: "(string \<times> entry) list \<Rightarrow> (string \<times> int) list \<Rightarrow> (string \<times> int) list \<Rightarrow>
    exn + (string \<times> int \<times> entry) list" where
  "retain by_source act [] = Inr []"
| "retain by_source act ((s, i) # rest) =
     (case map_of by_source s of
        None \<Rightarrow> retain by_source act rest
      | Some e \<Rightarrow>
          sbind (rewrite_entry_surrogate e i act)
            (\<lambda>e'. sbind (retain by_source act rest) (\<lambda>out. Inr ((s, i, e') # out))))"

definition new_by_source :: "(string \<times> int \<times> entry) list \<Rightarrow> (string \<times> entry) list" where
  "new_by_source kept = fold (\<lambda>(s, _, e). AList.update s e) kept []"

definition new_by_surrogate :: "(string \<times> int \<times> entry) list \<Rightarrow> (string \<times> entry) list" where
  "new_by_surrogate kept = fold (\<lambda>(_, i, e). AList.update (str_int i) e) kept []"

definition ms_rebuild :: "(string \<times> int) list \<Rightarrow> message_payload \<Rightarrow> exn + message_payload" where
  "ms_rebuild act p =
     sbind (retain (mp_by_source p) act (sort_key snd act)) (\<lambda>kept.
       sbind (build_latest (map (\<lambda>(_, _, e). e) kept) []) (\<lambda>latest.
         Inr \<lparr>mp_by_source = new_by_source kept, mp_by_surrogate = new_by_surrogate kept,
              mp_latest = latest\<rparr>))"

section \<open>Private rooms\<close>

record private_payload =
  pp_by_user_source :: "(string \<times> string) list"
  pp_by_user_surrogate :: "(string \<times> string) list"

definition pr_bind :: "string \<Rightarrow> int \<Rightarrow> string \<Rightarrow> private_payload \<Rightarrow> private_payload" where
  "pr_bind user surrogate room p =
     p\<lparr>pp_by_user_source := AList.update user room (pp_by_user_source p),
       pp_by_user_surrogate := AList.update (str_int surrogate) room (pp_by_user_surrogate p)\<rparr>"

definition pr_get_by_source :: "private_payload \<Rightarrow> string \<Rightarrow> string option" where
  "pr_get_by_source p user = map_of (pp_by_user_source p) user"

definition pr_get_by_surrogate :: "private_payload \<Rightarrow> string \<Rightarrow> string option" where
  "pr_get_by_surrogate p surrogate = map_of (pp_by_user_surrogate p) surrogate"

section \<open>Context rooms\<close>

text \<open>The arguments of \<open>bind\<close>; surrogate ids and the timestamp go through \<open>int()\<close>.\<close>

record context_args =
  ca_source :: string
  ca_surrogate :: pyval
  ca_room_source :: string
  ca_room_surrogate :: pyval
  ca_room_name :: string
  ca_room_slug :: string
  ca_thread :: string
  ca_timestamp :: "pyval option"

definition context_entry :: "context_args \<Rightarrow> exn + entry" where
  "context_entry a =
     sbind (py_int (ca_surrogate a)) (\<lambda>cs.
       sbind (py_int (ca_room_surrogate a)) (\<lambda>rs.
         (let e = [(''context_source_id'', PStr (ca_source a)),
                   (''context_surrogate_id'', PInt cs),
                   (''room_source_id'', PStr (ca_room_source a)),
                   (''room_surrogate_id'', PInt rs),
                   (''room_name'', PStr (ca_room_name a)),
                   (''room_slug'', PStr (ca_room_slug a)),
                   (''thread_source_id'', PStr (py_strip (ca_thread a)))]
          in case ca_timestamp a of
               None \<Rightarrow> Inr e
             | Some t \<Rightarrow> sbind (py_int t) (\<lambda>ts. Inr (e @ [(''timestamp'', PInt ts)])))))"

record context_payload =
  cp_by_source :: "(string \<times> entry) list"
  cp_by_surrogate :: "(string \<times> entry) list"

definition empty_context_payload :: context_payload where
  "empty_context_payload = \<lparr>cp_by_source = [], cp_by_surrogate = []\<rparr>"

definition cr_bind :: "context_args \<Rightarrow> (context_payload, unit) action" where
  "cr_bind a p =
     (case context_entry a of
        Inl e \<Rightarrow> (Inl e, p)
      | Inr e \<Rightarrow>
          (let stale =
             (case (ca_timestamp a, map_of (cp_by_source p) (ca_source a)) of
                (Some t, Some old) \<Rightarrow>
                  sbind (int_field old ''timestamp'') (\<lambda>ot. sbind (py_int t) (\<lambda>nt. Inr (ot > nt)))
              | _ \<Rightarrow> Inr False)
           in case stale of
                Inl x \<Rightarrow> (Inl x, p)
              | Inr True \<Rightarrow> (Inr (), p)
              | Inr False \<Rightarrow>
                  (Inr (), p\<lparr>cp_by_source := AList.update (ca_source a) e (cp_by_source p),
                            cp_by_surrogate :=
                              AList.update (py_str (ca_surrogate a)) e (cp_by_surrogate p)\<rparr>)))"

definition cr_get_by_source :: "context_payload \<Rightarrow> string \<Rightarrow> entry option" where
  "cr_get_by_source p c = map_of (cp_by_source p) c"

definition cr_get_by_surrogate :: "context_payload \<Rightarrow> string \<Rightarrow> entry option" where
  "cr_get_by_surrogate p c = map_of (cp_by_surrogate p) c"

subsection \<open>The ordering contract\<close>

definition entry_ts :: "entry \<Rightarrow> int" where
  "entry_ts e = (case int_field e ''timestamp'' of Inl _ \<Rightarrow> 0 | Inr t \<Rightarrow> t)"

definition readable_ts :: "entry \<Rightarrow> bool" where
  "readable_ts e = (\<exists>t. int_field e ''timestamp'' = Inr t)"

definition supersedes :: "entry \<Rightarrow> entry option \<Rightarrow> bool" where
  "supersedes e old =
     (case old of None \<Rightarrow> True | Some old \<Rightarrow> has_key e ''timestamp'' \<longrightarrow> entry_ts old \<le> entry_ts e)"

lemma context_entry_cases:
  assumes "context_entry a = Inr e"
  obtains cs rs ts where
    "e = [(''context_source_id'', PStr (ca_source a)), (''context_surrogate_id'', PInt cs),
      (''room_source_id'', PStr (ca_room_source a)), (''room_surrogate_id'', PInt rs),
      (''room_name'', PStr (ca_room_name a)), (''room_slug'', PStr (ca_room_slug a)),
      (''thread_source_id'', PStr (py_strip (ca_thread a)))]
      @ (case ca_timestamp a of None \<Rightarrow> [] | Some _ \<Rightarrow> [(''timestamp'', PInt ts)])"
    "\<And>t. ca_timestamp a = Some t \<Longrightarrow> py_int t = Inr ts"
  using assms
  by (cases "ca_timestamp a") (auto simp: context_entry_def sbind_Inr Let_def)

lemma context_entry_facts:
  assumes "context_entry a = Inr e"
  shows "readable_ts e" "has_key e ''timestamp'' \<longleftrightarrow> ca_timestamp a \<noteq> None"
    "ca_timestamp a = Some t \<Longrightarrow> py_int t = Inr (entry_ts e)"
    "dget e ''context_source_id'' = PStr (ca_source a)"
proof -
  obtain cs rs ts where e: "e = [(''context_source_id'', PStr (ca_source a)), (''context_surrogate_id'', PInt cs),
      (''room_source_id'', PStr (ca_room_source a)), (''room_surrogate_id'', PInt rs),
      (''room_name'', PStr (ca_room_name a)), (''room_slug'', PStr (ca_room_slug a)),
      (''thread_source_id'', PStr (py_strip (ca_thread a)))]
      @ (case ca_timestamp a of None \<Rightarrow> [] | Some _ \<Rightarrow> [(''timestamp'', PInt ts)])"
    and ts: "\<And>t. ca_timestamp a = Some t \<Longrightarrow> py_int t = Inr ts"
    using context_entry_cases [OF assms] by blast
  have t: "map_of e ''timestamp'' = (case ca_timestamp a of None \<Rightarrow> None | Some _ \<Rightarrow> Some (PInt ts))"
    unfolding e by (simp split: option.split)
  then have i: "int_field e ''timestamp'' = Inr (case ca_timestamp a of None \<Rightarrow> 0 | Some _ \<Rightarrow> ts)"
    by (cases "ca_timestamp a") (simp_all add: int_field_def dget_def py_or_def)
  show "readable_ts e" using i by (simp add: readable_ts_def)
  show "has_key e ''timestamp'' \<longleftrightarrow> ca_timestamp a \<noteq> None"
    using t by (simp add: has_key_def split: option.split)
  show "ca_timestamp a = Some t \<Longrightarrow> py_int t = Inr (entry_ts e)"
    using i ts by (simp add: entry_ts_def)
  show "dget e ''context_source_id'' = PStr (ca_source a)"
    unfolding e by (simp add: dget_def)
qed

locale context_rooms =
  fixes inv :: "'s \<Rightarrow> bool"
    and bind :: "context_args \<Rightarrow> ('s, unit) action"
    and lookup :: "'s \<Rightarrow> string \<Rightarrow> entry option"
  assumes bind_ok: "inv s \<Longrightarrow> context_entry a = Inr e \<Longrightarrow>
      \<exists>s'. bind a s = (Inr (), s') \<and> inv s' \<and>
        lookup s' = (if supersedes e (lookup s (ca_source a))
                     then (lookup s)(ca_source a \<mapsto> e) else lookup s)"
    and bind_raises: "inv s \<Longrightarrow> context_entry a = Inl x \<Longrightarrow> bind a s = (Inl x, s)"
begin

primrec bind_all :: "context_args list \<Rightarrow> 's \<Rightarrow> 's" where
  "bind_all [] s = s"
| "bind_all (a # as) s = bind_all as (snd (bind a s))"

lemma bind_inv: "inv s \<Longrightarrow> inv (snd (bind a s))"
  using bind_ok [of s a] bind_raises [of s a] by (cases "context_entry a") auto

lemma bind_all_inv: "inv s \<Longrightarrow> inv (bind_all as s)"
  by (induction as arbitrary: s) (auto simp: bind_inv)

lemma bind_other: "inv s \<Longrightarrow> c \<noteq> ca_source a \<Longrightarrow> lookup (snd (bind a s)) c = lookup s c"
  using bind_ok [of s a] bind_raises [of s a] by (cases "context_entry a") auto

text \<open>Time never goes back on a context whose bindings carry timestamps.\<close>

lemma bind_mono:
  assumes i: "inv s" and l: "lookup s c = Some old" and t: "ca_timestamp a \<noteq> None"
  shows "\<exists>e. lookup (snd (bind a s)) c = Some e \<and> entry_ts old \<le> entry_ts e"
proof (cases "context_entry a")
  case (Inl x)
  with i l bind_raises show ?thesis by simp
next
  case (Inr e)
  obtain s' where "bind a s = (Inr (), s')"
    "lookup s' = (if supersedes e (lookup s (ca_source a)) then (lookup s)(ca_source a \<mapsto> e) else lookup s)"
    using bind_ok [OF i Inr] by blast
  with l t context_entry_facts(2) [OF Inr] show ?thesis
    by (auto simp: supersedes_def)
qed

lemma bind_all_mono:
  "inv s \<Longrightarrow> lookup s c = Some old \<Longrightarrow> \<forall>a \<in> set as. ca_timestamp a \<noteq> None \<Longrightarrow>
     \<exists>e. lookup (bind_all as s) c = Some e \<and> entry_ts old \<le> entry_ts e"
proof (induction as arbitrary: s old)
  case Nil
  then show ?case by simp
next
  case (Cons a as)
  obtain e where e: "lookup (snd (bind a s)) c = Some e" "entry_ts old \<le> entry_ts e"
    using bind_mono [OF Cons.prems(1,2), of a] Cons.prems(3) by auto
  obtain e' where "lookup (bind_all as (snd (bind a s))) c = Some e'" "entry_ts e \<le> entry_ts e'"
    using Cons.IH [OF bind_inv [OF Cons.prems(1)] e(1)] Cons.prems(3) by auto
  with e show ?case by auto
qed

text \<open>
  Whatever the order the bindings of a context arrive in, the stored one is at least as
  new as every binding that was accepted for it.
\<close>

lemma bind_all_newest:
  assumes i: "inv s" and a: "a \<in> set as" "context_entry a = Inr e"
    and t: "\<forall>a \<in> set as. ca_timestamp a \<noteq> None"
  shows "\<exists>w. lookup (bind_all as s) (ca_source a) = Some w \<and> entry_ts e \<le> entry_ts w"
  using i a t
proof (induction as arbitrary: s)
  case Nil
  then show ?case by simp
next
  case (Cons b as)
  show ?case
  proof (cases "a \<in> set as")
    case True
    with Cons bind_inv show ?thesis by simp
  next
    case False
    with Cons.prems have b: "b = a" by simp
    obtain s' where s': "bind a s = (Inr (), s')" "inv s'"
      "lookup s' = (if supersedes e (lookup s (ca_source a)) then (lookup s)(ca_source a \<mapsto> e) else lookup s)"
      using bind_ok [OF Cons.prems(1,3)] by blast
    then obtain w where w: "lookup s' (ca_source a) = Some w" "entry_ts e \<le> entry_ts w"
      by (auto simp: supersedes_def split: option.splits if_splits)
    from bind_all_mono [OF s'(2) w(1), of as] Cons.prems(4) w(2) s'(1) b show ?thesis
      by auto
  qed
qed

end

definition cr_inv :: "context_payload \<Rightarrow> bool" where
  "cr_inv p = (\<forall>c e. map_of (cp_by_source p) c = Some e \<longrightarrow> readable_ts e)"

interpretation json_contexts: context_rooms cr_inv cr_bind cr_get_by_source
proof unfold_locales
  fix s a e
  assume i: "cr_inv s" and c: "context_entry a = Inr e"
  note f = context_entry_facts [OF c]
  show "\<exists>s'. cr_bind a s = (Inr (), s') \<and> cr_inv s' \<and>
        cr_get_by_source s' = (if supersedes e (cr_get_by_source s (ca_source a))
            then (cr_get_by_source s)(ca_source a \<mapsto> e) else cr_get_by_source s)"
  proof (cases "map_of (cp_by_source s) (ca_source a)")
    case None
    with i c f show ?thesis
      by (cases "ca_timestamp a") (auto simp: cr_bind_def cr_inv_def cr_get_by_source_def supersedes_def fun_eq_iff)
  next
    case (Some old)
    with i obtain t where t: "int_field old ''timestamp'' = Inr t"
      by (auto simp: cr_inv_def readable_ts_def)
    then have ot: "entry_ts old = t" by (simp add: entry_ts_def)
    show ?thesis
    proof (cases "ca_timestamp a")
      case None
      with Some i c f show ?thesis
        by (auto simp: cr_bind_def cr_inv_def cr_get_by_source_def supersedes_def fun_eq_iff)
    next
      case (Some x)
      with f(2,3) have h: "has_key e ''timestamp''" "py_int x = Inr (entry_ts e)" by auto
      show ?thesis
        using i c f(1) h t ot Some \<open>map_of (cp_by_source s) (ca_source a) = Some old\<close>
        by (cases "t > entry_ts e")
          (auto simp: cr_bind_def cr_inv_def cr_get_by_source_def supersedes_def fun_eq_iff Let_def)
    qed
  qed
qed (simp add: cr_bind_def)

section \<open>Rebuilding the message store\<close>

lemma is_reply_update [simp]: "k \<noteq> ''type'' \<Longrightarrow> is_reply (PDict (AList.update k v d)) = is_reply (PDict d)"
  by (simp add: is_reply_def raw_str_field_def)

lemma retarget_replyD:
  assumes "retarget_reply d i = Inr seg"
  shows "is_reply seg = is_reply (PDict d)"
    "\<exists>sd data. seg = PDict sd \<and> dget sd ''data'' = PDict data \<and> dget data ''id'' = PStr (str_int i)"
  using assms by (auto simp: retarget_reply_def sbind_Inr)

lemma is_replyD: "is_reply seg \<Longrightarrow> \<exists>d. seg = PDict d \<and> as_dict seg = Some d"
  by (cases seg) (simp_all add: is_reply_def)

text \<open>
  The rewriting loop leaves every other segment in place and in order, and each reply it
  keeps points at a surrogate id of the active window.
\<close>

lemma rewrite_segments_spec:
  "rewrite_segments act ids dflt segs = Inr out \<Longrightarrow>
     List.filter (\<lambda>s. \<not> is_reply s) out = List.filter (\<lambda>s. \<not> is_reply s) segs
     \<and> (\<forall>seg \<in> set out. is_reply seg \<longrightarrow>
          (\<exists>k i sd data. map_of act k = Some i \<and> seg = PDict sd \<and> dget sd ''data'' = PDict data
             \<and> dget data ''id'' = PStr (str_int i)))"
proof (induction act ids dflt segs arbitrary: out rule: rewrite_segments.induct)
  case (1 act ids dflt)
  then show ?case by simp
next
  case (2 act ids dflt seg segs)
  let ?cur = "case ids of [] \<Rightarrow> dflt | i # _ \<Rightarrow> i"
  show ?case
  proof (cases "is_reply seg")
    case False
    with "2.prems" obtain rest where r: "rewrite_segments act ids dflt segs = Inr rest" "out = seg # rest"
      by (auto simp: sbind_Inr)
    with "2.IH"(1) [OF False r(1)] False show ?thesis by simp
  next
    case True
    show ?thesis
    proof (cases "?cur \<noteq> [] \<and> map_of act ?cur \<noteq> None")
      case False
      with True "2.prems" have r: "rewrite_segments act (tl ids) dflt segs = Inr out"
        by (auto simp: Let_def split: if_splits option.splits)
      from False True "2.IH"(2,4) [of ?cur "tl ids"] r show ?thesis
        by (cases "?cur = []") auto
    next
      case c: True
      then obtain target where t: "map_of act ?cur = Some target" by auto
      with True c "2.prems" obtain seg' rest where
        s: "retarget_reply (the (as_dict seg)) target = Inr seg'"
          "rewrite_segments act (tl ids) dflt segs = Inr rest" "out = seg' # rest"
        by (auto simp: Let_def sbind_Inr)
      obtain d where d: "seg = PDict d" using True is_replyD by blast
      have "is_reply seg'" using retarget_replyD(1) [OF s(1)] d True by simp
      moreover note retarget_replyD(2) [OF s(1)]
      moreover have "List.filter (\<lambda>s. \<not> is_reply s) rest = List.filter (\<lambda>s. \<not> is_reply s) segs
         \<and> (\<forall>seg \<in> set rest. is_reply seg \<longrightarrow>
          (\<exists>k i sd data. map_of act k = Some i \<and> seg = PDict sd \<and> dget sd ''data'' = PDict data
             \<and> dget data ''id'' = PStr (str_int i)))"
        using "2.IH"(3) [OF _ refl refl _ t s(2)] True c by simp
      ultimately show ?thesis using True t s(3) by auto
    qed
  qed
qed

lemma rewrite_entry_surrogate_id:
  "rewrite_entry_surrogate e i act = Inr e' \<Longrightarrow> dget e' ''surrogate_id'' = PInt i"
  by (auto simp: rewrite_entry_surrogate_def Let_def sbind_Inr split: option.splits)

lemma retain_spec:
  "retain bs act xs = Inr kept \<Longrightarrow>
     map (\<lambda>(s, i, _). (s, i)) kept = List.filter (\<lambda>(s, _). map_of bs s \<noteq> None) xs
     \<and> (\<forall>(s, i, e) \<in> set kept. dget e ''surrogate_id'' = PInt i)"
proof (induction bs act xs arbitrary: kept rule: retain.induct)
  case (1 bs act)
  then show ?case by simp
next
  case (2 bs act s i rest)
  show ?case
  proof (cases "map_of bs s")
    case None
    with 2 show ?thesis by simp
  next
    case (Some e)
    with "2.prems" obtain e' out where
      o: "rewrite_entry_surrogate e i act = Inr e'" "retain bs act rest = Inr out" "kept = (s, i, e') # out"
      by (auto simp: sbind_Inr)
    from "2.IH"(2) [OF Some o(2)] rewrite_entry_surrogate_id [OF o(1)] o(3) Some
    show ?thesis by simp
  qed
qed

lemma fold_update_lookup:
  assumes "distinct (map kf xs)"
  shows "map_of (fold (\<lambda>x. AList.update (kf x) (vf x)) xs al) k =
     (case find (\<lambda>x. kf x = k) xs of None \<Rightarrow> map_of al k | Some x \<Rightarrow> Some (vf x))"
  using assms
proof (induction xs arbitrary: al)
  case Nil
  then show ?case by simp
next
  case (Cons x xs)
  have t: "find (\<lambda>y. kf y = k) xs = None" if "kf x = k"
  proof -
    have "kf x \<notin> kf ` set xs" using Cons.prems by simp
    with that show ?thesis by (auto simp: find_None_iff) (metis imageI)
  qed
  have "distinct (map kf xs)" using Cons.prems by simp
  note ih = Cons.IH [OF this, of "AList.update (kf x) (vf x) al"]
  show ?case
    using ih t by (cases "kf x = k") (auto split: option.split)
qed

lemma new_by_source_lookup:
  assumes "distinct (map (\<lambda>(s, i, _). s) kept)"
  shows "map_of (new_by_source kept) s = Some e \<longleftrightarrow> (\<exists>i. (s, i, e) \<in> set kept)"
proof -
  have "new_by_source kept = fold (\<lambda>x. AList.update (fst x) (snd (snd x))) kept []"
    by (simp add: new_by_source_def case_prod_unfold)
  moreover have d: "distinct (map fst kept)"
    using assms by (simp add: case_prod_unfold)
  ultimately have "map_of (new_by_source kept) s =
      (case find (\<lambda>x. fst x = s) kept of None \<Rightarrow> None | Some x \<Rightarrow> Some (snd (snd x)))"
    using fold_update_lookup [OF d, of "\<lambda>x. snd (snd x)" "[]" s] by (auto split: option.split)
  note * = this
  show ?thesis
  proof (cases "find (\<lambda>x. fst x = s) kept")
    case None
    with * show ?thesis by (force simp: find_None_iff)
  next
    case (Some x)
    then have "x \<in> set kept" "fst x = s"
      by (auto simp: find_Some_iff in_set_conv_nth)
    with * Some d show ?thesis
      by (cases x) (auto dest: eq_key_imp_eq_value)
  qed
qed

lemma new_by_surrogate_lookup:
  assumes "distinct (map (\<lambda>(s, i, _). i) kept)"
  shows "map_of (new_by_surrogate kept) (str_int i) = Some e \<longleftrightarrow> (\<exists>s. (s, i, e) \<in> set kept)"
proof -
  let ?k = "\<lambda>x :: string \<times> int \<times> entry. str_int (fst (snd x))"
  have "new_by_surrogate kept = fold (\<lambda>x. AList.update (?k x) (snd (snd x))) kept []"
    by (simp add: new_by_surrogate_def case_prod_unfold)
  moreover have d: "distinct (map ?k kept)"
    using assms by (auto simp: case_prod_unfold distinct_map inj_on_def)
  ultimately have *: "map_of (new_by_surrogate kept) (str_int i) =
      (case find (\<lambda>x. ?k x = str_int i) kept of None \<Rightarrow> None | Some x \<Rightarrow> Some (snd (snd x)))"
    using fold_update_lookup [OF d, of "\<lambda>x. snd (snd x)" "[]" "str_int i"] by (auto split: option.split)
  have u: "x = y" if "x \<in> set kept" "y \<in> set kept" "fst (snd x) = fst (snd y)" for x y
    using that d by (auto simp: distinct_map inj_on_def)
  show ?thesis
  proof (cases "find (\<lambda>x. ?k x = str_int i) kept")
    case None
    then have "\<forall>x \<in> set kept. fst (snd x) \<noteq> i"
      by (auto simp: find_None_iff)
    with * None show ?thesis by (auto dest!: bspec)
  next
    case (Some x)
    then have "x \<in> set kept" "fst (snd x) = i"
      by (auto simp: find_Some_iff in_set_conv_nth)
    then obtain t e' where x: "x = (t, i, e')" "(t, i, e') \<in> set kept"
      by (metis prod.collapse)
    have "e = e'" if "(t', i, e) \<in> set kept" for t'
      using u [OF that x(2)] by simp
    with * Some x show ?thesis by auto
  qed
qed

text \<open>
  After a rebuild the store holds exactly the messages that were stored and are still in
  the window, each carrying its window id, and both indexes hold the same entries.
\<close>

lemma ms_rebuild_spec:
  assumes r: "ms_rebuild act p = Inr p'" and u: "unique_keys act" "distinct (map snd act)"
  shows "(\<exists>e. ms_get_by_source p' s = Some e) \<longleftrightarrow>
      (\<exists>i. map_of act s = Some i) \<and> (\<exists>e. ms_get_by_source p s = Some e)"
    and "map_of act s = Some i \<Longrightarrow> ms_get_by_source p' s = Some e \<Longrightarrow>
      dget e ''surrogate_id'' = PInt i \<and> ms_get_by_surrogate p' (str_int i) = Some e"
proof -
  from r obtain kept where k: "retain (mp_by_source p) act (sort_key snd act) = Inr kept"
    and p': "mp_by_source p' = new_by_source kept" "mp_by_surrogate p' = new_by_surrogate kept"
    by (auto simp: ms_rebuild_def sbind_Inr)
  let ?kept = "map (\<lambda>(s, i, _). (s, i)) kept"
  note spec = retain_spec [OF k]
  have dk: "distinct (map fst (sort_key snd act))" "distinct (map snd (sort_key snd act))"
    using u by (simp_all add: distinct_map inj_on_def)
  from dk have d0: "distinct (map fst ?kept)" "distinct (map snd ?kept)"
    using spec by (simp_all add: distinct_map_filter)
  then have d: "distinct (map (\<lambda>(s, i, _). s) kept)" "distinct (map (\<lambda>(s, i, _). i) kept)"
    by (simp_all add: case_prod_unfold comp_def)
  have mem: "(\<exists>e. (s, i, e) \<in> set kept) \<longleftrightarrow> map_of act s = Some i \<and> map_of (mp_by_source p) s \<noteq> None" for s i
  proof -
    have "(\<exists>e. (s, i, e) \<in> set kept) \<longleftrightarrow> (s, i) \<in> set ?kept"
      by force
    also have "\<dots> \<longleftrightarrow> (s, i) \<in> set act \<and> map_of (mp_by_source p) s \<noteq> None"
      using spec by auto
    finally show ?thesis using u by simp
  qed
  show "(\<exists>e. ms_get_by_source p' s = Some e) \<longleftrightarrow>
      (\<exists>i. map_of act s = Some i) \<and> (\<exists>e. ms_get_by_source p s = Some e)"
    using mem [of s] by (simp add: ms_get_by_source_def p' new_by_source_lookup [OF d(1)]) metis
  assume a: "map_of act s = Some i" "ms_get_by_source p' s = Some e"
  then obtain j where j: "(s, j, e) \<in> set kept"
    by (auto simp: ms_get_by_source_def p' new_by_source_lookup [OF d(1)])
  with mem [of s j] a(1) have "j = i" by auto
  with j spec show "dget e ''surrogate_id'' = PInt i \<and> ms_get_by_surrogate p' (str_int i) = Some e"
    by (auto simp: ms_get_by_surrogate_def p' new_by_surrogate_lookup [OF d(2)])
qed

end
