(* ===== verification/Hot_State.thy ===== *)
theory Hot_State
  imports Storage
begin

text \<open>
  \<open>RuntimeStateEngine\<close> and \<open>RuntimeStateMutationBatch\<close> of
  \<open>rocketcat_shell/bridge/hot_storage.py\<close>: the in-memory state behind the running
  bridge. One lock makes each operation atomic, so an operation is a function on the
  engine record; an exception leaves the mutations made before it in place, which the
  type \<open>action\<close> keeps. \<open>eng_journal\<close> is the sequence of records handed to the journal
  writer, \<open>None\<close> while no writer is bound.

  Stored messages and contexts are never mutated after insertion, so they are values
  here. The \<open>id_store\<close> and \<open>context_rooms\<close> contracts are interpreted on the engine.
\<close>

section \<open>State\<close>

record engine =
  eng_window :: int
  eng_counters :: "ns \<Rightarrow> int"
  eng_forward :: "ns \<Rightarrow> (string \<times> int) list"
  eng_reverse :: "ns \<Rightarrow> (string \<times> string) list"
  eng_order :: "string list"
  eng_by_source :: "(string \<times> entry) list"
  eng_by_surrogate :: "(string \<times> entry) list"
  eng_latest :: "((string \<times> string) \<times> entry) list"
  eng_pair_order :: "((string \<times> string) \<times> string list) list"
  eng_private_source :: "(string \<times> string) list"
  eng_private_surrogate :: "(string \<times> string) list"
  eng_context_source :: "(string \<times> entry) list"
  eng_context_surrogate :: "(string \<times> entry) list"
  eng_legacy :: bool
  eng_journal :: "entry list option"

definition new_engine :: "pyval \<Rightarrow> engine" where
  "new_engine w =
     \<lparr>eng_window = normalize_window w, eng_counters = (\<lambda>_. 0), eng_forward = (\<lambda>_. []),
      eng_reverse = (\<lambda>_. []), eng_order = [], eng_by_source = [], eng_by_surrogate = [],
      eng_latest = [], eng_pair_order = [], eng_private_source = [], eng_private_surrogate = [],
      eng_context_source = [], eng_context_surrogate = [], eng_legacy = False, eng_journal = None\<rparr>"

definition bind_writer :: "engine \<Rightarrow> engine" where
  "bind_writer s = s\<lparr>eng_journal := Some []\<rparr>"

definition eng_record :: "entry \<Rightarrow> (engine, unit) action" where
  "eng_record r = modify (\<lambda>s. s\<lparr>eng_journal := map_option (\<lambda>j. j @ [r]) (eng_journal s)\<rparr>)"

definition eng_set_window :: "pyval \<Rightarrow> engine \<Rightarrow> engine" where
  "eng_set_window w s = s\<lparr>eng_window := normalize_window w\<rparr>"

section \<open>The latest message of a context and sender\<close>

definition message_pair :: "entry \<Rightarrow> (string \<times> string) option" where
  "message_pair e =
     (let ctx = str_field e ''context_source_id''; sender = str_field e ''sender_source_id''
      in if ctx = [] \<or> sender = [] \<or> str_field e ''room_source_id'' = [] \<or> str_field e ''source_id'' = []
         then None else Some (ctx, sender))"

definition latest_fragment :: "entry \<Rightarrow> exn + entry" where
  "latest_fragment e =
     sbind (int_field e ''timestamp'') (\<lambda>ts.
       Inr (latest_record (str_field e ''source_id'') (str_field e ''room_source_id'')
              (str_field e ''thread_source_id'') ts))"

definition index_latest :: "entry \<Rightarrow> (engine, unit) action" where
  "index_latest e =
     (case message_pair e of
        None \<Rightarrow> ret ()
      | Some pair \<Rightarrow>
          bnd (modify (\<lambda>s.
                 (let order = (case map_of (eng_pair_order s) pair of None \<Rightarrow> [] | Some os \<Rightarrow> os);
                      src = str_field e ''source_id''
                  in s\<lparr>eng_pair_order :=
                        AList.update pair (remove1 src order @ [src]) (eng_pair_order s)\<rparr>)))
            (\<lambda>_. bnd (lift_exn (latest_fragment e))
              (\<lambda>f. modify (\<lambda>s. s\<lparr>eng_latest := AList.update pair f (eng_latest s)\<rparr>))))"

text \<open>
  The \<open>while order\<close> loop pops the ids of messages that are gone off the end of the
  order; the fragment is rebuilt from the last message that is left.
\<close>

fun pop_missing :: "(string \<times> entry) list \<Rightarrow> string list \<Rightarrow> string list" where
  "pop_missing bs os =
     rev (dropWhile (\<lambda>k. map_of bs k = None) (rev os))"

definition refresh_latest :: "string \<times> string \<Rightarrow> (engine, unit) action" where
  "refresh_latest pair s =
     (case map_of (eng_pair_order s) pair of
        None \<Rightarrow> (Inr (), s\<lparr>eng_latest := AList.delete pair (eng_latest s)\<rparr>)
      | Some os \<Rightarrow>
          (let os' = pop_missing (eng_by_source s) os in
           if os' = [] then
             (Inr (), s\<lparr>eng_pair_order := AList.delete pair (eng_pair_order s),
                       eng_latest := AList.delete pair (eng_latest s)\<rparr>)
           else
             (let s1 = s\<lparr>eng_pair_order := AList.update pair os' (eng_pair_order s)\<rparr> in
              case latest_fragment (the (map_of (eng_by_source s) (last os'))) of
                Inl x \<Rightarrow> (Inl x, s1)
              | Inr f \<Rightarrow> (Inr (), s1\<lparr>eng_latest := AList.update pair f (eng_latest s1)\<rparr>))))"

definition drop_from_order :: "string \<Rightarrow> string list \<Rightarrow> string list" where
  "drop_from_order k os = (if os \<noteq> [] \<and> hd os = k then tl os else remove1 k os)"

definition unlink_from_pair :: "string \<Rightarrow> entry \<Rightarrow> (engine, unit) action" where
  "unlink_from_pair k e s =
     (case message_pair e of
        None \<Rightarrow> (Inr (), s)
      | Some pair \<Rightarrow>
          (case map_of (eng_pair_order s) pair of
             None \<Rightarrow> (Inr (), s)
           | Some os \<Rightarrow>
               refresh_latest pair
                 (s\<lparr>eng_pair_order := AList.update pair (drop_from_order k os) (eng_pair_order s)\<rparr>)))"

definition remove_message_entry :: "string \<Rightarrow> bool \<Rightarrow> (engine, unit) action" where
  "remove_message_entry k remove_order s =
     (case map_of (eng_by_source s) k of
        None \<Rightarrow> (Inr (), s)
      | Some e \<Rightarrow>
          (let surrogate = str_field e ''surrogate_id'' in
           bnd (unlink_from_pair k e)
             (\<lambda>_. when_do remove_order (modify (\<lambda>t. t\<lparr>eng_order := remove1 k (eng_order t)\<rparr>)))
             (s\<lparr>eng_by_source := AList.delete k (eng_by_source s),
                eng_by_surrogate := (if surrogate \<noteq> [] then AList.delete surrogate (eng_by_surrogate s)
                                     else eng_by_surrogate s)\<rparr>)))"

definition rebuild_latest_indexes :: "entry list \<Rightarrow> (engine, unit) action" where
  "rebuild_latest_indexes es =
     bnd (modify (\<lambda>s. s\<lparr>eng_latest := [], eng_pair_order := []\<rparr>)) (\<lambda>_. for_each es index_latest)"

section \<open>Surrogate ids and the message window\<close>

definition evict_message :: "string \<Rightarrow> (engine, unit) action" where
  "evict_message k s =
     (let s1 =
        (case map_of (eng_forward s NsMessage) k of
           None \<Rightarrow> s
         | Some i \<Rightarrow>
             s\<lparr>eng_forward := (eng_forward s)(NsMessage := AList.delete k (eng_forward s NsMessage)),
               eng_reverse := (eng_reverse s)(NsMessage := AList.delete (str_int i) (eng_reverse s NsMessage))\<rparr>)
      in remove_message_entry k False s1)"

text \<open>
  The message operations touch the message indexes only; \<open>rest_of\<close> is everything else.
\<close>

definition rest_of :: "engine \<Rightarrow> engine" where
  "rest_of s = s\<lparr>eng_by_source := [], eng_by_surrogate := [], eng_latest := [], eng_pair_order := []\<rparr>"

lemma rest_of_update [simp]:
  "rest_of (s\<lparr>eng_by_source := a\<rparr>) = rest_of s" "rest_of (s\<lparr>eng_by_surrogate := a\<rparr>) = rest_of s"
  "rest_of (s\<lparr>eng_latest := b\<rparr>) = rest_of s" "rest_of (s\<lparr>eng_pair_order := c\<rparr>) = rest_of s"
  by (simp_all add: rest_of_def)

lemma rest_ofD:
  assumes "rest_of t = rest_of s"
  shows "eng_window t = eng_window s" "eng_counters t = eng_counters s" "eng_forward t = eng_forward s"
    "eng_reverse t = eng_reverse s" "eng_order t = eng_order s"
    "eng_private_source t = eng_private_source s" "eng_private_surrogate t = eng_private_surrogate s"
    "eng_context_source t = eng_context_source s" "eng_context_surrogate t = eng_context_surrogate s"
    "eng_legacy t = eng_legacy s" "eng_journal t = eng_journal s"
  using assms by (cases s; cases t; simp add: rest_of_def)+

lemma refresh_latest_rest: "keeps (\<lambda>t. rest_of t = r) (refresh_latest p)"
  by (auto simp: keeps_def refresh_latest_def Let_def split: option.split sum.split)

lemma index_latest_rest: "keeps (\<lambda>t. rest_of t = r) (index_latest e)"
  unfolding index_latest_def
  by (cases "message_pair e") (auto simp: Let_def intro!: keeps_bnd keeps_modify)

lemma unlink_from_pair_rest: "keeps (\<lambda>t. rest_of t = r) (unlink_from_pair k e)"
  using refresh_latest_rest
  by (auto simp: keeps_def unlink_from_pair_def split: option.split)

lemma remove_message_entry_rest: "keeps (\<lambda>t. rest_of t = r) (remove_message_entry k False)"
proof
  fix s
  assume "rest_of s = r"
  have "keeps (\<lambda>t. rest_of t = r) (bnd (unlink_from_pair k e) (\<lambda>_. when_do False m))" for e m
    by (intro keeps_bnd unlink_from_pair_rest) (simp add: when_do_def)
  note k = keepsD [OF this]
  show "rest_of (snd (remove_message_entry k False s)) = r"
    using \<open>rest_of s = r\<close>
    by (cases "map_of (eng_by_source s) k") (simp_all add: remove_message_entry_def Let_def k)
qed

lemma remove_message_entry_fields:
  "eng_order (snd (remove_message_entry k False s)) = eng_order s"
  "eng_window (snd (remove_message_entry k False s)) = eng_window s"
  "eng_counters (snd (remove_message_entry k False s)) = eng_counters s"
  "eng_forward (snd (remove_message_entry k False s)) = eng_forward s"
  "eng_reverse (snd (remove_message_entry k False s)) = eng_reverse s"
  "eng_context_source (snd (remove_message_entry k False s)) = eng_context_source s"
  "eng_journal (snd (remove_message_entry k False s)) = eng_journal s"
  using rest_ofD [OF keepsD [OF remove_message_entry_rest [of "rest_of s" k], of s]] by simp_all

lemma evict_message_order: "evict_message k s = (r, t) \<Longrightarrow> eng_order t = eng_order s"
  using remove_message_entry_fields(1) [of k]
  by (auto simp: evict_message_def Let_def split: option.splits dest!: arg_cong [where f = snd])

function trim_loop :: "int \<Rightarrow> (engine, int) action" where
  "trim_loop removed s =
     (if int (length (eng_order s)) > eng_window s then
        (case eng_order s of
           [] \<Rightarrow> (Inl IndexError, s)
         | k # ks \<Rightarrow>
             (case evict_message k (s\<lparr>eng_order := ks\<rparr>) of
                (Inl x, t) \<Rightarrow> (Inl x, t)
              | (Inr _, t) \<Rightarrow> trim_loop (removed + 1) t))
      else (Inr removed, s))"
  by pat_completeness auto
termination
  by (relation "measure (\<lambda>(_, s). length (eng_order s))")
    (auto dest!: evict_message_order [OF sym])

declare trim_loop.simps [simp del]

definition trim_message_window :: "bool \<Rightarrow> bool \<Rightarrow> (engine, window_snapshot option) action" where
  "trim_message_window force_compact always =
     bnd (trim_loop 0) (\<lambda>removed. gets (\<lambda>s.
       (if removed = 0 \<and> \<not> always then None
        else Some \<lparr>ws_active = (if always \<or> force_compact then eng_forward s NsMessage else []),
                   ws_changed = (removed > 0), ws_removed = removed, ws_compacted = False,
                   ws_active_count = int (length (eng_forward s NsMessage)),
                   ws_max_entries = eng_window s\<rparr>)))"

definition allocate_locked ::
    "string \<Rightarrow> string \<Rightarrow> (engine, id_mapping \<times> window_snapshot option \<times> bool) action" where
  "allocate_locked namespace k s =
     (case ns_of_name namespace of
        None \<Rightarrow> (Inl (KeyError namespace), s)
      | Some n \<Rightarrow>
          (case map_of (eng_forward s n) k of
             Some i \<Rightarrow> (Inr (\<lparr>im_namespace = namespace, im_source_id = k, im_surrogate_id = i\<rparr>, None, False), s)
           | None \<Rightarrow>
               (let c = eng_counters s n + 1;
                    i = bases n + c;
                    s1 = s\<lparr>eng_counters := (eng_counters s)(n := c),
                           eng_forward := (eng_forward s)(n := AList.update k i (eng_forward s n)),
                           eng_reverse := (eng_reverse s)(n := AList.update (str_int i) k (eng_reverse s n))\<rparr>;
                    m = \<lparr>im_namespace = namespace, im_source_id = k, im_surrogate_id = i\<rparr>
                in if n = NsMessage then
                     bnd (trim_message_window False False) (\<lambda>snap. ret (m, snap, True))
                       (s1\<lparr>eng_order := eng_order s1 @ [k]\<rparr>)
                   else (Inr (m, None, True), s1))))"

definition id_put_record :: "string \<Rightarrow> string \<Rightarrow> int \<Rightarrow> entry" where
  "id_put_record namespace k i =
     [(''op'', PStr ''id_put''), (''namespace'', PStr namespace),
      (''source_id'', PStr k), (''surrogate_id'', PInt i)]"

definition allocate_mapping :: "string \<Rightarrow> string \<Rightarrow> (engine, id_mapping \<times> window_snapshot option) action" where
  "allocate_mapping namespace k =
     bnd (allocate_locked namespace k) (\<lambda>(m, snap, created).
       bnd (when_do created (eng_record (id_put_record namespace k (im_surrogate_id m))))
         (\<lambda>_. ret (m, snap)))"

definition eng_get_source :: "string \<Rightarrow> string \<Rightarrow> engine \<Rightarrow> exn + string option" where
  "eng_get_source namespace surrogate s =
     (case ns_of_name namespace of
        None \<Rightarrow> Inl (KeyError namespace)
      | Some n \<Rightarrow> Inr (map_of (eng_reverse s n) surrogate))"

definition eng_get_surrogate :: "string \<Rightarrow> string \<Rightarrow> engine \<Rightarrow> exn + int option" where
  "eng_get_surrogate namespace k s =
     (case ns_of_name namespace of
        None \<Rightarrow> Inl (KeyError namespace)
      | Some n \<Rightarrow> Inr (map_of (eng_forward s n) k))"

definition message_rebuild_record :: "(string \<times> int) list \<Rightarrow> entry" where
  "message_rebuild_record act =
     [(''op'', PStr ''message_rebuild''),
      (''active_mappings'', PDict (map (\<lambda>(k, i). (k, PInt i)) act))]"

definition eng_rebuild_window :: "bool \<Rightarrow> (engine, window_snapshot) action" where
  "eng_rebuild_window force_compact =
     bnd (trim_message_window force_compact True) (\<lambda>r. bnd (gets eng_window) (\<lambda>w.
       (let snap = (case r of
                      None \<Rightarrow> \<lparr>ws_active = [], ws_changed = False, ws_removed = 0, ws_compacted = False,
                               ws_active_count = 0, ws_max_entries = w\<rparr>
                    | Some x \<Rightarrow> x)
        in bnd (when_do (ws_changed snap) (eng_record (message_rebuild_record (ws_active snap))))
             (\<lambda>_. ret snap))))"

section \<open>Messages\<close>

text \<open>
  \<open>_normalize_message_entry\<close> and \<open>_clone_message_entry\<close> rebuild a JSON tree key by key.
  The lookups return such a clone, so a caller cannot reach the stored entry.
\<close>

primrec clone_value :: "pyval \<Rightarrow> pyval" where
  "clone_value PNone = PNone"
| "clone_value (PBool b) = PBool b"
| "clone_value (PInt i) = PInt i"
| "clone_value (PStr s) = PStr s"
| "clone_value (PList xs) = PList (map clone_value xs)"
| "clone_value (PDict kvs) = PDict (map (map_prod id clone_value) kvs)"

definition clone_mapping :: "entry \<Rightarrow> entry" where
  "clone_mapping e = map (\<lambda>(k, v). (k, clone_value v)) e"

lemma clone_value_id [simp]: "clone_value v = v"
proof (induction v)
  case (PDict kvs)
  then have "map (map_prod id clone_value) kvs = kvs"
    by (intro map_idI) (force simp: snds.simps)
  then show ?case by simp
qed (auto intro: map_idI)

lemma clone_mapping_id [simp]: "clone_mapping e = e"
  by (auto simp: clone_mapping_def intro: map_idI)

definition put_normalized :: "entry \<Rightarrow> (engine, unit) action" where
  "put_normalized e =
     (case map_of e ''source_id'' of
        None \<Rightarrow> raise_exn (KeyError ''source_id'')
      | Some v \<Rightarrow>
          (let k = py_str v; surrogate = str_field e ''surrogate_id'' in
           bnd (remove_message_entry k False)
             (\<lambda>_. bnd (modify (\<lambda>s. s\<lparr>eng_by_source := AList.update k e (eng_by_source s),
                          eng_by_surrogate := (if surrogate \<noteq> []
                             then AList.update surrogate e (eng_by_surrogate s)
                             else eng_by_surrogate s)\<rparr>))
                (\<lambda>_. index_latest e))))"

definition message_put_record :: "entry \<Rightarrow> entry" where
  "message_put_record e = [(''op'', PStr ''message_put''), (''entry'', PDict e)]"

definition put_message :: "entry \<Rightarrow> (engine, unit) action" where
  "put_message e =
     (let n = clone_mapping e in
      bnd (put_normalized n) (\<lambda>_. eng_record (message_put_record n)))"

definition eng_message_by_source :: "engine \<Rightarrow> string \<Rightarrow> entry option" where
  "eng_message_by_source s k = map_option clone_mapping (map_of (eng_by_source s) k)"

definition eng_message_by_surrogate :: "engine \<Rightarrow> string \<Rightarrow> entry option" where
  "eng_message_by_surrogate s k = map_option clone_mapping (map_of (eng_by_surrogate s) k)"

definition normalize_mappings :: "entry \<Rightarrow> exn + (string \<times> int) list" where
  "normalize_mappings kvs = traverse (\<lambda>(k, v). sbind (py_int v) (\<lambda>i. Inr (k, i))) kvs"

definition rebuild_messages :: "(string \<times> int) list \<Rightarrow> (engine, unit) action" where
  "rebuild_messages act s =
     (case retain (eng_by_source s) act (sort_key snd act) of
        Inl x \<Rightarrow> (Inl x, s)
      | Inr kept \<Rightarrow>
          rebuild_latest_indexes (map (\<lambda>(_, _, e). e) kept)
            (s\<lparr>eng_by_source := new_by_source kept, eng_by_surrogate := new_by_surrogate kept\<rparr>))"

definition rebuild_messages_for_active_mappings :: "entry \<Rightarrow> (engine, unit) action" where
  "rebuild_messages_for_active_mappings kvs =
     bnd (lift_exn (normalize_mappings kvs)) (\<lambda>act.
       bnd (rebuild_messages act) (\<lambda>_. eng_record (message_rebuild_record act)))"

definition eng_latest_entry ::
    "rat \<Rightarrow> rat option \<Rightarrow> engine \<Rightarrow> string \<Rightarrow> string \<Rightarrow> exn + entry option" where
  "eng_latest_entry now max_age s ctx sender =
     (case map_of (eng_latest s) (ctx, sender) of
        None \<Rightarrow> Inr None
      | Some e \<Rightarrow> sbind (expired now max_age e) (\<lambda>x. Inr (if x then None else Some e)))"

definition eng_latest_field ::
    "string \<Rightarrow> rat \<Rightarrow> rat option \<Rightarrow> engine \<Rightarrow> string \<Rightarrow> string \<Rightarrow> exn + string option" where
  "eng_latest_field field now max_age s ctx sender =
     sbind (eng_latest_entry now max_age s ctx sender) (\<lambda>r.
       Inr (case r of None \<Rightarrow> None
            | Some e \<Rightarrow> (let v = str_field e field in if v = [] then None else Some v)))"

definition eng_latest_room ::
    "rat \<Rightarrow> rat option \<Rightarrow> engine \<Rightarrow> string \<Rightarrow> string \<Rightarrow> exn + string option" where
  "eng_latest_room = eng_latest_field ''room_source_id''"

definition eng_latest_thread ::
    "rat \<Rightarrow> rat option \<Rightarrow> engine \<Rightarrow> string \<Rightarrow> string \<Rightarrow> exn + string option" where
  "eng_latest_thread = eng_latest_field ''thread_source_id''"

section \<open>Private rooms and context rooms\<close>

definition bind_private_without_record :: "string \<Rightarrow> int \<Rightarrow> string \<Rightarrow> (engine, unit) action" where
  "bind_private_without_record user surrogate room =
     modify (\<lambda>s. s\<lparr>eng_private_source := AList.update user room (eng_private_source s),
                  eng_private_surrogate := AList.update (str_int surrogate) room (eng_private_surrogate s)\<rparr>)"

definition private_bind_record :: "string \<Rightarrow> int \<Rightarrow> string \<Rightarrow> entry" where
  "private_bind_record user surrogate room =
     [(''op'', PStr ''private_bind''), (''user_source_id'', PStr user),
      (''user_surrogate_id'', PInt surrogate), (''room_source_id'', PStr room)]"

definition bind_private_room :: "string \<Rightarrow> int \<Rightarrow> string \<Rightarrow> (engine, unit) action" where
  "bind_private_room user surrogate room =
     bnd (bind_private_without_record user surrogate room)
       (\<lambda>_. eng_record (private_bind_record user surrogate room))"

definition eng_room_by_user_source :: "engine \<Rightarrow> string \<Rightarrow> string option" where
  "eng_room_by_user_source s u = map_of (eng_private_source s) u"

definition eng_room_by_user_surrogate :: "engine \<Rightarrow> string \<Rightarrow> string option" where
  "eng_room_by_user_surrogate s u = map_of (eng_private_surrogate s) u"

definition replace_private_surrogates :: "(string \<times> string) list \<Rightarrow> engine \<Rightarrow> engine" where
  "replace_private_surrogates bindings s = s\<lparr>eng_private_surrogate := bindings\<rparr>"

text \<open>The lookup with the raw field of the entry: only a string can be a key of the map.\<close>

definition existing_context :: "engine \<Rightarrow> pyval \<Rightarrow> exn + entry option" where
  "existing_context s v =
     (case v of
        PStr k \<Rightarrow> Inr (map_of (eng_context_source s) k)
      | PList _ \<Rightarrow> Inl TypeError
      | PDict _ \<Rightarrow> Inl TypeError
      | _ \<Rightarrow> Inr None)"

definition stale_context :: "engine \<Rightarrow> entry \<Rightarrow> pyval \<Rightarrow> exn + bool" where
  "stale_context s e v =
     sbind (existing_context s v) (\<lambda>old.
       (case (dget e ''timestamp'', old) of
          (PNone, _) \<Rightarrow> Inr False
        | (_, None) \<Rightarrow> Inr False
        | (t, Some x) \<Rightarrow>
            sbind (int_field x ''timestamp'') (\<lambda>ot. sbind (py_int t) (\<lambda>nt. Inr (ot > nt)))))"

definition bind_context_without_record :: "entry \<Rightarrow> (engine, bool) action" where
  "bind_context_without_record e s =
     (case map_of e ''context_source_id'' of
        None \<Rightarrow> (Inl (KeyError ''context_source_id''), s)
      | Some v \<Rightarrow>
          (case stale_context s e v of
             Inl x \<Rightarrow> (Inl x, s)
           | Inr True \<Rightarrow> (Inr False, s)
           | Inr False \<Rightarrow>
               (let s1 = s\<lparr>eng_context_source := AList.update (py_str v) e (eng_context_source s)\<rparr> in
                case map_of e ''context_surrogate_id'' of
                  None \<Rightarrow> (Inl (KeyError ''context_surrogate_id''), s1)
                | Some g \<Rightarrow>
                    (Inr True, s1\<lparr>eng_context_surrogate :=
                       AList.update (py_str g) e (eng_context_surrogate s1)\<rparr>))))"

definition context_bind_record :: "entry \<Rightarrow> entry" where
  "context_bind_record e = [(''op'', PStr ''context_bind''), (''entry'', PDict e)]"

definition bind_context_room :: "context_args \<Rightarrow> (engine, unit) action" where
  "bind_context_room a =
     bnd (lift_exn (context_entry a)) (\<lambda>e.
       bnd (bind_context_without_record e) (\<lambda>bound.
         when_do bound (eng_record (context_bind_record e))))"

definition eng_context_by_source :: "engine \<Rightarrow> string \<Rightarrow> entry option" where
  "eng_context_by_source s c = map_of (eng_context_source s) c"

definition eng_context_by_surrogate :: "engine \<Rightarrow> string \<Rightarrow> entry option" where
  "eng_context_by_surrogate s c = map_of (eng_context_surrogate s) c"

definition purge_legacy :: "engine \<Rightarrow> engine" where
  "purge_legacy s = s\<lparr>eng_by_source := [], eng_by_surrogate := [], eng_latest := [],
     eng_pair_order := [], eng_private_surrogate := []\<rparr>"

section \<open>Applying journal records\<close>

text \<open>
  \<open>_apply_record\<close> with \<open>persist = False\<close>, the only way it is called (\<open>replay_journal\<close>).
  Every malformed record is skipped; a record may still raise (a rebuild with a bad id).
\<close>

definition legacy_user_id :: "int \<Rightarrow> bool" where
  "legacy_user_id i = (1000000000 \<le> i \<and> i < 2000000000)"

definition mark_legacy :: "bool \<Rightarrow> (engine, unit) action" where
  "mark_legacy b = modify (\<lambda>s. s\<lparr>eng_legacy := eng_legacy s \<or> b\<rparr>)"

definition put_id :: "ns \<Rightarrow> string \<Rightarrow> int \<Rightarrow> (engine, unit) action" where
  "put_id n k i s =
     (case map_of (eng_forward s n) k of
        Some _ \<Rightarrow> (Inr (), s)
      | None \<Rightarrow>
          (let s1 = s\<lparr>eng_counters := (eng_counters s)(n := max (eng_counters s n) (i - bases n)),
                     eng_forward := (eng_forward s)(n := AList.update k i (eng_forward s n)),
                     eng_reverse := (eng_reverse s)(n := AList.update (str_int i) k (eng_reverse s n))\<rparr>
           in if n = NsMessage then
                bnd (trim_message_window False False) (\<lambda>_. ret ()) (s1\<lparr>eng_order := eng_order s1 @ [k]\<rparr>)
              else (Inr (), s1)))"

definition apply_id_put :: "entry \<Rightarrow> (engine, unit) action" where
  "apply_id_put r =
     (let namespace = raw_str_field r ''namespace''; k = raw_str_field r ''source_id'' in
      if namespace = ''user'' then mark_legacy True
      else (case ns_of_name namespace of
              None \<Rightarrow> ret ()
            | Some n \<Rightarrow>
                (case int_field r ''surrogate_id'' of
                   Inl _ \<Rightarrow> ret ()
                 | Inr i \<Rightarrow> if k = [] \<or> i \<le> 0 then ret () else put_id n k i)))"

definition apply_message_put :: "entry \<Rightarrow> (engine, unit) action" where
  "apply_message_put r =
     (case as_dict (dget r ''entry'') of
        None \<Rightarrow> ret ()
      | Some e \<Rightarrow>
          bnd (mark_legacy (case py_int (dget e ''sender_surrogate_id'') of
                 Inl _ \<Rightarrow> False | Inr i \<Rightarrow> legacy_user_id i))
            (\<lambda>_. put_normalized (clone_mapping e)))"

definition apply_private_bind :: "entry \<Rightarrow> (engine, unit) action" where
  "apply_private_bind r =
     (case int_field r ''user_surrogate_id'' of
        Inl _ \<Rightarrow> ret ()
      | Inr i \<Rightarrow>
          bnd (mark_legacy (legacy_user_id i)) (\<lambda>_.
            bind_private_without_record (raw_str_field r ''user_source_id'') i
              (raw_str_field r ''room_source_id'')))"

definition apply_context_bind :: "entry \<Rightarrow> (engine, unit) action" where
  "apply_context_bind r =
     (case as_dict (dget r ''entry'') of
        None \<Rightarrow> ret ()
      | Some e \<Rightarrow> bnd (bind_context_without_record e) (\<lambda>_. ret ()))"

definition apply_message_rebuild :: "entry \<Rightarrow> (engine, unit) action" where
  "apply_message_rebuild r =
     (case as_dict (dget r ''active_mappings'') of
        None \<Rightarrow> ret ()
      | Some kvs \<Rightarrow> bnd (lift_exn (normalize_mappings kvs)) rebuild_messages)"

definition apply_leaf :: "string \<Rightarrow> entry \<Rightarrow> (engine, unit) action" where
  "apply_leaf op r =
     (if op = ''id_put'' then apply_id_put r
      else if op = ''message_put'' then apply_message_put r
      else if op = ''private_bind'' then apply_private_bind r
      else if op = ''context_bind'' then apply_context_bind r
      else if op = ''message_rebuild'' then apply_message_rebuild r
      else ret ())"

text \<open>The dictionaries among the mutations of a batch; every other item is skipped.\<close>

definition batch_items :: "entry \<Rightarrow> exn + entry list" where
  "batch_items r = sbind (py_iter (py_or (dget r ''mutations'') (PList [])))
     (\<lambda>xs. Inr (List.map_filter as_dict xs))"

lemma size_dget: "dget r k = v \<Longrightarrow> v \<noteq> PNone \<Longrightarrow> size v < size (PDict r)"
  by (induction r) (auto simp: dget_def split: if_splits option.splits)

lemma batch_items_size:
  assumes "batch_items r = Inr items" "x \<in> set items"
  shows "size (PDict x) < size (PDict r)"
proof -
  obtain xs where xs: "py_iter (py_or (dget r ''mutations'') (PList [])) = Inr xs"
    "items = List.map_filter as_dict xs"
    using assms(1) by (auto simp: batch_items_def sbind_Inr)
  have x: "PDict x \<in> set xs"
    using assms(2) xs(2) by (auto simp: List.map_filter_def)
  with xs(1) obtain ys where "dget r ''mutations'' = PList ys" "PDict x \<in> set ys"
    by (cases "dget r ''mutations''") (auto simp: py_or_def split: if_splits)
  then show ?thesis
    using size_dget [of r "''mutations''" "PList ys"] size_list_estimation' [of "PDict x" ys "size (PDict x)" size]
    by simp
qed

primrec items_size :: "entry list \<Rightarrow> nat" where
  "items_size [] = 0"
| "items_size (r # rs) = max (size (PDict r)) (items_size rs)"

lemma items_size_less: "(\<And>x. x \<in> set xs \<Longrightarrow> size (PDict x) < n) \<Longrightarrow> 0 < n \<Longrightarrow> items_size xs < n"
  by (induction xs) auto

function apply_record :: "entry \<Rightarrow> (engine, unit) action"
  and apply_items :: "entry list \<Rightarrow> (engine, unit) action" where
  "apply_record r =
     (let op = raw_str_field r ''op'' in
      if op = ''batch'' then
        (case batch_items r of Inl x \<Rightarrow> raise_exn x | Inr items \<Rightarrow> apply_items items)
      else apply_leaf op r)"
| "apply_items [] = ret ()"
| "apply_items (r # rs) = bnd (apply_record r) (\<lambda>_. apply_items rs)"
  by pat_completeness auto
termination
proof (relation "measures [\<lambda>x. case x of Inl r \<Rightarrow> size (PDict r) | Inr rs \<Rightarrow> items_size rs,
    \<lambda>x. case x of Inl r \<Rightarrow> 0 | Inr rs \<Rightarrow> Suc (length rs)]", goal_cases)
  case (2 r op items)
  then show ?case
    using batch_items_size [of r items] by (auto intro!: items_size_less)
qed auto

definition replay_records :: "entry list \<Rightarrow> (engine, unit) action" where
  "replay_records rs = for_each rs apply_record"

section \<open>Mutation batches\<close>

text \<open>
  A batch applies each operation to the engine at once and hands all its mutations to the
  journal as one record when it is committed.
\<close>

record batch =
  mb_engine :: engine
  mb_mutations :: "entry list"
  mb_committed :: bool

definition begin_batch :: "engine \<Rightarrow> batch" where
  "begin_batch s = \<lparr>mb_engine = s, mb_mutations = [], mb_committed = False\<rparr>"

definition has_pending :: "batch \<Rightarrow> bool" where
  "has_pending b = (mb_mutations b \<noteq> [] \<and> \<not> mb_committed b)"

definition on_engine :: "(engine, 'a) action \<Rightarrow> (batch, 'a) action" where
  "on_engine m b = (case m (mb_engine b) of (r, s) \<Rightarrow> (r, b\<lparr>mb_engine := s\<rparr>))"

definition add_mutation :: "entry \<Rightarrow> (batch, unit) action" where
  "add_mutation r = modify (\<lambda>b. b\<lparr>mb_mutations := mb_mutations b @ [r]\<rparr>)"

definition batch_get_or_create :: "string \<Rightarrow> string \<Rightarrow> (batch, id_mapping) action" where
  "batch_get_or_create namespace k =
     bnd (on_engine (allocate_locked namespace k)) (\<lambda>(m, _, created).
       bnd (when_do created (add_mutation (id_put_record namespace k (im_surrogate_id m))))
         (\<lambda>_. ret m))"

definition batch_bind_private :: "string \<Rightarrow> int \<Rightarrow> string \<Rightarrow> (batch, unit) action" where
  "batch_bind_private user surrogate room =
     bnd (on_engine (bind_private_without_record user surrogate room))
       (\<lambda>_. add_mutation (private_bind_record user surrogate room))"

definition batch_bind_context :: "context_args \<Rightarrow> (batch, unit) action" where
  "batch_bind_context a =
     bnd (lift_exn (context_entry a)) (\<lambda>e.
       bnd (on_engine (bind_context_without_record e)) (\<lambda>bound.
         when_do bound (add_mutation (context_bind_record e))))"

definition batch_put_message :: "entry \<Rightarrow> (batch, unit) action" where
  "batch_put_message e =
     bnd (on_engine (put_normalized e)) (\<lambda>_. add_mutation (message_put_record e))"

definition batch_record :: "entry list \<Rightarrow> entry" where
  "batch_record ms = [(''op'', PStr ''batch''), (''mutations'', PList (map PDict ms))]"

definition batch_commit :: "(batch, unit) action" where
  "batch_commit b =
     (if mb_committed b then (Inr (), b)
      else if mb_mutations b = [] then (Inr (), b\<lparr>mb_committed := True\<rparr>)
      else bnd (on_engine (eng_record (batch_record (mb_mutations b))))
             (\<lambda>_. modify (\<lambda>b. b\<lparr>mb_committed := True\<rparr>)) b)"

section \<open>Snapshots\<close>

text \<open>
  The state dictionary of a snapshot. The keys of the two context-sender maps are pairs
  in a current snapshot; \<open>_normalize_pair_key\<close> also reads the separator-joined text of
  older ones.
\<close>

datatype pair_key = PairKey pyval pyval | TextKey string

record engine_snapshot =
  sn_window :: pyval
  sn_counters :: entry
  sn_forward :: "(string \<times> entry) list"
  sn_reverse :: "(string \<times> entry) list"
  sn_order :: "pyval list"
  sn_by_source :: entry
  sn_by_surrogate :: entry
  sn_latest :: "(pair_key \<times> pyval) list"
  sn_pair_order :: "(pair_key \<times> pyval list) list"
  sn_private_source :: entry
  sn_private_surrogate :: entry
  sn_context_source :: entry
  sn_context_surrogate :: entry

definition per_ns :: "(ns \<Rightarrow> 'a) \<Rightarrow> (string \<times> 'a) list" where
  "per_ns f = map (\<lambda>n. (ns_name n, f n)) all_ns"

definition dict_values :: "(string \<times> entry) list \<Rightarrow> entry" where
  "dict_values al = map (\<lambda>(k, e). (k, PDict e)) al"

definition str_values :: "(string \<times> string) list \<Rightarrow> entry" where
  "str_values al = map (\<lambda>(k, s). (k, PStr s)) al"

definition export_snapshot :: "engine \<Rightarrow> engine_snapshot" where
  "export_snapshot s =
     \<lparr>sn_window = PInt (eng_window s),
      sn_counters = per_ns (\<lambda>n. PInt (eng_counters s n)),
      sn_forward = per_ns (\<lambda>n. map (\<lambda>(k, i). (k, PInt i)) (eng_forward s n)),
      sn_reverse = per_ns (\<lambda>n. str_values (eng_reverse s n)),
      sn_order = map PStr (eng_order s),
      sn_by_source = dict_values (eng_by_source s),
      sn_by_surrogate = [],
      sn_latest = map (\<lambda>((c, u), e). (PairKey (PStr c) (PStr u), PDict e)) (eng_latest s),
      sn_pair_order = map (\<lambda>((c, u), os). (PairKey (PStr c) (PStr u), map PStr os)) (eng_pair_order s),
      sn_private_source = str_values (eng_private_source s),
      sn_private_surrogate = str_values (eng_private_surrogate s),
      sn_context_source = dict_values (eng_context_source s),
      sn_context_surrogate = []\<rparr>"

fun normalize_pair_key :: "pair_key \<Rightarrow> string \<times> string" where
  "normalize_pair_key (PairKey a b) = (py_str a, py_str b)"
| "normalize_pair_key (TextKey t) = (case partition_on (CHR 0x1F) t of (c, _, u) \<Rightarrow> (c, u))"

text \<open>A dictionary comprehension: the items are inserted one by one, a repeated key overwrites.\<close>

definition build_dict :: "('a \<times> 'b) list \<Rightarrow> ('a \<times> 'b) list" where
  "build_dict kvs = fold (\<lambda>(k, v). AList.update k v) kvs []"

definition ns_dict :: "(string \<times> entry) list \<Rightarrow> string \<Rightarrow> entry" where
  "ns_dict al name = (case map_of al name of None \<Rightarrow> [] | Some e \<Rightarrow> e)"

definition int_items :: "entry \<Rightarrow> exn + (string \<times> int) list" where
  "int_items e = sbind (normalize_mappings e) (\<lambda>kvs. Inr (build_dict kvs))"

definition str_items :: "entry \<Rightarrow> (string \<times> string) list" where
  "str_items e = build_dict (map (\<lambda>(k, v). (k, py_str v)) e)"

definition entry_items :: "('k \<times> pyval) list \<Rightarrow> ('k \<times> entry) list" where
  "entry_items kvs = List.map_filter (\<lambda>(k, v). map_option (Pair k) (as_dict v)) kvs"

fun index_field :: "string \<Rightarrow> entry list \<Rightarrow> (string \<times> entry) list \<Rightarrow> (string \<times> entry) list" where
  "index_field field [] acc = acc"
| "index_field field (e # es) acc =
     (let v = str_field e field in
      index_field field es (if v \<noteq> [] then AList.update v e acc else acc))"

definition per_ns_fun :: "(ns \<Rightarrow> exn + 'a) \<Rightarrow> 'a \<Rightarrow> exn + (ns \<Rightarrow> 'a)" where
  "per_ns_fun f dflt = sbind (traverse (\<lambda>n. sbind (f n) (\<lambda>x. Inr (n, x))) all_ns)
     (\<lambda>kvs. Inr (\<lambda>n. case map_of kvs n of None \<Rightarrow> dflt | Some x \<Rightarrow> x))"

definition load_messages :: "engine_snapshot \<Rightarrow> engine \<Rightarrow> engine" where
  "load_messages sn s =
     (let bs = build_dict (entry_items (sn_by_source sn));
          bg = index_field ''surrogate_id'' (map snd bs) []
      in s\<lparr>eng_order := map py_str (sn_order sn),
           eng_by_source := bs,
           eng_by_surrogate := (if bg = [] then build_dict (entry_items (sn_by_surrogate sn)) else bg),
           eng_latest := build_dict (map (\<lambda>(k, e). (normalize_pair_key k, e)) (entry_items (sn_latest sn))),
           eng_pair_order :=
             build_dict (map (\<lambda>(k, os). (normalize_pair_key k, map py_str os)) (sn_pair_order sn))\<rparr>)"

definition load_rooms :: "engine_snapshot \<Rightarrow> engine \<Rightarrow> engine" where
  "load_rooms sn s =
     (let cs = build_dict (entry_items (sn_context_source sn));
          cg = index_field ''context_surrogate_id'' (map snd (entry_items (sn_context_source sn))) [];
          pg = str_items (sn_private_surrogate sn)
      in s\<lparr>eng_private_source := str_items (sn_private_source sn),
           eng_private_surrogate := pg,
           eng_legacy := eng_legacy s \<or> pg \<noteq> [],
           eng_context_source := cs,
           eng_context_surrogate :=
             (if cg = [] then build_dict (entry_items (sn_context_surrogate sn)) else cg)\<rparr>)"

definition load_snapshot :: "engine_snapshot \<Rightarrow> (engine, unit) action" where
  "load_snapshot sn =
     bnd (lift_exn (int_field (sn_counters sn) ''user'')) (\<lambda>lc.
     bnd (mark_legacy (ns_dict (sn_forward sn) ''user'' \<noteq> [] \<or> ns_dict (sn_reverse sn) ''user'' \<noteq> [] \<or> lc \<noteq> 0)) (\<lambda>_.
     bnd (modify (\<lambda>s. s\<lparr>eng_window := normalize_window (py_or (sn_window sn) (PInt (eng_window s)))\<rparr>)) (\<lambda>_.
     bnd (lift_exn (per_ns_fun (\<lambda>n. int_field (sn_counters sn) (ns_name n)) 0)) (\<lambda>cs.
     bnd (modify (\<lambda>s. s\<lparr>eng_counters := cs\<rparr>)) (\<lambda>_.
     bnd (lift_exn (per_ns_fun (\<lambda>n. int_items (ns_dict (sn_forward sn) (ns_name n))) [])) (\<lambda>fwd.
       modify (\<lambda>s. load_rooms sn (load_messages sn
         (s\<lparr>eng_forward := fwd, eng_reverse := (\<lambda>n. str_items (ns_dict (sn_reverse sn) (ns_name n)))\<rparr>)))))))))"

section \<open>Invariants\<close>

text \<open>
  The id maps mirror each other, every id lies between the base and the counter of its
  namespace, and the message order lists the keys of the message map from the oldest id
  to the newest.
\<close>

definition ids_ok :: "engine \<Rightarrow> bool" where
  "ids_ok s \<longleftrightarrow> 1 \<le> eng_window s
     \<and> (\<forall>n. mirrors (eng_forward s n) (eng_reverse s n)
            \<and> ids_in_range (bases n) (eng_counters s n) (eng_forward s n) \<and> 0 \<le> eng_counters s n)
     \<and> eng_order s = map fst (eng_forward s NsMessage)
     \<and> sorted_wrt (<) (map snd (eng_forward s NsMessage))"

definition window_ok :: "engine \<Rightarrow> bool" where
  "window_ok s \<longleftrightarrow> int (length (eng_order s)) \<le> eng_window s"

text \<open>Every stored message has a timestamp that \<open>int()\<close> accepts.\<close>

definition timestamps_ok :: "engine \<Rightarrow> bool" where
  "timestamps_ok s \<longleftrightarrow> (\<forall>k e. map_of (eng_by_source s) k = Some e \<longrightarrow> readable_ts e)"

definition engine_ok :: "engine \<Rightarrow> bool" where
  "engine_ok s \<longleftrightarrow> ids_ok s \<and> window_ok s \<and> timestamps_ok s"

lemma ids_okD:
  assumes "ids_ok s"
  shows "1 \<le> eng_window s" "mirrors (eng_forward s n) (eng_reverse s n)"
    "ids_in_range (bases n) (eng_counters s n) (eng_forward s n)" "0 \<le> eng_counters s n"
    "eng_order s = map fst (eng_forward s NsMessage)"
    "sorted_wrt (<) (map snd (eng_forward s NsMessage))" "unique_keys (eng_forward s n)"
  using assms by (auto simp: ids_ok_def mirrors_def)

lemma readable_fragment: "readable_ts e \<Longrightarrow> \<exists>f. latest_fragment e = Inr f"
  by (auto simp: readable_ts_def latest_fragment_def)

lemma pop_missing_last: "pop_missing bs os \<noteq> [] \<Longrightarrow> map_of bs (last (pop_missing bs os)) \<noteq> None"
  using hd_dropWhile [of "\<lambda>k. map_of bs k = None" "rev os"]
  by (simp add: last_rev)

lemma refresh_latest_ok:
  "timestamps_ok s \<Longrightarrow> fst (refresh_latest p s) = Inr () \<and> eng_by_source (snd (refresh_latest p s)) = eng_by_source s"
  using pop_missing_last [of "eng_by_source s"] readable_fragment
  by (fastforce simp: refresh_latest_def Let_def timestamps_ok_def simp del: pop_missing.simps
      split: option.split sum.split)

lemma unlink_from_pair_ok:
  assumes "timestamps_ok s"
  shows "fst (unlink_from_pair k e s) = Inr () \<and> eng_by_source (snd (unlink_from_pair k e s)) = eng_by_source s"
proof -
  have "timestamps_ok (s\<lparr>eng_pair_order := x\<rparr>)" for x
    using assms by (simp add: timestamps_ok_def)
  from refresh_latest_ok [OF this] show ?thesis
    by (auto simp: unlink_from_pair_def split: option.split)
qed

lemma remove_message_entry_ok:
  assumes "timestamps_ok s"
  shows "fst (remove_message_entry k False s) = Inr ()"
    "eng_by_source (snd (remove_message_entry k False s)) = AList.delete k (eng_by_source s)"
proof -
  let ?P = "fst (remove_message_entry k False s) = Inr () \<and>
    eng_by_source (snd (remove_message_entry k False s)) = AList.delete k (eng_by_source s)"
  have ?P
  proof (cases "map_of (eng_by_source s) k")
    case None
    then have "k \<notin> fst ` set (eng_by_source s)" by (simp add: map_of_eq_None_iff)
    with None show ?thesis by (simp add: remove_message_entry_def delete_id)
  next
    case (Some e)
    have "timestamps_ok (s\<lparr>eng_by_source := AList.delete k (eng_by_source s), eng_by_surrogate := x\<rparr>)" for x
      using assms by (auto simp: timestamps_ok_def)
    note u = unlink_from_pair_ok [OF this, of k e]
    let ?g = "if str_field e ''surrogate_id'' \<noteq> []
           then AList.delete (str_field e ''surrogate_id'') (eng_by_surrogate s) else eng_by_surrogate s"
    obtain t where
      "unlink_from_pair k e (s\<lparr>eng_by_source := AList.delete k (eng_by_source s), eng_by_surrogate := ?g\<rparr>)
         = (Inr (), t)"
      "eng_by_source t = AList.delete k (eng_by_source s)"
      using u [of ?g]
      by (cases "unlink_from_pair k e (s\<lparr>eng_by_source := AList.delete k (eng_by_source s), eng_by_surrogate := ?g\<rparr>)")
        simp
    with Some show ?thesis
      by (simp add: remove_message_entry_def Let_def bnd_def when_do_def ret_def)
  qed
  then show "fst (remove_message_entry k False s) = Inr ()"
    "eng_by_source (snd (remove_message_entry k False s)) = AList.delete k (eng_by_source s)"
    by simp_all
qed

lemma timestamps_ok_remove:
  "timestamps_ok s \<Longrightarrow> timestamps_ok (snd (remove_message_entry k False s))"
  using remove_message_entry_ok(2) [of s k] by (simp add: timestamps_ok_def)

text \<open>Evicting the oldest message takes the first entry off the message map.\<close>

lemma evict_head:
  assumes i: "ids_ok s" and t: "timestamps_ok s" and o: "eng_order s = k # ks"
  shows "\<exists>t. evict_message k (s\<lparr>eng_order := ks\<rparr>) = (Inr (), t) \<and> ids_ok t \<and> timestamps_ok t
    \<and> eng_order t = ks \<and> eng_window t = eng_window s \<and> eng_counters t = eng_counters s
    \<and> eng_forward t = (eng_forward s)(NsMessage := tl (eng_forward s NsMessage))
    \<and> eng_context_source t = eng_context_source s \<and> eng_journal t = eng_journal s
    \<and> eng_by_source t = AList.delete k (eng_by_source s)"
proof -
  note d = ids_okD [OF i]
  from o d(5) obtain j rest where f: "eng_forward s NsMessage = (k, j) # rest" "ks = map fst rest"
    by (auto simp: map_eq_Cons_conv)
  let ?s = "s\<lparr>eng_order := ks,
      eng_forward := (eng_forward s)(NsMessage := rest),
      eng_reverse := (eng_reverse s)(NsMessage := AList.delete (str_int j) (eng_reverse s NsMessage))\<rparr>"
  have k: "k \<notin> fst ` set rest"
    using d(7) [of NsMessage] f by simp
  then have del: "AList.delete k (eng_forward s NsMessage) = rest"
    using f by (simp add: delete_id)
  have e: "evict_message k (s\<lparr>eng_order := ks\<rparr>) = remove_message_entry k False ?s"
    using f del by (simp add: evict_message_def Let_def)
  have "mirrors rest (AList.delete (str_int j) (eng_reverse s NsMessage))"
    using mirrors_delete [OF d(2) [of NsMessage], of k j] f del by simp
  moreover have "ids_in_range (bases NsMessage) (eng_counters s NsMessage) rest"
    using d(3) [of NsMessage] f by (simp add: ids_in_range_def)
  ultimately have ids: "ids_ok ?s"
    using i f by (simp add: ids_ok_def)
  have ts: "timestamps_ok ?s"
    using t by (simp add: timestamps_ok_def)
  obtain t where r: "remove_message_entry k False ?s = (Inr (), t)"
    using remove_message_entry_ok(1) [OF ts, of k] by (metis prod.collapse)
  note fields = remove_message_entry_fields [of k ?s, unfolded r snd_conv]
  have "ids_ok t"
    using ids unfolding ids_ok_def fields .
  moreover have "timestamps_ok t"
    using timestamps_ok_remove [OF ts, of k] r by simp
  moreover have "eng_by_source t = AList.delete k (eng_by_source s)"
    using remove_message_entry_ok(2) [OF ts, of k] r by simp
  ultimately show ?thesis
    using e f r fields by simp
qed

text \<open>Trimming keeps exactly the newest \<open>eng_window\<close> messages and nothing else changes.\<close>

lemma trim_loop_spec:
  "ids_ok s \<Longrightarrow> timestamps_ok s \<Longrightarrow>
   \<exists>t. trim_loop r s = (Inr (r + int (length (eng_order s) - nat (eng_window s))), t)
    \<and> ids_ok t \<and> timestamps_ok t \<and> window_ok t
    \<and> eng_order t = drop (length (eng_order s) - nat (eng_window s)) (eng_order s)
    \<and> eng_window t = eng_window s \<and> eng_counters t = eng_counters s
    \<and> eng_forward t = (eng_forward s)(NsMessage :=
         drop (length (eng_order s) - nat (eng_window s)) (eng_forward s NsMessage))
    \<and> eng_context_source t = eng_context_source s \<and> eng_journal t = eng_journal s
    \<and> (\<forall>k. k \<notin> set (take (length (eng_order s) - nat (eng_window s)) (eng_order s)) \<longrightarrow>
         map_of (eng_by_source t) k = map_of (eng_by_source s) k)"
proof (induction r s rule: trim_loop.induct)
  case (1 r s)
  show ?case
  proof (cases "int (length (eng_order s)) > eng_window s")
    case False
    with "1.prems" ids_okD(1) [OF "1.prems"(1)] show ?thesis
      by (subst trim_loop.simps) (auto simp: window_ok_def)
  next
    case True
    with ids_okD(1) [OF "1.prems"(1)] obtain k ks where o: "eng_order s = k # ks"
      by (cases "eng_order s") auto
    obtain t where t: "evict_message k (s\<lparr>eng_order := ks\<rparr>) = (Inr (), t)" "ids_ok t" "timestamps_ok t"
      "eng_order t = ks" "eng_window t = eng_window s" "eng_counters t = eng_counters s"
      "eng_forward t = (eng_forward s)(NsMessage := tl (eng_forward s NsMessage))"
      "eng_context_source t = eng_context_source s" "eng_journal t = eng_journal s"
      "eng_by_source t = AList.delete k (eng_by_source s)"
      using evict_head [OF "1.prems" o] by blast
    have step: "trim_loop r s = trim_loop (r + 1) t"
      using True o t(1) by (subst trim_loop.simps) simp
    have n: "length (eng_order s) - nat (eng_window s) = Suc (length ks - nat (eng_window s))"
      using True o by auto
    obtain u where "trim_loop (r + 1) t = (Inr (r + 1 + int (length ks - nat (eng_window s))), u)"
      "ids_ok u" "timestamps_ok u" "window_ok u"
      "eng_order u = drop (length ks - nat (eng_window s)) ks"
      "eng_window u = eng_window s" "eng_counters u = eng_counters s"
      "eng_forward u = (eng_forward t)(NsMessage :=
         drop (length ks - nat (eng_window s)) (eng_forward t NsMessage))"
      "eng_context_source u = eng_context_source s" "eng_journal u = eng_journal s"
      "\<forall>k. k \<notin> set (take (length ks - nat (eng_window s)) ks) \<longrightarrow>
         map_of (eng_by_source u) k = map_of (eng_by_source t) k"
      using "1.IH" [OF True o t(1) [symmetric] refl t(2,3)] unfolding t(4,5,6,8,9) by blast
    then show ?thesis
      unfolding n unfolding step o t(7,10) by (auto simp: drop_Suc fun_eq_iff)
  qed
qed

text \<open>Entering a new id: the state before the window is trimmed.\<close>

definition enter_id :: "ns \<Rightarrow> string \<Rightarrow> int \<Rightarrow> int \<Rightarrow> engine \<Rightarrow> engine" where
  "enter_id n k i c s =
     s\<lparr>eng_counters := (eng_counters s)(n := c),
       eng_forward := (eng_forward s)(n := AList.update k i (eng_forward s n)),
       eng_reverse := (eng_reverse s)(n := AList.update (str_int i) k (eng_reverse s n)),
       eng_order := (if n = NsMessage then eng_order s @ [k] else eng_order s)\<rparr>"

lemma enter_id_fields [simp]:
  "eng_window (enter_id n k i c s) = eng_window s"
  "eng_counters (enter_id n k i c s) = (eng_counters s)(n := c)"
  "eng_forward (enter_id n k i c s) = (eng_forward s)(n := AList.update k i (eng_forward s n))"
  "eng_order (enter_id n k i c s) = (if n = NsMessage then eng_order s @ [k] else eng_order s)"
  "eng_by_source (enter_id n k i c s) = eng_by_source s"
  "eng_context_source (enter_id n k i c s) = eng_context_source s"
  "eng_journal (enter_id n k i c s) = eng_journal s"
  by (simp_all add: enter_id_def)

lemma allocate_locked_new:
  assumes "ns_of_name nm = Some n" "map_of (eng_forward s n) k = None"
  shows "allocate_locked nm k s =
    (let c = eng_counters s n + 1; i = bases n + c;
         m = \<lparr>im_namespace = nm, im_source_id = k, im_surrogate_id = i\<rparr>
     in if n = NsMessage
        then bnd (trim_message_window False False) (\<lambda>snap. ret (m, snap, True)) (enter_id n k i c s)
        else (Inr (m, None, True), enter_id n k i c s))"
  using assms by (simp add: allocate_locked_def enter_id_def Let_def)

lemma put_id_new:
  assumes "map_of (eng_forward s n) k = None"
  shows "put_id n k i s =
    (let s1 = enter_id n k i (max (eng_counters s n) (i - bases n)) s
     in if n = NsMessage then bnd (trim_message_window False False) (\<lambda>_. ret ()) s1 else (Inr (), s1))"
  using assms by (simp add: put_id_def enter_id_def Let_def)

lemma enter_id_ok:
  assumes i: "ids_ok s" and k: "map_of (eng_forward s n) k = None"
    and fresh: "\<forall>(t, j) \<in> set (eng_forward s n). j \<noteq> i"
    and newest: "n = NsMessage \<Longrightarrow> \<forall>(t, j) \<in> set (eng_forward s n). j < i"
    and c: "eng_counters s n \<le> c" "bases n < i" "i \<le> bases n + c"
  shows "ids_ok (enter_id n k i c s)"
proof -
  note d = ids_okD [OF i]
  have new: "k \<notin> fst ` set (eng_forward s n)"
    using k by (simp add: map_of_eq_None_iff)
  note upd = update_new [OF new, of i]
  have "mirrors (AList.update k i (eng_forward s n)) (AList.update (str_int i) k (eng_reverse s n))"
    using d(2) k fresh by (intro mirrors_insert) auto
  moreover have "ids_in_range (bases n) c (AList.update k i (eng_forward s n))"
    using d(3) [of n] c unfolding upd by (auto simp: ids_in_range_def)
  moreover have "sorted_wrt (<) (map snd (AList.update k i (eng_forward s NsMessage)))" if "n = NsMessage"
    using d(6) newest [OF that] upd that by (auto simp: sorted_wrt_append)
  moreover have "map fst (AList.update k i (eng_forward s NsMessage)) = eng_order s @ [k]" if "n = NsMessage"
    using d(5) upd that by simp
  ultimately show ?thesis
    using i c d(4) [of n] by (auto simp: ids_ok_def enter_id_def)
qed

lemma enter_id_timestamps: "timestamps_ok s \<Longrightarrow> timestamps_ok (enter_id n k i c s)"
  by (simp add: timestamps_ok_def)

lemma next_id_fresh:
  assumes "ids_ok s"
  shows "\<forall>(t, j) \<in> set (eng_forward s n). j < bases n + (eng_counters s n + 1)"
  using ids_okD(3) [OF assms, of n] by (fastforce simp: ids_in_range_def)

lemma next_id_ok:
  assumes i: "ids_ok s" and k: "map_of (eng_forward s n) k = None"
  shows "ids_ok (enter_id n k (bases n + (eng_counters s n + 1)) (eng_counters s n + 1) s)"
  using next_id_fresh [OF i, of n] ids_okD(4) [OF i, of n]
  by (intro enter_id_ok [OF i k]) auto

lemma trim_one:
  assumes i: "ids_ok s" and t: "timestamps_ok s" and l: "int (length (eng_order s)) \<le> eng_window s + 1"
    and o: "eng_order s = ks @ [k]"
  shows "\<exists>snap t. trim_message_window False False s = (Inr snap, t) \<and> engine_ok t
    \<and> eng_window t = eng_window s \<and> eng_counters t = eng_counters s
    \<and> (\<forall>n. n \<noteq> NsMessage \<longrightarrow> eng_forward t n = eng_forward s n)
    \<and> eng_forward t NsMessage =
         drop (length (eng_order s) - nat (eng_window s)) (eng_forward s NsMessage)
    \<and> (\<exists>j. map_of (eng_forward s NsMessage) k = Some j \<and> map_of (eng_forward t NsMessage) k = Some j)
    \<and> eng_context_source t = eng_context_source s \<and> eng_journal t = eng_journal s"
proof -
  let ?n = "length (eng_order s) - nat (eng_window s)"
  obtain t where t: "trim_loop 0 s = (Inr (int ?n), t)" "ids_ok t" "timestamps_ok t" "window_ok t"
    "eng_window t = eng_window s" "eng_counters t = eng_counters s"
    "eng_forward t = (eng_forward s)(NsMessage := drop ?n (eng_forward s NsMessage))"
    "eng_context_source t = eng_context_source s" "eng_journal t = eng_journal s"
    using trim_loop_spec [OF i t, of 0] by auto
  note d = ids_okD [OF i]
  from o d(5) obtain f j where f: "eng_forward s NsMessage = f @ [(k, j)]" "ks = map fst f"
    by (cases "eng_forward s NsMessage" rule: rev_cases) auto
  have "?n \<le> length f"
    using l o f(2) d(1) by simp
  then have "drop ?n (eng_forward s NsMessage) = drop ?n f @ [(k, j)]"
    using f(1) by simp
  moreover have "k \<notin> fst ` set f"
    using d(7) [of NsMessage] f by simp
  then have "map_of (drop ?n f @ [(k, j)]) k = Some j" "map_of (f @ [(k, j)]) k = Some j"
    by (auto simp: map_add_Some_iff map_of_eq_None_iff dest: in_set_dropD)
  ultimately show ?thesis
    using t f(1) by (auto simp: trim_message_window_def bnd_def gets_def engine_ok_def)
qed

text \<open>
  Allocation on the engine never fails, keeps the invariant, and what it returns is what
  both lookups answer afterwards. Only the message namespace loses entries.
\<close>

lemma allocate_locked_spec:
  assumes ok: "engine_ok s" and n: "ns_of_name nm = Some n"
  shows "\<exists>i snap created t. allocate_locked nm k s =
      (Inr (\<lparr>im_namespace = nm, im_source_id = k, im_surrogate_id = i\<rparr>, snap, created), t)
    \<and> engine_ok t \<and> map_of (eng_forward t n) k = Some i
    \<and> (created \<longleftrightarrow> map_of (eng_forward s n) k = None)
    \<and> (\<not> created \<longrightarrow> t = s)
    \<and> (created \<longrightarrow> i = bases n + eng_counters s n + 1 \<and>
         eng_counters t = (eng_counters s)(n := eng_counters s n + 1))
    \<and> (\<forall>m j. m \<noteq> NsMessage \<longrightarrow> (m, j) \<noteq> (n, k) \<longrightarrow>
         map_of (eng_forward t m) j = map_of (eng_forward s m) j)
    \<and> (if n = NsMessage then set (eng_forward t NsMessage) \<subseteq> insert (k, i) (set (eng_forward s NsMessage))
         else eng_forward t NsMessage = eng_forward s NsMessage)
    \<and> eng_context_source t = eng_context_source s \<and> eng_journal t = eng_journal s"
proof (cases "map_of (eng_forward s n) k")
  case (Some i)
  with ok n show ?thesis by (simp add: allocate_locked_def) blast
next
  case None
  have s: "ids_ok s" "timestamps_ok s" "window_ok s"
    using ok by (simp_all add: engine_ok_def)
  let ?c = "eng_counters s n + 1"
  let ?i = "bases n + ?c"
  let ?s = "enter_id n k ?i ?c s"
  have new: "k \<notin> fst ` set (eng_forward s n)"
    using None by (simp add: map_of_eq_None_iff)
  have ids: "ids_ok ?s" and ts: "timestamps_ok ?s"
    using next_id_ok [OF s(1) None] enter_id_timestamps [OF s(2)] by simp_all
  show ?thesis
  proof (cases "n = NsMessage")
    case False
    with ids ts s(3) have "engine_ok ?s" by (simp add: engine_ok_def window_ok_def)
    with False n None new show ?thesis
      by (auto simp: allocate_locked_new Let_def)
  next
    case True
    have "eng_order ?s = eng_order s @ [k]" "int (length (eng_order ?s)) \<le> eng_window ?s + 1"
      using True s(3) by (simp_all add: window_ok_def)
    then obtain snap t where t: "trim_message_window False False ?s = (Inr snap, t)" "engine_ok t"
      "eng_counters t = eng_counters ?s"
      "\<And>n. n \<noteq> NsMessage \<Longrightarrow> eng_forward t n = eng_forward ?s n"
      "eng_forward t NsMessage = drop (length (eng_order ?s) - nat (eng_window ?s)) (eng_forward ?s NsMessage)"
      "\<exists>j. map_of (eng_forward ?s NsMessage) k = Some j \<and> map_of (eng_forward t NsMessage) k = Some j"
      "eng_context_source t = eng_context_source ?s" "eng_journal t = eng_journal ?s"
      using trim_one [OF ids ts] by metis
    have a: "allocate_locked nm k s =
        (Inr (\<lparr>im_namespace = nm, im_source_id = k, im_surrogate_id = ?i\<rparr>, snap, True), t)"
      using n None t(1) True by (simp add: allocate_locked_new Let_def bnd_def ret_def)
    have "map_of (eng_forward t n) k = Some ?i"
      using t(6) True by simp
    moreover have "set (eng_forward t NsMessage) \<subseteq> insert (k, ?i) (set (eng_forward s NsMessage))"
      using t(5) True new by (auto simp: update_new dest: in_set_dropD)
    ultimately show ?thesis
      using a t None True by auto
  qed
qed

section \<open>The engine keeps the id-store contract\<close>

definition eng_alloc :: "ns \<Rightarrow> string \<Rightarrow> (engine, int) action" where
  "eng_alloc n k = bnd (allocate_mapping (ns_name n) k) (\<lambda>(m, _). ret (im_surrogate_id m))"

definition eng_sur :: "engine \<Rightarrow> ns \<Rightarrow> string \<Rightarrow> int option" where
  "eng_sur s n k = (case eng_get_surrogate (ns_name n) k s of Inl _ \<Rightarrow> None | Inr r \<Rightarrow> r)"

definition eng_src :: "engine \<Rightarrow> ns \<Rightarrow> int \<Rightarrow> string option" where
  "eng_src s n i = (case eng_get_source (ns_name n) (str_int i) s of Inl _ \<Rightarrow> None | Inr r \<Rightarrow> r)"

lemma eng_sur_eq: "eng_sur s n k = map_of (eng_forward s n) k"
  by (simp add: eng_sur_def eng_get_surrogate_def)

lemma eng_src_eq: "eng_src s n i = map_of (eng_reverse s n) (str_int i)"
  by (simp add: eng_src_def eng_get_source_def)

text \<open>Recording a mutation changes the journal only.\<close>

lemma eng_record_simps [simp]:
  "eng_record r s = (Inr (), s\<lparr>eng_journal := map_option (\<lambda>j. j @ [r]) (eng_journal s)\<rparr>)"
  by (simp add: eng_record_def modify_def)

lemma ok_journal [simp]:
  "ids_ok (s\<lparr>eng_journal := j\<rparr>) = ids_ok s" "window_ok (s\<lparr>eng_journal := j\<rparr>) = window_ok s"
  "timestamps_ok (s\<lparr>eng_journal := j\<rparr>) = timestamps_ok s" "engine_ok (s\<lparr>eng_journal := j\<rparr>) = engine_ok s"
  by (simp_all add: ids_ok_def window_ok_def timestamps_ok_def engine_ok_def)

lemma allocate_mapping_spec:
  assumes ok: "engine_ok s" and n: "ns_of_name nm = Some n"
  shows "\<exists>i snap t. allocate_mapping nm k s =
      (Inr (\<lparr>im_namespace = nm, im_source_id = k, im_surrogate_id = i\<rparr>, snap), t)
    \<and> engine_ok t \<and> map_of (eng_forward t n) k = Some i
    \<and> (map_of (eng_forward s n) k \<noteq> None \<longrightarrow> t = s)
    \<and> (map_of (eng_forward s n) k = None \<longrightarrow> i = bases n + eng_counters s n + 1 \<and>
         eng_counters t = (eng_counters s)(n := eng_counters s n + 1) \<and>
         eng_journal t = map_option (\<lambda>j. j @ [id_put_record nm k i]) (eng_journal s))
    \<and> (\<forall>m j. m \<noteq> NsMessage \<longrightarrow> (m, j) \<noteq> (n, k) \<longrightarrow>
         map_of (eng_forward t m) j = map_of (eng_forward s m) j)
    \<and> (if n = NsMessage then set (eng_forward t NsMessage) \<subseteq> insert (k, i) (set (eng_forward s NsMessage))
         else eng_forward t NsMessage = eng_forward s NsMessage)"
proof -
  obtain i snap created t where a: "allocate_locked nm k s =
      (Inr (\<lparr>im_namespace = nm, im_source_id = k, im_surrogate_id = i\<rparr>, snap, created), t)"
    and t: "engine_ok t" "map_of (eng_forward t n) k = Some i"
      "created \<longleftrightarrow> map_of (eng_forward s n) k = None" "\<not> created \<longrightarrow> t = s"
      "created \<longrightarrow> i = bases n + eng_counters s n + 1 \<and>
         eng_counters t = (eng_counters s)(n := eng_counters s n + 1)"
      "\<forall>m j. m \<noteq> NsMessage \<longrightarrow> (m, j) \<noteq> (n, k) \<longrightarrow>
         map_of (eng_forward t m) j = map_of (eng_forward s m) j"
      "(if n = NsMessage then set (eng_forward t NsMessage) \<subseteq> insert (k, i) (set (eng_forward s NsMessage))
         else eng_forward t NsMessage = eng_forward s NsMessage)"
      "eng_journal t = eng_journal s"
    using allocate_locked_spec [OF assms, of k] by (elim exE conjE) (rule that; assumption)
  show ?thesis
  proof (cases created)
    case True
    let ?t = "t\<lparr>eng_journal := map_option (\<lambda>j. j @ [id_put_record nm k i]) (eng_journal t)\<rparr>"
    have "allocate_mapping nm k s =
        (Inr (\<lparr>im_namespace = nm, im_source_id = k, im_surrogate_id = i\<rparr>, snap), ?t)"
      using a True by (simp add: allocate_mapping_def bnd_def when_do_def ret_def)
    moreover have "map_of (eng_forward s n) k = None" "eng_forward ?t = eng_forward t"
      "eng_counters ?t = eng_counters t" "eng_journal ?t = map_option (\<lambda>j. j @ [id_put_record nm k i]) (eng_journal s)"
      "engine_ok ?t"
      using t True by simp_all
    ultimately show ?thesis
      using t True
      by - (rule exI [of _ i], rule exI [of _ snap], rule exI [of _ ?t], intro conjI, simp_all,
          cases "n = NsMessage", simp_all)
  next
    case False
    then have "allocate_mapping nm k s =
        (Inr (\<lparr>im_namespace = nm, im_source_id = k, im_surrogate_id = i\<rparr>, snap), t)"
      using a by (simp add: allocate_mapping_def bnd_def when_do_def ret_def)
    moreover have "map_of (eng_forward s n) k \<noteq> None" "t = s"
      using t False by simp_all
    ultimately show ?thesis
      using t False
      by - (rule exI [of _ i], rule exI [of _ snap], rule exI [of _ t], intro conjI, simp_all)
  qed
qed

interpretation engine_ids: id_store engine_ok eng_alloc eng_sur eng_src
proof unfold_locales
  fix s n k
  assume "engine_ok s"
  from allocate_mapping_spec [OF this ns_of_name_name, of n k]
  show "\<exists>i s'. eng_alloc n k s = (Inr i, s') \<and> engine_ok s' \<and> eng_sur s' n k = Some i"
    by (auto simp: eng_alloc_def eng_sur_eq bnd_def ret_def)
next
  fix s n k i
  assume "engine_ok s" "eng_sur s n k = Some i"
  then show "eng_alloc n k s = (Inr i, s)"
    by (simp add: eng_alloc_def allocate_mapping_def allocate_locked_def eng_sur_eq bnd_def ret_def when_do_def)
next
  fix s n i k
  assume "engine_ok s"
  then have "mirrors (eng_forward s n) (eng_reverse s n)"
    by (simp add: engine_ok_def ids_okD)
  then show "eng_src s n i = Some k \<longleftrightarrow> eng_sur s n k = Some i"
    by (simp add: eng_sur_eq eng_src_eq mirrors_lookup [of "eng_forward s n"])
next
  fix s n k r s' m j
  assume ok: "engine_ok s" and a: "eng_alloc n k s = (r, s')" and m: "m \<noteq> NsMessage" "(m, j) \<noteq> (n, k)"
  from allocate_mapping_spec [OF ok ns_of_name_name, of n k] a m
  show "eng_sur s' m j = eng_sur s m j"
    by (auto simp: eng_alloc_def eng_sur_eq bnd_def ret_def)
qed

text \<open>
  A message id of the engine is never given to a second message: the counter only grows,
  and every id in use is at most the counter.
\<close>

lemma engine_id_bound:
  "engine_ok s \<Longrightarrow> eng_sur s n k = Some i \<Longrightarrow> bases n < i \<and> i \<le> bases n + eng_counters s n"
  using ids_okD(3) [of s n] by (fastforce simp: engine_ok_def eng_sur_eq ids_in_range_def dest: map_of_SomeD)

lemma engine_alloc_no_reuse:
  assumes ok: "engine_ok s" and a: "eng_alloc n k s = (r, s')"
    and i: "i \<le> bases m + eng_counters s m" and l: "eng_sur s' m j = Some i"
  shows "eng_sur s m j = Some i"
    and "eng_counters s m \<le> eng_counters s' m"
proof -
  obtain i' where t: "map_of (eng_forward s' n) k = Some i'" "engine_ok s'"
      "map_of (eng_forward s n) k \<noteq> None \<longrightarrow> s' = s"
      "map_of (eng_forward s n) k = None \<longrightarrow> i' = bases n + eng_counters s n + 1 \<and>
         eng_counters s' = (eng_counters s)(n := eng_counters s n + 1)"
      "\<forall>m j. m \<noteq> NsMessage \<longrightarrow> (m, j) \<noteq> (n, k) \<longrightarrow>
         map_of (eng_forward s' m) j = map_of (eng_forward s m) j"
      "if n = NsMessage then set (eng_forward s' NsMessage) \<subseteq> insert (k, i') (set (eng_forward s NsMessage))
         else eng_forward s' NsMessage = eng_forward s NsMessage"
    using allocate_mapping_spec [OF ok ns_of_name_name, of n k] a
    by (auto simp: eng_alloc_def bnd_def ret_def)
  show "eng_counters s m \<le> eng_counters s' m"
    using t(3,4) by auto
  have u: "unique_keys (eng_forward s x)" "unique_keys (eng_forward s' x)" for x
    using ok t(2) by (auto simp: engine_ok_def ids_okD)
  show "eng_sur s m j = Some i"
  proof (cases "map_of (eng_forward s n) k")
    case (Some _)
    with t(3) l show ?thesis by simp
  next
    case None
    with t(4) have i': "i' = bases n + eng_counters s n + 1" by simp
    show ?thesis
    proof (cases "(m, j) = (n, k)")
      case True
      with l t(1) i i' show ?thesis by (simp add: eng_sur_eq)
    next
      case False
      show ?thesis
      proof (cases "m = NsMessage")
        case False
        with \<open>(m, j) \<noteq> (n, k)\<close> t(5) l show ?thesis by (simp add: eng_sur_eq)
      next
        case True
        have "(j, i) \<in> set (eng_forward s NsMessage)"
        proof (cases "n = NsMessage")
          case n: True
          have "(j, i) \<in> set (eng_forward s' NsMessage)"
            using l True by (simp add: eng_sur_eq map_of_SomeD)
          then have "(j, i) \<in> insert (k, i') (set (eng_forward s NsMessage))"
            using t(6) n by auto
          with False True n show ?thesis by simp
        next
          case False
          with l True t(6) show ?thesis by (simp add: eng_sur_eq map_of_SomeD)
        qed
        then show ?thesis
          using u(1) [of NsMessage] True by (simp add: eng_sur_eq)
      qed
    qed
  qed
qed

section \<open>The engine keeps the ordering contract of context rooms\<close>

definition eng_contexts_ok :: "engine \<Rightarrow> bool" where
  "eng_contexts_ok s = (\<forall>c e. map_of (eng_context_source s) c = Some e \<longrightarrow> readable_ts e)"

lemma context_entry_lookup:
  assumes "context_entry a = Inr e"
  shows "map_of e ''context_source_id'' = Some (PStr (ca_source a))"
    "\<exists>i. map_of e ''context_surrogate_id'' = Some (PInt i)"
    "dget e ''timestamp'' = (if ca_timestamp a = None then PNone else PInt (entry_ts e))"
proof -
  show "map_of e ''context_source_id'' = Some (PStr (ca_source a))"
    "\<exists>i. map_of e ''context_surrogate_id'' = Some (PInt i)"
    using assms by (auto simp: context_entry_def sbind_Inr Let_def split: option.splits)
  show "dget e ''timestamp'' = (if ca_timestamp a = None then PNone else PInt (entry_ts e))"
  proof (cases "ca_timestamp a")
    case None
    with assms show ?thesis
      by (auto simp: context_entry_def sbind_Inr Let_def dget_def)
  next
    case (Some t)
    with assms obtain i where "dget e ''timestamp'' = PInt i"
      by (auto simp: context_entry_def sbind_Inr Let_def dget_def)
    with Some show ?thesis
      by (simp add: entry_ts_def int_field_PInt)
  qed
qed

lemma stale_context_iff:
  assumes "eng_contexts_ok s" "context_entry a = Inr e"
  shows "stale_context s e (PStr (ca_source a)) = Inr (\<not> supersedes e (eng_context_by_source s (ca_source a)))"
proof (cases "map_of (eng_context_source s) (ca_source a)")
  case None
  then show ?thesis
    by (auto simp: stale_context_def existing_context_def eng_context_by_source_def supersedes_def
        split: pyval.split)
next
  case (Some old)
  with assms(1) obtain t where t: "int_field old ''timestamp'' = Inr t"
    by (auto simp: eng_contexts_ok_def readable_ts_def)
  then have "entry_ts old = t" by (simp add: entry_ts_def)
  with t Some context_entry_lookup(3) [OF assms(2)] context_entry_facts(2) [OF assms(2)] show ?thesis
    by (auto simp: stale_context_def existing_context_def eng_context_by_source_def supersedes_def)
qed

interpretation engine_contexts: context_rooms eng_contexts_ok bind_context_room eng_context_by_source
proof unfold_locales
  fix s a e
  assume ok: "eng_contexts_ok s" and c: "context_entry a = Inr e"
  note l = context_entry_lookup [OF c]
  obtain i where i: "map_of e ''context_surrogate_id'' = Some (PInt i)"
    using l(2) by blast
  have r: "readable_ts e" using context_entry_facts(1) [OF c] .
  show "\<exists>s'. bind_context_room a s = (Inr (), s') \<and> eng_contexts_ok s' \<and>
      eng_context_by_source s' = (if supersedes e (eng_context_by_source s (ca_source a))
        then (eng_context_by_source s)(ca_source a \<mapsto> e) else eng_context_by_source s)"
    using ok l(1) i r stale_context_iff [OF ok c]
    by (auto simp: bind_context_room_def bind_context_without_record_def c action_defs eng_contexts_ok_def
        eng_context_by_source_def fun_eq_iff Let_def)
qed (simp add: bind_context_room_def action_defs)

section \<open>The latest message of a context and sender, specified\<close>

text \<open>
  A stored message sits under its own (stripped) source id and has a readable timestamp.
  For such entries the pair order lists, oldest first, exactly the stored messages of the
  pair, and the latest fragment is that of its last element.
\<close>

definition entry_ok :: "string \<Rightarrow> entry \<Rightarrow> bool" where
  "entry_ok k e \<longleftrightarrow> map_of e ''source_id'' = Some (PStr k) \<and> py_strip k = k \<and> readable_ts e"

definition order_of :: "engine \<Rightarrow> string \<times> string \<Rightarrow> string list" where
  "order_of s p = (case map_of (eng_pair_order s) p of None \<Rightarrow> [] | Some os \<Rightarrow> os)"

definition latest_ok :: "engine \<Rightarrow> bool" where
  "latest_ok s \<longleftrightarrow>
     (\<forall>k e. map_of (eng_by_source s) k = Some e \<longrightarrow> entry_ok k e)
     \<and> (\<forall>p. distinct (order_of s p)
          \<and> set (order_of s p) = {k. \<exists>e. map_of (eng_by_source s) k = Some e \<and> message_pair e = Some p}
          \<and> (case map_of (eng_latest s) p of
               None \<Rightarrow> order_of s p = []
             | Some f \<Rightarrow> order_of s p \<noteq> [] \<and>
                 latest_fragment (the (map_of (eng_by_source s) (last (order_of s p)))) = Inr f))"

lemma latest_ok_timestamps: "latest_ok s \<Longrightarrow> timestamps_ok s"
  by (auto simp: latest_ok_def timestamps_ok_def entry_ok_def)

lemma entry_ok_source: "entry_ok k e \<Longrightarrow> k \<noteq> [] \<Longrightarrow> str_field e ''source_id'' = k"
  by (simp add: entry_ok_def str_field_def dget_def py_or_def)

lemma message_pair_source: "message_pair e = Some p \<Longrightarrow> str_field e ''source_id'' \<noteq> []"
  by (auto simp: message_pair_def Let_def split: if_splits)

lemma entry_ok_pair: "entry_ok k e \<Longrightarrow> message_pair e = Some p \<Longrightarrow> str_field e ''source_id'' = k"
  by (drule message_pair_source) (cases "k = []"; simp add: entry_ok_def str_field_def dget_def py_or_def)

lemma drop_from_order_eq: "drop_from_order k os = remove1 k os"
  by (cases os) (auto simp: drop_from_order_def)

lemma pop_missing_present:
  assumes "\<forall>k \<in> set os. map_of bs k \<noteq> None"
  shows "pop_missing bs os = os"
proof -
  have "dropWhile (\<lambda>k. map_of bs k = None) (rev os) = rev os"
    using assms by (cases os rule: rev_cases) auto
  then show ?thesis by simp
qed

lemma order_of_update [simp]:
  "order_of (s\<lparr>eng_pair_order := AList.update p os po\<rparr>) q =
     (if q = p then os else order_of (s\<lparr>eng_pair_order := po\<rparr>) q)"
  "order_of (s\<lparr>eng_pair_order := AList.delete p po\<rparr>) q =
     (if q = p then [] else order_of (s\<lparr>eng_pair_order := po\<rparr>) q)"
  "order_of (s\<lparr>eng_latest := x\<rparr>) q = order_of s q"
  "order_of (s\<lparr>eng_by_source := y\<rparr>) q = order_of s q"
  "order_of (s\<lparr>eng_by_surrogate := y\<rparr>) q = order_of s q"
  "order_of (s\<lparr>eng_pair_order := eng_pair_order s\<rparr>) q = order_of s q"
  by (simp_all add: order_of_def)

lemma order_of_irrelevant [simp]:
  "order_of (s\<lparr>eng_latest := x\<rparr>) = order_of s"
  "order_of (s\<lparr>eng_by_source := y\<rparr>) = order_of s"
  "order_of (s\<lparr>eng_by_surrogate := y\<rparr>) = order_of s"
  by (simp_all add: fun_eq_iff order_of_def)

definition fragment :: "entry \<Rightarrow> entry" where
  "fragment e = (case latest_fragment e of Inl _ \<Rightarrow> [] | Inr f \<Rightarrow> f)"

lemma latest_fragment_eq: "readable_ts e \<Longrightarrow> latest_fragment e = Inr (fragment e)"
  by (auto simp: fragment_def dest: readable_fragment)

text \<open>\<open>latest_ok\<close> in terms of the three maps it speaks about.\<close>

definition latest_maps ::
    "(string \<Rightarrow> entry option) \<Rightarrow> (string \<times> string \<Rightarrow> string list) \<Rightarrow> (string \<times> string \<Rightarrow> entry option) \<Rightarrow> bool" where
  "latest_maps bs ord lt \<longleftrightarrow>
     (\<forall>k e. bs k = Some e \<longrightarrow> entry_ok k e)
     \<and> (\<forall>p. distinct (ord p) \<and> set (ord p) = {k. \<exists>e. bs k = Some e \<and> message_pair e = Some p}
          \<and> lt p = (if ord p = [] then None else Some (fragment (the (bs (last (ord p)))))))"

lemma latest_mapsD:
  assumes "latest_maps bs ord lt"
  shows "distinct (ord q)" "set (ord q) = {k. \<exists>e. bs k = Some e \<and> message_pair e = Some q}"
    "lt q = (if ord q = [] then None else Some (fragment (the (bs (last (ord q))))))"
    "bs k = Some e \<Longrightarrow> entry_ok k e"
  using assms unfolding latest_maps_def by blast+

lemma latest_ok_maps:
  "latest_ok s \<longleftrightarrow> latest_maps (map_of (eng_by_source s)) (order_of s) (map_of (eng_latest s))"
proof -
  have fr: "latest_fragment (the (map_of (eng_by_source s) (last (order_of s p)))) = Inr f \<longleftrightarrow>
      f = fragment (the (map_of (eng_by_source s) (last (order_of s p))))"
    if "order_of s p \<noteq> []" and "\<forall>k e. map_of (eng_by_source s) k = Some e \<longrightarrow> entry_ok k e"
      and "set (order_of s p) = {k. \<exists>e. map_of (eng_by_source s) k = Some e \<and> message_pair e = Some p}" for p f
  proof -
    have "last (order_of s p) \<in> set (order_of s p)" using that(1) by simp
    with that obtain e where "map_of (eng_by_source s) (last (order_of s p)) = Some e" "readable_ts e"
      by (auto simp: entry_ok_def)
    then show ?thesis by (auto simp: latest_fragment_eq)
  qed
  have "(case map_of (eng_latest s) p of None \<Rightarrow> order_of s p = []
         | Some f \<Rightarrow> order_of s p \<noteq> [] \<and>
             latest_fragment (the (map_of (eng_by_source s) (last (order_of s p)))) = Inr f) \<longleftrightarrow>
      map_of (eng_latest s) p = (if order_of s p = [] then None
         else Some (fragment (the (map_of (eng_by_source s) (last (order_of s p))))))"
    if "\<forall>k e. map_of (eng_by_source s) k = Some e \<longrightarrow> entry_ok k e"
      and "set (order_of s p) = {k. \<exists>e. map_of (eng_by_source s) k = Some e \<and> message_pair e = Some p}" for p
    using fr [OF _ that] by (cases "map_of (eng_latest s) p") auto
  then show ?thesis
    unfolding latest_ok_def latest_maps_def by blast
qed

lemma latest_maps_remove:
  assumes m: "latest_maps bs ord lt" and k: "bs k = Some e" and p: "message_pair e = Some p"
  shows "latest_maps (bs(k := None)) (ord(p := remove1 k (ord p)))
     (lt(p := if remove1 k (ord p) = [] then None else Some (fragment (the (bs (last (remove1 k (ord p))))))))"
proof -
  have d: "distinct (ord q)" "set (ord q) = {k. \<exists>e. bs k = Some e \<and> message_pair e = Some q}"
    and l: "lt q = (if ord q = [] then None else Some (fragment (the (bs (last (ord q))))))"
    and e: "\<And>k e. bs k = Some e \<Longrightarrow> entry_ok k e" for q
    using latest_mapsD [OF m] by blast+
  have nk: "k \<notin> set (ord q)" if "q \<noteq> p" for q
    using d(2) [of q] k p that by auto
  have last_ne: "last os \<noteq> k" if "os \<noteq> []" "k \<notin> set os" for os
    using that by (metis last_in_set)
  have "k \<notin> set (remove1 k (ord p))"
    using d(1) [of p] by simp
  then have lp: "last (remove1 k (ord p)) \<noteq> k" if "remove1 k (ord p) \<noteq> []"
    using that last_ne by blast
  show ?thesis
    unfolding latest_maps_def
  proof (intro conjI allI impI)
    fix j x assume "(bs(k := None)) j = Some x"
    with e show "entry_ok j x" by (simp split: if_splits)
  next
    fix q
    show "distinct ((ord(p := remove1 k (ord p))) q)"
      using d(1) by simp
    show "set ((ord(p := remove1 k (ord p))) q) = {j. \<exists>x. (bs(k := None)) j = Some x \<and> message_pair x = Some q}"
      using d k p nk by auto
    show "(lt(p := if remove1 k (ord p) = [] then None else Some (fragment (the (bs (last (remove1 k (ord p)))))))) q =
      (if (ord(p := remove1 k (ord p))) q = [] then None
       else Some (fragment (the ((bs(k := None)) (last ((ord(p := remove1 k (ord p))) q))))))"
      using l [of q] lp nk [of q] last_ne [of "ord q"] by auto
  qed
qed

lemma latest_maps_remove_plain:
  assumes m: "latest_maps bs ord lt" and k: "bs k = Some e" and p: "message_pair e = None"
  shows "latest_maps (bs(k := None)) ord lt"
proof -
  have nk: "k \<notin> set (ord q)" for q
    using latest_mapsD(2) [OF m, of q] k p by simp
  have "last (ord q) \<noteq> k" if "ord q \<noteq> []" for q
    using nk [of q] that by (metis last_in_set)
  with latest_mapsD [OF m] k p show ?thesis
    unfolding latest_maps_def by (auto split: if_splits)
qed

lemma latest_maps_put:
  assumes m: "latest_maps bs ord lt" and k: "bs k = None" and e: "entry_ok k e" and p: "message_pair e = Some p"
  shows "latest_maps (bs(k \<mapsto> e)) (ord(p := ord p @ [k])) (lt(p \<mapsto> fragment e))"
proof -
  have nk: "k \<notin> set (ord q)" for q
    using latest_mapsD(2) [OF m, of q] k by simp
  then have ln: "last (ord q) \<noteq> k" if "ord q \<noteq> []" for q
    using that by (metis last_in_set)
  show ?thesis
    unfolding latest_maps_def
  proof (intro conjI allI impI)
    fix j x assume "(bs(k \<mapsto> e)) j = Some x"
    with latest_mapsD(4) [OF m] e show "entry_ok j x" by (auto split: if_splits)
  next
    fix q
    show "distinct ((ord(p := ord p @ [k])) q)"
      using latest_mapsD(1) [OF m] nk by simp
    show "set ((ord(p := ord p @ [k])) q) = {j. \<exists>x. (bs(k \<mapsto> e)) j = Some x \<and> message_pair x = Some q}"
      using latest_mapsD(2) [OF m, of q] k p by auto
    show "(lt(p \<mapsto> fragment e)) q = (if (ord(p := ord p @ [k])) q = [] then None
       else Some (fragment (the ((bs(k \<mapsto> e)) (last ((ord(p := ord p @ [k])) q))))))"
      using latest_mapsD(3) [OF m, of q] ln [of q] by auto
  qed
qed

lemma latest_maps_put_plain:
  assumes m: "latest_maps bs ord lt" and k: "bs k = None" and e: "entry_ok k e" and p: "message_pair e = None"
  shows "latest_maps (bs(k \<mapsto> e)) ord lt"
proof -
  have nk: "k \<notin> set (ord q)" for q
    using latest_mapsD(2) [OF m, of q] k by simp
  then have "last (ord q) \<noteq> k" if "ord q \<noteq> []" for q
    using that by (metis last_in_set)
  with latest_mapsD [OF m] k e p show ?thesis
    unfolding latest_maps_def by (auto split: if_splits)
qed

text \<open>The state operations compute these maps.\<close>

lemma refresh_latest_maps:
  assumes o: "map_of (eng_pair_order s) p = Some os"
    and pres: "\<forall>j \<in> set os. \<exists>e. map_of (eng_by_source s) j = Some e \<and> readable_ts e"
  shows "\<exists>t. refresh_latest p s = (Inr (), t) \<and> eng_by_source t = eng_by_source s
    \<and> order_of t = (order_of s)(p := os)
    \<and> map_of (eng_latest t) = (map_of (eng_latest s))(p :=
        if os = [] then None else Some (fragment (the (map_of (eng_by_source s) (last os)))))"
proof -
  have pm: "pop_missing (eng_by_source s) os = os"
    using pres by (intro pop_missing_present) auto
  show ?thesis
  proof (cases "os = []")
    case True
    with o pm show ?thesis
      by (auto simp: refresh_latest_def Let_def order_of_def fun_eq_iff simp del: pop_missing.simps)
  next
    case False
    then have "last os \<in> set os" by simp
    with pres obtain e where e: "map_of (eng_by_source s) (last os) = Some e" "readable_ts e"
      by blast
    with o pm False show ?thesis
      by (auto simp: refresh_latest_def Let_def order_of_def fun_eq_iff latest_fragment_eq
          simp del: pop_missing.simps)
  qed
qed

lemma remove_message_entry_maps:
  assumes ok: "latest_ok s" and k: "map_of (eng_by_source s) k = Some e" and p: "message_pair e = Some p"
  shows "\<exists>t. remove_message_entry k False s = (Inr (), t)
    \<and> map_of (eng_by_source t) = (map_of (eng_by_source s))(k := None)
    \<and> order_of t = (order_of s)(p := remove1 k (order_of s p))
    \<and> map_of (eng_latest t) = (map_of (eng_latest s))(p :=
        if remove1 k (order_of s p) = [] then None
        else Some (fragment (the (map_of (eng_by_source s) (last (remove1 k (order_of s p)))))))"
proof -
  note m = latest_mapsD [OF ok [unfolded latest_ok_maps]]
  have "k \<in> set (order_of s p)"
    using m(2) [of p] k p by blast
  then obtain os where os: "map_of (eng_pair_order s) p = Some os" "order_of s p = os"
    by (cases "map_of (eng_pair_order s) p") (simp_all add: order_of_def)
  let ?g = "if str_field e ''surrogate_id'' \<noteq> []
      then AList.delete (str_field e ''surrogate_id'') (eng_by_surrogate s) else eng_by_surrogate s"
  let ?s = "s\<lparr>eng_by_source := AList.delete k (eng_by_source s), eng_by_surrogate := ?g,
      eng_pair_order := AList.update p (remove1 k os) (eng_pair_order s)\<rparr>"
  have kn: "k \<notin> set (remove1 k os)"
    using m(1) [of p] os(2) by simp
  have pres: "\<forall>j \<in> set (remove1 k os). \<exists>e. map_of (eng_by_source ?s) j = Some e \<and> readable_ts e"
  proof
    fix j assume j: "j \<in> set (remove1 k os)"
    then have "j \<noteq> k" "j \<in> set (order_of s p)"
      using kn os(2) set_remove1_subset [of k os] by auto
    with m(2) [of p] m(4) show "\<exists>e. map_of (eng_by_source ?s) j = Some e \<and> readable_ts e"
      by (auto simp: entry_ok_def)
  qed
  have ln: "last (remove1 k os) \<noteq> k" if "remove1 k os \<noteq> []"
    using that kn by (metis last_in_set)
  obtain t where t: "refresh_latest p ?s = (Inr (), t)" "eng_by_source t = eng_by_source ?s"
    "order_of t = (order_of ?s)(p := remove1 k os)"
    "map_of (eng_latest t) = (map_of (eng_latest ?s))(p :=
        if remove1 k os = [] then None else Some (fragment (the (map_of (eng_by_source ?s) (last (remove1 k os))))))"
    using refresh_latest_maps [of ?s p "remove1 k os", OF _ pres] by auto
  have "remove_message_entry k False s = (Inr (), t)"
    using k p os t(1)
    by (simp add: remove_message_entry_def unlink_from_pair_def Let_def bnd_def when_do_def ret_def
        drop_from_order_eq)
  moreover have "order_of t = (order_of s)(p := remove1 k os)"
    using t(3) by (auto simp: fun_eq_iff order_of_def)
  ultimately show ?thesis
    using t(2,4) ln os(2) by (auto simp: fun_eq_iff)
qed

lemma remove_message_entry_plain:
  assumes k: "map_of (eng_by_source s) k = Some e" and p: "message_pair e = None"
  shows "\<exists>t. remove_message_entry k False s = (Inr (), t)
    \<and> eng_by_source t = AList.delete k (eng_by_source s)
    \<and> order_of t = order_of s \<and> eng_latest t = eng_latest s"
  using assms
  by (simp add: remove_message_entry_def unlink_from_pair_def Let_def bnd_def when_do_def ret_def
      order_of_def fun_eq_iff)

lemma remove_message_entry_absent:
  "map_of (eng_by_source s) k = None \<Longrightarrow> remove_message_entry k False s = (Inr (), s)"
  by (simp add: remove_message_entry_def)

lemma remove_message_entry_latest:
  assumes ok: "latest_ok s"
  shows "\<exists>t. remove_message_entry k False s = (Inr (), t) \<and> latest_ok t
    \<and> map_of (eng_by_source t) = (map_of (eng_by_source s))(k := None)
    \<and> order_of t = (\<lambda>p. remove1 k (order_of s p))"
proof (cases "map_of (eng_by_source s) k")
  case None
  have "k \<notin> set (order_of s p)" for p
    using latest_mapsD(2) [OF ok [unfolded latest_ok_maps], of p] None by auto
  with None ok show ?thesis
    by (simp add: remove_message_entry_absent fun_eq_iff remove1_idem)
next
  case (Some e)
  note m = ok [unfolded latest_ok_maps]
  have other: "k \<notin> set (order_of s q)" if "message_pair e \<noteq> Some q" for q
    using latest_mapsD(2) [OF m, of q] Some that by auto
  show ?thesis
  proof (cases "message_pair e")
    case None
    obtain t where "remove_message_entry k False s = (Inr (), t)"
      "eng_by_source t = AList.delete k (eng_by_source s)" "order_of t = order_of s" "eng_latest t = eng_latest s"
      using remove_message_entry_plain [OF Some None] by blast
    moreover have "latest_ok t"
      unfolding latest_ok_maps using latest_maps_remove_plain [OF m Some None] calculation by simp
    moreover have "order_of s = (\<lambda>p. remove1 k (order_of s p))"
      using other None by (simp add: fun_eq_iff remove1_idem)
    ultimately show ?thesis by simp
  next
    case (Some p)
    obtain t where t: "remove_message_entry k False s = (Inr (), t)"
      "map_of (eng_by_source t) = (map_of (eng_by_source s))(k := None)"
      "order_of t = (order_of s)(p := remove1 k (order_of s p))"
      "map_of (eng_latest t) = (map_of (eng_latest s))(p :=
        if remove1 k (order_of s p) = [] then None
        else Some (fragment (the (map_of (eng_by_source s) (last (remove1 k (order_of s p)))))))"
      using remove_message_entry_maps [OF ok \<open>map_of (eng_by_source s) k = Some e\<close> Some] by blast
    have "latest_ok t"
      unfolding latest_ok_maps t
      by (rule latest_maps_remove [OF m \<open>map_of (eng_by_source s) k = Some e\<close> Some])
    moreover have "order_of t = (\<lambda>p. remove1 k (order_of s p))"
      using t(3) other Some by (auto simp: fun_eq_iff remove1_idem)
    ultimately show ?thesis using t(1,2) by blast
  qed
qed

text \<open>
  Storing a message succeeds, keeps the index invariant, and makes it the latest one of
  its context and sender: it moves to the end of their order.
\<close>

lemma put_normalized_latest:
  assumes ok: "latest_ok s" and e: "entry_ok k e"
  shows "\<exists>t. put_normalized e s = (Inr (), t) \<and> latest_ok t
    \<and> map_of (eng_by_source t) = (map_of (eng_by_source s))(k \<mapsto> e)
    \<and> order_of t = (\<lambda>p. remove1 k (order_of s p) @ (if message_pair e = Some p then [k] else []))
    \<and> rest_of t = rest_of s"
proof -
  obtain s1 where s1: "remove_message_entry k False s = (Inr (), s1)" "latest_ok s1"
    "map_of (eng_by_source s1) = (map_of (eng_by_source s))(k := None)"
    "order_of s1 = (\<lambda>p. remove1 k (order_of s p))"
    using remove_message_entry_latest [OF ok] by blast
  have rest: "rest_of s1 = rest_of s"
    using keepsD [OF remove_message_entry_rest [of "rest_of s" k], of s] s1(1) by simp
  note m = s1(2) [unfolded latest_ok_maps]
  have k: "map_of (eng_by_source s1) k = None" and src: "map_of e ''source_id'' = Some (PStr k)"
    using s1(3) e by (simp_all add: entry_ok_def)
  let ?s2 = "s1\<lparr>eng_by_source := AList.update k e (eng_by_source s1),
      eng_by_surrogate := (if str_field e ''surrogate_id'' \<noteq> []
        then AList.update (str_field e ''surrogate_id'') e (eng_by_surrogate s1) else eng_by_surrogate s1)\<rparr>"
  have put: "put_normalized e s = index_latest e ?s2"
    using src s1(1) by (simp add: put_normalized_def bnd_def modify_def Let_def)
  show ?thesis
  proof (cases "message_pair e")
    case None
    have "latest_ok ?s2"
      using latest_maps_put_plain [OF m k e None] by (simp add: latest_ok_maps order_of_def cong: if_cong)
    with put None s1 rest show ?thesis
      by (auto simp: index_latest_def ret_def fun_eq_iff order_of_def)
  next
    case (Some p)
    have sk: "str_field e ''source_id'' = k"
      using entry_ok_pair [OF e Some] .
    have nk: "k \<notin> set (order_of s1 p)"
      using latest_mapsD(2) [OF m, of p] k by auto
    have fr: "latest_fragment e = Inr (fragment e)"
      using e by (simp add: entry_ok_def latest_fragment_eq)
    let ?t = "?s2\<lparr>eng_pair_order := AList.update p (order_of s1 p @ [k]) (eng_pair_order s1),
        eng_latest := AList.update p (fragment e) (eng_latest s1)\<rparr>"
    have t: "put_normalized e s = (Inr (), ?t)"
      using put Some sk fr nk
      by (simp add: index_latest_def action_defs Let_def remove1_idem order_of_def cong: option.case_cong)
    have ord: "order_of ?t = (order_of s1)(p := order_of s1 p @ [k])"
      by (auto simp: order_of_def fun_eq_iff)
    have "latest_ok ?t"
      using latest_maps_put [OF m k e Some] unfolding latest_ok_maps ord by simp
    moreover have "order_of ?t = (\<lambda>p. remove1 k (order_of s p) @ (if message_pair e = Some p then [k] else []))"
      unfolding ord using s1(4) Some by (auto simp: fun_eq_iff)
    ultimately show ?thesis
      using t s1(3) rest by (intro exI [of _ ?t]) (simp add: fun_eq_iff)
  qed
qed

text \<open>Trimming the window keeps the index invariant.\<close>

lemma latest_ok_irrelevant [simp]:
  "latest_ok (s\<lparr>eng_order := a\<rparr>) = latest_ok s" "latest_ok (s\<lparr>eng_forward := b\<rparr>) = latest_ok s"
  "latest_ok (s\<lparr>eng_reverse := c\<rparr>) = latest_ok s" "latest_ok (s\<lparr>eng_counters := d\<rparr>) = latest_ok s"
  "latest_ok (s\<lparr>eng_journal := j\<rparr>) = latest_ok s" "latest_ok (s\<lparr>eng_legacy := l\<rparr>) = latest_ok s"
  "latest_ok (s\<lparr>eng_private_source := p\<rparr>) = latest_ok s"
  "latest_ok (s\<lparr>eng_private_surrogate := p\<rparr>) = latest_ok s"
  "latest_ok (s\<lparr>eng_context_source := q\<rparr>) = latest_ok s"
  "latest_ok (s\<lparr>eng_context_surrogate := q\<rparr>) = latest_ok s"
  by (simp_all add: latest_ok_maps order_of_def [abs_def])

lemma remove_message_entry_keeps: "keeps latest_ok (remove_message_entry k False)"
proof
  fix s assume "latest_ok s"
  then show "latest_ok (snd (remove_message_entry k False s))"
    using remove_message_entry_latest [of s k] by auto
qed

lemma evict_message_keeps: "keeps latest_ok (evict_message k)"
proof
  fix s assume "latest_ok s"
  then show "latest_ok (snd (evict_message k s))"
    unfolding evict_message_def Let_def
    by (intro keepsD [OF remove_message_entry_keeps]) (simp split: option.split)
qed

lemma trim_loop_keeps: "keeps latest_ok (trim_loop r)"
proof
  fix s assume "latest_ok s"
  then show "latest_ok (snd (trim_loop r s))"
  proof (induction r s rule: trim_loop.induct)
    case (1 r s)
    show ?case
    proof (cases "int (length (eng_order s)) > eng_window s")
      case False
      with "1.prems" show ?thesis by (simp add: trim_loop.simps)
    next
      case long: True
      show ?thesis
      proof (cases "eng_order s")
        case Nil
        with long "1.prems" show ?thesis by (simp add: trim_loop.simps)
      next
        case (Cons k ks)
        obtain r' t where t: "evict_message k (s\<lparr>eng_order := ks\<rparr>) = (r', t)"
          by (cases "evict_message k (s\<lparr>eng_order := ks\<rparr>)")
        have lt: "latest_ok t"
          using keepsD [OF evict_message_keeps, of "s\<lparr>eng_order := ks\<rparr>" k] "1.prems" t by simp
        show ?thesis
        proof (cases r')
          case (Inl x)
          with long Cons t lt show ?thesis by (subst trim_loop.simps) simp
        next
          case (Inr u)
          from "1.IH" [OF long Cons t [symmetric] Inr lt] long Cons t Inr show ?thesis
            by (subst trim_loop.simps) simp
        qed
      qed
    qed
  qed
qed

lemma trim_message_window_keeps: "keeps latest_ok (trim_message_window b c)"
  unfolding trim_message_window_def by (intro keeps_bnd trim_loop_keeps keeps_gets)

lemma enter_id_latest [simp]: "latest_ok (enter_id n k i c s) = latest_ok s"
  by (simp add: enter_id_def)

lemma allocate_locked_keeps: "keeps latest_ok (allocate_locked nm k)"
proof
  fix s assume l: "latest_ok s"
  have "keeps latest_ok (bnd (trim_message_window False False) (\<lambda>snap. ret (m, snap, True)))" for m :: id_mapping
    by (intro keeps_bnd trim_message_window_keeps keeps_ret)
  from keepsD [OF this] l show "latest_ok (snd (allocate_locked nm k s))"
    by (auto simp: allocate_locked_def Let_def split: option.split)
qed

end
