(* ===== verification/Journal.thy ===== *)
theory Journal
  imports Hot_State
begin

text \<open>
  \<open>JournalPersistenceWorker\<close> of \<open>rocketcat_shell/bridge/hot_storage.py\<close> and the recovery in
  \<open>build_runtime_hot_stores\<close>. A journal file is a sequence of records, each framed by its
  length in four little-endian bytes; \<open>iter_records\<close> reads the longest readable prefix.
  The pickle codec is not part of the program: it is the pair of functions \<open>enc\<close> and
  \<open>decode\<close>, and a theorem that needs it states that the records written can be read back.

  The writer thread is a step function on the queue, the files and its counters; it
  merges up to 32 adjacent batches into one physical record.
\<close>

section \<open>Framing\<close>

type_synonym byte = "8 word"

definition le32 :: "nat \<Rightarrow> byte list" where
  "le32 n = [word_of_nat n, word_of_nat (n div 256), word_of_nat (n div 65536), word_of_nat (n div 16777216)]"

definition un_le32 :: "byte list \<Rightarrow> nat" where
  "un_le32 bs = (case bs of
     [a, b, c, d] \<Rightarrow> unat a + 256 * unat b + 65536 * unat c + 16777216 * unat d | _ \<Rightarrow> 0)"

text \<open>
  \<open>struct.pack("<I", n)\<close> raises \<open>struct.error\<close> when the length does not fit in 32 bits. Encoding
  or writing may raise as well: \<open>fault = Some (k, x)\<close> is the exception \<open>x\<close> after the first \<open>k\<close> bytes
  of the frame were accepted by the handle.
\<close>

definition write_record :: "(nat \<times> exn) option \<Rightarrow> (entry \<Rightarrow> byte list) \<Rightarrow> entry \<Rightarrow> (byte list, unit) action" where
  "write_record fault enc r file =
     (let payload = enc r; bytes = le32 (length payload) @ payload in
      if 2 ^ 32 \<le> length payload then (Inl (RuntimeError ''struct.error''), file)
      else (case fault of
              None \<Rightarrow> (Inr (), file @ bytes)
            | Some (k, x) \<Rightarrow> (Inl x, file @ take k bytes)))"

function iter_records :: "(byte list \<Rightarrow> pyval option) \<Rightarrow> byte list \<Rightarrow> entry list" where
  "iter_records decode file =
     (let header = take 4 file; rest = drop 4 file in
      if header = [] then []
      else if length header < 4 then []
      else
        (let n = un_le32 header in
         if n \<le> 0 then []
         else
           (let payload = take n rest in
            if length payload < n then []
            else (case decode payload of
                    Some (PDict r) \<Rightarrow> r # iter_records decode (drop n rest)
                  | _ \<Rightarrow> []))))"
  by pat_completeness auto
termination
  by (relation "measure (\<lambda>(_, file). length file)") (auto simp: Let_def)

declare iter_records.simps [simp del]

lemma le32_length [simp]: "length (le32 n) = 4"
  by (simp add: le32_def)

lemma le32_nonempty [simp]: "le32 n \<noteq> []"
  by (simp add: le32_def)

lemma byte_digits:
  fixes n :: nat
  assumes "n < 4294967296"
  shows "n mod 256 + 256 * (n div 256 mod 256) + 65536 * (n div 65536 mod 256)
     + 16777216 * (n div 16777216 mod 256) = n"
proof -
  have 1: "n div 65536 = n div 256 div 256" "n div 16777216 = n div 256 div 256 div 256"
    by (simp_all add: div_mult2_eq [symmetric])
  have "n div 256 div 256 div 256 < 256"
    using assms by (simp add: div_mult2_eq [symmetric])
  then have "n div 256 div 256 div 256 mod 256 = n div 256 div 256 div 256"
    by simp
  then show ?thesis
    using mult_div_mod_eq [of 256 n] mult_div_mod_eq [of 256 "n div 256"]
      mult_div_mod_eq [of 256 "n div 256 div 256"] unfolding 1 by linarith
qed

lemma un_le32_le32 [simp]: "n < 2 ^ 32 \<Longrightarrow> un_le32 (le32 n) = n"
  using byte_digits [of n] by (simp add: le32_def un_le32_def unat_of_nat)

definition readable :: "(entry \<Rightarrow> byte list) \<Rightarrow> (byte list \<Rightarrow> pyval option) \<Rightarrow> entry \<Rightarrow> bool" where
  "readable enc decode r \<longleftrightarrow> decode (enc r) = Some (PDict r) \<and> enc r \<noteq> [] \<and> length (enc r) < 2 ^ 32"

definition frame :: "(entry \<Rightarrow> byte list) \<Rightarrow> entry \<Rightarrow> byte list" where
  "frame enc r = le32 (length (enc r)) @ enc r"

lemma iter_records_Nil [simp]: "iter_records decode [] = []"
  by (simp add: iter_records.simps)

lemma iter_records_frame:
  assumes "readable enc decode r"
  shows "iter_records decode (frame enc r @ rest) = r # iter_records decode rest"
  using assms
  by (subst iter_records.simps) (simp add: readable_def frame_def Let_def)

text \<open>A frame that was cut short yields no record.\<close>

lemma iter_records_partial:
  assumes r: "readable enc decode r" and n: "n < length (frame enc r)"
  shows "iter_records decode (take n (frame enc r)) = []"
proof (cases "n < 4")
  case True
  then show ?thesis
    by (subst iter_records.simps) (auto simp: frame_def Let_def)
next
  case False
  then have "take n (frame enc r) = le32 (length (enc r)) @ take (n - 4) (enc r)"
    by (simp add: frame_def)
  moreover have "n - 4 < length (enc r)"
    using n False by (simp add: frame_def)
  ultimately show ?thesis
    using r by (subst iter_records.simps) (auto simp: readable_def Let_def)
qed

definition journal_bytes :: "(entry \<Rightarrow> byte list) \<Rightarrow> entry list \<Rightarrow> byte list" where
  "journal_bytes enc rs = concat (map (frame enc) rs)"

lemma journal_bytes_simps [simp]:
  "journal_bytes enc [] = []" "journal_bytes enc (r # rs) = frame enc r @ journal_bytes enc rs"
  by (simp_all add: journal_bytes_def)

lemma iter_records_truncated:
  "\<forall>r \<in> set rs. readable enc decode r \<Longrightarrow>
     \<exists>m. iter_records decode (take n (journal_bytes enc rs)) = take m rs \<and>
        (length (journal_bytes enc rs) \<le> n \<longrightarrow> m = length rs)"
proof (induction rs arbitrary: n)
  case Nil
  then show ?case by simp
next
  case (Cons r rs)
  show ?case
  proof (cases "n < length (frame enc r)")
    case True
    with Cons.prems iter_records_partial [of enc decode r n]
    have "iter_records decode (take n (journal_bytes enc (r # rs))) = take 0 (r # rs)"
      by simp
    moreover have "\<not> length (journal_bytes enc (r # rs)) \<le> n"
      using True by simp
    ultimately show ?thesis by blast
  next
    case False
    obtain m where m: "iter_records decode (take (n - length (frame enc r)) (journal_bytes enc rs)) = take m rs"
      "length (journal_bytes enc rs) \<le> n - length (frame enc r) \<longrightarrow> m = length rs"
      using Cons by (metis list.set_intros(2))
    have "iter_records decode (take n (journal_bytes enc (r # rs))) = take (Suc m) (r # rs)"
      using False m(1) Cons.prems by (simp add: iter_records_frame)
    moreover have "length (journal_bytes enc (r # rs)) \<le> n \<longrightarrow> Suc m = length (r # rs)"
      using m(2) by auto
    ultimately show ?thesis by blast
  qed
qed

section \<open>Replaying what was recorded\<close>

text \<open>
  The operations of the running bridge on the engine, with the arguments they take. Each
  is performed on the engine and then recorded.
\<close>

datatype store_op =
    OpAllocate ns string
  | OpPut entry
  | OpPrivate string int string
  | OpContext context_args

fun run_op :: "store_op \<Rightarrow> (engine, unit) action" where
  "run_op (OpAllocate n k) = bnd (allocate_mapping (ns_name n) k) (\<lambda>_. ret ())"
| "run_op (OpPut e) = put_message e"
| "run_op (OpPrivate u i r) = bind_private_room u i r"
| "run_op (OpContext a) = bind_context_room a"

definition run_ops :: "store_op list \<Rightarrow> (engine, unit) action" where
  "run_ops ops = for_each ops run_op"

text \<open>
  The arguments the translators pass: non-empty ids, messages with their source id and
  with a readable timestamp, context arguments that \<open>int()\<close> accepts.
\<close>

fun op_ok :: "store_op \<Rightarrow> bool" where
  "op_ok (OpAllocate n k) = (k \<noteq> [])"
| "op_ok (OpPut e) = (case map_of e ''source_id'' of Some (PStr k) \<Rightarrow> entry_ok k e | _ \<Rightarrow> False)"
| "op_ok (OpPrivate u i r) = (i \<noteq> 0)"
| "op_ok (OpContext a) = (\<exists>e. context_entry a = Inr e)"

text \<open>Two engines agree up to the journal and the legacy flag.\<close>

definition core :: "engine \<Rightarrow> engine" where
  "core s = s\<lparr>eng_journal := None, eng_legacy := False\<rparr>"

definition all_ok :: "engine \<Rightarrow> bool" where
  "all_ok s \<longleftrightarrow> engine_ok s \<and> latest_ok s \<and> eng_contexts_ok s"

text \<open>The message and id operations neither read nor change the journal or the legacy flag.\<close>

definition jl :: "entry list option \<Rightarrow> bool \<Rightarrow> engine \<Rightarrow> engine" where
  "jl j l s = s\<lparr>eng_journal := j, eng_legacy := l\<rparr>"

lemma jl_fields [simp]:
  "eng_window (jl j l s) = eng_window s" "eng_counters (jl j l s) = eng_counters s"
  "eng_forward (jl j l s) = eng_forward s" "eng_reverse (jl j l s) = eng_reverse s"
  "eng_order (jl j l s) = eng_order s" "eng_by_source (jl j l s) = eng_by_source s"
  "eng_by_surrogate (jl j l s) = eng_by_surrogate s" "eng_latest (jl j l s) = eng_latest s"
  "eng_pair_order (jl j l s) = eng_pair_order s" "eng_private_source (jl j l s) = eng_private_source s"
  "eng_private_surrogate (jl j l s) = eng_private_surrogate s"
  "eng_context_source (jl j l s) = eng_context_source s"
  "eng_context_surrogate (jl j l s) = eng_context_surrogate s"
  "eng_journal (jl j l s) = j" "eng_legacy (jl j l s) = l" "core (jl j l s) = core s"
  by (simp_all add: jl_def core_def)

lemma jl_update:
  "(jl j l s)\<lparr>eng_window := w\<rparr> = jl j l (s\<lparr>eng_window := w\<rparr>)"
  "(jl j l s)\<lparr>eng_counters := cs\<rparr> = jl j l (s\<lparr>eng_counters := cs\<rparr>)"
  "(jl j l s)\<lparr>eng_forward := fw\<rparr> = jl j l (s\<lparr>eng_forward := fw\<rparr>)"
  "(jl j l s)\<lparr>eng_reverse := rv\<rparr> = jl j l (s\<lparr>eng_reverse := rv\<rparr>)"
  "(jl j l s)\<lparr>eng_order := os\<rparr> = jl j l (s\<lparr>eng_order := os\<rparr>)"
  "(jl j l s)\<lparr>eng_by_source := a\<rparr> = jl j l (s\<lparr>eng_by_source := a\<rparr>)"
  "(jl j l s)\<lparr>eng_by_surrogate := a\<rparr> = jl j l (s\<lparr>eng_by_surrogate := a\<rparr>)"
  "(jl j l s)\<lparr>eng_latest := b\<rparr> = jl j l (s\<lparr>eng_latest := b\<rparr>)"
  "(jl j l s)\<lparr>eng_pair_order := c\<rparr> = jl j l (s\<lparr>eng_pair_order := c\<rparr>)"
  "(jl j l s)\<lparr>eng_private_source := d\<rparr> = jl j l (s\<lparr>eng_private_source := d\<rparr>)"
  "(jl j l s)\<lparr>eng_private_surrogate := d\<rparr> = jl j l (s\<lparr>eng_private_surrogate := d\<rparr>)"
  "(jl j l s)\<lparr>eng_context_source := a\<rparr> = jl j l (s\<lparr>eng_context_source := a\<rparr>)"
  "(jl j l s)\<lparr>eng_context_surrogate := a\<rparr> = jl j l (s\<lparr>eng_context_surrogate := a\<rparr>)"
  "(jl j l s)\<lparr>eng_journal := j'\<rparr> = jl j' l s"
  "(jl j l s)\<lparr>eng_legacy := l'\<rparr> = jl j l' s"
  by (simp_all add: jl_def)

lemma jl_surj: "core t = core s \<Longrightarrow> \<exists>j l. t = jl j l s"
  by (cases s; cases t) (simp add: core_def jl_def)

definition indep :: "(engine, 'a) action \<Rightarrow> bool" where
  "indep m \<longleftrightarrow> (\<forall>s j l. m (jl j l s) = (fst (m s), jl j l (snd (m s))))"

lemma indepD: "indep m \<Longrightarrow> m s = (r, t) \<Longrightarrow> m (jl j l s) = (r, jl j l t)"
  by (simp add: indep_def)

named_theorems indep_intros

lemma indep_ret [indep_intros]: "indep (ret x)"
  by (simp add: indep_def ret_def)

lemma indep_raise [indep_intros]: "indep (raise_exn x)"
  by (simp add: indep_def raise_exn_def)

lemma indep_lift [indep_intros]: "indep (lift_exn r)"
  by (simp add: indep_def lift_exn_def)

lemma indep_bnd [indep_intros]: "indep m \<Longrightarrow> (\<And>x. indep (k x)) \<Longrightarrow> indep (bnd m k)"
  by (auto simp: indep_def bnd_def split: prod.split sum.split)

lemma indep_when [indep_intros]: "indep m \<Longrightarrow> indep (when_do b m)"
  by (simp add: when_do_def indep_ret)

lemma indep_modify [indep_intros]: "(\<And>s j l. f (jl j l s) = jl j l (f s)) \<Longrightarrow> indep (modify f)"
  by (simp add: indep_def modify_def)

lemma indep_gets [indep_intros]: "(\<And>s j l. f (jl j l s) = f s) \<Longrightarrow> indep (gets f)"
  by (simp add: indep_def gets_def)

lemma indep_refresh_latest [indep_intros]: "indep (refresh_latest p)"
  by (auto simp: indep_def refresh_latest_def Let_def jl_update split: option.split sum.split)

lemma indep_index_latest [indep_intros]: "indep (index_latest e)"
  unfolding index_latest_def
  by (cases "message_pair e") (auto simp: Let_def jl_update intro!: indep_intros)

lemma indep_unlink [indep_intros]: "indep (unlink_from_pair k e)"
  using indep_refresh_latest
  by (auto simp: indep_def unlink_from_pair_def jl_update split: option.split)

lemma indep_remove_message_entry [indep_intros]: "indep (remove_message_entry k b)"
proof -
  have "indep (bnd (unlink_from_pair k e) (\<lambda>_. when_do b (modify (\<lambda>t. t\<lparr>eng_order := remove1 k (eng_order t)\<rparr>))))" for e
    by (intro indep_intros) (simp add: jl_update)
  then show ?thesis
    by (auto simp: indep_def remove_message_entry_def Let_def jl_update split: option.split)
qed

lemma indep_evict_message: "indep (evict_message k)"
  using indep_remove_message_entry
  by (auto simp: indep_def evict_message_def Let_def jl_update split: option.split)

lemma indep_trim_loop [indep_intros]: "indep (trim_loop r)"
proof -
  have "trim_loop r (jl j l s) = (fst (trim_loop r s), jl j l (snd (trim_loop r s)))" for s j l
  proof (induction r s rule: trim_loop.induct)
    case (1 r s)
    show ?case
    proof (cases "int (length (eng_order s)) > eng_window s")
      case False
      then show ?thesis by (simp add: trim_loop.simps)
    next
      case long: True
      show ?thesis
      proof (cases "eng_order s")
        case Nil
        with long show ?thesis by (simp add: trim_loop.simps)
      next
        case (Cons k ks)
        obtain r' t where t: "evict_message k (s\<lparr>eng_order := ks\<rparr>) = (r', t)"
          by (cases "evict_message k (s\<lparr>eng_order := ks\<rparr>)")
        note t' = indepD [OF indep_evict_message t]
        from "1.IH" [OF long Cons t [symmetric]] long Cons t t' show ?thesis
          by (subst (1 2 3) trim_loop.simps) (auto simp: jl_update split: sum.split)
      qed
    qed
  qed
  then show ?thesis by (simp add: indep_def)
qed

lemma indep_trim_message_window [indep_intros]: "indep (trim_message_window b c)"
  unfolding trim_message_window_def by (intro indep_intros) simp

lemma indep_put_normalized [indep_intros]: "indep (put_normalized e)"
  unfolding put_normalized_def
  by (cases "map_of e ''source_id''") (auto simp: Let_def jl_update intro!: indep_intros)

lemma indep_bind_context [indep_intros]: "indep (bind_context_without_record e)"
proof -
  have "existing_context (jl j l s) v = existing_context s v" for j l s v
    by (cases v) (simp_all add: existing_context_def)
  then have "stale_context (jl j l s) e v = stale_context s e v" for j l s v
    by (simp only: stale_context_def)
  then show ?thesis
    by (auto simp: indep_def bind_context_without_record_def Let_def jl_update
        split: option.split sum.split bool.split)
qed

lemma indep_put_id [indep_intros]: "indep (put_id n k i)"
proof -
  have "indep (bnd (trim_message_window False False) (\<lambda>_. ret ()))"
    by (intro indep_intros)
  then show ?thesis
    by (auto simp: indep_def put_id_def Let_def jl_update split: option.split)
qed

text \<open>Each operation and the record it leaves have the same effect.\<close>

lemma for_each_single [simp]: "for_each [x] f s = f x s"
  by (simp add: bnd_def ret_def split: prod.split sum.split)

lemma apply_leaf_record:
  "raw_str_field r ''op'' \<noteq> ''batch'' \<Longrightarrow> apply_record r = apply_leaf (raw_str_field r ''op'') r"
  by (simp add: Let_def)

declare apply_record.simps [simp del]

lemma apply_id_put_record:
  assumes "k \<noteq> []" "0 < i"
  shows "apply_record (id_put_record (ns_name n) k i) = put_id n k i"
proof -
  let ?r = "id_put_record (ns_name n) k i"
  have f: "raw_str_field ?r ''op'' = ''id_put''" "raw_str_field ?r ''namespace'' = ns_name n"
    "raw_str_field ?r ''source_id'' = k" "int_field ?r ''surrogate_id'' = Inr i"
    by (simp_all add: id_put_record_def dget_def raw_str_field_PStr int_field_PInt)
  have "ns_name n \<noteq> ''user''" by (cases n) simp_all
  with f assms show ?thesis
    by (simp add: apply_leaf_record apply_leaf_def apply_id_put_def)
qed

lemma apply_message_put_record:
  "\<exists>b. apply_record (message_put_record e) = bnd (mark_legacy b) (\<lambda>_. put_normalized e)"
proof -
  let ?r = "message_put_record e"
  have f: "raw_str_field ?r ''op'' = ''message_put''" "dget ?r ''entry'' = PDict e"
    by (simp_all add: message_put_record_def dget_def raw_str_field_PStr)
  then show ?thesis
    by (auto simp: apply_leaf_record apply_leaf_def apply_message_put_def)
qed

lemma apply_private_bind_record:
  "\<exists>b. apply_record (private_bind_record u i r) = bnd (mark_legacy b) (\<lambda>_. bind_private_without_record u i r)"
proof -
  let ?r = "private_bind_record u i r"
  have f: "raw_str_field ?r ''op'' = ''private_bind''" "raw_str_field ?r ''user_source_id'' = u"
    "raw_str_field ?r ''room_source_id'' = r" "int_field ?r ''user_surrogate_id'' = Inr i"
    by (simp_all add: private_bind_record_def dget_def raw_str_field_PStr int_field_PInt)
  then show ?thesis
    by (auto simp: apply_leaf_record apply_leaf_def apply_private_bind_def)
qed

lemma apply_context_bind_record:
  "apply_record (context_bind_record e) = bnd (bind_context_without_record e) (\<lambda>_. ret ())"
proof -
  let ?r = "context_bind_record e"
  have f: "raw_str_field ?r ''op'' = ''context_bind''" "dget ?r ''entry'' = PDict e"
    by (simp_all add: context_bind_record_def dget_def raw_str_field_PStr)
  then show ?thesis
    by (simp add: apply_leaf_record apply_leaf_def apply_context_bind_def)
qed

text \<open>
  \<open>tracks s recs t\<close>: from any engine that agrees with \<open>s\<close> up to journal and legacy flag,
  applying \<open>recs\<close> succeeds and reaches an engine that agrees with \<open>t\<close> in the same way.
\<close>

definition tracks :: "engine \<Rightarrow> entry list \<Rightarrow> engine \<Rightarrow> bool" where
  "tracks s recs t \<longleftrightarrow> (\<forall>s'. core s' = core s \<longrightarrow>
     (\<exists>t'. replay_records recs s' = (Inr (), t') \<and> core t' = core t))"

lemma tracks_Nil: "core t = core s \<Longrightarrow> tracks s [] t"
  by (simp add: tracks_def replay_records_def ret_def)

lemma tracks_single:
  assumes m: "apply_record r = bnd (mark_legacy b) (\<lambda>_. m) \<or> apply_record r = m"
    and i: "indep m" and s: "m s = (Inr (), t)"
  shows "tracks s [r] t"
  unfolding tracks_def replay_records_def
proof (intro allI impI)
  fix s' assume "core s' = core s"
  then obtain j l where s': "s' = jl j l s" using jl_surj by blast
  have "m (jl j l' s) = (Inr (), jl j l' t)" for l'
    using indepD [OF i s] .
  with m s' show "\<exists>t'. for_each [r] apply_record s' = (Inr (), t') \<and> core t' = core t"
    by (auto simp: bnd_def mark_legacy_def modify_def jl_update ret_def)
qed

lemma for_each_append: "for_each (xs @ ys) f s =
    (case for_each xs f s of (Inl e, t) \<Rightarrow> (Inl e, t) | (Inr _, t) \<Rightarrow> for_each ys f t)"
  by (induction xs arbitrary: s) (auto simp: bnd_def ret_def split: prod.split sum.split)

lemma tracks_append: "tracks s rs t \<Longrightarrow> tracks t rs' u \<Longrightarrow> tracks s (rs @ rs') u"
  unfolding tracks_def replay_records_def for_each_append by fastforce

lemma core_journal [simp]: "core (s\<lparr>eng_journal := j\<rparr>) = core s"
  by (simp add: core_def)

lemma tracks_core: "tracks s recs t \<Longrightarrow> core t' = core t \<Longrightarrow> tracks s recs t'"
  by (simp add: tracks_def)

lemma contexts_ok_journal [simp]: "eng_contexts_ok (s\<lparr>eng_journal := j\<rparr>) = eng_contexts_ok s"
  by (simp add: eng_contexts_ok_def)

lemma all_ok_journal [simp]: "all_ok (s\<lparr>eng_journal := j\<rparr>) = all_ok s"
  by (simp add: all_ok_def)

text \<open>The outcome of an operation: it succeeds, keeps the invariants, and its records track it.\<close>

definition logged :: "(engine, unit) action \<Rightarrow> engine \<Rightarrow> bool" where
  "logged m s \<longleftrightarrow> (\<exists>t recs. m s = (Inr (), t) \<and> all_ok t \<and> length recs \<le> 1
     \<and> eng_journal t = map_option (\<lambda>j. j @ recs) (eng_journal s) \<and> tracks s recs t)"

lemma logged_alloc:
  assumes ok: "all_ok s" and k: "k \<noteq> []"
  shows "logged (run_op (OpAllocate n k)) s"
proof -
  from ok have e: "engine_ok s" by (simp add: all_ok_def)
  obtain i snap created t where a: "allocate_locked (ns_name n) k s =
      (Inr (\<lparr>im_namespace = ns_name n, im_source_id = k, im_surrogate_id = i\<rparr>, snap, created), t)"
    and t: "engine_ok t" "created \<longleftrightarrow> map_of (eng_forward s n) k = None" "\<not> created \<longrightarrow> t = s"
      "created \<longrightarrow> i = bases n + eng_counters s n + 1 \<and>
         eng_counters t = (eng_counters s)(n := eng_counters s n + 1)"
      "eng_context_source t = eng_context_source s" "eng_journal t = eng_journal s"
    using allocate_locked_spec [OF e ns_of_name_name, of n k] by (elim exE conjE) (rule that; assumption)
  have lt: "latest_ok t"
    using keepsD [OF allocate_locked_keeps, of s "ns_name n" k] ok a by (simp add: all_ok_def)
  have okt: "all_ok t"
    using lt t(1,5) ok by (simp add: all_ok_def eng_contexts_ok_def)
  show ?thesis
  proof (cases created)
    case False
    then have "run_op (OpAllocate n k) s = (Inr (), s)" "t = s"
      using a t(3) by (simp_all add: allocate_mapping_def bnd_def when_do_def ret_def)
    with ok show ?thesis
      by (auto simp: logged_def option.map_ident intro!: exI [of _ "[]"] tracks_Nil)
  next
    case True
    let ?r = "id_put_record (ns_name n) k i"
    have none: "map_of (eng_forward s n) k = None" and i: "i = bases n + (eng_counters s n + 1)"
      using True t(2,4) by simp_all
    have pos: "0 < i"
    proof -
      have "0 \<le> eng_counters s n" using e ids_okD(4) by (simp add: engine_ok_def)
      moreover have "0 < bases n" by (cases n) simp_all
      ultimately show ?thesis using i by simp
    qed
    have put: "put_id n k i s = (Inr (), t)"
      using a none unfolding allocate_locked_new [OF ns_of_name_name none] put_id_new [OF none] i
      by (auto simp: Let_def bnd_def ret_def split: if_splits prod.splits sum.splits)
    have "run_op (OpAllocate n k) s =
        (Inr (), t\<lparr>eng_journal := map_option (\<lambda>j. j @ [?r]) (eng_journal s)\<rparr>)"
      using a True t(6) by (simp add: allocate_mapping_def bnd_def when_do_def ret_def)
    moreover have "tracks s [?r] t"
      using apply_id_put_record [OF k pos] put indep_put_id
      by (intro tracks_single [of _ False "put_id n k i"]) simp_all
    ultimately show ?thesis
      using okt by (auto simp: logged_def intro!: exI [of _ "[?r]"] elim: tracks_core)
  qed
qed

lemma rest_of_ok:
  assumes "rest_of t = rest_of s" "engine_ok s" "latest_ok t"
  shows "engine_ok t"
  using assms(2) latest_ok_timestamps [OF assms(3)]
  unfolding engine_ok_def ids_ok_def window_ok_def rest_ofD [OF assms(1)] by blast

lemma engine_ok_rooms [simp]:
  "engine_ok (s\<lparr>eng_private_source := p\<rparr>) = engine_ok s"
  "engine_ok (s\<lparr>eng_private_surrogate := p\<rparr>) = engine_ok s"
  "engine_ok (s\<lparr>eng_context_source := q\<rparr>) = engine_ok s"
  "engine_ok (s\<lparr>eng_context_surrogate := q\<rparr>) = engine_ok s"
  by (simp_all add: engine_ok_def ids_ok_def window_ok_def timestamps_ok_def)

lemma logged_put:
  assumes ok: "all_ok s" and e: "op_ok (OpPut e)"
  shows "logged (run_op (OpPut e)) s"
proof -
  from e obtain k where k: "entry_ok k e"
    by (auto split: option.splits pyval.splits)
  obtain t where t: "put_normalized e s = (Inr (), t)" "latest_ok t" "rest_of t = rest_of s"
    using put_normalized_latest [OF _ k, of s] ok by (auto simp: all_ok_def)
  have okt: "all_ok t"
    using ok t rest_of_ok [OF t(3)] rest_ofD(8) [OF t(3)] by (simp add: all_ok_def eng_contexts_ok_def)
  have j: "eng_journal t = eng_journal s"
    using rest_ofD(11) [OF t(3)] .
  have "run_op (OpPut e) s =
      (Inr (), t\<lparr>eng_journal := map_option (\<lambda>j. j @ [message_put_record e]) (eng_journal s)\<rparr>)"
    using t(1) j by (simp add: put_message_def bnd_def Let_def)
  moreover obtain b where "apply_record (message_put_record e) = bnd (mark_legacy b) (\<lambda>_. put_normalized e)"
    using apply_message_put_record by blast
  then have "tracks s [message_put_record e] t"
    using t(1) indep_put_normalized
    by (intro tracks_single [of _ b "put_normalized e"]) simp_all
  ultimately show ?thesis
    using okt by (auto simp: logged_def intro!: exI [of _ "[message_put_record e]"] elim: tracks_core)
qed

lemma logged_private:
  assumes ok: "all_ok s"
  shows "logged (run_op (OpPrivate u i r)) s"
proof -
  let ?t = "s\<lparr>eng_private_source := AList.update u r (eng_private_source s),
      eng_private_surrogate := AList.update (str_int i) r (eng_private_surrogate s)\<rparr>"
  have put: "bind_private_without_record u i r s = (Inr (), ?t)"
    by (simp add: bind_private_without_record_def modify_def)
  have okt: "all_ok ?t"
    using ok by (simp add: all_ok_def eng_contexts_ok_def)
  have "run_op (OpPrivate u i r) s =
      (Inr (), ?t\<lparr>eng_journal := map_option (\<lambda>j. j @ [private_bind_record u i r]) (eng_journal s)\<rparr>)"
    using put by (simp add: bind_private_room_def bnd_def)
  moreover obtain b where "apply_record (private_bind_record u i r)
      = bnd (mark_legacy b) (\<lambda>_. bind_private_without_record u i r)"
    using apply_private_bind_record by blast
  moreover have "indep (bind_private_without_record u i r)"
    unfolding bind_private_without_record_def by (intro indep_intros) (simp add: jl_def)
  ultimately show ?thesis
    using okt put tracks_single [of "private_bind_record u i r" b "bind_private_without_record u i r" s ?t]
    by (auto simp: logged_def intro!: exI [of _ "[private_bind_record u i r]"] elim: tracks_core)
qed

lemma logged_context:
  assumes ok: "all_ok s" and a: "op_ok (OpContext a)"
  shows "logged (run_op (OpContext a)) s"
proof -
  from a obtain e where e: "context_entry a = Inr e" by auto
  have c: "eng_contexts_ok s" using ok by (simp add: all_ok_def)
  note l = context_entry_lookup [OF e]
  obtain g where g: "map_of e ''context_surrogate_id'' = Some (PInt g)" using l(2) by blast
  let ?m = "bnd (bind_context_without_record e) (\<lambda>_. ret ())"
  have ind: "indep ?m" by (intro indep_intros)
  show ?thesis
  proof (cases "supersedes e (eng_context_by_source s (ca_source a))")
    case False
    then have b: "bind_context_without_record e s = (Inr False, s)"
      using l(1) stale_context_iff [OF c e] by (simp add: bind_context_without_record_def)
    then have "run_op (OpContext a) s = (Inr (), s)"
      by (simp add: bind_context_room_def e action_defs)
    with ok show ?thesis
      by (auto simp: logged_def option.map_ident intro!: exI [of _ "[]"] tracks_Nil)
  next
    case True
    let ?t = "s\<lparr>eng_context_source := AList.update (ca_source a) e (eng_context_source s),
       eng_context_surrogate := AList.update (str_int g) e (eng_context_surrogate s)\<rparr>"
    have b: "bind_context_without_record e s = (Inr True, ?t)"
      using True l(1) g stale_context_iff [OF c e] by (simp add: bind_context_without_record_def Let_def)
    then have run: "run_op (OpContext a) s =
        (Inr (), ?t\<lparr>eng_journal := map_option (\<lambda>j. j @ [context_bind_record e]) (eng_journal s)\<rparr>)"
      by (simp add: bind_context_room_def e bnd_def lift_exn_def when_do_def)
    have "eng_contexts_ok ?t"
      using c context_entry_facts(1) [OF e] by (auto simp: eng_contexts_ok_def)
    then have okt: "all_ok ?t"
      using ok by (simp add: all_ok_def)
    have "tracks s [context_bind_record e] ?t"
      using apply_context_bind_record [of e] ind b by (intro tracks_single [of _ undefined ?m]) (auto simp: bnd_def ret_def)
    with run okt show ?thesis
      by (auto simp: logged_def intro!: exI [of _ "[context_bind_record e]"] elim: tracks_core)
  qed
qed

lemma run_op_logged: "all_ok s \<Longrightarrow> op_ok op \<Longrightarrow> logged (run_op op) s"
proof (cases op)
  case (OpAllocate n k)
  assume "all_ok s" "op_ok op"
  with OpAllocate logged_alloc [of s k n] show ?thesis by (simp del: run_op.simps)
qed (simp_all only: logged_put logged_private logged_context)

text \<open>
  Recovery: run any operations with a writer bound, cut the recorded sequence anywhere,
  and replay it on an engine that agrees with the initial one. The result agrees with the
  engine as it was after some prefix of the operations; the whole sequence gives all of them.
\<close>

lemma run_ops_snoc: "run_ops (op # ops) s =
   (case run_op op s of (Inl e, t) \<Rightarrow> (Inl e, t) | (Inr _, t) \<Rightarrow> run_ops ops t)"
  by (auto simp: run_ops_def bnd_def split: prod.split sum.split)

lemma run_ops_tracks:
  assumes "all_ok s" "\<forall>op \<in> set ops. op_ok op"
  shows "\<exists>t recs. run_ops ops s = (Inr (), t) \<and> all_ok t
    \<and> eng_journal t = map_option (\<lambda>j. j @ recs) (eng_journal s)
    \<and> tracks s recs t
    \<and> (\<forall>m. \<exists>n u. run_ops (take n ops) s = (Inr (), u) \<and> tracks s (take m recs) u)"
  using assms
proof (induction ops arbitrary: s)
  case Nil
  then show ?case
    by (auto simp: run_ops_def ret_def option.map_ident intro!: exI [of _ "[]"] tracks_Nil)
next
  case (Cons op ops)
  obtain t1 r1 where t1: "run_op op s = (Inr (), t1)" "all_ok t1" "length r1 \<le> 1"
    "eng_journal t1 = map_option (\<lambda>j. j @ r1) (eng_journal s)" "tracks s r1 t1"
    using run_op_logged [of s op] Cons.prems by (auto simp: logged_def)
  obtain t recs where t: "run_ops ops t1 = (Inr (), t)" "all_ok t"
    "eng_journal t = map_option (\<lambda>j. j @ recs) (eng_journal t1)" "tracks t1 recs t"
    "\<And>m. \<exists>n u. run_ops (take n ops) t1 = (Inr (), u) \<and> tracks t1 (take m recs) u"
    using Cons.IH [OF t1(2)] Cons.prems(2) by auto
  have cut: "\<exists>n u. run_ops (take n (op # ops)) s = (Inr (), u) \<and> tracks s (take m (r1 @ recs)) u" for m
  proof (cases "m < length r1")
    case True
    then have "m = 0" using t1(3) by simp
    then show ?thesis
      by (intro exI [of _ 0] exI [of _ s]) (simp add: run_ops_def ret_def tracks_Nil)
  next
    case False
    obtain n u where u: "run_ops (take n ops) t1 = (Inr (), u)" "tracks t1 (take (m - length r1) recs) u"
      using t(5) by blast
    with t1(1,5) False show ?thesis
      by (intro exI [of _ "Suc n"] exI [of _ u]) (simp add: run_ops_snoc tracks_append)
  qed
  show ?case
    using t1 t(1-4) cut
    by (intro exI [of _ t] exI [of _ "r1 @ recs"])
      (simp add: run_ops_snoc tracks_append option.map_comp comp_def)
qed

section \<open>The writer thread\<close>

text \<open>
  What waits in the queue: a record or a command with the event it signals (a number).
  One iteration of \<open>_run\<close> is one step; producers append to the queue between the steps.
  \<open>wr_file\<close> is what was written through the handle since the journal was opened, \<open>wr_disk\<close> the
  part of it that \<open>handle.flush()\<close> or \<open>handle.close()\<close> is known to have handed to the operating
  system (the program never calls \<open>fsync\<close>). \<open>wr_done\<close> lists the events that were set.

  Every call on a file may raise. Which of them do in a step is given by \<open>io_faults\<close>: the
  flush, the record's write, the stages of taking a snapshot and rotating the journal, and
  the close in the \<open>finally\<close> block.
\<close>

datatype item = Rec entry | FlushCmd nat | StopCmd nat

text \<open>
  Where \<open>_write_snapshot_and_rotate\<close> raises: before the new snapshot file replaced the old
  one, in closing the journal, in emptying it, or in opening it again.
\<close>

datatype snapshot_fault =
    Snapshot_unwritten exn
  | Journal_unclosed exn
  | Journal_not_emptied exn
  | Journal_not_reopened exn

record io_faults =
  io_flush :: "exn option"
  io_write :: "(nat \<times> exn) option"
  io_snapshot :: "snapshot_fault option"
  io_close :: "exn option"

definition no_faults :: io_faults where
  "no_faults = \<lparr>io_flush = None, io_write = None, io_snapshot = None, io_close = None\<rparr>"

record writer_config =
  wc_flush_every :: nat
  wc_snapshot_every :: nat
  wc_capacity :: nat
  wc_force_bytes :: nat

definition writer_config_of :: "int \<Rightarrow> int \<Rightarrow> writer_config" where
  "writer_config_of flush_every snapshot_every =
     \<lparr>wc_flush_every = nat (max 1 flush_every),
      wc_snapshot_every = nat (max (max 1 flush_every) snapshot_every),
      wc_capacity = 1024, wc_force_bytes = 67108864\<rparr>"

record writer =
  wr_queue :: "item list"
  wr_deferred :: "item option"
  wr_file :: "byte list"
  wr_disk :: "byte list"
  wr_pending :: nat
  wr_since :: nat
  wr_snapshot :: "engine_snapshot option"
  wr_snapshots :: nat
  wr_physical :: nat
  wr_coalesced :: nat
  wr_done :: "nat list"
  wr_running :: bool
  wr_open :: bool
  wr_error :: "exn option"

definition flush_handle :: "io_faults \<Rightarrow> (writer, unit) action" where
  "flush_handle io w =
     (if wr_pending w = 0 then (Inr (), w)
      else (case io_flush io of
              Some x \<Rightarrow> (Inl x, w)
            | None \<Rightarrow> (Inr (), w\<lparr>wr_disk := wr_file w, wr_pending := 0\<rparr>)))"

definition snapshot_due :: "writer_config \<Rightarrow> writer \<Rightarrow> bool" where
  "snapshot_due c w \<longleftrightarrow>
     length (wr_file w) \<ge> wc_force_bytes c
     \<or> (wr_since w \<ge> wc_snapshot_every c \<and> length (wr_queue w) < max 1 (wc_capacity c div 4))"

definition snapshot_and_rotate :: "io_faults \<Rightarrow> engine_snapshot \<Rightarrow> (writer, unit) action" where
  "snapshot_and_rotate io sn w =
     (let w1 = w\<lparr>wr_snapshot := Some sn, wr_snapshots := wr_snapshots w + 1\<rparr> in
      case io_snapshot io of
        Some (Snapshot_unwritten x) \<Rightarrow> (Inl x, w)
      | Some (Journal_unclosed x) \<Rightarrow> (Inl x, w1\<lparr>wr_open := False\<rparr>)
      | Some (Journal_not_emptied x) \<Rightarrow> (Inl x, w1\<lparr>wr_open := False, wr_disk := wr_file w\<rparr>)
      | Some (Journal_not_reopened x) \<Rightarrow> (Inl x, w1\<lparr>wr_open := False, wr_file := [], wr_disk := []\<rparr>)
      | None \<Rightarrow> (Inr (), w1\<lparr>wr_file := [], wr_disk := [], wr_since := 0\<rparr>))"

definition snapshot_if :: "bool \<Rightarrow> io_faults \<Rightarrow> engine_snapshot \<Rightarrow> (writer, unit) action" where
  "snapshot_if b io sn = when_do b (snapshot_and_rotate io sn)"

definition is_batch :: "item \<Rightarrow> bool" where
  "is_batch it = (case it of Rec r \<Rightarrow> dget r ''op'' = PStr ''batch'' | _ \<Rightarrow> False)"

definition mutations_of :: "item \<Rightarrow> exn + pyval list" where
  "mutations_of it = (case it of
      Rec r \<Rightarrow> py_iter (py_or (dget r ''mutations'') (PList [])) | _ \<Rightarrow> Inr [])"

text \<open>
  The inner loop that merges the batches at the head of the queue: the number of logical
  records merged, their mutations, the item that stopped it and the rest of the queue.
\<close>

fun coalesce :: "nat \<Rightarrow> pyval list \<Rightarrow> item list \<Rightarrow> exn + (nat \<times> pyval list \<times> item option \<times> item list)" where
  "coalesce n ms [] = Inr (n, ms, None, [])"
| "coalesce n ms (it # q) =
     (if n < 32 then
        (if is_batch it then sbind (mutations_of it) (\<lambda>more. coalesce (n + 1) (ms @ more) q)
         else Inr (n, ms, Some it, q))
      else Inr (n, ms, None, it # q))"

definition next_record :: "entry \<Rightarrow> item list \<Rightarrow> exn + (nat \<times> entry \<times> item option \<times> item list)" where
  "next_record r q =
     (if is_batch (Rec r) then
        sbind (mutations_of (Rec r)) (\<lambda>ms. sbind (coalesce 1 ms q) (\<lambda>(n, all, d, q').
          Inr (n, [(''op'', PStr ''batch''), (''mutations'', PList all)], d, q')))
      else Inr (1, r, None, q))"

definition signalled :: "item list \<Rightarrow> nat list" where
  "signalled its = List.map_filter (\<lambda>it. case it of Rec _ \<Rightarrow> None | FlushCmd i \<Rightarrow> Some i | StopCmd i \<Rightarrow> Some i) its"

text \<open>
  The \<open>except BaseException\<close> and \<open>finally\<close> blocks: the error is kept, the command at hand, the
  deferred one and the queued ones are signalled, the records among them are dropped, and
  the handle is closed, which hands over what it still buffers unless that raises too.
\<close>

definition opt_list :: "item option \<Rightarrow> item list" where
  "opt_list d = (case d of None \<Rightarrow> [] | Some x \<Rightarrow> [x])"

definition close_handle :: "io_faults \<Rightarrow> writer \<Rightarrow> writer" where
  "close_handle io w =
     (if wr_open w \<and> io_close io = None then w\<lparr>wr_disk := wr_file w, wr_open := False\<rparr>
      else w\<lparr>wr_open := False\<rparr>)"

definition fail_writer :: "io_faults \<Rightarrow> item option \<Rightarrow> exn \<Rightarrow> writer \<Rightarrow> writer" where
  "fail_writer io cur x w =
     close_handle io (w\<lparr>wr_error := Some x, wr_running := False, wr_queue := [], wr_deferred := None,
       wr_done := wr_done w @ signalled (opt_list cur @ opt_list (wr_deferred w) @ wr_queue w)\<rparr>)"

definition write_step :: "io_faults \<Rightarrow> (entry \<Rightarrow> byte list) \<Rightarrow> writer_config \<Rightarrow> engine_snapshot \<Rightarrow> entry
    \<Rightarrow> (writer, unit) action" where
  "write_step io enc c sn r w =
     (case next_record r (wr_queue w) of
        Inl x \<Rightarrow> (Inl x, w)
      | Inr (n, phys, d, q) \<Rightarrow>
          (let w1 = w\<lparr>wr_queue := q, wr_deferred := d\<rparr> in
           case write_record (io_write io) enc phys (wr_file w) of
             (Inl x, file) \<Rightarrow> (Inl x, w1\<lparr>wr_file := file\<rparr>)
           | (Inr _, file) \<Rightarrow>
               (let w2 = w1\<lparr>wr_file := file, wr_physical := wr_physical w1 + 1,
                           wr_coalesced := wr_coalesced w1 + (n - 1),
                           wr_pending := wr_pending w1 + n, wr_since := wr_since w1 + n\<rparr>
                in bnd (when_do (wr_pending w2 \<ge> wc_flush_every c) (flush_handle io)) (\<lambda>_.
                   bnd (gets (snapshot_due c)) (\<lambda>due. snapshot_if due io sn)) w2)))"

definition take_item :: "writer \<Rightarrow> item option \<times> writer" where
  "take_item w =
     (case wr_deferred w of
        Some d \<Rightarrow> (Some d, w\<lparr>wr_deferred := None\<rparr>)
      | None \<Rightarrow> (case wr_queue w of [] \<Rightarrow> (None, w) | it # q \<Rightarrow> (Some it, w\<lparr>wr_queue := q\<rparr>)))"

definition signal :: "nat \<Rightarrow> (writer, unit) action" where
  "signal i = modify (\<lambda>w. w\<lparr>wr_done := wr_done w @ [i]\<rparr>)"

fun handle_item :: "io_faults \<Rightarrow> (entry \<Rightarrow> byte list) \<Rightarrow> writer_config \<Rightarrow> engine_snapshot \<Rightarrow> item option
    \<Rightarrow> (writer, unit) action" where
  "handle_item io enc c sn None =
     bnd (flush_handle io) (\<lambda>_.
     bnd (gets (\<lambda>w. wr_since w \<ge> wc_snapshot_every c)) (\<lambda>due. snapshot_if due io sn))"
| "handle_item io enc c sn (Some (FlushCmd i)) =
     bnd (flush_handle io) (\<lambda>_.
     bnd (gets (snapshot_due c)) (\<lambda>due.
     bnd (snapshot_if due io sn) (\<lambda>_. signal i)))"
| "handle_item io enc c sn (Some (StopCmd i)) =
     bnd (flush_handle io) (\<lambda>_.
     bnd (snapshot_and_rotate io sn) (\<lambda>_.
     bnd (signal i) (\<lambda>_. modify (\<lambda>w. close_handle io (w\<lparr>wr_running := False\<rparr>)))))"
| "handle_item io enc c sn (Some (Rec r)) = write_step io enc c sn r"

definition writer_step :: "io_faults \<Rightarrow> (entry \<Rightarrow> byte list) \<Rightarrow> writer_config \<Rightarrow> engine_snapshot \<Rightarrow> writer \<Rightarrow> writer" where
  "writer_step io enc c sn w =
     (if \<not> wr_running w then w
      else
        (let (cur, w0) = take_item w
         in case handle_item io enc c sn cur w0 of
              (Inr _, w') \<Rightarrow> w'
            | (Inl x, w') \<Rightarrow> fail_writer io cur x w'))"

text \<open>
  Running for some iterations: before each, producers append what they have, and each has
  its own faults and its own state for a snapshot.
\<close>

definition writer_run :: "(entry \<Rightarrow> byte list) \<Rightarrow> writer_config
    \<Rightarrow> (item list \<times> io_faults \<times> engine_snapshot) list \<Rightarrow> writer \<Rightarrow> writer" where
  "writer_run enc c env w =
     fold (\<lambda>(new, io, sn) v. writer_step io enc c sn (v\<lparr>wr_queue := wr_queue v @ new\<rparr>)) env w"

text \<open>
  What the callers see: \<open>_raise_if_failed\<close>, and one turn of the waiting loop of
  \<open>_wait_command\<close> before its deadline, which is \<open>Inr True\<close> when it returns, and \<open>Inr False\<close> when
  it goes on. \<open>flush\<close> returns when its wait does; \<open>close\<close> checks for a failure once more.
\<close>

definition raise_if_failed :: "bool \<Rightarrow> writer \<Rightarrow> exn + unit" where
  "raise_if_failed shut w =
     (if wr_error w \<noteq> None then Inl (RuntimeError ''runtime journal writer failed'')
      else if \<not> wr_running w \<and> \<not> shut then Inl (RuntimeError ''runtime journal writer stopped unexpectedly'')
      else Inr ())"

definition wait_turn :: "nat \<Rightarrow> bool \<Rightarrow> writer \<Rightarrow> exn + bool" where
  "wait_turn i shut w =
     (if i \<in> set (wr_done w) then Inr True
      else sbind (raise_if_failed shut w) (\<lambda>_. Inr False))"

definition close_ended :: "nat \<Rightarrow> writer \<Rightarrow> exn + bool" where
  "close_ended i w = sbind (wait_turn i False w) (\<lambda>over.
     if over then sbind (raise_if_failed True w) (\<lambda>_. Inr True) else Inr False)"

text \<open>\<open>enqueue_batch_maybe_async\<close>: \<open>None\<close> when the queue is full and the caller has to wait.\<close>

definition enqueue_batch :: "writer_config \<Rightarrow> pyval list \<Rightarrow> writer \<Rightarrow> exn + writer option" where
  "enqueue_batch c ms w =
     sbind (raise_if_failed False w) (\<lambda>_.
       Inr (if length (wr_queue w) < wc_capacity c
            then Some (w\<lparr>wr_queue := wr_queue w @ [Rec [(''op'', PStr ''batch''), (''mutations'', PList ms)]]\<rparr>)
            else None))"

subsection \<open>Merging batches does not change what the journal says\<close>

lemma apply_items_append:
  "apply_items (xs @ ys) s =
     (case apply_items xs s of (Inl e, t) \<Rightarrow> (Inl e, t) | (Inr _, t) \<Rightarrow> apply_items ys t)"
  by (induction xs arbitrary: s) (auto simp: bnd_def ret_def split: prod.split sum.split)

lemma apply_batch:
  "dget r ''op'' = PStr ''batch'' \<Longrightarrow> py_iter (py_or (dget r ''mutations'') (PList [])) = Inr ms \<Longrightarrow>
     apply_record r = apply_items (List.map_filter as_dict ms)"
  by (simp add: apply_record.simps raw_str_field_PStr batch_items_def)

definition recs_of :: "item list \<Rightarrow> entry list" where
  "recs_of its = List.map_filter (\<lambda>it. case it of Rec r \<Rightarrow> Some r | _ \<Rightarrow> None) its"

lemma recs_of_simps [simp]:
  "recs_of [] = []" "recs_of (Rec r # its) = r # recs_of its"
  "recs_of (FlushCmd i # its) = recs_of its" "recs_of (StopCmd i # its) = recs_of its"
  by (simp_all add: recs_of_def List.map_filter_def)

lemma map_filter_append [simp]: "List.map_filter f (xs @ ys) = List.map_filter f xs @ List.map_filter f ys"
  by (simp add: List.map_filter_def)

lemma replay_Cons: "replay_records (r # rs) s =
    (case apply_record r s of (Inl e, t) \<Rightarrow> (Inl e, t) | (Inr _, t) \<Rightarrow> replay_records rs t)"
  by (auto simp: replay_records_def bnd_def split: prod.split sum.split)

lemma replay_append: "replay_records (xs @ ys) s =
    (case replay_records xs s of (Inl e, t) \<Rightarrow> (Inl e, t) | (Inr _, t) \<Rightarrow> replay_records ys t)"
  by (simp add: replay_records_def for_each_append split: sum.split prod.split)

lemma recs_of_append [simp]: "recs_of (xs @ ys) = recs_of xs @ recs_of ys"
  by (simp add: recs_of_def)

lemma coalesce_replay:
  "coalesce n ms q = Inr (n', all, d, q') \<Longrightarrow>
     \<exists>more. all = ms @ more \<and>
       replay_records (recs_of q) s =
         (case apply_items (List.map_filter as_dict more) s of
            (Inl e, t) \<Rightarrow> (Inl e, t)
          | (Inr _, t) \<Rightarrow> replay_records (recs_of (case d of None \<Rightarrow> [] | Some x \<Rightarrow> [x]) @ recs_of q') t)"
proof (induction n ms q arbitrary: s rule: coalesce.induct)
  case (1 n ms)
  then show ?case
    by (auto simp: List.map_filter_def ret_def replay_records_def)
next
  case (2 n ms it q)
  show ?case
  proof (cases "n < 32 \<and> is_batch it")
    case False
    with "2.prems" show ?thesis
      by (cases it) (auto simp: List.map_filter_def ret_def split: if_splits intro!: exI [of _ "[]"])
  next
    case True
    then obtain r where it: "it = Rec r" "dget r ''op'' = PStr ''batch''"
      by (auto simp: is_batch_def split: item.splits)
    from True "2.prems" obtain m1 where m1: "mutations_of it = Inr m1"
      "coalesce (n + 1) (ms @ m1) q = Inr (n', all, d, q')"
      by (auto simp: sbind_Inr)
    then have a: "apply_record r = apply_items (List.map_filter as_dict m1)"
      using it by (intro apply_batch) (simp_all add: mutations_of_def)
    obtain more where more: "all = (ms @ m1) @ more" and
      rp: "\<And>s. replay_records (recs_of q) s =
         (case apply_items (List.map_filter as_dict more) s of
            (Inl e, t) \<Rightarrow> (Inl e, t)
          | (Inr _, t) \<Rightarrow> replay_records (recs_of (case d of None \<Rightarrow> [] | Some x \<Rightarrow> [x]) @ recs_of q') t)"
    proof -
      obtain more where "all = (ms @ m1) @ more"
        using "2.IH" [of m1 s] True m1(2) by auto
      moreover have "replay_records (recs_of q) s =
         (case apply_items (List.map_filter as_dict more) s of
            (Inl e, t) \<Rightarrow> (Inl e, t)
          | (Inr _, t) \<Rightarrow> replay_records (recs_of (case d of None \<Rightarrow> [] | Some x \<Rightarrow> [x]) @ recs_of q') t)" for s
        using "2.IH" [of m1 s] True m1(2) calculation by auto
      ultimately show ?thesis using that by blast
    qed
    show ?thesis
      using more it a rp
      by (intro exI [of _ "m1 @ more"]) (auto simp: replay_Cons apply_items_append split: prod.split sum.split)
  qed
qed

lemma next_record_replay:
  assumes "next_record r q = Inr (n, phys, d, q')"
  shows "replay_records (r # recs_of q) s =
     replay_records (phys # recs_of (case d of None \<Rightarrow> [] | Some x \<Rightarrow> [x]) @ recs_of q') s"
proof (cases "is_batch (Rec r)")
  case False
  with assms show ?thesis by (simp add: next_record_def)
next
  case True
  with assms obtain ms all where ms: "mutations_of (Rec r) = Inr ms" "coalesce 1 ms q = Inr (n, all, d, q')"
    and phys: "phys = [(''op'', PStr ''batch''), (''mutations'', PList all)]"
    by (auto simp: next_record_def sbind_Inr)
  have a: "apply_record r = apply_items (List.map_filter as_dict ms)"
    using True ms(1) by (intro apply_batch) (simp_all add: mutations_of_def is_batch_def)
  have "py_iter (py_or (PList all) (PList [])) = Inr all"
    by (simp add: py_or_def)
  then have p: "apply_record phys = apply_items (List.map_filter as_dict all)"
    unfolding phys by (intro apply_batch) (simp_all add: dget_def)
  obtain more where all: "all = ms @ more"
    using coalesce_replay [OF ms(2)] by blast
  have rp: "replay_records (recs_of q) t =
     (case apply_items (List.map_filter as_dict more) t of
        (Inl e, u) \<Rightarrow> (Inl e, u)
      | (Inr _, u) \<Rightarrow> replay_records (recs_of (case d of None \<Rightarrow> [] | Some x \<Rightarrow> [x]) @ recs_of q') u)" for t
    using coalesce_replay [OF ms(2), of t] all by auto
  show ?thesis
    by (auto simp: replay_Cons a p all rp apply_items_append split: prod.split sum.split)
qed

subsection \<open>What the writer preserves\<close>

definition waiting :: "writer \<Rightarrow> item list" where
  "waiting w = (case wr_deferred w of None \<Rightarrow> [] | Some d \<Rightarrow> [d]) @ wr_queue w"

definition writer_ok :: "writer \<Rightarrow> bool" where
  "writer_ok w \<longleftrightarrow> (\<exists>tail. wr_file w = wr_disk w @ tail)
     \<and> (wr_running w \<longrightarrow> wr_open w \<and> wr_error w = None \<and> (wr_pending w = 0 \<longrightarrow> wr_disk w = wr_file w))"

lemma opt_list_simps [simp]: "opt_list None = []" "opt_list (Some x) = [x]"
  by (simp_all add: opt_list_def)

lemma waiting_opt: "waiting w = opt_list (wr_deferred w) @ wr_queue w"
  by (simp add: waiting_def opt_list_def)

lemma waiting_simps [simp]:
  "waiting (w\<lparr>wr_done := d\<rparr>) = waiting w" "waiting (w\<lparr>wr_queue := q, wr_deferred := x\<rparr>) = opt_list x @ q"
  "waiting (w\<lparr>wr_queue := wr_queue w @ new\<rparr>) = waiting w @ new"
  "waiting (w\<lparr>wr_deferred := x, wr_queue := q\<rparr>) = opt_list x @ q"
  by (simp_all add: waiting_opt)

lemma signalled_simps [simp]:
  "signalled [] = []" "signalled (Rec r # its) = signalled its"
  "signalled (FlushCmd i # its) = i # signalled its" "signalled (StopCmd i # its) = i # signalled its"
  "signalled (xs @ ys) = signalled xs @ signalled ys"
  by (simp_all add: signalled_def List.map_filter_def)

lemma take_item_Cons:
  "waiting w = it # its \<Longrightarrow> take_item w = (Some it, w\<lparr>wr_deferred := None, wr_queue := its\<rparr>)"
  by (cases w) (auto simp: take_item_def waiting_def split: option.splits list.splits)

lemma take_item_Nil: "waiting w = [] \<Longrightarrow> take_item w = (None, w)"
  by (auto simp: take_item_def waiting_def split: option.splits)

lemma close_handle_fields [simp]:
  "wr_file (close_handle io w) = wr_file w" "wr_queue (close_handle io w) = wr_queue w"
  "wr_deferred (close_handle io w) = wr_deferred w" "wr_snapshots (close_handle io w) = wr_snapshots w"
  "wr_running (close_handle io w) = wr_running w" "wr_done (close_handle io w) = wr_done w"
  "wr_error (close_handle io w) = wr_error w" "waiting (close_handle io w) = waiting w"
  by (simp_all add: close_handle_def waiting_opt)

lemma fail_writer_fields [simp]:
  "wr_running (fail_writer io cur x w) = False" "waiting (fail_writer io cur x w) = []"
  "wr_error (fail_writer io cur x w) = Some x" "wr_file (fail_writer io cur x w) = wr_file w"
  "wr_done (fail_writer io cur x w) = wr_done w @ signalled (opt_list cur @ waiting w)"
  "wr_snapshots (fail_writer io cur x w) = wr_snapshots w"
  by (simp_all add: fail_writer_def waiting_opt)

lemma fail_writer_ok: "\<exists>tail. wr_file w = wr_disk w @ tail \<Longrightarrow> writer_ok (fail_writer io cur x w)"
  by (auto simp: writer_ok_def fail_writer_def close_handle_def)

text \<open>What the parts of an iteration do when nothing raises.\<close>

lemma flush_handle_Inr:
  "flush_handle io w = (Inr (), w') \<Longrightarrow>
     w' = (if wr_pending w = 0 then w else w\<lparr>wr_disk := wr_file w, wr_pending := 0\<rparr>)"
  by (auto simp: flush_handle_def split: if_splits option.splits)

lemma flush_handle_Inl: "flush_handle io w = (Inl x, w') \<Longrightarrow> w' = w \<and> io_flush io = Some x"
  by (auto simp: flush_handle_def split: if_splits option.splits)

lemma snapshot_and_rotate_Inr:
  "snapshot_and_rotate io sn w = (Inr (), w') \<Longrightarrow>
     w' = w\<lparr>wr_snapshot := Some sn, wr_snapshots := wr_snapshots w + 1, wr_file := [], wr_disk := [], wr_since := 0\<rparr>"
  by (auto simp: snapshot_and_rotate_def Let_def split: option.splits snapshot_fault.splits)

lemma snapshot_and_rotate_Inl:
  "snapshot_and_rotate io sn w = (Inl x, w') \<Longrightarrow>
     io_snapshot io \<noteq> None \<and> wr_snapshots w \<le> wr_snapshots w' \<and> waiting w' = waiting w \<and> wr_done w' = wr_done w
     \<and> ((\<exists>tail. wr_file w = wr_disk w @ tail) \<longrightarrow> (\<exists>tail. wr_file w' = wr_disk w' @ tail))"
  by (auto simp: snapshot_and_rotate_def Let_def waiting_opt split: option.splits snapshot_fault.splits)

lemma snapshot_if_Inr:
  "snapshot_if b io sn w = (Inr (), w') \<Longrightarrow>
     w' = (if b then w\<lparr>wr_snapshot := Some sn, wr_snapshots := wr_snapshots w + 1, wr_file := [], wr_disk := [],
                       wr_since := 0\<rparr> else w)"
  by (auto simp: snapshot_if_def when_do_def ret_def dest: snapshot_and_rotate_Inr split: if_splits)

lemma snapshot_if_Inl:
  "snapshot_if b io sn w = (Inl x, w') \<Longrightarrow>
     io_snapshot io \<noteq> None \<and> wr_snapshots w \<le> wr_snapshots w' \<and> waiting w' = waiting w \<and> wr_done w' = wr_done w
     \<and> ((\<exists>tail. wr_file w = wr_disk w @ tail) \<longrightarrow> (\<exists>tail. wr_file w' = wr_disk w' @ tail))"
  by (cases b) (auto simp: snapshot_if_def when_do_def ret_def dest!: snapshot_and_rotate_Inl)

lemma coalesce_count: "coalesce n ms q = Inr (m, all, d, q') \<Longrightarrow> n \<le> m"
  by (induction n ms q rule: coalesce.induct) (fastforce simp: sbind_Inr split: if_splits)+

lemma next_record_count: "next_record r q = Inr (n, phys, d, q') \<Longrightarrow> 0 < n"
  by (auto simp: next_record_def sbind_Inr split: if_splits dest!: coalesce_count)

text \<open>
  An iteration that writes a record and does not raise: the merged record was appended and
  the items behind it are still waiting, unless a snapshot emptied the journal.
\<close>

lemma write_step_Inr:
  assumes "write_step io enc c sn r w = (Inr (), w')"
  shows "\<exists>n phys d q. next_record r (wr_queue w) = Inr (n, phys, d, q) \<and> length (enc phys) < 2 ^ 32
     \<and> 0 < n \<and> waiting w' = opt_list d @ q \<and> wr_done w' = wr_done w \<and> wr_running w' = wr_running w
     \<and> wr_open w' = wr_open w \<and> wr_error w' = wr_error w
     \<and> (if wr_snapshots w' = wr_snapshots w
        then wr_file w' = wr_file w @ frame enc phys
             \<and> (if wr_pending w' = 0 then wr_disk w' = wr_file w' else wr_disk w' = wr_disk w)
        else wr_snapshots w' = wr_snapshots w + 1 \<and> wr_file w' = [] \<and> wr_disk w' = [])"
proof -
  obtain n phys d q where n: "next_record r (wr_queue w) = Inr (n, phys, d, q)"
    using assms by (auto simp: write_step_def split: sum.splits)
  define w2 where "w2 = w\<lparr>wr_queue := q, wr_deferred := d, wr_file := wr_file w @ frame enc phys,
      wr_physical := wr_physical w + 1, wr_coalesced := wr_coalesced w + (n - 1),
      wr_pending := wr_pending w + n, wr_since := wr_since w + n\<rparr>"
  have len: "length (enc phys) < 2 ^ 32"
    using assms n by (auto simp: write_step_def write_record_def Let_def split: if_splits)
  have go: "bnd (when_do (wr_pending w2 \<ge> wc_flush_every c) (flush_handle io)) (\<lambda>_.
      bnd (gets (snapshot_due c)) (\<lambda>due. snapshot_if due io sn)) w2 = (Inr (), w')"
    using assms n len
    by (auto simp: write_step_def write_record_def frame_def w2_def Let_def split: option.splits)
  then obtain w3 where w3: "when_do (wr_pending w2 \<ge> wc_flush_every c) (flush_handle io) w2 = (Inr (), w3)"
    "snapshot_if (snapshot_due c w3) io sn w3 = (Inr (), w')"
    by (auto simp: bnd_def gets_def split: prod.splits sum.splits)
  have pos: "0 < n" by (rule next_record_count [OF n])
  have "w3 = w2 \<or> w3 = w2\<lparr>wr_disk := wr_file w2, wr_pending := 0\<rparr>"
    using w3(1) by (auto simp: when_do_def ret_def dest!: flush_handle_Inr split: if_splits)
  with snapshot_if_Inr [OF w3(2)] n len pos show ?thesis
    by (auto simp: w2_def waiting_opt split: if_splits)
qed


text \<open>Merging consumes records only; a command stops it and stays in front of what is behind it.\<close>

lemma coalesce_signalled:
  "coalesce n ms q = Inr (m, all, d, q') \<Longrightarrow> signalled (opt_list d @ q') = signalled q"
proof (induction n ms q rule: coalesce.induct)
  case (2 n ms it q)
  then show ?case
    by (cases it) (auto simp: sbind_Inr is_batch_def split: if_splits)
qed simp

lemma next_record_signalled:
  "next_record r q = Inr (n, phys, d, q') \<Longrightarrow> signalled (opt_list d @ q') = signalled q"
  using coalesce_signalled by (fastforce simp: next_record_def sbind_Inr split: if_splits)

lemma coalesce_stops:
  "case coalesce n ms ys of
     Inl x \<Rightarrow> coalesce n ms (ys @ FlushCmd i # its) = Inl x
   | Inr (m, all, d, q) \<Rightarrow> (\<exists>d' q' xs. coalesce n ms (ys @ FlushCmd i # its) = Inr (m, all, d', q')
       \<and> opt_list d' @ q' = (opt_list d @ q) @ FlushCmd i # its \<and> ys = xs @ opt_list d @ q)"
proof (induction n ms ys rule: coalesce.induct)
  case (1 n ms)
  then show ?case by (simp add: is_batch_def)
next
  case (2 n ms it q)
  show ?case
  proof (cases "n < 32 \<and> is_batch it")
    case False
    then show ?thesis by auto
  next
    case True
    show ?thesis
    proof (cases "mutations_of it")
      case (Inl x)
      with True show ?thesis by simp
    next
      case (Inr more)
      note IH = "2.IH" [of more]
      show ?thesis
        using IH True Inr
        by (auto split: sum.splits)
    qed
  qed
qed

lemma next_record_stops:
  "case next_record r ys of
     Inl x \<Rightarrow> next_record r (ys @ FlushCmd i # its) = Inl x
   | Inr (n, phys, d, q) \<Rightarrow> (\<exists>d' q' xs. next_record r (ys @ FlushCmd i # its) = Inr (n, phys, d', q')
       \<and> opt_list d' @ q' = (opt_list d @ q) @ FlushCmd i # its \<and> ys = xs @ opt_list d @ q)"
proof (cases "is_batch (Rec r)")
  case False
  then show ?thesis by (simp add: next_record_def)
next
  case True
  show ?thesis
  proof (cases "mutations_of (Rec r)")
    case (Inl x)
    with True show ?thesis by (simp add: next_record_def)
  next
    case (Inr ms)
    with True coalesce_stops [of 1 ms ys i its] show ?thesis
      by (auto simp: next_record_def split: sum.splits)
  qed
qed

text \<open>A record that cannot be written: its mutations are no list, or the merged record is too long.\<close>

definition unwritable :: "(entry \<Rightarrow> byte list) \<Rightarrow> entry \<Rightarrow> item list \<Rightarrow> bool" where
  "unwritable enc r q = (case next_record r q of Inl _ \<Rightarrow> True | Inr (_, phys, _, _) \<Rightarrow> 2 ^ 32 \<le> length (enc phys))"

lemma unwritable_stops: "unwritable enc r (ys @ FlushCmd i # its) = unwritable enc r ys"
  using next_record_stops [of r ys i its] by (auto simp: unwritable_def split: sum.splits)

lemma write_step_Inl:
  assumes "write_step io enc c sn r w = (Inl x, w')" and d: "wr_deferred w = None"
  shows "wr_done w' = wr_done w \<and> signalled (waiting w') = signalled (wr_queue w)
     \<and> wr_snapshots w \<le> wr_snapshots w'
     \<and> (io \<noteq> no_faults \<or> unwritable enc r (wr_queue w))
     \<and> ((\<exists>tail. wr_file w = wr_disk w @ tail) \<longrightarrow> (\<exists>tail. wr_file w' = wr_disk w' @ tail))"
proof (cases "next_record r (wr_queue w)")
  case (Inl y)
  with assms show ?thesis by (simp add: write_step_def unwritable_def waiting_opt)
next
  case (Inr p)
  obtain n phys d q where p: "p = (n, phys, d, q)" by (cases p)
  note s = next_record_signalled [OF Inr [unfolded p]]
  define w1 where "w1 = w\<lparr>wr_queue := q, wr_deferred := d\<rparr>"
  obtain res fb where out: "write_record (io_write io) enc phys (wr_file w) = (res, fb)"
    by (cases "write_record (io_write io) enc phys (wr_file w)")
  then have grown: "\<exists>t. fb = wr_file w @ t"
    by (auto simp: write_record_def Let_def split: if_splits option.splits)
  show ?thesis
  proof (cases res)
    case (Inl y)
    with out have "io_write io \<noteq> None \<or> 2 ^ 32 \<le> length (enc phys)"
      by (auto simp: write_record_def Let_def split: if_splits option.splits)
    then have "io \<noteq> no_faults \<or> unwritable enc r (wr_queue w)"
      using Inr p by (auto simp: unwritable_def no_faults_def)
    moreover have "w' = w1\<lparr>wr_file := fb\<rparr>"
      using assms(1) Inr p out Inl by (simp add: write_step_def w1_def)
    ultimately show ?thesis
      using s grown by (auto simp: w1_def waiting_opt)
  next
    case ok: (Inr u)
    define w2 where "w2 = w1\<lparr>wr_file := fb, wr_physical := wr_physical w1 + 1,
        wr_coalesced := wr_coalesced w1 + (n - 1), wr_pending := wr_pending w1 + n, wr_since := wr_since w1 + n\<rparr>"
    have go: "bnd (when_do (wr_pending w2 \<ge> wc_flush_every c) (flush_handle io)) (\<lambda>_.
        bnd (gets (snapshot_due c)) (\<lambda>due. snapshot_if due io sn)) w2 = (Inl x, w')"
      using assms(1) Inr p out ok by (auto simp: write_step_def w2_def w1_def Let_def)
    have w2: "wr_done w2 = wr_done w" "signalled (waiting w2) = signalled (wr_queue w)"
      "wr_snapshots w2 = wr_snapshots w" "(\<exists>tail. wr_file w = wr_disk w @ tail) \<longrightarrow> (\<exists>tail. wr_file w2 = wr_disk w2 @ tail)"
      using s grown by (auto simp: w2_def w1_def waiting_opt)
    obtain r1 w3 where w3: "when_do (wr_pending w2 \<ge> wc_flush_every c) (flush_handle io) w2 = (r1, w3)"
      by (cases "when_do (wr_pending w2 \<ge> wc_flush_every c) (flush_handle io) w2")
    show ?thesis
    proof (cases r1)
      case (Inl y)
      with w3 have "w3 = w2" "io_flush io \<noteq> None"
        by (auto simp: when_do_def ret_def dest!: flush_handle_Inl split: if_splits)
      moreover have "w' = w3" using go w3 Inl by (simp add: bnd_def)
      ultimately show ?thesis using w2 by (auto simp: no_faults_def)
    next
      case (Inr v)
      then have "w3 = w2 \<or> w3 = w2\<lparr>wr_disk := wr_file w2, wr_pending := 0\<rparr>"
        using w3 by (auto simp: when_do_def ret_def dest!: flush_handle_Inr split: if_splits)
      then have e: "wr_done w3 = wr_done w2" "waiting w3 = waiting w2" "wr_snapshots w3 = wr_snapshots w2"
        "(\<exists>tail. wr_file w2 = wr_disk w2 @ tail) \<longrightarrow> (\<exists>tail. wr_file w3 = wr_disk w3 @ tail)"
        by (auto simp: waiting_opt)
      have "snapshot_if (snapshot_due c w3) io sn w3 = (Inl x, w')"
        using go w3 Inr by (simp add: bnd_def gets_def)
      from snapshot_if_Inl [OF this] w2 e show ?thesis by (auto simp: no_faults_def)
    qed
  qed
qed

text \<open>One iteration on the item at the head: it goes on or the writer fails.\<close>

definition popped :: "writer \<Rightarrow> item list \<Rightarrow> writer" where
  "popped w its = w\<lparr>wr_deferred := None, wr_queue := its\<rparr>"

lemma popped_fields [simp]:
  "wr_queue (popped w its) = its" "wr_deferred (popped w its) = None" "waiting (popped w its) = its"
  "wr_file (popped w its) = wr_file w" "wr_disk (popped w its) = wr_disk w" "wr_done (popped w its) = wr_done w"
  "wr_snapshots (popped w its) = wr_snapshots w" "wr_pending (popped w its) = wr_pending w"
  "wr_running (popped w its) = wr_running w" "wr_open (popped w its) = wr_open w"
  "wr_error (popped w its) = wr_error w" "wr_since (popped w its) = wr_since w"
  by (simp_all add: popped_def waiting_opt)

lemma writer_step_Cons:
  "wr_running w \<Longrightarrow> waiting w = it # its \<Longrightarrow> writer_step io enc c sn w =
     (case handle_item io enc c sn (Some it) (popped w its) of
        (Inr _, w') \<Rightarrow> w' | (Inl x, w') \<Rightarrow> fail_writer io (Some it) x w')"
  by (simp add: writer_step_def take_item_Cons popped_def)

lemma handle_flush_Inr:
  assumes "handle_item io enc c sn (Some (FlushCmd i)) w = (Inr (), w')"
  shows "wr_done w' = wr_done w @ [i] \<and> waiting w' = waiting w \<and> wr_running w' = wr_running w
     \<and> wr_open w' = wr_open w \<and> wr_error w' = wr_error w
     \<and> (if wr_snapshots w' = wr_snapshots w then wr_file w' = wr_file w
        else wr_snapshots w' = wr_snapshots w + 1 \<and> wr_file w' = [] \<and> wr_disk w' = [])
     \<and> ((wr_pending w = 0 \<longrightarrow> wr_disk w = wr_file w) \<longrightarrow> wr_disk w' = wr_file w')"
  using assms
  by (auto simp: bnd_def gets_def signal_def modify_def waiting_opt split: prod.splits sum.splits if_splits
      dest!: flush_handle_Inr snapshot_if_Inr)

lemma handle_flush_Inl:
  assumes "handle_item io enc c sn (Some (FlushCmd i)) w = (Inl x, w')"
  shows "io \<noteq> no_faults \<and> wr_snapshots w \<le> wr_snapshots w' \<and> waiting w' = waiting w \<and> wr_done w' = wr_done w
     \<and> ((\<exists>tail. wr_file w = wr_disk w @ tail) \<longrightarrow> (\<exists>tail. wr_file w' = wr_disk w' @ tail))"
proof -
  obtain r1 w1 where w1: "flush_handle io w = (r1, w1)" by (cases "flush_handle io w")
  show ?thesis
  proof (cases r1)
    case (Inl y)
    with w1 assms show ?thesis
      by (auto simp: bnd_def no_faults_def dest!: flush_handle_Inl)
  next
    case (Inr u)
    then have e: "w1 = (if wr_pending w = 0 then w else w\<lparr>wr_disk := wr_file w, wr_pending := 0\<rparr>)"
      using flush_handle_Inr w1 by simp
    have "snapshot_if (snapshot_due c w1) io sn w1 = (Inl x, w')"
      using assms w1 Inr by (auto simp: bnd_def gets_def signal_def modify_def split: prod.splits sum.splits)
    from snapshot_if_Inl [OF this] e show ?thesis
      by (auto simp: no_faults_def waiting_opt)
  qed
qed

lemma handle_stop_cases:
  assumes "handle_item io enc c sn (Some (StopCmd i)) w = (r, w')"
  shows "(\<exists>tail. wr_file w = wr_disk w @ tail) \<longrightarrow> (\<exists>tail. wr_file w' = wr_disk w' @ tail)"
    and "r = Inr () \<Longrightarrow> \<not> wr_running w' \<and> i \<in> set (wr_done w') \<and> wr_snapshots w' = wr_snapshots w + 1"
  using assms
  by (auto simp: bnd_def signal_def modify_def close_handle_def split: prod.splits sum.splits if_splits
      dest!: flush_handle_Inr flush_handle_Inl snapshot_and_rotate_Inr snapshot_and_rotate_Inl)

lemma handle_idle_Inr:
  assumes "handle_item io enc c sn None w = (Inr (), w')"
  shows "waiting w' = waiting w \<and> wr_running w' = wr_running w \<and> wr_open w' = wr_open w \<and> wr_error w' = wr_error w
     \<and> (if wr_snapshots w' = wr_snapshots w then wr_file w' = wr_file w else wr_file w' = [] \<and> wr_disk w' = [])
     \<and> ((wr_pending w = 0 \<longrightarrow> wr_disk w = wr_file w) \<longrightarrow> wr_disk w' = wr_file w')"
  using assms
  by (auto simp: bnd_def gets_def waiting_opt split: prod.splits sum.splits if_splits
      dest!: flush_handle_Inr snapshot_if_Inr)

lemma handle_idle_Inl:
  assumes "handle_item io enc c sn None w = (Inl x, w')"
  shows "(\<exists>tail. wr_file w = wr_disk w @ tail) \<longrightarrow> (\<exists>tail. wr_file w' = wr_disk w' @ tail)"
proof -
  obtain r1 w1 where w1: "flush_handle io w = (r1, w1)" by (cases "flush_handle io w")
  show ?thesis
  proof (cases r1)
    case (Inl y)
    with w1 assms show ?thesis by (auto simp: bnd_def dest!: flush_handle_Inl)
  next
    case (Inr u)
    then have e: "w1 = (if wr_pending w = 0 then w else w\<lparr>wr_disk := wr_file w, wr_pending := 0\<rparr>)"
      using flush_handle_Inr w1 by simp
    have "snapshot_if (wc_snapshot_every c \<le> wr_since w1) io sn w1 = (Inl x, w')"
      using assms w1 Inr by (simp add: bnd_def gets_def)
    from snapshot_if_Inl [OF this] e show ?thesis by auto
  qed
qed

lemma handle_rec_Inr:
  assumes "handle_item io enc c sn (Some (Rec r)) w = (Inr (), w')"
  shows "(\<exists>tail. wr_file w = wr_disk w @ tail) \<longrightarrow>
    (\<exists>tail. wr_file w' = wr_disk w' @ tail) \<and> (wr_pending w' = 0 \<longrightarrow> wr_disk w' = wr_file w')"
  using write_step_Inr [OF assms [unfolded handle_item.simps]] by (auto split: if_splits)

lemma writer_step_ok:
  assumes ok: "writer_ok w"
  shows "writer_ok (writer_step io enc c sn w)"
proof (cases "wr_running w")
  case False
  with ok show ?thesis by (simp add: writer_step_def)
next
  case run: True
  note m = ok [unfolded writer_ok_def]
  show ?thesis
  proof (cases "waiting w")
    case Nil
    obtain r w' where w': "handle_item io enc c sn None w = (r, w')"
      by (cases "handle_item io enc c sn None w")
    have s: "writer_step io enc c sn w = (case r of Inl x \<Rightarrow> fail_writer io None x w' | Inr _ \<Rightarrow> w')"
      using run w' by (simp add: writer_step_def take_item_Nil [OF Nil] split: sum.split)
    show ?thesis
    proof (cases r)
      case (Inl x)
      with w' s m handle_idle_Inl [of io enc c sn w x w'] show ?thesis by (auto intro!: fail_writer_ok)
    next
      case (Inr u)
      with w' s m run handle_idle_Inr [of io enc c sn w w'] show ?thesis
        by (auto simp: writer_ok_def split: if_splits)
    qed
  next
    case (Cons it its)
    let ?p = "popped w its"
    obtain r w' where w': "handle_item io enc c sn (Some it) ?p = (r, w')"
      by (cases "handle_item io enc c sn (Some it) ?p")
    have s: "writer_step io enc c sn w = (case r of Inl x \<Rightarrow> fail_writer io (Some it) x w' | Inr _ \<Rightarrow> w')"
      using w' by (simp add: writer_step_Cons [OF run Cons] split: sum.split)
    have t: "\<exists>tail. wr_file ?p = wr_disk ?p @ tail" using m by simp
    show ?thesis
    proof (cases r)
      case (Inl x)
      have "\<exists>tail. wr_file w' = wr_disk w' @ tail"
      proof (cases it)
        case (Rec q)
        then have "write_step io enc c sn q ?p = (Inl x, w')" using w' Inl by simp
        from write_step_Inl [OF this] t show ?thesis by auto
      next
        case (FlushCmd i)
        with w' Inl t handle_flush_Inl [of io enc c sn i ?p x w'] show ?thesis by auto
      next
        case (StopCmd i)
        with w' t handle_stop_cases(1) [of io enc c sn i ?p r w'] show ?thesis by auto
      qed
      with s Inl show ?thesis by (auto intro!: fail_writer_ok)
    next
      case (Inr u)
      show ?thesis
      proof (cases it)
        case (Rec q)
        then have q: "handle_item io enc c sn (Some (Rec q)) ?p = (Inr (), w')" using w' Inr by simp
        from handle_rec_Inr [OF q] write_step_Inr [OF q [unfolded handle_item.simps]] t s Inr m run
        show ?thesis by (auto simp: writer_ok_def)
      next
        case (FlushCmd i)
        with w' Inr t s m run handle_flush_Inr [of io enc c sn i ?p w'] show ?thesis
          by (auto simp: writer_ok_def split: if_splits)
      next
        case (StopCmd i)
        with w' Inr t s handle_stop_cases [of io enc c sn i ?p r w'] show ?thesis
          by (auto simp: writer_ok_def)
      qed
    qed
  qed
qed

text \<open>
  A step that takes no snapshot and does not fail moves records from the queue to the
  file without changing what the two say together.
\<close>

lemma journal_bytes_snoc: "journal_bytes enc rs @ frame enc r = journal_bytes enc (rs @ [r])"
  by (simp add: journal_bytes_def)

lemma replay_through:
  assumes "next_record r q = Inr (n, phys, d, q')"
  shows "replay_records ((rs @ [phys]) @ recs_of (opt_list d @ q')) s = replay_records (rs @ r # recs_of q) s"
proof -
  have "replay_records (phys # recs_of (opt_list d @ q')) t = replay_records (r # recs_of q) t" for t
    using next_record_replay [OF assms, of t] by (simp add: opt_list_def)
  then show ?thesis
    unfolding append_assoc replay_append [of rs] by (simp split: sum.split prod.split)
qed

lemma writer_step_contents:
  assumes run: "wr_running w" and f: "wr_file w = journal_bytes enc rs"
    and same: "wr_snapshots (writer_step io enc c sn w) = wr_snapshots w"
    and ok: "wr_error (writer_step io enc c sn w) = None"
  shows "\<exists>rs'. wr_file (writer_step io enc c sn w) = journal_bytes enc rs' \<and>
    (\<forall>s. replay_records (rs' @ recs_of (waiting (writer_step io enc c sn w))) s =
         replay_records (rs @ recs_of (waiting w)) s)"
proof (cases "waiting w")
  case Nil
  obtain r w' where w': "handle_item io enc c sn None w = (r, w')"
    by (cases "handle_item io enc c sn None w")
  have st: "writer_step io enc c sn w = (case r of Inl x \<Rightarrow> fail_writer io None x w' | Inr _ \<Rightarrow> w')"
    using run w' by (simp add: writer_step_def take_item_Nil [OF Nil] split: sum.split)
  with ok obtain u where "r = Inr u" by (auto split: sum.splits)
  with w' st f same handle_idle_Inr [of io enc c sn w w'] show ?thesis by (auto split: if_splits)
next
  case (Cons it its)
  let ?p = "popped w its"
  obtain r w' where w': "handle_item io enc c sn (Some it) ?p = (r, w')"
    by (cases "handle_item io enc c sn (Some it) ?p")
  have st: "writer_step io enc c sn w = (case r of Inl x \<Rightarrow> fail_writer io (Some it) x w' | Inr _ \<Rightarrow> w')"
    using w' by (simp add: writer_step_Cons [OF run Cons] split: sum.split)
  with ok have r: "r = Inr ()" by (auto split: sum.splits)
  with st same have sn: "writer_step io enc c sn w = w'" "wr_snapshots w' = wr_snapshots ?p" by simp_all
  show ?thesis
  proof (cases it)
    case (FlushCmd i)
    with w' r sn f Cons handle_flush_Inr [of io enc c sn i ?p w'] show ?thesis by auto
  next
    case (StopCmd i)
    with w' r sn handle_stop_cases(2) [of io enc c sn i ?p r w'] show ?thesis by simp
  next
    case (Rec q)
    then have "write_step io enc c sn q ?p = (Inr (), w')" using w' r by simp
    from write_step_Inr [OF this] sn(2) obtain n phys d q' where
      n: "next_record q its = Inr (n, phys, d, q')" "waiting w' = opt_list d @ q'" "wr_file w' = wr_file w @ frame enc phys"
      by auto
    have "wr_file w' = journal_bytes enc (rs @ [phys])" using n(3) f by (simp add: journal_bytes_snoc)
    moreover have "replay_records ((rs @ [phys]) @ recs_of (waiting w')) s = replay_records (rs @ recs_of (waiting w)) s" for s
      using replay_through [OF n(1), of rs s] n(2) Cons Rec by simp
    ultimately show ?thesis using sn(1) by metis
  qed
qed

subsection \<open>A flush command is answered\<close>

text \<open>
  What an iteration does while a flush command waits behind some items without a stop
  command: it gets closer to the flush command, or the writer fails and signals it.
\<close>

lemma step_towards_flush:
  fixes io enc c sn
  assumes ok: "writer_ok w" and run: "wr_running w" and w: "waiting w = it # before @ FlushCmd i # its"
    and nostop: "\<forall>j. it \<noteq> StopCmd j"
  defines "v \<equiv> writer_step io enc c sn w"
  shows "if wr_error v = None
     then wr_running v \<and> writer_ok v \<and> wr_snapshots w \<le> wr_snapshots v
       \<and> (\<exists>gone rest. before = gone @ rest \<and> waiting v = rest @ FlushCmd i # its
           \<and> (\<forall>rs. wr_file w = journal_bytes enc rs \<longrightarrow> wr_snapshots v = wr_snapshots w \<longrightarrow>
                (\<exists>rs'. wr_file v = journal_bytes enc rs' \<and>
                   (\<forall>s. replay_records (rs' @ recs_of rest) s = replay_records (rs @ recs_of (it # before)) s))))
     else \<not> wr_running v \<and> waiting v = [] \<and> i \<in> set (wr_done v) \<and> set (signalled its) \<subseteq> set (wr_done v)
       \<and> wr_snapshots w \<le> wr_snapshots v
       \<and> (io \<noteq> no_faults \<or> (\<exists>r. it = Rec r \<and> unwritable enc r before))"
proof -
  let ?p = "popped w (before @ FlushCmd i # its)"
  obtain r w' where w': "handle_item io enc c sn (Some it) ?p = (r, w')"
    by (cases "handle_item io enc c sn (Some it) ?p")
  have v: "v = (case r of Inl x \<Rightarrow> fail_writer io (Some it) x w' | Inr _ \<Rightarrow> w')"
    using w' by (simp add: v_def writer_step_Cons [OF run w] split: sum.split)
  have okv: "writer_ok v" unfolding v_def by (rule writer_step_ok [OF ok])
  have e: "wr_error w = None" using ok run by (simp add: writer_ok_def)
  show ?thesis
  proof (cases it)
    case (StopCmd j)
    with nostop show ?thesis by simp
  next
    case (FlushCmd j)
    show ?thesis
    proof (cases r)
      case (Inl x)
      with w' v FlushCmd handle_flush_Inl [of io enc c sn j ?p x w'] show ?thesis by auto
    next
      case (Inr u)
      with w' v FlushCmd handle_flush_Inr [of io enc c sn j ?p w'] run e
      have h: "v = w'" "wr_error v = None" "wr_running v" "waiting v = before @ FlushCmd i # its"
        "wr_snapshots w \<le> wr_snapshots v" "wr_snapshots v = wr_snapshots w \<longrightarrow> wr_file v = wr_file w"
        by (auto split: if_splits)
      have "\<exists>rs'. wr_file v = journal_bytes enc rs' \<and>
          (\<forall>s. replay_records (rs' @ recs_of before) s = replay_records (rs @ recs_of (it # before)) s)"
        if "wr_file w = journal_bytes enc rs" "wr_snapshots v = wr_snapshots w" for rs
        using that h(6) FlushCmd by (intro exI [of _ rs]) simp
      with h okv show ?thesis by (auto intro!: exI [of _ "[]"])
    qed
  next
    case (Rec q)
    then have q: "write_step io enc c sn q ?p = (r, w')" using w' by simp
    show ?thesis
    proof (cases r)
      case (Inl x)
      with q v Rec write_step_Inl [of io enc c sn q ?p x w'] show ?thesis
        by (auto simp: unwritable_stops)
    next
      case (Inr u)
      with q have "write_step io enc c sn q ?p = (Inr (), w')" by simp
      from write_step_Inr [OF this] obtain n phys d qs where
        n: "next_record q (before @ FlushCmd i # its) = Inr (n, phys, d, qs)" "waiting w' = opt_list d @ qs"
        and same: "wr_running w' = wr_running w" "wr_error w' = wr_error w" "wr_snapshots w \<le> wr_snapshots w'"
          "wr_snapshots w' = wr_snapshots w \<longrightarrow> wr_file w' = wr_file w @ frame enc phys"
        by (auto split: if_splits)
      obtain d1 q1 gone where d1: "next_record q before = Inr (n, phys, d1, q1)" "before = gone @ opt_list d1 @ q1"
        "opt_list d @ qs = (opt_list d1 @ q1) @ FlushCmd i # its"
        using next_record_stops [of q before i its] n(1) by (auto split: sum.splits)
      have "v = w'" using v Inr by simp
      moreover have "\<exists>rs'. wr_file w' = journal_bytes enc rs' \<and>
          (\<forall>s. replay_records (rs' @ recs_of (opt_list d1 @ q1)) s = replay_records (rs @ recs_of (it # before)) s)"
        if "wr_file w = journal_bytes enc rs" "wr_snapshots w' = wr_snapshots w" for rs
        using that same(4) replay_through [OF d1(1), of rs] Rec
        by (intro exI [of _ "rs @ [phys]"]) (simp add: journal_bytes_snoc)
      ultimately show ?thesis
        using same run e okv n(2) d1 by (auto intro!: exI [of _ gone] exI [of _ "opt_list d1 @ q1"])
    qed
  qed
qed

lemma step_on_flush:
  fixes io enc c sn
  assumes ok: "writer_ok w" and run: "wr_running w" and w: "waiting w = FlushCmd i # its"
  defines "v \<equiv> writer_step io enc c sn w"
  shows "i \<in> set (wr_done v) \<and> wr_snapshots w \<le> wr_snapshots v
     \<and> (if wr_error v = None
        then wr_running v \<and> waiting v = its \<and> wr_disk v = wr_file v
          \<and> (wr_snapshots v = wr_snapshots w \<longrightarrow> wr_file v = wr_file w)
        else \<not> wr_running v \<and> waiting v = [] \<and> set (signalled its) \<subseteq> set (wr_done v) \<and> io \<noteq> no_faults)"
proof -
  let ?p = "popped w its"
  obtain r w' where w': "handle_item io enc c sn (Some (FlushCmd i)) ?p = (r, w')"
    by (cases "handle_item io enc c sn (Some (FlushCmd i)) ?p")
  have v: "v = (case r of Inl x \<Rightarrow> fail_writer io (Some (FlushCmd i)) x w' | Inr _ \<Rightarrow> w')"
    using w' by (simp add: v_def writer_step_Cons [OF run w] split: sum.split)
  show ?thesis
  proof (cases r)
    case (Inl x)
    with w' v handle_flush_Inl [of io enc c sn i ?p x w'] show ?thesis by auto
  next
    case (Inr u)
    with w' v handle_flush_Inr [of io enc c sn i ?p w'] run ok show ?thesis
      by (auto simp: writer_ok_def split: if_splits)
  qed
qed

text \<open>
  From any state of the running writer: a flush command that waits behind some items, none of
  them a stop command, is answered within that many iterations and one, whatever arrives
  in the meantime and whichever calls raise.
\<close>

definition flush_answer :: "(entry \<Rightarrow> byte list) \<Rightarrow> writer \<Rightarrow> item list \<Rightarrow> nat \<Rightarrow> item list
    \<Rightarrow> (item list \<times> io_faults \<times> engine_snapshot) list \<Rightarrow> writer \<Rightarrow> bool" where
  "flush_answer enc w before i its env v \<longleftrightarrow>
     i \<in> set (wr_done v) \<and> wr_snapshots w \<le> wr_snapshots v \<and>
     (if wr_error v = None
      then wr_running v \<and> waiting v = its @ concat (map fst env) \<and> wr_disk v = wr_file v
        \<and> (\<forall>rs. wr_file w = journal_bytes enc rs \<longrightarrow> wr_snapshots v = wr_snapshots w \<longrightarrow>
             (\<exists>rs'. wr_disk v = journal_bytes enc rs' \<and>
                (\<forall>s. replay_records rs' s = replay_records (rs @ recs_of before) s)))
      else \<not> wr_running v \<and> waiting v = [] \<and> set (signalled (its @ concat (map fst env))) \<subseteq> set (wr_done v)
        \<and> ((\<exists>(new, io, sn) \<in> set env. io \<noteq> no_faults)
           \<or> (\<exists>xs r zs. before = xs @ Rec r # zs \<and> unwritable enc r zs)))"

lemma writer_run_simps [simp]:
  "writer_run enc c [] w = w"
  "writer_run enc c ((new, io, sn) # env) w =
     writer_run enc c env (writer_step io enc c sn (w\<lparr>wr_queue := wr_queue w @ new\<rparr>))"
  by (simp_all add: writer_run_def)

lemma arrival_fields [simp]:
  "writer_ok (w\<lparr>wr_queue := q\<rparr>) = writer_ok w" "wr_running (w\<lparr>wr_queue := q\<rparr>) = wr_running w"
  "wr_snapshots (w\<lparr>wr_queue := q\<rparr>) = wr_snapshots w" "wr_file (w\<lparr>wr_queue := q\<rparr>) = wr_file w"
  by (simp_all add: writer_ok_def)

lemma flush_is_answered:
  assumes "writer_ok w" "wr_running w" "waiting w = before @ FlushCmd i # its"
    and "\<forall>j. StopCmd j \<notin> set before" "length before < length env"
  shows "\<exists>n \<le> Suc (length before). flush_answer enc w before i its (take n env) (writer_run enc c (take n env) w)"
  using assms
proof (induction before arbitrary: w its env rule: length_induct)
  case (1 before)
  obtain new io sn env' where env: "env = (new, io, sn) # env'"
    using "1.prems"(5) by (cases env) auto
  let ?w = "w\<lparr>wr_queue := wr_queue w @ new\<rparr>"
  let ?v = "writer_step io enc c sn ?w"
  have w: "writer_ok ?w" "wr_running ?w" "waiting ?w = before @ FlushCmd i # its @ new"
    using "1.prems" by simp_all
  show ?case
  proof (cases before)
    case Nil
    have a: "flush_answer enc w before i its [(new, io, sn)] ?v"
      using step_on_flush [OF w(1,2), of i "its @ new" io enc c sn] w(3) Nil
      by (auto simp: flush_answer_def split: if_splits)
    show ?thesis
      using a env by (intro exI [of _ 1]) simp
  next
    case (Cons it b)
    have ns: "\<forall>j. it \<noteq> StopCmd j" "\<forall>j. StopCmd j \<notin> set b"
      using "1.prems"(4) Cons by auto
    have w': "waiting ?w = it # b @ FlushCmd i # its @ new" using w(3) Cons by simp
    note st = step_towards_flush [OF w(1,2) w' ns(1), of io enc c sn]
    show ?thesis
    proof (cases "wr_error ?v = None")
      case False
      with st have "\<not> wr_running ?v \<and> waiting ?v = [] \<and> i \<in> set (wr_done ?v)
          \<and> set (signalled (its @ new)) \<subseteq> set (wr_done ?v) \<and> (io \<noteq> no_faults \<or> (\<exists>r. it = Rec r \<and> unwritable enc r b))
          \<and> wr_snapshots w \<le> wr_snapshots ?v"
        by simp
      then have "flush_answer enc w before i its [(new, io, sn)] ?v"
        using False Cons by (fastforce simp: flush_answer_def)
      then show ?thesis
        using env by (intro exI [of _ 1]) simp
    next
      case True
      note P = st [unfolded if_P [OF True] arrival_fields, folded Cons]
      from P obtain gone rest where rest: "b = gone @ rest \<and> waiting ?v = rest @ FlushCmd i # its @ new \<and>
          (\<forall>rs. wr_file w = journal_bytes enc rs \<longrightarrow> wr_snapshots ?v = wr_snapshots w \<longrightarrow>
             (\<exists>rs'. wr_file ?v = journal_bytes enc rs' \<and>
                (\<forall>s. replay_records (rs' @ recs_of rest) s = replay_records (rs @ recs_of before) s)))"
        by (elim conjE exE) (rule that, intro conjI; assumption)
      have v: "wr_running ?v" "writer_ok ?v" "wr_snapshots w \<le> wr_snapshots ?v"
        "b = gone @ rest" "waiting ?v = rest @ FlushCmd i # its @ new"
        and cont: "\<And>rs. wr_file w = journal_bytes enc rs \<Longrightarrow> wr_snapshots ?v = wr_snapshots w \<Longrightarrow>
                (\<exists>rs'. wr_file ?v = journal_bytes enc rs' \<and>
                   (\<forall>s. replay_records (rs' @ recs_of rest) s = replay_records (rs @ recs_of before) s))"
        using P rest by blast+
      have "length rest < length before" "\<forall>j. StopCmd j \<notin> set rest" "length rest < length env'"
        using Cons v(4) ns(2) "1.prems"(5) env by auto
      then obtain n where n: "n \<le> Suc (length rest)"
        "flush_answer enc ?v rest i (its @ new) (take n env') (writer_run enc c (take n env') ?v)"
        using "1.IH" v(1,2,5) by blast
      have "flush_answer enc w before i its (take (Suc n) env) (writer_run enc c (take (Suc n) env) w)"
      proof (cases "wr_error (writer_run enc c (take n env') ?v) = None")
        case True
        let ?u = "writer_run enc c (take n env') ?v"
        have u: "i \<in> set (wr_done ?u)" "wr_snapshots ?v \<le> wr_snapshots ?u" "wr_running ?u"
          "waiting ?u = (its @ new) @ concat (map fst (take n env'))" "wr_disk ?u = wr_file ?u"
          and c: "\<And>rs. wr_file ?v = journal_bytes enc rs \<Longrightarrow> wr_snapshots ?u = wr_snapshots ?v \<Longrightarrow>
             \<exists>rs'. wr_disk ?u = journal_bytes enc rs' \<and>
                (\<forall>s. replay_records rs' s = replay_records (rs @ recs_of rest) s)"
          using n(2) [unfolded flush_answer_def if_P [OF True]] by blast+
        have "\<exists>rs'. wr_disk ?u = journal_bytes enc rs' \<and>
            (\<forall>s. replay_records rs' s = replay_records (rs @ recs_of before) s)"
          if rs: "wr_file w = journal_bytes enc rs" "wr_snapshots ?u = wr_snapshots w" for rs
        proof -
          have sn: "wr_snapshots ?v = wr_snapshots w" "wr_snapshots ?u = wr_snapshots ?v"
            using u(2) v(3) rs(2) by simp_all
          obtain rs1 where rs1: "wr_file ?v = journal_bytes enc rs1"
            "\<And>s. replay_records (rs1 @ recs_of rest) s = replay_records (rs @ recs_of before) s"
            using cont [OF rs(1) sn(1)] by blast
          with c [OF rs1(1) sn(2)] show ?thesis by auto
        qed
        then have P: "\<forall>rs. wr_file w = journal_bytes enc rs \<longrightarrow> wr_snapshots ?u = wr_snapshots w \<longrightarrow>
            (\<exists>rs'. wr_disk ?u = journal_bytes enc rs' \<and>
               (\<forall>s. replay_records rs' s = replay_records (rs @ recs_of before) s))"
          by blast
        have E: "writer_run enc c (take (Suc n) env) w = ?u"
          "its @ concat (map fst (take (Suc n) env)) = (its @ new) @ concat (map fst (take n env'))"
          using env by simp_all
        show ?thesis
          unfolding flush_answer_def E if_P [OF True] using u(1,3,4,5) le_trans [OF v(3) u(2)] P by blast
      next
        case False
        let ?u = "writer_run enc c (take n env') ?v"
        have u: "i \<in> set (wr_done ?u)" "wr_snapshots ?v \<le> wr_snapshots ?u" "\<not> wr_running ?u" "waiting ?u = []"
          "set (signalled ((its @ new) @ concat (map fst (take n env')))) \<subseteq> set (wr_done ?u)"
          and cause: "(\<exists>(new, io, sn) \<in> set (take n env'). io \<noteq> no_faults)
             \<or> (\<exists>xs r zs. rest = xs @ Rec r # zs \<and> unwritable enc r zs)"
          using n(2) [unfolded flush_answer_def if_not_P [OF False]] by blast+
        have "before = (it # gone) @ rest" using Cons v(4) by simp
        then have "\<exists>xs r zs. before = xs @ Rec r # zs \<and> unwritable enc r zs"
          if "\<exists>xs r zs. rest = xs @ Rec r # zs \<and> unwritable enc r zs"
          using that by (metis append_assoc)
        with cause have P: "(\<exists>(new, io, sn) \<in> set (take (Suc n) env). io \<noteq> no_faults)
             \<or> (\<exists>xs r zs. before = xs @ Rec r # zs \<and> unwritable enc r zs)"
          using env by fastforce
        have E: "writer_run enc c (take (Suc n) env) w = ?u"
          "its @ concat (map fst (take (Suc n) env)) = (its @ new) @ concat (map fst (take n env'))"
          using env by simp_all
        show ?thesis
          unfolding flush_answer_def E if_not_P [OF False] using u(1,3,4,5) le_trans [OF v(3) u(2)] P by blast
      qed
      then show ?thesis
        using n(1) Cons v(4) by (intro exI [of _ "Suc n"]) simp
    qed
  qed
qed


section \<open>Loading a snapshot file\<close>

text \<open>
  The checks of \<open>load_snapshot_payload\<close> on a decoded file: \<open>None\<close> when the file cannot be
  used. A payload without a version is a legacy one and is passed on as it is.
\<close>

definition load_snapshot_payload :: "(byte list \<Rightarrow> pyval option) \<Rightarrow> byte list option \<Rightarrow> entry option" where
  "load_snapshot_payload decode file =
     (case file of
        None \<Rightarrow> None
      | Some bytes \<Rightarrow>
          (case decode bytes of
             Some (PDict p) \<Rightarrow>
               (let v = dget p ''version'' in
                if v \<noteq> PNone \<and> v \<noteq> PInt 1 \<and> v \<noteq> PBool True then None
                else if v \<noteq> PNone \<and> \<not> is_dict (dget p ''state'') then None
                else Some p)
           | _ \<Rightarrow> None))"

end
