(* ===== verification/User_Identity.thy ===== *)
theory User_Identity
  imports Id_Map Sha256 "HOL-Library.Char_ord" "HOL-Library.List_Lexorder"
begin

text \<open>
  \<open>rocketcat_shell/bridge/user_identity.py\<close>: the registry that gives every Rocket.Chat
  user an 11-digit OneBot id. The primary id is a SHA-256 hash; a taken id is resolved by
  linear probing, and the displaced user is recorded as a conflict.

  The SQLite tables are lists of rows; a transaction is a function on the database that
  returns an exception or the new database, so a rollback leaves it as it was. Beside the
  database the registry keeps three bounded caches in insertion order. Clock readings are
  arguments. \<open>registry\<close> is the state of one registry object.
\<close>

section \<open>Identifiers\<close>

definition user_id_min :: int where "user_id_min = 10000000000"
definition user_id_max :: int where "user_id_max = 99999999999"
definition user_id_table_size :: int where "user_id_table_size = 90000000000"

definition user_id_domain :: "nat list" where
  "user_id_domain = utf8 ''rocketcat-user-id-v1'' @ [0]"

definition identity_error :: "string \<Rightarrow> exn" where
  "identity_error m = OtherError ''UserIdentityError'' m"

definition compute_primary_onebot_id :: "string \<Rightarrow> exn + int" where
  "compute_primary_onebot_id user_id =
     (let n = py_strip user_id in
      if n = [] then Inl (ValueError ''user_id'')
      else Inr (user_id_min + from_bytes_big (sha256 (user_id_domain @ utf8 n)) mod user_id_table_size))"

definition compute_probe_offset :: "int \<Rightarrow> int \<Rightarrow> int" where
  "compute_probe_offset primary actual =
     ((actual - user_id_min) - (primary - user_id_min)) mod user_id_table_size"

definition validate_onebot_user_id :: "pyval \<Rightarrow> exn + int" where
  "validate_onebot_user_id v =
     (case py_int v of
        Inl _ \<Rightarrow> Inl (ValueError ''onebot_id'')
      | Inr n \<Rightarrow> if n < user_id_min \<or> n > user_id_max then Inl (ValueError ''onebot_id range'') else Inr n)"

lemmas user_id_bounds = user_id_min_def user_id_max_def user_id_table_size_def

section \<open>Tables\<close>

record user_row =
  ur_user_id :: string
  ur_username :: string
  ur_nickname :: string
  ur_onebot :: int
  ur_primary :: int
  ur_offset :: int
  ur_manual :: bool
  ur_is_bot :: bool
  ur_synthetic :: bool
  ur_first_seen :: rat
  ur_last_seen :: rat
  ur_revision :: int

record conflict_row =
  cf_id :: int
  cf_primary :: int
  cf_incumbent :: string
  cf_displaced :: string
  cf_displaced_onebot :: int
  cf_offset :: int
  cf_reason :: string
  cf_active :: bool
  cf_created :: rat
  cf_resolved :: "rat option"

record identity_db =
  db_users :: "user_row list"
  db_bot_users :: "((string \<times> string) \<times> rat) list"
  db_conflicts :: "conflict_row list"
  db_last_conflict :: int

definition empty_db :: identity_db where
  "empty_db = \<lparr>db_users = [], db_bot_users = [], db_conflicts = [], db_last_conflict = 0\<rparr>"

definition row_by_user :: "identity_db \<Rightarrow> string \<Rightarrow> user_row option" where
  "row_by_user db u = find (\<lambda>r. ur_user_id r = u) (db_users db)"

definition row_by_onebot :: "identity_db \<Rightarrow> int \<Rightarrow> user_row option" where
  "row_by_onebot db i = find (\<lambda>r. ur_onebot r = i) (db_users db)"

definition update_user :: "string \<Rightarrow> (user_row \<Rightarrow> user_row) \<Rightarrow> identity_db \<Rightarrow> identity_db" where
  "update_user u f db = db\<lparr>db_users := map (\<lambda>r. if ur_user_id r = u then f r else r) (db_users db)\<rparr>"

text \<open>\<open>_upsert_bot_user\<close>: insert, or update the time of the pair that is there.\<close>

definition upsert_bot_user :: "string \<Rightarrow> string \<Rightarrow> rat \<Rightarrow> identity_db \<Rightarrow> identity_db" where
  "upsert_bot_user b u now db = db\<lparr>db_bot_users := AList.update (b, u) now (db_bot_users db)\<rparr>"

definition upsert_if :: "string \<Rightarrow> string \<Rightarrow> rat \<Rightarrow> identity_db \<Rightarrow> identity_db" where
  "upsert_if b u now db = (if b \<noteq> [] then upsert_bot_user b u now db else db)"

definition insert_conflict ::
    "int \<Rightarrow> string \<Rightarrow> string \<Rightarrow> int \<Rightarrow> int \<Rightarrow> string \<Rightarrow> rat \<Rightarrow> identity_db \<Rightarrow> identity_db" where
  "insert_conflict primary inc displaced displaced_onebot offset reason now db =
     (let i = db_last_conflict db + 1 in
      db\<lparr>db_conflicts := db_conflicts db @
           [\<lparr>cf_id = i, cf_primary = primary, cf_incumbent = inc, cf_displaced = displaced,
             cf_displaced_onebot = displaced_onebot, cf_offset = offset, cf_reason = reason,
             cf_active = True, cf_created = now, cf_resolved = None\<rparr>],
         db_last_conflict := i\<rparr>)"

section \<open>Allocation\<close>

text \<open>
  The probing loop: the id it stops at, the offset, and the row that holds the primary id.
\<close>

function probe :: "identity_db \<Rightarrow> int \<Rightarrow> int \<Rightarrow> int \<Rightarrow> user_row option \<Rightarrow>
    exn + (int \<times> int \<times> user_row option)" where
  "probe db primary onebot offset inc =
     (case row_by_onebot db onebot of
        None \<Rightarrow> Inr (onebot, offset, inc)
      | Some r \<Rightarrow>
          (let inc' = (if offset = 0 then Some r else inc); offset' = offset + 1 in
           if offset' \<ge> user_id_table_size then Inl (identity_error ''exhausted'')
           else probe db primary
                  (user_id_min + (primary - user_id_min + offset') mod user_id_table_size) offset' inc'))"
  by pat_completeness auto
termination
  by (relation "measure (\<lambda>(_, _, _, offset, _). nat (user_id_table_size - offset))") auto

declare probe.simps [simp del]

record profile =
  pf_username :: string
  pf_nickname :: string
  pf_is_bot :: bool
  pf_synthetic :: bool

text \<open>The \<open>UPDATE\<close> of a known user: a blank name keeps the stored one.\<close>

definition touch_profile :: "profile \<Rightarrow> rat \<Rightarrow> user_row \<Rightarrow> user_row" where
  "touch_profile p now r =
     (let un = (if pf_username p \<noteq> [] then pf_username p else ur_username r);
          nn = (if pf_nickname p \<noteq> [] then pf_nickname p else ur_nickname r);
          changed = (un \<noteq> ur_username r \<or> nn \<noteq> ur_nickname r \<or> pf_is_bot p \<noteq> ur_is_bot r
                     \<or> pf_synthetic p \<noteq> ur_synthetic r)
      in r\<lparr>ur_username := un, ur_nickname := nn, ur_is_bot := pf_is_bot p, ur_synthetic := pf_synthetic p,
           ur_last_seen := now, ur_revision := (if changed then ur_revision r + 1 else ur_revision r)\<rparr>)"

definition new_row :: "string \<Rightarrow> profile \<Rightarrow> int \<Rightarrow> int \<Rightarrow> int \<Rightarrow> rat \<Rightarrow> user_row" where
  "new_row u p onebot primary offset now =
     \<lparr>ur_user_id = u, ur_username = pf_username p, ur_nickname = pf_nickname p, ur_onebot = onebot,
      ur_primary = primary, ur_offset = offset, ur_manual = False, ur_is_bot = pf_is_bot p,
      ur_synthetic = pf_synthetic p, ur_first_seen = now, ur_last_seen = now, ur_revision = 1\<rparr>"

definition insert_user :: "string \<Rightarrow> profile \<Rightarrow> int \<Rightarrow> rat \<Rightarrow> identity_db \<Rightarrow> exn + (bool \<times> identity_db)" where
  "insert_user u p primary now db =
     (case probe db primary primary 0 None of
        Inl x \<Rightarrow> Inl x
      | Inr (onebot, offset, inc) \<Rightarrow>
          (let db1 = db\<lparr>db_users := db_users db @ [new_row u p onebot primary offset now]\<rparr>
           in Inr (case inc of
                     None \<Rightarrow> (False, db1)
                   | Some r \<Rightarrow> (True, insert_conflict primary (ur_user_id r) u onebot offset ''hash_collision'' now db1))))"

text \<open>
  The transaction of \<open>ensure_mapping_sync\<close> for a normalized user id: the row, whether a
  conflict was recorded, and the database.
\<close>

definition ensure_in_db :: "string \<Rightarrow> profile \<Rightarrow> pyval option \<Rightarrow> string \<Rightarrow> rat \<Rightarrow> identity_db \<Rightarrow>
    exn + (user_row \<times> bool \<times> identity_db)" where
  "ensure_in_db u p primary_override bid now db =
     (case row_by_user db u of
        Some r \<Rightarrow>
          (let db2 = upsert_if bid u now (update_user u (touch_profile p now) db)
           in Inr (touch_profile p now r, False, db2))
      | None \<Rightarrow>
          sbind (case primary_override of
                   Some v \<Rightarrow> validate_onebot_user_id v
                 | None \<Rightarrow> compute_primary_onebot_id u)
            (\<lambda>primary. sbind (insert_user u p primary now db)
              (\<lambda>(conflict, db1).
                (let db2 = upsert_if bid u now db1 in
                 case row_by_user db2 u of
                   None \<Rightarrow> Inl (identity_error ''missing row'')
                 | Some r \<Rightarrow> Inr (r, conflict, db2)))))"

text \<open>The transaction of \<open>ensure_mappings_sync\<close> over its normalized items.\<close>

fun ensure_all_in_db :: "(string \<times> profile) list \<Rightarrow> string \<Rightarrow> rat \<Rightarrow> identity_db \<Rightarrow>
    exn + (user_row list \<times> bool \<times> identity_db)" where
  "ensure_all_in_db [] bid now db = Inr ([], False, db)"
| "ensure_all_in_db ((u, p) # items) bid now db =
     sbind (ensure_in_db u p None bid now db) (\<lambda>(r, c, db1).
       sbind (ensure_all_in_db items bid now db1) (\<lambda>(rs, cs, db2). Inr (r # rs, c \<or> cs, db2)))"

section \<open>Caches\<close>

record identity_cache =
  ic_by_user :: "(string \<times> user_row) list"
  ic_by_onebot :: "(int \<times> string) list"
  ic_seen :: "(string \<times> string) list"
  ic_max :: int

definition cache_limit :: "identity_cache \<Rightarrow> nat" where
  "cache_limit c = nat (max 128 (ic_max c))"

definition move_to_end :: "'k \<Rightarrow> 'v \<Rightarrow> ('k \<times> 'v) list \<Rightarrow> ('k \<times> 'v) list" where
  "move_to_end k v d = AList.delete k d @ [(k, v)]"

fun evict_users :: "nat \<Rightarrow> (string \<times> user_row) list \<Rightarrow> (int \<times> string) list \<Rightarrow>
    (string \<times> user_row) list \<times> (int \<times> string) list" where
  "evict_users limit [] os = ([], os)"
| "evict_users limit ((u, m) # us) os =
     (if Suc (length us) > limit then
        evict_users limit us (if map_of os (ur_onebot m) = Some u then AList.delete (ur_onebot m) os else os)
      else ((u, m) # us, os))"

fun evict_onebots :: "nat \<Rightarrow> (int \<times> string) list \<Rightarrow> (string \<times> user_row) list \<Rightarrow>
    (int \<times> string) list \<times> (string \<times> user_row) list" where
  "evict_onebots limit [] us = ([], us)"
| "evict_onebots limit ((i, u) # os) us =
     (if Suc (length os) > limit then
        evict_onebots limit os
          (case map_of us u of
             Some m \<Rightarrow> if ur_onebot m = i then AList.delete u us else us
           | None \<Rightarrow> us)
      else ((i, u) # os, us))"

definition evict_caches :: "identity_cache \<Rightarrow> identity_cache" where
  "evict_caches c =
     (case evict_users (cache_limit c) (ic_by_user c) (ic_by_onebot c) of
        (us, os) \<Rightarrow>
          (case evict_onebots (cache_limit c) os us of
             (os', us') \<Rightarrow>
               c\<lparr>ic_by_user := us', ic_by_onebot := os',
                 ic_seen := drop (length (ic_seen c) - cache_limit c) (ic_seen c)\<rparr>))"

definition cache_put :: "user_row \<Rightarrow> identity_cache \<Rightarrow> identity_cache" where
  "cache_put m c =
     (let os = (case map_of (ic_by_user c) (ur_user_id m) of
                  Some old \<Rightarrow> if ur_onebot old \<noteq> ur_onebot m then AList.delete (ur_onebot old) (ic_by_onebot c)
                              else ic_by_onebot c
                | None \<Rightarrow> ic_by_onebot c)
      in evict_caches (c\<lparr>ic_by_user := move_to_end (ur_user_id m) m (ic_by_user c),
                        ic_by_onebot := move_to_end (ur_onebot m) (ur_user_id m) os\<rparr>))"

definition cache_touch :: "user_row \<Rightarrow> identity_cache \<Rightarrow> identity_cache" where
  "cache_touch m c =
     c\<lparr>ic_by_user := (case map_of (ic_by_user c) (ur_user_id m) of
                        Some v \<Rightarrow> move_to_end (ur_user_id m) v (ic_by_user c) | None \<Rightarrow> ic_by_user c),
       ic_by_onebot := (case map_of (ic_by_onebot c) (ur_onebot m) of
                        Some v \<Rightarrow> move_to_end (ur_onebot m) v (ic_by_onebot c) | None \<Rightarrow> ic_by_onebot c)\<rparr>"

definition remember_bot_user :: "string \<Rightarrow> string \<Rightarrow> identity_cache \<Rightarrow> identity_cache" where
  "remember_bot_user b u c =
     (let pair = (py_strip b, py_strip u) in
      if fst pair = [] \<or> snd pair = [] then c
      else (let seen = filter (\<lambda>q. q \<noteq> pair) (ic_seen c) @ [pair]
            in c\<lparr>ic_seen := drop (length seen - nat (ic_max c)) seen\<rparr>))"

definition invalidate_cache :: "string option \<Rightarrow> identity_cache \<Rightarrow> identity_cache" where
  "invalidate_cache u c =
     (case u of
        None \<Rightarrow> c\<lparr>ic_by_user := [], ic_by_onebot := []\<rparr>
      | Some k \<Rightarrow>
          (case map_of (ic_by_user c) k of
             None \<Rightarrow> c
           | Some m \<Rightarrow> c\<lparr>ic_by_user := AList.delete k (ic_by_user c),
                         ic_by_onebot := AList.delete (ur_onebot m) (ic_by_onebot c)\<rparr>))"

section \<open>Conflicts of a bot\<close>

definition knows :: "identity_db \<Rightarrow> string \<Rightarrow> string \<Rightarrow> bool" where
  "knows db b u = (map_of (db_bot_users db) (b, u) \<noteq> None)"

text \<open>
  The query behind the warning file: the active conflicts between two existing users of
  whom the bot knows at least one, in the order of their creation.
\<close>

definition active_conflicts :: "identity_db \<Rightarrow> string \<Rightarrow> conflict_row list" where
  "active_conflicts db b =
     sort_key cf_created (filter (\<lambda>c. cf_active c
        \<and> row_by_user db (cf_incumbent c) \<noteq> None \<and> row_by_user db (cf_displaced c) \<noteq> None
        \<and> (knows db b (cf_incumbent c) \<or> knows db b (cf_displaced c))) (db_conflicts db))"

section \<open>The registry\<close>

text \<open>\<open>rg_warning\<close> is the content of the warning file, when the registry has one.\<close>

record registry =
  rg_db :: identity_db
  rg_cache :: identity_cache
  rg_bot_id :: string
  rg_has_warning_path :: bool
  rg_warning :: "conflict_row list option"

definition bot_of :: "string option \<Rightarrow> registry \<Rightarrow> string" where
  "bot_of b g = py_strip (case b of Some x \<Rightarrow> x | None \<Rightarrow> rg_bot_id g)"

definition sync_warning :: "string \<Rightarrow> registry \<Rightarrow> registry" where
  "sync_warning b g =
     (if rg_has_warning_path g then g\<lparr>rg_warning := Some (active_conflicts (rg_db g) b)\<rparr> else g)"

definition on_cache :: "(identity_cache \<Rightarrow> identity_cache) \<Rightarrow> registry \<Rightarrow> registry" where
  "on_cache f g = g\<lparr>rg_cache := f (rg_cache g)\<rparr>"

definition remember_if :: "string \<Rightarrow> string \<Rightarrow> registry \<Rightarrow> registry" where
  "remember_if b u g = (if b \<noteq> [] then on_cache (remember_bot_user b u) g else g)"

text \<open>
  A bot that sees a user: the row of \<open>bot_users\<close> refers to \<open>user_mappings\<close>, so an unknown
  user is a foreign-key error and the transaction is rolled back.
\<close>

definition touch_bot_user :: "string \<Rightarrow> string \<Rightarrow> rat \<Rightarrow> (registry, unit) action" where
  "touch_bot_user b u now g =
     (if row_by_user (rg_db g) u = None then (Inl (OtherError ''IntegrityError'' ''foreign key''), g)
      else (Inr (), on_cache (remember_bot_user b u) (g\<lparr>rg_db := upsert_bot_user b u now (rg_db g)\<rparr>)))"

definition normalized_profile :: "profile \<Rightarrow> profile" where
  "normalized_profile p = p\<lparr>pf_username := py_strip (pf_username p), pf_nickname := py_strip (pf_nickname p)\<rparr>"

definition profile_matches :: "profile \<Rightarrow> user_row \<Rightarrow> bool" where
  "profile_matches p m \<longleftrightarrow>
     (pf_username p = [] \<or> pf_username p = ur_username m)
     \<and> (pf_nickname p = [] \<or> pf_nickname p = ur_nickname m)
     \<and> pf_is_bot p = ur_is_bot m \<and> pf_synthetic p = ur_synthetic m"

definition ensure_mapping_sync :: "rat \<Rightarrow> string \<Rightarrow> profile \<Rightarrow> pyval option \<Rightarrow> string option \<Rightarrow>
    (registry, user_row) action" where
  "ensure_mapping_sync now user_id p0 primary_override b0 g =
     (let u = py_strip user_id; p = normalized_profile p0; b = bot_of b0 g in
      if u = [] then (Inl (ValueError ''user_id''), g)
      else
        (let hit = (case map_of (ic_by_user (rg_cache g)) u of
                      Some m \<Rightarrow> if profile_matches p m then Some m else None
                    | None \<Rightarrow> None)
         in case hit of
              Some m \<Rightarrow>
                bnd (when_do (b \<noteq> [] \<and> (b, u) \<notin> set (ic_seen (rg_cache g))) (touch_bot_user b u now))
                  (\<lambda>_. bnd (modify (on_cache (cache_touch m))) (\<lambda>_. ret m)) g
            | None \<Rightarrow>
                (case ensure_in_db u p primary_override b now (rg_db g) of
                   Inl x \<Rightarrow> (Inl x, g)
                 | Inr (r, conflict, db) \<Rightarrow>
                     (let g1 = remember_if b u (on_cache (cache_put r) (g\<lparr>rg_db := db\<rparr>))
                      in (Inr r, if conflict then sync_warning (py_strip (rg_bot_id g1)) g1 else g1)))))"

text \<open>The items of \<open>ensure_mappings_sync\<close>: an item without a user id is dropped.\<close>

definition normalized_item :: "entry \<Rightarrow> (string \<times> profile) option" where
  "normalized_item e =
     (let u = str_field e ''user_id'' in
      if u = [] then None
      else Some (u, \<lparr>pf_username = str_field e ''username'', pf_nickname = str_field e ''nickname'',
                     pf_is_bot = truthy (dget_or e ''is_bot'' (PBool False)),
                     pf_synthetic = truthy (dget_or e ''synthetic'' (PBool False))\<rparr>))"

fun cache_all :: "string \<Rightarrow> user_row list \<Rightarrow> registry \<Rightarrow> registry" where
  "cache_all b [] g = g"
| "cache_all b (r # rs) g = cache_all b rs (remember_if b (ur_user_id r) (on_cache (cache_put r) g))"

definition ensure_mappings_sync :: "rat \<Rightarrow> entry list \<Rightarrow> string option \<Rightarrow> (registry, user_row list) action" where
  "ensure_mappings_sync now items b0 g =
     (let b = bot_of b0 g; its = List.map_filter normalized_item items in
      if its = [] then (Inr [], g)
      else (case ensure_all_in_db its b now (rg_db g) of
              Inl x \<Rightarrow> (Inl x, g)
            | Inr (rs, conflict, db) \<Rightarrow>
                (let g1 = cache_all b rs (g\<lparr>rg_db := db\<rparr>)
                 in (Inr rs, if conflict then sync_warning (py_strip (rg_bot_id g1)) g1 else g1))))"

definition get_by_user_id :: "string \<Rightarrow> (registry, user_row option) action" where
  "get_by_user_id user_id g =
     (let u = py_strip user_id in
      if u = [] then (Inr None, g)
      else (case map_of (ic_by_user (rg_cache g)) u of
              Some m \<Rightarrow> (Inr (Some m), on_cache (cache_touch m) g)
            | None \<Rightarrow>
                (case row_by_user (rg_db g) u of
                   None \<Rightarrow> (Inr None, g)
                 | Some r \<Rightarrow> (Inr (Some r), on_cache (cache_put r) g))))"

text \<open>
  \<open>get_by_onebot_id_sync\<close>: a cached user id whose mapping is no longer cached answers
  \<open>None\<close> without asking the database.
\<close>

definition get_by_onebot_id_sync :: "pyval \<Rightarrow> (registry, user_row option) action" where
  "get_by_onebot_id_sync v g =
     (case py_int v of
        Inl _ \<Rightarrow> (Inr None, g)
      | Inr i \<Rightarrow>
          (let from_db =
             (case row_by_onebot (rg_db g) i of
                None \<Rightarrow> (Inr None, g)
              | Some r \<Rightarrow> (Inr (Some r), on_cache (cache_put r) g))
           in case map_of (ic_by_onebot (rg_cache g)) i of
                None \<Rightarrow> from_db
              | Some u \<Rightarrow>
                  (if u = [] then from_db
                   else (case map_of (ic_by_user (rg_cache g)) u of
                           None \<Rightarrow> (Inr None, g)
                         | Some m \<Rightarrow> (Inr (Some m), on_cache (cache_touch m) g)))))"

definition get_by_onebot_id :: "pyval \<Rightarrow> (registry, user_row option) action" where
  "get_by_onebot_id v g =
     (case validate_onebot_user_id v of
        Inl _ \<Rightarrow> (Inr None, g)
      | Inr i \<Rightarrow>
          (case map_of (ic_by_onebot (rg_cache g)) i of
             None \<Rightarrow> get_by_onebot_id_sync v g
           | Some u \<Rightarrow>
               (case map_of (ic_by_user (rg_cache g)) u of
                  None \<Rightarrow> get_by_onebot_id_sync v g
                | Some m \<Rightarrow> (Inr (Some m), on_cache (cache_touch m) g))))"

section \<open>Administration\<close>

definition identity_revision_error :: exn where
  "identity_revision_error = OtherError ''UserIdentityRevisionError'' ''stale''"

definition identity_conflict_error :: exn where
  "identity_conflict_error = OtherError ''UserIdentityConflictError'' ''occupied''"

text \<open>The row an administrator's request is about: known to the bot, at the stated revision.\<close>

definition admin_row :: "identity_db \<Rightarrow> string \<Rightarrow> string \<Rightarrow> int \<Rightarrow> exn + user_row" where
  "admin_row db b u revision =
     (case row_by_user db u of
        None \<Rightarrow> Inl (identity_error ''not found'')
      | Some r \<Rightarrow>
          if \<not> knows db b u then Inl (identity_error ''not found'')
          else if ur_revision r \<noteq> revision then Inl identity_revision_error
          else Inr r)"

definition resolve_conflicts :: "(conflict_row \<Rightarrow> bool) \<Rightarrow> rat \<Rightarrow> identity_db \<Rightarrow> int \<times> identity_db" where
  "resolve_conflicts P now db =
     (int (length (filter (\<lambda>c. cf_active c \<and> P c) (db_conflicts db))),
      db\<lparr>db_conflicts := map (\<lambda>c. if cf_active c \<and> P c then c\<lparr>cf_active := False, cf_resolved := Some now\<rparr> else c)
           (db_conflicts db)\<rparr>)"

fun add_primary_conflicts :: "user_row \<Rightarrow> int \<Rightarrow> rat \<Rightarrow> user_row list \<Rightarrow> identity_db \<Rightarrow> identity_db" where
  "add_primary_conflicts r i now [] db = db"
| "add_primary_conflicts r i now (o1 # os) db =
     add_primary_conflicts r i now os
       (insert_conflict i (ur_user_id o1) (ur_user_id r) i (compute_probe_offset (ur_primary r) i)
          ''manual_primary_collision'' now db)"

definition primary_owners :: "identity_db \<Rightarrow> int \<Rightarrow> string \<Rightarrow> user_row list" where
  "primary_owners db i u = sort_key ur_first_seen (sort_key ur_user_id
     (filter (\<lambda>r. ur_primary r = i \<and> ur_user_id r \<noteq> u) (db_users db)))"

definition override_in_db :: "string \<Rightarrow> string \<Rightarrow> int \<Rightarrow> int \<Rightarrow> rat \<Rightarrow> identity_db \<Rightarrow>
    exn + (user_row \<times> int \<times> int \<times> identity_db)" where
  "override_in_db b u i revision now db =
     sbind (admin_row db b u revision) (\<lambda>r.
       if \<exists>x \<in> set (db_users db). ur_onebot x = i \<and> ur_user_id x \<noteq> u then Inl identity_conflict_error
       else
         (let upd = (\<lambda>x. x\<lparr>ur_onebot := i, ur_offset := compute_probe_offset (ur_primary r) i,
                           ur_manual := True, ur_last_seen := now, ur_revision := ur_revision r + 1\<rparr>);
              db1 = update_user u upd db;
              (resolved, db2) = resolve_conflicts (\<lambda>c. cf_displaced c = u) now db1;
              owners = primary_owners db2 i u
          in Inr (upd r, resolved, int (length owners), add_primary_conflicts r i now owners db2)))"

definition override_onebot_id_sync :: "rat \<Rightarrow> string \<Rightarrow> string \<Rightarrow> pyval \<Rightarrow> int \<Rightarrow>
    (registry, user_row \<times> int \<times> int) action" where
  "override_onebot_id_sync now bot_id user_id v revision g =
     (let b = py_strip bot_id; u = py_strip user_id in
      case validate_onebot_user_id v of
        Inl x \<Rightarrow> (Inl x, g)
      | Inr i \<Rightarrow>
          (case override_in_db b u i revision now (rg_db g) of
             Inl x \<Rightarrow> (Inl x, g)
           | Inr (r, resolved, created, db) \<Rightarrow>
               (let previous = (case row_by_user (rg_db g) u of None \<Rightarrow> 0 | Some x \<Rightarrow> ur_onebot x);
                    g1 = on_cache (remember_bot_user b u) (g\<lparr>rg_db := db\<rparr>);
                    g2 = on_cache (\<lambda>c. c\<lparr>ic_by_onebot := AList.delete previous (ic_by_onebot c)\<rparr>) g1;
                    g3 = on_cache (cache_put r) g2
                in (Inr (r, resolved, created), sync_warning b g3))))"

definition delete_in_db :: "string \<Rightarrow> string \<Rightarrow> int \<Rightarrow> rat \<Rightarrow> identity_db \<Rightarrow> exn + (user_row \<times> int \<times> identity_db)" where
  "delete_in_db b u revision now db =
     sbind (admin_row db b u revision) (\<lambda>r.
       (let (resolved, db1) = resolve_conflicts (\<lambda>c. cf_incumbent c = u \<or> cf_displaced c = u) now db;
            db2 = db1\<lparr>db_users := filter (\<lambda>x. ur_user_id x \<noteq> u) (db_users db1),
                      db_bot_users := filter (\<lambda>((_, x), _). x \<noteq> u) (db_bot_users db1)\<rparr>
        in Inr (r, resolved, db2)))"

definition delete_mapping_sync :: "rat \<Rightarrow> string \<Rightarrow> string \<Rightarrow> int \<Rightarrow> (registry, user_row \<times> int) action" where
  "delete_mapping_sync now bot_id user_id revision g =
     (let b = py_strip bot_id; u = py_strip user_id in
      case delete_in_db b u revision now (rg_db g) of
        Inl x \<Rightarrow> (Inl x, g)
      | Inr (r, resolved, db) \<Rightarrow>
          (let g1 = on_cache (\<lambda>c. (invalidate_cache (Some u) c)\<lparr>ic_seen :=
                      filter (\<lambda>(_, x). x \<noteq> u) (ic_seen (invalidate_cache (Some u) c))\<rparr>) (g\<lparr>rg_db := db\<rparr>)
           in (Inr (r, resolved), sync_warning b g1)))"

section \<open>Linear probing\<close>

definition in_range :: "int \<Rightarrow> bool" where
  "in_range i \<longleftrightarrow> user_id_min \<le> i \<and> i \<le> user_id_max"

definition slot :: "int \<Rightarrow> int \<Rightarrow> int" where
  "slot primary k = user_id_min + (primary - user_id_min + k) mod user_id_table_size"

lemma table_pos [simp]: "0 < user_id_table_size"
  by (simp add: user_id_bounds)

lemma slot_in_range [simp]: "in_range (slot p k)"
proof -
  have "0 \<le> (p - user_id_min + k) mod user_id_table_size"
    "(p - user_id_min + k) mod user_id_table_size < user_id_table_size"
    by (simp_all add: user_id_bounds)
  then show ?thesis
    by (simp add: in_range_def slot_def user_id_bounds)
qed

lemma slot_0 [simp]: "in_range p \<Longrightarrow> slot p 0 = p"
  by (simp add: slot_def in_range_def user_id_bounds)

lemma offset_slot: "0 \<le> k \<Longrightarrow> k < user_id_table_size \<Longrightarrow> compute_probe_offset p (slot p k) = k"
proof -
  assume k: "0 \<le> k" "k < user_id_table_size"
  have "((p - user_id_min + k) mod user_id_table_size - (p - user_id_min)) mod user_id_table_size
      = (p - user_id_min + k - (p - user_id_min)) mod user_id_table_size"
    by (rule mod_diff_left_eq)
  with k show ?thesis
    by (simp add: compute_probe_offset_def slot_def)
qed

lemma offset_same [simp]: "compute_probe_offset p p = 0"
  by (simp add: compute_probe_offset_def)

lemma compute_primary_in_range: "compute_primary_onebot_id u = Inr i \<Longrightarrow> in_range i"
proof -
  assume "compute_primary_onebot_id u = Inr i"
  then obtain n where i: "i = user_id_min + n mod user_id_table_size"
    by (auto simp: compute_primary_onebot_id_def Let_def split: if_splits)
  have "0 \<le> n mod user_id_table_size" "n mod user_id_table_size < user_id_table_size"
    by (simp_all add: user_id_bounds)
  with i show ?thesis by (simp add: in_range_def user_id_bounds)
qed

lemma validate_in_range: "validate_onebot_user_id v = Inr i \<Longrightarrow> in_range i \<and> py_int v = Inr i"
  by (auto simp: validate_onebot_user_id_def in_range_def split: sum.splits if_splits)

text \<open>The loop stops at the first free slot after the primary one, or finds none at all.\<close>

lemma probe_spec:
  "onebot = slot p offset \<Longrightarrow> 0 \<le> offset \<Longrightarrow> offset < user_id_table_size \<Longrightarrow>
   (case probe db p onebot offset inc of
      Inr (i, k, inc') \<Rightarrow> i = slot p k \<and> offset \<le> k \<and> k < user_id_table_size \<and> row_by_onebot db i = None
        \<and> (\<forall>j. offset \<le> j \<and> j < k \<longrightarrow> row_by_onebot db (slot p j) \<noteq> None)
        \<and> inc' = (if offset = 0 \<and> 0 < k then row_by_onebot db onebot else inc)
    | Inl _ \<Rightarrow> \<forall>j. offset \<le> j \<and> j < user_id_table_size \<longrightarrow> row_by_onebot db (slot p j) \<noteq> None)"
proof (induction db p onebot offset inc rule: probe.induct)
  case (1 db p onebot offset inc)
  show ?case
  proof (cases "row_by_onebot db onebot")
    case None
    with "1.prems" show ?thesis by (subst probe.simps) auto
  next
    case (Some r)
    let ?inc = "if offset = 0 then Some r else inc"
    show ?thesis
    proof (cases "offset + 1 \<ge> user_id_table_size")
      case True
      have occ: "row_by_onebot db (slot p j) \<noteq> None" if "offset \<le> j" "j < user_id_table_size" for j
      proof -
        have "j = offset" using True that by linarith
        with Some "1.prems"(1) show ?thesis by simp
      qed
      have "probe db p onebot offset inc = Inl (identity_error ''exhausted'')"
        using True Some by (subst probe.simps) simp
      with occ show ?thesis by simp
    next
      case False
      have step: "probe db p onebot offset inc = probe db p (slot p (offset + 1)) (offset + 1) ?inc"
        using Some False by (subst probe.simps) (simp add: slot_def Let_def)
      have eq: "user_id_min + (p - user_id_min + (offset + 1)) mod user_id_table_size = slot p (offset + 1)"
        by (simp add: slot_def)
      have ih: "case probe db p (slot p (offset + 1)) (offset + 1) ?inc of
          Inr (i, k, inc') \<Rightarrow> i = slot p k \<and> offset + 1 \<le> k \<and> k < user_id_table_size \<and> row_by_onebot db i = None
            \<and> (\<forall>j. offset + 1 \<le> j \<and> j < k \<longrightarrow> row_by_onebot db (slot p j) \<noteq> None)
            \<and> inc' = (if offset + 1 = 0 \<and> 0 < k then row_by_onebot db (slot p (offset + 1)) else ?inc)
        | Inl _ \<Rightarrow> \<forall>j. offset + 1 \<le> j \<and> j < user_id_table_size \<longrightarrow> row_by_onebot db (slot p j) \<noteq> None"
      proof (rule "1.IH" [OF Some refl refl False, unfolded eq, OF refl])
        show "0 \<le> offset + 1" "offset + 1 < user_id_table_size"
          using "1.prems"(2) False by simp_all
      qed
      have split: "offset \<le> j \<longleftrightarrow> j = offset \<or> offset + 1 \<le> j" for j :: int by auto
      have so: "row_by_onebot db (slot p offset) \<noteq> None"
        using Some "1.prems"(1) by simp
      show ?thesis
      proof (cases "probe db p (slot p (offset + 1)) (offset + 1) ?inc")
        case (Inl x)
        with ih have "row_by_onebot db (slot p j) \<noteq> None" if "offset + 1 \<le> j" "j < user_id_table_size" for j
          using that by simp
        then have "\<forall>j. offset \<le> j \<and> j < user_id_table_size \<longrightarrow> row_by_onebot db (slot p j) \<noteq> None"
          using so split by metis
        then show ?thesis unfolding step Inl by simp
      next
        case (Inr t)
        obtain i k inc' where t: "t = (i, k, inc')" by (cases t)
        with ih Inr have h: "i = slot p k" "offset + 1 \<le> k" "k < user_id_table_size" "row_by_onebot db i = None"
          "\<forall>j. offset + 1 \<le> j \<and> j < k \<longrightarrow> row_by_onebot db (slot p j) \<noteq> None" "inc' = ?inc"
          using "1.prems"(2) by auto
        have "\<forall>j. offset \<le> j \<and> j < k \<longrightarrow> row_by_onebot db (slot p j) \<noteq> None"
          using h(5) so split by metis
        with h Some "1.prems"(2) t show ?thesis unfolding step Inr by auto
      qed
    qed
  qed
qed

lemma slot_inj: "inj_on (slot p) {0..<user_id_table_size}"
proof (rule inj_onI)
  fix j k assume "j \<in> {0..<user_id_table_size}" "k \<in> {0..<user_id_table_size}" "slot p j = slot p k"
  then show "j = k" by (metis atLeastLessThan_iff offset_slot)
qed

lemma row_by_onebot_Some: "row_by_onebot db i = Some r \<Longrightarrow> r \<in> set (db_users db) \<and> ur_onebot r = i"
  by (auto simp: row_by_onebot_def find_Some_iff)

lemma row_by_user_Some: "row_by_user db u = Some r \<Longrightarrow> r \<in> set (db_users db) \<and> ur_user_id r = u"
  by (auto simp: row_by_user_def find_Some_iff)

lemma row_by_onebot_None: "row_by_onebot db i = None \<longleftrightarrow> i \<notin> ur_onebot ` set (db_users db)"
  by (auto simp: row_by_onebot_def find_None_iff)

lemma row_by_user_None: "row_by_user db u = None \<longleftrightarrow> u \<notin> ur_user_id ` set (db_users db)"
  by (auto simp: row_by_user_def find_None_iff)

lemma probe_total:
  assumes "int (length (db_users db)) < user_id_table_size" "in_range p"
  shows "\<exists>i k inc. probe db p p 0 None = Inr (i, k, inc)"
proof (rule ccontr)
  assume "\<not> ?thesis"
  then obtain x where "probe db p p 0 None = Inl x"
    by (cases "probe db p p 0 None") auto
  with probe_spec [of p p 0 db None] assms(2)
  have "\<forall>j. 0 \<le> j \<and> j < user_id_table_size \<longrightarrow> row_by_onebot db (slot p j) \<noteq> None"
    by (simp add: user_id_bounds)
  then have "slot p ` {0..<user_id_table_size} \<subseteq> ur_onebot ` set (db_users db)"
    by (auto simp: row_by_onebot_None)
  then have "card (slot p ` {0..<user_id_table_size}) \<le> card (ur_onebot ` set (db_users db))"
    by (rule card_mono [rotated]) simp
  also have "\<dots> \<le> length (db_users db)"
    by (meson card_image_le card_length finite_set order_trans)
  finally have "nat user_id_table_size \<le> length (db_users db)"
    using card_image [OF slot_inj, of p] by simp
  with assms(1) show False by linarith
qed

section \<open>The database invariant\<close>

text \<open>
  User ids and OneBot ids are unique, every id has eleven digits, the stored offset is the
  distance from the primary id, and both \<open>bot_users\<close> and the active conflicts speak of
  existing users only.
\<close>

definition row_ok :: "user_row \<Rightarrow> bool" where
  "row_ok r \<longleftrightarrow> in_range (ur_onebot r) \<and> in_range (ur_primary r)
     \<and> ur_offset r = compute_probe_offset (ur_primary r) (ur_onebot r)"

definition user_ids :: "identity_db \<Rightarrow> string set" where
  "user_ids db = ur_user_id ` set (db_users db)"

definition db_ok :: "identity_db \<Rightarrow> bool" where
  "db_ok db \<longleftrightarrow> distinct (map ur_user_id (db_users db)) \<and> distinct (map ur_onebot (db_users db))
     \<and> (\<forall>r \<in> set (db_users db). row_ok r)
     \<and> (\<forall>b \<in> set (db_bot_users db). snd (fst b) \<in> user_ids db)
     \<and> (\<forall>c \<in> set (db_conflicts db). cf_active c \<longrightarrow> cf_incumbent c \<in> user_ids db \<and> cf_displaced c \<in> user_ids db)"

lemma db_okD:
  assumes "db_ok db"
  shows "distinct (map ur_user_id (db_users db))" "distinct (map ur_onebot (db_users db))"
    "r \<in> set (db_users db) \<Longrightarrow> row_ok r"
    "b \<in> set (db_bot_users db) \<Longrightarrow> snd (fst b) \<in> user_ids db"
    "c \<in> set (db_conflicts db) \<Longrightarrow> cf_active c \<Longrightarrow> cf_incumbent c \<in> user_ids db \<and> cf_displaced c \<in> user_ids db"
  using assms by (auto simp: db_ok_def)

lemma find_unique:
  assumes "distinct (map f xs)" "x \<in> set xs"
  shows "find (\<lambda>y. f y = f x) xs = Some x"
  using assms by (induction xs) auto

lemma row_by_user_mem: "db_ok db \<Longrightarrow> r \<in> set (db_users db) \<Longrightarrow> row_by_user db (ur_user_id r) = Some r"
  unfolding row_by_user_def by (rule find_unique) (auto dest: db_okD)

lemma row_by_onebot_mem: "db_ok db \<Longrightarrow> r \<in> set (db_users db) \<Longrightarrow> row_by_onebot db (ur_onebot r) = Some r"
  unfolding row_by_onebot_def by (rule find_unique) (auto dest: db_okD)

text \<open>Users and OneBot ids are in one-to-one correspondence.\<close>

lemma row_iff:
  assumes "db_ok db"
  shows "row_by_onebot db i = Some r \<longleftrightarrow> row_by_user db (ur_user_id r) = Some r \<and> ur_onebot r = i"
proof
  assume "row_by_onebot db i = Some r"
  from row_by_onebot_Some [OF this] row_by_user_mem [OF assms, of r]
  show "row_by_user db (ur_user_id r) = Some r \<and> ur_onebot r = i" by simp
next
  assume a: "row_by_user db (ur_user_id r) = Some r \<and> ur_onebot r = i"
  then have "row_by_user db (ur_user_id r) = Some r" by simp
  from row_by_user_Some [OF this] row_by_onebot_mem [OF assms, of r] a
  show "row_by_onebot db i = Some r" by simp
qed

lemma update_user_users: "db_users (update_user u f db) = map (\<lambda>r. if ur_user_id r = u then f r else r) (db_users db)"
  by (simp add: update_user_def)

lemma update_user_other:
  "db_bot_users (update_user u f db) = db_bot_users db" "db_conflicts (update_user u f db) = db_conflicts db"
  by (simp_all add: update_user_def)

lemma update_user_rows: "set (db_users (update_user u f db)) = (\<lambda>r. if ur_user_id r = u then f r else r) ` set (db_users db)"
  by (simp add: update_user_def)

lemma update_user_ok:
  assumes ok: "db_ok db" and r: "row_by_user db u = Some r" and f: "ur_user_id (f r) = u" "row_ok (f r)"
    and free: "\<forall>x \<in> set (db_users db). ur_user_id x \<noteq> u \<longrightarrow> ur_onebot x \<noteq> ur_onebot (f r)"
  shows "db_ok (update_user u f db)"
    "row_by_user (update_user u f db) v = (if v = u then Some (f r) else row_by_user db v)"
    "user_ids (update_user u f db) = user_ids db"
proof -
  let ?g = "\<lambda>x. if ur_user_id x = u then f x else x"
  have only: "x = r" if "x \<in> set (db_users db)" "ur_user_id x = u" for x
    using row_by_user_mem [OF ok that(1)] that(2) r by simp
  have g: "?g x = (if x = r then f r else x)" "ur_user_id (?g x) = ur_user_id x" if "x \<in> set (db_users db)" for x
  proof -
    have ru: "ur_user_id r = u" using row_by_user_Some [OF r] by simp
    show "?g x = (if x = r then f r else x)"
      using only [OF that] ru by (cases "x = r") auto
    show "ur_user_id (?g x) = ur_user_id x"
    proof (cases "ur_user_id x = u")
      case True
      with only [OF that] f(1) show ?thesis by simp
    qed simp
  qed
  have ids: "map ur_user_id (map ?g (db_users db)) = map ur_user_id (db_users db)"
    using g(2) by simp
  have "set (map ur_user_id (map ?g (db_users db))) = set (map ur_user_id (db_users db))"
    by (simp only: ids)
  then show uids: "user_ids (update_user u f db) = user_ids db"
    by (simp only: user_ids_def update_user_users set_map)
  have inj: "inj_on ur_onebot (set (map ?g (db_users db)))"
  proof (rule inj_onI)
    fix x y assume "x \<in> set (map ?g (db_users db))" "y \<in> set (map ?g (db_users db))" and e: "ur_onebot x = ur_onebot y"
    then obtain x' y' where x': "x' \<in> set (db_users db)" "x = (if x' = r then f r else x')"
      and y': "y' \<in> set (db_users db)" "y = (if y' = r then f r else y')"
      using g(1) by auto
    have ne: "ur_onebot z \<noteq> ur_onebot (f r)" if "z \<in> set (db_users db)" "z \<noteq> r" for z
      using only [OF that(1)] free that by blast
    have xr: "x' = r \<Longrightarrow> x = f r" "x' \<noteq> r \<Longrightarrow> x = x'" and yr: "y' = r \<Longrightarrow> y = f r" "y' \<noteq> r \<Longrightarrow> y = y'"
      using x'(2) y'(2) by (simp_all only: if_True if_False simp_thms)
    consider "x' = r" "y' = r" | "x' = r" "y' \<noteq> r" | "x' \<noteq> r" "y' = r" | "x' \<noteq> r" "y' \<noteq> r"
      by blast
    then show "x = y"
    proof cases
      case 1
      then show ?thesis using xr(1) yr(1) by blast
    next
      case 2
      then show ?thesis using ne [OF y'(1)] e unfolding xr(1) [OF 2(1)] yr(2) [OF 2(2)] by (metis 2(2))
    next
      case 3
      then show ?thesis using ne [OF x'(1)] e unfolding xr(2) [OF 3(1)] yr(1) [OF 3(2)] by (metis 3(1))
    next
      case 4
      have "ur_onebot x' = ur_onebot y'"
        using e unfolding xr(2) [OF 4(1)] yr(2) [OF 4(2)] .
      then have "Some x' = Some y'"
        using row_by_onebot_mem [OF ok x'(1)] row_by_onebot_mem [OF ok y'(1)] by metis
      then show ?thesis using xr(2) [OF 4(1)] yr(2) [OF 4(2)] by simp
    qed
  qed
  have "distinct (map ?g (db_users db))"
    using db_okD(1) [OF ok] unfolding ids [symmetric] distinct_map by blast
  with inj have "distinct (map ur_onebot (map ?g (db_users db)))"
    by (simp only: distinct_map)
  moreover have "\<forall>x \<in> set (map ?g (db_users db)). row_ok x"
    using g(1) f(2) db_okD(3) [OF ok] by auto
  ultimately show ok': "db_ok (update_user u f db)"
    using ok unfolding db_ok_def update_user_users uids ids update_user_other by blast
  have r': "r \<in> set (db_users db)" "ur_user_id r = u" using row_by_user_Some [OF r] by auto
  show "row_by_user (update_user u f db) v = (if v = u then Some (f r) else row_by_user db v)"
  proof (cases "v = u")
    case True
    have "f r \<in> set (db_users (update_user u f db))"
      using r' by (auto simp: update_user_rows image_iff)
    from row_by_user_mem [OF ok' this] f(1) True show ?thesis by simp
  next
    case False
    show ?thesis
    proof (cases "row_by_user db v")
      case None
      then have "row_by_user (update_user u f db) v = None"
        using uids unfolding row_by_user_None user_ids_def by blast
      with False None show ?thesis by simp
    next
      case (Some x)
      then have "x \<in> set (db_users db)" "ur_user_id x = v" using row_by_user_Some by auto
      then have "x \<in> set (db_users (update_user u f db))"
        using False by (auto simp: update_user_rows image_iff)
      from row_by_user_mem [OF ok' this] \<open>ur_user_id x = v\<close> False Some show ?thesis by simp
    qed
  qed
qed

lemma upsert_if_users [simp]:
  "db_users (upsert_if b u now db) = db_users db" "db_conflicts (upsert_if b u now db) = db_conflicts db"
  "row_by_user (upsert_if b u now db) v = row_by_user db v"
  "row_by_onebot (upsert_if b u now db) i = row_by_onebot db i"
  "user_ids (upsert_if b u now db) = user_ids db"
  by (simp_all add: upsert_if_def upsert_bot_user_def row_by_user_def row_by_onebot_def user_ids_def)

lemma upsert_if_ok:
  assumes "db_ok db" "u \<in> user_ids db"
  shows "db_ok (upsert_if b u now db)"
proof -
  have "snd (fst x) \<in> user_ids db" if "x \<in> set (AList.update (b, u) now (db_bot_users db))" for x
  proof -
    have "set (AList.update k v al) \<subseteq> insert (k, v) (set al)" for k v and al :: "((string \<times> string) \<times> rat) list"
      by (induction al) auto
    with that have "x \<in> insert ((b, u), now) (set (db_bot_users db))" by blast
    then show ?thesis using assms(2) db_okD(4) [OF assms(1), of x] by auto
  qed
  with assms show ?thesis
    by (auto simp: db_ok_def upsert_if_def upsert_bot_user_def user_ids_def)
qed

lemma insert_conflict_users [simp]:
  "db_users (insert_conflict p a b c d e f db) = db_users db"
  "db_bot_users (insert_conflict p a b c d e f db) = db_bot_users db"
  "row_by_user (insert_conflict p a b c d e f db) v = row_by_user db v"
  "row_by_onebot (insert_conflict p a b c d e f db) i = row_by_onebot db i"
  "user_ids (insert_conflict p a b c d e f db) = user_ids db"
  by (simp_all add: insert_conflict_def Let_def row_by_user_def row_by_onebot_def user_ids_def)

lemma insert_conflict_ok:
  "db_ok db \<Longrightarrow> a \<in> user_ids db \<Longrightarrow> b \<in> user_ids db \<Longrightarrow> db_ok (insert_conflict p a b c d e f db)"
  by (auto simp: db_ok_def insert_conflict_def Let_def user_ids_def)

text \<open>
  \<open>ensure_in_db\<close> succeeds for a usable id while the table is not full, keeps the invariant,
  returns the row that is then stored, keeps the OneBot id of a known user and touches no
  other user.
\<close>

lemma touch_profile_fields [simp]:
  "ur_user_id (touch_profile p now r) = ur_user_id r" "ur_onebot (touch_profile p now r) = ur_onebot r"
  "ur_primary (touch_profile p now r) = ur_primary r" "ur_offset (touch_profile p now r) = ur_offset r"
  by (simp_all add: touch_profile_def Let_def)

lemma insert_user_ok:
  assumes ok: "db_ok db" and new: "row_by_user db u = None" and p: "in_range primary"
    and i: "insert_user u pf primary now db = Inr (c, db')"
  shows "db_ok db' \<and> (\<exists>k. row_by_user db' u = Some (new_row u pf (slot primary k) primary k now)
      \<and> 0 \<le> k \<and> k < user_id_table_size \<and> row_by_onebot db (slot primary k) = None
      \<and> (\<forall>j. 0 \<le> j \<and> j < k \<longrightarrow> row_by_onebot db (slot primary j) \<noteq> None) \<and> (c \<longleftrightarrow> 0 < k))
    \<and> (\<forall>v. v \<noteq> u \<longrightarrow> row_by_user db' v = row_by_user db v)
    \<and> length (db_users db') = Suc (length (db_users db))
    \<and> db_bot_users db' = db_bot_users db \<and> user_ids db' = insert u (user_ids db)"
proof -
  from i obtain onebot k inc where pr: "probe db primary primary 0 None = Inr (onebot, k, inc)"
    by (cases "probe db primary primary 0 None") (auto simp: insert_user_def)
  let ?r = "new_row u pf onebot primary k now"
  let ?db = "db\<lparr>db_users := db_users db @ [?r]\<rparr>"
  have "onebot = slot primary k \<and> 0 \<le> k \<and> k < user_id_table_size \<and> row_by_onebot db onebot = None
    \<and> (\<forall>j. 0 \<le> j \<and> j < k \<longrightarrow> row_by_onebot db (slot primary j) \<noteq> None)
    \<and> inc = (if 0 < k then row_by_onebot db primary else None)"
    using probe_spec [of primary primary 0 db None, unfolded pr] p table_pos by (simp; clarify)
  then have k: "onebot = slot primary k" "0 \<le> k" "k < user_id_table_size" "row_by_onebot db onebot = None"
    "\<forall>j. 0 \<le> j \<and> j < k \<longrightarrow> row_by_onebot db (slot primary j) \<noteq> None"
    "inc = (if 0 < k then row_by_onebot db primary else None)"
    by blast+
  have rok: "row_ok ?r"
    using k(1,2,3) p by (simp add: row_ok_def new_row_def offset_slot)
  have un: "u \<notin> ur_user_id ` set (db_users db)" and on: "onebot \<notin> ur_onebot ` set (db_users db)"
    using new k(4) by (simp_all add: row_by_user_None row_by_onebot_None)
  have uids: "user_ids ?db = insert u (user_ids db)"
    by (simp add: user_ids_def new_row_def)
  have okdb: "db_ok ?db"
    using ok un on rok uids by (auto simp: db_ok_def new_row_def)
  have find_append: "find P (xs @ [x]) = (case find P xs of None \<Rightarrow> if P x then Some x else None | Some y \<Rightarrow> Some y)"
    for P xs and x :: user_row
    by (induction xs) auto
  have row: "row_by_user ?db u = Some ?r" "v \<noteq> u \<Longrightarrow> row_by_user ?db v = row_by_user db v" for v
    using new by (auto simp: row_by_user_def find_append new_row_def split: option.split)
  show ?thesis
  proof (cases "0 < k")
    case False
    with k(2,6) have "k = 0" "inc = None" by simp_all
    with i pr k row okdb uids show ?thesis by (auto simp: insert_user_def Let_def)
  next
    case True
    then have "row_by_onebot db (slot primary 0) \<noteq> None" using k(5) by simp
    then obtain x where x: "row_by_onebot db primary = Some x" using p by auto
    then have "ur_user_id x \<in> user_ids ?db" "u \<in> user_ids ?db"
      using uids row_by_onebot_Some [OF x] by (auto simp: user_ids_def)
    note ins = insert_conflict_ok [OF okdb this]
    have "c" "db' = insert_conflict primary (ur_user_id x) u onebot k ''hash_collision'' now ?db"
      using i pr k(6) x True by (simp_all add: insert_user_def Let_def)
    with ins row uids k True show ?thesis by auto
  qed
qed

lemma ensure_in_db_known:
  assumes ok: "db_ok db" and r: "row_by_user db u = Some r"
  shows "\<exists>db'. ensure_in_db u p ov b now db = Inr (touch_profile p now r, False, db') \<and> db_ok db'
    \<and> (\<forall>v. row_by_user db' v = (if v = u then Some (touch_profile p now r) else row_by_user db v))
    \<and> length (db_users db') = length (db_users db) \<and> user_ids db' = user_ids db
    \<and> (b \<noteq> [] \<longrightarrow> knows db' b u)"
proof -
  let ?db = "update_user u (touch_profile p now) db"
  have m: "r \<in> set (db_users db)" "ur_user_id r = u" using row_by_user_Some [OF r] by auto
  have f: "ur_user_id (touch_profile p now r) = u" "row_ok (touch_profile p now r)"
    using m db_okD(3) [OF ok] by (auto simp: row_ok_def)
  have free: "\<forall>x \<in> set (db_users db). ur_user_id x \<noteq> u \<longrightarrow> ur_onebot x \<noteq> ur_onebot (touch_profile p now r)"
  proof (intro ballI impI notI)
    fix x assume x: "x \<in> set (db_users db)" "ur_user_id x \<noteq> u" "ur_onebot x = ur_onebot (touch_profile p now r)"
    then have "ur_onebot x = ur_onebot r" by simp
    then have "Some x = Some r"
      using row_by_onebot_mem [OF ok x(1)] row_by_onebot_mem [OF ok m(1)] by metis
    with x(2) m(2) show False by blast
  qed
  note upd = update_user_ok [of db u r "touch_profile p now", OF ok r f free]
  have uu: "u \<in> user_ids ?db" using upd(3) m by (auto simp: user_ids_def)
  have len: "length (db_users ?db) = length (db_users db)" by (simp add: update_user_def)
  show ?thesis
  proof (rule exI [of _ "upsert_if b u now ?db"], intro conjI allI)
    show "db_ok (upsert_if b u now ?db)" by (rule upsert_if_ok [OF upd(1) uu])
    show "ensure_in_db u p ov b now db = Inr (touch_profile p now r, False, upsert_if b u now ?db)"
      using r by (simp add: ensure_in_db_def Let_def)
    show "b \<noteq> [] \<longrightarrow> knows (upsert_if b u now ?db) b u"
      by (simp add: knows_def upsert_if_def upsert_bot_user_def)
  qed (simp_all add: upd(2,3) len)
qed

lemma ensure_in_db_new:
  assumes ok: "db_ok db" and new: "row_by_user db u = None"
    and e: "ensure_in_db u p ov b now db = Inr (r, c, db')"
  shows "db_ok db' \<and> row_by_user db' u = Some r \<and> ur_user_id r = u
    \<and> (\<forall>v. v \<noteq> u \<longrightarrow> row_by_user db' v = row_by_user db v)
    \<and> length (db_users db') = Suc (length (db_users db)) \<and> user_ids db' = insert u (user_ids db)
    \<and> (\<exists>primary k. r = new_row u p (slot primary k) primary k now \<and> 0 \<le> k \<and> k < user_id_table_size
        \<and> in_range primary \<and> (ov = None \<longrightarrow> compute_primary_onebot_id u = Inr primary)
        \<and> row_by_onebot db (slot primary k) = None
        \<and> (\<forall>j. 0 \<le> j \<and> j < k \<longrightarrow> row_by_onebot db (slot primary j) \<noteq> None) \<and> (c \<longleftrightarrow> 0 < k))
    \<and> (b \<noteq> [] \<longrightarrow> knows db' b u)"
proof -
  let ?pr = "case ov of Some v \<Rightarrow> validate_onebot_user_id v | None \<Rightarrow> compute_primary_onebot_id u"
  obtain primary db1 where pr: "?pr = Inr primary" and ins: "insert_user u p primary now db = Inr (c, db1)"
    and db': "db' = upsert_if b u now db1" "row_by_user db' u = Some r"
    using e new by (auto simp: ensure_in_db_def sbind_Inr Let_def split: option.splits)
  have range: "in_range primary"
    using pr compute_primary_in_range validate_in_range by (cases ov) auto
  note i = insert_user_ok [OF ok new range ins]
  have "db_ok db'" unfolding db'(1) using i by (intro upsert_if_ok) auto
  moreover obtain k where "r = new_row u p (slot primary k) primary k now" "0 \<le> k" "k < user_id_table_size"
      "row_by_onebot db (slot primary k) = None"
      "\<forall>j. 0 \<le> j \<and> j < k \<longrightarrow> row_by_onebot db (slot primary j) \<noteq> None" "c \<longleftrightarrow> 0 < k"
    using i db' by auto
  moreover from this have "ur_user_id r = u" by (simp add: new_row_def)
  moreover have "ov = None \<longrightarrow> compute_primary_onebot_id u = Inr primary"
    using pr by auto
  moreover have "b \<noteq> [] \<longrightarrow> knows db' b u"
    by (simp add: db'(1) knows_def upsert_if_def upsert_bot_user_def)
  moreover have "\<forall>v. v \<noteq> u \<longrightarrow> row_by_user db' v = row_by_user db v"
    "length (db_users db') = Suc (length (db_users db))" "user_ids db' = insert u (user_ids db)"
    using i unfolding db'(1) by simp_all
  ultimately show ?thesis
    using db'(2) range by blast
qed

lemma ensure_in_db_total:
  assumes ok: "db_ok db" and u: "py_strip u \<noteq> []" and room: "int (length (db_users db)) < user_id_table_size"
  shows "\<exists>r c db'. ensure_in_db u p None b now db = Inr (r, c, db')"
proof (cases "row_by_user db u")
  case (Some r)
  from ensure_in_db_known [OF ok this] show ?thesis by blast
next
  case None
  from u obtain primary where pr: "compute_primary_onebot_id u = Inr primary"
    by (auto simp: compute_primary_onebot_id_def Let_def)
  note range = compute_primary_in_range [OF pr]
  obtain i k inc where "probe db primary primary 0 None = Inr (i, k, inc)"
    using probe_total [OF room range] by blast
  then have "\<exists>c db1. insert_user u p primary now db = Inr (c, db1)"
    by (cases inc) (auto simp: insert_user_def Let_def)
  then obtain c db1 where ins: "insert_user u p primary now db = Inr (c, db1)" by blast
  from insert_user_ok [OF ok None range ins] obtain r where "row_by_user db1 u = Some r" by blast
  with None pr ins show ?thesis by (simp add: ensure_in_db_def Let_def)
qed

end
