(* ===== verification/Store_Properties.thy ===== *)
theory Store_Properties
  imports Storage Journal
begin

text \<open>
  The properties of the id maps, the message and room stores, the in-memory engine and its
  journal, each with a concrete instance. They rest on the lemmas of the component
  theories and on the facts of the interpreted contracts.
\<close>

section \<open>The JSON id map\<close>

definition allocations :: "(ns \<times> string) list \<Rightarrow> durable_map \<Rightarrow> durable_map" where
  "allocations xs d = fold (\<lambda>(n, k) d. snd (get_or_create (ns_name n) k d)) xs d"

lemma allocations_eq: "allocations xs d = json_ids.alloc_all xs d"
proof (induction xs arbitrary: d)
  case Nil
  then show ?case by (simp add: allocations_def)
next
  case (Cons x xs)
  have "snd (json_alloc n k d) = snd (get_or_create (ns_name n) k d)" for n k
    by (auto simp: json_alloc_def action_defs split: prod.split sum.split)
  with Cons show ?case by (simp add: allocations_def case_prod_beta)
qed

definition fresh_map :: "int \<Rightarrow> durable_map" where
  "fresh_map w = \<lparr>dm_window = w, dm_payload = empty_payload\<rparr>"

lemma fresh_map_ok: "1 \<le> w \<Longrightarrow> durable_inv (fresh_map w)"
  by (simp add: fresh_map_def empty_durable_inv)

lemma get_or_create_other_ns:
  assumes "n \<noteq> NsMessage"
  shows "forward (dm_payload (snd (get_or_create (ns_name n) k d))) NsMessage = forward (dm_payload d) NsMessage"
    "counters (dm_payload (snd (get_or_create (ns_name n) k d))) NsMessage = counters (dm_payload d) NsMessage"
  using assms by (auto simp: get_or_create_def Let_def split: option.split)

lemma get_or_create_known:
  "map_of (forward (dm_payload d) n) k = Some i \<Longrightarrow> snd (get_or_create (ns_name n) k d) = d"
  by (simp add: get_or_create_def)

definition message_bounds :: "durable_map \<Rightarrow> bool" where
  "message_bounds d \<longleftrightarrow> int (length (forward (dm_payload d) NsMessage)) \<le> dm_window d
     \<and> counters (dm_payload d) NsMessage < 2 * dm_window d"

lemma get_or_create_bounds:
  assumes d: "durable_inv d" and b: "message_bounds d"
  shows "durable_inv (snd (get_or_create (ns_name n) k d)) \<and> message_bounds (snd (get_or_create (ns_name n) k d))
    \<and> dm_window (snd (get_or_create (ns_name n) k d)) = dm_window d"
proof -
  obtain m snap d' where g: "get_or_create (ns_name n) k d = (Inr (m, snap), d')" "durable_inv d'"
    "dm_window d' = dm_window d"
    and new: "n = NsMessage \<Longrightarrow> get_surrogate (ns_name n) k d = Inr None \<Longrightarrow> message_bounds d'"
    using get_or_create_spec [OF d ns_of_name_name, of n k undefined] unfolding message_bounds_def by metis
  have "message_bounds d'"
  proof (cases "n = NsMessage")
    case False
    with g(1,3) b get_or_create_other_ns [OF False, of k d] show ?thesis by (simp add: message_bounds_def)
  next
    case True
    show ?thesis
    proof (cases "map_of (forward (dm_payload d) n) k")
      case None
      with new [OF True] show ?thesis by (simp add: get_surrogate_def)
    next
      case (Some i)
      then have "d' = d" using get_or_create_known [OF Some] g(1) by simp
      with b show ?thesis by simp
    qed
  qed
  with g show ?thesis by simp
qed

lemma allocations_bounds:
  "durable_inv d \<Longrightarrow> message_bounds d \<Longrightarrow>
     durable_inv (allocations xs d) \<and> message_bounds (allocations xs d) \<and> dm_window (allocations xs d) = dm_window d"
proof (induction xs arbitrary: d)
  case Nil
  then show ?case by (simp add: allocations_def)
next
  case (Cons x xs)
  obtain n k where x: "x = (n, k)" by (cases x)
  from get_or_create_bounds [OF Cons.prems, of n k] Cons.IH x show ?case
    by (simp add: allocations_def)
qed

text \<open>C36. Asking the JSON id map for any source id succeeds, whatever the window has to
  evict or renumber; the answer is stored in both directions, and asking again gives the
  same answer and changes nothing.\<close>

theorem id_round_trip:
  assumes "durable_inv d"
  shows "\<exists>m snap d'. get_or_create (ns_name n) k d = (Inr (m, snap), d') \<and> durable_inv d'
    \<and> im_source_id m = k
    \<and> get_surrogate (ns_name n) k d' = Inr (Some (im_surrogate_id m))
    \<and> get_source (ns_name n) (str_int (im_surrogate_id m)) d' = Inr (Some k)
    \<and> get_or_create (ns_name n) k d' = (Inr (m, None), d')"
proof -
  obtain m snap d' where g: "get_or_create (ns_name n) k d = (Inr (m, snap), d')" "durable_inv d'"
    "get_surrogate (ns_name n) k d' = Inr (Some (im_surrogate_id m))"
    "get_source (ns_name n) (str_int (im_surrogate_id m)) d' = Inr (Some k)"
    using get_or_create_spec [OF assms ns_of_name_name, of n k] by blast
  have "im_source_id m = k \<and> im_namespace m = ns_name n"
    using g(1) by (auto simp: get_or_create_def Let_def split: option.splits if_splits sum.splits prod.splits)
  then have "get_or_create (ns_name n) k d' = (Inr (m, None), d')"
    using g(3) by (cases m) (auto simp: get_surrogate_def get_or_create_def split: option.splits)
  with g \<open>im_source_id m = k \<and> _\<close> show ?thesis by blast
qed

theorem id_round_trip_witness:
  "\<exists>m snap d'. get_or_create (ns_name NsMessage) ''a'' (fresh_map 2) = (Inr (m, snap), d') \<and> durable_inv d'
    \<and> im_source_id m = ''a''
    \<and> get_surrogate (ns_name NsMessage) ''a'' d' = Inr (Some (im_surrogate_id m))
    \<and> get_source (ns_name NsMessage) (str_int (im_surrogate_id m)) d' = Inr (Some ''a'')
    \<and> get_or_create (ns_name NsMessage) ''a'' d' = (Inr (m, None), d')"
  by (rule id_round_trip) (simp add: fresh_map_ok)

text \<open>C37. The id a room, thread or context has been given is permanent: no sequence of
  later allocations, in any namespace, changes it.\<close>

theorem durable_ids_permanent:
  assumes d: "durable_inv d" and g: "get_surrogate (ns_name n) k d = Inr (Some i)" and n: "n \<noteq> NsMessage"
  shows "get_surrogate (ns_name n) k (allocations xs d) = Inr (Some i)"
  using json_ids.permanent [OF d _ n, of k i xs] g
  by (simp add: allocations_eq json_sur_eq get_surrogate_def)

theorem durable_ids_permanent_witness:
  "get_surrogate (ns_name NsRoom) ''r''
     (allocations [(NsMessage, ''m''), (NsRoom, ''s''), (NsRoom, ''r'')] (allocations [(NsRoom, ''r'')] (fresh_map 2)))
   = Inr (Some (bases NsRoom + 1))"
proof (rule durable_ids_permanent)
  show "durable_inv (allocations [(NsRoom, ''r'')] (fresh_map 2))"
    unfolding allocations_eq by (rule json_ids.alloc_all_inv [OF fresh_map_ok]) simp
  show "get_surrogate (ns_name NsRoom) ''r'' (allocations [(NsRoom, ''r'')] (fresh_map 2)) = Inr (Some (bases NsRoom + 1))"
    by (simp add: allocations_def fresh_map_def empty_payload_def get_or_create_def get_surrogate_def Let_def
        ns_of_name_def all_ns_def)
qed simp

text \<open>C38. Starting from an empty file, after any sequence of allocations the message window
  holds at most the configured number of ids, and every message id lies in the range of two
  windows above the base: the counter is reset before it can leave it.\<close>

theorem message_window_bounded:
  assumes w: "1 \<le> w"
  shows "int (length (forward (dm_payload (allocations xs (fresh_map w))) NsMessage)) \<le> w
    \<and> (\<forall>(s, i) \<in> set (forward (dm_payload (allocations xs (fresh_map w))) NsMessage).
         bases NsMessage < i \<and> i < bases NsMessage + 2 * w)"
proof -
  have "message_bounds (fresh_map w)"
    using w by (simp add: message_bounds_def fresh_map_def empty_payload_def)
  from allocations_bounds [OF fresh_map_ok [OF w] this, of xs]
  show ?thesis
    by (auto simp: message_bounds_def durable_inv_def ns_inv_def ids_in_range_def fresh_map_def)
      force+
qed

theorem message_window_bounded_witness:
  "int (length (forward (dm_payload (allocations [(NsMessage, ''a''), (NsMessage, ''b'')] (fresh_map 1))) NsMessage)) \<le> 1"
  using message_window_bounded [of 1 "[(NsMessage, ''a''), (NsMessage, ''b'')]"] by simp

text \<open>Compaction renumbers the live message ids densely from the base and keeps their
  order, so a later message never gets a smaller id than an earlier one.\<close>

theorem compaction_keeps_order:
  assumes "durable_inv d"
  shows "\<exists>ch p'. compact_message_window (dm_payload d) = Inr (ch, p')
    \<and> fst ` set (forward p' NsMessage) = fst ` set (forward (dm_payload d) NsMessage)
    \<and> counters p' NsMessage = int (length (forward (dm_payload d) NsMessage))
    \<and> (\<forall>(s, i) \<in> set (forward p' NsMessage). bases NsMessage < i
         \<and> i \<le> bases NsMessage + int (length (forward (dm_payload d) NsMessage)))
    \<and> (\<forall>s i t j i' j'. (s, i) \<in> set (forward (dm_payload d) NsMessage)
         \<and> (t, j) \<in> set (forward (dm_payload d) NsMessage) \<and> i < j
         \<and> (s, i') \<in> set (forward p' NsMessage) \<and> (t, j') \<in> set (forward p' NsMessage) \<longrightarrow> i' < j')"
proof -
  have "mirrors (forward (dm_payload d) NsMessage) (reverse (dm_payload d) NsMessage)"
    using assms by (simp add: durable_inv_def ns_inv_def)
  from compact_spec [OF this] obtain ch p' where c: "compact_message_window (dm_payload d) = Inr (ch, p')"
    "fst ` set (forward p' NsMessage) = fst ` set (forward (dm_payload d) NsMessage)"
    "counters p' NsMessage = int (length (forward (dm_payload d) NsMessage))"
    "ids_in_range (bases NsMessage) (counters p' NsMessage) (forward p' NsMessage)"
    "\<forall>s i t j i' j'. (s, i) \<in> set (forward (dm_payload d) NsMessage) \<longrightarrow>
       (t, j) \<in> set (forward (dm_payload d) NsMessage) \<longrightarrow> i < j
         \<longrightarrow> (s, i') \<in> set (forward p' NsMessage) \<longrightarrow> (t, j') \<in> set (forward p' NsMessage) \<longrightarrow> i' < j'"
    by (elim exE conjE) (rule that; assumption)
  have "\<forall>(s, i) \<in> set (forward p' NsMessage). bases NsMessage < i
      \<and> i \<le> bases NsMessage + int (length (forward (dm_payload d) NsMessage))"
    using c(3,4) unfolding ids_in_range_def by fastforce
  with c(1,2,3,5) show ?thesis
    by (intro exI [of _ ch] exI [of _ p'] conjI) (assumption | blast)+
qed

theorem compaction_keeps_order_witness:
  "\<exists>ch p'. compact_message_window (dm_payload (fresh_map 3)) = Inr (ch, p')
    \<and> fst ` set (forward p' NsMessage) = fst ` set (forward (dm_payload (fresh_map 3)) NsMessage)
    \<and> counters p' NsMessage = int (length (forward (dm_payload (fresh_map 3)) NsMessage))"
  using compaction_keeps_order [of "fresh_map 3"] fresh_map_ok [of 3] by auto

section \<open>Stored messages and rooms\<close>

text \<open>C39. When the message ids are renumbered, the stored messages follow: exactly the
  messages with a live id are kept, each carries its new id and is found under it.\<close>

theorem rebuilt_messages_follow_ids:
  assumes r: "ms_rebuild act p = Inr p'" and u: "unique_keys act" "distinct (map snd act)"
  shows "(ms_get_by_source p' s \<noteq> None \<longleftrightarrow> map_of act s \<noteq> None \<and> ms_get_by_source p s \<noteq> None)
    \<and> (\<forall>i e. map_of act s = Some i \<and> ms_get_by_source p' s = Some e \<longrightarrow>
         dget e ''surrogate_id'' = PInt i \<and> ms_get_by_surrogate p' (str_int i) = Some e)"
  using ms_rebuild_spec [OF r u] by blast

definition example_message :: entry where
  "example_message = [(''source_id'', PStr ''m''), (''surrogate_id'', PInt 7),
     (''context_source_id'', PStr ''c''), (''sender_source_id'', PStr ''u''),
     (''room_source_id'', PStr ''r''), (''timestamp'', PInt 5)]"

lemma example_message_fields [simp]:
  "str_field example_message ''source_id'' = ''m''" "str_field example_message ''context_source_id'' = ''c''"
  "str_field example_message ''sender_source_id'' = ''u''" "str_field example_message ''room_source_id'' = ''r''"
  "int_field example_message ''timestamp'' = Inr 5"
  by (simp_all add: example_message_def str_field_def int_field_def dget_def py_or_def py_strip_def
      py_lstrip_def py_rstrip_def py_isspace_def)

definition example_store :: message_payload where
  "example_store = \<lparr>mp_by_source = [(''m'', example_message)],
     mp_by_surrogate = [(''7'', example_message)], mp_latest = []\<rparr>"

lemma example_message_rewrite:
  "rewrite_entry_surrogate example_message i act = Inr (AList.update ''surrogate_id'' (PInt i) example_message)"
  by (simp add: rewrite_entry_surrogate_def example_message_def dget_def id_list_def str_field_def py_or_def
      Let_def py_strip_def py_lstrip_def py_rstrip_def py_isspace_def)

lemma example_message_latest:
  "\<exists>l. build_latest [AList.update ''surrogate_id'' (PInt i) example_message] [] = Inr l"
  by (simp add: example_message_def str_field_def int_field_def dget_def py_or_def py_strip_def
      py_lstrip_def py_rstrip_def py_isspace_def Let_def note_latest_def existing_timestamp_def bucket_of_def)

lemma example_rebuild: "\<exists>p'. ms_rebuild [(''m'', 9)] example_store = Inr p'"
  using example_message_latest [of 9] by (auto simp: ms_rebuild_def example_store_def example_message_rewrite)

theorem rebuilt_messages_follow_ids_witness:
  "\<exists>p' e. ms_rebuild [(''m'', 9)] example_store = Inr p' \<and> ms_get_by_source p' ''m'' = Some e
     \<and> dget e ''surrogate_id'' = PInt 9 \<and> ms_get_by_surrogate p' (str_int 9) = Some e"
proof -
  obtain p' where p: "ms_rebuild [(''m'', 9)] example_store = Inr p'" using example_rebuild by blast
  have "ms_get_by_source example_store ''m'' \<noteq> None"
    by (simp add: example_store_def ms_get_by_source_def)
  with rebuilt_messages_follow_ids [OF p, of "''m''"] p show ?thesis by auto
qed

text \<open>Rewriting the segments of a stored message drops or retargets reply segments and
  nothing else: every reply that remains points to the live id of a message, as text.\<close>

theorem rewritten_replies_are_live:
  assumes "rewrite_segments act ids dflt segs = Inr out"
  shows "filter (\<lambda>s. \<not> is_reply s) out = filter (\<lambda>s. \<not> is_reply s) segs
    \<and> (\<forall>seg \<in> set out. is_reply seg \<longrightarrow> (\<exists>k i sd data. map_of act k = Some i \<and> seg = PDict sd
         \<and> dget sd ''data'' = PDict data \<and> dget data ''id'' = PStr (str_int i)))"
  by (rule rewrite_segments_spec [OF assms])

definition example_reply :: pyval where
  "example_reply = PDict [(''type'', PStr ''reply''), (''data'', PDict [(''id'', PStr ''7'')])]"

theorem rewritten_replies_are_live_witness:
  "\<exists>out. rewrite_segments [(''m'', 9)] [''m'', ''gone''] [] [example_reply, PStr ''x'', example_reply] = Inr out
    \<and> filter (\<lambda>s. \<not> is_reply s) out = [PStr ''x'']"
proof -
  let ?in = "[example_reply, PStr ''x'', example_reply]"
  have ex: "\<exists>out. rewrite_segments [(''m'', 9)] [''m'', ''gone''] [] ?in = Inr out"
    by (simp add: is_reply_def example_reply_def raw_str_field_def dget_def py_or_def retarget_reply_def)
  then obtain out where out: "rewrite_segments [(''m'', 9)] [''m'', ''gone''] [] ?in = Inr out" by blast
  have "filter (\<lambda>s. \<not> is_reply s) ?in = [PStr ''x'']"
    by (simp add: is_reply_def example_reply_def raw_str_field_def dget_def py_or_def)
  with rewritten_replies_are_live [OF out] out show ?thesis by metis
qed

definition context_binds :: "context_args list \<Rightarrow> context_payload \<Rightarrow> context_payload" where
  "context_binds as p = fold (\<lambda>a p. snd (cr_bind a p)) as p"

lemma context_binds_eq: "context_binds as p = json_contexts.bind_all as p"
  by (induction as arbitrary: p) (simp_all add: context_binds_def)

text \<open>C40. A context binding never goes back in time: after any sequence of timestamped binds,
  the JSON store holds for each bound context an entry at least as new as every bind.\<close>

theorem context_binding_newest:
  assumes p: "cr_inv p" and a: "a \<in> set as" "context_entry a = Inr e"
    and t: "\<forall>b \<in> set as. ca_timestamp b \<noteq> None"
  shows "\<exists>w. cr_get_by_source (context_binds as p) (ca_source a) = Some w \<and> entry_ts e \<le> entry_ts w"
  unfolding context_binds_eq by (rule json_contexts.bind_all_newest [OF p a t])

definition example_context :: "int \<Rightarrow> context_args" where
  "example_context t = \<lparr>ca_source = ''c'', ca_surrogate = PInt 5000000001, ca_room_source = ''r'',
     ca_room_surrogate = PInt 2000000001, ca_room_name = ''n'', ca_room_slug = ''s'', ca_thread = [],
     ca_timestamp = Some (PInt t)\<rparr>"

lemma example_context_entry: "\<exists>e. context_entry (example_context t) = Inr e \<and> entry_ts e = t"
proof -
  obtain e where e: "context_entry (example_context t) = Inr e"
    by (simp add: context_entry_def example_context_def)
  moreover have "entry_ts e = t"
    using context_entry_facts(3) [OF e, of "PInt t"] by (simp add: example_context_def)
  ultimately show ?thesis by blast
qed

theorem context_binding_newest_witness:
  "\<exists>w. cr_get_by_source (context_binds [example_context 5, example_context 3] empty_context_payload) ''c'' = Some w
     \<and> 5 \<le> entry_ts w"
proof -
  obtain e where e: "context_entry (example_context 5) = Inr e" "entry_ts e = 5"
    using example_context_entry by blast
  have "cr_inv empty_context_payload" by (simp add: cr_inv_def empty_context_payload_def)
  from context_binding_newest [OF this _ e(1), of "[example_context 5, example_context 3]"] e(2)
  show ?thesis by (simp add: example_context_def)
qed

end
