(* ===== verification/Engine_Properties.thy ===== *)
theory Engine_Properties
  imports Store_Properties
begin

text \<open>
  The properties of the in-memory engine, its journal and the writer thread, each with a
  concrete instance.
\<close>

section \<open>Ids and the message window\<close>

lemma new_engine_ok:
  assumes "0 < w"
  shows "all_ok (new_engine (PInt w))"
  using assms
  by (simp add: all_ok_def engine_ok_def ids_ok_def window_ok_def timestamps_ok_def latest_ok_def
      eng_contexts_ok_def order_of_def new_engine_def normalize_window_def ids_in_range_def)

definition engine_allocations :: "(ns \<times> string) list \<Rightarrow> engine \<Rightarrow> engine" where
  "engine_allocations xs s = fold (\<lambda>(n, k) s. snd (allocate_mapping (ns_name n) k s)) xs s"

lemma engine_allocations_eq: "engine_allocations xs s = engine_ids.alloc_all xs s"
proof (induction xs arbitrary: s)
  case Nil
  then show ?case by (simp add: engine_allocations_def)
next
  case (Cons x xs)
  have "snd (eng_alloc n k s) = snd (allocate_mapping (ns_name n) k s)" for n k
    by (auto simp: eng_alloc_def action_defs split: prod.split sum.split)
  with Cons show ?case by (simp add: engine_allocations_def case_prod_beta)
qed

lemma engine_counters_mono:
  assumes "engine_ok s" "eng_alloc n k s = (r, s')"
  shows "eng_counters s m \<le> eng_counters s' m"
  using allocate_mapping_spec [OF assms(1) ns_of_name_name, of n k] assms(2)
  by (cases "map_of (eng_forward s n) k") (auto simp: eng_alloc_def bnd_def ret_def)

lemma engine_allocations_no_reuse:
  "engine_ok s \<Longrightarrow> i \<le> bases m + eng_counters s m \<Longrightarrow> eng_sur (engine_ids.alloc_all xs s) m j = Some i \<Longrightarrow>
     eng_sur s m j = Some i"
proof (induction xs arbitrary: s)
  case Nil
  then show ?case by simp
next
  case (Cons x xs)
  obtain n k where x: "x = (n, k)" by (cases x)
  obtain r s' where a: "eng_alloc n k s = (r, s')" by (cases "eng_alloc n k s")
  have ok: "engine_ok s'"
    using engine_ids.alloc_inv [OF Cons.prems(1), of n k] a by simp
  have "i \<le> bases m + eng_counters s' m"
    using engine_counters_mono [OF Cons.prems(1) a, of m] Cons.prems(2) by linarith
  with Cons ok a x have "eng_sur s' m j = Some i" by simp
  with engine_alloc_no_reuse(1) [OF Cons.prems(1) a Cons.prems(2)] show ?case by blast
qed

text \<open>C12. The engine never gives one id to two sources: an id that was in use keeps its
  source in every later state that still has it, even after the message window evicted it.\<close>

theorem engine_ids_never_reused:
  assumes s: "engine_ok s" and i: "eng_get_surrogate (ns_name n) k s = Inr (Some i)"
    and j: "eng_get_surrogate (ns_name n) j (engine_allocations xs s) = Inr (Some i)"
  shows "j = k"
proof -
  have k: "eng_sur s n k = Some i" using i by (simp add: eng_sur_def)
  have "eng_sur (engine_ids.alloc_all xs s) n j = Some i"
    using j by (simp add: eng_sur_def engine_allocations_eq)
  with engine_allocations_no_reuse [OF s] engine_id_bound [OF s k] have "eng_sur s n j = Some i" by blast
  with engine_ids.sur_inject [OF s _ k] show ?thesis by blast
qed

lemma example_alloc:
  "eng_get_surrogate (ns_name NsMessage) ''a'' (engine_allocations [(NsMessage, ''a'')] (new_engine (PInt 1)))
     = Inr (Some (bases NsMessage + 1))"
  by (simp add: engine_allocations_def allocate_mapping_def allocate_locked_def new_engine_def normalize_window_def
      Let_def action_defs trim_message_window_def trim_loop.simps eng_get_surrogate_def ns_of_name_def all_ns_def)

theorem engine_ids_never_reused_witness:
  "\<not> eng_get_surrogate (ns_name NsMessage) ''b''
        (engine_allocations [(NsMessage, ''b'')] (engine_allocations [(NsMessage, ''a'')] (new_engine (PInt 1))))
      = Inr (Some (bases NsMessage + 1))"
proof
  assume a: "eng_get_surrogate (ns_name NsMessage) ''b''
        (engine_allocations [(NsMessage, ''b'')] (engine_allocations [(NsMessage, ''a'')] (new_engine (PInt 1))))
      = Inr (Some (bases NsMessage + 1))"
  have "engine_ok (engine_allocations [(NsMessage, ''a'')] (new_engine (PInt 1)))"
    unfolding engine_allocations_eq
    by (rule engine_ids.alloc_all_inv) (use new_engine_ok [of 1] in \<open>simp add: all_ok_def\<close>)
  from engine_ids_never_reused [OF this example_alloc a] show False by simp
qed

text \<open>Trimming after the window was made smaller keeps exactly the newest messages of the
  window: their ids and stored entries are unchanged, every older id is gone, and the
  snapshot handed to the stores lists what is left.\<close>

theorem shrunk_window_keeps_newest:
  assumes i: "ids_ok s" and t: "timestamps_ok s"
  shows "\<exists>snap u. eng_rebuild_window b s = (Inr snap, u) \<and> engine_ok u
    \<and> eng_forward u NsMessage =
        drop (length (eng_order s) - nat (eng_window s)) (eng_forward s NsMessage)
    \<and> ws_active snap = eng_forward u NsMessage
    \<and> ws_removed snap = int (length (eng_order s) - nat (eng_window s))
    \<and> (\<forall>k \<in> set (eng_order u). eng_message_by_source u k = eng_message_by_source s k)
    \<and> (\<forall>n. n \<noteq> NsMessage \<longrightarrow> eng_forward u n = eng_forward s n)"
proof -
  let ?d = "length (eng_order s) - nat (eng_window s)"
  obtain u where u: "trim_loop 0 s = (Inr (int ?d), u)" "ids_ok u" "timestamps_ok u" "window_ok u"
    "eng_order u = drop ?d (eng_order s)"
    "eng_forward u = (eng_forward s)(NsMessage := drop ?d (eng_forward s NsMessage))"
    "\<forall>k. k \<notin> set (take ?d (eng_order s)) \<longrightarrow> map_of (eng_by_source u) k = map_of (eng_by_source s) k"
    using trim_loop_spec [OF i t, of 0] by auto
  have "distinct (eng_order s)"
    using ids_okD(5,7) [OF i] by simp
  then have "set (take ?d (eng_order s)) \<inter> set (drop ?d (eng_order s)) = {}"
    by (metis append_take_drop_id distinct_append)
  then have keep: "\<forall>k \<in> set (eng_order u). eng_message_by_source u k = eng_message_by_source s k"
    using u(5,7) by (auto simp: eng_message_by_source_def)
  have ok: "engine_ok (u\<lparr>eng_journal := j\<rparr>)" for j
    using u(2,3,4) by (simp add: engine_ok_def)
  show ?thesis
    using u(1,5,6) keep ok [of "map_option (\<lambda>x. x @ [message_rebuild_record (eng_forward u NsMessage)]) (eng_journal u)"]
      ok [of "eng_journal u"]
    by (cases "?d = 0")
      (simp_all add: eng_rebuild_window_def trim_message_window_def action_defs Let_def eng_message_by_source_def)
qed

lemma resized_ok:
  assumes "engine_ok s" "0 < w"
  shows "ids_ok (eng_set_window (PInt w) s) \<and> timestamps_ok (eng_set_window (PInt w) s)"
  using assms by (simp add: engine_ok_def ids_ok_def timestamps_ok_def eng_set_window_def normalize_window_def)

theorem shrunk_window_keeps_newest_witness:
  "\<exists>snap u. eng_rebuild_window False (eng_set_window (PInt 1)
        (engine_allocations [(NsMessage, ''a''), (NsMessage, ''b'')] (new_engine (PInt 2)))) = (Inr snap, u)
    \<and> engine_ok u \<and> ws_active snap = eng_forward u NsMessage"
proof -
  have "engine_ok (engine_allocations [(NsMessage, ''a''), (NsMessage, ''b'')] (new_engine (PInt 2)))"
    unfolding engine_allocations_eq
    by (rule engine_ids.alloc_all_inv) (use new_engine_ok [of 2] in \<open>simp add: all_ok_def\<close>)
  from resized_ok [OF this, of 1] shrunk_window_keeps_newest [of "eng_set_window (PInt 1)
        (engine_allocations [(NsMessage, ''a''), (NsMessage, ''b'')] (new_engine (PInt 2)))" False]
  show ?thesis by auto
qed

section \<open>The latest message of a context and sender\<close>

lemma fragment_room:
  assumes "readable_ts e"
  shows "str_field (fragment e) ''room_source_id'' = str_field e ''room_source_id''"
proof -
  obtain ts where "latest_fragment e = Inr (latest_record (str_field e ''source_id'')
      (str_field e ''room_source_id'') (str_field e ''thread_source_id'') ts)"
    using assms by (auto simp: readable_ts_def latest_fragment_def)
  then show ?thesis
    by (simp add: fragment_def latest_record_def str_field_def [of "_ # _"] dget_def py_or_def)
qed

lemma message_pair_room: "message_pair e = Some p \<Longrightarrow> str_field e ''room_source_id'' \<noteq> []"
  by (auto simp: message_pair_def Let_def split: if_splits)

lemma latest_room_of_order:
  assumes ok: "latest_ok s"
  shows "eng_latest_room now None s c u = Inr
    (if order_of s (c, u) = [] then None
     else Some (str_field (the (map_of (eng_by_source s) (last (order_of s (c, u))))) ''room_source_id''))"
proof -
  note m = latest_mapsD [OF ok [unfolded latest_ok_maps]]
  show ?thesis
  proof (cases "order_of s (c, u) = []")
    case True
    with m(3) [of "(c, u)"] show ?thesis
      by (simp add: eng_latest_room_def eng_latest_field_def eng_latest_entry_def)
  next
    case False
    then have "last (order_of s (c, u)) \<in> set (order_of s (c, u))" by simp
    then obtain e where e: "map_of (eng_by_source s) (last (order_of s (c, u))) = Some e" "message_pair e = Some (c, u)"
      unfolding m(2) by blast
    have "readable_ts e" using m(4) [OF e(1)] by (simp add: entry_ok_def)
    with e m(3) [of "(c, u)"] False fragment_room message_pair_room [OF e(2)] show ?thesis
      by (simp add: eng_latest_room_def eng_latest_field_def eng_latest_entry_def expired_def)
  qed
qed

text \<open>After a message is stored, the latest room of its context and sender is the room
  of that message, and the latest rooms of other senders and contexts change only if the
  message was theirs before.\<close>

theorem stored_message_is_latest:
  assumes ok: "latest_ok s" and e: "entry_ok k e" and p: "message_pair e = Some (c, u)"
  shows "\<exists>t. put_message e s = (Inr (), t) \<and> latest_ok t
    \<and> eng_message_by_source t k = Some e
    \<and> eng_latest_room now None t c u = Inr (Some (str_field e ''room_source_id''))
    \<and> (\<forall>c' u'. (c', u') \<noteq> (c, u) \<and> k \<notin> set (order_of s (c', u')) \<longrightarrow>
         eng_latest_room now None t c' u' = eng_latest_room now None s c' u')"
proof -
  obtain t where t: "put_normalized e s = (Inr (), t)" "latest_ok t"
    "map_of (eng_by_source t) = (map_of (eng_by_source s))(k \<mapsto> e)"
    "order_of t = (\<lambda>q. remove1 k (order_of s q) @ (if message_pair e = Some q then [k] else []))"
    using put_normalized_latest [OF ok e] by blast
  let ?t = "t\<lparr>eng_journal := map_option (\<lambda>j. j @ [message_put_record e]) (eng_journal t)\<rparr>"
  have okt: "latest_ok ?t" using t(2) by simp
  have ord: "order_of ?t q = order_of t q" for q by (simp add: order_of_def)
  have other: "eng_latest_room now None ?t c' u' = eng_latest_room now None s c' u'"
    if n: "(c', u') \<noteq> (c, u)" "k \<notin> set (order_of s (c', u'))" for c' u'
  proof -
    have eq: "order_of ?t (c', u') = order_of s (c', u')"
      using n p by (auto simp: ord t(4) remove1_idem)
    have "last (order_of s (c', u')) \<noteq> k" if "order_of s (c', u') \<noteq> []"
      using that n(2) last_in_set by metis
    then show ?thesis
      unfolding latest_room_of_order [OF okt] latest_room_of_order [OF ok] eq by (simp add: t(3))
  qed
  have "eng_latest_room now None ?t c u = Inr (Some (str_field e ''room_source_id''))"
    unfolding latest_room_of_order [OF okt] ord t(4) using p by (simp add: t(3))
  moreover have "put_message e s = (Inr (), ?t)"
    using t(1) by (simp add: put_message_def action_defs)
  ultimately show ?thesis
    using okt other t(3) by (intro exI [of _ ?t]) (simp add: eng_message_by_source_def)
qed

lemma example_message_ok: "entry_ok ''m'' example_message" "message_pair example_message = Some (''c'', ''u'')"
  by (simp_all add: entry_ok_def readable_ts_def message_pair_def)
    (simp_all add: example_message_def py_strip_def py_lstrip_def py_rstrip_def py_isspace_def)

theorem stored_message_is_latest_witness:
  "\<exists>t. put_message example_message (new_engine (PInt 2)) = (Inr (), t)
    \<and> eng_latest_room 9 None t ''c'' ''u'' = Inr (Some ''r'')"
  using stored_message_is_latest [OF _ example_message_ok, of "new_engine (PInt 2)" 9] new_engine_ok [of 2]
  by (auto simp: all_ok_def)

text \<open>When a message is evicted, the latest room of its context and sender falls back to
  the most recently stored message of the pair that is still there, and to nothing when it
  was the last one.\<close>

theorem evicted_message_falls_back:
  assumes ok: "latest_ok s"
  shows "\<exists>t. remove_message_entry k False s = (Inr (), t) \<and> latest_ok t
    \<and> eng_message_by_source t k = None
    \<and> (\<forall>c u. eng_latest_room now None t c u = Inr
         (case remove1 k (order_of s (c, u)) of
            [] \<Rightarrow> None
          | x # xs \<Rightarrow> map_option (\<lambda>e. str_field e ''room_source_id'')
              (eng_message_by_source s (last (x # xs)))))"
proof -
  obtain t where t: "remove_message_entry k False s = (Inr (), t)" "latest_ok t"
    "map_of (eng_by_source t) = (map_of (eng_by_source s))(k := None)"
    "order_of t = (\<lambda>p. remove1 k (order_of s p))"
    using remove_message_entry_latest [OF ok] by blast
  note m = latest_mapsD [OF ok [unfolded latest_ok_maps]]
  have "eng_latest_room now None t c u = Inr
         (case remove1 k (order_of s (c, u)) of
            [] \<Rightarrow> None
          | x # xs \<Rightarrow> map_option (\<lambda>e. str_field e ''room_source_id'')
              (eng_message_by_source s (last (x # xs))))" for c u
  proof (cases "remove1 k (order_of s (c, u))")
    case Nil
    then show ?thesis unfolding latest_room_of_order [OF t(2)] t(4) by simp
  next
    case (Cons x xs)
    have "last (x # xs) \<in> set (remove1 k (order_of s (c, u)))"
      unfolding Cons by (rule last_in_set) simp
    then have l: "last (x # xs) \<in> set (order_of s (c, u))" "last (x # xs) \<noteq> k"
      using m(1) [of "(c, u)"] by simp_all
    then obtain e where "map_of (eng_by_source s) (last (x # xs)) = Some e"
      unfolding m(2) by blast
    with l(2) Cons show ?thesis
      unfolding latest_room_of_order [OF t(2)] t(3,4) by (simp add: eng_message_by_source_def)
  qed
  with t show ?thesis by (intro exI [of _ t]) (simp add: eng_message_by_source_def)
qed

theorem evicted_message_falls_back_witness:
  "\<exists>t. remove_message_entry ''m'' False (snd (put_message example_message (new_engine (PInt 2)))) = (Inr (), t)
    \<and> latest_ok t \<and> eng_message_by_source t ''m'' = None"
proof -
  obtain t where t: "put_message example_message (new_engine (PInt 2)) = (Inr (), t)" "latest_ok t"
    using put_normalized_latest [OF _ example_message_ok(1), of "new_engine (PInt 2)"] new_engine_ok [of 2]
    by (auto simp: all_ok_def put_message_def action_defs)
  from evicted_message_falls_back [OF t(2), of "''m''" 0] t(1) show ?thesis by auto
qed

section \<open>Crash recovery\<close>

text \<open>C13. The journal is a write-ahead log: run any operations on an engine whose journal is
  empty, write the records they logged, and cut the file at any byte. Reading what is left
  and replaying it on the engine the operations started from reaches the state after some
  prefix of the operations, and after all of them if nothing was cut.\<close>

theorem crash_recovery:
  assumes s: "all_ok s" and ops: "\<forall>op \<in> set ops. op_ok op" and j: "eng_journal s = Some []"
    and r: "run_ops ops s = (Inr (), t)" "eng_journal t = Some recs"
    and enc: "\<forall>x \<in> set recs. readable enc decode x"
  shows "\<exists>n u v. run_ops (take n ops) s = (Inr (), u)
    \<and> replay_records (iter_records decode (take nb (journal_bytes enc recs))) s = (Inr (), v)
    \<and> core v = core u
    \<and> (length (journal_bytes enc recs) \<le> nb \<longrightarrow> core v = core t)"
proof -
  obtain t' recs' where t: "run_ops ops s = (Inr (), t')" "all_ok t'"
    "eng_journal t' = map_option (\<lambda>j. j @ recs') (eng_journal s)" "tracks s recs' t'"
    "\<forall>m. \<exists>n u. run_ops (take n ops) s = (Inr (), u) \<and> tracks s (take m recs') u"
    using run_ops_tracks [OF s ops] by (elim exE conjE) (rule that; assumption)
  have eq: "t' = t" "recs' = recs" using t(1,3) r j by simp_all
  obtain m where m: "iter_records decode (take nb (journal_bytes enc recs)) = take m recs"
    "length (journal_bytes enc recs) \<le> nb \<longrightarrow> m = length recs"
    using iter_records_truncated [OF enc] by blast
  obtain n u where u: "run_ops (take n ops) s = (Inr (), u)" "tracks s (take m recs) u"
    using t(5) eq by blast
  obtain v where v: "replay_records (take m recs) s = (Inr (), v)" "core v = core u"
    using u(2) by (auto simp: tracks_def)
  have "core v = core t" if "length (journal_bytes enc recs) \<le> nb"
    using t(4) v(1) m(2) that eq by (auto simp: tracks_def)
  with u(1) v m(1) show ?thesis by (intro exI [of _ n] exI [of _ u] exI [of _ v]) simp
qed

text \<open>An encoding that can be read back, for the instances.\<close>

definition one_record :: "entry \<Rightarrow> entry \<Rightarrow> byte list" where
  "one_record r x = (if x = r then [1] else [2])"

definition one_record_back :: "entry \<Rightarrow> byte list \<Rightarrow> pyval option" where
  "one_record_back r bs = (if bs = [1] then Some (PDict r) else None)"

lemma one_record_readable: "readable (one_record r) (one_record_back r) r"
  by (simp add: readable_def one_record_def one_record_back_def)

theorem crash_recovery_witness:
  "\<exists>n u v. run_ops (take n [OpPrivate ''u'' 5 ''r'']) (bind_writer (new_engine (PInt 2))) = (Inr (), u)
    \<and> replay_records (iter_records (one_record_back (private_bind_record ''u'' 5 ''r''))
         (take 3 (journal_bytes (one_record (private_bind_record ''u'' 5 ''r'')) [private_bind_record ''u'' 5 ''r''])))
         (bind_writer (new_engine (PInt 2))) = (Inr (), v)
    \<and> core v = core u"
proof -
  let ?s = "bind_writer (new_engine (PInt 2))" and ?r = "private_bind_record ''u'' 5 ''r''"
  obtain t where t: "run_ops [OpPrivate ''u'' 5 ''r''] ?s = (Inr (), t)" "eng_journal t = Some [?r]"
    by (simp add: run_ops_def bind_private_room_def bind_private_without_record_def bind_writer_def action_defs)
  have ok: "all_ok ?s" using new_engine_ok [of 2] by (simp add: bind_writer_def)
  have j: "eng_journal ?s = Some []" by (simp add: bind_writer_def)
  from crash_recovery [OF ok _ j t, of "one_record ?r" "one_record_back ?r" 3] one_record_readable [of ?r]
  show ?thesis by auto
qed

section \<open>The writer thread\<close>

text \<open>C14. Merging the batches at the head of the queue into one physical record changes
  nothing: replaying the merged record and then what is left of the queue is replaying the
  records as they were queued, also when a record raises.\<close>

theorem coalescing_is_transparent:
  assumes "next_record r q = Inr (n, phys, d, q')"
  shows "replay_records (r # recs_of q) s =
     replay_records (phys # recs_of (case d of None \<Rightarrow> [] | Some x \<Rightarrow> [x]) @ recs_of q') s"
  by (rule next_record_replay [OF assms])

theorem coalescing_is_transparent_witness:
  "replay_records (recs_of [Rec (batch_record [private_bind_record ''u'' 5 ''r'']),
       Rec (batch_record [private_bind_record ''v'' 6 ''r''])]) (new_engine (PInt 2)) =
   replay_records [batch_record [private_bind_record ''u'' 5 ''r'', private_bind_record ''v'' 6 ''r'']] (new_engine (PInt 2))"
proof -
  have "next_record (batch_record [private_bind_record ''u'' 5 ''r''])
      [Rec (batch_record [private_bind_record ''v'' 6 ''r''])] =
    Inr (2, batch_record [private_bind_record ''u'' 5 ''r'', private_bind_record ''v'' 6 ''r''], None, [])"
    by (simp add: next_record_def is_batch_def mutations_of_def batch_record_def dget_def py_or_def)
  from coalescing_is_transparent [OF this, of "new_engine (PInt 2)"] show ?thesis by simp
qed

text \<open>C15. One step of the writer that neither snapshots nor fails moves records from the
  queue to the file without losing, repeating or reordering their effect: file followed by
  queue replays to the same state before and after the step.\<close>

theorem writer_loses_nothing:
  assumes run: "wr_running w" and f: "wr_file w = journal_bytes enc rs"
    and same: "wr_snapshots (writer_step io enc c sn w) = wr_snapshots w"
    and ok: "wr_error (writer_step io enc c sn w) = None"
  shows "\<exists>rs'. wr_file (writer_step io enc c sn w) = journal_bytes enc rs' \<and>
    (\<forall>s. replay_records (rs' @ recs_of (waiting (writer_step io enc c sn w))) s =
         replay_records (rs @ recs_of (waiting w)) s)"
  by (rule writer_step_contents [OF run f same ok])

definition idle_writer :: "item list \<Rightarrow> writer" where
  "idle_writer q = \<lparr>wr_queue = q, wr_deferred = None, wr_file = [], wr_disk = [], wr_pending = 0, wr_since = 0,
     wr_snapshot = None, wr_snapshots = 0, wr_physical = 0, wr_coalesced = 0, wr_done = [], wr_running = True,
     wr_open = True, wr_error = None\<rparr>"

lemma example_step:
  "wr_snapshots (writer_step no_faults (\<lambda>_. [1]) (writer_config_of 32 8192) sn (idle_writer [Rec [(''op'', PStr ''x'')]])) = 0"
  "wr_error (writer_step no_faults (\<lambda>_. [1]) (writer_config_of 32 8192) sn (idle_writer [Rec [(''op'', PStr ''x'')]])) = None"
  by (simp_all add: writer_step_def take_item_def write_step_def next_record_def is_batch_def dget_def write_record_def
      idle_writer_def writer_config_of_def snapshot_if_def snapshot_due_def no_faults_def action_defs Let_def)

definition example_snapshot :: engine_snapshot where
  "example_snapshot = export_snapshot (new_engine (PInt 2))"

theorem writer_loses_nothing_witness:
  "\<exists>rs'. wr_file (writer_step no_faults (\<lambda>_. [1]) (writer_config_of 32 8192) example_snapshot (idle_writer [Rec [(''op'', PStr ''x'')]]))
      = journal_bytes (\<lambda>_. [1]) rs'"
  using writer_loses_nothing [of "idle_writer [Rec [(''op'', PStr ''x'')]]" "\<lambda>_. [1]" "[]" no_faults
      "writer_config_of 32 8192" example_snapshot] example_step [of example_snapshot]
  by (auto simp: idle_writer_def)









end
