(* ===== verification/Identity_Cache.thy ===== *)
theory Identity_Cache
  imports User_Identity
begin

text \<open>
  The user registry beyond a single allocation: what the administrative transactions keep
  of the database invariant, and the coherence of the bounded caches with the database.
  A registry is coherent when its two caches are paired (an id is cached exactly when its
  user is) and every cached row is the row of the database; every operation keeps this, so
  a lookup answers what the database would.
\<close>

section \<open>The administrative transactions\<close>

lemma resolve_conflicts_users [simp]:
  "db_users (snd (resolve_conflicts P now db)) = db_users db"
  "db_bot_users (snd (resolve_conflicts P now db)) = db_bot_users db"
  "row_by_user (snd (resolve_conflicts P now db)) v = row_by_user db v"
  "user_ids (snd (resolve_conflicts P now db)) = user_ids db"
  by (simp_all add: resolve_conflicts_def row_by_user_def user_ids_def)

lemma resolve_conflicts_active:
  assumes "c \<in> set (db_conflicts (snd (resolve_conflicts P now db)))" "cf_active c"
  shows "c \<in> set (db_conflicts db) \<and> \<not> P c"
  using assms by (auto simp: resolve_conflicts_def split: if_splits)

lemma resolve_conflicts_ok: "db_ok db \<Longrightarrow> db_ok (snd (resolve_conflicts P now db))"
  unfolding db_ok_def using resolve_conflicts_active by fastforce

lemma add_primary_conflicts_users [simp]:
  "db_users (add_primary_conflicts r i now os db) = db_users db"
  "db_bot_users (add_primary_conflicts r i now os db) = db_bot_users db"
  "row_by_user (add_primary_conflicts r i now os db) v = row_by_user db v"
  "user_ids (add_primary_conflicts r i now os db) = user_ids db"
  by (induction os arbitrary: db) simp_all

lemma add_primary_conflicts_ok:
  "db_ok db \<Longrightarrow> ur_user_id r \<in> user_ids db \<Longrightarrow> \<forall>x \<in> set os. ur_user_id x \<in> user_ids db \<Longrightarrow>
     db_ok (add_primary_conflicts r i now os db)"
  by (induction os arbitrary: db) (simp_all add: insert_conflict_ok)

lemma admin_rowD:
  assumes "admin_row db b u revision = Inr r"
  shows "row_by_user db u = Some r" "knows db b u" "ur_revision r = revision"
  using assms by (auto simp: admin_row_def split: option.splits if_splits)

lemma override_in_db_ok:
  assumes ok: "db_ok db" and i: "in_range i"
    and ov: "override_in_db b u i revision now db = Inr (r, resolved, created, db')"
  shows "db_ok db' \<and> (\<forall>v. row_by_user db' v = (if v = u then Some r else row_by_user db v))
    \<and> ur_onebot r = i \<and> ur_user_id r = u \<and> knows db b u
    \<and> (\<exists>old. row_by_user db u = Some old \<and> ur_revision old = revision \<and> ur_revision r = revision + 1)
    \<and> (\<forall>v x. v \<noteq> u \<longrightarrow> row_by_user db v = Some x \<longrightarrow> ur_onebot x \<noteq> i)"
proof -
  obtain old where old: "admin_row db b u revision = Inr old"
    and free: "\<forall>x \<in> set (db_users db). ur_user_id x \<noteq> u \<longrightarrow> ur_onebot x \<noteq> i"
    using ov by (auto simp: override_in_db_def sbind_Inr split: if_splits)
  note a = admin_rowD [OF old]
  define upd where "upd = (\<lambda>x :: user_row. x\<lparr>ur_onebot := i, ur_offset := compute_probe_offset (ur_primary old) i,
      ur_manual := True, ur_last_seen := now, ur_revision := ur_revision old + 1\<rparr>)"
  define db2 where "db2 = snd (resolve_conflicts (\<lambda>c. cf_displaced c = u) now (update_user u upd db))"
  have m: "old \<in> set (db_users db)" "ur_user_id old = u" using row_by_user_Some [OF a(1)] by auto
  have f: "ur_user_id (upd old) = u" "row_ok (upd old)"
    using m db_okD(3) [OF ok m(1)] i by (simp_all add: upd_def row_ok_def)
  have fr: "\<forall>x \<in> set (db_users db). ur_user_id x \<noteq> u \<longrightarrow> ur_onebot x \<noteq> ur_onebot (upd old)"
    using free by (simp add: upd_def)
  note up = update_user_ok [of db u old upd, OF ok a(1) f fr]
  have eq: "r = upd old" "db' = add_primary_conflicts old i now (primary_owners db2 i u) db2"
    using ov old free by (auto simp: override_in_db_def upd_def db2_def Let_def split: prod.splits if_splits)
  have "db_ok db2" unfolding db2_def by (rule resolve_conflicts_ok [OF up(1)])
  moreover have "user_ids db2 = user_ids db" by (simp add: db2_def up(3))
  moreover have "u \<in> user_ids db" using m by (auto simp: user_ids_def)
  moreover have "\<forall>x \<in> set (primary_owners db2 i u). ur_user_id x \<in> user_ids db2"
    by (auto simp: primary_owners_def user_ids_def)
  ultimately have "db_ok db'" unfolding eq(2) using m(2) by (intro add_primary_conflicts_ok) simp_all
  moreover have "\<forall>v. row_by_user db' v = (if v = u then Some r else row_by_user db v)"
    by (simp add: eq db2_def up(2))
  moreover have "\<forall>v x. v \<noteq> u \<longrightarrow> row_by_user db v = Some x \<longrightarrow> ur_onebot x \<noteq> i"
    using free row_by_user_Some by blast
  moreover have "ur_onebot r = i" "ur_revision r = revision + 1"
    using a(3) by (simp_all add: eq(1) upd_def)
  ultimately show ?thesis using a f(1) eq(1) by blast
qed

lemma find_filter: "find P (filter Q xs) = find (\<lambda>x. Q x \<and> P x) xs"
  by (induction xs) auto

lemma find_other: "v \<noteq> u \<Longrightarrow> find (\<lambda>x. f x \<noteq> u \<and> f x = v) xs = find (\<lambda>x. f x = v) xs"
  by (induction xs) auto

lemma delete_in_db_ok:
  assumes ok: "db_ok db" and d: "delete_in_db b u revision now db = Inr (r, resolved, db')"
  shows "db_ok db' \<and> (\<forall>v. row_by_user db' v = (if v = u then None else row_by_user db v))
    \<and> row_by_user db u = Some r \<and> knows db b u \<and> ur_revision r = revision
    \<and> (\<forall>c. \<not> knows db' c u)"
proof -
  have a: "admin_row db b u revision = Inr r"
    using d by (cases "resolve_conflicts (\<lambda>c. cf_incumbent c = u \<or> cf_displaced c = u) now db")
      (auto simp: delete_in_db_def sbind_Inr Let_def)
  define db1 where "db1 = snd (resolve_conflicts (\<lambda>c. cf_incumbent c = u \<or> cf_displaced c = u) now db)"
  have eq: "db' = db1\<lparr>db_users := filter (\<lambda>x. ur_user_id x \<noteq> u) (db_users db1),
      db_bot_users := filter (\<lambda>((_, x), _). x \<noteq> u) (db_bot_users db1)\<rparr>"
    using d a by (auto simp: delete_in_db_def db1_def simp del: resolve_conflicts_users split: prod.splits)
  have ok1: "db_ok db1" unfolding db1_def by (rule resolve_conflicts_ok [OF ok])
  have ids: "user_ids db' = user_ids db - {u}"
    by (auto simp: eq user_ids_def db1_def)
  have act: "cf_incumbent c \<noteq> u \<and> cf_displaced c \<noteq> u" if "c \<in> set (db_conflicts db1)" "cf_active c" for c
    using resolve_conflicts_active [of c _ now db] that unfolding db1_def by blast
  have "db_ok db'"
    unfolding db_ok_def
  proof (intro conjI ballI impI)
    show "distinct (map ur_user_id (db_users db'))" "distinct (map ur_onebot (db_users db'))"
      using ok1 by (simp_all add: eq db_ok_def distinct_map_filter)
    fix x assume "x \<in> set (db_users db')"
    then show "row_ok x" using ok1 by (simp add: eq db_ok_def)
  next
    fix x assume "x \<in> set (db_bot_users db')"
    then show "snd (fst x) \<in> user_ids db'"
      using db_okD(4) [OF ok, of x] unfolding ids by (auto simp: eq db1_def)
  next
    fix c assume c: "c \<in> set (db_conflicts db')" "cf_active c"
    then have "c \<in> set (db_conflicts db1)" by (simp add: eq)
    with act [of c] db_okD(5) [OF ok1, of c] c(2)
    show "cf_incumbent c \<in> user_ids db'" "cf_displaced c \<in> user_ids db'"
      unfolding ids by (simp_all add: db1_def)
  qed
  moreover have "row_by_user db' v = (if v = u then None else row_by_user db v)" for v
  proof (cases "v = u")
    case True
    then show ?thesis unfolding row_by_user_None by (auto simp: eq row_by_user_None)
  next
    case False
    then show ?thesis by (simp add: row_by_user_def eq db1_def find_filter find_other)
  qed
  moreover have "\<not> knows db' c u" for c
    by (auto simp: knows_def eq map_of_eq_None_iff)
  ultimately show ?thesis using admin_rowD [OF a] by blast
qed

section \<open>Paired caches\<close>

definition paired :: "(string \<times> user_row) list \<Rightarrow> (int \<times> string) list \<Rightarrow> bool" where
  "paired us os \<longleftrightarrow> unique_keys us \<and> unique_keys os
     \<and> (\<forall>u m. (u, m) \<in> set us \<longrightarrow> (ur_onebot m, u) \<in> set os)
     \<and> (\<forall>i u. (i, u) \<in> set os \<longrightarrow> (\<exists>m. (u, m) \<in> set us \<and> ur_onebot m = i))"

lemma pairedD:
  assumes "paired us os"
  shows "unique_keys us" "unique_keys os" "map_of us u = Some m \<Longrightarrow> map_of os (ur_onebot m) = Some u"
    "map_of os i = Some u \<Longrightarrow> \<exists>m. map_of us u = Some m \<and> ur_onebot m = i"
proof -
  show u: "unique_keys us" "unique_keys os" using assms by (simp_all add: paired_def)
  show "map_of us u = Some m \<Longrightarrow> map_of os (ur_onebot m) = Some u"
    using assms u by (auto simp: paired_def dest!: map_of_SomeD)
  show "map_of os i = Some u \<Longrightarrow> \<exists>m. map_of us u = Some m \<and> ur_onebot m = i"
    using assms u by (fastforce simp: paired_def dest!: map_of_SomeD)
qed

lemma paired_length:
  assumes "paired us os"
  shows "length us = length os"
proof -
  let ?f = "\<lambda>(u, m). (ur_onebot m, u)"
  note D = pairedD [OF assms]
  have "inj_on ?f (set us)"
  proof (rule inj_onI)
    fix x y assume a: "x \<in> set us" "y \<in> set us" "?f x = ?f y"
    obtain u m v n where x: "x = (u, m)" "y = (v, n)" by (cases x, cases y)
    with a have "(u, m) \<in> set us" "(u, n) \<in> set us" "u = v" by auto
    with x eq_key_imp_eq_value [OF D(1)] show "x = y" by blast
  qed
  moreover have "?f ` set us = set os"
    using assms by (fastforce simp: paired_def)
  moreover have "distinct us" "distinct os" using D(1,2) by (simp_all add: distinct_map)
  ultimately show ?thesis by (metis card_image distinct_card)
qed

lemma delete_mem:
  "unique_keys al \<Longrightarrow> (k, v) \<in> set (AList.delete j al) \<longleftrightarrow> (k, v) \<in> set al \<and> k \<noteq> j"
  by (induction al) (auto simp: image_iff)

lemma delete_unique [simp]: "unique_keys al \<Longrightarrow> unique_keys (AList.delete j al)"
  by (simp add: distinct_delete)

lemma paired_delete:
  assumes p: "paired us os" and m: "map_of us u = Some m"
  shows "paired (AList.delete u us) (AList.delete (ur_onebot m) os)"
proof -
  note D = pairedD [OF p]
  have u: "(u, m) \<in> set us" using m by (rule map_of_SomeD)
  have keys: "unique_keys (AList.delete u us)" "unique_keys (AList.delete (ur_onebot m) os)"
    using D(1,2) by simp_all
  have fwd: "(ur_onebot n, v) \<in> set (AList.delete (ur_onebot m) os)" if v: "(v, n) \<in> set (AList.delete u us)" for v n
  proof -
    from v D(1) have v': "(v, n) \<in> set us" "v \<noteq> u" by (simp_all add: delete_mem)
    then have o1: "map_of os (ur_onebot n) = Some v" using D(1) by (intro D(3)) simp
    with D(3) [OF m] v'(2) have "ur_onebot n \<noteq> ur_onebot m" by auto
    with map_of_SomeD [OF o1] show ?thesis unfolding delete_mem [OF D(2)] by blast
  qed
  have bwd: "\<exists>n. (v, n) \<in> set (AList.delete u us) \<and> ur_onebot n = i"
    if v: "(i, v) \<in> set (AList.delete (ur_onebot m) os)" for i v
  proof -
    from v D(2) have v': "(i, v) \<in> set os" "i \<noteq> ur_onebot m" by (simp_all add: delete_mem)
    then obtain n where n: "map_of us v = Some n" "ur_onebot n = i" using D(2,4) by fastforce
    then have "v \<noteq> u" using m v'(2) by auto
    with n D(1) show ?thesis by (auto simp: delete_mem dest: map_of_SomeD)
  qed
  show ?thesis using keys fwd bwd unfolding paired_def by blast
qed

lemma paired_snoc:
  assumes "paired us os" "map_of us u = None" "map_of os (ur_onebot m) = None"
  shows "paired (us @ [(u, m)]) (os @ [(ur_onebot m, u)])"
proof -
  have "u \<notin> fst ` set us" "ur_onebot m \<notin> fst ` set os"
    using assms(2,3) by (simp_all add: map_of_eq_None_iff)
  then have "unique_keys (us @ [(u, m)])" "unique_keys (os @ [(ur_onebot m, u)])"
    using assms(1) by (simp_all add: paired_def)
  moreover have "\<forall>v n. (v, n) \<in> set us \<longrightarrow> (ur_onebot n, v) \<in> set os"
    "\<forall>i v. (i, v) \<in> set os \<longrightarrow> (\<exists>n. (v, n) \<in> set us \<and> ur_onebot n = i)"
    using assms(1) by (simp_all add: paired_def)
  ultimately show ?thesis unfolding paired_def set_append by simp blast
qed

lemma paired_cong:
  assumes "paired us os" "set us' = set us" "unique_keys us'" "set os' = set os" "unique_keys os'"
  shows "paired us' os'"
  using assms unfolding paired_def by blast

lemma move_to_end_known:
  assumes "unique_keys al" "map_of al k = Some v"
  shows "set (move_to_end k v al) = set al" "unique_keys (move_to_end k v al)"
proof -
  have m: "(k, v) \<in> set al" using assms(2) by (rule map_of_SomeD)
  have "(a, b) \<in> set (move_to_end k v al) \<longleftrightarrow> (a, b) \<in> set al" for a b
    using delete_mem [OF assms(1), of a b k] m eq_key_imp_eq_value [OF assms(1), of k b v]
    by (auto simp: move_to_end_def)
  then show "set (move_to_end k v al) = set al" by auto
  have "k \<notin> fst ` set (AList.delete k al)" by (auto simp: delete_mem [OF assms(1)])
  then show "unique_keys (move_to_end k v al)"
    using delete_unique [OF assms(1), of k] by (simp add: move_to_end_def)
qed

lemma delete_absent: "map_of al k = None \<Longrightarrow> AList.delete k al = al"
  by (induction al) (auto split: if_splits)

text \<open>Putting a row: the old entry of the user goes, the new one enters at the end of both.\<close>

lemma paired_put:
  assumes p: "paired us os" and free: "\<And>v. map_of os (ur_onebot m) = Some v \<Longrightarrow> v = u"
  shows "paired (move_to_end u m us) (move_to_end (ur_onebot m) u
      (case map_of us u of
         Some old \<Rightarrow> if ur_onebot old \<noteq> ur_onebot m then AList.delete (ur_onebot old) os else os
       | None \<Rightarrow> os))"
proof (cases "map_of us u")
  case None
  have "map_of os (ur_onebot m) = None"
  proof (rule ccontr)
    assume "map_of os (ur_onebot m) \<noteq> None"
    then have "map_of os (ur_onebot m) = Some u" using free by auto
    from pairedD(4) [OF p this] None show False by simp
  qed
  with None paired_snoc [OF p None] show ?thesis by (simp add: move_to_end_def delete_absent)
next
  case (Some old)
  let ?us = "AList.delete u us" and ?os = "AList.delete (ur_onebot old) os"
  note p1 = paired_delete [OF p Some]
  have gone: "map_of ?us u = None" by (simp add: delete_conv')
  have "map_of ?os (ur_onebot m) = None"
  proof (rule ccontr)
    assume "map_of ?os (ur_onebot m) \<noteq> None"
    then obtain v where v: "map_of ?os (ur_onebot m) = Some v" by auto
    then have "map_of os (ur_onebot m) = Some v" by (simp add: delete_conv' split: if_splits)
    then have "v = u" by (rule free)
    with pairedD(4) [OF p1 v] gone show False by simp
  qed
  moreover from this have "AList.delete (ur_onebot m) ?os = ?os" by (rule delete_absent)
  ultimately show ?thesis
    using paired_snoc [OF p1 gone] Some by (cases "ur_onebot old = ur_onebot m") (simp_all add: move_to_end_def)
qed

lemma evict_users_paired:
  "paired us os \<Longrightarrow> evict_users limit us os = (us', os') \<Longrightarrow>
     paired us' os' \<and> us' = drop (length us - limit) us"
proof (induction limit us os rule: evict_users.induct)
  case (1 limit os)
  then show ?case by simp
next
  case (2 limit u m us os)
  show ?case
  proof (cases "Suc (length us) > limit")
    case False
    with 2 show ?thesis by auto
  next
    case True
    have mo: "map_of os (ur_onebot m) = Some u" using pairedD(3) [OF "2.prems"(1), of u m] by simp
    have "u \<notin> fst ` set us" using "2.prems"(1) by (simp add: paired_def)
    then have d: "AList.delete u ((u, m) # us) = us" by (simp add: delete_id)
    from paired_delete [OF "2.prems"(1), of u m] d
    have pd: "paired us (AList.delete (ur_onebot m) os)" by simp
    from True "2.prems"(2) mo
    have ev: "evict_users limit us (AList.delete (ur_onebot m) os) = (us', os')" by simp
    have "paired us' os' \<and> us' = drop (length us - limit) us"
      by (rule "2.IH" [OF True, unfolded mo, simplified if_True refl, OF pd ev])
    moreover have "drop (length ((u, m) # us) - limit) ((u, m) # us) = drop (length us - limit) us"
      using True by (simp add: Suc_diff_le)
    ultimately show ?thesis by (rule ssubst [of _ _ "\<lambda>x. paired us' os' \<and> us' = x", rotated])
  qed
qed

lemma evict_onebots_short: "length os \<le> limit \<Longrightarrow> evict_onebots limit os us = (os, us)"
  by (cases os) auto

lemma evict_caches_paired:
  assumes p: "paired (ic_by_user c) (ic_by_onebot c)"
  shows "paired (ic_by_user (evict_caches c)) (ic_by_onebot (evict_caches c))
    \<and> ic_by_user (evict_caches c) = drop (length (ic_by_user c) - cache_limit c) (ic_by_user c)"
proof -
  obtain us os where e: "evict_users (cache_limit c) (ic_by_user c) (ic_by_onebot c) = (us, os)"
    by (cases "evict_users (cache_limit c) (ic_by_user c) (ic_by_onebot c)")
  note q = evict_users_paired [OF p e]
  have "length os \<le> cache_limit c"
    using paired_length [of us os] conjunct1 [OF q] conjunct2 [OF q] by simp
  with e have "ic_by_user (evict_caches c) = us" "ic_by_onebot (evict_caches c) = os"
    by (simp_all add: evict_caches_def evict_onebots_short)
  from q show ?thesis unfolding \<open>ic_by_user (evict_caches c) = us\<close> \<open>ic_by_onebot (evict_caches c) = os\<close> .
qed

section \<open>Coherence with the database\<close>

text \<open>
  \<open>ids_agree\<close>: every cached row is of a stored user and has the stored OneBot id;
  \<open>exact_but S\<close>: and outside \<open>S\<close> it is the stored row.
\<close>

definition ids_agree :: "identity_db \<Rightarrow> (string \<times> user_row) list \<Rightarrow> bool" where
  "ids_agree db us \<longleftrightarrow> (\<forall>(u, m) \<in> set us. \<exists>x. row_by_user db u = Some x \<and> ur_onebot x = ur_onebot m)"

definition exact_but :: "string set \<Rightarrow> identity_db \<Rightarrow> (string \<times> user_row) list \<Rightarrow> bool" where
  "exact_but S db us \<longleftrightarrow> (\<forall>(u, m) \<in> set us. u \<notin> S \<longrightarrow> row_by_user db u = Some m)"

definition cache_ok :: "identity_db \<Rightarrow> identity_cache \<Rightarrow> bool" where
  "cache_ok db c \<longleftrightarrow> paired (ic_by_user c) (ic_by_onebot c) \<and> exact_but {} db (ic_by_user c)"

lemma exact_ids: "exact_but {} db us \<Longrightarrow> ids_agree db us"
  by (fastforce simp: exact_but_def ids_agree_def)

text \<open>
  A row put in the cache may meet an outdated entry of its own user, with another OneBot
  id even; the entries of the other users have the ids of the database.
\<close>

lemma cache_put_rows:
  assumes ok: "db_ok db" and p: "paired (ic_by_user c) (ic_by_onebot c)"
    and ids: "ids_agree db (filter (\<lambda>x. fst x \<noteq> ur_user_id m) (ic_by_user c))"
    and x: "row_by_user db (ur_user_id m) = Some x" "ur_onebot x = ur_onebot m"
  shows "paired (ic_by_user (cache_put m c)) (ic_by_onebot (cache_put m c))"
    "set (ic_by_user (cache_put m c)) \<subseteq>
       insert (ur_user_id m, m) (set (filter (\<lambda>x. fst x \<noteq> ur_user_id m) (ic_by_user c)))"
proof -
  let ?u = "ur_user_id m" and ?us = "ic_by_user c" and ?os = "ic_by_onebot c"
  have free: "v = ?u" if o1: "map_of ?os (ur_onebot m) = Some v" for v
  proof (rule ccontr)
    assume v: "v \<noteq> ?u"
    obtain n where n: "map_of ?us v = Some n" "ur_onebot n = ur_onebot m"
      using pairedD(4) [OF p o1] by blast
    from map_of_SomeD [OF n(1)] v have "(v, n) \<in> set (filter (\<lambda>x. fst x \<noteq> ?u) ?us)" by simp
    with ids obtain y where y: "row_by_user db v = Some y" "ur_onebot y = ur_onebot n"
      unfolding ids_agree_def by blast
    have uy: "ur_user_id y = v" and ux: "ur_user_id x = ?u"
      using row_by_user_Some [OF y(1)] row_by_user_Some [OF x(1)] by simp_all
    from y n(2) uy have "row_by_onebot db (ur_onebot m) = Some y" by (simp add: row_iff [OF ok])
    moreover from x ux have "row_by_onebot db (ur_onebot m) = Some x" by (simp add: row_iff [OF ok])
    ultimately have "y = x" by simp
    with uy ux v show False by simp
  qed
  define c1 where "c1 = c\<lparr>ic_by_user := move_to_end ?u m ?us,
      ic_by_onebot := move_to_end (ur_onebot m) ?u
        (case map_of ?us ?u of
           Some old \<Rightarrow> if ur_onebot old \<noteq> ur_onebot m then AList.delete (ur_onebot old) ?os else ?os
         | None \<Rightarrow> ?os)\<rparr>"
  have put: "cache_put m c = evict_caches c1" by (simp add: cache_put_def c1_def Let_def)
  have p1: "paired (ic_by_user c1) (ic_by_onebot c1)"
    using paired_put [OF p, of m ?u] free by (simp add: c1_def)
  note e = evict_caches_paired [OF p1]
  show "paired (ic_by_user (cache_put m c)) (ic_by_onebot (cache_put m c))"
    unfolding put by (rule conjunct1 [OF e])
  have "set (ic_by_user (cache_put m c)) \<subseteq> set (ic_by_user c1)"
    unfolding put conjunct2 [OF e] by (rule set_drop_subset)
  also have "set (ic_by_user c1) \<subseteq> insert (?u, m) (set (filter (\<lambda>x. fst x \<noteq> ?u) ?us))"
    using delete_mem [OF pairedD(1) [OF p]] by (auto simp: c1_def move_to_end_def)
  finally show "set (ic_by_user (cache_put m c)) \<subseteq>
       insert (?u, m) (set (filter (\<lambda>x. fst x \<noteq> ?u) ?us))" .
qed

lemma cache_put_ok:
  assumes ok: "db_ok db" and p: "paired (ic_by_user c) (ic_by_onebot c)"
    and ex: "exact_but {ur_user_id m} db (ic_by_user c)" and x: "row_by_user db (ur_user_id m) = Some m"
  shows "cache_ok db (cache_put m c)"
proof -
  have ids: "ids_agree db (filter (\<lambda>x. fst x \<noteq> ur_user_id m) (ic_by_user c))"
    using ex by (fastforce simp: ids_agree_def exact_but_def)
  note r = cache_put_rows [OF ok p ids x refl]
  have "exact_but {} db (ic_by_user (cache_put m c))"
    using r(2) x ex unfolding exact_but_def by fastforce
  with r(1) show ?thesis by (simp add: cache_ok_def)
qed

lemma cache_touch_ok: "cache_ok db c \<Longrightarrow> cache_ok db (cache_touch m c)"
proof -
  assume c: "cache_ok db c"
  then have p: "paired (ic_by_user c) (ic_by_onebot c)" by (simp add: cache_ok_def)
  have us: "set (ic_by_user (cache_touch m c)) = set (ic_by_user c)" "unique_keys (ic_by_user (cache_touch m c))"
    using pairedD(1) [OF p] move_to_end_known [of "ic_by_user c"] by (auto simp: cache_touch_def split: option.split)
  have os: "set (ic_by_onebot (cache_touch m c)) = set (ic_by_onebot c)" "unique_keys (ic_by_onebot (cache_touch m c))"
    using pairedD(2) [OF p] move_to_end_known [of "ic_by_onebot c"] by (auto simp: cache_touch_def split: option.split)
  from paired_cong [OF p us os] us(1) c show ?thesis by (simp add: cache_ok_def exact_but_def)
qed

lemma remember_fields [simp]:
  "ic_by_user (remember_bot_user b u c) = ic_by_user c" "ic_by_onebot (remember_bot_user b u c) = ic_by_onebot c"
  by (simp_all add: remember_bot_user_def Let_def)

lemma remember_ok [simp]: "cache_ok db (remember_bot_user b u c) = cache_ok db c"
  by (simp add: cache_ok_def)

lemma cache_ok_cong: "(\<And>v. row_by_user db' v = row_by_user db v) \<Longrightarrow> cache_ok db c \<Longrightarrow> cache_ok db' c"
  by (simp add: cache_ok_def exact_but_def)

definition registry_ok :: "registry \<Rightarrow> bool" where
  "registry_ok g \<longleftrightarrow> db_ok (rg_db g) \<and> cache_ok (rg_db g) (rg_cache g)"

lemma on_cache_fields [simp]:
  "rg_db (on_cache f g) = rg_db g" "rg_cache (on_cache f g) = f (rg_cache g)" "rg_bot_id (on_cache f g) = rg_bot_id g"
  by (simp_all add: on_cache_def)

lemma sync_warning_fields [simp]:
  "rg_db (sync_warning b g) = rg_db g" "rg_cache (sync_warning b g) = rg_cache g"
  "registry_ok (sync_warning b g) = registry_ok g"
  by (simp_all add: sync_warning_def registry_ok_def)

lemma remember_if_fields [simp]:
  "rg_db (remember_if b u g) = rg_db g" "registry_ok (remember_if b u g) = registry_ok g"
  "ic_by_user (rg_cache (remember_if b u g)) = ic_by_user (rg_cache g)"
  "ic_by_onebot (rg_cache (remember_if b u g)) = ic_by_onebot (rg_cache g)"
  by (simp_all add: remember_if_def registry_ok_def)

section \<open>Every operation keeps the registry coherent\<close>

lemma ensure_in_db_ok:
  assumes ok: "db_ok db" and e: "ensure_in_db u p ov b now db = Inr (r, c, db')"
  shows "db_ok db' \<and> row_by_user db' u = Some r \<and> ur_user_id r = u
    \<and> (\<forall>v. v \<noteq> u \<longrightarrow> row_by_user db' v = row_by_user db v)
    \<and> (\<forall>old. row_by_user db u = Some old \<longrightarrow> ur_onebot r = ur_onebot old)
    \<and> (b \<noteq> [] \<longrightarrow> knows db' b u)"
proof (cases "row_by_user db u")
  case (Some old)
  obtain d where d: "ensure_in_db u p ov b now db = Inr (touch_profile p now old, False, d)" "db_ok d"
    "\<forall>v. row_by_user d v = (if v = u then Some (touch_profile p now old) else row_by_user db v)"
    "b \<noteq> [] \<longrightarrow> knows d b u"
    using ensure_in_db_known [OF ok Some, of p ov b now] by (elim exE conjE) (rule that; assumption)
  then have "r = touch_profile p now old" "db' = d" using e by simp_all
  with d Some row_by_user_Some [OF Some] show ?thesis by simp
next
  case None
  from ensure_in_db_new [OF ok None e] None show ?thesis by auto
qed

lemma ensure_all_in_db_ok:
  "db_ok db \<Longrightarrow> ensure_all_in_db its b now db = Inr (rs, c, db') \<Longrightarrow>
     db_ok db' \<and> map ur_user_id rs = map fst its
     \<and> (\<forall>v. v \<notin> fst ` set its \<longrightarrow> row_by_user db' v = row_by_user db v)
     \<and> (\<forall>v old. row_by_user db v = Some old \<longrightarrow> (\<exists>x. row_by_user db' v = Some x \<and> ur_onebot x = ur_onebot old))
     \<and> (\<forall>r \<in> set rs. \<exists>x. row_by_user db' (ur_user_id r) = Some x \<and> ur_onebot x = ur_onebot r)
     \<and> (\<forall>xs r ys. rs = xs @ r # ys \<longrightarrow> ur_user_id r \<notin> ur_user_id ` set ys \<longrightarrow>
          row_by_user db' (ur_user_id r) = Some r)"
proof (induction its arbitrary: db rs c db')
  case Nil
  then show ?case by simp
next
  case (Cons item its)
  obtain u p where item: "item = (u, p)" by (cases item)
  obtain r c1 db1 where e1: "ensure_in_db u p None b now db = Inr (r, c1, db1)"
    using Cons.prems(2) item by (cases "ensure_in_db u p None b now db") auto
  obtain rs2 c2 db2 where "ensure_all_in_db its b now db1 = Inr (rs2, c2, db2)"
    using Cons.prems(2) item e1 by (cases "ensure_all_in_db its b now db1") auto
  then have e: "ensure_in_db u p None b now db = Inr (r, c1, db1)"
    "ensure_all_in_db its b now db1 = Inr (rs2, c2, db')" and rs: "rs = r # rs2"
    using Cons.prems(2) item e1 by auto
  note d = ensure_in_db_ok [OF Cons.prems(1) e(1)]
  have ih: "db_ok db'" "map ur_user_id rs2 = map fst its"
    "\<And>v. v \<notin> fst ` set its \<Longrightarrow> row_by_user db' v = row_by_user db1 v"
    "\<And>v old. row_by_user db1 v = Some old \<Longrightarrow> \<exists>x. row_by_user db' v = Some x \<and> ur_onebot x = ur_onebot old"
    "\<And>r. r \<in> set rs2 \<Longrightarrow> \<exists>x. row_by_user db' (ur_user_id r) = Some x \<and> ur_onebot x = ur_onebot r"
    "\<And>xs r ys. rs2 = xs @ r # ys \<Longrightarrow> ur_user_id r \<notin> ur_user_id ` set ys \<Longrightarrow>
       row_by_user db' (ur_user_id r) = Some r"
    using Cons.IH [of db1 rs2 c2 db'] d e(2) by auto
  have keys: "ur_user_id ` set rs2 = fst ` set its" using ih(2) by (metis list.set_map)
  have r1: "row_by_user db1 u = Some r" "ur_user_id r = u" using d by simp_all
  show ?case
  proof (intro conjI allI ballI impI)
    show "db_ok db'" by (rule ih(1))
    show "map ur_user_id rs = map fst (item # its)" using item rs ih(2) r1(2) by simp
  next
    fix v assume "v \<notin> fst ` set (item # its)"
    with item show "row_by_user db' v = row_by_user db v" using ih(3) [of v] d by simp
  next
    fix v old assume o: "row_by_user db v = Some old"
    show "\<exists>x. row_by_user db' v = Some x \<and> ur_onebot x = ur_onebot old"
    proof (cases "v = u")
      case True
      with o d ih(4) [OF r1(1)] show ?thesis by auto
    next
      case False
      with o d have "row_by_user db1 v = Some old" by simp
      from ih(4) [OF this] show ?thesis .
    qed
  next
    fix x assume "x \<in> set rs"
    then show "\<exists>y. row_by_user db' (ur_user_id x) = Some y \<and> ur_onebot y = ur_onebot x"
      using rs r1 ih(4) [OF r1(1)] ih(5) by auto
  next
    fix xs x ys assume s: "rs = xs @ x # ys" "ur_user_id x \<notin> ur_user_id ` set ys"
    show "row_by_user db' (ur_user_id x) = Some x"
    proof (cases xs)
      case xs: Nil
      with s rs keys r1 ih(3) [of u] show ?thesis by simp
    next
      case (Cons z zs)
      with s rs have "rs2 = zs @ x # ys" by simp
      from ih(6) [OF this s(2)] show ?thesis .
    qed
  qed
qed

lemma cache_all_ok:
  "db_ok (rg_db g) \<Longrightarrow> paired (ic_by_user (rg_cache g)) (ic_by_onebot (rg_cache g)) \<Longrightarrow>
     ids_agree (rg_db g) (ic_by_user (rg_cache g)) \<Longrightarrow>
     exact_but (ur_user_id ` set rs) (rg_db g) (ic_by_user (rg_cache g)) \<Longrightarrow>
     \<forall>r \<in> set rs. \<exists>x. row_by_user (rg_db g) (ur_user_id r) = Some x \<and> ur_onebot x = ur_onebot r \<Longrightarrow>
     \<forall>xs r ys. rs = xs @ r # ys \<longrightarrow> ur_user_id r \<notin> ur_user_id ` set ys \<longrightarrow>
       row_by_user (rg_db g) (ur_user_id r) = Some r \<Longrightarrow>
     registry_ok (cache_all b rs g) \<and> rg_db (cache_all b rs g) = rg_db g"
proof (induction rs arbitrary: g)
  case Nil
  then show ?case by (simp add: registry_ok_def cache_ok_def)
next
  case (Cons r rs)
  let ?c = "rg_cache g" and ?db = "rg_db g"
  let ?g = "remember_if b (ur_user_id r) (on_cache (cache_put r) g)"
  obtain x where x: "row_by_user ?db (ur_user_id r) = Some x" "ur_onebot x = ur_onebot r"
    using Cons.prems(5) by auto
  have ids: "ids_agree ?db (filter (\<lambda>x. fst x \<noteq> ur_user_id r) (ic_by_user ?c))"
    using Cons.prems(3) by (simp add: ids_agree_def)
  note put = cache_put_rows [OF Cons.prems(1,2) ids x]
  have ids': "ids_agree ?db (ic_by_user (cache_put r ?c))"
    using put(2) x Cons.prems(3) unfolding ids_agree_def by fastforce
  have fin: "row_by_user ?db (ur_user_id r) = Some r" if "ur_user_id r \<notin> ur_user_id ` set rs"
    using Cons.prems(6) that by (metis append_Nil)
  have ex: "exact_but (ur_user_id ` set rs) ?db (ic_by_user (cache_put r ?c))"
    unfolding exact_but_def
  proof (clarify)
    fix v n assume v: "(v, n) \<in> set (ic_by_user (cache_put r ?c))" "v \<notin> ur_user_id ` set rs"
    then consider "v = ur_user_id r" "n = r" | "v \<noteq> ur_user_id r" "(v, n) \<in> set (ic_by_user ?c)"
      using put(2) by auto
    then show "row_by_user ?db v = Some n"
    proof cases
      case 1
      with v(2) fin show ?thesis by simp
    next
      case 2
      with v(2) Cons.prems(4) show ?thesis unfolding exact_but_def by auto
    qed
  qed
  have rest: "\<forall>xs r ys. rs = xs @ r # ys \<longrightarrow> ur_user_id r \<notin> ur_user_id ` set ys \<longrightarrow>
       row_by_user ?db (ur_user_id r) = Some r"
    using Cons.prems(6) by (metis append_Cons)
  have "registry_ok (cache_all b rs ?g) \<and> rg_db (cache_all b rs ?g) = rg_db ?g"
    by (rule Cons.IH) (use Cons.prems(1,5) put(1) ids' ex rest in simp_all)
  then show ?case by simp
qed

lemma registry_okD:
  assumes "registry_ok g"
  shows "db_ok (rg_db g)" "cache_ok (rg_db g) (rg_cache g)"
    "paired (ic_by_user (rg_cache g)) (ic_by_onebot (rg_cache g))"
    "map_of (ic_by_user (rg_cache g)) u = Some m \<Longrightarrow> row_by_user (rg_db g) u = Some m"
    "map_of (ic_by_onebot (rg_cache g)) i = Some u \<Longrightarrow>
       \<exists>m. map_of (ic_by_user (rg_cache g)) u = Some m \<and> row_by_onebot (rg_db g) i = Some m"
proof -
  show a: "db_ok (rg_db g)" "cache_ok (rg_db g) (rg_cache g)"
    "paired (ic_by_user (rg_cache g)) (ic_by_onebot (rg_cache g))"
    using assms by (simp_all add: registry_ok_def cache_ok_def)
  show row: "map_of (ic_by_user (rg_cache g)) u = Some m \<Longrightarrow> row_by_user (rg_db g) u = Some m" for u m
    using a(2) by (auto simp: cache_ok_def exact_but_def dest!: map_of_SomeD)
  assume "map_of (ic_by_onebot (rg_cache g)) i = Some u"
  from pairedD(4) [OF a(3) this] obtain m where m: "map_of (ic_by_user (rg_cache g)) u = Some m" "ur_onebot m = i"
    by blast
  from row [OF m(1)] row_by_user_Some [OF row [OF m(1)]] m(2)
  have "row_by_onebot (rg_db g) i = Some m" by (simp add: row_iff [OF a(1)])
  with m(1) show "\<exists>m. map_of (ic_by_user (rg_cache g)) u = Some m \<and> row_by_onebot (rg_db g) i = Some m" by blast
qed

lemma touch_cached_ok: "registry_ok g \<Longrightarrow> registry_ok (on_cache (cache_touch m) g)"
  by (simp add: registry_ok_def cache_touch_ok)

lemma put_row_ok:
  assumes g: "registry_ok g" and r: "row_by_user (rg_db g) (ur_user_id r) = Some r"
  shows "registry_ok (on_cache (cache_put r) g)"
proof -
  have "exact_but {ur_user_id r} (rg_db g) (ic_by_user (rg_cache g))"
    using registry_okD(2) [OF g] by (auto simp: cache_ok_def exact_but_def)
  from cache_put_ok [OF registry_okD(1,3) [OF g] this r] registry_okD(1) [OF g]
  show ?thesis by (simp add: registry_ok_def)
qed

lemma touch_bot_user_ok:
  assumes g: "registry_ok g" and u: "row_by_user (rg_db g) u = Some r" and b: "b \<noteq> []"
  shows "\<exists>g'. touch_bot_user b u now g = (Inr (), g') \<and> registry_ok g'
    \<and> (\<forall>v. row_by_user (rg_db g') v = row_by_user (rg_db g) v)"
proof -
  have up: "upsert_if b u now (rg_db g) = upsert_bot_user b u now (rg_db g)" using b by (simp add: upsert_if_def)
  have "u \<in> user_ids (rg_db g)" using row_by_user_Some [OF u] by (auto simp: user_ids_def)
  from upsert_if_ok [OF registry_okD(1) [OF g] this, of b now]
  have ok: "db_ok (upsert_bot_user b u now (rg_db g))" by (simp add: up)
  have rows: "row_by_user (upsert_bot_user b u now (rg_db g)) v = row_by_user (rg_db g) v" for v
    using upsert_if_users(3) [of b u now "rg_db g" v] by (simp add: up)
  have "cache_ok (upsert_bot_user b u now (rg_db g)) (rg_cache g)"
    by (rule cache_ok_cong [OF rows registry_okD(2) [OF g]])
  with ok rows u show ?thesis
    by (simp add: touch_bot_user_def registry_ok_def)
qed

lemma ensure_mapping_ok:
  assumes g: "registry_ok g" and e: "ensure_mapping_sync now uid p ov b g = (res, g')"
  shows "registry_ok g' \<and> (case res of
      Inl x \<Rightarrow> g' = g
    | Inr r \<Rightarrow> row_by_user (rg_db g') (py_strip uid) = Some r
        \<and> (\<forall>v. v \<noteq> py_strip uid \<longrightarrow> row_by_user (rg_db g') v = row_by_user (rg_db g) v)
        \<and> (\<forall>old. row_by_user (rg_db g) (py_strip uid) = Some old \<longrightarrow> ur_onebot r = ur_onebot old))"
proof -
  define u where "u = py_strip uid"
  define q where "q = normalized_profile p"
  define bb where "bb = bot_of b g"
  define hit where "hit = (case map_of (ic_by_user (rg_cache g)) u of
      Some m \<Rightarrow> if profile_matches q m then Some m else None | None \<Rightarrow> None)"
  have eq0: "ensure_mapping_sync now uid p ov b g =
    (if u = [] then (Inl (ValueError ''user_id''), g)
     else case hit of
        Some m \<Rightarrow> bnd (when_do (bb \<noteq> [] \<and> (bb, u) \<notin> set (ic_seen (rg_cache g))) (touch_bot_user bb u now))
                  (\<lambda>_. bnd (modify (on_cache (cache_touch m))) (\<lambda>_. ret m)) g
      | None \<Rightarrow>
        (case ensure_in_db u q ov bb now (rg_db g) of
           Inl x \<Rightarrow> (Inl x, g)
         | Inr (r, conflict, db) \<Rightarrow>
             (let g1 = remember_if bb u (on_cache (cache_put r) (g\<lparr>rg_db := db\<rparr>))
              in (Inr r, if conflict then sync_warning (py_strip (rg_bot_id g1)) g1 else g1))))"
    unfolding ensure_mapping_sync_def Let_def u_def q_def bb_def hit_def by simp
  consider (blank) "u = []" | (cached) m where "u \<noteq> []" "hit = Some m" | (miss) "u \<noteq> []" "hit = None"
    by (cases "u = []"; cases hit) auto
  then show ?thesis
  proof cases
    case blank
    with e g show ?thesis unfolding eq0 by auto
  next
    case (cached m)
    have "map_of (ic_by_user (rg_cache g)) u = Some m"
      using cached(2) by (auto simp: hit_def split: option.splits if_splits)
    from registry_okD(4) [OF g this] have row: "row_by_user (rg_db g) u = Some m" .
    let ?w = "when_do (bb \<noteq> [] \<and> (bb, u) \<notin> set (ic_seen (rg_cache g))) (touch_bot_user bb u now)"
    obtain g1 where g1: "?w g = (Inr (), g1)" "registry_ok g1"
      "\<forall>v. row_by_user (rg_db g1) v = row_by_user (rg_db g) v"
    proof (cases "bb \<noteq> [] \<and> (bb, u) \<notin> set (ic_seen (rg_cache g))")
      case True
      then have b: "bb \<noteq> []" by blast
      from touch_bot_user_ok [OF g row b, of now] True that show ?thesis by (auto simp: when_do_def)
    next
      case False
      with g that [of g] show ?thesis by (simp add: when_do_def ret_def)
    qed
    have "ensure_mapping_sync now uid p ov b g = bnd ?w (\<lambda>_. bnd (modify (on_cache (cache_touch m))) (\<lambda>_. ret m)) g"
      unfolding eq0 using cached by simp
    then have "res = Inr m" "g' = on_cache (cache_touch m) g1"
      using e g1(1) by (simp_all add: bnd_def modify_def ret_def)
    with g1 row touch_cached_ok [OF g1(2)] show ?thesis by (simp add: u_def)
  next
    case miss
    have eq: "ensure_mapping_sync now uid p ov b g =
        (case ensure_in_db u q ov bb now (rg_db g) of
           Inl x \<Rightarrow> (Inl x, g)
         | Inr (r, conflict, db) \<Rightarrow>
             (let g1 = remember_if bb u (on_cache (cache_put r) (g\<lparr>rg_db := db\<rparr>))
              in (Inr r, if conflict then sync_warning (py_strip (rg_bot_id g1)) g1 else g1)))"
      unfolding eq0 using miss by simp
    show ?thesis
    proof (cases "ensure_in_db u q ov bb now (rg_db g)")
      case (Inl x)
      with eq e g show ?thesis by simp
    next
      case (Inr t)
      obtain r conflict db where t: "t = (r, conflict, db)" by (cases t)
      note d = ensure_in_db_ok [OF registry_okD(1) [OF g] Inr [unfolded t]]
      have "exact_but {ur_user_id r} db (ic_by_user (rg_cache g))"
        using d registry_okD(2) [OF g] by (fastforce simp: cache_ok_def exact_but_def)
      with cache_put_ok [of db "rg_cache g" r] d registry_okD(3) [OF g]
      have "registry_ok (on_cache (cache_put r) (g\<lparr>rg_db := db\<rparr>))" by (simp add: registry_ok_def)
      moreover have "res = Inr r \<and> g' = (let g1 = remember_if bb u (on_cache (cache_put r) (g\<lparr>rg_db := db\<rparr>))
          in if conflict then sync_warning (py_strip (rg_bot_id g1)) g1 else g1)"
        using e Inr t unfolding eq by (auto simp: Let_def)
      then have "res = Inr r" "rg_db g' = db"
        "registry_ok g' = registry_ok (on_cache (cache_put r) (g\<lparr>rg_db := db\<rparr>))"
        by (simp_all add: Let_def)
      ultimately show ?thesis using d by (simp add: u_def)
    qed
  qed
qed

lemma ensure_mappings_ok:
  assumes g: "registry_ok g" and e: "ensure_mappings_sync now items b g = (res, g')"
  shows "registry_ok g' \<and> (case res of
      Inl x \<Rightarrow> g' = g
    | Inr rs \<Rightarrow> map ur_user_id rs = map fst (List.map_filter normalized_item items)
        \<and> (\<forall>r \<in> set rs. \<exists>x. row_by_user (rg_db g') (ur_user_id r) = Some x \<and> ur_onebot x = ur_onebot r)
        \<and> (\<forall>v old. row_by_user (rg_db g) v = Some old \<longrightarrow>
             (\<exists>x. row_by_user (rg_db g') v = Some x \<and> ur_onebot x = ur_onebot old))
        \<and> (\<forall>v. v \<notin> fst ` set (List.map_filter normalized_item items) \<longrightarrow>
             row_by_user (rg_db g') v = row_by_user (rg_db g) v))"
proof -
  define its where "its = List.map_filter normalized_item items"
  define bb where "bb = bot_of b g"
  show ?thesis
  proof (cases "its = []")
    case True
    with e g show ?thesis by (auto simp: ensure_mappings_sync_def Let_def its_def)
  next
    case False
    show ?thesis
    proof (cases "ensure_all_in_db its bb now (rg_db g)")
      case (Inl x)
      with False e g show ?thesis by (auto simp: ensure_mappings_sync_def Let_def its_def bb_def)
    next
      case (Inr t)
      obtain rs c db where t: "t = (rs, c, db)" by (cases t)
      note d = ensure_all_in_db_ok [OF registry_okD(1) [OF g] Inr [unfolded t]]
      have ok: "db_ok db" and keys: "map ur_user_id rs = map fst its"
        and same: "\<And>v. v \<notin> fst ` set its \<Longrightarrow> row_by_user db v = row_by_user (rg_db g) v"
        and old: "\<And>v old. row_by_user (rg_db g) v = Some old \<Longrightarrow>
             \<exists>x. row_by_user db v = Some x \<and> ur_onebot x = ur_onebot old"
        and res: "\<forall>r \<in> set rs. \<exists>x. row_by_user db (ur_user_id r) = Some x \<and> ur_onebot x = ur_onebot r"
        and fin: "\<forall>xs r ys. rs = xs @ r # ys \<longrightarrow> ur_user_id r \<notin> ur_user_id ` set ys \<longrightarrow>
             row_by_user db (ur_user_id r) = Some r"
        using d by blast+
      have ks: "ur_user_id ` set rs = fst ` set its" using keys by (metis list.set_map)
      have us: "row_by_user (rg_db g) u = Some m" if "(u, m) \<in> set (ic_by_user (rg_cache g))" for u m
        using registry_okD(2) [OF g] that by (auto simp: cache_ok_def exact_but_def)
      have "registry_ok (cache_all bb rs (g\<lparr>rg_db := db\<rparr>)) \<and>
          rg_db (cache_all bb rs (g\<lparr>rg_db := db\<rparr>)) = rg_db (g\<lparr>rg_db := db\<rparr>)"
      proof (rule cache_all_ok)
        show "ids_agree (rg_db (g\<lparr>rg_db := db\<rparr>)) (ic_by_user (rg_cache (g\<lparr>rg_db := db\<rparr>)))"
          using us old by (auto simp: ids_agree_def)
        show "exact_but (ur_user_id ` set rs) (rg_db (g\<lparr>rg_db := db\<rparr>)) (ic_by_user (rg_cache (g\<lparr>rg_db := db\<rparr>)))"
          using us same unfolding ks by (auto simp: exact_but_def)
      qed (use ok registry_okD(3) [OF g] res fin in simp_all)
      moreover have "res = Inr rs \<and> g' = (let g1 = cache_all bb rs (g\<lparr>rg_db := db\<rparr>)
          in if c then sync_warning (py_strip (rg_bot_id g1)) g1 else g1)"
        using e Inr t False unfolding ensure_mappings_sync_def its_def bb_def by (auto simp: Let_def)
      then have "res = Inr rs" "rg_db g' = rg_db (cache_all bb rs (g\<lparr>rg_db := db\<rparr>))"
        "registry_ok g' = registry_ok (cache_all bb rs (g\<lparr>rg_db := db\<rparr>))"
        by (simp_all add: Let_def)
      ultimately show ?thesis using res old keys same by (simp add: its_def)
    qed
  qed
qed

lemma get_by_user_id_ok:
  assumes g: "registry_ok g"
  shows "\<exists>g'. get_by_user_id uid g =
      (Inr (if py_strip uid = [] then None else row_by_user (rg_db g) (py_strip uid)), g')
    \<and> registry_ok g' \<and> rg_db g' = rg_db g"
proof (cases "map_of (ic_by_user (rg_cache g)) (py_strip uid)")
  case (Some m)
  with g registry_okD(4) [OF g Some] touch_cached_ok [OF g] show ?thesis
    by (simp add: get_by_user_id_def Let_def)
next
  case None
  show ?thesis
  proof (cases "row_by_user (rg_db g) (py_strip uid)")
    case (Some r)
    with put_row_ok [OF g, of r] row_by_user_Some [OF Some] None g show ?thesis
      by (simp add: get_by_user_id_def Let_def)
  qed (use None g in \<open>simp add: get_by_user_id_def Let_def\<close>)
qed

lemma from_db_ok:
  assumes g: "registry_ok g"
  shows "\<exists>g'. (case row_by_onebot (rg_db g) i of
        None \<Rightarrow> (Inr None :: exn + user_row option, g)
      | Some r \<Rightarrow> (Inr (Some r), on_cache (cache_put r) g)) = (Inr (row_by_onebot (rg_db g) i), g')
    \<and> registry_ok g' \<and> rg_db g' = rg_db g"
proof (cases "row_by_onebot (rg_db g) i")
  case (Some r)
  then have "row_by_user (rg_db g) (ur_user_id r) = Some r"
    using row_iff [OF registry_okD(1) [OF g]] by blast
  from put_row_ok [OF g this] Some show ?thesis by simp
qed (simp add: g)

lemma get_by_onebot_id_sync_ok:
  assumes g: "registry_ok g"
  shows "\<exists>g'. get_by_onebot_id_sync v g =
      (Inr (case py_int v of Inl _ \<Rightarrow> None | Inr i \<Rightarrow> row_by_onebot (rg_db g) i), g')
    \<and> registry_ok g' \<and> rg_db g' = rg_db g"
proof (cases "py_int v")
  case (Inr i)
  show ?thesis
  proof (cases "map_of (ic_by_onebot (rg_cache g)) i")
    case None
    with Inr from_db_ok [OF g, of i] show ?thesis by (simp add: get_by_onebot_id_sync_def)
  next
    case (Some u)
    from registry_okD(5) [OF g Some] obtain m where
      m: "map_of (ic_by_user (rg_cache g)) u = Some m" "row_by_onebot (rg_db g) i = Some m" by blast
    with Inr Some from_db_ok [OF g, of i] touch_cached_ok [OF g, of m] show ?thesis
      by (cases "u = []") (simp_all add: get_by_onebot_id_sync_def)
  qed
qed (simp add: get_by_onebot_id_sync_def g)

lemma get_by_onebot_id_ok:
  assumes g: "registry_ok g"
  shows "\<exists>g'. get_by_onebot_id v g =
      (Inr (case validate_onebot_user_id v of Inl _ \<Rightarrow> None | Inr i \<Rightarrow> row_by_onebot (rg_db g) i), g')
    \<and> registry_ok g' \<and> rg_db g' = rg_db g"
proof (cases "validate_onebot_user_id v")
  case (Inr i)
  then have i: "py_int v = Inr i" using validate_in_range by blast
  show ?thesis
  proof (cases "map_of (ic_by_onebot (rg_cache g)) i")
    case None
    with Inr i get_by_onebot_id_sync_ok [OF g, of v] show ?thesis by (simp add: get_by_onebot_id_def)
  next
    case (Some u)
    from registry_okD(5) [OF g Some] obtain m where
      m: "map_of (ic_by_user (rg_cache g)) u = Some m" "row_by_onebot (rg_db g) i = Some m" by blast
    with Inr Some touch_cached_ok [OF g, of m] show ?thesis by (simp add: get_by_onebot_id_def)
  qed
qed (simp add: get_by_onebot_id_def g)

lemma delete_twice [simp]: "AList.delete k (AList.delete k al) = AList.delete k al"
  by (rule delete_absent) (simp add: delete_conv')

lemma cache_put_seen:
  "ic_by_user (cache_put r (c\<lparr>ic_seen := x\<rparr>)) = ic_by_user (cache_put r c)"
  "ic_by_onebot (cache_put r (c\<lparr>ic_seen := x\<rparr>)) = ic_by_onebot (cache_put r c)"
  by (cases "map_of (ic_by_user c) (ur_user_id r)";
      simp add: cache_put_def Let_def evict_caches_def cache_limit_def case_prod_beta)+

lemma cache_put_after_drop:
  assumes g: "registry_ok g" and old: "row_by_user (rg_db g) u = Some old" and r: "ur_user_id r = u"
  shows "cache_put r ((rg_cache g)\<lparr>ic_by_onebot := AList.delete (ur_onebot old) (ic_by_onebot (rg_cache g))\<rparr>)
    = cache_put r (rg_cache g)"
proof (cases "map_of (ic_by_user (rg_cache g)) u")
  case None
  have "map_of (ic_by_onebot (rg_cache g)) (ur_onebot old) = None"
  proof (rule ccontr)
    assume "map_of (ic_by_onebot (rg_cache g)) (ur_onebot old) \<noteq> None"
    then obtain v where "map_of (ic_by_onebot (rg_cache g)) (ur_onebot old) = Some v" by auto
    from registry_okD(5) [OF g this] obtain m where m: "map_of (ic_by_user (rg_cache g)) v = Some m"
      "row_by_onebot (rg_db g) (ur_onebot old) = Some m" by blast
    have "row_by_onebot (rg_db g) (ur_onebot old) = Some old"
      using old row_by_user_Some [OF old] by (simp add: row_iff [OF registry_okD(1) [OF g]])
    with m(2) have "m = old" by simp
    with registry_okD(4) [OF g m(1)] row_by_user_Some row_by_user_Some [OF old] have "v = u" by blast
    with m(1) None show False by simp
  qed
  then show ?thesis by (simp add: delete_absent)
next
  case (Some m)
  with registry_okD(4) [OF g Some] old have "m = old" by simp
  with Some r show ?thesis
    by (cases "ur_onebot old = ur_onebot r") (simp_all add: cache_put_def Let_def move_to_end_def)
qed

lemma override_ok:
  assumes g: "registry_ok g" and e: "override_onebot_id_sync now b uid v revision g = (res, g')"
  shows "registry_ok g' \<and> (case res of
      Inl x \<Rightarrow> g' = g
    | Inr (r, _) \<Rightarrow> validate_onebot_user_id v = Inr (ur_onebot r)
        \<and> (\<forall>w. row_by_user (rg_db g') w = (if w = py_strip uid then Some r else row_by_user (rg_db g) w))
        \<and> (\<exists>old. row_by_user (rg_db g) (py_strip uid) = Some old \<and> ur_revision old = revision
             \<and> ur_revision r = revision + 1)
        \<and> (\<forall>w x. w \<noteq> py_strip uid \<longrightarrow> row_by_user (rg_db g) w = Some x \<longrightarrow> ur_onebot x \<noteq> ur_onebot r))"
proof (cases "validate_onebot_user_id v")
  case (Inl x)
  with e g show ?thesis by (auto simp: override_onebot_id_sync_def Let_def)
next
  case i: (Inr i)
  define u where "u = py_strip uid"
  define bb where "bb = py_strip b"
  have range: "in_range i" using validate_in_range [OF i] by blast
  show ?thesis
  proof (cases "override_in_db bb u i revision now (rg_db g)")
    case (Inl x)
    with i e g show ?thesis by (auto simp: override_onebot_id_sync_def Let_def u_def bb_def)
  next
    case (Inr t)
    obtain r resolved created db where t: "t = (r, resolved, created, db)" by (cases t)
    note d = override_in_db_ok [OF registry_okD(1) [OF g] range Inr [unfolded t]]
    then obtain old where old: "row_by_user (rg_db g) u = Some old" "ur_revision old = revision"
      "ur_revision r = revision + 1" by blast
    have r: "ur_user_id r = u" "ur_onebot r = i" using d by simp_all
    let ?c = "cache_put r (rg_cache g)"
    have c0: "cache_put r ((rg_cache g)\<lparr>ic_by_onebot := AList.delete (ur_onebot old) (ic_by_onebot (rg_cache g))\<rparr>) = ?c"
      by (rule cache_put_after_drop [OF g old(1) r(1)])
    have "exact_but {ur_user_id r} db (ic_by_user (rg_cache g))"
      using d registry_okD(2) [OF g] r(1) by (fastforce simp: cache_ok_def exact_but_def)
    with cache_put_ok [of db "rg_cache g" r] d registry_okD(3) [OF g] r(1)
    have ok: "db_ok db" "cache_ok db ?c" by simp_all
    define c1 where "c1 = (remember_bot_user bb u (rg_cache g))\<lparr>ic_by_onebot :=
        AList.delete (ur_onebot old) (ic_by_onebot (rg_cache g))\<rparr>"
    have sim: "cache_ok db (cache_put r c1) = cache_ok db (cache_put r (c1\<lparr>ic_seen := ic_seen (rg_cache g)\<rparr>))"
      by (simp only: cache_ok_def cache_put_seen)
    have "c1\<lparr>ic_seen := ic_seen (rg_cache g)\<rparr>
        = (rg_cache g)\<lparr>ic_by_onebot := AList.delete (ur_onebot old) (ic_by_onebot (rg_cache g))\<rparr>"
      by (simp add: c1_def remember_bot_user_def Let_def)
    with sim c0 ok have okc: "cache_ok db (cache_put r c1)" by simp
    have "res = Inr (r, resolved, created) \<and>
        g' = sync_warning bb (g\<lparr>rg_db := db, rg_cache := cache_put r c1\<rparr>)"
      using e i Inr t old(1)
      by (auto simp: override_onebot_id_sync_def Let_def u_def bb_def on_cache_def c1_def)
    with ok okc d i r old show ?thesis by (auto simp: registry_ok_def u_def)
  qed
qed

lemma delete_ok:
  assumes g: "registry_ok g" and e: "delete_mapping_sync now b uid revision g = (res, g')"
  shows "registry_ok g' \<and> (case res of
      Inl x \<Rightarrow> g' = g
    | Inr (r, _) \<Rightarrow> row_by_user (rg_db g) (py_strip uid) = Some r \<and> ur_revision r = revision
        \<and> (\<forall>w. row_by_user (rg_db g') w = (if w = py_strip uid then None else row_by_user (rg_db g) w))
        \<and> (\<forall>c. \<not> knows (rg_db g') c (py_strip uid)))"
proof -
  define u where "u = py_strip uid"
  define bb where "bb = py_strip b"
  show ?thesis
  proof (cases "delete_in_db bb u revision now (rg_db g)")
    case (Inl x)
    with e g show ?thesis by (auto simp: delete_mapping_sync_def Let_def u_def bb_def)
  next
    case (Inr t)
    obtain r resolved db where t: "t = (r, resolved, db)" by (cases t)
    note d = delete_in_db_ok [OF registry_okD(1) [OF g] Inr [unfolded t]]
    let ?c = "invalidate_cache (Some u) (rg_cache g)"
    note p = registry_okD(3) [OF g]
    have c: "paired (ic_by_user ?c) (ic_by_onebot ?c) \<and>
        set (ic_by_user ?c) \<subseteq> {x \<in> set (ic_by_user (rg_cache g)). fst x \<noteq> u}"
    proof (cases "map_of (ic_by_user (rg_cache g)) u")
      case None
      then have "u \<notin> fst ` set (ic_by_user (rg_cache g))" by (simp add: map_of_eq_None_iff)
      then show ?thesis using p None by (auto simp: invalidate_cache_def image_iff)
    next
      case (Some m)
      with paired_delete [OF p Some] delete_mem [OF pairedD(1) [OF p]]
      show ?thesis by (auto simp: invalidate_cache_def)
    qed
    then have "exact_but {} db (ic_by_user ?c)"
      using d registry_okD(2) [OF g] by (fastforce simp: cache_ok_def exact_but_def)
    with c have ok: "cache_ok db (?c\<lparr>ic_seen := x\<rparr>)" for x by (simp add: cache_ok_def)
    have "res = Inr (r, resolved) \<and> g' = sync_warning bb (g\<lparr>rg_db := db, rg_cache :=
        ?c\<lparr>ic_seen := filter (\<lambda>(_, x). x \<noteq> u) (ic_seen ?c)\<rparr>\<rparr>)"
      using e Inr t by (auto simp: delete_mapping_sync_def Let_def u_def bb_def on_cache_def)
    with ok d show ?thesis by (simp add: registry_ok_def u_def)
  qed
qed

end
