(* ===== verification/Identity_Properties.thy ===== *)
theory Identity_Properties
  imports Identity_Cache
begin

text \<open>
  The properties of the user registry, each with a concrete instance: linear probing, the
  stability and uniqueness of the ids over any sequence of requests, the transparency of
  the caches, and the atomicity of the transactions.
\<close>

section \<open>Sequences of requests\<close>

datatype identity_op =
    IdEnsure rat string profile "pyval option" "string option"
  | IdBatch rat "entry list" "string option"
  | IdByUser string
  | IdByOnebot pyval
  | IdOverride rat string string pyval int
  | IdDelete rat string string int
  | IdInvalidate "string option"

fun run_identity_op :: "identity_op \<Rightarrow> (registry, unit) action" where
  "run_identity_op (IdEnsure now u p ov b) = bnd (ensure_mapping_sync now u p ov b) (\<lambda>_. ret ())"
| "run_identity_op (IdBatch now items b) = bnd (ensure_mappings_sync now items b) (\<lambda>_. ret ())"
| "run_identity_op (IdByUser u) = bnd (get_by_user_id u) (\<lambda>_. ret ())"
| "run_identity_op (IdByOnebot v) = bnd (get_by_onebot_id v) (\<lambda>_. ret ())"
| "run_identity_op (IdOverride now b u v rv) = bnd (override_onebot_id_sync now b u v rv) (\<lambda>_. ret ())"
| "run_identity_op (IdDelete now b u rv) = bnd (delete_mapping_sync now b u rv) (\<lambda>_. ret ())"
| "run_identity_op (IdInvalidate u) = modify (on_cache (invalidate_cache u))"

text \<open>A request that raises leaves the registry as the exception found it; the next one goes on.\<close>

definition identity_requests :: "identity_op list \<Rightarrow> registry \<Rightarrow> registry" where
  "identity_requests ops g = fold (\<lambda>op g. snd (run_identity_op op g)) ops g"

definition new_registry :: "string \<Rightarrow> registry" where
  "new_registry b = \<lparr>rg_db = empty_db,
     rg_cache = \<lparr>ic_by_user = [], ic_by_onebot = [], ic_seen = [], ic_max = 4096\<rparr>,
     rg_bot_id = b, rg_has_warning_path = False, rg_warning = None\<rparr>"

lemma new_registry_ok: "registry_ok (new_registry b)"
  by (simp add: new_registry_def registry_ok_def cache_ok_def paired_def exact_but_def db_ok_def empty_db_def)

lemma invalidate_ok:
  assumes g: "registry_ok g"
  shows "registry_ok (on_cache (invalidate_cache u) g)"
proof -
  note p = registry_okD(3) [OF g]
  have "paired (ic_by_user (invalidate_cache u (rg_cache g))) (ic_by_onebot (invalidate_cache u (rg_cache g)))
    \<and> set (ic_by_user (invalidate_cache u (rg_cache g))) \<subseteq> set (ic_by_user (rg_cache g))"
  proof (cases u)
    case None
    then show ?thesis by (simp add: invalidate_cache_def paired_def)
  next
    case (Some k)
    show ?thesis
    proof (cases "map_of (ic_by_user (rg_cache g)) k")
      case None
      with p Some show ?thesis by (simp add: invalidate_cache_def)
    next
      case m: (Some m)
      with paired_delete [OF p m] Some delete_mem [OF pairedD(1) [OF p]]
      show ?thesis by (auto simp: invalidate_cache_def)
    qed
  qed
  with g show ?thesis by (fastforce simp: registry_ok_def cache_ok_def exact_but_def)
qed

lemma run_identity_op_ok:
  assumes g: "registry_ok g" and e: "run_identity_op op g = (res, g')"
  shows "registry_ok g' \<and> (\<forall>x. res = Inl x \<longrightarrow> g' = g)"
proof (cases op)
  case (IdEnsure now u p ov b)
  obtain r h where h: "ensure_mapping_sync now u p ov b g = (r, h)" by (cases "ensure_mapping_sync now u p ov b g")
  with ensure_mapping_ok [OF g h] e IdEnsure show ?thesis by (auto simp: bnd_def ret_def split: sum.splits)
next
  case (IdBatch now items b)
  obtain r h where h: "ensure_mappings_sync now items b g = (r, h)" by (cases "ensure_mappings_sync now items b g")
  with ensure_mappings_ok [OF g h] e IdBatch show ?thesis by (auto simp: bnd_def ret_def split: sum.splits)
next
  case (IdByUser u)
  with get_by_user_id_ok [OF g, of u] e show ?thesis by (auto simp: bnd_def ret_def)
next
  case (IdByOnebot v)
  with get_by_onebot_id_ok [OF g, of v] e show ?thesis by (auto simp: bnd_def ret_def)
next
  case (IdOverride now b u v rv)
  obtain r h where h: "override_onebot_id_sync now b u v rv g = (r, h)" by (cases "override_onebot_id_sync now b u v rv g")
  with override_ok [OF g h] e IdOverride show ?thesis by (auto simp: bnd_def ret_def split: sum.splits)
next
  case (IdDelete now b u rv)
  obtain r h where h: "delete_mapping_sync now b u rv g = (r, h)" by (cases "delete_mapping_sync now b u rv g")
  with delete_ok [OF g h] e IdDelete show ?thesis by (auto simp: bnd_def ret_def split: sum.splits)
next
  case (IdInvalidate u)
  with invalidate_ok [OF g, of u] e show ?thesis by (auto simp: modify_def)
qed

lemma identity_requests_ok: "registry_ok g \<Longrightarrow> registry_ok (identity_requests ops g)"
proof (induction ops arbitrary: g)
  case Nil
  then show ?case by (simp add: identity_requests_def)
next
  case (Cons op ops)
  obtain r h where h: "run_identity_op op g = (r, h)" by (cases "run_identity_op op g")
  with run_identity_op_ok [OF Cons.prems h] Cons.IH [of h] show ?case by (simp add: identity_requests_def)
qed

text \<open>C17. Whatever sequence of requests a registry has served, users and OneBot ids are in
  one-to-one correspondence and every id has eleven digits.\<close>

theorem one_id_per_user:
  assumes u: "row_by_user (rg_db (identity_requests ops (new_registry b))) u = Some r"
    and v: "row_by_user (rg_db (identity_requests ops (new_registry b))) v = Some s"
  shows "(ur_onebot r = ur_onebot s \<longleftrightarrow> u = v) \<and> 10 ^ 10 \<le> ur_onebot r \<and> ur_onebot r < 10 ^ 11"
proof -
  let ?db = "rg_db (identity_requests ops (new_registry b))"
  have ok: "db_ok ?db" using identity_requests_ok [OF new_registry_ok] by (simp add: registry_ok_def)
  have r: "r \<in> set (db_users ?db)" "ur_user_id r = u" and s: "s \<in> set (db_users ?db)" "ur_user_id s = v"
    using row_by_user_Some [OF u] row_by_user_Some [OF v] by simp_all
  have "ur_onebot r = ur_onebot s \<longrightarrow> r = s"
    using row_by_onebot_mem [OF ok r(1)] row_by_onebot_mem [OF ok s(1)] by (metis option.inject)
  moreover have "u = v \<longrightarrow> r = s" using u v by auto
  moreover have "in_range (ur_onebot r)" using db_okD(3) [OF ok r(1)] by (simp add: row_ok_def)
  ultimately show ?thesis using r(2) s(2) by (auto simp: in_range_def user_id_bounds)
qed

definition plain_profile :: profile where
  "plain_profile = \<lparr>pf_username = ''n'', pf_nickname = [], pf_is_bot = False, pf_synthetic = False\<rparr>"

text \<open>The first request of a new registry, in full.\<close>

lemma first_user:
  assumes "validate_onebot_user_id v = Inr i"
  shows "\<exists>r g'. ensure_mapping_sync now ''u'' plain_profile (Some v) None (new_registry ''b'') = (Inr r, g')
    \<and> row_by_user (rg_db g') ''u'' = Some r \<and> ur_onebot r = i \<and> ur_revision r = 1 \<and> knows (rg_db g') ''b'' ''u''"
proof -
  have u: "py_strip ''u'' = ''u''" "py_strip ''b'' = ''b''"
    by (simp_all add: py_strip_def py_lstrip_def py_rstrip_def py_isspace_def)
  have p: "probe empty_db i i 0 None = Inr (i, 0, None)"
    by (subst probe.simps) (simp add: row_by_onebot_def empty_db_def)
  show ?thesis
    using assms p u
    by (simp add: ensure_mapping_sync_def Let_def new_registry_def ensure_in_db_def row_by_user_def insert_user_def
        bot_of_def new_row_def upsert_if_def upsert_bot_user_def knows_def empty_db_def)
qed

lemma validate_example: "validate_onebot_user_id (PInt 10000000007) = Inr 10000000007"
  by (simp add: validate_onebot_user_id_def user_id_bounds)

theorem one_id_per_user_witness:
  "\<exists>r. row_by_user (rg_db (identity_requests
       [IdEnsure 0 ''u'' plain_profile (Some (PInt 10000000007)) None] (new_registry ''b''))) ''u'' = Some r
     \<and> 10 ^ 10 \<le> ur_onebot r \<and> ur_onebot r < 10 ^ 11"
proof -
  let ?g = "identity_requests [IdEnsure 0 ''u'' plain_profile (Some (PInt 10000000007)) None] (new_registry ''b'')"
  obtain r where r: "row_by_user (rg_db ?g) ''u'' = Some r"
    using first_user [OF validate_example, of 0] by (auto simp: identity_requests_def bnd_def ret_def)
  from one_id_per_user [OF r r] r show ?thesis by simp
qed

text \<open>C18. Probing stops at the first free slot after the primary one, cyclically; it raises
  exactly when all ninety billion slots are taken.\<close>

theorem probing_finds_first_free_slot:
  assumes p: "in_range p"
  shows "case probe db p p 0 None of
      Inr (i, k, inc) \<Rightarrow> i = slot p k \<and> in_range i \<and> 0 \<le> k \<and> k < user_id_table_size
        \<and> row_by_onebot db i = None
        \<and> (\<forall>j. 0 \<le> j \<and> j < k \<longrightarrow> row_by_onebot db (slot p j) \<noteq> None)
    | Inl _ \<Rightarrow> \<forall>i. in_range i \<longrightarrow> row_by_onebot db i \<noteq> None"
proof -
  have every: "\<exists>j. 0 \<le> j \<and> j < user_id_table_size \<and> i = slot p j" if i: "in_range i" for i
  proof (intro exI [of _ "(i - p) mod user_id_table_size"] conjI)
    have "(p - user_id_min + (i - p) mod user_id_table_size) mod user_id_table_size
        = (i - user_id_min) mod user_id_table_size"
      by (simp add: mod_add_right_eq)
    also have "\<dots> = i - user_id_min"
      using i by (simp add: in_range_def user_id_bounds)
    finally show "i = slot p ((i - p) mod user_id_table_size)" by (simp add: slot_def)
  qed simp_all
  have spec: "case probe db p p 0 None of
      Inr (i, k, inc') \<Rightarrow> i = slot p k \<and> 0 \<le> k \<and> k < user_id_table_size \<and> row_by_onebot db i = None
        \<and> (\<forall>j. 0 \<le> j \<and> j < k \<longrightarrow> row_by_onebot db (slot p j) \<noteq> None)
        \<and> inc' = (if 0 = (0 :: int) \<and> 0 < k then row_by_onebot db p else None)
    | Inl _ \<Rightarrow> \<forall>j. 0 \<le> j \<and> j < user_id_table_size \<longrightarrow> row_by_onebot db (slot p j) \<noteq> None"
    by (rule probe_spec) (use p in simp_all)
  show ?thesis
  proof (cases "probe db p p 0 None")
    case (Inl x)
    with spec every show ?thesis by (simp only: sum.case) metis
  next
    case (Inr t)
    obtain i k inc where t: "t = (i, k, inc)" by (cases t)
    from spec Inr t show ?thesis by clarsimp
  qed
qed

theorem probing_finds_first_free_slot_witness:
  "case probe empty_db user_id_min user_id_min 0 None of
      Inr (i, k, inc) \<Rightarrow> i = slot user_id_min k \<and> row_by_onebot empty_db i = None
    | Inl _ \<Rightarrow> False"
proof -
  have r: "in_range user_id_min" by (simp add: in_range_def user_id_bounds)
  have "row_by_onebot empty_db i = None" for i by (simp add: row_by_onebot_def empty_db_def)
  with probing_finds_first_free_slot [OF r, of empty_db] r show ?thesis
    by (auto split: sum.splits)
qed

text \<open>C19. The caches are transparent: after any sequence of requests, a lookup by user id or by
  OneBot id answers what the database holds, whatever was cached, evicted or invalidated
  in between, and the lookup leaves the database alone.\<close>

theorem caches_are_transparent:
  assumes g: "g = identity_requests ops (new_registry b)"
  shows "(\<exists>h. get_by_user_id uid g =
        (Inr (if py_strip uid = [] then None else row_by_user (rg_db g) (py_strip uid)), h) \<and> rg_db h = rg_db g)
    \<and> (\<exists>h. get_by_onebot_id v g =
        (Inr (case validate_onebot_user_id v of Inl _ \<Rightarrow> None | Inr i \<Rightarrow> row_by_onebot (rg_db g) i), h)
        \<and> rg_db h = rg_db g)"
proof -
  have ok: "registry_ok g" unfolding g by (rule identity_requests_ok [OF new_registry_ok])
  from get_by_user_id_ok [OF ok, of uid] get_by_onebot_id_ok [OF ok, of v] show ?thesis by blast
qed

theorem caches_are_transparent_witness:
  "\<exists>h. get_by_onebot_id (PInt 5) (new_registry ''b'') = (Inr None, h)"
proof -
  have "new_registry ''b'' = identity_requests [] (new_registry ''b'')" by (simp add: identity_requests_def)
  from caches_are_transparent [OF this, of "[]" "PInt 5"]
  show ?thesis by (auto simp: validate_onebot_user_id_def user_id_bounds)
qed

text \<open>C20. Ensuring a user stores exactly the row it returns, keeps the OneBot id the user had,
  touches no other user, and both lookups then find the row; when it raises, nothing has
  changed.\<close>

theorem ensured_user_is_found:
  assumes g: "registry_ok g" and e: "ensure_mapping_sync now uid p ov b g = (res, h)"
  shows "case res of
      Inl x \<Rightarrow> h = g
    | Inr r \<Rightarrow> registry_ok h
        \<and> (\<forall>old. row_by_user (rg_db g) (py_strip uid) = Some old \<longrightarrow> ur_onebot r = ur_onebot old)
        \<and> (\<forall>w. w \<noteq> py_strip uid \<longrightarrow> row_by_user (rg_db h) w = row_by_user (rg_db g) w)
        \<and> fst (get_by_onebot_id (PInt (ur_onebot r)) h) = Inr (Some r)
        \<and> (py_strip uid \<noteq> [] \<longrightarrow> fst (get_by_user_id uid h) = Inr (Some r))"
proof (cases res)
  case (Inl x)
  with ensure_mapping_ok [OF g e] show ?thesis by simp
next
  case (Inr r)
  with ensure_mapping_ok [OF g e] have d: "registry_ok h" "row_by_user (rg_db h) (py_strip uid) = Some r"
    "\<forall>w. w \<noteq> py_strip uid \<longrightarrow> row_by_user (rg_db h) w = row_by_user (rg_db g) w"
    "\<forall>old. row_by_user (rg_db g) (py_strip uid) = Some old \<longrightarrow> ur_onebot r = ur_onebot old" by simp_all
  note ok = registry_okD(1) [OF d(1)]
  have m: "r \<in> set (db_users (rg_db h))" using row_by_user_Some [OF d(2)] by simp
  have "in_range (ur_onebot r)" using db_okD(3) [OF ok m] by (simp add: row_ok_def)
  then have "validate_onebot_user_id (PInt (ur_onebot r)) = Inr (ur_onebot r)"
    by (simp add: validate_onebot_user_id_def in_range_def)
  with get_by_onebot_id_ok [OF d(1), of "PInt (ur_onebot r)"] row_by_onebot_mem [OF ok m]
  have "fst (get_by_onebot_id (PInt (ur_onebot r)) h) = Inr (Some r)" by auto
  moreover have "py_strip uid \<noteq> [] \<longrightarrow> fst (get_by_user_id uid h) = Inr (Some r)"
    using get_by_user_id_ok [OF d(1), of uid] d(2) by auto
  ultimately show ?thesis using Inr d by simp
qed

theorem ensured_user_is_found_witness:
  "\<exists>r h. ensure_mapping_sync 0 ''u'' plain_profile (Some (PInt 10000000007)) None (new_registry ''b'') = (Inr r, h)
    \<and> fst (get_by_onebot_id (PInt (ur_onebot r)) h) = Inr (Some r)"
proof -
  obtain r h where e: "ensure_mapping_sync 0 ''u'' plain_profile (Some (PInt 10000000007)) None (new_registry ''b'') = (Inr r, h)"
    using first_user [OF validate_example, of 0] by blast
  from ensured_user_is_found [OF new_registry_ok e] e show ?thesis by auto
qed

text \<open>A manual override to an id that another user holds is refused and changes nothing.\<close>

theorem override_refuses_occupied:
  assumes g: "registry_ok g" and v: "validate_onebot_user_id v = Inr i"
    and w: "row_by_onebot (rg_db g) i = Some x" "ur_user_id x \<noteq> py_strip uid"
  shows "\<exists>err. override_onebot_id_sync now b uid v revision g = (Inl err, g)"
proof -
  obtain res h where e: "override_onebot_id_sync now b uid v revision g = (res, h)"
    by (cases "override_onebot_id_sync now b uid v revision g")
  have x: "row_by_user (rg_db g) (ur_user_id x) = Some x" "ur_onebot x = i"
    using w(1) row_iff [OF registry_okD(1) [OF g]] by blast+
  show ?thesis
  proof (cases res)
    case (Inl err)
    with override_ok [OF g e] e show ?thesis by simp
  next
    case (Inr t)
    with override_ok [OF g e] v w(2) x show ?thesis by (cases t) auto
  qed
qed

theorem override_refuses_occupied_witness:
  "\<exists>g err. registry_ok g \<and> row_by_onebot (rg_db g) 10000000007 \<noteq> None
     \<and> override_onebot_id_sync 0 ''b'' ''v'' (PInt 10000000007) 1 g = (Inl err, g)"
proof -
  obtain r h where e: "ensure_mapping_sync 0 ''u'' plain_profile (Some (PInt 10000000007)) None (new_registry ''b'') = (Inr r, h)"
    and r: "row_by_user (rg_db h) ''u'' = Some r" "ur_onebot r = 10000000007"
    using first_user [OF validate_example, of 0] by blast
  have ok: "registry_ok h" using ensure_mapping_ok [OF new_registry_ok e] by simp
  have o1: "row_by_onebot (rg_db h) 10000000007 = Some r"
    using r row_by_user_Some [OF r(1)] by (simp add: row_iff [OF registry_okD(1) [OF ok]])
  have "ur_user_id r \<noteq> py_strip ''v''"
    using row_by_user_Some [OF r(1)] by (simp add: py_strip_def py_lstrip_def py_rstrip_def py_isspace_def)
  from override_refuses_occupied [OF ok validate_example o1 this, of 0 "''b''" 1] ok o1 show ?thesis by auto
qed

text \<open>An override that succeeds was asked for at the current revision; it gives the user
  exactly the requested id, advances the revision by one, and changes no other user.\<close>

theorem override_takes_effect:
  assumes g: "registry_ok g" and e: "override_onebot_id_sync now b uid v revision g = (Inr (r, n, m), h)"
  shows "registry_ok h \<and> validate_onebot_user_id v = Inr (ur_onebot r)
    \<and> (\<exists>old. row_by_user (rg_db g) (py_strip uid) = Some old \<and> ur_revision old = revision
         \<and> ur_revision r = revision + 1)
    \<and> (\<forall>w. row_by_user (rg_db h) w = (if w = py_strip uid then Some r else row_by_user (rg_db g) w))
    \<and> fst (get_by_onebot_id v h) = Inr (Some r)"
proof -
  from override_ok [OF g e] have d: "registry_ok h" "validate_onebot_user_id v = Inr (ur_onebot r)"
    "\<forall>w. row_by_user (rg_db h) w = (if w = py_strip uid then Some r else row_by_user (rg_db g) w)"
    "\<exists>old. row_by_user (rg_db g) (py_strip uid) = Some old \<and> ur_revision old = revision
         \<and> ur_revision r = revision + 1" by simp_all
  have "row_by_user (rg_db h) (py_strip uid) = Some r" using d(3) by simp
  from row_by_onebot_mem [OF registry_okD(1) [OF d(1)]] row_by_user_Some [OF this]
  have "row_by_onebot (rg_db h) (ur_onebot r) = Some r" by blast
  with get_by_onebot_id_ok [OF d(1), of v] d show ?thesis by auto
qed

lemma override_succeeds:
  assumes "validate_onebot_user_id v = Inr i" "admin_row (rg_db g) (py_strip b) (py_strip uid) revision = Inr old"
    and "\<forall>x \<in> set (db_users (rg_db g)). ur_onebot x = i \<longrightarrow> ur_user_id x = py_strip uid"
  shows "\<exists>r n m h. override_onebot_id_sync now b uid v revision g = (Inr (r, n, m), h)"
  using assms by (auto simp: override_onebot_id_sync_def override_in_db_def Let_def split: prod.split)

theorem override_takes_effect_witness:
  "\<exists>g r n m h. registry_ok g \<and> override_onebot_id_sync 0 ''b'' ''u'' (PInt 10000000007) 1 g = (Inr (r, n, m), h)
    \<and> ur_revision r = 2"
proof -
  obtain r h where e: "ensure_mapping_sync 0 ''u'' plain_profile (Some (PInt 10000000007)) None (new_registry ''b'') = (Inr r, h)"
    and r: "row_by_user (rg_db h) ''u'' = Some r" "ur_onebot r = 10000000007" "ur_revision r = 1"
      "knows (rg_db h) ''b'' ''u''"
    using first_user [OF validate_example, of 0] by blast
  have ok: "registry_ok h" using ensure_mapping_ok [OF new_registry_ok e] by simp
  note db = registry_okD(1) [OF ok]
  have s: "py_strip ''u'' = ''u''" "py_strip ''b'' = ''b''"
    by (simp_all add: py_strip_def py_lstrip_def py_rstrip_def py_isspace_def)
  have "\<forall>x \<in> set (db_users (rg_db h)). ur_onebot x = 10000000007 \<longrightarrow> ur_user_id x = py_strip ''u''"
  proof (intro ballI impI)
    fix x assume x: "x \<in> set (db_users (rg_db h))" "ur_onebot x = 10000000007"
    have m: "r \<in> set (db_users (rg_db h))" "ur_user_id r = ''u''" using row_by_user_Some [OF r(1)] by simp_all
    from row_by_onebot_mem [OF db x(1)] row_by_onebot_mem [OF db m(1)] x(2) r(2) have "x = r" by simp
    with m(2) s show "ur_user_id x = py_strip ''u''" by simp
  qed
  moreover have "admin_row (rg_db h) (py_strip ''b'') (py_strip ''u'') 1 = Inr r"
    using r s by (simp add: admin_row_def)
  ultimately obtain r2 n m h2 where o: "override_onebot_id_sync 0 ''b'' ''u'' (PInt 10000000007) 1 h = (Inr (r2, n, m), h2)"
    using override_succeeds [OF validate_example, of h "''b''" "''u''" 1 r 0] by blast
  from override_takes_effect [OF ok o] have "ur_revision r2 = 2" by auto
  with ok o show ?thesis by blast
qed

text \<open>Deleting a mapping removes that user for every bot and nobody else; the row it
  returns is the one that was stored, at the revision the caller stated.\<close>

theorem deletion_is_exact:
  assumes g: "registry_ok g" and e: "delete_mapping_sync now b uid revision g = (Inr (r, n), h)"
  shows "registry_ok h \<and> row_by_user (rg_db g) (py_strip uid) = Some r \<and> ur_revision r = revision
    \<and> (\<forall>w. row_by_user (rg_db h) w = (if w = py_strip uid then None else row_by_user (rg_db g) w))
    \<and> (\<forall>c. \<not> knows (rg_db h) c (py_strip uid))
    \<and> fst (get_by_user_id uid h) = Inr None
    \<and> row_by_onebot (rg_db h) (ur_onebot r) = None"
proof -
  from delete_ok [OF g e] have d: "registry_ok h" "row_by_user (rg_db g) (py_strip uid) = Some r"
    "ur_revision r = revision"
    "\<forall>w. row_by_user (rg_db h) w = (if w = py_strip uid then None else row_by_user (rg_db g) w)"
    "\<forall>c. \<not> knows (rg_db h) c (py_strip uid)" by simp_all
  have "fst (get_by_user_id uid h) = Inr None"
    using get_by_user_id_ok [OF d(1), of uid] d(4) by auto
  moreover have "row_by_onebot (rg_db h) (ur_onebot r) = None"
  proof (rule ccontr)
    assume "row_by_onebot (rg_db h) (ur_onebot r) \<noteq> None"
    then obtain x where x: "row_by_onebot (rg_db h) (ur_onebot r) = Some x" by auto
    with row_iff [OF registry_okD(1) [OF d(1)]]
    have "row_by_user (rg_db h) (ur_user_id x) = Some x" "ur_onebot x = ur_onebot r" by blast+
    with d(4) have "ur_user_id x \<noteq> py_strip uid" "row_by_user (rg_db g) (ur_user_id x) = Some x"
      by (auto split: if_splits)
    with \<open>ur_onebot x = ur_onebot r\<close> row_iff [OF registry_okD(1) [OF g]]
    have "row_by_onebot (rg_db g) (ur_onebot r) = Some x" by blast
    moreover have "row_by_onebot (rg_db g) (ur_onebot r) = Some r"
      using d(2) row_by_user_Some [OF d(2)] by (simp add: row_iff [OF registry_okD(1) [OF g]])
    ultimately have "x = r" by simp
    with \<open>ur_user_id x \<noteq> py_strip uid\<close> row_by_user_Some [OF d(2)] show False by simp
  qed
  ultimately show ?thesis using d by blast
qed

lemma delete_succeeds:
  assumes "admin_row (rg_db g) (py_strip b) (py_strip uid) revision = Inr r"
  shows "\<exists>r n h. delete_mapping_sync now b uid revision g = (Inr (r, n), h)"
  using assms by (cases "resolve_conflicts (\<lambda>c. cf_incumbent c = py_strip uid \<or> cf_displaced c = py_strip uid) now (rg_db g)")
    (simp add: delete_mapping_sync_def delete_in_db_def Let_def)

theorem deletion_is_exact_witness:
  "\<exists>g r n h. registry_ok g \<and> delete_mapping_sync 0 ''b'' ''u'' 1 g = (Inr (r, n), h)
     \<and> fst (get_by_user_id ''u'' h) = Inr None"
proof -
  obtain r h where e: "ensure_mapping_sync 0 ''u'' plain_profile (Some (PInt 10000000007)) None (new_registry ''b'') = (Inr r, h)"
    and r: "row_by_user (rg_db h) ''u'' = Some r" "ur_revision r = 1" "knows (rg_db h) ''b'' ''u''"
    using first_user [OF validate_example, of 0] by blast
  have ok: "registry_ok h" using ensure_mapping_ok [OF new_registry_ok e] by simp
  have "admin_row (rg_db h) (py_strip ''b'') (py_strip ''u'') 1 = Inr r"
    using r by (simp add: admin_row_def py_strip_def py_lstrip_def py_rstrip_def py_isspace_def)
  then obtain r2 n h2 where d: "delete_mapping_sync 0 ''b'' ''u'' 1 h = (Inr (r2, n), h2)"
    using delete_succeeds by blast
  from deletion_is_exact [OF ok d] ok d show ?thesis by blast
qed

end
