(* ===== verification/Cq_Codec.thy ===== *)
theory Cq_Codec
  imports Sha256
begin

text \<open>
  The OneBot message codec of \<open>bridge/transports/codec.py\<close>: segment lists to CQ-coded
  strings and back.

  \<^item> \<open>_CQ_PATTERN\<close> is \<open>cq_at\<close>: the type is the longest run without a comma or a closing
    bracket, the parameters run to the next closing bracket; no other split of a prefix
    matches the pattern, so the regular expression never backtracks into a different match.
    \<open>finditer\<close> is the scan \<open>cq_scan\<close>, whose first argument is the text between the cursor
    and the current position.
  \<^item> \<open>json_dumps\<close> is a parameter: the module hands every value it serialises to the JSON
    library.
  \<^item> \<open>escape_char\<close> and its lemmas give the escapes, which the code runs as one replacement
    after the other, as one map over the characters.
\<close>

section \<open>Replacement and escapes\<close>

text \<open>\<open>s.replace(a, b)\<close> for a non-empty \<open>a\<close>, from left to right.\<close>

function py_replace :: "string \<Rightarrow> string \<Rightarrow> string \<Rightarrow> string" where
  "py_replace a b [] = []"
| "py_replace a b (c # s) =
     (if a \<noteq> [] \<and> startswith (c # s) a then b @ py_replace a b (drop (length a) (c # s))
      else c # py_replace a b s)"
  by pat_completeness auto
termination
proof (relation "measure (\<lambda>(a, b, s). length s)", goal_cases)
  case (2 a b c s)
  then show ?case by (cases a) auto
qed auto

definition escape_text :: "string \<Rightarrow> string" where
  "escape_text v =
     py_replace '']'' ''&#93;'' (py_replace ''['' ''&#91;'' (py_replace ''&'' ''&amp;'' v))"

definition escape_param :: "string \<Rightarrow> string" where
  "escape_param v = py_replace '','' ''&#44;'' (escape_text v)"

definition unescape :: "string \<Rightarrow> string" where
  "unescape v =
     py_replace ''&amp;'' ''&'' (py_replace ''&#93;'' '']'' (py_replace ''&#91;'' ''[''
       (py_replace ''&#44;'' '','' v)))"

section \<open>Segments to CQ codes\<close>

definition cq_param :: "string \<times> pyval \<Rightarrow> string" where
  "cq_param kv = fst kv @ ''='' @ escape_param (py_str (snd kv))"

definition segment_type :: "entry \<Rightarrow> string" where
  "segment_type seg = py_str (py_or (dget seg ''type'') (PStr ''text''))"

definition segment_data :: "entry \<Rightarrow> entry" where
  "segment_data seg = (case dget seg ''data'' of PDict d \<Rightarrow> d | _ \<Rightarrow> [])"

definition segment_to_cq :: "pyval \<Rightarrow> string" where
  "segment_to_cq raw = (case as_dict raw of
     None \<Rightarrow> escape_text (py_str raw)
   | Some seg \<Rightarrow>
       (let data = segment_data seg in
        if segment_type seg = ''text'' then escape_text (raw_str_field data ''text'')
        else (let params = intercalate '',''
                (map cq_param (filter (\<lambda>kv. snd kv \<noteq> PNone) data))
              in ''[CQ:'' @ segment_type seg @ (if params = [] then [] else '','' @ params) @ '']'')))"

definition segments_to_cq :: "pyval list \<Rightarrow> string" where
  "segments_to_cq segments = concat (map segment_to_cq segments)"

section \<open>CQ codes to segments\<close>

definition cq_at :: "string \<Rightarrow> (string \<times> string \<times> string) option" where
  "cq_at s =
     (if startswith s ''[CQ:'' then
        (let ty = takeWhile (\<lambda>c. c \<noteq> CHR '','' \<and> c \<noteq> CHR '']'') (drop 4 s);
             r = dropWhile (\<lambda>c. c \<noteq> CHR '','' \<and> c \<noteq> CHR '']'') (drop 4 s)
         in if ty = [] then None
            else (case r of [] \<Rightarrow> None
              | c # r' \<Rightarrow>
                  if c = CHR '']'' then Some (ty, [], r')
                  else (case dropWhile (\<lambda>c. c \<noteq> CHR '']'') r' of [] \<Rightarrow> None
                    | _ # rest \<Rightarrow> Some (ty, CHR '','' # takeWhile (\<lambda>c. c \<noteq> CHR '']'') r', rest))))
      else None)"

definition text_segment :: "string \<Rightarrow> pyval" where
  "text_segment t = PDict [(''type'', PStr ''text''), (''data'', PDict [(''text'', PStr t)])]"

definition add_param :: "entry \<Rightarrow> string \<Rightarrow> entry" where
  "add_param data item = (case partition_on (CHR ''='') item of
     (key, found, v) \<Rightarrow> if found \<and> key \<noteq> [] then AList.update key (PStr (unescape v)) data else data)"

definition cq_data :: "string \<Rightarrow> entry" where
  "cq_data params =
     (let raw = dropWhile (\<lambda>c. c = CHR '','') params
      in if raw = [] then [] else foldl add_param [] (split_on (CHR '','') raw))"

definition cq_segment :: "string \<Rightarrow> entry \<Rightarrow> pyval" where
  "cq_segment ty data = PDict [(''type'', PStr ty), (''data'', PDict data)]"

definition pending_text :: "string \<Rightarrow> pyval list" where
  "pending_text t = (if t = [] then [] else [text_segment (unescape t)])"

lemma dropWhile_rest: "dropWhile P xs = y # ys \<Longrightarrow> length ys < length xs"
  by (metis Suc_le_eq length_Cons length_dropWhile_le)

lemma cq_at_shorter: "cq_at s = Some (ty, ps, rest) \<Longrightarrow> length rest < length s"
  by (auto simp: cq_at_def Let_def split: if_splits list.splits dest!: dropWhile_rest)

function cq_scan :: "string \<Rightarrow> string \<Rightarrow> pyval list" where
  "cq_scan t [] = pending_text t"
| "cq_scan t (c # s) = (case cq_at (c # s) of
     Some (ty, ps, rest) \<Rightarrow> pending_text t @ cq_segment ty (cq_data ps) # cq_scan [] rest
   | None \<Rightarrow> cq_scan (t @ [c]) s)"
  by pat_completeness auto
termination
  by (relation "measure (\<lambda>(t, s). length s)") (auto dest: cq_at_shorter)

definition cq_to_segments :: "string \<Rightarrow> pyval list" where
  "cq_to_segments v =
     (let res = cq_scan [] v in if res = [] then [text_segment (unescape v)] else res)"

section \<open>The codec object\<close>

type_synonym codec = bool \<comment> \<open>\<open>message_post_format == "string"\<close>\<close>

definition new_codec :: "pyval \<Rightarrow> codec" where
  "new_codec fmt = (py_lower (py_strip (py_str (py_or fmt (PStr ''array'')))) = ''string'')"

definition encode_event :: "codec \<Rightarrow> entry \<Rightarrow> entry" where
  "encode_event cd payload = (case dget payload ''message'' of
     PList segs \<Rightarrow> if cd then AList.update ''message'' (PStr (segments_to_cq segs)) payload else payload
   | _ \<Rightarrow> payload)"

fun encode_nested_messages :: "pyval \<Rightarrow> pyval" where
  "encode_nested_messages (PDict kvs) =
     PDict (map (\<lambda>(key, item). (key, case item of
         PList segs \<Rightarrow> if key = ''message'' then PStr (segments_to_cq segs)
                       else encode_nested_messages item
       | _ \<Rightarrow> encode_nested_messages item)) kvs)"
| "encode_nested_messages (PList xs) = PList (map encode_nested_messages xs)"
| "encode_nested_messages v = v"

definition encode_response_data :: "codec \<Rightarrow> pyval \<Rightarrow> pyval" where
  "encode_response_data cd payload = (if cd then encode_nested_messages payload else payload)"

fun has_infix :: "string \<Rightarrow> string \<Rightarrow> bool" where
  "has_infix p [] = (p = [])"
| "has_infix p (c # s) = (startswith (c # s) p \<or> has_infix p s)"

definition normalize_action_params :: "entry \<Rightarrow> entry" where
  "normalize_action_params params = (case dget params ''message'' of
     PStr m \<Rightarrow> if has_infix ''[CQ:'' m
                then AList.update ''message'' (PList (cq_to_segments m)) params else params
   | _ \<Rightarrow> params)"

section \<open>Serialised frames\<close>

record frame =
  fr_text :: string
  fr_message_type :: pyval
  fr_group_id :: pyval
  fr_user_id :: pyval
  fr_utf8 :: "nat list option"
  fr_sse :: "nat list option"

definition frame_init :: "string \<Rightarrow> pyval \<Rightarrow> pyval \<Rightarrow> pyval \<Rightarrow> frame" where
  "frame_init t mt g u = \<lparr>fr_text = t, fr_message_type = mt, fr_group_id = g, fr_user_id = u,
     fr_utf8 = None, fr_sse = None\<rparr>"

definition frame_bytes :: "frame \<Rightarrow> nat list \<times> frame" where
  "frame_bytes f = (case fr_utf8 f of Some b \<Rightarrow> (b, f)
     | None \<Rightarrow> (let b = utf8 (fr_text f) in (b, f\<lparr>fr_utf8 := Some b\<rparr>)))"

definition frame_event :: "frame \<Rightarrow> nat list \<times> frame" where
  "frame_event f = (case fr_sse f of Some b \<Rightarrow> (b, f)
     | None \<Rightarrow> (case frame_bytes f of (u, f1) \<Rightarrow>
         (let b = utf8 ''data: '' @ u @ [10, 10]
          in (b, f1\<lparr>fr_sse := Some b\<rparr>))))"

definition serialize_event :: "(pyval \<Rightarrow> string) \<Rightarrow> codec \<Rightarrow> entry \<Rightarrow> frame" where
  "serialize_event dumps cd payload =
     frame_init (dumps (PDict (encode_event cd payload)))
       (dget payload ''message_type'') (dget payload ''group_id'') (dget payload ''user_id'')"

definition serialize_payload :: "(pyval \<Rightarrow> string) \<Rightarrow> pyval \<Rightarrow> frame" where
  "serialize_payload dumps payload = frame_init (dumps payload) PNone PNone PNone"

definition frame_eq :: "frame \<Rightarrow> frame \<Rightarrow> bool" where
  "frame_eq f g \<longleftrightarrow> fr_text f = fr_text g \<and> fr_message_type f = fr_message_type g \<and>
     fr_group_id f = fr_group_id g \<and> fr_user_id f = fr_user_id g"

section \<open>The escapes as character maps\<close>

lemma replace_char:
  "py_replace [a] b s = concat (map (\<lambda>c. if c = a then b else [c]) s)"
  by (induction s) (auto simp: startswith_def)

definition escape_char :: "char \<Rightarrow> string" where
  "escape_char c =
     (if c = CHR ''&'' then ''&amp;'' else if c = CHR ''['' then ''&#91;''
      else if c = CHR '']'' then ''&#93;'' else [c])"

lemma escape_text_map: "escape_text s = concat (map escape_char s)"
  unfolding escape_text_def replace_char by (induction s) (simp_all add: escape_char_def)

lemma escape_param_map:
  "escape_param s = concat (map (\<lambda>c. if c = CHR '','' then ''&#44;'' else escape_char c) s)"
  unfolding escape_param_def escape_text_map replace_char
  by (induction s) (simp_all add: escape_char_def)

lemma escape_text_Nil [simp]: "escape_text [] = []"
  by (simp add: escape_text_map)

lemma escape_text_append: "escape_text (s @ t) = escape_text s @ escape_text t"
  by (simp add: escape_text_map)

lemma escape_text_eq_Nil [simp]: "escape_text s = [] \<longleftrightarrow> s = []"
  by (cases s) (auto simp: escape_text_map escape_char_def)

lemma escape_text_brackets: "CHR ''['' \<notin> set (escape_text s)" "CHR '']'' \<notin> set (escape_text s)"
  by (auto simp: escape_text_map escape_char_def)

lemma escape_param_plain:
  "CHR '']'' \<notin> set (escape_param s)" "CHR '','' \<notin> set (escape_param s)"
  by (auto simp: escape_param_map escape_char_def split: if_splits)

text \<open>
  One pass of \<open>_unescape\<close> over a concatenation of code words: a word is the escape itself,
  or no occurrence of the escape can begin inside it.
\<close>

lemma replace_skip:
  assumes "a = x # a'" "x \<notin> set w"
  shows "py_replace a b (w @ r) = w @ py_replace a b r"
  using assms(2) by (induction w) (auto simp: assms(1) startswith_def)

definition no_start :: "string \<Rightarrow> string \<Rightarrow> bool" where
  "no_start a w \<longleftrightarrow> (case w of [] \<Rightarrow> True
     | c # w' \<Rightarrow> hd a \<notin> set w' \<and> (c = hd a \<longrightarrow> length a \<le> length w \<and> take (length a) w \<noteq> a))"

lemma replace_no_start:
  assumes a: "a = x # a'" and w: "no_start a w"
  shows "py_replace a b (w @ r) = w @ py_replace a b r"
proof (cases w)
  case (Cons c w')
  have "py_replace a b (w' @ r) = w' @ py_replace a b r"
    using w by (intro replace_skip [OF a]) (simp add: a no_start_def Cons)
  moreover have "\<not> startswith (c # w' @ r) a"
    using w by (auto simp: startswith_def no_start_def a Cons)
  ultimately show ?thesis
    using Cons by simp
qed simp

lemma replace_match: "a \<noteq> [] \<Longrightarrow> py_replace a b (a @ r) = b @ py_replace a b r"
  by (cases a) (simp_all add: startswith_def)

lemma replace_words:
  assumes "\<And>c. (f c = a \<and> g c = b) \<or> (no_start a (f c) \<and> g c = f c)" "a = x # a'"
  shows "py_replace a b (concat (map f s)) = concat (map g s)"
proof (induction s)
  case (Cons c s)
  with assms(1) [of c] show ?case
    using replace_match [of a b] replace_no_start [OF assms(2)] by (auto simp: assms(2))
qed (simp add: assms(2))

lemma unescape_escape_param: "unescape (escape_param s) = s"
proof -
  let ?f1 = "\<lambda>c. if c = CHR '','' then '','' else escape_char c"
  let ?f2 = "\<lambda>c. if c = CHR ''['' then ''['' else ?f1 c"
  let ?f3 = "\<lambda>c. if c = CHR '']'' then '']'' else ?f2 c"
  have 1: "py_replace ''&#44;'' '','' (escape_param s) = concat (map ?f1 s)"
    unfolding escape_param_map
    by (rule replace_words) (auto simp: escape_char_def no_start_def)
  have 2: "py_replace ''&#91;'' ''['' (concat (map ?f1 s)) = concat (map ?f2 s)"
    by (rule replace_words) (auto simp: escape_char_def no_start_def)
  have 3: "py_replace ''&#93;'' '']'' (concat (map ?f2 s)) = concat (map ?f3 s)"
    by (rule replace_words) (auto simp: escape_char_def no_start_def)
  have 4: "py_replace ''&amp;'' ''&'' (concat (map ?f3 s)) = concat (map (\<lambda>c. [c]) s)"
    by (rule replace_words) (auto simp: escape_char_def no_start_def)
  show ?thesis
    unfolding unescape_def 1 2 3 4 by simp
qed

lemma unescape_escape_text: "unescape (escape_text s) = s"
proof -
  let ?f2 = "\<lambda>c. if c = CHR ''['' then ''['' else escape_char c"
  let ?f3 = "\<lambda>c. if c = CHR '']'' then '']'' else ?f2 c"
  have 1: "py_replace ''&#44;'' '','' (escape_text s) = concat (map escape_char s)"
    unfolding escape_text_map
    by (rule replace_words) (auto simp: escape_char_def no_start_def)
  have 2: "py_replace ''&#91;'' ''['' (concat (map escape_char s)) = concat (map ?f2 s)"
    by (rule replace_words) (auto simp: escape_char_def no_start_def)
  have 3: "py_replace ''&#93;'' '']'' (concat (map ?f2 s)) = concat (map ?f3 s)"
    by (rule replace_words) (auto simp: escape_char_def no_start_def)
  have 4: "py_replace ''&amp;'' ''&'' (concat (map ?f3 s)) = concat (map (\<lambda>c. [c]) s)"
    by (rule replace_words) (auto simp: escape_char_def no_start_def)
  show ?thesis
    unfolding unescape_def 1 2 3 4 by simp
qed

section \<open>Scanning what was printed\<close>

lemma cq_at_other: "c \<noteq> CHR ''['' \<Longrightarrow> cq_at (c # s) = None"
  by (simp add: cq_at_def startswith_def)

lemma cq_scan_text:
  "CHR ''['' \<notin> set w \<Longrightarrow> cq_scan t (w @ r) = cq_scan (t @ w) r"
  by (induction w arbitrary: t) (auto simp: cq_at_other)

definition plain_type :: "string \<Rightarrow> bool" where
  "plain_type ty \<longleftrightarrow> ty \<noteq> [] \<and> ty \<noteq> ''text'' \<and> CHR '','' \<notin> set ty \<and> CHR '']'' \<notin> set ty"

definition plain_key :: "string \<Rightarrow> bool" where
  "plain_key k \<longleftrightarrow> k \<noteq> [] \<and> CHR '','' \<notin> set k \<and> CHR '']'' \<notin> set k \<and> CHR ''='' \<notin> set k"

definition cq_params :: "(string \<times> string) list \<Rightarrow> string" where
  "cq_params kvs = intercalate '','' (map (\<lambda>(k, v). k @ ''='' @ escape_param v) kvs)"

lemma cq_params_bracket:
  "(\<forall>(k, v) \<in> set kvs. plain_key k) \<Longrightarrow> CHR '']'' \<notin> set (cq_params kvs)"
  by (induction kvs) (auto simp: cq_params_def plain_key_def escape_param_plain)

lemma cq_params_eq_Nil [simp]: "cq_params kvs = [] \<longleftrightarrow> kvs = []"
  by (cases kvs) (auto simp: cq_params_def)

lemma cq_at_printed:
  assumes ty: "plain_type ty" and kvs: "\<forall>(k, v) \<in> set kvs. plain_key k"
  shows "cq_at (''[CQ:'' @ ty @ (if kvs = [] then [] else '','' @ cq_params kvs) @ '']'' @ r) =
    Some (ty, if kvs = [] then [] else '','' @ cq_params kvs, r)"
proof -
  let ?P = "\<lambda>c. c \<noteq> CHR '','' \<and> c \<noteq> CHR '']''"
  have P: "\<forall>c \<in> set ty. ?P c"
    using ty by (auto simp: plain_type_def)
  have b: "\<forall>c \<in> set (cq_params kvs). c \<noteq> CHR '']''"
    using cq_params_bracket [OF kvs] by auto
  show ?thesis
    using ty takeWhile_upto [OF P] dropWhile_upto [OF P]
      takeWhile_upto [OF b] dropWhile_upto [OF b]
    by (auto simp: cq_at_def startswith_def plain_type_def)
qed

lemma add_param_printed:
  assumes "plain_key k"
  shows "add_param data (k @ ''='' @ escape_param v) = AList.update k (PStr v) data"
proof -
  have k: "\<forall>c \<in> set k. c \<noteq> CHR ''=''"
    using assms by (auto simp: plain_key_def)
  show ?thesis
    using assms takeWhile_upto [OF k] dropWhile_upto [OF k]
    by (simp add: add_param_def partition_on_def plain_key_def unescape_escape_param)
qed

lemma add_params_printed:
  assumes "\<forall>(k, v) \<in> set kvs. plain_key k" "distinct (map fst kvs)"
    "fst ` set data \<inter> fst ` set kvs = {}"
  shows "foldl add_param data (map (\<lambda>(k, v). k @ ''='' @ escape_param v) kvs) =
    data @ map (map_prod id PStr) kvs"
  using assms
proof (induction kvs arbitrary: data)
  case (Cons kv kvs)
  obtain k v where kv: "kv = (k, v)" by (cases kv)
  have "foldl add_param (data @ [(k, PStr v)]) (map (\<lambda>(k, v). k @ ''='' @ escape_param v) kvs) =
      (data @ [(k, PStr v)]) @ map (map_prod id PStr) kvs"
    by (rule Cons.IH) (use Cons.prems kv in auto)
  moreover have "k \<notin> fst ` set data"
    using Cons.prems kv by auto
  moreover have "plain_key k"
    using Cons.prems(1) kv by simp
  ultimately show ?case
    by (simp add: kv add_param_printed [unfolded append.simps] update_new map_prod_def)
qed simp

lemma cq_data_printed:
  assumes kvs: "\<forall>(k, v) \<in> set kvs. plain_key k" and d: "distinct (map fst kvs)"
  shows "cq_data (if kvs = [] then [] else '','' @ cq_params kvs) = map (map_prod id PStr) kvs"
proof (cases kvs)
  case (Cons kv kvs')
  let ?items = "map (\<lambda>(k, v). k @ ''='' @ escape_param v) kvs"
  have "plain_key (fst kv)"
    using kvs Cons by (cases kv) auto
  then have "cq_params kvs \<noteq> [] \<and> hd (cq_params kvs) \<noteq> CHR '',''"
    using Cons by (cases kv; cases "fst kv") (auto simp: cq_params_def plain_key_def)
  then have "dropWhile (\<lambda>c. c = CHR '','') ('','' @ cq_params kvs) = cq_params kvs"
    by (cases "cq_params kvs") auto
  moreover have "split_on (CHR '','') (cq_params kvs) = ?items"
    unfolding cq_params_def
    by (rule split_intercalate)
      (use Cons kvs escape_param_plain in \<open>auto simp: plain_key_def\<close>)
  moreover have "foldl add_param [] ?items = map (map_prod id PStr) kvs"
    using add_params_printed [OF kvs d, of "[]"] by simp
  ultimately show ?thesis
    using Cons by (simp add: cq_data_def Let_def del: cq_params_eq_Nil) (simp add: cq_params_eq_Nil)
qed (simp add: cq_data_def)

section \<open>What the two directions compose to\<close>

text \<open>
  Segments as the rest of the program builds them: a text, or a typed segment whose data are
  strings. \<open>gather\<close> joins neighbouring texts and drops empty ones; its first argument is the
  text collected so far.
\<close>

datatype cq_part = Text string | Code string "(string \<times> string) list"

fun part_value :: "cq_part \<Rightarrow> pyval" where
  "part_value (Text t) = text_segment t"
| "part_value (Code ty kvs) = cq_segment ty (map (map_prod id PStr) kvs)"

fun plain_part :: "cq_part \<Rightarrow> bool" where
  "plain_part (Text t) = True"
| "plain_part (Code ty kvs) =
     (plain_type ty \<and> list_all (\<lambda>(k, v). plain_key k) kvs \<and> distinct (map fst kvs))"

fun gather :: "string \<Rightarrow> cq_part list \<Rightarrow> pyval list" where
  "gather t [] = (if t = [] then [] else [text_segment t])"
| "gather t (Text u # ps) = gather (t @ u) ps"
| "gather t (Code ty kvs # ps) =
     (if t = [] then [] else [text_segment t]) @ part_value (Code ty kvs) # gather [] ps"

lemma print_text: "segment_to_cq (text_segment t) = escape_text t"
  by (simp add: segment_to_cq_def text_segment_def segment_type_def segment_data_def
      dget_def py_or_def raw_str_field_def)

lemma print_code:
  assumes "plain_type ty"
  shows "segment_to_cq (cq_segment ty (map (map_prod id PStr) kvs)) =
    ''[CQ:'' @ ty @ (if kvs = [] then [] else '','' @ cq_params kvs) @ '']''"
proof -
  have f: "filter (\<lambda>kv. snd kv \<noteq> PNone) (map (map_prod id PStr) kvs) = map (map_prod id PStr) kvs"
    by (rule filter_True) auto
  have m: "intercalate '','' (map cq_param (map (map_prod id PStr) kvs)) = cq_params kvs"
    unfolding cq_params_def map_map
    by (rule arg_cong [where f = "intercalate '',''"], rule map_cong) (auto simp: cq_param_def)
  show ?thesis
    using assms f m
    by (simp add: segment_to_cq_def cq_segment_def segment_type_def segment_data_def
        plain_type_def dget_def py_or_def Let_def)
qed

lemma pending_escaped: "pending_text (escape_text t) = (if t = [] then [] else [text_segment t])"
  by (simp add: pending_text_def unescape_escape_text)

lemma cq_scan_printed:
  assumes "list_all plain_part ps"
  shows "cq_scan (escape_text t) (segments_to_cq (map part_value ps)) = gather t ps"
  using assms
proof (induction ps arbitrary: t)
  case Nil
  then show ?case by (simp add: segments_to_cq_def pending_escaped)
next
  case (Cons p ps)
  show ?case
  proof (cases p)
    case (Text u)
    then show ?thesis
      using Cons.IH [of "t @ u"] Cons.prems escape_text_brackets [of u]
      by (simp add: segments_to_cq_def print_text cq_scan_text escape_text_append)
  next
    case (Code ty kvs)
    let ?r = "segments_to_cq (map part_value ps)"
    let ?w = "''[CQ:'' @ ty @ (if kvs = [] then [] else '','' @ cq_params kvs) @ '']'' @ ?r"
    have ty: "plain_type ty" and kvs: "\<forall>(k, v) \<in> set kvs. plain_key k" "distinct (map fst kvs)"
      using Cons.prems Code by (auto simp: list_all_iff)
    obtain c s where w: "?w = c # s" by simp
    have "segments_to_cq (map part_value (p # ps)) = ?w"
      using ty by (simp add: segments_to_cq_def Code print_code)
    moreover have "cq_scan (escape_text t) ?w = pending_text (escape_text t) @
        cq_segment ty (cq_data (if kvs = [] then [] else '','' @ cq_params kvs)) # cq_scan [] ?r"
      using cq_at_printed [OF ty kvs(1), of ?r] unfolding w cq_scan.simps by simp
    moreover have "cq_scan [] ?r = gather [] ps"
      using Cons.IH [of "[]"] Cons.prems by simp
    ultimately show ?thesis
      unfolding cq_data_printed [OF kvs] by (simp add: Code pending_escaped)
  qed
qed

lemma gather_eq_Nil: "gather t ps = [] \<longleftrightarrow> t = [] \<and> list_all (\<lambda>p. p = Text []) ps"
  by (induction t ps rule: gather.induct) auto

lemma segments_all_empty: "list_all (\<lambda>p. p = Text []) ps \<Longrightarrow> segments_to_cq (map part_value ps) = []"
  by (induction ps) (auto simp: segments_to_cq_def print_text)

section \<open>Nested message lists\<close>

fun message_list_free :: "pyval \<Rightarrow> bool" where
  "message_list_free (PDict kvs) =
     list_all (\<lambda>(key, item). (key = ''message'' \<longrightarrow> as_list item = None) \<and> message_list_free item) kvs"
| "message_list_free (PList xs) = list_all message_list_free xs"
| "message_list_free v = True"

lemma encode_nested_no_list: "as_list (encode_nested_messages v) = None \<longleftrightarrow> as_list v = None"
  by (cases v) auto

lemma encode_nested_free: "message_list_free (encode_nested_messages v)"
proof (induction v rule: encode_nested_messages.induct)
  case (1 kvs)
  then show ?case
    by (fastforce simp: list_all_iff encode_nested_no_list split: pyval.splits)
qed (auto simp: list_all_iff)

lemma encode_nested_id: "message_list_free v \<Longrightarrow> encode_nested_messages v = v"
proof (induction v rule: encode_nested_messages.induct)
  case (1 kvs)
  have "(\<lambda>(key, item). (key, case item of
         PList segs \<Rightarrow> if key = ''message'' then PStr (segments_to_cq segs)
                       else encode_nested_messages item
       | _ \<Rightarrow> encode_nested_messages item)) kv = kv" if "kv \<in> set kvs" for kv
    using 1 that by (fastforce simp: list_all_iff split: pyval.splits)
  then show ?case by (simp add: map_idI)
qed (auto simp: list_all_iff map_idI)

end
