(* ===== verification/Forward_Nodes.thy ===== *)
theory Forward_Nodes
  imports Cq_Codec
begin

text \<open>
  Merged-forward messages, \<open>bridge/forward_messages.py\<close>: the nested \<open>node\<close> structure a
  client sends is flattened into a list of items, each a reference to a stored message or a
  list of validated segments, numbered by the top-level node they come from.

  The functions that append to \<open>result\<close> take the list and return it extended; the list is
  local to \<open>parse_forward_nodes\<close>, so what a raising call left in it is not observable. The
  loops over nodes are \<open>expand_nodes\<close> and \<open>expand_mixed\<close>. A value is a finite tree, hence
  the recursion ends; Python's recursion limit is not modelled. Error texts are labels.
\<close>

section \<open>Recognising nodes\<close>

definition is_node :: "pyval \<Rightarrow> bool" where
  "is_node v = (case v of PDict e \<Rightarrow> py_lower (raw_str_field e ''type'') = ''node'' | _ \<Rightarrow> False)"

definition has_messages :: "pyval \<Rightarrow> bool" where
  "has_messages v = (case v of PDict e \<Rightarrow> has_key e ''messages'' | _ \<Rightarrow> False)"

definition is_forward_candidate :: "pyval \<Rightarrow> bool" where
  "is_forward_candidate v = (case v of
     PDict e \<Rightarrow> has_messages v \<or> is_node v
   | PList xs \<Rightarrow> list_ex (\<lambda>item. is_dict item \<and> (is_node item \<or> has_messages item)) xs
   | _ \<Rightarrow> False)"

lemma dget_or_smaller: "has_key e k \<Longrightarrow> size (dget_or e k d) + 1 < size (PDict e)"
proof (induction e)
  case (Cons kv e)
  then show ?case by (cases kv) (auto simp: has_key_def dget_or_def split: if_splits)
qed (simp add: has_key_def)

lemma dget_smaller: "has_key e k \<Longrightarrow> size (dget e k) + 1 < size (PDict e)"
  using dget_or_smaller [of e k PNone] by (simp add: dget_or_def dget_def)

lemma dget_missing: "\<not> has_key e k \<Longrightarrow> dget e k = PNone"
  by (simp add: has_key_def dget_def)

lemma dget_dict_smaller: "dget e k = v \<Longrightarrow> v \<noteq> PNone \<Longrightarrow> size v + 1 < size (PDict e)"
  using dget_smaller [of e k] dget_missing [of e k] by auto

lemma dget_smaller_list:
  "dget e k \<noteq> PNone \<Longrightarrow> size (dget e k) \<le> size_list (size_prod (\<lambda>_. 0) size) e"
  using dget_dict_smaller [OF refl, of e k] by simp

function unwrap_node_list :: "pyval \<Rightarrow> exn + pyval list" where
  "unwrap_node_list (PDict e) =
     (if has_key e ''messages'' then unwrap_node_list (dget e ''messages'')
      else if is_node (PDict e) then Inr [PDict e] else Inl (ValueError ''messages''))"
| "unwrap_node_list (PList xs) = Inr xs"
| "unwrap_node_list PNone = Inl (ValueError ''messages'')"
| "unwrap_node_list (PBool b) = Inl (ValueError ''messages'')"
| "unwrap_node_list (PInt i) = Inl (ValueError ''messages'')"
| "unwrap_node_list (PStr s) = Inl (ValueError ''messages'')"
  by pat_completeness auto
termination
  by (relation "measure size") (auto dest: dget_smaller)

function contains_node :: "pyval \<Rightarrow> bool" where
  "contains_node (PDict e) =
     (is_node (PDict e) \<or>
      (let nested = dget e ''messages'' in if nested \<noteq> PNone then contains_node nested else False))"
| "contains_node (PList xs) = list_ex contains_node xs"
| "contains_node PNone = False"
| "contains_node (PBool b) = False"
| "contains_node (PInt i) = False"
| "contains_node (PStr s) = False"
  by pat_completeness auto
termination
  by (relation "measure size") (auto simp: less_Suc_eq_le size_list_estimation' dget_smaller_list)

section \<open>Segments\<close>

definition supported_segments :: "string list" where
  "supported_segments =
     [''text'', ''at'', ''reply'', ''image'', ''file'', ''record'', ''video'', ''markdown'']"

definition validate_segment :: "pyval \<Rightarrow> exn + pyval" where
  "validate_segment segment = (case segment of
     PDict e \<Rightarrow>
       (let ty = py_lower (str_field e ''type'') in
        if ty \<notin> set supported_segments then Inl (ValueError ''unsupported segment'')
        else (case dget_or e ''data'' (PDict []) of
            PDict data \<Rightarrow>
              if ty = ''reply'' \<and> str_field data ''id'' = [] then Inl (ValueError ''reply id'')
              else if ty \<in> {''image'', ''file'', ''record'', ''video''} \<and>
                  py_strip (py_str (py_or (py_or (dget data ''file'') (dget data ''url'')) (PStr []))) = []
              then Inl (ValueError ''media file'')
              else Inr (PDict [(''type'', PStr ty), (''data'', PDict data)])
          | _ \<Rightarrow> Inl (ValueError ''segment data'')))
   | _ \<Rightarrow> Inl (ValueError ''invalid segment''))"

definition validate_forward_segments :: "pyval \<Rightarrow> exn + pyval list" where
  "validate_forward_segments segments = (case segments of
     PList xs \<Rightarrow> if xs = [] then Inl (ValueError ''empty node'') else traverse validate_segment xs
   | _ \<Rightarrow> Inl (ValueError ''empty node''))"

record forward_item =
  fi_index :: nat
  fi_segments :: "pyval list option"
  fi_reference :: string

definition append_segments ::
  "pyval list \<Rightarrow> nat \<Rightarrow> forward_item list \<Rightarrow> exn + forward_item list" where
  "append_segments segments i res =
     sbind (traverse validate_segment segments) (\<lambda>validated.
       if validated = [] then Inl (ValueError ''empty node'')
       else Inr (res @ [\<lparr>fi_index = i, fi_segments = Some validated, fi_reference = []\<rparr>]))"

section \<open>Expansion\<close>

lemma unwrap_smaller: "unwrap_node_list v = Inr xs \<Longrightarrow> size_list size xs \<le> size v + 1"
proof (induction v rule: unwrap_node_list.induct)
  case (1 e)
  then show ?case using dget_smaller [of e "''messages''"] by (auto split: if_splits)
qed auto

lemma unwrap_messages_smaller:
  assumes "unwrap_node_list (PDict e) = Inr xs" "has_key e ''messages''"
  shows "size_list size xs < size (PDict e)"
  using assms unwrap_smaller [of "dget e ''messages''" xs] dget_smaller [of e "''messages''"] by simp

lemma unwrap_has_messages_smaller:
  "has_messages v \<Longrightarrow> unwrap_node_list v = Inr xs \<Longrightarrow> size_list size xs < size v"
  using unwrap_messages_smaller
  by (cases v) (auto simp: has_messages_def simp del: unwrap_node_list.simps)

lemma content_smaller:
  assumes "dget_or d ''content'' (dget d ''messages'') = v" "v \<noteq> PNone"
  shows "size v + 1 < size (PDict d)"
  using assms dget_or_smaller [of d "''content''"] dget_dict_smaller [of d "''messages''"]
  by (cases "has_key d ''content''") (auto simp: dget_or_def has_key_def)

definition expand_measure where
  "expand_measure p = (case p of
     Inl (Inl (node, i, res)) \<Rightarrow> 2 * size (node :: pyval)
   | Inl (Inr (nodes, i, res)) \<Rightarrow> 2 * size_list size (nodes :: pyval list)
   | Inr (Inl (content, i, res)) \<Rightarrow> 2 * size (content :: pyval) + 1
   | Inr (Inr (items, pending, i, res)) \<Rightarrow> 2 * size_list size (items :: pyval list))"

function expand_node :: "pyval \<Rightarrow> nat \<Rightarrow> forward_item list \<Rightarrow> exn + forward_item list"
  and expand_nodes :: "pyval list \<Rightarrow> nat \<Rightarrow> forward_item list \<Rightarrow> exn + forward_item list"
  and expand_content :: "pyval \<Rightarrow> nat \<Rightarrow> forward_item list \<Rightarrow> exn + forward_item list"
  and expand_mixed ::
    "pyval list \<Rightarrow> pyval list \<Rightarrow> nat \<Rightarrow> forward_item list \<Rightarrow> exn + forward_item list" where
  "expand_node node i res = (case node of
     PDict e \<Rightarrow> (case dget e ''data'' of
         PDict data \<Rightarrow>
           (let ref = str_field data ''id'' in
            if ref \<noteq> [] then Inr (res @ [\<lparr>fi_index = i, fi_segments = None, fi_reference = ref\<rparr>])
            else (let content = dget_or data ''content'' (dget data ''messages'') in
              if content = PNone then Inl (ValueError ''missing content'')
              else sbind (expand_content content i res) (\<lambda>res'.
                if length res' = length res then Inl (ValueError ''empty node'') else Inr res')))
       | _ \<Rightarrow> Inl (ValueError ''node data''))
   | _ \<Rightarrow> Inl (OtherError ''AttributeError'' ''get''))"
| "expand_nodes nodes i res = (case nodes of
     [] \<Rightarrow> Inr res
   | node # rest \<Rightarrow> sbind (expand_node node i res) (\<lambda>res'. expand_nodes rest i res'))"
| "expand_content content i res =
     (if has_messages content then
        (case unwrap_node_list content of Inl err \<Rightarrow> Inl err
         | Inr nested \<Rightarrow>
             if nested = [] then Inl (ValueError ''empty nested'')
             else if list_ex (\<lambda>n. \<not> is_node n) nested then Inl (ValueError ''nested not nodes'')
             else expand_nodes nested i res)
      else if is_node content then expand_node content i res
      else (case content of
          PStr s \<Rightarrow> append_segments (cq_to_segments s) i res
        | PDict e \<Rightarrow> append_segments [PDict e] i res
        | PList xs \<Rightarrow>
            if xs = [] then Inl (ValueError ''content'')
            else if list_all is_node xs then expand_nodes xs i res
            else if list_ex contains_node xs then expand_mixed xs [] i res
            else append_segments xs i res
        | _ \<Rightarrow> Inl (ValueError ''content'')))"
| "expand_mixed items pending i res = (case items of
     [] \<Rightarrow> if pending \<noteq> [] then append_segments pending i res else Inr res
   | item # rest \<Rightarrow>
       if is_node item \<or> has_messages item then
         sbind (if pending \<noteq> [] then append_segments pending i res else Inr res) (\<lambda>res1.
           if is_node item then
             sbind (expand_node item i res1) (\<lambda>res2. expand_mixed rest [] i res2)
           else (case unwrap_node_list item of Inl err \<Rightarrow> Inl err
             | Inr nested \<Rightarrow>
                 if nested = [] \<or> list_ex (\<lambda>n. \<not> is_node n) nested
                 then Inl (ValueError ''nested not nodes'')
                 else sbind (expand_nodes nested i res1) (\<lambda>res2. expand_mixed rest [] i res2)))
       else sbind (validate_segment item) (\<lambda>segment. expand_mixed rest (pending @ [segment]) i res))"
  by pat_completeness auto

termination
proof (relation "measure expand_measure", goal_cases)
  case 1
  show ?case by simp
next
  case (2 node i res e d)
  then show ?case
    using dget_dict_smaller [of e "''data''"]
      content_smaller [OF refl, of d] by (auto simp: expand_measure_def)
qed (auto simp: expand_measure_def less_Suc_eq dest: unwrap_has_messages_smaller)

declare expand_node.simps [simp del] expand_nodes.simps [simp del]
  expand_content.simps [simp del] expand_mixed.simps [simp del]

lemma expand_nodes_simps [simp]:
  "expand_nodes [] i res = Inr res"
  "expand_nodes (node # rest) i res =
     sbind (expand_node node i res) (\<lambda>res'. expand_nodes rest i res')"
  by (simp_all add: expand_nodes.simps [of "[]"] expand_nodes.simps [of "node # rest"])

fun expand_top :: "nat \<Rightarrow> pyval list \<Rightarrow> forward_item list \<Rightarrow> exn + forward_item list" where
  "expand_top i [] res = Inr res"
| "expand_top i (node # rest) res =
     sbind (expand_node node i res) (\<lambda>res'. expand_top (i + 1) rest res')"

definition parse_forward_nodes :: "pyval \<Rightarrow> exn + forward_item list" where
  "parse_forward_nodes payload =
     sbind (unwrap_node_list payload) (\<lambda>nodes.
       if nodes = [] then Inl (ValueError ''empty'')
       else if list_ex (\<lambda>item. \<not> is_node item) nodes
       then (if list_ex contains_node nodes then Inl (ValueError ''mixed'')
             else Inl (ValueError ''not nodes''))
       else sbind (expand_top 1 nodes []) (\<lambda>res.
         if res = [] then Inl (ValueError ''empty'') else Inr res))"

section \<open>Every item that comes out is usable\<close>

lemma supported_lower: "ty \<in> set supported_segments \<Longrightarrow> py_lower (py_strip ty) = ty"
  by (auto simp: supported_segments_def py_defs)

lemma validate_segment_cases:
  assumes "validate_segment s = Inr t"
  obtains ty data where "t = PDict [(''type'', PStr ty), (''data'', PDict data)]"
    "ty \<in> set supported_segments"
    "ty = ''reply'' \<longrightarrow> str_field data ''id'' \<noteq> []"
    "ty \<in> {''image'', ''file'', ''record'', ''video''} \<longrightarrow>
      py_strip (py_str (py_or (py_or (dget data ''file'') (dget data ''url'')) (PStr []))) \<noteq> []"
  using assms by (auto simp: validate_segment_def Let_def split: pyval.splits if_splits)

lemma validate_segment_idem:
  assumes "validate_segment s = Inr t"
  shows "validate_segment t = Inr t"
proof -
  obtain ty data where t: "t = PDict [(''type'', PStr ty), (''data'', PDict data)]"
    and ty: "ty \<in> set supported_segments" "ty = ''reply'' \<longrightarrow> str_field data ''id'' \<noteq> []"
      "ty \<in> {''image'', ''file'', ''record'', ''video''} \<longrightarrow>
        py_strip (py_str (py_or (py_or (dget data ''file'') (dget data ''url'')) (PStr []))) \<noteq> []"
    using assms by (rule validate_segment_cases)
  have "str_field [(''type'', PStr ty), (''data'', PDict data)] ''type'' = py_strip ty"
    by (rule str_field_PStr) (simp add: dget_def)
  then show ?thesis
    using ty supported_lower [OF ty(1)]
    by (auto simp: t validate_segment_def dget_or_def)
qed

definition usable_item :: "forward_item \<Rightarrow> bool" where
  "usable_item it = (case fi_segments it of
     None \<Rightarrow> fi_reference it \<noteq> [] \<and> py_strip (fi_reference it) = fi_reference it
   | Some ss \<Rightarrow> fi_reference it = [] \<and> ss \<noteq> [] \<and> list_all (\<lambda>s. validate_segment s = Inr s) ss)"

definition extends :: "nat \<Rightarrow> forward_item list \<Rightarrow> forward_item list \<Rightarrow> bool" where
  "extends i res res' \<longleftrightarrow>
     (\<exists>new. res' = res @ new \<and> (\<forall>it \<in> set new. fi_index it = i \<and> usable_item it))"

lemma extends_refl [simp]: "extends i res res"
  by (simp add: extends_def)

lemma extends_trans: "extends i a b \<Longrightarrow> extends i b c \<Longrightarrow> extends i a c"
  by (auto simp: extends_def)

lemma extends_length: "extends i a b \<Longrightarrow> length a \<le> length b"
  by (auto simp: extends_def)

lemma traverse_validate_idem:
  assumes "traverse validate_segment xs = Inr ys"
  shows "list_all (\<lambda>s. validate_segment s = Inr s) ys"
  using assms by (fastforce simp: traverse_Inr list_all_iff list_all2_conv_all_nth in_set_conv_nth
      dest: validate_segment_idem)

lemma append_segments_extends:
  assumes "append_segments xs i res = Inr res'"
  shows "extends i res res' \<and> length res < length res'"
  using assms traverse_validate_idem [of xs]
  by (auto simp: append_segments_def sbind_Inr extends_def usable_item_def split: if_splits)

lemma expand_extends:
  "expand_node node i res = Inr res' \<Longrightarrow> extends i res res' \<and> length res < length res'"
  "expand_nodes nodes i res = Inr res' \<Longrightarrow>
     extends i res res' \<and> (nodes \<noteq> [] \<longrightarrow> length res < length res')"
  "expand_content content i res = Inr res' \<Longrightarrow> extends i res res'"
  "expand_mixed items pending i res = Inr res' \<Longrightarrow> extends i res res'"
proof (induction node i res and nodes i res and content i res and items pending i res
    arbitrary: res' and res' and res' and res'
    rule: expand_node_expand_nodes_expand_content_expand_mixed.induct)
  case (1 node i res)
  obtain e data where e: "node = PDict e" "dget e ''data'' = PDict data"
    using "1.prems" by (auto simp: expand_node.simps [of node] split: pyval.splits)
  let ?c = "dget_or data ''content'' (dget data ''messages'')"
  show ?case
  proof (cases "str_field data ''id'' = []")
    case False
    with "1.prems" e show ?thesis
      by (auto simp: expand_node.simps [of "PDict e"] extends_def usable_item_def)
  next
    case True
    with "1.prems" e have "?c \<noteq> PNone" "expand_content ?c i res = Inr res'"
      "length res' \<noteq> length res"
      by (auto simp: expand_node.simps [of "PDict e"] Let_def sbind_Inr split: if_splits)
    moreover from this have "extends i res res'"
      using "1.IH" [OF e refl _ refl] True by simp
    ultimately show ?thesis
      using extends_length by fastforce
  qed
next
  case (2 nodes i res)
  show ?case
  proof (cases nodes)
    case Nil
    with "2.prems" show ?thesis by simp
  next
    case (Cons node rest)
    with "2.prems" obtain r1 where r1: "expand_node node i res = Inr r1"
      "expand_nodes rest i r1 = Inr res'"
      by (auto simp: sbind_Inr)
    then have "extends i res r1 \<and> length res < length r1" "extends i r1 res'"
      using "2.IH"(1) [OF Cons] "2.IH"(2) [OF Cons] by blast+
    then show ?thesis
      using extends_trans extends_length by (meson less_le_trans)
  qed
next
  case (3 content i res)
  have list: "extends i res res'" if "content = PList xs" "\<not> has_messages content" "\<not> is_node content"
      "xs \<noteq> []" "if list_all is_node xs then expand_nodes xs i res = Inr res'
        else list_ex contains_node xs \<and> expand_mixed xs [] i res = Inr res'" for xs
    using that "3.IH"(3) [OF that(2,3,1,4)] "3.IH"(4) [OF that(2,3,1,4)] by (auto split: if_splits)
  from "3.prems" show ?case
    by (subst (asm) expand_content.simps)
      (auto split: if_splits sum.splits pyval.splits intro: list
        dest: "3.IH"(1,2) append_segments_extends)
next
  case (4 items pending i res)
  show ?case
  proof (cases items)
    case Nil
    with "4.prems" show ?thesis
      by (auto simp: expand_mixed.simps [of "[]"] split: if_splits dest: append_segments_extends)
  next
    case (Cons item rest)
    let ?flush = "if pending \<noteq> [] then append_segments pending i res else Inr res"
    show ?thesis
    proof (cases "is_node item \<or> has_messages item")
      case False
      with "4.prems" Cons obtain seg where "validate_segment item = Inr seg"
        "expand_mixed rest (pending @ [seg]) i res = Inr res'"
        by (auto simp: expand_mixed.simps [of "item # rest"] sbind_Inr)
      then show ?thesis using "4.IH"(5) [OF Cons False] by simp
    next
      case True
      with "4.prems" Cons obtain r1 where r1: "?flush = Inr r1"
        by (auto simp: expand_mixed.simps [of "item # rest"] sbind_Inr split: if_splits)
      then have e1: "extends i res r1"
        by (auto split: if_splits dest: append_segments_extends)
      show ?thesis
      proof (cases "is_node item")
        case node: True
        with "4.prems" Cons r1 obtain r2 where "expand_node item i r1 = Inr r2"
          "expand_mixed rest [] i r2 = Inr res'"
          by (auto simp: expand_mixed.simps [of "item # rest"] sbind_Inr split: if_splits)
        then show ?thesis
          using "4.IH"(1) [OF Cons True node] "4.IH"(2) [OF Cons True node] e1 extends_trans
          by meson
      next
        case node: False
        with True "4.prems" Cons r1 obtain nested r2 where n: "unwrap_node_list item = Inr nested"
          "\<not> (nested = [] \<or> list_ex (\<lambda>n. \<not> is_node n) nested)"
          "expand_nodes nested i r1 = Inr r2" "expand_mixed rest [] i r2 = Inr res'"
          by (auto simp: expand_mixed.simps [of "item # rest"] sbind_Inr split: if_splits sum.splits)
        then show ?thesis
          using "4.IH"(3) [OF Cons True node n(1,2)] "4.IH"(4) [OF Cons True node n(1,2)]
            e1 extends_trans by meson
      qed
    qed
  qed
qed

lemma expand_top_extends:
  "expand_top i nodes res = Inr res' \<Longrightarrow>
     \<exists>new. res' = res @ new \<and> list_all usable_item new \<and> sorted (map fi_index new) \<and>
       fi_index ` set new = {i ..< i + length nodes}"
proof (induction i nodes res rule: expand_top.induct)
  case (2 i node rest res)
  then obtain r1 where r1: "expand_node node i res = Inr r1" "expand_top (i + 1) rest r1 = Inr res'"
    by (auto simp: sbind_Inr)
  obtain a where a: "r1 = res @ a" "\<forall>it \<in> set a. fi_index it = i \<and> usable_item it" "a \<noteq> []"
    using expand_extends(1) [OF r1(1)] by (auto simp: extends_def)
  obtain b where b: "res' = r1 @ b" "list_all usable_item b" "sorted (map fi_index b)"
    "fi_index ` set b = {i + 1 ..< i + 1 + length rest}"
    using "2.IH" [OF r1(2)] by auto
  have ia: "fi_index ` set a = {i}"
    using a(2,3) by (cases a) auto
  have "map fi_index a = replicate (length a) i"
    using a(2) by (simp add: map_replicate_const [symmetric])
  moreover have "\<forall>j \<in> set (map fi_index b). i \<le> j"
    using b(4) by auto
  ultimately have "sorted (map fi_index (a @ b))"
    using b(3) by (simp add: sorted_append sorted_replicate)
  moreover have "fi_index ` set (a @ b) = {i ..< i + length (node # rest)}"
    using ia b(4) by (auto simp: image_Un)
  ultimately show ?case
    using a(1,2) b(1,2) by (intro exI [of _ "a @ b"]) (auto simp: list_all_iff)
qed simp

section \<open>The flattening the format describes\<close>

text \<open>
  A node refers to a stored message or has a body of segments and further nodes. Flattening
  keeps the order, and neighbouring segments of a body form one item.
\<close>

datatype fnode = Ref string | Body "fpart list"
  and fpart = Seg pyval | Sub fnode

definition make_node :: "entry \<Rightarrow> pyval" where
  "make_node data = PDict [(''type'', PStr ''node''), (''data'', PDict data)]"

fun node_value :: "fnode \<Rightarrow> pyval" and body_value :: "fpart \<Rightarrow> pyval" where
  "node_value (Ref r) = make_node [(''id'', PStr r)]"
| "node_value (Body ps) = make_node [(''content'', PList (map body_value ps))]"
| "body_value (Seg s) = s"
| "body_value (Sub n) = node_value n"

definition segment_item :: "nat \<Rightarrow> pyval list \<Rightarrow> forward_item list" where
  "segment_item i ss =
     (if ss = [] then [] else [\<lparr>fi_index = i, fi_segments = Some ss, fi_reference = []\<rparr>])"

fun flat_node :: "nat \<Rightarrow> fnode \<Rightarrow> forward_item list"
  and flat_parts :: "nat \<Rightarrow> pyval list \<Rightarrow> fpart list \<Rightarrow> forward_item list" where
  "flat_node i (Ref r) = [\<lparr>fi_index = i, fi_segments = None, fi_reference = r\<rparr>]"
| "flat_node i (Body ps) = flat_parts i [] ps"
| "flat_parts i pend [] = segment_item i pend"
| "flat_parts i pend (Seg s # ps) = flat_parts i (pend @ [s]) ps"
| "flat_parts i pend (Sub n # ps) = segment_item i pend @ flat_node i n @ flat_parts i [] ps"

fun good_node :: "fnode \<Rightarrow> bool" and good_part :: "fpart \<Rightarrow> bool" where
  "good_node (Ref r) = (r \<noteq> [] \<and> py_strip r = r)"
| "good_node (Body ps) = (ps \<noteq> [] \<and> list_all good_part ps)"
| "good_part (Seg s) = (validate_segment s = Inr s)"
| "good_part (Sub n) = good_node n"

lemma valid_segment_plain:
  assumes "validate_segment s = Inr s"
  shows "\<not> is_node s" "\<not> has_messages s" "\<not> contains_node s"
proof -
  obtain ty data where s: "s = PDict [(''type'', PStr ty), (''data'', PDict data)]"
    and ty: "ty \<in> set supported_segments"
    using assms by (rule validate_segment_cases)
  show "\<not> is_node s"
    using ty by (auto simp: s is_node_def raw_str_field_PStr dget_def supported_segments_def
        py_lower_def py_lower_char_def)
  then show "\<not> contains_node s"
    by (simp add: s dget_def)
  show "\<not> has_messages s"
    by (simp add: s has_messages_def has_key_def)
qed

lemma is_node_value [simp]: "is_node (node_value n)" "\<not> has_messages (node_value n)"
  by (cases n; simp add: make_node_def is_node_def raw_str_field_def py_or_def dget_def
      py_lower_def py_lower_char_def has_messages_def has_key_def)+

lemma is_node_part: "good_part p \<Longrightarrow> is_node (body_value p) = (\<exists>n. p = Sub n)"
  by (cases p) (auto simp: valid_segment_plain)

lemma contains_node_part: "good_part p \<Longrightarrow> contains_node (body_value p) = (\<exists>n. p = Sub n)"
proof (cases p)
  case (Sub n)
  obtain e where "node_value n = PDict e" by (cases n) (simp_all add: make_node_def)
  with Sub show ?thesis using is_node_value(1) [of n] by simp
qed (simp add: valid_segment_plain)

lemma append_valid_segments:
  assumes "list_all (\<lambda>s. validate_segment s = Inr s) ss" "ss \<noteq> []"
  shows "append_segments ss i res = Inr (res @ segment_item i ss)"
proof -
  have "traverse validate_segment ss = Inr (map id ss)"
    using assms(1) by (intro traverse_total) (simp add: list_all_iff)
  with assms(2) show ?thesis by (simp add: append_segments_def segment_item_def)
qed

lemma flat_nonempty:
  "good_node n \<Longrightarrow> flat_node i n \<noteq> []"
  "flat_parts i' pend ps = [] \<Longrightarrow> list_all good_part ps \<Longrightarrow> pend = [] \<and> ps = []"
  by (induction i n and i' pend ps rule: flat_node_flat_parts.induct)
    (auto simp: segment_item_def split: if_splits)

lemma node_parts:
  "list_all good_part ps \<Longrightarrow> list_all is_node (map body_value ps) \<Longrightarrow> \<exists>ns. ps = map Sub ns"
proof (induction ps)
  case (Cons p ps)
  then obtain ns where "ps = map Sub ns" by auto
  moreover obtain n where "p = Sub n" using Cons.prems by (auto simp: is_node_part)
  ultimately show ?case by (intro exI [of _ "n # ns"]) simp
qed simp

lemma segment_parts:
  "list_all good_part ps \<Longrightarrow> \<not> list_ex contains_node (map body_value ps) \<Longrightarrow> \<exists>ss. ps = map Seg ss"
proof (induction ps)
  case (Cons p ps)
  then obtain ss where "ps = map Seg ss" by auto
  moreover obtain s where "p = Seg s" using Cons.prems contains_node_part [of p] by (cases p) auto
  ultimately show ?case by (intro exI [of _ "s # ss"]) simp
qed simp

lemma flat_segments: "flat_parts i pend (map Seg ss) = segment_item i (pend @ ss)"
  by (induction ss arbitrary: pend) auto

lemma expand_mixed_simps [simp]:
  "expand_mixed [] pending i res = (if pending \<noteq> [] then append_segments pending i res else Inr res)"
  by (simp add: expand_mixed.simps [of "[]"])

lemma expand_body:
  assumes ps: "list_all good_part ps" "ps \<noteq> []"
    and nodes: "\<And>res. list_all is_node (map body_value ps) \<Longrightarrow>
      expand_nodes (map body_value ps) i res = Inr (res @ flat_parts i [] ps)"
    and mixed: "\<And>res. expand_mixed (map body_value ps) [] i res = Inr (res @ flat_parts i [] ps)"
  shows "expand_content (PList (map body_value ps)) i res = Inr (res @ flat_parts i [] ps)"
proof -
  have seg: "append_segments (map body_value ps) i res = Inr (res @ flat_parts i [] ps)"
    if no: "\<not> list_ex contains_node (map body_value ps)"
  proof -
    obtain ss where ss: "ps = map Seg ss" using segment_parts [OF ps(1) no] by blast
    then have "list_all (\<lambda>s. validate_segment s = Inr s) ss" "ss \<noteq> []"
      using ps by (auto simp: list_all_iff)
    then show ?thesis by (simp add: ss comp_def append_valid_segments flat_segments)
  qed
  show ?thesis
    using ps(2) nodes mixed seg
    by (subst expand_content.simps) (auto simp: has_messages_def is_node_def)
qed

lemma expand_flat:
  "good_node n \<Longrightarrow> expand_node (node_value n) i res = Inr (res @ flat_node i n)"
  "list_all good_part ps \<Longrightarrow> list_all (\<lambda>s. validate_segment s = Inr s) pend \<Longrightarrow>
     expand_mixed (map body_value ps) pend i' res' = Inr (res' @ flat_parts i' pend ps) \<and>
     (list_all is_node (map body_value ps) \<longrightarrow>
        expand_nodes (map body_value ps) i' res' = Inr (res' @ flat_parts i' [] ps))"
proof (induction i n and i' pend ps arbitrary: res and res' rule: flat_node_flat_parts.induct)
  case (1 i r)
  then show ?case
    by (subst expand_node.simps) (simp add: make_node_def dget_def str_field_PStr)
next
  case (2 i ps)
  have c: "expand_content (PList (map body_value ps)) i res = Inr (res @ flat_parts i [] ps)"
    by (rule expand_body) (use 2 in auto)
  have "flat_parts i [] ps \<noteq> []"
    using flat_nonempty(2) [of i "[]" ps] "2.prems" by auto
  with c show ?case
    by (subst expand_node.simps)
      (simp add: make_node_def dget_def dget_or_def str_field_def py_or_def)
next
  case (3 i pend)
  then show ?case by (auto simp: append_valid_segments segment_item_def)
next
  case (4 i pend s ps)
  then show ?case
    by (auto simp: expand_mixed.simps [of "s # map body_value ps"] valid_segment_plain)
next
  case (5 i pend n ps)
  have n: "expand_node (node_value n) i r = Inr (r @ flat_node i n)" for r
    using 5 by simp
  have rest: "expand_mixed (map body_value ps) [] i r = Inr (r @ flat_parts i [] ps)" for r
    using 5 by simp
  have flush: "(if pend \<noteq> [] then append_segments pend i res' else Inr res') =
      Inr (res' @ segment_item i pend)"
    using "5.prems" append_valid_segments by (auto simp: segment_item_def)
  have "expand_mixed (map body_value (Sub n # ps)) pend i res' =
      Inr (res' @ flat_parts i pend (Sub n # ps))"
    using flush n rest by (simp add: expand_mixed.simps [of "node_value n # map body_value ps"])
  moreover have "expand_nodes (map body_value (Sub n # ps)) i res' =
      Inr (res' @ flat_parts i [] (Sub n # ps))" if "list_all is_node (map body_value ps)"
    using 5 that n by (simp add: segment_item_def)
  ultimately show ?case by simp
qed

lemma expand_top_flat:
  "list_all good_node ns \<Longrightarrow> expand_top i (map node_value ns) res =
     Inr (res @ concat (map (\<lambda>(j, n). flat_node j n) (enumerate i ns)))"
proof (induction ns arbitrary: i res)
  case (Cons n ns)
  then show ?case using expand_flat(1) [of n i res] by simp
qed simp

end
