(* ===== verification/Message_Properties.thy ===== *)
theory Message_Properties
  imports Forward_Nodes
begin

text \<open>
  Properties of the CQ codec and of merged-forward parsing. The proofs apply the lemmas of
  \<open>Cq_Codec\<close> and \<open>Forward_Nodes\<close>.
\<close>

text \<open>C30. Text cannot smuggle in a CQ code: whatever a user types, the escaped text reads back as
  one text segment with exactly that text.
\<close>

theorem escaped_text_is_inert:
  "cq_to_segments (segments_to_cq [text_segment s]) = [text_segment s]"
  using cq_scan_printed [of "[Text s]" "[]"]
  by (cases "s = []")
    (auto simp: cq_to_segments_def segments_to_cq_def print_text unescape_def)

text \<open>C31. Printing a list of segments as CQ codes and reading the string back gives the same
  segments, with neighbouring texts joined and empty ones dropped, for every list of texts
  (any text) and typed segments with string data (any values) whose types and keys are free
  of the delimiters.
\<close>

theorem cq_round_trip:
  assumes "list_all plain_part ps" "list_ex (\<lambda>p. p \<noteq> Text []) ps"
  shows "cq_to_segments (segments_to_cq (map Cq_Codec.part_value ps)) = gather [] ps"
proof -
  have "gather [] ps \<noteq> []"
    using assms(2) by (auto simp: gather_eq_Nil list_all_iff list_ex_iff)
  then show ?thesis
    using cq_scan_printed [OF assms(1), of "[]"] by (simp add: cq_to_segments_def)
qed

theorem cq_round_trip_witness:
  "cq_to_segments (segments_to_cq
     [text_segment ''a'', text_segment ''[&]'',
      cq_segment ''at'' [(''qq'', PStr ''1,2''), (''name'', PStr ''x=y'')]]) =
   [text_segment ''a[&]'', cq_segment ''at'' [(''qq'', PStr ''1,2''), (''name'', PStr ''x=y'')]]"
  using cq_round_trip [of "[Text ''a'', Text ''[&]'',
      Code ''at'' [(''qq'', ''1,2''), (''name'', ''x=y'')]]"]
  by (simp add: plain_type_def plain_key_def)

text \<open>Response data sent by a codec in string mode contains no message list at any depth,
  encoding it again changes nothing, and in array mode it is untouched.
\<close>

theorem response_data_encoded:
  "message_list_free (encode_response_data True v) \<and>
   encode_response_data cd (encode_response_data cd v) = encode_response_data cd v \<and>
   encode_response_data False v = v"
  by (simp_all add: encode_response_data_def encode_nested_free encode_nested_id)

text \<open>What forward parsing accepts is usable: the items are not empty, come in the order of
  the top-level nodes with at least one item for each of them, and every item is a stripped
  non-empty reference or a non-empty list of segments that the validator accepts unchanged.
\<close>

theorem forward_items_usable:
  assumes "parse_forward_nodes payload = Inr items"
  shows "\<exists>nodes. unwrap_node_list payload = Inr nodes \<and> nodes \<noteq> [] \<and> list_all is_node nodes \<and>
    fi_index ` set items = {1 .. length nodes} \<and> sorted (map fi_index items) \<and>
    list_all usable_item items"
proof -
  obtain nodes where nodes: "unwrap_node_list payload = Inr nodes" "nodes \<noteq> []"
    "list_all is_node nodes" "expand_top 1 nodes [] = Inr items"
    using assms
    by (auto simp: parse_forward_nodes_def sbind_Inr list_all_iff list_ex_iff split: if_splits)
  moreover have "{1 ..< 1 + length nodes} = {1 .. length nodes}" by auto
  ultimately show ?thesis
    using expand_top_extends [OF nodes(4)] by auto
qed

definition example_nodes :: "fnode list" where
  "example_nodes =
     [Ref ''42'',
      Body [Seg (text_segment ''hi''), Seg (text_segment ''there''),
            Sub (Body [Seg (text_segment ''in'')]), Seg (text_segment ''out'')]]"

text \<open>C32. Flattening is complete: a list of nodes whose bodies mix segments and further nodes, to
  any depth, is accepted and gives the items of its nodes in order, neighbouring segments
  together, each under the number of its top-level node.
\<close>

theorem forward_nodes_flattened:
  assumes "list_all good_node ns" "ns \<noteq> []"
  shows "parse_forward_nodes (PList (map node_value ns)) =
    Inr (concat (map (\<lambda>(j, n). flat_node j n) (enumerate 1 ns)))"
proof -
  obtain n ms where ns: "ns = n # ms" using assms(2) by (cases ns) auto
  have "flat_node 1 n \<noteq> []"
    using assms(1) by (simp add: ns flat_nonempty)
  then show ?thesis
    using assms expand_top_flat [OF assms(1), of 1 "[]"]
    by (auto simp: parse_forward_nodes_def list_ex_iff ns)
qed

lemma example_nodes_good: "list_all good_node example_nodes" "example_nodes \<noteq> []"
  by (simp_all add: example_nodes_def text_segment_def validate_segment_def
      supported_segments_def str_field_PStr dget_def dget_or_def py_strip_nonspace
      py_isspace_def py_lower_def py_lower_char_def Let_def)

theorem forward_nodes_flattened_witness:
  "map (\<lambda>it. (fi_index it, fi_reference it))
     (projr (parse_forward_nodes (PList (map node_value example_nodes)))) =
   [(1, ''42''), (2, []), (2, []), (2, [])]"
  by (simp add: forward_nodes_flattened [OF example_nodes_good])
    (simp add: example_nodes_def segment_item_def)

theorem forward_items_usable_witness:
  "list_all usable_item (projr (parse_forward_nodes (PList [node_value (Ref ''42'')])))"
proof -
  have "parse_forward_nodes (PList [node_value (Ref ''42'')]) =
      Inr [\<lparr>fi_index = 1, fi_segments = None, fi_reference = ''42''\<rparr>]"
    by (simp add: parse_forward_nodes_def make_node_def is_node_def raw_str_field_PStr dget_def
        py_lower_def py_lower_char_def expand_node.simps str_field_PStr py_strip_nonspace
        py_isspace_def)
  from forward_items_usable [OF this] this show ?thesis by simp
qed

end
