(* ===== verification/Update_Manifest.thy ===== *)
theory Update_Manifest
  imports Sha256 "HOL-Library.Char_ord" "HOL-Library.List_Lexorder" "HOL-Library.Product_Lexorder"
begin

text \<open>
  Release manifests, \<open>rocketcat_shell/update_manifest.py\<close>: version tags, the paths a release
  may contain, the compatibility contract, building and validating a manifest, and the
  extraction of a release archive.

  \<^item> A directory is the list of the entries below it, by relative POSIX path (\<open>tree\<close>); a
    symbolic link carries the content of the file it resolves to, if it does. Links to
    directories have no entries below them. Files hold bytes.
  \<^item> An archive is the list of its members as \<open>zipfile\<close> reports them; reading the ZIP format,
    decoding a file as text and parsing JSON are parameters (\<open>read_text\<close>, \<open>json_loads\<close>).
  \<^item> The interpreter check is the parameter \<open>host_ok\<close>.
  \<^item> \<open>casefold\<close> is \<open>lower\<close> with the sharp s spelt out; the micro sign, whose folding is
    outside the model's characters, stays itself, which nothing else folds to.
\<close>

section \<open>Version tags\<close>

text \<open>
  The parts of a pre-release key: the tuples \<open>(0, "")\<close> that opens the key of a pre-release,
  \<open>(0, int)\<close> and \<open>(1, str)\<close>. Python orders tuples by component, so a number comes before a
  word; \<open>(0, "")\<close> is only ever compared with itself and with \<open>(1, "")\<close>.
\<close>

datatype key_part = Pre | Num int | Word string

fun part_rank :: "key_part \<Rightarrow> int \<times> int \<times> string" where
  "part_rank Pre = (- 1, 0, [])"
| "part_rank (Num i) = (0, i, [])"
| "part_rank (Word s) = (1, 0, s)"

lemma part_rank_inject: "part_rank a = part_rank b \<Longrightarrow> a = b"
  by (cases a; cases b) auto

instantiation key_part :: linorder
begin

definition "(a :: key_part) \<le> b \<longleftrightarrow> part_rank a \<le> part_rank b"

definition "(a :: key_part) < b \<longleftrightarrow> part_rank a < part_rank b"

instance
  by standard (auto simp: less_eq_key_part_def less_key_part_def dest: part_rank_inject)

end

type_synonym tag_key = "int \<times> int \<times> int \<times> key_part list"

definition update_error :: "string \<Rightarrow> exn + 'a" where
  "update_error m = Inl (OtherError ''UpdatePackageError'' m)"

definition is_alnum :: "char \<Rightarrow> bool" where
  "is_alnum c = (let n = (of_char c :: int) in
     (48 \<le> n \<and> n \<le> 57) \<or> (65 \<le> n \<and> n \<le> 90) \<or> (97 \<le> n \<and> n \<le> 122))"

text \<open>\<open>0|[1-9]\d*\<close>: the longest run of digits, which the next literal of the pattern ends.\<close>

definition tag_number :: "string \<Rightarrow> (int \<times> string) option" where
  "tag_number s =
     (let ds = takeWhile py_isdigit s in
      if ds = [] \<or> (hd ds = CHR ''0'' \<and> length ds \<noteq> 1) then None
      else Some (foldl (\<lambda>a c. 10 * a + digit_val c) 0 ds, dropWhile py_isdigit s))"

definition expect :: "char \<Rightarrow> string \<Rightarrow> string option" where
  "expect c s = (case s of [] \<Rightarrow> None | d # t \<Rightarrow> if d = c then Some t else None)"

definition ident_ok :: "string \<Rightarrow> bool" where
  "ident_ok p \<longleftrightarrow> p \<noteq> [] \<and> list_all (\<lambda>c. is_alnum c \<or> c = CHR ''-'') p"

definition match_tag :: "string \<Rightarrow> (int \<times> int \<times> int \<times> string option) option" where
  "match_tag tag =
     Option.bind (expect (CHR ''v'') tag) (\<lambda>s0.
     Option.bind (tag_number s0) (\<lambda>(major, s1).
     Option.bind (expect (CHR ''.'') s1) (\<lambda>s2.
     Option.bind (tag_number s2) (\<lambda>(minor, s3).
     Option.bind (expect (CHR ''.'') s3) (\<lambda>s4.
     Option.bind (tag_number s4) (\<lambda>(patch, s5).
       if s5 = [] then Some (major, minor, patch, None)
       else Option.bind (expect (CHR ''-'') s5) (\<lambda>pre.
         if list_all ident_ok (split_on (CHR ''.'') pre) then Some (major, minor, patch, Some pre)
         else None)))))))"

definition ident_key :: "string \<Rightarrow> exn + key_part" where
  "ident_key p =
     (if list_all py_isdigit p then
        (if length p > 1 \<and> hd p = CHR ''0'' then update_error ''invalid tag''
         else Inr (Num (foldl (\<lambda>a c. 10 * a + digit_val c) 0 p)))
      else Inr (Word (py_lower p)))"

definition parse_tag :: "string \<Rightarrow> exn + tag_key" where
  "parse_tag tag = (case match_tag tag of
     None \<Rightarrow> update_error ''invalid tag''
   | Some (major, minor, patch, pre) \<Rightarrow>
       (case pre of None \<Rightarrow> Inr (major, minor, patch, [Word []])
        | Some p \<Rightarrow> sbind (traverse ident_key (split_on (CHR ''.'') p))
                     (\<lambda>parts. Inr (major, minor, patch, Pre # parts))))"

definition compare_tags :: "string \<Rightarrow> string \<Rightarrow> exn + int" where
  "compare_tags left right =
     sbind (parse_tag left) (\<lambda>l. sbind (parse_tag right) (\<lambda>r.
       Inr ((if l > r then 1 else 0) - (if l < r then 1 else 0))))"

section \<open>Packaged paths\<close>

definition version :: string where "version = ''v0.2.4''"
definition min_update_tag :: string where "min_update_tag = ''v0.2.2''"
definition max_source_tag :: string where "max_source_tag = ''v0.3.0''"
definition manifest_name :: string where "manifest_name = ''update-manifest.json''"
definition package_root :: string where "package_root = ''RocketCatShell-linux''"
definition max_release_bytes :: int where "max_release_bytes = 536870912"
definition max_release_files :: nat where "max_release_files = 10000"

definition managed_directories :: "string list" where
  "managed_directories =
     [''rocketcat_shell'',
      ''data/plugins/rocketcat_plugin_adapt_iamthinking'',
      ''data/plugins/rocketcat_plugin_built_in_command'']"

definition managed_files :: "string list" where
  "managed_files =
     [''LICENSE'', ''README.md'', ''CHANGELOG.md'', ''requirements.txt'',
      ''tools/check_requirements.py'', ''tools/migrate_user_identity.py'',
      ''tools/update_helper.py'']"

definition image_deployment_files :: "string list" where
  "image_deployment_files =
     [''.dockerignore'', ''.env.example'', ''Dockerfile'', ''docker-compose.yml'', ''launcher.sh'',
      ''docker/entrypoint.sh'', ''docker/examples/shell.json.example'']"

definition protected_top_level :: "string list" where
  "protected_top_level =
     [''.git'', ''.venv'', ''backups'', ''config'', ''data'', ''logs'', ''specs'', ''tests'']"

definition is_managed_path :: "string \<Rightarrow> bool" where
  "is_managed_path p \<longleftrightarrow> p \<in> set managed_files \<or>
     list_ex (\<lambda>d. p = d \<or> startswith p (d @ ''/'')) managed_directories"

definition is_packaged_path :: "string \<Rightarrow> bool" where
  "is_packaged_path p \<longleftrightarrow> is_managed_path p \<or> p \<in> set image_deployment_files"

text \<open>\<open>PurePosixPath\<close>: the components without the empty ones and the dots.\<close>

definition path_parts :: "string \<Rightarrow> string list" where
  "path_parts s = filter (\<lambda>c. c \<noteq> [] \<and> c \<noteq> ''.'') (split_on (CHR ''/'') s)"

definition is_absolute :: "string \<Rightarrow> bool" where
  "is_absolute s = startswith s ''/''"

definition as_posix :: "string list \<Rightarrow> string" where
  "as_posix parts = (if parts = [] then ''.'' else intercalate ''/'' parts)"

definition validate_component :: "string \<Rightarrow> exn + unit" where
  "validate_component c =
     (if c = [] \<or> c = ''.'' \<or> c = ''..'' then update_error ''unsafe path''
      else if last c = CHR '' '' \<or> last c = CHR ''.'' \<or> list_ex (\<lambda>x. (of_char x :: nat) < 32) c
      then update_error ''unsafe path component'' else Inr ())"

definition py_casefold :: "string \<Rightarrow> string" where
  "py_casefold s = concat (map (\<lambda>c. if c = CHR 0xDF then ''ss'' else [py_lower_char c]) s)"

text \<open>The checks on a path shared by the manifest and the archive.\<close>

definition unsafe_text :: "string \<Rightarrow> bool" where
  "unsafe_text text \<longleftrightarrow> text = [] \<or> startswith text ''//'' \<or> is_absolute text \<or>
     ''..'' \<in> set (path_parts text) \<or> path_parts text = []"

definition validated_relative_path :: "pyval \<Rightarrow> exn + string" where
  "validated_relative_path v =
     (let text = py_str (py_or v (PStr [])) in
      if CHR 0x5C \<in> set text \<or> CHR '':'' \<in> set text then update_error ''unsafe path''
      else if unsafe_text text then update_error ''unsafe path''
      else sbind (traverse validate_component (path_parts text)) (\<lambda>_.
        let normalized = as_posix (path_parts text) in
        if is_packaged_path normalized then Inr normalized
        else if py_casefold (hd (path_parts text)) \<in> set protected_top_level
        then update_error ''protected path'' else update_error ''unknown path''))"

section \<open>Directories\<close>

type_synonym bytes = "nat list"

datatype node = File bytes | Dir | Link "bytes option"

type_synonym tree = "(string \<times> node) list"

text \<open>\<open>is_file\<close> follows a link; \<open>stat().st_size\<close> and the digest are of the content.\<close>

definition file_content :: "tree \<Rightarrow> string \<Rightarrow> bytes option" where
  "file_content tr p = (case map_of tr p of
     Some (File c) \<Rightarrow> Some c | Some (Link (Some c)) \<Rightarrow> Some c | _ \<Rightarrow> None)"

definition is_symlink :: "tree \<Rightarrow> string \<Rightarrow> bool" where
  "is_symlink tr p = (case map_of tr p of Some (Link _) \<Rightarrow> True | _ \<Rightarrow> False)"

definition is_directory :: "tree \<Rightarrow> string \<Rightarrow> bool" where
  "is_directory tr p = (map_of tr p = Some Dir)"

definition regular_file :: "tree \<Rightarrow> string \<Rightarrow> bytes option" where
  \<comment> \<open>\<open>is_file() and not is_symlink()\<close>\<close>
  "regular_file tr p = (if is_symlink tr p then None else file_content tr p)"

definition file_digest :: "bytes \<Rightarrow> string" where
  "file_digest c = hexdigest (sha256 c)"

section \<open>Building a manifest\<close>

definition ignored_source :: "string \<Rightarrow> bool" where
  "ignored_source p \<longleftrightarrow>
     list_ex (\<lambda>c. c \<in> {''__pycache__'', ''.pytest_cache'', ''.mypy_cache'', ''.ruff_cache''})
       (path_parts p) \<or>
     (let name = last (path_parts p) in
      length name > 4 \<and> drop (length name - 4) name \<in> {''.pyc'', ''.pyo''})"

definition directory_files :: "tree \<Rightarrow> string \<Rightarrow> exn + string list" where
  "directory_files tr d =
     (if \<not> is_directory tr d then update_error ''managed directory''
      else sbind (traverse (\<lambda>p.
               if is_symlink tr p then update_error ''symbolic link''
               else Inr (if file_content tr p = None \<or> ignored_source p then [] else [p]))
             (filter (\<lambda>p. startswith p (d @ ''/'')) (map fst tr)))
           (\<lambda>fs. Inr (concat fs)))"

definition relative_files :: "tree \<Rightarrow> exn + string list" where
  "relative_files tr =
     sbind (traverse (directory_files tr) managed_directories) (\<lambda>ds.
     sbind (traverse (\<lambda>p. if regular_file tr p = None then update_error ''release file'' else Inr p)
              (managed_files @ image_deployment_files)) (\<lambda>fs.
       Inr (concat ds @ fs)))"

definition manifest_entry :: "tree \<Rightarrow> string \<Rightarrow> pyval" where
  "manifest_entry tr p = (let c = the (file_content tr p) in
     PDict [(''path'', PStr p), (''size'', PInt (int (length c))), (''sha256'', PStr (file_digest c))])"

fun case_collision :: "string list \<Rightarrow> string list \<Rightarrow> bool" where
  "case_collision seen [] = False"
| "case_collision seen (p # ps) =
     (py_casefold p \<in> set seen \<or> case_collision (py_casefold p # seen) ps)"

definition int_range :: "int \<Rightarrow> pyval" where
  "int_range i = PDict [(''minimum'', PInt i), (''maximum'', PInt i)]"

definition str_list :: "string list \<Rightarrow> pyval" where
  "str_list xs = PList (map PStr xs)"

definition manifest_value :: "string \<Rightarrow> string \<Rightarrow> pyval list \<Rightarrow> pyval" where
  "manifest_value ver tag files = PDict
     [(''manifest_format'', PInt 1), (''product'', PStr ''RocketCatShell''),
      (''platform'', PStr ''linux''), (''version'', PStr ver), (''tag_name'', PStr tag),
      (''root_directory'', PStr package_root), (''container_runtime_generation'', PInt 1),
      (''managed_directories'', str_list managed_directories),
      (''managed_files'', str_list managed_files),
      (''image_deployment_files'', str_list image_deployment_files),
      (''python'', PDict [(''implementation'', PStr ''cpython''), (''minimum'', PStr ''3.11'')]),
      (''source_compatibility'', PDict [(''minimum'', PStr min_update_tag),
         (''maximum_exclusive'', PStr max_source_tag)]),
      (''persistent_compatibility'', PDict [(''config_schema'', int_range 1),
         (''runtime_snapshot'', int_range 1), (''identity_registry'', int_range 1)]),
      (''files'', PList files)]"

definition build_manifest :: "tree \<Rightarrow> string \<Rightarrow> string \<Rightarrow> exn + pyval" where
  "build_manifest base ver tag =
     (if ver \<noteq> tag then update_error ''version and tag''
      else sbind (compare_tags tag min_update_tag) (\<lambda>c.
        if c < 0 then update_error ''supported from v0.2.2''
        else sbind (relative_files base) (\<lambda>fs.
          let sorted_files = sort_key py_casefold fs in
          if case_collision [] sorted_files then update_error ''collide by case''
          else Inr (manifest_value ver tag (map (manifest_entry base) sorted_files)))))"

section \<open>Validating a manifest\<close>

definition attribute_error :: "exn + 'a" where
  "attribute_error = Inl (OtherError ''AttributeError'' ''get'')"

definition equals_int :: "pyval \<Rightarrow> int \<Rightarrow> bool" where
  \<comment> \<open>\<open>v == i\<close>, where \<open>True == 1\<close>\<close>
  "equals_int v i = (case v of PInt j \<Rightarrow> i = j | PBool b \<Rightarrow> i = (if b then 1 else 0) | _ \<Rightarrow> False)"

definition check_range :: "entry \<Rightarrow> string \<Rightarrow> int \<Rightarrow> exn + unit" where
  "check_range contract key value =
     (case py_or (dget contract key) (PDict []) of
        PDict bounds \<Rightarrow>
          (case (map_of bounds ''minimum'', map_of bounds ''maximum'') of
             (Some lo, Some hi) \<Rightarrow>
               (case (py_int lo, py_int hi) of
                  (Inr a, Inr b) \<Rightarrow>
                    if a \<le> value \<and> value \<le> b then Inr () else update_error ''incompatible''
                | _ \<Rightarrow> update_error ''missing range'')
           | _ \<Rightarrow> update_error ''missing range'')
      | _ \<Rightarrow> update_error ''missing range'')"

definition validate_persistent_compatibility :: "pyval \<Rightarrow> exn + unit" where
  "validate_persistent_compatibility v = (case v of
     PDict contract \<Rightarrow>
       sbind (check_range contract ''config_schema'' 1) (\<lambda>_.
       sbind (check_range contract ''runtime_snapshot'' 1) (\<lambda>_.
         check_range contract ''identity_registry'' 1))
   | _ \<Rightarrow> attribute_error)"

definition validate_source_compatibility :: "pyval \<Rightarrow> string \<Rightarrow> exn + unit" where
  "validate_source_compatibility v current_tag = (case v of
     PDict contract \<Rightarrow>
       (if raw_str_field contract ''minimum'' \<noteq> min_update_tag \<or>
           raw_str_field contract ''maximum_exclusive'' \<noteq> max_source_tag
        then update_error ''source range''
        else sbind (compare_tags current_tag min_update_tag) (\<lambda>a.
          if a < 0 then update_error ''cannot switch''
          else sbind (compare_tags current_tag max_source_tag) (\<lambda>b.
            if b \<ge> 0 then update_error ''cannot switch'' else Inr ())))
   | _ \<Rightarrow> attribute_error)"

definition is_sha256 :: "string \<Rightarrow> bool" where
  "is_sha256 d \<longleftrightarrow> length d = 64 \<and>
     list_all (\<lambda>c. let n = (of_char c :: int) in (48 \<le> n \<and> n \<le> 57) \<or> (97 \<le> n \<and> n \<le> 102)) d"

record declared =
  dc_paths :: "string list"
  dc_folded :: "string list"
  dc_total :: int

definition check_file :: "tree option \<Rightarrow> string \<Rightarrow> int \<Rightarrow> string \<Rightarrow> exn + unit" where
  "check_file base p n digest = (case base of
     None \<Rightarrow> Inr ()
   | Some tr \<Rightarrow> (case regular_file tr p of
       None \<Rightarrow> update_error ''missing or unsafe''
     | Some c \<Rightarrow> if int (length c) \<noteq> n \<or> file_digest c \<noteq> digest
                 then update_error ''verification failed'' else Inr ()))"

definition declare_entry :: "tree option \<Rightarrow> pyval \<Rightarrow> declared \<Rightarrow> exn + declared" where
  "declare_entry base v st = (case v of
     PDict e \<Rightarrow>
       sbind (validated_relative_path (dget e ''path'')) (\<lambda>p.
         if p \<in> set (dc_paths st) \<or> py_casefold p \<in> set (dc_folded st)
         then update_error ''duplicate paths''
         else (let digest = py_lower (raw_str_field e ''sha256'') in
           case dget e ''size'' of
             PInt n \<Rightarrow>
               if n < 0 then update_error ''size''
               else if \<not> is_sha256 digest then update_error ''digest''
               else if dc_total st + n > max_release_bytes then update_error ''size limit''
               else sbind (check_file base p n digest) (\<lambda>_.
                 Inr \<lparr>dc_paths = dc_paths st @ [p], dc_folded = dc_folded st @ [py_casefold p],
                      dc_total = dc_total st + n\<rparr>)
           | _ \<Rightarrow> update_error ''size''))
   | _ \<Rightarrow> update_error ''invalid file entry'')"

fun declare_entries :: "tree option \<Rightarrow> pyval list \<Rightarrow> declared \<Rightarrow> exn + declared" where
  "declare_entries base [] st = Inr st"
| "declare_entries base (v # vs) st =
     sbind (declare_entry base v st) (\<lambda>st'. declare_entries base vs st')"

text \<open>\<open>re.search\<close> for the assignment of the version, at the beginning of a line.\<close>

definition version_at :: "string \<Rightarrow> string option" where
  "version_at s =
     (if startswith s ''__version__'' then
        (let r = dropWhile py_isspace (drop 11 s) in
         case expect (CHR ''='') r of None \<Rightarrow> None
         | Some r1 \<Rightarrow> (case dropWhile py_isspace r1 of [] \<Rightarrow> None
             | q # r2 \<Rightarrow>
                 let v = takeWhile (\<lambda>c. c \<noteq> CHR 0x22 \<and> c \<noteq> CHR 0x27) r2 in
                 if (q = CHR 0x22 \<or> q = CHR 0x27) \<and> v \<noteq> [] \<and> length v < length r2
                 then Some v else None))
      else None)"

fun find_version :: "bool \<Rightarrow> string \<Rightarrow> string option" where
  "find_version bol [] = None"
| "find_version bol (c # s) =
     (case (if bol then version_at (c # s) else None) of
        Some v \<Rightarrow> Some v | None \<Rightarrow> find_version (c = CHR 0x0A) s)"

definition listed_files :: "tree \<Rightarrow> string list" where
  "listed_files tr =
     filter (\<lambda>p. file_content tr p \<noteq> None \<and> p \<noteq> manifest_name) (map fst tr)"

definition check_root ::
  "(bytes \<Rightarrow> exn + string) \<Rightarrow> tree \<Rightarrow> string list \<Rightarrow> string \<Rightarrow> exn + unit" where
  "check_root read_text tr paths expected_tag =
     (if list_ex (\<lambda>d. \<not> is_directory tr d) managed_directories then update_error ''directory missing''
      else if set (listed_files tr) \<noteq> set paths then update_error ''file list mismatch''
      else (case file_content tr ''rocketcat_shell/__init__.py'' of
          None \<Rightarrow> Inl (OtherError ''OSError'' ''open'')
        | Some c \<Rightarrow> sbind (read_text c) (\<lambda>src.
            if find_version True src = Some expected_tag then Inr ()
            else update_error ''internal version'')))"

definition matches_list :: "pyval \<Rightarrow> string list \<Rightarrow> exn + bool" where
  \<comment> \<open>\<open>tuple(v or ()) == xs\<close>\<close>
  "matches_list v xs = sbind (py_iter (py_or v (PList []))) (\<lambda>ys. Inr (ys = map PStr xs))"

definition check_python :: "pyval \<Rightarrow> exn + bool" where
  "check_python v = (case py_or v (PDict []) of
     PDict c \<Rightarrow> Inr (dget c ''implementation'' = PStr ''cpython'' \<and> dget c ''minimum'' = PStr ''3.11'')
   | _ \<Rightarrow> attribute_error)"

definition require :: "bool \<Rightarrow> string \<Rightarrow> exn + unit" where
  "require b m = (if b then Inr () else update_error m)"

definition check_contract :: "bool \<Rightarrow> entry \<Rightarrow> string \<Rightarrow> string \<Rightarrow> exn + unit" where
  "check_contract host_ok m expected_tag current_tag =
     sbind (compare_tags expected_tag min_update_tag) (\<lambda>c.
     sbind (require (c \<ge> 0) ''below v0.2.2'') (\<lambda>_.
     sbind (require (equals_int (dget m ''manifest_format'') 1) ''format'') (\<lambda>_.
     sbind (require (dget m ''product'' = PStr ''RocketCatShell'' \<and> dget m ''platform'' = PStr ''linux'')
              ''product or platform'') (\<lambda>_.
     sbind (require (dget m ''tag_name'' = PStr expected_tag \<and> dget m ''version'' = PStr expected_tag)
              ''tag and version'') (\<lambda>_.
     sbind (require (dget m ''root_directory'' = PStr package_root) ''root directory'') (\<lambda>_.
     sbind (require (equals_int (dget m ''container_runtime_generation'') 1) ''generation'') (\<lambda>_.
     sbind (matches_list (dget m ''managed_directories'') managed_directories) (\<lambda>b1.
     sbind (require b1 ''managed directories'') (\<lambda>_.
     sbind (matches_list (dget m ''managed_files'') managed_files) (\<lambda>b2.
     sbind (require b2 ''managed files'') (\<lambda>_.
     sbind (matches_list (dget m ''image_deployment_files'') image_deployment_files) (\<lambda>b3.
     sbind (require b3 ''image files'') (\<lambda>_.
     sbind (check_python (dget m ''python'')) (\<lambda>b4.
     sbind (require b4 ''python contract'') (\<lambda>_.
     sbind (require host_ok ''current python'') (\<lambda>_.
     sbind (validate_source_compatibility (py_or (dget m ''source_compatibility'') (PDict []))
              current_tag) (\<lambda>_.
       validate_persistent_compatibility (py_or (dget m ''persistent_compatibility'') (PDict [])))))))))))))))))))"

definition validate_manifest ::
  "(bytes \<Rightarrow> exn + string) \<Rightarrow> bool \<Rightarrow> pyval \<Rightarrow> string \<Rightarrow> tree option \<Rightarrow> string \<Rightarrow> exn + pyval" where
  "validate_manifest read_text host_ok manifest expected_tag base current_tag = (case manifest of
     PDict m \<Rightarrow>
       sbind (check_contract host_ok m expected_tag current_tag) (\<lambda>_.
         case dget m ''files'' of
           PList entries \<Rightarrow>
             if entries = [] \<or> length entries > max_release_files then update_error ''file count''
             else sbind (declare_entries base entries \<lparr>dc_paths = [], dc_folded = [], dc_total = 0\<rparr>)
               (\<lambda>st. if \<not> set (managed_files @ image_deployment_files) \<subseteq> set (dc_paths st)
                  then update_error ''required files''
                  else (case base of None \<Rightarrow> Inr manifest
                    | Some tr \<Rightarrow> sbind (check_root read_text tr (dc_paths st) expected_tag)
                                  (\<lambda>_. Inr manifest)))
         | _ \<Rightarrow> update_error ''file count'')
   | _ \<Rightarrow> update_error ''not an object'')"

section \<open>Extracting an archive\<close>

record member =
  zi_name :: string
  zi_link :: bool
  zi_size :: int
  zi_data :: bytes

record scan =
  sc_roots :: "string list"
  sc_seen :: "string list"
  sc_total :: int

definition scan_member :: "member \<Rightarrow> scan \<Rightarrow> exn + scan" where
  "scan_member info st =
     (let name = zi_name info; folded = py_casefold (as_posix (path_parts name)) in
      if CHR 0x5C \<in> set name \<or> CHR '':'' \<in> set name \<or> unsafe_text name
      then update_error ''unsafe path''
      else sbind (traverse validate_component (path_parts name)) (\<lambda>_.
        if folded \<in> set (sc_seen st) then update_error ''duplicate paths''
        else if zi_link info then update_error ''symbolic link''
        else if sc_total st + zi_size info > max_release_bytes then update_error ''size limit''
        else Inr \<lparr>sc_roots = hd (path_parts name) # sc_roots st, sc_seen = folded # sc_seen st,
                  sc_total = sc_total st + zi_size info\<rparr>))"

fun scan_members :: "member list \<Rightarrow> scan \<Rightarrow> exn + scan" where
  "scan_members [] st = Inr st"
| "scan_members (info # infos) st = sbind (scan_member info st) (\<lambda>st'. scan_members infos st')"

text \<open>
  The destination below \<open>destination\<close>, by components; \<open>mkdir(parents=True)\<close> creates the
  missing parents and fails where a file is in the way, \<open>open("xb")\<close> fails where the target
  exists.
\<close>

type_synonym disk = "(string list \<times> node) list"

definition ancestors :: "string list \<Rightarrow> string list list" where
  "ancestors p = map (\<lambda>n. take n p) [1 ..< length p]"

fun make_parents :: "string list list \<Rightarrow> disk \<Rightarrow> exn + disk" where
  "make_parents [] d = Inr d"
| "make_parents (p # ps) d = (case map_of d p of
     None \<Rightarrow> make_parents ps (AList.update p Dir d)
   | Some Dir \<Rightarrow> make_parents ps d
   | Some _ \<Rightarrow> Inl (OtherError ''OSError'' ''mkdir''))"

definition extract_member :: "member \<Rightarrow> disk \<Rightarrow> exn + disk" where
  "extract_member info d =
     (let parts = path_parts (zi_name info); relative = as_posix (tl parts) in
      if tl parts = [] then Inr d
      else sbind (if relative = manifest_name then Inr relative
                  else validated_relative_path (PStr relative)) (\<lambda>_.
        if last (zi_name info) = CHR ''/'' then Inr d
        else sbind (make_parents (ancestors parts) d) (\<lambda>d'.
          if map_of d' parts \<noteq> None then Inl (OtherError ''OSError'' ''open'')
          else Inr (AList.update parts (File (zi_data info)) d'))))"

fun extract_members :: "member list \<Rightarrow> disk \<Rightarrow> exn + disk" where
  "extract_members [] d = Inr d"
| "extract_members (info # infos) d = sbind (extract_member info d) (\<lambda>d'. extract_members infos d')"

definition disk_tree :: "disk \<Rightarrow> tree" where
  \<comment> \<open>what lies below \<open>destination / PACKAGE_ROOT_DIRECTORY\<close>\<close>
  "disk_tree d = map (\<lambda>(p, n). (as_posix (tl p), n))
     (filter (\<lambda>(p, n). hd p = package_root \<and> tl p \<noteq> []) d)"

definition manifest_unreadable :: "exn \<Rightarrow> bool" where
  "manifest_unreadable e = (case e of
     OtherError cls _ \<Rightarrow> cls = ''OSError'' \<or> cls = ''JSONDecodeError'' | _ \<Rightarrow> False)"

definition load_manifest ::
  "(bytes \<Rightarrow> exn + string) \<Rightarrow> (bytes \<Rightarrow> exn + pyval) \<Rightarrow> bool \<Rightarrow> disk \<Rightarrow> string \<Rightarrow> string \<Rightarrow> exn + pyval" where
  "load_manifest read_text json_loads host_ok d expected_tag current_tag =
     (case file_content (disk_tree d) manifest_name of
        None \<Rightarrow> update_error ''manifest is missing''
      | Some c \<Rightarrow> (case json_loads c of
          Inl e \<Rightarrow> if manifest_unreadable e then update_error ''manifest is invalid'' else Inl e
        | Inr m \<Rightarrow> validate_manifest read_text host_ok m expected_tag (Some (disk_tree d)) current_tag))"

definition inspect_and_extract ::
  "(bytes \<Rightarrow> exn + string) \<Rightarrow> (bytes \<Rightarrow> exn + pyval) \<Rightarrow> bool \<Rightarrow> int \<Rightarrow> bool \<Rightarrow> member list \<Rightarrow>
   string \<Rightarrow> string \<Rightarrow> exn + disk \<times> pyval" where
  "inspect_and_extract read_text json_loads host_ok zip_size exists infos expected_tag current_tag =
     (if zip_size > max_release_bytes then update_error ''asset size''
      else if exists then update_error ''destination exists''
      else if infos = [] \<or> length infos > max_release_files then update_error ''file count''
      else sbind (scan_members infos \<lparr>sc_roots = [], sc_seen = [], sc_total = 0\<rparr>) (\<lambda>st.
        if set (sc_roots st) \<noteq> {package_root} then update_error ''root directory''
        else sbind (extract_members infos []) (\<lambda>d.
          sbind (load_manifest read_text json_loads host_ok d expected_tag current_tag) (\<lambda>m.
            Inr (d, m)))))"

end
