(* ===== verification/Release_Lemmas.thy ===== *)
theory Release_Lemmas
  imports Update_Manifest "HOL-Library.Multiset"
begin

text \<open>
  Lemmas on \<open>Update_Manifest\<close>: reading a tag and printing its key, normalised paths, the
  loop over the declared files and the extraction of an archive.
\<close>

section \<open>Tags\<close>

abbreviation digits_val :: "string \<Rightarrow> int" where
  "digits_val ds \<equiv> foldl (\<lambda>a c. 10 * a + digit_val c) 0 ds"

lemma isdigit_val: "py_isdigit c \<Longrightarrow> 0 \<le> digit_val c \<and> digit_val c < 10 \<and> char_of (48 + digit_val c) = c"
  by (auto simp: py_isdigit_def digit_val_def Let_def)

lemma digit_val_zero: "py_isdigit c \<Longrightarrow> digit_val c = 0 \<Longrightarrow> c = CHR ''0''"
proof -
  assume "py_isdigit c" "digit_val c = 0"
  then have "(of_char c :: int) = of_char (CHR ''0'')" by (simp add: digit_val_def)
  then show ?thesis by (simp only: of_char_eq_iff)
qed

lemma digits_val_nonneg: "list_all py_isdigit ds \<Longrightarrow> 0 \<le> digits_val ds"
proof (induction ds rule: rev_induct)
  case (snoc d ds)
  then show ?case using isdigit_val [of d] by simp
qed simp

lemma digits_val_pos:
  "list_all py_isdigit ds \<Longrightarrow> ds \<noteq> [] \<Longrightarrow> hd ds \<noteq> CHR ''0'' \<Longrightarrow> 0 < digits_val ds"
proof (induction ds rule: rev_induct)
  case (snoc d ds)
  then have d: "0 \<le> digit_val d" using isdigit_val [of d] by simp
  show ?case
  proof (cases "ds = []")
    case True
    with snoc.prems d digit_val_zero [of d] show ?thesis by (auto simp: order.strict_iff_order)
  next
    case False
    with snoc have "0 < digits_val ds" by simp
    with d show ?thesis by simp
  qed
qed simp

lemma dec_digits_val:
  "list_all py_isdigit ds \<Longrightarrow> ds \<noteq> [] \<Longrightarrow> hd ds = CHR ''0'' \<longrightarrow> length ds = 1 \<Longrightarrow>
     dec (digits_val ds) = ds"
proof (induction ds rule: rev_induct)
  case (snoc d ds)
  then have d: "0 \<le> digit_val d" "digit_val d < 10" "char_of (48 + digit_val d) = d"
    using isdigit_val [of d] by simp_all
  show ?case
  proof (cases "ds = []")
    case True
    with d show ?thesis by (simp add: dec.simps [of "digit_val d"])
  next
    case False
    then have hd: "hd ds \<noteq> CHR ''0''" using snoc.prems(3) by auto
    have pos: "0 < digits_val ds"
      using snoc.prems False hd by (intro digits_val_pos) auto
    have "dec (digits_val ds) = ds"
      using snoc.IH snoc.prems False hd by simp
    with pos d show ?thesis by (subst dec.simps) simp
  qed
qed simp

lemma tag_number_Some:
  assumes "tag_number s = Some (n, r)"
  shows "s = dec n @ r" "0 \<le> n"
proof -
  let ?ds = "takeWhile py_isdigit s"
  have ds: "list_all py_isdigit ?ds" by (auto simp: list_all_iff dest: set_takeWhileD)
  have n: "?ds \<noteq> []" "hd ?ds = CHR ''0'' \<longrightarrow> length ?ds = 1" "n = digits_val ?ds"
    "r = dropWhile py_isdigit s"
    using assms by (auto simp: tag_number_def Let_def split: if_splits)
  then have "dec n = ?ds" using dec_digits_val [OF ds] by simp
  then show "s = dec n @ r" using n(4) by simp
  show "0 \<le> n" using digits_val_nonneg [OF ds] n(3) by simp
qed

lemma tag_numberD: "tag_number s = Some (n, r) \<Longrightarrow> s = dec n @ r \<and> 0 \<le> n"
  by (simp add: tag_number_Some)

lemma expect_Some: "expect c s = Some t \<longleftrightarrow> s = c # t"
  by (cases s) (auto simp: expect_def)

fun show_part :: "key_part \<Rightarrow> string" where
  "show_part Pre = []"
| "show_part (Num i) = dec i"
| "show_part (Word s) = s"

fun show_key :: "tag_key \<Rightarrow> string" where
  "show_key (a, b, c, Pre # ps) =
     ''v'' @ dec a @ ''.'' @ dec b @ ''.'' @ dec c @ ''-'' @ intercalate ''.'' (map show_part ps)"
| "show_key (a, b, c, ps) = ''v'' @ dec a @ ''.'' @ dec b @ ''.'' @ dec c"

lemma match_tag_Some:
  assumes "match_tag tag = Some (a, b, c, p)"
  shows "tag = ''v'' @ dec a @ ''.'' @ dec b @ ''.'' @ dec c @ (case p of None \<Rightarrow> [] | Some q \<Rightarrow> ''-'' @ q)"
    "0 \<le> a" "0 \<le> b" "0 \<le> c" "\<And>q. p = Some q \<Longrightarrow> list_all ident_ok (split_on (CHR ''.'') q)"
  using assms
  by (auto simp: match_tag_def bind_eq_Some_conv expect_Some dest!: tag_numberD split: if_splits)

lemma lower_digit: "py_isdigit c \<Longrightarrow> py_lower_char c = c"
  by (auto simp: py_isdigit_def py_lower_char_def Let_def)

lemma lower_digits: "list_all py_isdigit s \<Longrightarrow> py_lower s = s"
  by (induction s) (auto simp: py_lower_def lower_digit)

lemma lower_dec: "0 \<le> n \<Longrightarrow> py_lower (dec n) = dec n"
  using dec_digits [of n] by (intro lower_digits) (auto simp: list_all_iff)

lemma lower_append [simp]: "py_lower (s @ t) = py_lower s @ py_lower t"
  by (simp add: py_lower_def)

lemma lower_intercalate:
  "py_lower (intercalate sep xs) = intercalate (py_lower sep) (map py_lower xs)"
  by (induction xs) (auto simp: py_lower_def)

lemma ident_key_show:
  assumes "ident_key p = Inr k" "ident_ok p"
  shows "py_lower p = show_part k"
proof (cases "list_all py_isdigit p")
  case True
  with assms have "k = Num (digits_val p)" "hd p = CHR ''0'' \<longrightarrow> length p = 1" "p \<noteq> []"
    by (cases p; force simp: ident_key_def ident_ok_def update_error_def split: if_splits)+
  with True show ?thesis by (simp add: dec_digits_val lower_digits)
next
  case False
  with assms show ?thesis by (auto simp: ident_key_def)
qed

lemma parse_tag_show:
  assumes "parse_tag tag = Inr k"
  shows "py_lower tag = show_key k"
proof -
  obtain a b c p where m: "match_tag tag = Some (a, b, c, p)"
    and k: "(case p of None \<Rightarrow> Inr (a, b, c, [Word []])
        | Some p \<Rightarrow> sbind (traverse ident_key (split_on (CHR ''.'') p))
                     (\<lambda>parts. Inr (a, b, c, Pre # parts))) = Inr k"
    using assms by (auto simp: parse_tag_def update_error_def split: option.splits)
  note tag = match_tag_Some [OF m]
  have low: "py_lower ''v'' = ''v''" "py_lower ''.'' = ''.''" "py_lower ''-'' = ''-''"
    by (simp_all add: py_lower_def py_lower_char_def)
  show ?thesis
  proof (cases p)
    case None
    with k have "k = (a, b, c, [Word []])" by simp
    then show ?thesis
      unfolding tag(1) using None low tag(2-4) by (simp add: lower_dec del: append.simps)
  next
    case (Some q)
    then obtain parts where parts: "traverse ident_key (split_on (CHR ''.'') q) = Inr parts"
      "k = (a, b, c, Pre # parts)"
      using k by (auto simp: sbind_Inr)
    have "list_all2 (\<lambda>x y. ident_key x = Inr y) (split_on (CHR ''.'') q) parts"
      using parts(1) by (simp add: traverse_Inr)
    then have "map py_lower (split_on (CHR ''.'') q) = map show_part parts"
      using tag(5) [OF Some]
      by (induction rule: list_all2_induct) (auto simp: ident_key_show)
    then have "py_lower q = intercalate ''.'' (map show_part parts)"
      using lower_intercalate [of "''.''" "split_on (CHR ''.'') q"] low
      by (simp add: intercalate_split)
    then show ?thesis
      unfolding tag(1) using Some parts(2) low tag(2-4) by (simp add: lower_dec del: append.simps)
  qed
qed

lemma compare_tags_parsed:
  assumes "parse_tag l = Inr kl" "parse_tag r = Inr kr"
  shows "compare_tags l r = Inr (if kl < kr then -1 else if kl = kr then 0 else 1)"
  using assms by (auto simp: compare_tags_def)

section \<open>Paths\<close>

definition safe_component :: "string \<Rightarrow> bool" where
  "safe_component c \<longleftrightarrow> c \<noteq> [] \<and> c \<noteq> ''.'' \<and> c \<noteq> ''..'' \<and> last c \<noteq> CHR '' '' \<and> last c \<noteq> CHR ''.'' \<and>
     list_all (\<lambda>x. x \<noteq> CHR 0x5C \<and> x \<noteq> CHR '':'' \<and> 32 \<le> (of_char x :: nat)) c"

definition safe_path :: "string \<Rightarrow> bool" where
  "safe_path p = list_all safe_component (split_on (CHR ''/'') p)"

lemma validate_component_Inr:
  "validate_component c = Inr u \<longleftrightarrow>
     c \<noteq> [] \<and> c \<noteq> ''.'' \<and> c \<noteq> ''..'' \<and> last c \<noteq> CHR '' '' \<and> last c \<noteq> CHR ''.'' \<and>
     list_all (\<lambda>x. 32 \<le> (of_char x :: nat)) c"
proof -
  have "list_ex (\<lambda>x. (of_char x :: nat) < 32) c \<longleftrightarrow> \<not> list_all (\<lambda>x. 32 \<le> (of_char x :: nat)) c"
    by (induction c) auto
  then show ?thesis by (auto simp: validate_component_def update_error_def)
qed

lemma traverse_validate:
  "traverse validate_component cs = Inr us \<Longrightarrow>
     list_all (\<lambda>c. validate_component c = Inr ()) cs"
  by (simp add: traverse_Inr) (induction rule: list_all2_induct, auto)

lemma traverse_validate_all:
  "list_all (\<lambda>c. validate_component c = Inr ()) cs \<Longrightarrow>
     traverse validate_component cs = Inr (replicate (length cs) ())"
  by (induction cs) auto

lemma path_parts_no_slash: "c \<in> set (path_parts s) \<Longrightarrow> CHR ''/'' \<notin> set c \<and> c \<noteq> []"
  by (auto simp: path_parts_def split_on_free)

lemma split_on_chars: "c \<in> set (split_on d s) \<Longrightarrow> set c \<subseteq> set s"
  by (induction s arbitrary: c) (fastforce split: list.splits if_splits)+

lemma path_parts_chars: "c \<in> set (path_parts s) \<Longrightarrow> set c \<subseteq> set s"
  by (auto simp: path_parts_def dest: split_on_chars)

lemma split_posix:
  "cs \<noteq> [] \<Longrightarrow> \<forall>c \<in> set cs. CHR ''/'' \<notin> set c \<Longrightarrow> split_on (CHR ''/'') (as_posix cs) = cs"
  by (simp add: as_posix_def split_intercalate)

lemma safe_posix:
  assumes "path_parts s \<noteq> []" "list_all (\<lambda>c. validate_component c = Inr ()) (path_parts s)"
    "CHR 0x5C \<notin> set s" "CHR '':'' \<notin> set s"
  shows "safe_path (as_posix (path_parts s))"
proof -
  have "split_on (CHR ''/'') (as_posix (path_parts s)) = path_parts s"
    using assms(1) path_parts_no_slash by (intro split_posix) auto
  moreover have "safe_component c" if c: "c \<in> set (path_parts s)" for c
  proof -
    have "CHR 0x5C \<notin> set c" "CHR '':'' \<notin> set c"
      using path_parts_chars [OF c] assms(3,4) by auto
    with c assms(2) show ?thesis
      by (auto simp: safe_component_def list_all_iff validate_component_Inr)
  qed
  ultimately show ?thesis by (simp add: safe_path_def list_all_iff)
qed

lemma validated_path:
  assumes "validated_relative_path v = Inr p"
  shows "safe_path p \<and> is_packaged_path p"
  using assms safe_posix [of "py_str (py_or v (PStr []))"]
  by (auto simp: validated_relative_path_def Let_def sbind_Inr unsafe_text_def update_error_def
      split: if_splits dest!: traverse_validate)

lemma safe_path_parts:
  assumes "safe_path p"
  shows "path_parts p = split_on (CHR ''/'') p" "as_posix (path_parts p) = p" "p \<noteq> []"
    "\<not> unsafe_text p" "list_all (\<lambda>c. validate_component c = Inr ()) (path_parts p)"
    "CHR 0x5C \<notin> set p" "CHR '':'' \<notin> set p"
proof -
  have safe: "\<And>c. c \<in> set (split_on (CHR ''/'') p) \<Longrightarrow> safe_component c"
    using assms by (simp add: safe_path_def list_all_iff)
  show parts: "path_parts p = split_on (CHR ''/'') p"
    using safe by (auto simp: path_parts_def safe_component_def)
  then show posix: "as_posix (path_parts p) = p"
    by (simp add: as_posix_def intercalate_split)
  show nonempty: "p \<noteq> []"
    using safe by (auto simp: safe_component_def)
  have "\<not> startswith p ''/''"
    using safe [of "[]"] nonempty by (cases p) (auto simp: startswith_def safe_component_def)
  then have "\<not> is_absolute p" "\<not> startswith p ''//''"
    by (cases p; cases "tl p"; simp add: is_absolute_def startswith_def)+
  then show "\<not> unsafe_text p"
    using safe nonempty parts by (auto simp: unsafe_text_def safe_component_def)
  show "list_all (\<lambda>c. validate_component c = Inr ()) (path_parts p)"
    using safe by (auto simp: parts list_all_iff safe_component_def validate_component_Inr)
  have chars: "set (intercalate [d] cs) \<subseteq> insert d (\<Union>c \<in> set cs. set c)" for d :: char and cs
    by (induction cs) auto
  have "set p \<subseteq> insert (CHR ''/'') (\<Union>c \<in> set (split_on (CHR ''/'') p). set c)"
    using chars [of "CHR ''/''" "split_on (CHR ''/'') p"] by (simp add: intercalate_split)
  then show "CHR 0x5C \<notin> set p" "CHR '':'' \<notin> set p"
    using safe by (fastforce simp: safe_component_def list_all_iff)+
qed

lemma safe_path_validated:
  assumes "safe_path p" "is_packaged_path p"
  shows "validated_relative_path (PStr p) = Inr p"
  using assms(2) safe_path_parts [OF assms(1)] traverse_validate_all [of "path_parts p"]
  by (simp add: validated_relative_path_def py_or_def Let_def)

section \<open>The declared files\<close>

text \<open>\<open>declares tr v p\<close>: the manifest entry \<open>v\<close> describes the regular file \<open>p\<close> of the tree.\<close>

definition declares :: "tree \<Rightarrow> pyval \<Rightarrow> string \<Rightarrow> bool" where
  "declares tr v p = (case v of
     PDict e \<Rightarrow> validated_relative_path (dget e ''path'') = Inr p \<and>
       (case regular_file tr p of None \<Rightarrow> False
        | Some c \<Rightarrow> dget e ''size'' = PInt (int (length c)) \<and>
            py_lower (raw_str_field e ''sha256'') = file_digest c \<and> is_sha256 (file_digest c))
   | _ \<Rightarrow> False)"

definition content_size :: "tree \<Rightarrow> string \<Rightarrow> int" where
  "content_size tr p = (case regular_file tr p of None \<Rightarrow> 0 | Some c \<Rightarrow> int (length c))"

definition declared_ok :: "tree \<Rightarrow> declared \<Rightarrow> bool" where
  "declared_ok tr st \<longleftrightarrow> dc_folded st = map py_casefold (dc_paths st) \<and>
     distinct (map py_casefold (dc_paths st)) \<and>
     dc_total st = (\<Sum>p\<leftarrow>dc_paths st. content_size tr p) \<and> dc_total st \<le> max_release_bytes \<and>
     list_all (\<lambda>p. safe_path p \<and> is_packaged_path p) (dc_paths st)"

lemma declare_entry_ok:
  assumes "declare_entry (Some tr) v st = Inr st'" "declared_ok tr st"
  shows "\<exists>p. dc_paths st' = dc_paths st @ [p] \<and> declares tr v p \<and> declared_ok tr st'"
proof -
  obtain e p n c where e: "v = PDict e" "validated_relative_path (dget e ''path'') = Inr p"
    "py_casefold p \<notin> set (dc_folded st)" "dget e ''size'' = PInt n" "\<not> n < 0"
    "is_sha256 (py_lower (raw_str_field e ''sha256''))"
    "dc_total st + n \<le> max_release_bytes"
    "regular_file tr p = Some c" "int (length c) = n"
    "file_digest c = py_lower (raw_str_field e ''sha256'')"
    "st' = \<lparr>dc_paths = dc_paths st @ [p], dc_folded = dc_folded st @ [py_casefold p],
            dc_total = dc_total st + n\<rparr>"
    using assms(1)
    by (auto simp: declare_entry_def check_file_def sbind_Inr update_error_def Let_def
        split: pyval.splits if_splits option.splits)
  then have "declares tr v p"
    by (simp add: declares_def)
  moreover have "declared_ok tr st'"
    using assms(2) e validated_path [OF e(2)] by (simp add: declared_ok_def content_size_def)
  ultimately show ?thesis using e(11) by auto
qed

lemma declare_entries_ok:
  "declare_entries (Some tr) vs st = Inr st' \<Longrightarrow> declared_ok tr st \<Longrightarrow>
     \<exists>ps. dc_paths st' = dc_paths st @ ps \<and> list_all2 (declares tr) vs ps \<and> declared_ok tr st'"
proof (induction vs arbitrary: st)
  case (Cons v vs)
  then obtain st1 where st1: "declare_entry (Some tr) v st = Inr st1"
    "declare_entries (Some tr) vs st1 = Inr st'"
    by (auto simp: sbind_Inr)
  then obtain p where p: "dc_paths st1 = dc_paths st @ [p]" "declares tr v p" "declared_ok tr st1"
    using declare_entry_ok Cons.prems by blast
  obtain ps where "dc_paths st' = dc_paths st1 @ ps" "list_all2 (declares tr) vs ps"
    "declared_ok tr st'"
    using Cons.IH [OF st1(2) p(3)] by blast
  with p show ?case by (intro exI [of _ "p # ps"]) simp
qed simp

lemma require_Inr [simp]: "require b m = Inr u \<longleftrightarrow> b"
  by (cases u) (simp add: require_def update_error_def)

lemma validated_manifest:
  assumes "validate_manifest read_text host_ok v tag (Some tr) cur = Inr v'"
  shows "\<exists>m entries paths. v = PDict m \<and> v' = v \<and> dget m ''files'' = PList entries \<and>
    check_contract host_ok m tag cur = Inr () \<and> length entries \<le> max_release_files \<and>
    list_all2 (declares tr) entries paths \<and> declared_ok tr
      \<lparr>dc_paths = paths, dc_folded = map py_casefold paths,
       dc_total = (\<Sum>p\<leftarrow>paths. content_size tr p)\<rparr> \<and>
    set (managed_files @ image_deployment_files) \<subseteq> set paths \<and> set paths = set (listed_files tr)"
proof -
  obtain m entries st u where m: "v = PDict m" "dget m ''files'' = PList entries"
    "check_contract host_ok m tag cur = Inr ()" "length entries \<le> max_release_files"
    "declare_entries (Some tr) entries \<lparr>dc_paths = [], dc_folded = [], dc_total = 0\<rparr> = Inr st"
    "set (managed_files @ image_deployment_files) \<subseteq> set (dc_paths st)"
    "check_root read_text tr (dc_paths st) tag = Inr u" "v' = v"
    using assms
    by (auto simp: validate_manifest_def sbind_Inr update_error_def split: pyval.splits if_splits)
  have "declared_ok tr \<lparr>dc_paths = [], dc_folded = [], dc_total = 0\<rparr>"
    by (simp add: declared_ok_def max_release_bytes_def)
  then obtain ps where ps: "dc_paths st = ps" "list_all2 (declares tr) entries ps" "declared_ok tr st"
    using declare_entries_ok [OF m(5)] by auto
  have "st = \<lparr>dc_paths = ps, dc_folded = map py_casefold ps,
       dc_total = (\<Sum>p\<leftarrow>ps. content_size tr p)\<rparr>"
    using ps by (cases st) (simp add: declared_ok_def)
  moreover have "set ps = set (listed_files tr)"
    using m(7) ps(1) by (auto simp: check_root_def update_error_def split: if_splits)
  ultimately show ?thesis
    using m(1-4,6,8) ps by (intro exI [of _ m] exI [of _ entries] exI [of _ ps]) auto
qed

section \<open>Extraction\<close>

definition released_file :: "string list \<Rightarrow> bool" where
  "released_file p \<longleftrightarrow> tl p \<noteq> [] \<and>
     (as_posix (tl p) = manifest_name \<or> safe_path (as_posix (tl p)) \<and> is_packaged_path (as_posix (tl p)))"

definition disk_ok :: "string set \<Rightarrow> disk \<Rightarrow> bool" where
  "disk_ok roots d \<longleftrightarrow> distinct (map fst d) \<and>
     (\<forall>(p, n) \<in> set d. p \<noteq> [] \<and> hd p \<in> roots \<and> (\<forall>c \<in> set p. CHR ''/'' \<notin> set c \<and> c \<noteq> []) \<and>
        (n = Dir \<or> (\<exists>c. n = File c) \<and> released_file p))"

lemma disk_ok_update:
  assumes "disk_ok roots d" "p \<noteq> []" "hd p \<in> roots" "\<forall>c \<in> set p. CHR ''/'' \<notin> set c \<and> c \<noteq> []"
    "n = Dir \<or> (\<exists>c. n = File c) \<and> released_file p"
  shows "disk_ok roots (AList.update p n d)"
proof -
  have "set (AList.update p n d) \<subseteq> insert (p, n) (set d)"
    by (induction d) auto
  then have "\<And>q m. (q, m) \<in> set (AList.update p n d) \<Longrightarrow> (q = p \<and> m = n) \<or> (q, m) \<in> set d"
    by auto
  moreover have "distinct (map fst (AList.update p n d))"
    using assms(1) by (simp add: disk_ok_def distinct_update)
  ultimately show ?thesis
    using assms unfolding disk_ok_def by blast
qed

lemma make_parents_ok:
  "make_parents ps d = Inr d' \<Longrightarrow> disk_ok roots d \<Longrightarrow>
     \<forall>p \<in> set ps. p \<noteq> [] \<and> hd p \<in> roots \<and> (\<forall>c \<in> set p. CHR ''/'' \<notin> set c \<and> c \<noteq> []) \<Longrightarrow>
     disk_ok roots d'"
  by (induction ps d rule: make_parents.induct)
    (auto split: option.splits node.splits simp: disk_ok_update)

lemma ancestors_ok: "p \<in> set (ancestors q) \<Longrightarrow> p \<noteq> [] \<and> hd p = hd q \<and> set p \<subseteq> set q"
  by (cases q) (auto simp: ancestors_def take_Cons' dest: in_set_takeD split: if_splits)

lemma extract_member_ok:
  assumes "extract_member info d = Inr d'" "disk_ok roots d"
    "path_parts (zi_name info) \<noteq> []" "hd (path_parts (zi_name info)) \<in> roots"
  shows "disk_ok roots d'"
proof -
  let ?p = "path_parts (zi_name info)"
  have p: "\<forall>c \<in> set ?p. CHR ''/'' \<notin> set c \<and> c \<noteq> []"
    using path_parts_no_slash by blast
  have tlp: "set (tl ?p) \<subseteq> set ?p"
    by (cases ?p) auto
  have anc: "\<forall>q \<in> set (ancestors ?p). q \<noteq> [] \<and> hd q \<in> roots \<and> (\<forall>c \<in> set q. CHR ''/'' \<notin> set c \<and> c \<noteq> [])"
    using ancestors_ok p assms(4) by fastforce
  show ?thesis
  proof (cases "d' = d")
    case False
    then obtain d1 where d1: "make_parents (ancestors ?p) d = Inr d1"
      "d' = AList.update ?p (File (zi_data info)) d1" and tl: "tl ?p \<noteq> []"
      and rel: "as_posix (tl ?p) = manifest_name \<or>
        (\<exists>q. validated_relative_path (PStr (as_posix (tl ?p))) = Inr q)"
      using assms(1)
      by (auto simp: extract_member_def Let_def sbind_Inr split: if_splits)
    have "released_file ?p"
    proof (cases "as_posix (tl ?p) = manifest_name")
      case False
      then obtain q where q: "validated_relative_path (PStr (as_posix (tl ?p))) = Inr q"
        using rel by blast
      have "split_on (CHR ''/'') (as_posix (tl ?p)) = tl ?p"
        using tl p tlp by (intro split_posix) blast+
      moreover have "\<forall>c \<in> set (tl ?p). c \<noteq> [] \<and> c \<noteq> ''.''"
        using tlp by (auto simp: path_parts_def)
      ultimately have "path_parts (as_posix (tl ?p)) = tl ?p"
        by (simp add: path_parts_def [of "as_posix (tl ?p)"] filter_id_conv)
      then have "q = as_posix (tl ?p)"
        using q tl
        by (auto simp: validated_relative_path_def Let_def sbind_Inr update_error_def py_or_def
            unsafe_text_def split: if_splits)
      with validated_path [OF q] tl show ?thesis by (simp add: released_file_def)
    qed (simp add: released_file_def tl)
    moreover have "disk_ok roots d1"
      using make_parents_ok [OF d1(1) assms(2) anc] .
    ultimately show ?thesis
      using assms(3,4) p by (simp add: d1(2) disk_ok_update)
  qed (use assms(2) in simp)
qed

lemma extract_members_ok:
  "extract_members infos d = Inr d' \<Longrightarrow> disk_ok roots d \<Longrightarrow>
     \<forall>info \<in> set infos. path_parts (zi_name info) \<noteq> [] \<and> hd (path_parts (zi_name info)) \<in> roots \<Longrightarrow>
     disk_ok roots d'"
  by (induction infos arbitrary: d) (auto simp: sbind_Inr dest!: extract_member_ok)

lemma scan_members_roots:
  "scan_members infos st = Inr st' \<Longrightarrow>
     set (sc_roots st) \<subseteq> set (sc_roots st') \<and>
     (\<forall>info \<in> set infos. path_parts (zi_name info) \<noteq> [] \<and>
        hd (path_parts (zi_name info)) \<in> set (sc_roots st'))"
proof (induction infos arbitrary: st)
  case (Cons info infos)
  then obtain st1 where st1: "scan_member info st = Inr st1" "scan_members infos st1 = Inr st'"
    by (auto simp: sbind_Inr)
  then have "path_parts (zi_name info) \<noteq> []"
    "sc_roots st1 = hd (path_parts (zi_name info)) # sc_roots st"
    by (auto simp: scan_member_def Let_def sbind_Inr update_error_def unsafe_text_def split: if_splits)
  with Cons.IH [OF st1(2)] show ?case by auto
qed simp

lemma disk_tree_lookup:
  assumes d: "disk_ok {package_root} d" and p: "map_of d p = Some n" "tl p \<noteq> []"
  shows "map_of (disk_tree d) (as_posix (tl p)) = Some n"
proof -
  let ?d = "filter (\<lambda>(p, n). hd p = package_root \<and> tl p \<noteq> []) d"
  have mem: "p \<noteq> [] \<and> hd p = package_root \<and> (\<forall>c \<in> set p. CHR ''/'' \<notin> set c)" if "p \<in> fst ` set ?d" for p
    using d that by (fastforce simp: disk_ok_def)
  have inj: "inj_on (\<lambda>p. as_posix (tl p)) (fst ` set ?d)"
  proof (rule inj_onI)
    fix p q assume pq: "p \<in> fst ` set ?d" "q \<in> fst ` set ?d" "as_posix (tl p) = as_posix (tl q)"
    have "tl p \<noteq> []" "tl q \<noteq> []" using pq by auto
    moreover have "\<forall>c \<in> set (tl p). CHR ''/'' \<notin> set c" "\<forall>c \<in> set (tl q). CHR ''/'' \<notin> set c"
      using mem [OF pq(1)] mem [OF pq(2)] by (auto dest: list.set_sel(2))
    ultimately have "tl p = tl q"
      using split_posix pq(3) by metis
    with mem [OF pq(1)] mem [OF pq(2)] show "p = q"
      by (metis list.collapse)
  qed
  have keys: "map fst (disk_tree d) = map (\<lambda>p. as_posix (tl p)) (map fst ?d)"
    by (simp add: disk_tree_def case_prod_beta comp_def)
  have "distinct (map fst ?d)"
    using d by (simp add: disk_ok_def distinct_map_filter)
  then have "distinct (map fst (disk_tree d))"
    unfolding keys distinct_map using inj by (simp add: distinct_map)
  moreover have "(p, n) \<in> set d"
    using p(1) by (rule map_of_SomeD)
  then have "hd p = package_root"
    using d by (auto simp: disk_ok_def)
  with \<open>(p, n) \<in> set d\<close> p(2) have "(as_posix (tl p), n) \<in> set (disk_tree d)"
    by (force simp: disk_tree_def)
  ultimately show ?thesis by simp
qed

lemma inspect_Inr:
  assumes "inspect_and_extract read_text json_loads host_ok zip_size there infos tag cur = Inr (d, v)"
  shows "\<exists>st v0. scan_members infos \<lparr>sc_roots = [], sc_seen = [], sc_total = 0\<rparr> = Inr st \<and>
    set (sc_roots st) = {package_root} \<and> extract_members infos [] = Inr d \<and>
    validate_manifest read_text host_ok v0 tag (Some (disk_tree d)) cur = Inr v"
proof -
  obtain st where "scan_members infos \<lparr>sc_roots = [], sc_seen = [], sc_total = 0\<rparr> = Inr st"
    "set (sc_roots st) = {package_root}" "extract_members infos [] = Inr d"
    and l: "load_manifest read_text json_loads host_ok d tag cur = Inr v"
    using assms by (auto simp: inspect_and_extract_def sbind_Inr update_error_def split: if_split_asm)
  moreover have "\<exists>v0. validate_manifest read_text host_ok v0 tag (Some (disk_tree d)) cur = Inr v"
    using l by (auto simp: load_manifest_def update_error_def split: option.split_asm sum.split_asm if_split_asm)
  ultimately show ?thesis by blast
qed

section \<open>Built manifests\<close>

lemma digest_sha256: "is_sha256 (file_digest c)"
  using hexdigest_range [of "sha256 c"] sha256_byte [of _ c]
  by (simp add: is_sha256_def file_digest_def length_hexdigest length_sha256 list_all_iff)

lemma lower_sha256: "is_sha256 d \<Longrightarrow> py_lower d = d"
  unfolding py_lower_def is_sha256_def by (intro map_idI) (auto simp: list_all_iff py_lower_char_def Let_def)

lemma case_collision_iff:
  "\<not> case_collision seen ps \<longleftrightarrow> distinct (map py_casefold ps) \<and> set seen \<inter> py_casefold ` set ps = {}"
  by (induction ps arbitrary: seen) auto

lemma directory_files_ok:
  assumes "directory_files tr d = Inr fs" "p \<in> set fs"
  shows "startswith p (d @ ''/'') \<and> regular_file tr p \<noteq> None"
proof -
  let ?ps = "filter (\<lambda>p. startswith p (d @ ''/'')) (map fst tr)"
  let ?f = "\<lambda>p. if is_symlink tr p then update_error ''symbolic link''
               else Inr (if file_content tr p = None \<or> ignored_source p then [] else [p])"
  obtain fss where "traverse ?f ?ps = Inr fss" and fs: "fs = concat fss"
    using assms(1) by (auto simp: directory_files_def sbind_Inr update_error_def split: if_splits)
  then have l: "list_all2 (\<lambda>q ys. ?f q = Inr ys) ?ps fss"
    by (simp only: traverse_Inr)
  obtain ys where "ys \<in> set fss" "p \<in> set ys"
    using assms(2) fs by auto
  then obtain q where "q \<in> set ?ps" "?f q = Inr ys"
    using list_all2_right [OF l] by blast
  with \<open>p \<in> set ys\<close> show ?thesis
    by (auto simp: update_error_def regular_file_def split: if_splits)
qed

lemma relative_files_ok:
  assumes "relative_files tr = Inr fs"
  shows "\<forall>p \<in> set fs. is_packaged_path p \<and> regular_file tr p \<noteq> None"
    "set (managed_files @ image_deployment_files) \<subseteq> set fs"
proof -
  obtain ds ys where ds: "traverse (directory_files tr) managed_directories = Inr ds"
    and ys: "traverse (\<lambda>p. if regular_file tr p = None then update_error ''release file'' else Inr p)
              (managed_files @ image_deployment_files) = Inr ys"
    and fs: "fs = concat ds @ ys"
    using assms by (auto simp: relative_files_def sbind_Inr)
  have l: "list_all2 (\<lambda>d fs. directory_files tr d = Inr fs) managed_directories ds"
    using ds by (simp only: traverse_Inr)
  have dirs: "is_packaged_path p \<and> regular_file tr p \<noteq> None" if xs: "xs \<in> set ds" "p \<in> set xs" for p xs
  proof -
    obtain d where d: "d \<in> set managed_directories" "directory_files tr d = Inr xs"
      using list_all2_right [OF l xs(1)] by blast
    then show ?thesis
      using directory_files_ok [OF d(2) xs(2)] d(1) by (auto simp: is_packaged_path_def is_managed_path_def list_ex_iff)
  qed
  have "list_all2 (\<lambda>p q. q = p \<and> regular_file tr p \<noteq> None) (managed_files @ image_deployment_files) ys"
    using ys unfolding traverse_Inr
    by (rule list_all2_mono) (auto simp: update_error_def split: if_splits)
  then have "ys = managed_files @ image_deployment_files \<and> list_all (\<lambda>p. regular_file tr p \<noteq> None) ys"
    by (induction rule: list_all2_induct) auto
  then show "\<forall>p \<in> set fs. is_packaged_path p \<and> regular_file tr p \<noteq> None"
    "set (managed_files @ image_deployment_files) \<subseteq> set fs"
    using dirs by (auto simp: fs list_all_iff is_packaged_path_def is_managed_path_def)
qed

lemma declare_built:
  assumes "list_all safe_path ps" "\<forall>p \<in> set ps. is_packaged_path p \<and> regular_file base p \<noteq> None \<and>
      regular_file tr p = regular_file base p"
    "distinct (map py_casefold ps)" "set (dc_folded st) \<inter> py_casefold ` set ps = {}"
    "py_casefold ` set (dc_paths st) \<subseteq> set (dc_folded st)"
    "dc_total st + (\<Sum>p\<leftarrow>ps. content_size base p) \<le> max_release_bytes"
  shows "\<exists>st'. declare_entries (Some tr) (map (manifest_entry base) ps) st = Inr st' \<and>
    dc_paths st' = dc_paths st @ ps"
  using assms
proof (induction ps arbitrary: st)
  case (Cons p ps)
  obtain c where c: "regular_file base p = Some c" "regular_file tr p = Some c"
    "file_content base p = Some c"
    using Cons.prems(2) by (auto simp: regular_file_def split: if_splits)
  have v: "validated_relative_path (PStr p) = Inr p"
    using Cons.prems(1,2) by (intro safe_path_validated) auto
  have new: "p \<notin> set (dc_paths st)" "py_casefold p \<notin> set (dc_folded st)"
    using Cons.prems(4,5) by auto
  have "0 \<le> (\<Sum>p\<leftarrow>ps. content_size base p)"
    by (induction ps) (auto simp: content_size_def split: option.splits)
  then have total: "dc_total st + int (length c) \<le> max_release_bytes"
    using Cons.prems(6) c(1) by (simp add: content_size_def)
  let ?st = "\<lparr>dc_paths = dc_paths st @ [p], dc_folded = dc_folded st @ [py_casefold p],
      dc_total = dc_total st + int (length c)\<rparr>"
  have "file_digest c \<noteq> []"
    using digest_sha256 [of c] by (auto simp: is_sha256_def)
  then have "declare_entry (Some tr) (manifest_entry base p) st = Inr ?st"
    using new total c v digest_sha256 [of c]
    by (simp add: declare_entry_def manifest_entry_def dget_def raw_str_field_def py_or_def
        lower_sha256 check_file_def Let_def)
  moreover have "\<exists>st'. declare_entries (Some tr) (map (manifest_entry base) ps) ?st = Inr st' \<and>
      dc_paths st' = dc_paths ?st @ ps"
    by (rule Cons.IH) (use Cons.prems c in \<open>auto simp: content_size_def\<close>)
  ultimately show ?case by auto
qed simp

lemma check_contract_built:
  assumes "compare_tags tag min_update_tag = Inr c" "0 \<le> c"
    "compare_tags cur min_update_tag = Inr a" "0 \<le> a" "compare_tags cur max_source_tag = Inr b" "b < 0"
    "manifest_value tag tag files = PDict m"
  shows "check_contract True m tag cur = Inr () \<and> dget m ''files'' = PList files"
proof -
  have lists: "matches_list (str_list xs) xs = Inr True" for xs
    by (simp add: matches_list_def str_list_def py_or_def)
  have r: "require True x = Inr ()" for x
    by (simp add: require_def)
  have range: "check_range [(''config_schema'', int_range 1), (''runtime_snapshot'', int_range 1),
      (''identity_registry'', int_range 1)] k 1 = Inr ()"
    if "k \<in> {''config_schema'', ''runtime_snapshot'', ''identity_registry''}" for k
    using that by (auto simp: check_range_def int_range_def dget_def py_or_def)
  have src: "validate_source_compatibility (PDict [(''minimum'', PStr min_update_tag),
         (''maximum_exclusive'', PStr max_source_tag)]) cur = Inr ()"
    using assms(3-6)
    by (simp add: validate_source_compatibility_def raw_str_field_PStr dget_def)
  have m: "dget m ''manifest_format'' = PInt 1" "dget m ''product'' = PStr ''RocketCatShell''"
    "dget m ''platform'' = PStr ''linux''" "dget m ''tag_name'' = PStr tag"
    "dget m ''version'' = PStr tag" "dget m ''root_directory'' = PStr package_root"
    "dget m ''container_runtime_generation'' = PInt 1"
    "dget m ''managed_directories'' = str_list managed_directories"
    "dget m ''managed_files'' = str_list managed_files"
    "dget m ''image_deployment_files'' = str_list image_deployment_files"
    "dget m ''python'' = PDict [(''implementation'', PStr ''cpython''), (''minimum'', PStr ''3.11'')]"
    "dget m ''source_compatibility'' = PDict [(''minimum'', PStr min_update_tag),
         (''maximum_exclusive'', PStr max_source_tag)]"
    "dget m ''persistent_compatibility'' = PDict [(''config_schema'', int_range 1),
         (''runtime_snapshot'', int_range 1), (''identity_registry'', int_range 1)]"
    and files: "dget m ''files'' = PList files"
    using assms(7) unfolding manifest_value_def pyval.inject
    by (simp_all add: dget_def eq_commute [of _ m])
  have py: "check_python (PDict [(''implementation'', PStr ''cpython''), (''minimum'', PStr ''3.11'')]) =
      Inr True"
    by (simp add: check_python_def py_or_def dget_def)
  have or: "py_or (PDict (kv # kvs)) v = PDict (kv # kvs)" for kv kvs v
    by (simp add: py_or_def)
  have "check_contract True m tag cur = Inr ()"
    using assms(2)
    unfolding check_contract_def assms(1) m or lists py src
    by (simp add: equals_int_def r src validate_persistent_compatibility_def range)
  with files show ?thesis by simp
qed

lemma validate_built:
  assumes "build_manifest base tag tag = Inr v" "relative_files base = Inr fs"
    "list_all safe_path fs" "length fs \<le> max_release_files"
    "(\<Sum>p\<leftarrow>fs. content_size base p) \<le> max_release_bytes"
    "list_all (\<lambda>p. regular_file tr p = regular_file base p) fs" "set (listed_files tr) = set fs"
    "list_all (is_directory tr) managed_directories"
    "file_content tr ''rocketcat_shell/__init__.py'' = Some src" "read_text src = Inr text"
    "find_version True text = Some tag"
    "compare_tags cur min_update_tag = Inr a" "0 \<le> a" "compare_tags cur max_source_tag = Inr b" "b < 0"
  shows "validate_manifest read_text True v tag (Some tr) cur = Inr v"
proof -
  let ?ps = "sort_key py_casefold fs"
  obtain c where c: "compare_tags tag min_update_tag = Inr c" "0 \<le> c"
    and nocase: "\<not> case_collision [] ?ps"
    and v: "v = manifest_value tag tag (map (manifest_entry base) ?ps)"
    using assms(1,2)
    by (auto simp: build_manifest_def sbind_Inr update_error_def Let_def split: if_splits)
  obtain m where m: "manifest_value tag tag (map (manifest_entry base) ?ps) = PDict m"
    by (simp add: manifest_value_def)
  have contract: "check_contract True m tag cur = Inr ()"
    "dget m ''files'' = PList (map (manifest_entry base) ?ps)"
    using check_contract_built [OF c assms(12-15) m] by simp_all
  have sum: "(\<Sum>p\<leftarrow>?ps. content_size base p) = (\<Sum>p\<leftarrow>fs. content_size base p)"
    by (metis mset_map mset_sort sum_mset_sum_list)
  have "\<exists>st. declare_entries (Some tr) (map (manifest_entry base) ?ps)
        \<lparr>dc_paths = [], dc_folded = [], dc_total = 0\<rparr> = Inr st \<and>
      dc_paths st = dc_paths \<lparr>dc_paths = [], dc_folded = [], dc_total = 0\<rparr> @ ?ps"
    by (rule declare_built)
      (use assms(3,5,6) relative_files_ok(1) [OF assms(2)] nocase sum in
        \<open>auto simp: list_all_iff case_collision_iff\<close>)
  then obtain st where st: "declare_entries (Some tr) (map (manifest_entry base) ?ps)
        \<lparr>dc_paths = [], dc_folded = [], dc_total = 0\<rparr> = Inr st" "dc_paths st = ?ps"
    by auto
  have req: "set (managed_files @ image_deployment_files) \<subseteq> set fs"
    using relative_files_ok(2) [OF assms(2)] .
  then have "fs \<noteq> []" by (auto simp: managed_files_def)
  then have ne: "?ps \<noteq> []" by (metis set_empty set_sort)
  have "check_root read_text tr ?ps tag = Inr ()"
    using assms(7-11) by (simp add: check_root_def list_all_iff list_ex_iff)
  then show ?thesis
    using contract st req ne assms(4)
    unfolding v m by (simp add: validate_manifest_def)
qed

section \<open>A small release\<close>

definition example_files :: "string list" where
  "example_files = managed_files @ image_deployment_files @
     [''rocketcat_shell/__init__.py'', ''data/plugins/rocketcat_plugin_adapt_iamthinking/p.py'',
      ''data/plugins/rocketcat_plugin_built_in_command/p.py'']"

definition example_tree :: tree where
  "example_tree = map (\<lambda>d. (d, Dir)) managed_directories @ map (\<lambda>p. (p, File [])) example_files"

definition example_text :: "bytes \<Rightarrow> exn + string" where
  "example_text c = Inr (''__version__ = '' @ [CHR 0x22] @ ''v0.2.4'' @ [CHR 0x22])"

definition example_sources :: "string list" where
  "example_sources = [''rocketcat_shell/__init__.py'',
     ''data/plugins/rocketcat_plugin_adapt_iamthinking/p.py'',
     ''data/plugins/rocketcat_plugin_built_in_command/p.py''] @ managed_files @ image_deployment_files"

definition example_manifest :: pyval where
  "example_manifest = manifest_value version version
     (map (manifest_entry example_tree) (sort_key py_casefold example_sources))"

definition example_archive :: "member list" where
  "example_archive = map (\<lambda>p. \<lparr>zi_name = package_root @ ''/'' @ p, zi_link = False, zi_size = 0,
     zi_data = []\<rparr>) (example_files @ [manifest_name])"

definition example_disk :: disk where
  "example_disk = (case extract_members example_archive [] of Inl _ \<Rightarrow> [] | Inr d \<Rightarrow> d)"

lemma example_sources_ok: "relative_files example_tree = Inr example_sources"
  by code_simp

lemma example_no_collision: "\<not> case_collision [] (sort_key py_casefold example_sources)"
  by code_simp

lemma example_tags:
  "compare_tags version min_update_tag = Inr 1" "compare_tags version max_source_tag = Inr (- 1)"
  by code_simp+

lemma example_paths: "list_all safe_path example_sources"
  by code_simp

lemma example_extracted: "extract_members example_archive [] = Inr example_disk"
  by code_simp

lemma example_disk_files:
  "list_all (\<lambda>p. regular_file (disk_tree example_disk) p = Some []) example_sources"
  "list_all (\<lambda>p. regular_file example_tree p = Some []) example_sources"
  "list_all (is_directory (disk_tree example_disk)) managed_directories"
  by code_simp+

lemma example_disk_listed: "set (listed_files (disk_tree example_disk)) = set example_sources"
proof -
  have "list_all (\<lambda>p. p \<in> set example_sources) (listed_files (disk_tree example_disk))"
    "list_all (\<lambda>p. p \<in> set (listed_files (disk_tree example_disk))) example_sources"
    by code_simp+
  then show ?thesis by (auto simp: list_all_iff)
qed

lemma example_manifest_built: "build_manifest example_tree version version = Inr example_manifest"
  by (simp add: build_manifest_def example_tags example_sources_ok example_no_collision
      example_manifest_def Let_def)

lemma example_limits:
  "length example_sources \<le> max_release_files"
  "(\<Sum>p\<leftarrow>example_sources. content_size example_tree p) \<le> max_release_bytes"
proof -
  have "content_size example_tree p = 0" if "p \<in> set example_sources" for p
    using that example_disk_files(2) by (simp add: list_all_iff content_size_def)
  then have "map (content_size example_tree) example_sources = map (\<lambda>_. 0) example_sources"
    by (intro map_cong) auto
  then show "(\<Sum>p\<leftarrow>example_sources. content_size example_tree p) \<le> max_release_bytes"
    unfolding \<open>map (content_size example_tree) example_sources = map (\<lambda>_. 0) example_sources\<close>
    by (simp add: max_release_bytes_def)
  show "length example_sources \<le> max_release_files"
    by (simp add: example_sources_def managed_files_def image_deployment_files_def max_release_files_def)
qed

lemma example_version:
  "file_content (disk_tree example_disk) ''rocketcat_shell/__init__.py'' = Some []"
  "find_version True (projr (example_text [])) = Some version"
  by code_simp+

lemma example_tree_same:
  "list_all (\<lambda>p. regular_file (disk_tree example_disk) p = regular_file example_tree p) example_sources"
  using example_disk_files by (simp add: list_all_iff)

lemma example_read: "example_text [] = Inr (projr (example_text []))"
  by (simp add: example_text_def)

lemma example_validates:
  "validate_manifest example_text True example_manifest version (Some (disk_tree example_disk)) version =
     Inr example_manifest"
  by (rule validate_built [where read_text = example_text, OF example_manifest_built example_sources_ok example_paths example_limits
        example_tree_same example_disk_listed example_disk_files(3) example_version(1) example_read
        example_version(2) example_tags(1) _ example_tags(2)]) simp_all

lemma example_inspected:
  "inspect_and_extract example_text (\<lambda>_. Inr example_manifest) True 0 False example_archive
     version version = Inr (example_disk, example_manifest)"
proof -
  have scanned: "\<exists>st. scan_members example_archive \<lparr>sc_roots = [], sc_seen = [], sc_total = 0\<rparr> = Inr st \<and>
      set (sc_roots st) = {package_root}"
  proof -
    have "(case scan_members example_archive \<lparr>sc_roots = [], sc_seen = [], sc_total = 0\<rparr> of
        Inl _ \<Rightarrow> False
      | Inr st \<Rightarrow> sc_roots st \<noteq> [] \<and> list_all (\<lambda>r. r = package_root) (sc_roots st))"
      by code_simp
    then obtain st where st: "scan_members example_archive
        \<lparr>sc_roots = [], sc_seen = [], sc_total = 0\<rparr> = Inr st"
      "sc_roots st \<noteq> []" "list_all (\<lambda>r. r = package_root) (sc_roots st)"
      by (cases "scan_members example_archive \<lparr>sc_roots = [], sc_seen = [], sc_total = 0\<rparr>") simp_all
    then have "set (sc_roots st) = {package_root}"
      by (cases "sc_roots st") (auto simp: list_all_iff)
    with st(1) show ?thesis by blast
  qed
  have archive: "example_archive \<noteq> []" "\<not> max_release_files < length example_archive"
    by (simp_all add: example_archive_def example_files_def managed_files_def
        image_deployment_files_def max_release_files_def)
  have "file_content (disk_tree example_disk) manifest_name = Some []"
    by code_simp
  then have load: "load_manifest example_text (\<lambda>_. Inr example_manifest) True example_disk version version =
      Inr example_manifest"
    unfolding load_manifest_def by (simp only: option.case sum.case example_validates)
  obtain st where st: "scan_members example_archive \<lparr>sc_roots = [], sc_seen = [], sc_total = 0\<rparr> = Inr st"
    "set (sc_roots st) = {package_root}"
    using scanned by blast
  have "\<not> max_release_bytes < 0"
    by (simp add: max_release_bytes_def)
  with archive st show ?thesis
    unfolding inspect_and_extract_def st(1) sbind_simps example_extracted load by simp
qed

end
