(* ===== verification/Release_Properties.thy ===== *)
theory Release_Properties
  imports Release_Lemmas
begin

text \<open>
  Properties of release manifests and archives, proved from the lemmas of
  \<open>Release_Lemmas\<close>.
\<close>

text \<open>Versions are totally ordered: comparing two valid tags the other way round negates the
  answer, the comparison is transitive, and only tags that agree up to letter case compare
  equal.
\<close>

theorem tags_totally_ordered:
  assumes "parse_tag x = Inr kx" "parse_tag y = Inr ky" "parse_tag z = Inr kz"
  shows "\<exists>s r u. compare_tags x y = Inr s \<and> compare_tags y x = Inr (- s) \<and>
    compare_tags y z = Inr r \<and> compare_tags x z = Inr u \<and>
    (s = 0 \<longrightarrow> py_lower x = py_lower y) \<and> (s \<le> 0 \<and> r \<le> 0 \<longrightarrow> u \<le> 0)"
  using parse_tag_show [OF assms(1)] parse_tag_show [OF assms(2)]
  by (auto simp: compare_tags_parsed [OF assms(1,2)] compare_tags_parsed [OF assms(2,1)]
      compare_tags_parsed [OF assms(2,3)] compare_tags_parsed [OF assms(1,3)])

theorem tags_totally_ordered_witness:
  "compare_tags ''v0.2.4-rc.1'' ''v0.2.4'' = Inr (- 1) \<and>
   compare_tags ''v0.2.4'' ''v0.2.4-rc.1'' = Inr 1"
proof -
  have k: "parse_tag ''v0.2.4-rc.1'' = Inr (0, 2, 4, [Pre, Word ''rc'', Num 1])"
    "parse_tag ''v0.2.4'' = Inr (0, 2, 4, [Word []])"
    by (simp_all add: parse_tag_def match_tag_def expect_def tag_number_def py_isdigit_def
        digit_val_def ident_ok_def is_alnum_def ident_key_def py_lower_def py_lower_char_def Let_def)
  have "compare_tags ''v0.2.4-rc.1'' ''v0.2.4'' = Inr (- 1)"
    using k by (simp add: compare_tags_def less_key_part_def)
  with tags_totally_ordered [OF k(1) k(2) k(2)] show ?thesis by auto
qed

text \<open>C26. An accepted path is normalised and safe: every component is a real name (no empty one,
  no dot or dot-dot, no backslash, colon or control character, no trailing dot or space), the
  path is one the release may contain, and validating it again returns it.
\<close>

theorem accepted_paths_are_safe:
  assumes "validated_relative_path v = Inr p"
  shows "safe_path p \<and> is_packaged_path p \<and> validated_relative_path (PStr p) = Inr p"
  using validated_path [OF assms] safe_path_validated [of p] by simp

theorem accepted_paths_are_safe_witness: "safe_path ''tools/update_helper.py''"
proof -
  have "validated_relative_path (PStr ''./tools//update_helper.py'') = Inr ''tools/update_helper.py''"
    by (simp add: validated_relative_path_def py_or_def unsafe_text_def path_parts_def startswith_def
        is_absolute_def validate_component_def as_posix_def is_packaged_path_def is_managed_path_def
        managed_files_def)
  from accepted_paths_are_safe [OF this] show ?thesis by simp
qed

text \<open>C27. An accepted manifest describes the candidate directory exactly: its files and the
  regular files of the directory (the manifest apart) are the same set, each is declared once
  even up to letter case, with the size and SHA-256 digest it has; all required files are
  there, every path is safe and packaged and the sizes stay within the limit.
\<close>

theorem accepted_manifest_describes_tree:
  assumes "validate_manifest read_text host_ok v tag (Some tr) cur = Inr v'"
  shows "\<exists>m entries paths. v = PDict m \<and> v' = v \<and> dget m ''files'' = PList entries \<and>
    list_all2 (declares tr) entries paths \<and> distinct (map py_casefold paths) \<and>
    set paths = set (listed_files tr) \<and> set (managed_files @ image_deployment_files) \<subseteq> set paths \<and>
    list_all (\<lambda>p. safe_path p \<and> is_packaged_path p) paths \<and>
    (\<Sum>p\<leftarrow>paths. content_size tr p) \<le> max_release_bytes"
  using validated_manifest [OF assms] by (auto simp: declared_ok_def)

theorem accepted_manifest_describes_tree_witness:
  "\<exists>m entries paths. example_manifest = PDict m \<and> dget m ''files'' = PList entries \<and>
    list_all2 (declares (disk_tree example_disk)) entries paths \<and>
    set paths = set (listed_files (disk_tree example_disk))"
  using accepted_manifest_describes_tree [OF example_validates] by blast

text \<open>C28. Extraction cannot leave the release directory: when an archive is accepted, every file
  written lies below the package root under a safe path that is packaged, or is the manifest;
  every file but the manifest is declared in the manifest with its size and digest, and no
  link was written.
\<close>

theorem extraction_stays_inside:
  assumes "inspect_and_extract read_text json_loads host_ok zip_size there infos tag cur = Inr (d, v)"
    "map_of d p = Some n" "n \<noteq> Dir"
  shows "\<exists>c. n = File c \<and> hd p = package_root \<and>
    (as_posix (tl p) = manifest_name \<or>
     safe_path (as_posix (tl p)) \<and> is_packaged_path (as_posix (tl p)) \<and>
     (\<exists>m entries e. v = PDict m \<and> dget m ''files'' = PList entries \<and> PDict e \<in> set entries \<and>
        validated_relative_path (dget e ''path'') = Inr (as_posix (tl p)) \<and>
        dget e ''size'' = PInt (int (length c)) \<and>
        py_lower (raw_str_field e ''sha256'') = file_digest c))"
proof -
  obtain st v0 where st: "scan_members infos \<lparr>sc_roots = [], sc_seen = [], sc_total = 0\<rparr> = Inr st"
    "set (sc_roots st) = {package_root}" "extract_members infos [] = Inr d"
    "validate_manifest read_text host_ok v0 tag (Some (disk_tree d)) cur = Inr v"
    using inspect_Inr [OF assms(1)] by blast
  have "disk_ok {package_root} []"
    by (simp add: disk_ok_def)
  then have d: "disk_ok {package_root} d"
    using extract_members_ok [OF st(3)] scan_members_roots [OF st(1)] st(2) by auto
  then obtain c where n: "n = File c" "hd p = package_root" "released_file p"
    using map_of_SomeD [OF assms(2)] assms(3) by (auto simp: disk_ok_def)
  let ?q = "as_posix (tl p)"
  have at: "map_of (disk_tree d) ?q = Some (File c)"
    using disk_tree_lookup [OF d assms(2)] n(1,3) by (simp add: released_file_def)
  then have reg: "regular_file (disk_tree d) ?q = Some c" "file_content (disk_tree d) ?q = Some c"
    by (simp_all add: regular_file_def is_symlink_def file_content_def)
  show ?thesis
  proof (cases "?q = manifest_name")
    case False
    obtain m entries paths where m: "v0 = PDict m" "v = v0" "dget m ''files'' = PList entries"
      "list_all2 (declares (disk_tree d)) entries paths" "set paths = set (listed_files (disk_tree d))"
      using validated_manifest [OF st(4)] by blast
    have "?q \<in> fst ` set (disk_tree d)"
      using at by (force dest: map_of_SomeD)
    then have "?q \<in> set paths"
      using False reg(2) by (simp add: m(5) listed_files_def)
    then obtain w where "w \<in> set entries" "declares (disk_tree d) w ?q"
      using list_all2_right [OF m(4)] by blast
    then obtain e where e: "PDict e \<in> set entries" "validated_relative_path (dget e ''path'') = Inr ?q"
      "dget e ''size'' = PInt (int (length c))" "py_lower (raw_str_field e ''sha256'') = file_digest c"
      using reg(1) by (auto simp: declares_def split: pyval.splits)
    then show ?thesis
      using n False m(1-3) by (auto simp: released_file_def)
  qed (use n in simp)
qed

theorem extraction_stays_inside_witness:
  "\<exists>m entries e. example_manifest = PDict m \<and> dget m ''files'' = PList entries \<and>
     PDict e \<in> set entries \<and> validated_relative_path (dget e ''path'') = Inr ''LICENSE'' \<and>
     dget e ''size'' = PInt 0"
proof -
  have "map_of example_disk [package_root, ''LICENSE''] = Some (File [])"
    by code_simp
  from extraction_stays_inside [OF example_inspected this] show ?thesis
    by (auto simp: as_posix_def manifest_name_def)
qed

text \<open>C29. A release that was built validates: the manifest built from a source directory is
  accepted for the directory the archive unpacks to, when that holds the same files, the
  paths are safe, the limits are kept, the version file names the tag and the running version
  is inside the supported range.
\<close>

theorem built_release_validates:
  assumes "build_manifest base tag tag = Inr v" "relative_files base = Inr fs"
    "list_all safe_path fs" "length fs \<le> max_release_files"
    "(\<Sum>p\<leftarrow>fs. content_size base p) \<le> max_release_bytes"
    "list_all (\<lambda>p. regular_file tr p = regular_file base p) fs" "set (listed_files tr) = set fs"
    "list_all (is_directory tr) managed_directories"
    "file_content tr ''rocketcat_shell/__init__.py'' = Some src" "read_text src = Inr text"
    "find_version True text = Some tag"
    "compare_tags cur min_update_tag = Inr a" "0 \<le> a" "compare_tags cur max_source_tag = Inr b" "b < 0"
  shows "validate_manifest read_text True v tag (Some tr) cur = Inr v"
  using assms by (rule validate_built)

theorem built_release_validates_witness:
  "validate_manifest example_text True example_manifest version (Some (disk_tree example_disk)) version =
     Inr example_manifest"
  by (rule built_release_validates [where read_text = example_text, OF example_manifest_built example_sources_ok example_paths
        example_limits example_tree_same example_disk_listed example_disk_files(3) example_version(1)
        example_read example_version(2) example_tags(1) _ example_tags(2)]) simp_all

end
