(* ===== verification/Update_Helper.thy ===== *)
theory Update_Helper
  imports Update_Manifest
begin

text \<open>
  The update transaction of \<open>tools/update_helper.py\<close>: the image-frozen program that replaces
  the managed paths of an installation, watches the new version and restores the old one.

  \<^item> The installation is a \<open>world\<close>: the managed paths with what is at each of them, the
    transaction files, the backup and the unpacked candidate of each transaction (all three by
    the path of the transaction file), the runtime marker and the hand-off marker. One
    installation is modelled, so the roots a transaction names are only compared.
  \<^item> Every change of the file system is one \<open>io\<close> step. What happens to it is read from the
    list \<open>w_fates\<close>: it succeeds, fails with an \<open>OSError\<close>, or the process is killed; in the
    last two cases a copy or removal leaves arbitrary debris at its target. \<open>os.replace\<close> is
    atomic, so writing a JSON state leaves no debris. When the list is used up all steps
    succeed. A kill is an exception no handler catches; the theorems quantify over the list.
  \<^item> Paths are resolved, programs run and health probed by the environment, the record
    \<open>host\<close>. Time stamps (\<open>updated_at\<close>, \<open>completed_at\<close>, \<open>created_at\<close> of a backup) are left
    out; \<open>h_float\<close> reads the creation time of a transaction.
\<close>

section \<open>The installation\<close>

datatype json_file = Json entry | Garbage

datatype item = Plain bytes | Folder tree | Linked | Special

datatype debris = Clean | Partial_file bytes | Partial_dir tree

datatype fate = Fine | Fail debris | Kill debris

datatype pending = No_marker | Marker_file | Marker_link

datatype event = Spawned string string | Executed string string | Terminated

record backup_dir =
  bk_files :: "(string \<times> item) list"
  bk_presence :: "json_file option"
  bk_runtime :: "json_file option"
  bk_complete :: "json_file option"

record world =
  w_txns :: "(string \<times> json_file) list"
  w_candidates :: "(string \<times> tree) list"
  w_backups :: "(string \<times> backup_dir) list"
  w_live :: "(string \<times> item) list"
  w_runtime :: "json_file option"
  w_pending :: pending
  w_payload :: "entry option" \<comment> \<open>the local variable \<open>payload\<close> of \<open>apply_transaction\<close>\<close>
  w_events :: "event list"
  w_fates :: "fate list"

record host =
  h_resolve :: "string \<Rightarrow> string"
  h_linked :: "string \<Rightarrow> bool" \<comment> \<open>a symbolic link on the way to the path\<close>
  h_is_pid1 :: bool
  h_is_file :: "string \<Rightarrow> bool"
  h_venv :: "bytes \<Rightarrow> exn + string" \<comment> \<open>the environment prepared for a requirements file\<close>
  h_executable :: string
  h_float :: "pyval \<Rightarrow> rat option" \<comment> \<open>\<open>float(v)\<close>, \<open>None\<close> when it raises\<close>
  h_healthy :: "string list \<Rightarrow> string \<Rightarrow> string \<Rightarrow> bool"

type_synonym 'a helper = "(world, 'a) action"

definition managed_paths :: "string list" where
  "managed_paths = managed_directories @ managed_files"

definition terminal_statuses :: "string list" where
  "terminal_statuses = [''completed'', ''failed'', ''rolled_back'']"

definition helper_error :: "string \<Rightarrow> exn" where
  "helper_error m = OtherError ''UpdateHelperError'' m"

definition fail :: "string \<Rightarrow> 'a helper" where
  "fail m = raise_exn (helper_error m)"

definition killed :: exn where
  "killed = OtherError ''Killed'' []"

definition os_error :: exn where
  "os_error = OtherError ''OSError'' []"

definition io :: "(world \<Rightarrow> world) \<Rightarrow> (debris \<Rightarrow> world \<Rightarrow> world) \<Rightarrow> unit helper" where
  "io eff tear w = (case w_fates w of
     [] \<Rightarrow> (Inr (), eff w)
   | f # fs \<Rightarrow> (let w' = w\<lparr>w_fates := fs\<rparr> in case f of
       Fine \<Rightarrow> (Inr (), eff w')
     | Fail d \<Rightarrow> (Inl os_error, tear d w')
     | Kill d \<Rightarrow> (Inl killed, tear d w')))"

definition io_atomic :: "(world \<Rightarrow> world) \<Rightarrow> unit helper" where
  "io_atomic eff = io eff (\<lambda>_ w. w)"

text \<open>\<open>try: m  except Exception as exc: h(exc)\<close>.\<close>

definition try_except :: "'a helper \<Rightarrow> (exn \<Rightarrow> 'a helper) \<Rightarrow> 'a helper" where
  "try_except m h w = (case m w of
     (Inl e, w') \<Rightarrow> if e = killed then (Inl e, w') else h e w'
   | (Inr x, w') \<Rightarrow> (Inr x, w'))"

section \<open>JSON state\<close>

definition read_json :: "json_file option \<Rightarrow> exn + entry" where
  "read_json f = (case f of Some (Json e) \<Rightarrow> Inr e | _ \<Rightarrow> Inl (helper_error ''invalid JSON state''))"

definition merge_entry :: "entry \<Rightarrow> entry \<Rightarrow> entry" where
  "merge_entry changes payload = fold (\<lambda>(k, v). AList.update k v) changes payload"

definition write_txn :: "string \<Rightarrow> entry \<Rightarrow> unit helper" where
  "write_txn f payload = io_atomic (w_txns_update (AList.update f (Json payload)))"

definition update_transaction :: "string \<Rightarrow> entry \<Rightarrow> entry \<Rightarrow> entry helper" where
  "update_transaction f payload changes =
     (let new = merge_entry changes payload in bnd (write_txn f new) (\<lambda>_. ret new))"

definition write_runtime :: "entry \<Rightarrow> unit helper" where
  "write_runtime e = io_atomic (w_runtime_update (\<lambda>_. Some (Json e)))"

section \<open>The context of a transaction\<close>

definition is_transaction_id :: "string \<Rightarrow> bool" where
  "is_transaction_id s \<longleftrightarrow> length s = 24 \<and>
     list_all (\<lambda>c. let n = (of_char c :: int) in (48 \<le> n \<and> n \<le> 57) \<or> (97 \<le> n \<and> n \<le> 102)) s"

definition check_context :: "host \<Rightarrow> string \<Rightarrow> entry \<Rightarrow> bool" where
  "check_context h f payload =
     (let txn_id = raw_str_field payload ''transaction_id'';
          source = h_resolve h (raw_str_field payload ''source_root'');
          txn_root = h_resolve h (source @ ''/data/update/transactions/'' @ txn_id)
      in is_transaction_id txn_id \<and> source = h_resolve h (raw_str_field payload ''state_root'') \<and>
         f = txn_root @ ''/transaction.json'' \<and> \<not> h_linked h f \<and>
         h_resolve h (raw_str_field payload ''candidate_root'') =
           h_resolve h (txn_root @ ''/candidate/'' @ package_root))"

definition get_context :: "host \<Rightarrow> string \<Rightarrow> entry helper" where
  "get_context h f =
     bnd (gets (\<lambda>w. read_json (map_of (w_txns w) f))) (\<lambda>r.
     bnd (lift_exn r) (\<lambda>payload.
       if check_context h f payload then ret payload else fail ''context''))"

definition candidate_of :: "string \<Rightarrow> world \<Rightarrow> tree" where
  "candidate_of f w = (case map_of (w_candidates w) f of None \<Rightarrow> [] | Some tr \<Rightarrow> tr)"

section \<open>Validating the candidate\<close>

definition safe_relative :: "pyval \<Rightarrow> string option" where
  "safe_relative v =
     (let text = py_str (py_or v (PStr [])) in
      if text = [] \<or> CHR 0x5C \<in> set text \<or> CHR '':'' \<in> set text \<or> is_absolute text \<or>
         ''..'' \<in> set (path_parts text) \<or> path_parts text = []
      then None else Some (as_posix (path_parts text)))"

definition candidate_entry :: "tree \<Rightarrow> string list \<Rightarrow> pyval \<Rightarrow> string option" where
  \<comment> \<open>the declared path, when the entry passes every check\<close>
  "candidate_entry tr seen v = (case v of
     PDict e \<Rightarrow> (case safe_relative (dget e ''path'') of
         None \<Rightarrow> None
       | Some p \<Rightarrow>
           if \<not> is_packaged_path p \<or> p \<in> set seen then None
           else (let digest = py_lower (raw_str_field e ''sha256'') in
             case (dget e ''size'', regular_file tr p) of
               (PInt n, Some c) \<Rightarrow>
                 if 0 \<le> n \<and> is_sha256 digest \<and> int (length c) = n \<and> file_digest c = digest
                 then Some p else None
             | _ \<Rightarrow> None))
   | _ \<Rightarrow> None)"

fun candidate_entries :: "tree \<Rightarrow> string list \<Rightarrow> pyval list \<Rightarrow> string list option" where
  "candidate_entries tr seen [] = Some seen"
| "candidate_entries tr seen (v # vs) = (case candidate_entry tr seen v of
     None \<Rightarrow> None | Some p \<Rightarrow> candidate_entries tr (p # seen) vs)"

definition candidate_files :: "tree \<Rightarrow> string list" where
  "candidate_files tr = filter (\<lambda>p. file_content tr p \<noteq> None \<and>
     last (path_parts p) \<noteq> manifest_name) (map fst tr)"

definition candidate_valid :: "tree \<Rightarrow> entry \<Rightarrow> bool" where
  "candidate_valid tr payload = (case dget payload ''candidate_files'' of
     PList entries \<Rightarrow> entries \<noteq> [] \<and> (case candidate_entries tr [] entries of
         None \<Rightarrow> False
       | Some declared \<Rightarrow>
           set (managed_files @ image_deployment_files) \<subseteq> set declared \<and>
           list_all (is_directory tr) managed_directories \<and>
           set (candidate_files tr) = set declared)
   | _ \<Rightarrow> False)"

definition validate_candidate :: "string \<Rightarrow> entry \<Rightarrow> unit helper" where
  "validate_candidate f payload =
     bnd (gets (candidate_of f)) (\<lambda>tr. if candidate_valid tr payload then ret () else fail ''candidate'')"

section \<open>Copying and removing managed paths\<close>

definition below :: "tree \<Rightarrow> string \<Rightarrow> tree" where
  "below tr d = map (\<lambda>(p, n). (drop (length d + 1) p, n)) (filter (\<lambda>(p, n). startswith p (d @ ''/'')) tr)"

definition item_at :: "tree \<Rightarrow> string \<Rightarrow> item option" where
  "item_at tr p = (case map_of tr p of
     None \<Rightarrow> None
   | Some (File c) \<Rightarrow> Some (Plain c)
   | Some Dir \<Rightarrow> Some (Folder (below tr p))
   | Some (Link _) \<Rightarrow> Some Linked)"

definition has_link :: "item \<Rightarrow> bool" where
  "has_link it = (case it of
     Linked \<Rightarrow> True
   | Folder tr \<Rightarrow> list_ex (\<lambda>(p, n). case n of Link _ \<Rightarrow> True | _ \<Rightarrow> False) tr
   | _ \<Rightarrow> False)"

definition leave_debris :: "(item \<Rightarrow> world \<Rightarrow> world) \<Rightarrow> debris \<Rightarrow> world \<Rightarrow> world" where
  "leave_debris put d w = (case d of
     Clean \<Rightarrow> w | Partial_file c \<Rightarrow> put (Plain c) w | Partial_dir tr \<Rightarrow> put (Folder tr) w)"

text \<open>\<open>copytree\<close> refuses an existing target, \<open>copy2\<close> overwrites it.\<close>

definition copy_exact :: "item \<Rightarrow> bool \<Rightarrow> (item \<Rightarrow> world \<Rightarrow> world) \<Rightarrow> unit helper" where
  "copy_exact it target_exists put =
     (if has_link it then fail ''symbolic link''
      else case it of
        Folder tr \<Rightarrow> if target_exists then raise_exn os_error else io (put it) (leave_debris put)
      | Plain c \<Rightarrow> io (put it) (leave_debris put)
      | _ \<Rightarrow> raise_exn os_error)"

definition put_live :: "string \<Rightarrow> item \<Rightarrow> world \<Rightarrow> world" where
  "put_live p it = w_live_update (AList.update p it)"

definition delete_live :: "string \<Rightarrow> world \<Rightarrow> world" where
  "delete_live p = w_live_update (AList.delete p)"

definition remove_exact :: "host \<Rightarrow> string \<Rightarrow> unit helper" where
  "remove_exact h p =
     (if h_linked h p then fail ''symbolic link''
      else bnd (gets (\<lambda>w. map_of (w_live w) p)) (\<lambda>it. case it of
        None \<Rightarrow> ret ()
      | Some Linked \<Rightarrow> fail ''symbolic link''
      | Some (Folder _) \<Rightarrow> io (delete_live p) (leave_debris (put_live p))
      | Some _ \<Rightarrow> io_atomic (delete_live p)))"

definition live_exists :: "string \<Rightarrow> world \<Rightarrow> bool" where
  "live_exists p w = (map_of (w_live w) p \<noteq> None)"

definition replace_live :: "host \<Rightarrow> string \<Rightarrow> item \<Rightarrow> unit helper" where
  "replace_live h p it =
     bnd (remove_exact h p) (\<lambda>_.
     bnd (gets (live_exists p)) (\<lambda>b. copy_exact it b (put_live p)))"

section \<open>Backup, installation, restoration\<close>

definition upd_backup :: "string \<Rightarrow> (backup_dir \<Rightarrow> backup_dir) \<Rightarrow> world \<Rightarrow> world" where
  "upd_backup f g = w_backups_update (\<lambda>bs. case map_of bs f of
     None \<Rightarrow> bs | Some b \<Rightarrow> AList.update f (g b) bs)"

definition empty_backup :: backup_dir where
  "empty_backup = \<lparr>bk_files = [], bk_presence = None, bk_runtime = None, bk_complete = None\<rparr>"

definition put_backup :: "string \<Rightarrow> string \<Rightarrow> item \<Rightarrow> world \<Rightarrow> world" where
  "put_backup f p it = upd_backup f (bk_files_update (AList.update p it))"

definition backup_path :: "string \<Rightarrow> string \<Rightarrow> string helper" where
  "backup_path f p =
     bnd (gets (\<lambda>w. map_of (w_live w) p)) (\<lambda>it. case it of
       None \<Rightarrow> ret ''missing''
     | Some Linked \<Rightarrow> fail ''symbolic link''
     | Some Special \<Rightarrow> fail ''unsupported type''
     | Some (Folder tr) \<Rightarrow> bnd (copy_exact (Folder tr) False (put_backup f p)) (\<lambda>_. ret ''directory'')
     | Some (Plain c) \<Rightarrow> bnd (copy_exact (Plain c) False (put_backup f p)) (\<lambda>_. ret ''file''))"

fun backup_paths :: "string \<Rightarrow> string list \<Rightarrow> entry \<Rightarrow> entry helper" where
  "backup_paths f [] presence = ret presence"
| "backup_paths f (p # ps) presence =
     bnd (backup_path f p) (\<lambda>kind. backup_paths f ps (AList.update p (PStr kind) presence))"

definition backup_runtime :: "string \<Rightarrow> bool helper" where
  "backup_runtime f =
     bnd (gets w_runtime) (\<lambda>r. case r of
       None \<Rightarrow> ret False
     | Some m \<Rightarrow> bnd (io (upd_backup f (bk_runtime_update (\<lambda>_. Some m)))
           (\<lambda>d w. if d = Clean then w else upd_backup f (bk_runtime_update (\<lambda>_. Some Garbage)) w))
         (\<lambda>_. ret True))"

definition make_backup :: "string \<Rightarrow> unit helper" where
  "make_backup f =
     bnd (gets (\<lambda>w. map_of (w_backups w) f)) (\<lambda>b.
     if b \<noteq> None then fail ''backup exists''
     else bnd (io_atomic (w_backups_update (AList.update f empty_backup))) (\<lambda>_.
       bnd (backup_paths f managed_paths []) (\<lambda>presence.
       bnd (io_atomic (upd_backup f (bk_presence_update (\<lambda>_. Some (Json presence))))) (\<lambda>_.
       bnd (backup_runtime f) (\<lambda>present.
         io_atomic (upd_backup f (bk_complete_update (\<lambda>_.
           Some (Json [(''complete'', PBool True), (''runtime_present'', PBool present)])))))))))"

definition backup_is_complete :: "backup_dir \<Rightarrow> bool" where
  "backup_is_complete b = (case (read_json (bk_complete b), read_json (bk_presence b)) of
     (Inr c, Inr p) \<Rightarrow> dget c ''complete'' = PBool True \<and> set (map fst p) = set managed_paths
   | _ \<Rightarrow> False)"

definition backup_complete :: "string \<Rightarrow> world \<Rightarrow> bool" where
  "backup_complete f w = (case map_of (w_backups w) f of None \<Rightarrow> False | Some b \<Rightarrow> backup_is_complete b)"

definition install :: "host \<Rightarrow> string \<Rightarrow> unit helper" where
  "install h f =
     bnd (gets (candidate_of f)) (\<lambda>tr.
       if list_ex (\<lambda>p. item_at tr p = None \<or> item_at tr p = Some Linked) managed_paths
       then fail ''candidate path missing''
       else for_each managed_paths (\<lambda>p. replace_live h p (the (item_at tr p))))"

definition restore_path :: "host \<Rightarrow> backup_dir \<Rightarrow> entry \<Rightarrow> string \<Rightarrow> unit helper" where
  "restore_path h b presence p =
     (let kind = dget presence p in
      if kind \<notin> {PStr ''directory'', PStr ''file'', PStr ''missing''} then fail ''presence record''
      else bnd (remove_exact h p) (\<lambda>_.
        if kind = PStr ''missing'' then ret ()
        else (case map_of (bk_files b) p of
            None \<Rightarrow> fail ''backup missing''
          | Some it \<Rightarrow> bnd (gets (live_exists p)) (\<lambda>x. copy_exact it x (put_live p)))))"

definition restore_runtime :: "backup_dir \<Rightarrow> entry \<Rightarrow> unit helper" where
  "restore_runtime b c =
     (if dget c ''runtime_present'' = PBool True then
        (case bk_runtime b of
           None \<Rightarrow> fail ''runtime backup''
         | Some m \<Rightarrow> io (w_runtime_update (\<lambda>_. Some m))
             (\<lambda>d. if d = Clean then (\<lambda>w. w) else w_runtime_update (\<lambda>_. Some Garbage)))
      else bnd (gets w_runtime) (\<lambda>r.
        when_do (r \<noteq> None) (io_atomic (w_runtime_update (\<lambda>_. None)))))"

definition restore :: "host \<Rightarrow> string \<Rightarrow> unit helper" where
  "restore h f =
     bnd (gets (\<lambda>w. map_of (w_backups w) f)) (\<lambda>ob. case ob of
       None \<Rightarrow> fail ''incomplete backup''
     | Some b \<Rightarrow>
         if \<not> backup_is_complete b then fail ''incomplete backup''
         else bnd (lift_exn (read_json (bk_presence b))) (\<lambda>presence.
           bnd (for_each managed_paths (restore_path h b presence)) (\<lambda>_.
           bnd (lift_exn (read_json (bk_complete b))) (\<lambda>c. restore_runtime b c))))"

section \<open>Applying a transaction\<close>

definition runtime_payload :: "string \<Rightarrow> string \<Rightarrow> string \<Rightarrow> string \<Rightarrow> string \<Rightarrow> entry" where
  "runtime_payload ver python img txn_id mode =
     [(''runtime_version'', PStr ver), (''python'', PStr python), (''image_version'', PStr img),
      (''container_runtime_generation'', PInt 1), (''active_transaction'', PStr txn_id),
      (''mode'', PStr mode)]"

definition clear_pending :: "unit helper" where
  "clear_pending = bnd (gets w_pending) (\<lambda>m. case m of
     Marker_link \<Rightarrow> fail ''pending link''
   | Marker_file \<Rightarrow> io_atomic (w_pending_update (\<lambda>_. No_marker))
   | No_marker \<Rightarrow> ret ())"

definition emit :: "event \<Rightarrow> unit helper" where
  "emit ev = io_atomic (w_events_update (\<lambda>evs. evs @ [ev]))"

definition field_or :: "entry \<Rightarrow> string \<Rightarrow> string \<Rightarrow> string" where
  \<comment> \<open>\<open>str(payload.get(k) or d)\<close>\<close>
  "field_or e k d = py_str (py_or (dget e k) (PStr d))"

definition image_of :: "entry \<Rightarrow> string" where
  "image_of e = py_str (py_or (py_or (dget e ''image_version'') (dget e ''current_version'')) (PStr []))"

definition required_field :: "entry \<Rightarrow> string \<Rightarrow> string helper" where
  \<comment> \<open>\<open>str(payload[k])\<close>\<close>
  "required_field e k = (case map_of e k of None \<Rightarrow> raise_exn (KeyError k) | Some v \<Rightarrow> ret (py_str v))"

definition prepare_python :: "host \<Rightarrow> string \<Rightarrow> entry \<Rightarrow> string helper" where
  "prepare_python h f payload =
     (let old = h_resolve h (field_or payload ''old_python'' (h_executable h)) in
      if \<not> h_is_file h old then fail ''interpreter''
      else bnd (gets (\<lambda>w. (map_of (w_live w) ''requirements.txt'',
                        item_at (candidate_of f w) ''requirements.txt''))) (\<lambda>(cur, new).
        case (cur, new) of
          (Some (Plain a), Some (Plain b)) \<Rightarrow>
            if file_digest a = file_digest b then ret old else lift_exn (h_venv h b)
        | (_, Some (Plain b)) \<Rightarrow> lift_exn (h_venv h b)
        | _ \<Rightarrow> raise_exn os_error))"

definition set_local :: "entry \<Rightarrow> unit helper" where
  "set_local e = modify (w_payload_update (\<lambda>_. Some e))"

definition local_payload :: "entry helper" where
  "local_payload = gets (\<lambda>w. case w_payload w of None \<Rightarrow> [] | Some e \<Rightarrow> e)"

definition advance :: "string \<Rightarrow> entry \<Rightarrow> unit helper" where
  \<comment> \<open>\<open>payload = _update_transaction(file, payload, changes)\<close>\<close>
  "advance f changes =
     bnd local_payload (\<lambda>payload. bnd (update_transaction f payload changes) set_local)"

definition status_stage :: "string \<Rightarrow> string \<Rightarrow> entry" where
  "status_stage status stage = [(''status'', PStr status), (''stage'', PStr stage)]"

definition start_target :: "host \<Rightarrow> string \<Rightarrow> string \<Rightarrow> int helper" where
  "start_target h f python =
     bnd local_payload (\<lambda>payload.
     bnd (required_field payload ''transaction_id'') (\<lambda>txn_id.
     bnd (required_field payload ''target_version'') (\<lambda>ver.
     bnd (write_runtime (runtime_payload ver python (image_of payload) txn_id ''target_monitoring'')) (\<lambda>_.
     bnd clear_pending (\<lambda>_.
     bnd (advance f (status_stage ''monitoring'' ''starting_target'')) (\<lambda>_.
     bnd (emit (Spawned python ''target'')) (\<lambda>_.
     bnd local_payload (\<lambda>payload'.
     bnd (update_transaction f payload' (status_stage ''monitoring'' ''monitoring_target'')) (\<lambda>_.
     bnd (emit (Executed python txn_id)) (\<lambda>_. ret 0))))))))))"

definition apply_body :: "host \<Rightarrow> string \<Rightarrow> int helper" where
  "apply_body h f =
     bnd (get_context h f) (\<lambda>payload.
     bnd (set_local payload) (\<lambda>_.
     if \<not> h_is_pid1 h then fail ''pid 1''
     else if dget payload ''status'' \<noteq> PStr ''prepared'' \<or> dget payload ''stage'' \<noteq> PStr ''waiting_for_shutdown''
     then fail ''not ready''
     else bnd (validate_candidate f payload) (\<lambda>_.
       bnd (advance f (status_stage ''applying'' ''preparing_dependencies'')) (\<lambda>_.
       bnd local_payload (\<lambda>payload'.
       bnd (prepare_python h f payload') (\<lambda>python.
       bnd (advance f [(''stage'', PStr ''backing_up''), (''target_python'', PStr python)]) (\<lambda>_.
       bnd (make_backup f) (\<lambda>_.
       bnd (advance f [(''stage'', PStr ''backup_complete'')]) (\<lambda>_.
       bnd (advance f [(''stage'', PStr ''replacing'')]) (\<lambda>_.
       bnd (install h f) (\<lambda>_. start_target h f python)))))))))))"

definition exn_text :: "exn \<Rightarrow> pyval" where
  "exn_text e = PStr (case e of
     ValueError m \<Rightarrow> m | KeyError m \<Rightarrow> m | RuntimeError m \<Rightarrow> m | OtherError _ m \<Rightarrow> m | _ \<Rightarrow> [])"

definition apply_failed :: "string \<Rightarrow> exn \<Rightarrow> int helper" where
  "apply_failed f e =
     bnd (gets w_payload) (\<lambda>local. case local of
       None \<Rightarrow> ret 1
     | Some payload \<Rightarrow>
         bnd (try_except
           (if raw_str_field payload ''stage'' \<in> {''preparing_dependencies'', ''backing_up''}
            then bnd clear_pending (\<lambda>_. bnd (update_transaction f payload
                   (status_stage ''failed'' ''apply_failed_before_replacement'' @ [(''error'', exn_text e)]))
                   (\<lambda>_. ret ()))
            else bnd (update_transaction f payload
                   (status_stage ''recovery_required'' ''apply_interrupted'' @ [(''error'', exn_text e)]))
                   (\<lambda>_. ret ()))
           (\<lambda>_. ret ())) (\<lambda>_. ret 1))"

definition apply_transaction :: "host \<Rightarrow> string \<Rightarrow> int helper" where
  "apply_transaction h f =
     bnd (modify (w_payload_update (\<lambda>_. None))) (\<lambda>_. try_except (apply_body h f) (apply_failed f))"

section \<open>The watchdog\<close>

definition read_txn :: "string \<Rightarrow> entry helper" where
  "read_txn f = bnd (gets (\<lambda>w. read_json (map_of (w_txns w) f))) lift_exn"

definition read_runtime :: "entry helper" where
  "read_runtime = bnd (gets (\<lambda>w. read_json (w_runtime w))) lift_exn"

definition watch_healthy :: "string \<Rightarrow> string \<Rightarrow> int helper" where
  "watch_healthy f mode =
     bnd (read_txn f) (\<lambda>current.
     bnd read_runtime (\<lambda>runtime.
     bnd (write_runtime (merge_entry [(''active_transaction'', PStr []), (''mode'', PStr ''active'')] runtime)) (\<lambda>_.
     bnd (update_transaction f current
       (if mode = ''target'' then status_stage ''completed'' ''completed'' @ [(''error'', PStr [])]
        else status_stage ''rolled_back'' ''rolled_back'' @ [(''rollback_error'', PStr [])])) (\<lambda>_.
       ret 0))))"

definition watch_unhealthy :: "string \<Rightarrow> string \<Rightarrow> int helper" where
  "watch_unhealthy f mode =
     bnd (read_txn f) (\<lambda>current.
       if mode = ''target'' then
         bnd (update_transaction f current
           (status_stage ''rollback_pending'' ''target_health_failed'' @ [(''error'', PStr ''health'')])) (\<lambda>_.
         bnd (emit Terminated) (\<lambda>_. ret 1))
       else
         bnd (update_transaction f current
           (status_stage ''recovery_required'' ''rollback_health_failed'' @ [(''rollback_error'', PStr ''health'')]))
           (\<lambda>_. ret 1))"

definition watch_transaction :: "host \<Rightarrow> string \<Rightarrow> string \<Rightarrow> int helper" where
  "watch_transaction h f mode =
     try_except
       (bnd (get_context h f) (\<lambda>payload.
        bnd (required_field payload ''transaction_id'') (\<lambda>txn_id.
        bnd (lift_exn (py_iter (py_or (dget payload ''health_urls'') (PList [])))) (\<lambda>urls.
        bnd (if mode = ''target'' then required_field payload ''target_version''
             else if mode = ''rollback'' then required_field payload ''current_version''
             else fail ''mode'') (\<lambda>expected.
          if h_healthy h (map py_str urls) expected txn_id then watch_healthy f mode
          else watch_unhealthy f mode)))))
       (\<lambda>_. ret 1)"

section \<open>Recovery\<close>

definition monitor_rollback :: "host \<Rightarrow> string \<Rightarrow> entry \<Rightarrow> bool helper" where
  "monitor_rollback h f payload =
     bnd (gets w_runtime) (\<lambda>marker.
     bnd (case marker of
            None \<Rightarrow> ret (field_or payload ''old_python'' (h_executable h), image_of payload)
          | Some m \<Rightarrow> bnd (lift_exn (read_json (Some m))) (\<lambda>runtime.
              ret (field_or runtime ''python'' (field_or payload ''old_python'' (h_executable h)),
                   field_or runtime ''image_version'' (image_of payload)))) (\<lambda>(python, img).
     bnd (required_field payload ''current_version'') (\<lambda>ver.
     bnd (required_field payload ''transaction_id'') (\<lambda>txn_id.
     bnd (write_runtime (runtime_payload ver python img txn_id ''rollback_monitoring'')) (\<lambda>_.
     bnd clear_pending (\<lambda>_.
     bnd (update_transaction f payload (status_stage ''rolling_back'' ''monitoring_rollback'')) (\<lambda>_.
     bnd (emit (Spawned python ''rollback'')) (\<lambda>_. ret True))))))))"

definition restore_for_recovery :: "host \<Rightarrow> string \<Rightarrow> bool helper" where
  "restore_for_recovery h f =
     bnd (get_context h f) (\<lambda>payload.
     bnd (gets (backup_complete f)) (\<lambda>ok.
       if \<not> ok then
         bnd (update_transaction f payload
           (status_stage ''recovery_required'' ''backup_incomplete'' @ [(''rollback_error'', PStr ''incomplete'')]))
           (\<lambda>_. ret False)
       else
         bnd (update_transaction f payload (status_stage ''rolling_back'' ''restoring_backup'')) (\<lambda>payload'.
         bnd (restore h f) (\<lambda>_. monitor_rollback h f payload'))))"

definition recoverable_status :: "pyval \<Rightarrow> bool" where
  \<comment> \<open>not in the set of terminal statuses; a list or a dictionary is not hashable\<close>
  "recoverable_status v = (case v of
     PStr s \<Rightarrow> s \<notin> set terminal_statuses | PList _ \<Rightarrow> False | PDict _ \<Rightarrow> False | _ \<Rightarrow> True)"

definition open_transactions :: "host \<Rightarrow> world \<Rightarrow> (rat \<times> string \<times> entry) list" where
  "open_transactions h w = concat (map (\<lambda>(f, j). case j of
     Garbage \<Rightarrow> []
   | Json payload \<Rightarrow> if \<not> recoverable_status (dget payload ''status'') then []
       else (case h_float h (py_or (dget payload ''created_at'') (PInt 0)) of None \<Rightarrow> [] | Some t \<Rightarrow> [(t, f, payload)])) (w_txns w))"

fun newest :: "(rat \<times> 'a) \<Rightarrow> (rat \<times> 'a) list \<Rightarrow> 'a" where
  "newest x [] = snd x"
| "newest x (y # ys) = newest (if fst x < fst y then y else x) ys"

definition before_replacement :: "string list" where
  "before_replacement = [''prepared'', ''waiting_for_shutdown'', ''preparing_dependencies'', ''backing_up'',
     ''apply_failed_before_replacement'']"

definition recover_newest :: "host \<Rightarrow> string \<Rightarrow> entry \<Rightarrow> int helper" where
  "recover_newest h f payload =
     try_except
       (if raw_str_field payload ''stage'' \<in> set before_replacement then
          bnd clear_pending (\<lambda>_.
          bnd (update_transaction f payload
            (status_stage ''failed'' ''interrupted_before_replacement'' @ [(''error'', PStr ''restarted'')]))
            (\<lambda>_. ret 0))
        else bnd (restore_for_recovery h f) (\<lambda>ok. ret (if ok then 0 else 1)))
       (\<lambda>e. bnd (try_except
           (bnd (update_transaction f payload
             (status_stage ''recovery_required'' ''restore_failed'' @ [(''rollback_error'', exn_text e)]))
             (\<lambda>_. ret ()))
           (\<lambda>_. ret ())) (\<lambda>_. ret 1))"

definition recover_transactions :: "host \<Rightarrow> int helper" where
  "recover_transactions h =
     (if h_linked h ''data/update/transactions'' then ret 1
      else bnd (gets (open_transactions h)) (\<lambda>cs. case cs of
        [] \<Rightarrow> ret 0
      | c # cs' \<Rightarrow> (case newest c cs' of (f, payload) \<Rightarrow> recover_newest h f payload)))"

section \<open>Starting the runtime\<close>

definition runtime_python :: "host \<Rightarrow> world \<Rightarrow> string" where
  "runtime_python h w = (case w_runtime w of
     Some (Json payload) \<Rightarrow>
       (let candidate = h_resolve h (raw_str_field payload ''python'') in
        if h_is_file h candidate \<and> py_str (dget payload ''container_runtime_generation'') = str_int 1
        then candidate else h_executable h)
   | _ \<Rightarrow> h_executable h)"

text \<open>The interpreter, the transaction id and the image version \<open>run_runtime\<close> starts with.\<close>

definition run_runtime :: "host \<Rightarrow> string \<Rightarrow> world \<Rightarrow> exn + (string \<times> string \<times> string)" where
  "run_runtime h img w = (case w_runtime w of
     None \<Rightarrow> Inr (h_executable h, [], py_strip img)
   | Some m \<Rightarrow> sbind (read_json (Some m)) (\<lambda>payload.
       let candidate = h_resolve h (raw_str_field payload ''python'');
           txn_id = raw_str_field payload ''active_transaction'' in
       if py_str (dget payload ''container_runtime_generation'') \<noteq> str_int 1
       then Inl (helper_error ''generation'')
       else if \<not> h_is_file h candidate then Inl (helper_error ''interpreter'')
       else if txn_id \<noteq> [] \<and> \<not> is_transaction_id txn_id then Inl (helper_error ''transaction id'')
       else Inr (candidate, txn_id, field_or payload ''image_version'' (py_strip img))))"

end
