(* ===== verification/Update_Proofs.thy ===== *)
theory Update_Proofs
  imports Update_Helper
begin

text \<open>
  Hoare triples for the update helper and the invariant that makes an interrupted update
  recoverable: \<open>recoverable\<close> says that the managed paths are the original ones, or a complete
  backup of them exists and the transaction is at a stage that restores it.
\<close>

section \<open>Triples\<close>

text \<open>\<open>triple P m Q E\<close>: from \<open>P\<close>, a normal return establishes \<open>Q\<close> and an exception \<open>E\<close>.\<close>

definition triple ::
  "('s \<Rightarrow> bool) \<Rightarrow> ('s, 'a) action \<Rightarrow> ('a \<Rightarrow> 's \<Rightarrow> bool) \<Rightarrow> (exn \<Rightarrow> 's \<Rightarrow> bool) \<Rightarrow> bool" where
  "triple P m Q E \<longleftrightarrow> (\<forall>w. P w \<longrightarrow> (case m w of (Inl e, w') \<Rightarrow> E e w' | (Inr x, w') \<Rightarrow> Q x w'))"

lemma triple_ret [intro]: "(\<And>w. P w \<Longrightarrow> Q x w) \<Longrightarrow> triple P (ret x) Q E"
  by (simp add: triple_def ret_def)

lemma triple_raise [intro]: "(\<And>w. P w \<Longrightarrow> E e w) \<Longrightarrow> triple P (raise_exn e) Q E"
  by (simp add: triple_def raise_exn_def)

lemma triple_fail [intro]: "(\<And>w e. P w \<Longrightarrow> E e w) \<Longrightarrow> triple P (fail m) Q E"
  by (simp add: triple_def raise_exn_def fail_def)

lemma triple_gets: "(\<And>w. P w \<Longrightarrow> Q (g w) w) \<Longrightarrow> triple P (gets g) Q E"
  by (simp add: triple_def gets_def)

lemma triple_lift: "(\<And>w x. P w \<Longrightarrow> r = Inr x \<Longrightarrow> Q x w) \<Longrightarrow> (\<And>w e. P w \<Longrightarrow> r = Inl e \<Longrightarrow> E e w) \<Longrightarrow>
    triple P (lift_exn r) Q E"
  by (cases r) (auto simp: triple_def lift_exn_def)

lemma triple_modify: "(\<And>w. P w \<Longrightarrow> Q () (g w)) \<Longrightarrow> triple P (modify g) Q E"
  by (simp add: triple_def modify_def)

lemma triple_bnd:
  "triple P m R E \<Longrightarrow> (\<And>x. triple (R x) (k x) Q E) \<Longrightarrow> triple P (bnd m k) Q E"
  by (fastforce simp: triple_def bnd_def split: prod.splits sum.splits)

lemma triple_weaken:
  "triple P m Q E \<Longrightarrow> (\<And>w. P' w \<Longrightarrow> P w) \<Longrightarrow> (\<And>x w. Q x w \<Longrightarrow> Q' x w) \<Longrightarrow> (\<And>e w. E e w \<Longrightarrow> E' e w) \<Longrightarrow>
    triple P' m Q' E'"
  by (fastforce simp: triple_def split: prod.splits sum.splits)

lemma triple_pre: "triple P m Q E \<Longrightarrow> (\<And>w. P' w \<Longrightarrow> P w) \<Longrightarrow> triple P' m Q E"
  by (rule triple_weaken)

lemma triple_conj:
  "triple P m Q E \<Longrightarrow> triple P' m Q' E' \<Longrightarrow>
    triple (\<lambda>w. P w \<and> P' w) m (\<lambda>x w. Q x w \<and> Q' x w) (\<lambda>e w. E e w \<and> E' e w)"
  by (fastforce simp: triple_def split: prod.splits sum.splits)

lemma triple_when: "(b \<Longrightarrow> triple P m (\<lambda>_. Q) E) \<Longrightarrow> (\<And>w. \<not> b \<Longrightarrow> P w \<Longrightarrow> Q w) \<Longrightarrow>
    triple P (when_do b m) (\<lambda>_. Q) E"
  by (auto simp: when_do_def)

lemma triple_if: "(b \<Longrightarrow> triple P m Q E) \<Longrightarrow> (\<not> b \<Longrightarrow> triple P n Q E) \<Longrightarrow> triple P (if b then m else n) Q E"
  by simp

lemma triple_pure: "(\<And>w. P w \<Longrightarrow> b) \<Longrightarrow> (b \<Longrightarrow> triple P m Q E) \<Longrightarrow> triple P m Q E"
  by (auto simp: triple_def)

lemma triple_try:
  assumes "triple P m Q E" "\<And>e. e \<noteq> killed \<Longrightarrow> triple (E e) (c e) Q E'" "\<And>w. E killed w \<Longrightarrow> E' killed w"
  shows "triple P (try_except m c) Q E'"
  using assms by (fastforce simp: triple_def try_except_def split: prod.splits sum.splits)

lemma triple_for_each:
  "(\<And>x. x \<in> set xs \<Longrightarrow> triple P (m x) (\<lambda>_. P) E) \<Longrightarrow> triple P (for_each xs m) (\<lambda>_. P) E"
  by (induction xs) (auto intro: triple_bnd)

lemma triple_io:
  assumes "\<And>w fs. P w \<Longrightarrow> Q (eff (w\<lparr>w_fates := fs\<rparr>))"
    and "\<And>w fs d e. P w \<Longrightarrow> E e (tear d (w\<lparr>w_fates := fs\<rparr>))"
  shows "triple P (io eff tear) (\<lambda>_. Q) E"
  unfolding triple_def
proof (intro allI impI)
  fix w assume w: "P w"
  have same: "w_fates w = [] \<Longrightarrow> w\<lparr>w_fates := []\<rparr> = w" by (cases w) simp
  have "Q (eff w)" if "w_fates w = []"
    using assms(1) [OF w, of "[]"] unfolding same [OF that] .
  then show "case io eff tear w of (Inl e, w') \<Rightarrow> E e w' | (Inr x, w') \<Rightarrow> Q w'"
    using assms(1,2) [OF w] by (auto simp: io_def Let_def split: list.splits fate.splits)
qed

lemma triple_io_atomic:
  assumes "\<And>w fs. P w \<Longrightarrow> Q (eff (w\<lparr>w_fates := fs\<rparr>))"
    and "\<And>w fs e. P w \<Longrightarrow> E e (w\<lparr>w_fates := fs\<rparr>)"
  shows "triple P (io_atomic eff) (\<lambda>_. Q) E"
  unfolding io_atomic_def by (rule triple_io) (use assms in auto)

text \<open>A step that runs to its end when no fate is left.\<close>

lemma triple_io_fine:
  assumes "\<And>w. P w \<Longrightarrow> w_fates w = [] \<Longrightarrow> Q (eff w)" "\<And>w. P w \<Longrightarrow> w_fates w = []"
  shows "triple P (io eff tear) (\<lambda>_. Q) E"
  using assms by (auto simp: triple_def io_def)

lemmas triple_intros = triple_bnd triple_ret triple_raise triple_fail

section \<open>Transaction payloads\<close>

lemma dget_merge:
  "distinct (map fst cs) \<Longrightarrow>
     dget (merge_entry cs p) k = (case map_of cs k of None \<Rightarrow> dget p k | Some v \<Rightarrow> v)"
proof (induction cs arbitrary: p)
  case (Cons c cs)
  have "map_of cs (fst c) = None"
    using Cons.prems by (simp add: map_of_eq_None_iff)
  with Cons show ?case
    by (cases c) (auto simp: merge_entry_def split: option.splits)
qed (simp add: merge_entry_def)

definition own_keys :: "entry \<Rightarrow> bool" where
  \<comment> \<open>the changes the helper makes leave the identity of a transaction alone\<close>
  "own_keys cs \<longleftrightarrow> distinct (map fst cs) \<and>
     set (map fst cs) \<subseteq> {''status'', ''stage'', ''error'', ''rollback_error'', ''target_python''}"

lemma merge_own:
  assumes "own_keys cs" "k \<notin> {''status'', ''stage'', ''error'', ''rollback_error'', ''target_python''}"
  shows "dget (merge_entry cs p) k = dget p k"
proof -
  have "map_of cs k = None"
    using assms by (auto simp: own_keys_def map_of_eq_None_iff)
  with assms(1) show ?thesis by (simp add: own_keys_def dget_merge)
qed

lemma context_merge: "own_keys cs \<Longrightarrow> check_context h f (merge_entry cs p) = check_context h f p"
  by (simp add: check_context_def raw_str_field_def merge_own)

lemma own_keys_simps [simp]:
  "own_keys (status_stage s t)" "own_keys (status_stage s t @ [(''error'', v)])"
  "own_keys (status_stage s t @ [(''rollback_error'', v)])" "own_keys [(''stage'', v)]"
  "own_keys [(''stage'', v), (''target_python'', u)]"
  by (simp_all add: own_keys_def status_stage_def)

definition late :: "entry \<Rightarrow> bool" where
  \<comment> \<open>recovery restores the backup\<close>
  "late p \<longleftrightarrow> recoverable_status (dget p ''status'') \<and> raw_str_field p ''stage'' \<notin> set before_replacement"

section \<open>The invariant\<close>

definition txn_ok :: "host \<Rightarrow> string \<Rightarrow> entry \<Rightarrow> bool" where
  "txn_ok h f p \<longleftrightarrow> check_context h f p \<and> h_float h (py_or (dget p ''created_at'') (PInt 0)) \<noteq> None"

lemma txn_ok_merge [simp]: "own_keys cs \<Longrightarrow> txn_ok h f (merge_entry cs p) = txn_ok h f p"
  by (simp add: txn_ok_def context_merge merge_own)

definition others_closed :: "string \<Rightarrow> world \<Rightarrow> bool" where
  "others_closed f w \<longleftrightarrow> distinct (map fst (w_txns w)) \<and>
     (\<forall>(g, j) \<in> set (w_txns w). g \<noteq> f \<longrightarrow>
        (\<forall>q. j = Json q \<longrightarrow> \<not> recoverable_status (dget q ''status'')))"

definition has_txn :: "host \<Rightarrow> string \<Rightarrow> (entry \<Rightarrow> bool) \<Rightarrow> world \<Rightarrow> bool" where
  "has_txn h f T w \<longleftrightarrow> others_closed f w \<and>
     (\<exists>p. map_of (w_txns w) f = Some (Json p) \<and> txn_ok h f p \<and> T p)"

type_synonym original = "string \<Rightarrow> item option"

definition same_live :: "original \<Rightarrow> world \<Rightarrow> bool" where
  "same_live L w \<longleftrightarrow> (\<forall>p \<in> set managed_paths. map_of (w_live w) p = L p)"

definition kind_of :: "item \<Rightarrow> string" where
  "kind_of it = (case it of Folder _ \<Rightarrow> ''directory'' | _ \<Rightarrow> ''file'')"

definition recorded :: "original \<Rightarrow> (string \<times> item) list \<Rightarrow> entry \<Rightarrow> string \<Rightarrow> bool" where
  "recorded L files pres p \<longleftrightarrow> (case L p of
     None \<Rightarrow> dget pres p = PStr ''missing''
   | Some it \<Rightarrow> \<not> has_link it \<and> it \<noteq> Special \<and> dget pres p = PStr (kind_of it) \<and>
       map_of files p = Some it)"

definition faithful :: "original \<Rightarrow> json_file option \<Rightarrow> backup_dir \<Rightarrow> bool" where
  "faithful L R b \<longleftrightarrow> (\<exists>pres c. bk_presence b = Some (Json pres) \<and> bk_complete b = Some (Json c) \<and>
     (\<forall>p \<in> set managed_paths. recorded L (bk_files b) pres p) \<and>
     dget c ''runtime_present'' = PBool (R \<noteq> None) \<and> (R \<noteq> None \<longrightarrow> bk_runtime b = R))"

definition honest :: "string \<Rightarrow> original \<Rightarrow> json_file option \<Rightarrow> world \<Rightarrow> bool" where
  "honest f L R w \<longleftrightarrow> (\<forall>b. map_of (w_backups w) f = Some b \<and> backup_is_complete b \<longrightarrow> faithful L R b)"

definition untouched :: "host \<Rightarrow> string \<Rightarrow> original \<Rightarrow> json_file option \<Rightarrow> world \<Rightarrow> bool" where
  "untouched h f L R w \<longleftrightarrow> has_txn h f (\<lambda>_. True) w \<and> honest f L R w \<and> same_live L w"

definition no_live_link :: "world \<Rightarrow> bool" where
  "no_live_link w \<longleftrightarrow> (\<forall>p \<in> set managed_paths. map_of (w_live w) p \<noteq> Some Linked)"

definition exposed :: "host \<Rightarrow> string \<Rightarrow> original \<Rightarrow> json_file option \<Rightarrow> world \<Rightarrow> bool" where
  "exposed h f L R w \<longleftrightarrow> has_txn h f late w \<and> honest f L R w \<and> backup_complete f w \<and> no_live_link w"

definition recoverable :: "host \<Rightarrow> string \<Rightarrow> original \<Rightarrow> json_file option \<Rightarrow> world \<Rightarrow> bool" where
  "recoverable h f L R w \<longleftrightarrow> untouched h f L R w \<or> exposed h f L R w"

lemmas state_defs = untouched_def exposed_def recoverable_def has_txn_def others_closed_def honest_def
  same_live_def no_live_link_def backup_complete_def

lemma frame_fates [simp]:
  "untouched h f L R (w_fates_update x w) = untouched h f L R w"
  "exposed h f L R (w_fates_update x w) = exposed h f L R w"
  "recoverable h f L R (w_fates_update x w) = recoverable h f L R w"
  "backup_complete f (w_fates_update x w) = backup_complete f w"
  by (simp_all add: state_defs)

lemma frame_pending [simp]:
  "untouched h f L R (w_pending_update x w) = untouched h f L R w"
  "exposed h f L R (w_pending_update x w) = exposed h f L R w"
  "recoverable h f L R (w_pending_update x w) = recoverable h f L R w"
  "backup_complete f (w_pending_update x w) = backup_complete f w"
  by (simp_all add: state_defs)

lemma frame_runtime [simp]:
  "untouched h f L R (w_runtime_update x w) = untouched h f L R w"
  "exposed h f L R (w_runtime_update x w) = exposed h f L R w"
  "recoverable h f L R (w_runtime_update x w) = recoverable h f L R w"
  "backup_complete f (w_runtime_update x w) = backup_complete f w"
  by (simp_all add: state_defs)

lemma frame_events [simp]:
  "untouched h f L R (w_events_update x w) = untouched h f L R w"
  "exposed h f L R (w_events_update x w) = exposed h f L R w"
  "recoverable h f L R (w_events_update x w) = recoverable h f L R w"
  "backup_complete f (w_events_update x w) = backup_complete f w"
  by (simp_all add: state_defs)

lemma frame_payload [simp]:
  "untouched h f L R (w_payload_update x w) = untouched h f L R w"
  "exposed h f L R (w_payload_update x w) = exposed h f L R w"
  "recoverable h f L R (w_payload_update x w) = recoverable h f L R w"
  "backup_complete f (w_payload_update x w) = backup_complete f w"
  by (simp_all add: state_defs)

lemma others_closed_write: "others_closed f w \<Longrightarrow> others_closed f (w_txns_update (AList.update f j) w)"
proof -
  have "set (AList.update f j xs) \<subseteq> insert (f, j) (set xs)" for xs :: "(string \<times> json_file) list"
    by (induction xs) auto
  then show "others_closed f w \<Longrightarrow> ?thesis"
    by (fastforce simp: others_closed_def distinct_update)
qed

lemma has_txn_write:
  "has_txn h f T w \<Longrightarrow> txn_ok h f new \<Longrightarrow> T' new \<Longrightarrow>
     has_txn h f T' (w_txns_update (AList.update f (Json new)) w)"
  by (simp add: has_txn_def others_closed_write)

lemma write_untouched:
  "untouched h f L R w \<Longrightarrow> txn_ok h f new \<Longrightarrow> untouched h f L R (w_txns_update (AList.update f (Json new)) w)"
  by (auto simp: untouched_def honest_def same_live_def intro: has_txn_write)

lemma untouched_exposed:
  "untouched h f L R w \<Longrightarrow> backup_complete f w \<Longrightarrow> has_txn h f late w \<Longrightarrow> exposed h f L R w"
  by (fastforce simp: untouched_def exposed_def honest_def backup_complete_def faithful_def
      same_live_def no_live_link_def recorded_def has_link_def split: option.splits item.splits)

lemma no_link_of_complete:
  assumes "recoverable h f L R w" "backup_complete f w"
  shows "no_live_link w"
proof (cases "exposed h f L R w")
  case False
  with assms have u: "untouched h f L R w" by (simp add: recoverable_def)
  obtain b where b: "map_of (w_backups w) f = Some b" "backup_is_complete b"
    using assms(2) by (auto simp: backup_complete_def split: option.splits)
  then have "faithful L R b" using u by (simp add: untouched_def honest_def)
  then have "\<forall>p \<in> set managed_paths. L p \<noteq> Some Linked"
    by (force simp: faithful_def recorded_def has_link_def)
  with u show ?thesis by (simp add: untouched_def same_live_def no_live_link_def)
qed (simp add: exposed_def)

lemma write_exposed:
  assumes "recoverable h f L R w" "backup_complete f w" "txn_ok h f new" "late new"
  shows "exposed h f L R (w_txns_update (AList.update f (Json new)) w)"
proof -
  have "has_txn h f (\<lambda>_. True) w" "honest f L R w"
    using assms(1) by (auto simp: recoverable_def untouched_def exposed_def has_txn_def)
  moreover have "no_live_link w"
    using no_link_of_complete [OF assms(1,2)] .
  ultimately show ?thesis
    using assms(2-4) has_txn_write [of h f "\<lambda>_. True" w new late]
    by (simp add: exposed_def honest_def backup_complete_def no_live_link_def)
qed

lemma write_recoverable:
  assumes "recoverable h f L R w" "txn_ok h f new" "late new"
  shows "recoverable h f L R (w_txns_update (AList.update f (Json new)) w)"
proof (cases "untouched h f L R w")
  case True
  then show ?thesis using write_untouched assms(2) by (simp add: recoverable_def)
next
  case False
  with assms(1) have "backup_complete f w" by (simp add: recoverable_def exposed_def)
  then show ?thesis using write_exposed assms by (simp add: recoverable_def)
qed

section \<open>Steps on the live tree\<close>

lemma has_txn_frame [simp]:
  "has_txn h f T (w_live_update g w) = has_txn h f T w"
  "has_txn h f T (w_backups_update g' w) = has_txn h f T w"
  "has_txn h f T (w_fates_update g'' w) = has_txn h f T w"
  by (simp_all add: has_txn_def others_closed_def)

lemmas exposed_defs = exposed_def honest_def no_live_link_def backup_complete_def

lemma exposed_live:
  assumes "exposed h f L R w" "\<forall>p \<in> set managed_paths. map_of lv p \<noteq> Some Linked"
  shows "exposed h f L R (w\<lparr>w_live := lv\<rparr>)"
  using assms by (simp add: exposed_defs)

lemma exposed_put: "exposed h f L R w \<Longrightarrow> it \<noteq> Linked \<Longrightarrow> exposed h f L R (put_live p it w)"
  by (auto simp: exposed_defs put_live_def)

lemma exposed_delete: "exposed h f L R w \<Longrightarrow> exposed h f L R (delete_live p w)"
  by (auto simp: exposed_defs delete_live_def)

lemma exposed_debris: "exposed h f L R w \<Longrightarrow> exposed h f L R (leave_debris (put_live p) d w)"
  by (cases d) (simp_all add: leave_debris_def exposed_put)

lemma payload_live [simp]:
  "w_payload (put_live p it w) = w_payload w" "w_payload (delete_live p w) = w_payload w"
  "w_payload (leave_debris (put_live p) d w) = w_payload w"
  by (simp_all add: put_live_def delete_live_def leave_debris_def split: debris.splits)

text \<open>\<open>T\<close> is any condition on the local variable.\<close>

definition exposed_with where
  "exposed_with h f L R T w \<longleftrightarrow> exposed h f L R w \<and> T (w_payload w)"

lemma remove_exact_exposed:
  "triple (exposed_with h f L R T) (remove_exact h p) (\<lambda>_. exposed_with h f L R T) (\<lambda>_. exposed_with h f L R T)"
  unfolding remove_exact_def
  by (intro triple_if triple_fail triple_bnd [OF triple_gets [where Q = "\<lambda>_. exposed_with h f L R T"]])
    (auto simp: exposed_with_def exposed_delete exposed_debris
      intro!: triple_ret triple_fail triple_io triple_io_atomic exposed_delete split: option.splits item.splits)

lemma copy_live_exposed:
  "triple (exposed_with h f L R T) (copy_exact it b (put_live p)) (\<lambda>_. exposed_with h f L R T)
     (\<lambda>_. exposed_with h f L R T)"
  by (auto simp: copy_exact_def has_link_def exposed_with_def exposed_put exposed_debris
      intro!: triple_fail triple_raise triple_io split: item.splits)

lemma replace_live_exposed:
  "triple (exposed_with h f L R T) (replace_live h p it) (\<lambda>_. exposed_with h f L R T) (\<lambda>_. exposed_with h f L R T)"
  unfolding replace_live_def
  by (intro triple_bnd [OF remove_exact_exposed]
      triple_bnd [OF triple_gets [where Q = "\<lambda>_. exposed_with h f L R T"]] copy_live_exposed)

lemma install_exposed:
  "triple (exposed_with h f L R T) (install h f) (\<lambda>_. exposed_with h f L R T) (\<lambda>_. exposed_with h f L R T)"
  unfolding install_def
  by (intro triple_bnd [OF triple_gets [where Q = "\<lambda>_. exposed_with h f L R T"]] triple_if triple_fail
      triple_for_each replace_live_exposed) auto

section \<open>Backup\<close>

text \<open>
  While the backup grows: the paths in \<open>D\<close> are recorded, the completion mark is missing.
\<close>

definition growing where
  "growing h f L R lp D pres w \<longleftrightarrow> has_txn h f (\<lambda>_. True) w \<and> same_live L w \<and> w_runtime w = R \<and>
     w_payload w = lp \<and> set (map fst pres) = D \<and>
     (\<exists>b. map_of (w_backups w) f = Some b \<and> bk_complete b = None \<and>
        (\<forall>p \<in> D. recorded L (bk_files b) pres p))"

definition backing where
  "backing h f L R lp w \<longleftrightarrow> untouched h f L R w \<and> w_payload w = lp"

lemma incomplete_untouched:
  "has_txn h f (\<lambda>_. True) w \<Longrightarrow> same_live L w \<Longrightarrow> map_of (w_backups w) f = Some b \<Longrightarrow> bk_complete b = None \<Longrightarrow>
     untouched h f L R w"
  by (simp add: untouched_def honest_def backup_is_complete_def read_json_def)

lemma growing_backing: "growing h f L R lp D pres w \<Longrightarrow> backing h f L R lp w"
  by (auto simp: growing_def backing_def incomplete_untouched)

lemma growing_frame [simp]:
  "growing h f L R lp D pres (w\<lparr>w_fates := x\<rparr>) = growing h f L R lp D pres w"
  by (simp add: growing_def has_txn_def others_closed_def same_live_def)

lemma backing_frame [simp]: "backing h f L R lp (w\<lparr>w_fates := x\<rparr>) = backing h f L R lp w"
  by (simp add: backing_def)

lemma upd_backup_lookup: "map_of (w_backups w) f = Some b \<Longrightarrow>
    upd_backup f g w = w\<lparr>w_backups := AList.update f (g b) (w_backups w)\<rparr>"
  by (simp add: upd_backup_def)

lemma growing_any:
  assumes "growing h f L R lp D pres w"
  shows "backing h f L R lp (upd_backup f (bk_files_update g) w)"
    "backing h f L R lp (upd_backup f (bk_presence_update g') w)"
    "backing h f L R lp (upd_backup f (bk_runtime_update g'') w)"
proof -
  obtain b where b: "map_of (w_backups w) f = Some b" "bk_complete b = None"
    using assms by (auto simp: growing_def)
  show "backing h f L R lp (upd_backup f (bk_files_update g) w)"
    "backing h f L R lp (upd_backup f (bk_presence_update g') w)"
    "backing h f L R lp (upd_backup f (bk_runtime_update g'') w)"
    using assms b unfolding upd_backup_lookup [OF b(1)] backing_def growing_def
    by (auto intro!: incomplete_untouched simp: has_txn_def others_closed_def same_live_def)
qed

lemma backing_debris:
  "growing h f L R lp D pres w \<Longrightarrow> backing h f L R lp (leave_debris (put_backup f p) d w)"
  by (cases d) (simp_all add: leave_debris_def put_backup_def growing_any growing_backing)

lemma growing_put:
  assumes g: "growing h f L R lp D pres w" and p: "p \<notin> D" "p \<in> set managed_paths"
    "map_of (w_live w) p = Some it" "\<not> has_link it" "it \<noteq> Special"
  shows "growing h f L R lp (insert p D) (AList.update p (PStr (kind_of it)) pres) (put_backup f p it w)"
proof -
  obtain b where b: "map_of (w_backups w) f = Some b" "bk_complete b = None"
    "\<forall>p \<in> D. recorded L (bk_files b) pres p"
    using g by (auto simp: growing_def)
  have L: "L p = Some it"
    using g p(2,3) by (simp add: growing_def same_live_def)
  have "\<forall>q \<in> D. recorded L (AList.update p it (bk_files b)) (AList.update p (PStr (kind_of it)) pres) q"
    using b(3) p(1) by (fastforce simp: recorded_def split: option.splits)
  moreover have "recorded L (AList.update p it (bk_files b)) (AList.update p (PStr (kind_of it)) pres) p"
    using L p(4,5) by (simp add: recorded_def)
  ultimately show ?thesis
    using g b(1,2) unfolding put_backup_def upd_backup_lookup [OF b(1)]
    by (simp add: growing_def same_live_def dom_update [simplified])
qed

lemma growing_missing:
  assumes g: "growing h f L R lp D pres w" and p: "p \<notin> D" "p \<in> set managed_paths"
    "map_of (w_live w) p = None"
  shows "growing h f L R lp (insert p D) (AList.update p (PStr ''missing'') pres) w"
proof -
  have L: "L p = None"
    using g p(2,3) by (simp add: growing_def same_live_def)
  have "recorded L fs (AList.update p (PStr ''missing'') pres) q"
    if "q = p \<or> q \<in> D \<and> recorded L fs pres q" for fs q
    using that L p(1) by (fastforce simp: recorded_def split: option.splits)
  with g show ?thesis
    by (fastforce simp: growing_def dom_update [simplified])
qed

lemma backup_path_growing:
  assumes "p \<notin> D" "p \<in> set managed_paths"
  shows "triple (growing h f L R lp D pres) (backup_path f p)
    (\<lambda>kind. growing h f L R lp (insert p D) (AList.update p (PStr kind) pres)) (\<lambda>_. backing h f L R lp)"
proof -
  have copy: "triple (\<lambda>w. growing h f L R lp D pres w \<and> map_of (w_live w) p = Some it)
      (bnd (copy_exact it False (put_backup f p)) (\<lambda>_. ret (kind_of it)))
      (\<lambda>kind. growing h f L R lp (insert p D) (AList.update p (PStr kind) pres)) (\<lambda>_. backing h f L R lp)"
    if "it \<noteq> Special" for it
  proof (rule triple_bnd)
    show "triple (\<lambda>w. growing h f L R lp D pres w \<and> map_of (w_live w) p = Some it)
      (copy_exact it False (put_backup f p))
      (\<lambda>_. growing h f L R lp (insert p D) (AList.update p (PStr (kind_of it)) pres)) (\<lambda>_. backing h f L R lp)"
      using assms that unfolding copy_exact_def
      by (cases it) (auto simp: growing_backing backing_debris intro!: triple_fail triple_io triple_raise growing_put)
  qed auto
  show ?thesis
    unfolding backup_path_def
  proof (rule triple_bnd [OF triple_gets [where
          Q = "\<lambda>it w. growing h f L R lp D pres w \<and> map_of (w_live w) p = it"]])
    fix it
    show "triple (\<lambda>w. growing h f L R lp D pres w \<and> map_of (w_live w) p = it)
       (case it of None \<Rightarrow> ret ''missing'' | Some Linked \<Rightarrow> fail ''symbolic link''
        | Some Special \<Rightarrow> fail ''unsupported type''
        | Some (Folder tr) \<Rightarrow> bnd (copy_exact (Folder tr) False (put_backup f p)) (\<lambda>_. ret ''directory'')
        | Some (Plain c) \<Rightarrow> bnd (copy_exact (Plain c) False (put_backup f p)) (\<lambda>_. ret ''file''))
       (\<lambda>kind. growing h f L R lp (insert p D) (AList.update p (PStr kind) pres)) (\<lambda>_. backing h f L R lp)"
      using copy [of "Folder _"] copy [of "Plain _"] assms
      by (auto simp: kind_of_def growing_missing growing_backing intro!: triple_ret triple_fail
          split: option.splits item.splits)
  qed simp
qed

lemma backup_paths_growing:
  "distinct ps \<Longrightarrow> set ps \<inter> D = {} \<Longrightarrow> set ps \<subseteq> set managed_paths \<Longrightarrow>
   triple (growing h f L R lp D pres) (backup_paths f ps pres)
     (\<lambda>pres'. growing h f L R lp (D \<union> set ps) pres') (\<lambda>_. backing h f L R lp)"
proof (induction ps arbitrary: D pres)
  case Nil
  then show ?case by (auto intro!: triple_ret)
next
  case (Cons p ps)
  have "triple (growing h f L R lp (insert p D) pres1) (backup_paths f ps pres1)
     (\<lambda>pres'. growing h f L R lp (insert p D \<union> set ps) pres') (\<lambda>_. backing h f L R lp)" for pres1
    by (rule Cons.IH) (use Cons.prems in auto)
  moreover have "insert p D \<union> set ps = D \<union> set (p # ps)" by auto
  ultimately have IH: "triple (growing h f L R lp (insert p D) pres1) (backup_paths f ps pres1)
     (\<lambda>pres'. growing h f L R lp (D \<union> set (p # ps)) pres') (\<lambda>_. backing h f L R lp)" for pres1
    by simp
  show ?case
    unfolding backup_paths.simps
    by (rule triple_bnd [OF backup_path_growing IH]) (use Cons.prems in auto)
qed

lemma distinct_managed: "distinct managed_paths"
  by (simp add: managed_paths_def managed_directories_def managed_files_def)

definition sealed where
  "sealed h f L R lp w \<longleftrightarrow> backing h f L R lp w \<and> backup_complete f w"

text \<open>Before the completion mark: presence and the runtime copy are in place.\<close>

definition closing where
  "closing h f L R lp ready present w \<longleftrightarrow> has_txn h f (\<lambda>_. True) w \<and> same_live L w \<and> w_runtime w = R \<and>
     w_payload w = lp \<and>
     (\<exists>b pres. map_of (w_backups w) f = Some b \<and> bk_complete b = None \<and> bk_presence b = Some (Json pres) \<and>
        set (map fst pres) = set managed_paths \<and>
        (\<forall>p \<in> set managed_paths. recorded L (bk_files b) pres p) \<and>
        (ready \<longrightarrow> present = (R \<noteq> None) \<and> (R \<noteq> None \<longrightarrow> bk_runtime b = R)))"

lemma closing_frame [simp]:
  "closing h f L R lp ready present (w\<lparr>w_fates := x\<rparr>) = closing h f L R lp ready present w"
  by (simp add: closing_def same_live_def)

lemma closing_backing: "closing h f L R lp ready present w \<Longrightarrow> backing h f L R lp w"
  by (auto simp: closing_def backing_def incomplete_untouched)

lemma growing_closing:
  assumes "growing h f L R lp (set managed_paths) pres w"
  shows "closing h f L R lp False present (upd_backup f (bk_presence_update (\<lambda>_. Some (Json pres))) w)"
proof -
  obtain b where b: "map_of (w_backups w) f = Some b" "bk_complete b = None"
    "\<forall>p \<in> set managed_paths. recorded L (bk_files b) pres p"
    using assms by (auto simp: growing_def)
  show ?thesis
    using assms b unfolding upd_backup_lookup [OF b(1)]
    by (simp add: growing_def closing_def same_live_def)
qed

lemma closing_runtime:
  assumes "closing h f L R lp False present w" "ready \<longrightarrow> present' = (R \<noteq> None) \<and> m = R"
  shows "closing h f L R lp ready present' (upd_backup f (bk_runtime_update (\<lambda>_. m)) w)"
proof -
  obtain b where b: "map_of (w_backups w) f = Some b"
    using assms(1) by (auto simp: closing_def)
  show ?thesis
    using assms b unfolding upd_backup_lookup [OF b]
    by (simp add: closing_def same_live_def)
qed

lemma closing_sealed:
  assumes "closing h f L R lp True present w"
  shows "sealed h f L R lp (upd_backup f (bk_complete_update (\<lambda>_.
           Some (Json [(''complete'', PBool True), (''runtime_present'', PBool present)]))) w)"
proof -
  obtain b pres where b: "map_of (w_backups w) f = Some b" "bk_presence b = Some (Json pres)"
    "set (map fst pres) = set managed_paths" "\<forall>p \<in> set managed_paths. recorded L (bk_files b) pres p"
    "present = (R \<noteq> None)" "R \<noteq> None \<longrightarrow> bk_runtime b = R"
    using assms by (auto simp: closing_def)
  let ?c = "[(''complete'', PBool True), (''runtime_present'', PBool present)]"
  let ?b = "b\<lparr>bk_complete := Some (Json ?c)\<rparr>"
  have "backup_is_complete ?b"
    using b(2,3) by (simp add: backup_is_complete_def read_json_def dget_def)
  moreover have "faithful L R ?b"
    using b by (simp add: faithful_def dget_def)
  ultimately show ?thesis
    using assms unfolding upd_backup_lookup [OF b(1)]
    by (simp add: closing_def sealed_def backing_def untouched_def honest_def same_live_def backup_complete_def)
qed

lemma backup_runtime_closing:
  "triple (closing h f L R lp False x) (backup_runtime f)
     (\<lambda>present. closing h f L R lp True present) (\<lambda>_. backing h f L R lp)"
  unfolding backup_runtime_def
proof (rule triple_bnd [OF triple_gets [where Q = "\<lambda>r w. closing h f L R lp False x w \<and> r = R"]])
  fix r
  have copy: "triple (\<lambda>w. closing h f L R lp False x w \<and> Some m = R)
      (bnd (io (upd_backup f (bk_runtime_update (\<lambda>_. Some m)))
           (\<lambda>d w. if d = Clean then w else upd_backup f (bk_runtime_update (\<lambda>_. Some Garbage)) w))
         (\<lambda>_. ret True))
      (\<lambda>present. closing h f L R lp True present) (\<lambda>_. backing h f L R lp)" for m
  proof (rule triple_bnd)
    show "triple (\<lambda>w. closing h f L R lp False x w \<and> Some m = R)
      (io (upd_backup f (bk_runtime_update (\<lambda>_. Some m)))
           (\<lambda>d w. if d = Clean then w else upd_backup f (bk_runtime_update (\<lambda>_. Some Garbage)) w))
      (\<lambda>_. closing h f L R lp True True) (\<lambda>_. backing h f L R lp)"
    proof (rule triple_io)
      fix w fs d
      assume w: "closing h f L R lp False x w \<and> Some m = R"
      then show "closing h f L R lp True True (upd_backup f (bk_runtime_update (\<lambda>_. Some m)) (w\<lparr>w_fates := fs\<rparr>))"
        by (intro closing_runtime [where present = x]) auto
      have "closing h f L R lp False x (upd_backup f (bk_runtime_update (\<lambda>_. Some Garbage)) (w\<lparr>w_fates := fs\<rparr>))"
        using w by (intro closing_runtime [where present = x]) auto
      with w show "backing h f L R lp (if d = Clean then w\<lparr>w_fates := fs\<rparr>
          else upd_backup f (bk_runtime_update (\<lambda>_. Some Garbage)) (w\<lparr>w_fates := fs\<rparr>))"
        by (auto dest: closing_backing)
    qed
  qed auto
  show "triple (\<lambda>w. closing h f L R lp False x w \<and> r = R)
      (case r of None \<Rightarrow> ret False
       | Some m \<Rightarrow> bnd (io (upd_backup f (bk_runtime_update (\<lambda>_. Some m)))
           (\<lambda>d w. if d = Clean then w else upd_backup f (bk_runtime_update (\<lambda>_. Some Garbage)) w))
         (\<lambda>_. ret True))
      (\<lambda>present. closing h f L R lp True present) (\<lambda>_. backing h f L R lp)"
    using copy by (cases r) (auto simp: closing_def intro!: triple_ret)
qed (simp add: closing_def)

lemma make_backup_sealed:
  "triple (\<lambda>w. backing h f L R lp w \<and> w_runtime w = R) (make_backup f)
     (\<lambda>_. sealed h f L R lp) (\<lambda>_. backing h f L R lp)"
  unfolding make_backup_def
proof (rule triple_bnd [OF triple_gets [where
      Q = "\<lambda>b w. (backing h f L R lp w \<and> w_runtime w = R) \<and> map_of (w_backups w) f = b"]])
  fix b
  let ?S = "\<lambda>w. (backing h f L R lp w \<and> w_runtime w = R) \<and> map_of (w_backups w) f = b"
  have new: "triple ?S (io_atomic (w_backups_update (AList.update f empty_backup)))
      (\<lambda>_. growing h f L R lp {} []) (\<lambda>_. backing h f L R lp)"
    by (rule triple_io_atomic)
      (auto simp: growing_def backing_def untouched_def same_live_def empty_backup_def
        honest_def backup_is_complete_def)
  have paths: "triple (growing h f L R lp {} []) (backup_paths f managed_paths [])
     (\<lambda>pres. growing h f L R lp (set managed_paths) pres) (\<lambda>_. backing h f L R lp)"
    using backup_paths_growing [OF distinct_managed, of "{}"] by simp
  have pres: "triple (growing h f L R lp (set managed_paths) pres)
      (io_atomic (upd_backup f (bk_presence_update (\<lambda>_. Some (Json pres)))))
      (\<lambda>_. closing h f L R lp False False) (\<lambda>_. backing h f L R lp)" for pres
    by (rule triple_io_atomic) (auto intro: growing_closing growing_backing)
  have mark: "triple (closing h f L R lp True present)
      (io_atomic (upd_backup f (bk_complete_update (\<lambda>_.
           Some (Json [(''complete'', PBool True), (''runtime_present'', PBool present)])))))
      (\<lambda>_. sealed h f L R lp) (\<lambda>_. backing h f L R lp)" for present
    by (rule triple_io_atomic) (auto intro: closing_sealed closing_backing)
  show "triple ?S (if b \<noteq> None then fail ''backup exists''
     else bnd (io_atomic (w_backups_update (AList.update f empty_backup))) (\<lambda>_.
       bnd (backup_paths f managed_paths []) (\<lambda>presence.
       bnd (io_atomic (upd_backup f (bk_presence_update (\<lambda>_. Some (Json presence))))) (\<lambda>_.
       bnd (backup_runtime f) (\<lambda>present.
         io_atomic (upd_backup f (bk_complete_update (\<lambda>_.
           Some (Json [(''complete'', PBool True), (''runtime_present'', PBool present)]))))))))) 
     (\<lambda>_. sealed h f L R lp) (\<lambda>_. backing h f L R lp)"
    by (intro triple_if triple_fail triple_bnd [OF new] triple_bnd [OF paths] triple_bnd [OF pres]
        triple_bnd [OF backup_runtime_closing] mark) auto
qed simp

section \<open>Applying\<close>

lemma get_context_triple:
  "triple P (get_context h f)
     (\<lambda>x w. P w \<and> map_of (w_txns w) f = Some (Json x) \<and> check_context h f x) (\<lambda>_. P)"
  by (auto simp: triple_def get_context_def bnd_def gets_def lift_exn_def read_json_def fail_def
      raise_exn_def ret_def split: option.splits json_file.splits)

lemma local_triple:
  assumes "\<And>w. P w \<Longrightarrow> w_payload w = Some p"
  shows "triple P local_payload (\<lambda>x w. x = p \<and> P w) E"
  using assms by (auto simp: triple_def local_payload_def gets_def)

lemma required_triple: "(\<And>w e. P w \<Longrightarrow> E e w) \<Longrightarrow> triple P (required_field e k) (\<lambda>_. P) E"
  by (auto simp: required_field_def intro!: triple_ret triple_raise split: option.splits)

definition early_stage :: "entry \<Rightarrow> bool" where
  "early_stage p \<longleftrightarrow> raw_str_field p ''stage'' \<in> {''preparing_dependencies'', ''backing_up''}"

definition left_behind where
  "left_behind h f L R w \<longleftrightarrow> recoverable h f L R w \<and> (case w_payload w of None \<Rightarrow> True
     | Some p \<Rightarrow> txn_ok h f p \<and> (early_stage p \<longrightarrow> untouched h f L R w))"

lemma left_frame [simp]:
  "left_behind h f L R (w_fates_update g w) = left_behind h f L R w"
  "left_behind h f L R (w_runtime_update g1 w) = left_behind h f L R w"
  "left_behind h f L R (w_pending_update g2 w) = left_behind h f L R w"
  "left_behind h f L R (w_events_update g3 w) = left_behind h f L R w"
  by (simp_all add: left_behind_def split: option.split)

lemma exposed_with_frame [simp]:
  "exposed_with h f L R T (w_fates_update g w) = exposed_with h f L R T w"
  "exposed_with h f L R T (w_runtime_update g1 w) = exposed_with h f L R T w"
  "exposed_with h f L R T (w_pending_update g2 w) = exposed_with h f L R T w"
  "exposed_with h f L R T (w_events_update g3 w) = exposed_with h f L R T w"
  by (simp_all add: exposed_with_def)

lemma exposed_with_write:
  "exposed_with h f L R T w \<Longrightarrow> txn_ok h f new \<Longrightarrow> late new \<Longrightarrow>
     exposed_with h f L R T (w_txns_update (AList.update f (Json new)) w)"
  by (auto simp: exposed_with_def recoverable_def exposed_def [of h f L R w] intro!: write_exposed)

lemma backing_left: "backing h f L R (Some p) w \<Longrightarrow> txn_ok h f p \<Longrightarrow> left_behind h f L R w"
  by (simp add: backing_def left_behind_def recoverable_def)

lemma sealed_left: "sealed h f L R (Some p) w \<Longrightarrow> txn_ok h f p \<Longrightarrow> left_behind h f L R w"
  by (auto simp: sealed_def intro: backing_left)

lemma exposed_left:
  "exposed_with h f L R (\<lambda>lp. lp = Some p) w \<Longrightarrow> txn_ok h f p \<Longrightarrow> \<not> early_stage p \<Longrightarrow> left_behind h f L R w"
  by (simp add: exposed_with_def left_behind_def recoverable_def)

lemma advance_triple:
  assumes "\<And>w. P w \<Longrightarrow> w_payload w = Some p"
    and "\<And>w fs. P w \<Longrightarrow> Q (w_payload_update (\<lambda>_. Some (merge_entry cs p))
           (w_txns_update (AList.update f (Json (merge_entry cs p))) (w\<lparr>w_fates := fs\<rparr>)))"
    and "\<And>w fs e. P w \<Longrightarrow> E e (w\<lparr>w_fates := fs\<rparr>)"
  shows "triple P (advance f cs) (\<lambda>_. Q) E"
proof -
  let ?new = "merge_entry cs p"
  have "triple P (update_transaction f p cs)
      (\<lambda>x w. x = ?new \<and> Q (w_payload_update (\<lambda>_. Some ?new) w)) E"
    unfolding update_transaction_def Let_def write_txn_def
    by (rule triple_bnd [OF triple_io_atomic [where
          Q = "\<lambda>w. Q (w_payload_update (\<lambda>_. Some ?new) w)"]]) (use assms in \<open>auto intro!: triple_ret\<close>)
  then have "triple P (bnd (update_transaction f p cs) set_local) (\<lambda>_. Q) E"
    by (rule triple_bnd) (auto simp: set_local_def intro!: triple_modify)
  then have k: "triple (\<lambda>w. x = p \<and> P w) (bnd (update_transaction f x cs) set_local) (\<lambda>_. Q) E" for x
    by (auto simp: triple_def)
  show ?thesis
    unfolding advance_def by (rule triple_bnd [OF local_triple [OF assms(1)] k])
qed

text \<open>Before the backup the runtime marker is still the original one.\<close>

definition starting where
  "starting h f L R lp w \<longleftrightarrow> backing h f L R lp w \<and> w_runtime w = R"

lemma advance_starting:
  assumes "txn_ok h f p" "own_keys cs"
  shows "triple (starting h f L R (Some p)) (advance f cs)
    (\<lambda>_. starting h f L R (Some (merge_entry cs p))) (\<lambda>_. left_behind h f L R)"
  using assms
  by (intro advance_triple) (auto simp: starting_def backing_def left_behind_def recoverable_def
      intro!: write_untouched)

lemma advance_sealed:
  assumes "txn_ok h f p" "own_keys cs"
  shows "triple (sealed h f L R (Some p)) (advance f cs)
    (\<lambda>_. sealed h f L R (Some (merge_entry cs p))) (\<lambda>_. left_behind h f L R)"
  using assms
  by (intro advance_triple) (auto simp: sealed_def backing_def left_behind_def recoverable_def
      backup_complete_def intro!: write_untouched)

lemma advance_exposed:
  assumes "txn_ok h f p" "own_keys cs" "late (merge_entry cs p)"
    "\<And>w. P w \<Longrightarrow> recoverable h f L R w \<and> backup_complete f w \<and> w_payload w = Some p \<and> left_behind h f L R w"
  shows "triple P (advance f cs)
    (\<lambda>_. exposed_with h f L R (\<lambda>lp. lp = Some (merge_entry cs p))) (\<lambda>_. left_behind h f L R)"
  using assms
  by (intro advance_triple) (auto simp: exposed_with_def backup_complete_def intro!: write_exposed)

lemma stage_of_merge:
  "distinct (map fst cs) \<Longrightarrow> map_of cs ''stage'' = Some (PStr s) \<Longrightarrow>
     raw_str_field (merge_entry cs p) ''stage'' = s"
  by (rule raw_str_field_PStr) (simp add: dget_merge)

lemma start_target_recoverable:
  assumes p: "txn_ok h f p" "\<not> early_stage p"
  shows "triple (exposed_with h f L R (\<lambda>lp. lp = Some p)) (start_target h f python)
    (\<lambda>_. recoverable h f L R) (\<lambda>_. left_behind h f L R)"
proof -
  let ?X = "\<lambda>p. exposed_with h f L R (\<lambda>lp. lp = Some p)"
  let ?p2 = "merge_entry (status_stage ''monitoring'' ''starting_target'') p"
  let ?cs = "status_stage ''monitoring'' ''monitoring_target''"
  have stages: "late (merge_entry (status_stage ''monitoring'' s) q) \<and>
      \<not> early_stage (merge_entry (status_stage ''monitoring'' s) q)"
    if "s \<in> {''starting_target'', ''monitoring_target''}" for s q
    using that
    by (auto simp: late_def early_stage_def stage_of_merge status_stage_def dget_merge
        recoverable_status_def terminal_statuses_def before_replacement_def)
  have p2: "txn_ok h f ?p2" "\<not> early_stage ?p2" "late ?p2"
    using p stages by simp_all
  have left: "\<And>w. ?X p w \<Longrightarrow> left_behind h f L R w" "\<And>w. ?X ?p2 w \<Longrightarrow> left_behind h f L R w"
    using exposed_left p p2 by blast+
  have run: "triple (?X p) (write_runtime e) (\<lambda>_. ?X p) (\<lambda>_. left_behind h f L R)" for e
    unfolding write_runtime_def
    by (rule triple_io_atomic) (use left in auto)
  have clear: "triple (?X p) clear_pending (\<lambda>_. ?X p) (\<lambda>_. left_behind h f L R)"
    unfolding clear_pending_def
    by (rule triple_bnd [OF triple_gets [where Q = "\<lambda>_. ?X p"]])
      (use left in \<open>auto intro!: triple_ret triple_fail triple_io_atomic split: pending.splits\<close>)
  have adv: "triple (?X p) (advance f (status_stage ''monitoring'' ''starting_target''))
      (\<lambda>_. ?X ?p2) (\<lambda>_. left_behind h f L R)"
    by (rule advance_exposed) (use p p2 left in \<open>auto simp: exposed_with_def recoverable_def exposed_def\<close>)
  have emits: "triple (?X ?p2) (emit ev) (\<lambda>_. ?X ?p2) (\<lambda>_. left_behind h f L R)" for ev
    unfolding emit_def
    by (rule triple_io_atomic) (use left in auto)
  have upd: "triple (\<lambda>w. x = ?p2 \<and> ?X ?p2 w) (update_transaction f x ?cs) (\<lambda>_. ?X ?p2) (\<lambda>_. left_behind h f L R)" for x
  proof (rule triple_pure)
    assume "x = ?p2"
    have new: "txn_ok h f (merge_entry ?cs ?p2)" "late (merge_entry ?cs ?p2)"
      using p2 stages by simp_all
    have "triple (?X ?p2) (update_transaction f ?p2 ?cs) (\<lambda>_. ?X ?p2) (\<lambda>_. left_behind h f L R)"
      unfolding update_transaction_def Let_def write_txn_def
      by (rule triple_bnd [OF triple_io_atomic [where Q = "?X ?p2"]])
        (use new left in \<open>auto intro!: triple_ret exposed_with_write\<close>)
    with \<open>x = ?p2\<close> show "triple (\<lambda>w. x = ?p2 \<and> ?X ?p2 w) (update_transaction f x ?cs) (\<lambda>_. ?X ?p2)
        (\<lambda>_. left_behind h f L R)"
      by simp
  qed simp
  have fields: "triple (\<lambda>w. x = p \<and> ?X p w) (required_field x k) (\<lambda>_ w. x = p \<and> ?X p w) (\<lambda>_. left_behind h f L R)" for x k
    by (rule required_triple) (use left in auto)
  have drop: "triple (\<lambda>w. x = p \<and> ?X p w) m Q E" if "triple (?X p) m Q E" for x and m :: "int helper" and Q E
    using that by (auto simp: triple_def)
  show ?thesis
    unfolding start_target_def
    by (intro triple_bnd [OF local_triple [where p = p]] triple_bnd [OF fields] drop triple_bnd [OF run]
        triple_bnd [OF clear] triple_bnd [OF adv] triple_bnd [OF emits]
        triple_bnd [OF local_triple [where p = ?p2]] triple_bnd [OF upd] triple_ret)
      (auto simp: exposed_with_def recoverable_def)
qed

lemma prepare_python_triple:
  assumes "\<And>w e. P w \<Longrightarrow> E e w"
  shows "triple P (prepare_python h f payload) (\<lambda>_. P) E"
  unfolding prepare_python_def Let_def
  by (intro triple_if triple_fail triple_bnd [OF triple_gets [where Q = "\<lambda>_. P"]])
    (auto simp: assms intro!: triple_ret triple_raise triple_lift split: option.splits item.splits)

lemma validate_candidate_triple:
  assumes "\<And>w e. P w \<Longrightarrow> E e w"
  shows "triple P (validate_candidate f payload) (\<lambda>_. P) E"
  unfolding validate_candidate_def
  by (intro triple_if triple_ret triple_fail triple_bnd [OF triple_gets [where Q = "\<lambda>_. P"]]) (auto simp: assms)

text \<open>The state \<open>apply\<close> starts from: nothing of the update has happened.\<close>

definition fresh where
  "fresh h f L R w \<longleftrightarrow> untouched h f L R w \<and> w_runtime w = R \<and> w_payload w = None"

lemma apply_body_recoverable:
  "triple (fresh h f L R) (apply_body h f) (\<lambda>_. recoverable h f L R) (\<lambda>_. left_behind h f L R)"
proof -
  let ?Z = "\<lambda>_::exn. left_behind h f L R"
  let ?S = "\<lambda>p. starting h f L R (Some p)"
  have ctx: "triple (fresh h f L R) (get_context h f) (\<lambda>p w. txn_ok h f p \<and> fresh h f L R w) ?Z"
    by (rule triple_weaken [OF get_context_triple [where P = "fresh h f L R"]])
      (auto simp: fresh_def untouched_def has_txn_def left_behind_def recoverable_def)
  have set_loc: "triple (\<lambda>w. txn_ok h f p \<and> fresh h f L R w) (set_local p) (\<lambda>_ w. txn_ok h f p \<and> ?S p w) ?Z" for p
    unfolding set_local_def by (rule triple_modify) (auto simp: fresh_def starting_def backing_def)
  have left: "txn_ok h f p \<Longrightarrow> ?S p w \<Longrightarrow> left_behind h f L R w" for p w
    by (auto simp: starting_def intro: backing_left)
  have rest: "triple (\<lambda>w. txn_ok h f p \<and> ?S p w) (bnd (validate_candidate f p) (\<lambda>_.
       bnd (advance f (status_stage ''applying'' ''preparing_dependencies'')) (\<lambda>_.
       bnd local_payload (\<lambda>payload'.
       bnd (prepare_python h f payload') (\<lambda>python.
       bnd (advance f [(''stage'', PStr ''backing_up''), (''target_python'', PStr python)]) (\<lambda>_.
       bnd (make_backup f) (\<lambda>_.
       bnd (advance f [(''stage'', PStr ''backup_complete'')]) (\<lambda>_.
       bnd (advance f [(''stage'', PStr ''replacing'')]) (\<lambda>_.
       bnd (install h f) (\<lambda>_. start_target h f python))))))))))
     (\<lambda>_. recoverable h f L R) ?Z" for p
  proof (rule triple_pure [where b = "txn_ok h f p"])
    assume p: "txn_ok h f p"
    let ?p1 = "merge_entry (status_stage ''applying'' ''preparing_dependencies'') p"
    define P2 where "P2 python = merge_entry [(''stage'', PStr ''backing_up''), (''target_python'', PStr python)] ?p1" for python
    define P3 where "P3 python = merge_entry [(''stage'', PStr ''backup_complete'')] (P2 python)" for python
    define P4 where "P4 python = merge_entry [(''stage'', PStr ''replacing'')] (P3 python)" for python
    have ok: "txn_ok h f ?p1" "txn_ok h f (P2 y)" "txn_ok h f (P3 y)" "txn_ok h f (P4 y)" for y
      using p by (simp_all add: P2_def P3_def P4_def)
    have stage4: "raw_str_field (P4 y) ''stage'' = ''replacing''" for y
      by (simp add: P4_def stage_of_merge)
    have status4: "dget (P4 y) ''status'' = PStr ''applying''" for y
      by (simp add: P4_def P3_def P2_def dget_merge status_stage_def)
    have late4: "late (P4 y)" "\<not> early_stage (P4 y)" for y
      by (simp_all add: late_def early_stage_def stage4 status4 recoverable_status_def
          terminal_statuses_def before_replacement_def)
    have valid: "triple (?S p) (validate_candidate f p) (\<lambda>_. ?S p) ?Z"
      by (rule validate_candidate_triple) (use left p in auto)
    have loc: "triple (?S ?p1) local_payload (\<lambda>_. ?S ?p1) ?Z"
      unfolding local_payload_def by (rule triple_gets) simp
    have prep: "triple (?S ?p1) (prepare_python h f x) (\<lambda>_. ?S ?p1) ?Z" for x
      by (rule prepare_python_triple) (rule left [OF ok(1)])
    have adv2: "triple (?S ?p1) (advance f [(''stage'', PStr ''backing_up''), (''target_python'', PStr y)])
        (\<lambda>_. ?S (P2 y)) ?Z" for y
      unfolding P2_def by (rule advance_starting) (use ok in simp_all)
    have bak: "triple (?S (P2 y)) (make_backup f) (\<lambda>_. sealed h f L R (Some (P2 y))) ?Z" for y
      by (rule triple_weaken [OF make_backup_sealed [where lp = "Some (P2 y)"]])
        (use ok backing_left in \<open>auto simp: starting_def\<close>)
    have adv3: "triple (sealed h f L R (Some (P2 y))) (advance f [(''stage'', PStr ''backup_complete'')])
        (\<lambda>_. sealed h f L R (Some (P3 y))) ?Z" for y
      unfolding P3_def by (rule advance_sealed) (use ok in simp_all)
    have adv4: "triple (sealed h f L R (Some (P3 y))) (advance f [(''stage'', PStr ''replacing'')])
        (\<lambda>_. exposed_with h f L R (\<lambda>lp. lp = Some (P4 y))) ?Z" for y
      unfolding P4_def
      by (rule advance_exposed)
        (use ok late4 [unfolded P4_def] sealed_left [OF _ ok(3)] in
          \<open>auto simp: sealed_def backing_def recoverable_def\<close>)
    have inst: "triple (exposed_with h f L R (\<lambda>lp. lp = Some (P4 y))) (install h f)
        (\<lambda>_. exposed_with h f L R (\<lambda>lp. lp = Some (P4 y))) ?Z" for y
      by (rule triple_weaken [OF install_exposed]) (use exposed_left ok late4 in auto)
    show ?thesis
      by (rule triple_pre [where P = "?S p"],
          intro triple_bnd [OF valid] triple_bnd [OF advance_starting [OF p]] own_keys_simps
          triple_bnd [OF loc] triple_bnd [OF prep] triple_bnd [OF adv2] triple_bnd [OF bak]
          triple_bnd [OF adv3] triple_bnd [OF adv4] triple_bnd [OF inst]
          start_target_recoverable ok late4) simp
  qed simp
  show ?thesis
    unfolding apply_body_def
    by (intro triple_bnd [OF ctx] triple_bnd [OF set_loc] triple_if triple_fail rest) (auto intro: left)
qed

lemma late_interrupted: "late (merge_entry (status_stage ''recovery_required'' s @ [(k, v)]) p)"
  if "s \<notin> set before_replacement" "k \<in> {''error'', ''rollback_error''}"
  using that
  by (auto simp: late_def stage_of_merge status_stage_def dget_merge recoverable_status_def terminal_statuses_def)

lemma update_recoverable:
  assumes "\<And>w. P w \<Longrightarrow> recoverable h f L R w" "txn_ok h f p" "own_keys cs"
    "late (merge_entry cs p) \<or> (\<forall>w. P w \<longrightarrow> untouched h f L R w)"
  shows "triple P (update_transaction f p cs) (\<lambda>_. recoverable h f L R) (\<lambda>_. recoverable h f L R)"
proof -
  have "recoverable h f L R (w_txns_update (AList.update f (Json (merge_entry cs p))) (w\<lparr>w_fates := fs\<rparr>))"
    if "P w" for w fs
  proof (cases "late (merge_entry cs p)")
    case True
    then show ?thesis using assms(1) [OF that] assms(2,3) by (intro write_recoverable) simp_all
  next
    case False
    then have "untouched h f L R (w\<lparr>w_fates := fs\<rparr>)" using assms(4) that by simp
    then show ?thesis using assms(2,3) write_untouched by (simp add: recoverable_def)
  qed
  then show ?thesis
    unfolding update_transaction_def Let_def write_txn_def
    by (intro triple_bnd [OF triple_io_atomic [where Q = "recoverable h f L R"]])
      (auto intro!: triple_ret simp: assms(1))
qed

lemma apply_failed_recoverable:
  "triple (left_behind h f L R) (apply_failed f e) (\<lambda>_. recoverable h f L R) (\<lambda>_. recoverable h f L R)"
proof -
  let ?I = "\<lambda>_. recoverable h f L R"
  have clear: "triple (\<lambda>w. untouched h f L R w) clear_pending (\<lambda>_ w. untouched h f L R w) ?I"
    unfolding clear_pending_def
    by (rule triple_bnd [OF triple_gets [where Q = "\<lambda>_. untouched h f L R"]])
      (auto simp: recoverable_def intro!: triple_ret triple_fail triple_io_atomic split: pending.splits)
  have body: "triple (\<lambda>w. left_behind h f L R w \<and> w_payload w = Some p)
      (if raw_str_field p ''stage'' \<in> {''preparing_dependencies'', ''backing_up''}
            then bnd clear_pending (\<lambda>_. bnd (update_transaction f p
                   (status_stage ''failed'' ''apply_failed_before_replacement'' @ [(''error'', exn_text e)]))
                   (\<lambda>_. ret ()))
            else bnd (update_transaction f p
                   (status_stage ''recovery_required'' ''apply_interrupted'' @ [(''error'', exn_text e)]))
                   (\<lambda>_. ret ())) ?I ?I" for p
  proof (rule triple_pure [where b = "txn_ok h f p"])
    assume p: "txn_ok h f p"
    have early: "triple (untouched h f L R) (bnd clear_pending (\<lambda>_. bnd (update_transaction f p
                   (status_stage ''failed'' ''apply_failed_before_replacement'' @ [(''error'', exn_text e)]))
                   (\<lambda>_. ret ()))) ?I ?I"
      by (intro triple_bnd [OF clear] triple_bnd [OF update_recoverable [where L = L and R = R]] triple_ret)
        (use p in \<open>auto simp: recoverable_def\<close>)
    have late: "triple (recoverable h f L R) (bnd (update_transaction f p
                   (status_stage ''recovery_required'' ''apply_interrupted'' @ [(''error'', exn_text e)]))
                   (\<lambda>_. ret ())) ?I ?I"
      by (intro triple_bnd [OF update_recoverable [where L = L and R = R]] triple_ret)
        (use p late_interrupted in \<open>auto simp: before_replacement_def\<close>)
    show ?thesis
      by (intro triple_if triple_pre [OF early] triple_pre [OF late])
        (auto simp: left_behind_def early_stage_def)
  qed (auto simp: left_behind_def)
  have whole: "triple (\<lambda>w. left_behind h f L R w \<and> w_payload w = Some p)
      (bnd (try_except
           (if raw_str_field p ''stage'' \<in> {''preparing_dependencies'', ''backing_up''}
            then bnd clear_pending (\<lambda>_. bnd (update_transaction f p
                   (status_stage ''failed'' ''apply_failed_before_replacement'' @ [(''error'', exn_text e)]))
                   (\<lambda>_. ret ()))
            else bnd (update_transaction f p
                   (status_stage ''recovery_required'' ''apply_interrupted'' @ [(''error'', exn_text e)]))
                   (\<lambda>_. ret ()))
           (\<lambda>_. ret ())) (\<lambda>_. ret 1)) (\<lambda>_::int. recoverable h f L R) ?I" for p
    by (intro triple_bnd [OF triple_try [OF body]] triple_ret) auto
  show ?thesis
    unfolding apply_failed_def
    by (rule triple_bnd [OF triple_gets [where
          Q = "\<lambda>lp w. left_behind h f L R w \<and> w_payload w = lp"]])
      (use whole in \<open>auto simp: left_behind_def intro!: triple_ret split: option.splits\<close>)
qed

lemma apply_recoverable:
  "triple (\<lambda>w. untouched h f L R w \<and> w_runtime w = R) (apply_transaction h f)
     (\<lambda>_. recoverable h f L R) (\<lambda>_. recoverable h f L R)"
  unfolding apply_transaction_def
  by (intro triple_bnd [OF triple_modify [where Q = "\<lambda>_. fresh h f L R"]]
      triple_try [OF apply_body_recoverable] apply_failed_recoverable)
    (auto simp: fresh_def left_behind_def)

section \<open>Recovery keeps the invariant\<close>

lemma restore_runtime_exposed:
  "triple (exposed_with h f L R T) (restore_runtime b c) (\<lambda>_. exposed_with h f L R T) (\<lambda>_. exposed_with h f L R T)"
  unfolding restore_runtime_def
  by (auto intro!: triple_fail triple_io triple_io_atomic triple_when
      triple_bnd [OF triple_gets [where Q = "\<lambda>_. exposed_with h f L R T"]] split: option.splits)

lemma restore_path_exposed:
  "triple (exposed_with h f L R T) (restore_path h b pres p) (\<lambda>_. exposed_with h f L R T)
     (\<lambda>_. exposed_with h f L R T)"
proof -
  let ?X = "exposed_with h f L R T"
  have copy: "triple ?X (bnd (gets (live_exists p)) (\<lambda>x. copy_exact it x (put_live p))) (\<lambda>_. ?X) (\<lambda>_. ?X)" for it
    by (rule triple_bnd [OF triple_gets [where Q = "\<lambda>_. ?X"]]) (auto intro: copy_live_exposed)
  have rest: "triple ?X (if dget pres p = PStr ''missing'' then ret ()
        else (case map_of (bk_files b) p of
            None \<Rightarrow> fail ''backup missing''
          | Some it \<Rightarrow> bnd (gets (live_exists p)) (\<lambda>x. copy_exact it x (put_live p)))) (\<lambda>_. ?X) (\<lambda>_. ?X)"
    using copy by (auto intro!: triple_ret triple_fail split: option.splits)
  show ?thesis
    unfolding restore_path_def Let_def
    by (intro triple_if triple_fail triple_bnd [OF remove_exact_exposed rest]) auto
qed

lemma restore_exposed:
  "triple (exposed_with h f L R T) (restore h f) (\<lambda>_. exposed_with h f L R T) (\<lambda>_. exposed_with h f L R T)"
proof -
  let ?X = "exposed_with h f L R T"
  have body: "triple ?X (bnd (lift_exn (read_json (bk_presence b))) (\<lambda>presence.
           bnd (for_each managed_paths (restore_path h b presence)) (\<lambda>_.
           bnd (lift_exn (read_json (bk_complete b))) (\<lambda>c. restore_runtime b c)))) (\<lambda>_. ?X) (\<lambda>_. ?X)" for b
    by (intro triple_bnd [OF triple_lift [where Q = "\<lambda>_. ?X"]] triple_bnd [OF triple_for_each]
        restore_path_exposed restore_runtime_exposed)
  show ?thesis
    unfolding restore_def
    by (rule triple_bnd [OF triple_gets [where Q = "\<lambda>_. ?X"]])
      (use body in \<open>auto intro!: triple_fail split: option.splits\<close>)
qed

lemma clear_pending_triple:
  assumes "\<And>w g. P w \<Longrightarrow> P (w_fates_update g w)" "\<And>w g. P w \<Longrightarrow> P (w_pending_update g w)"
    "\<And>w e. P w \<Longrightarrow> E e w"
  shows "triple P clear_pending (\<lambda>_. P) E"
  unfolding clear_pending_def
  by (rule triple_bnd [OF triple_gets [where Q = "\<lambda>_. P"]])
    (auto simp: assms intro!: triple_ret triple_fail triple_io_atomic split: pending.splits)

lemma read_json_triple: "triple P (lift_exn (read_json m)) (\<lambda>_. P) (\<lambda>_. P)"
  by (rule triple_lift) auto

lemma monitor_rollback_triple:
  assumes frame: "\<And>w g. P w \<Longrightarrow> P (w_fates_update g w)" "\<And>w g. P w \<Longrightarrow> P (w_pending_update g w)"
      "\<And>w g. P w \<Longrightarrow> P (w_runtime_update g w)" "\<And>w g. P w \<Longrightarrow> P (w_events_update g w)"
    and wr: "\<And>w. P w \<Longrightarrow> P (w_txns_update (AList.update f (Json
        (merge_entry (status_stage ''rolling_back'' ''monitoring_rollback'') payload))) w)"
  shows "triple P (monitor_rollback h f payload) (\<lambda>_. P) (\<lambda>_. P)"
proof -
  have mk: "triple P (case marker of
            None \<Rightarrow> ret (field_or payload ''old_python'' (h_executable h), image_of payload)
          | Some m \<Rightarrow> bnd (lift_exn (read_json (Some m))) (\<lambda>runtime.
              ret (field_or runtime ''python'' (field_or payload ''old_python'' (h_executable h)),
                   field_or runtime ''image_version'' (image_of payload)))) (\<lambda>_. P) (\<lambda>_. P)" for marker
    by (auto intro!: triple_ret triple_bnd [OF read_json_triple] split: option.splits)
  have run: "triple P (write_runtime e) (\<lambda>_. P) (\<lambda>_. P)" for e
    unfolding write_runtime_def by (rule triple_io_atomic) (auto simp: frame)
  have clear: "triple P clear_pending (\<lambda>_. P) (\<lambda>_. P)"
    by (rule clear_pending_triple) (auto simp: frame)
  have upd: "triple P (update_transaction f payload (status_stage ''rolling_back'' ''monitoring_rollback''))
      (\<lambda>_. P) (\<lambda>_. P)"
    unfolding update_transaction_def Let_def write_txn_def
    by (rule triple_bnd [OF triple_io_atomic [where Q = P]]) (auto simp: frame wr intro!: triple_ret)
  have ev: "triple P (emit e) (\<lambda>_. P) (\<lambda>_. P)" for e
    unfolding emit_def by (rule triple_io_atomic) (auto simp: frame)
  have tail: "triple P (bnd (required_field payload ''current_version'') (\<lambda>ver.
     bnd (required_field payload ''transaction_id'') (\<lambda>txn_id.
     bnd (write_runtime (runtime_payload ver python img txn_id ''rollback_monitoring'')) (\<lambda>_.
     bnd clear_pending (\<lambda>_.
     bnd (update_transaction f payload (status_stage ''rolling_back'' ''monitoring_rollback'')) (\<lambda>_.
     bnd (emit (Spawned python ''rollback'')) (\<lambda>_. ret True)))))))
     (\<lambda>_. P) (\<lambda>_. P)" for python img
    by (intro triple_bnd [OF required_triple] triple_bnd [OF run] triple_bnd [OF clear]
        triple_bnd [OF upd] triple_bnd [OF ev] triple_ret)
  show ?thesis
    unfolding monitor_rollback_def
    by (intro triple_bnd [OF triple_gets [where Q = "\<lambda>_. P"]] triple_bnd [OF mk])
      (auto intro: tail)
qed

text \<open>
  The recovery of one transaction, for a goal \<open>G\<close> that the restoration establishes: with
  \<open>G = True\<close> it keeps the invariant whatever the fates are, and without faults \<open>G\<close> is that the
  original paths are back.
\<close>

lemma late_rolling:
  "late (merge_entry (status_stage ''rolling_back'' s) p)" if "s \<notin> set before_replacement"
  using that
  by (auto simp: late_def stage_of_merge status_stage_def dget_merge recoverable_status_def terminal_statuses_def)

definition current :: "string \<Rightarrow> entry \<Rightarrow> world \<Rightarrow> bool" where
  "current f p w \<longleftrightarrow> map_of (w_txns w) f = Some (Json p)"

lemma restore_for_recovery_recoverable:
  assumes p: "txn_ok h f p"
  shows "triple (\<lambda>w. recoverable h f L R w \<and> current f p w) (restore_for_recovery h f)
    (\<lambda>_. recoverable h f L R) (\<lambda>_. recoverable h f L R)"
proof -
  let ?P = "\<lambda>w. recoverable h f L R w \<and> current f p w"
  let ?I = "\<lambda>_. recoverable h f L R"
  let ?X = "exposed_with h f L R (\<lambda>_. True)"
  let ?p1 = "merge_entry (status_stage ''rolling_back'' ''restoring_backup'') p"
  have late1: "late (merge_entry (status_stage ''rolling_back'' s) q)"
    if "s \<in> {''restoring_backup'', ''monitoring_rollback''}" for s q
    using that by (intro late_rolling) (auto simp: before_replacement_def)
  have ctx: "triple ?P (get_context h f) (\<lambda>x w. x = p \<and> ?P w) ?I"
    by (rule triple_weaken [OF get_context_triple [where P = ?P]]) (auto simp: current_def)
  have ok: "triple (\<lambda>w. x = p \<and> ?P w) (gets (backup_complete f))
      (\<lambda>b w. x = p \<and> ?P w \<and> backup_complete f w = b) ?I" for x
    by (rule triple_gets) auto
  have no: "triple (\<lambda>w. ?P w \<and> backup_complete f w = False) (bnd (update_transaction f p
           (status_stage ''recovery_required'' ''backup_incomplete'' @ [(''rollback_error'', PStr ''incomplete'')]))
           (\<lambda>_. ret False)) ?I ?I"
    by (intro triple_bnd [OF update_recoverable [where L = L and R = R]] triple_ret)
      (use p late_interrupted in \<open>auto simp: before_replacement_def\<close>)
  have upd: "triple (\<lambda>w. ?P w \<and> backup_complete f w = True)
      (update_transaction f p (status_stage ''rolling_back'' ''restoring_backup''))
      (\<lambda>x w. x = ?p1 \<and> ?X w) ?I"
    unfolding update_transaction_def Let_def write_txn_def
    by (rule triple_bnd [OF triple_io_atomic [where Q = ?X]])
      (use p late1 in \<open>auto simp: exposed_with_def intro!: triple_ret write_exposed\<close>)
  have rec: "?X w \<Longrightarrow> recoverable h f L R w" for w
    by (simp add: exposed_with_def recoverable_def)
  have mon: "triple ?X (monitor_rollback h f ?p1) ?I ?I"
    by (rule triple_weaken [OF monitor_rollback_triple [where P = ?X]])
      (use p late1 rec in \<open>auto intro: exposed_with_write\<close>)
  have res: "triple ?X (restore h f) (\<lambda>_. ?X) ?I"
    by (rule triple_weaken [OF restore_exposed]) (use rec in auto)
  have yes: "triple (\<lambda>w. ?P w \<and> backup_complete f w = True)
      (bnd (update_transaction f p (status_stage ''rolling_back'' ''restoring_backup'')) (\<lambda>payload'.
         bnd (restore h f) (\<lambda>_. monitor_rollback h f payload'))) ?I ?I"
  proof (rule triple_bnd [OF upd])
    fix x
    have "triple ?X (bnd (restore h f) (\<lambda>_. monitor_rollback h f ?p1)) ?I ?I"
      by (rule triple_bnd [OF res mon])
    then show "triple (\<lambda>w. x = ?p1 \<and> ?X w) (bnd (restore h f) (\<lambda>_. monitor_rollback h f x)) ?I ?I"
      by (auto simp: triple_def)
  qed
  have split: "triple (\<lambda>w. x = p \<and> ?P w \<and> backup_complete f w = b) (if \<not> b then
         bnd (update_transaction f x
           (status_stage ''recovery_required'' ''backup_incomplete'' @ [(''rollback_error'', PStr ''incomplete'')]))
           (\<lambda>_. ret False)
       else
         bnd (update_transaction f x (status_stage ''rolling_back'' ''restoring_backup'')) (\<lambda>payload'.
         bnd (restore h f) (\<lambda>_. monitor_rollback h f payload'))) ?I ?I" for x b
    using no yes by (cases b; cases "x = p") (auto simp: triple_def)
  show ?thesis
    unfolding restore_for_recovery_def by (rule triple_bnd [OF ctx], rule triple_bnd [OF ok split])
qed

lemma stage_untouched:
  "recoverable h f L R w \<Longrightarrow> current f p w \<Longrightarrow> raw_str_field p ''stage'' \<in> set before_replacement \<Longrightarrow>
     untouched h f L R w"
  by (auto simp: recoverable_def exposed_def has_txn_def current_def late_def)

lemma recover_newest_recoverable:
  assumes p: "txn_ok h f p"
  shows "triple (\<lambda>w. recoverable h f L R w \<and> current f p w) (recover_newest h f p)
    (\<lambda>_. recoverable h f L R) (\<lambda>_. recoverable h f L R)"
proof -
  let ?P = "\<lambda>w. recoverable h f L R w \<and> current f p w"
  let ?I = "\<lambda>_. recoverable h f L R"
  have clear: "triple (untouched h f L R) clear_pending (\<lambda>_. untouched h f L R) ?I"
    by (rule clear_pending_triple) (auto simp: recoverable_def)
  have early: "triple (untouched h f L R) (bnd clear_pending (\<lambda>_. bnd (update_transaction f p
            (status_stage ''failed'' ''interrupted_before_replacement'' @ [(''error'', PStr ''restarted'')]))
            (\<lambda>_. ret 0))) ?I ?I"
    by (intro triple_bnd [OF clear] triple_bnd [OF update_recoverable [where L = L and R = R]] triple_ret)
      (use p in \<open>auto simp: recoverable_def\<close>)
  have body: "triple ?P (if raw_str_field p ''stage'' \<in> set before_replacement then
          bnd clear_pending (\<lambda>_. bnd (update_transaction f p
            (status_stage ''failed'' ''interrupted_before_replacement'' @ [(''error'', PStr ''restarted'')]))
            (\<lambda>_. ret 0))
        else bnd (restore_for_recovery h f) (\<lambda>ok. ret (if ok then 0 else 1))) ?I ?I"
    by (intro triple_if triple_pre [OF early] triple_bnd [OF restore_for_recovery_recoverable [OF p]] triple_ret)
      (auto intro: stage_untouched)
  have mark: "triple (recoverable h f L R) (bnd (update_transaction f p
             (status_stage ''recovery_required'' ''restore_failed'' @ [(''rollback_error'', exn_text e)]))
             (\<lambda>_. ret ())) ?I ?I" for e
    by (intro triple_bnd [OF update_recoverable [where L = L and R = R]] triple_ret)
      (use p late_interrupted in \<open>auto simp: before_replacement_def\<close>)
  have handler: "triple (recoverable h f L R) (bnd (try_except
           (bnd (update_transaction f p
             (status_stage ''recovery_required'' ''restore_failed'' @ [(''rollback_error'', exn_text e)]))
             (\<lambda>_. ret ()))
           (\<lambda>_. ret ())) (\<lambda>_. ret 1)) ?I ?I" for e
    by (intro triple_bnd [OF triple_try [OF mark]] triple_ret) auto
  show ?thesis
    unfolding recover_newest_def by (rule triple_try [OF body handler])
qed

lemma concat_single:
  "distinct (map fst xs) \<Longrightarrow> map_of xs k = Some v \<Longrightarrow> (\<And>j y. (j, y) \<in> set xs \<Longrightarrow> j \<noteq> k \<Longrightarrow> g j y = []) \<Longrightarrow>
     concat (map (\<lambda>(j, y). g j y) xs) = g k v"
proof (induction xs)
  case (Cons x xs)
  obtain j y where x: "x = (j, y)" by (cases x)
  show ?case
  proof (cases "j = k")
    case True
    have "g i z = []" if "(i, z) \<in> set xs" for i z
      using that Cons.prems x True by (intro Cons.prems(3)) force+
    then have "concat (map (\<lambda>(j, y). g j y) xs) = []" by auto
    with True x Cons.prems(2) show ?thesis by simp
  next
    case False
    with Cons x show ?thesis by auto
  qed
qed simp

lemma open_only:
  assumes "others_closed f w" "current f p w" "txn_ok h f p"
  shows "open_transactions h w = (if recoverable_status (dget p ''status'')
    then [(the (h_float h (py_or (dget p ''created_at'') (PInt 0))), f, p)] else [])"
proof -
  let ?g = "\<lambda>g j. (case j of
     Garbage \<Rightarrow> []
   | Json payload \<Rightarrow> if \<not> recoverable_status (dget payload ''status'') then []
       else (case h_float h (py_or (dget payload ''created_at'') (PInt 0)) of
               None \<Rightarrow> [] | Some t \<Rightarrow> [(t, g, payload)]))"
  have "concat (map (\<lambda>(g, j). ?g g j) (w_txns w)) = ?g f (Json p)"
    by (rule concat_single)
      (use assms in \<open>auto simp: others_closed_def current_def split: json_file.splits\<close>)
  then show ?thesis
    using assms(3) by (auto simp: open_transactions_def txn_ok_def)
qed

lemma recoverable_txn:
  "recoverable h f L R w \<Longrightarrow> \<exists>p. others_closed f w \<and> current f p w \<and> txn_ok h f p"
  by (auto simp: recoverable_def untouched_def exposed_def has_txn_def current_def)

lemma recover_recoverable:
  "triple (recoverable h f L R) (recover_transactions h) (\<lambda>_. recoverable h f L R) (\<lambda>_. recoverable h f L R)"
proof (cases "h_linked h ''data/update/transactions''")
  case False
  show ?thesis
    unfolding triple_def
  proof (intro allI impI)
    fix w assume w: "recoverable h f L R w"
    then obtain p where p: "others_closed f w" "current f p w" "txn_ok h f p"
      using recoverable_txn by blast
    note rec = recover_newest_recoverable [OF p(3), of L R, unfolded triple_def, rule_format, of w]
    show "case recover_transactions h w of (Inl e, w') \<Rightarrow> recoverable h f L R w'
        | (Inr x, w') \<Rightarrow> recoverable h f L R w'"
      using rec w p(2) False open_only [OF p]
      by (auto simp: recover_transactions_def bnd_def gets_def ret_def)
  qed
qed (auto simp: recover_transactions_def)

section \<open>Without faults the original paths come back\<close>

definition restored where
  "restored h f L R D w \<longleftrightarrow> exposed h f L R w \<and> w_fates w = [] \<and> (\<forall>p \<in> D. map_of (w_live w) p = L p)"

definition clear_paths :: "host \<Rightarrow> bool" where
  "clear_paths h \<longleftrightarrow> \<not> h_linked h ''data/update/transactions'' \<and>
     (\<forall>p \<in> set managed_paths. \<not> h_linked h p)"

lemma restored_delete:
  "restored h f L R D w \<Longrightarrow> p \<notin> D \<Longrightarrow> restored h f L R D (delete_live p w)"
  by (auto simp: restored_def exposed_delete) (auto simp: delete_live_def)

lemma restored_put:
  "restored h f L R D w \<Longrightarrow> p \<notin> D \<Longrightarrow> L p = Some it \<Longrightarrow> it \<noteq> Linked \<Longrightarrow>
     restored h f L R (insert p D) (put_live p it w)"
  by (auto simp: restored_def exposed_put) (auto simp: put_live_def)

lemma live_delete [simp]: "map_of (w_live (delete_live p w)) p = None"
  by (simp add: delete_live_def)

lemma remove_exact_fine:
  assumes "p \<in> set managed_paths" "p \<notin> D" "\<not> h_linked h p"
  shows "triple (restored h f L R D) (remove_exact h p)
    (\<lambda>_ w. restored h f L R D w \<and> map_of (w_live w) p = None) (\<lambda>_ _. False)"
  unfolding triple_def
proof (intro allI impI)
  fix w assume w: "restored h f L R D w"
  then have l: "map_of (w_live w) p \<noteq> Some Linked" and fates: "w_fates w = []"
    using assms(1) by (auto simp: restored_def exposed_def no_live_link_def)
  show "case remove_exact h p w of (Inl e, w') \<Rightarrow> False
      | (Inr x, w') \<Rightarrow> restored h f L R D w' \<and> map_of (w_live w') p = None"
    using l fates w assms(2,3)
    by (auto simp: remove_exact_def bnd_def gets_def ret_def io_def io_atomic_def restored_delete
        split: option.splits item.splits)
qed

lemma restore_path_fine:
  assumes p: "p \<in> set managed_paths" "p \<notin> D" "\<not> h_linked h p" and rec: "recorded L (bk_files b) pres p"
  shows "triple (restored h f L R D) (restore_path h b pres p) (\<lambda>_. restored h f L R (insert p D)) (\<lambda>_ _. False)"
proof -
  let ?Q = "\<lambda>w. restored h f L R D w \<and> map_of (w_live w) p = None"
  have rest: "triple ?Q (if dget pres p = PStr ''missing'' then ret ()
        else (case map_of (bk_files b) p of
            None \<Rightarrow> fail ''backup missing''
          | Some it \<Rightarrow> bnd (gets (live_exists p)) (\<lambda>x. copy_exact it x (put_live p))))
      (\<lambda>_. restored h f L R (insert p D)) (\<lambda>_ _. False)"
  proof (cases "L p")
    case None
    with rec show ?thesis by (auto simp: recorded_def restored_def intro!: triple_ret)
  next
    case (Some it)
    with rec have it: "\<not> has_link it" "it \<noteq> Special" "dget pres p = PStr (kind_of it)"
      "map_of (bk_files b) p = Some it"
      by (auto simp: recorded_def)
    have k: "kind_of it \<noteq> ''missing''" by (auto simp: kind_of_def split: item.splits)
    have put: "restored h f L R (insert p D) (put_live p it w)" if "?Q w" for w
      using that it(1) p(2) Some by (auto simp: has_link_def intro!: restored_put)
    have fates: "?Q w \<Longrightarrow> w_fates w = []" for w
      by (simp add: restored_def)
    have "triple ?Q (bnd (gets (live_exists p)) (\<lambda>x. copy_exact it x (put_live p)))
      (\<lambda>_. restored h f L R (insert p D)) (\<lambda>_ _. False)"
    proof (rule triple_bnd [OF triple_gets [where Q = "\<lambda>x w. x = False \<and> ?Q w"]])
      fix x
      show "triple (\<lambda>w. x = False \<and> ?Q w) (copy_exact it x (put_live p))
        (\<lambda>_. restored h f L R (insert p D)) (\<lambda>_ _. False)"
        using it(1,2) put fates unfolding copy_exact_def
        by (cases it) (auto simp: has_link_def triple_def intro!: triple_io_fine [unfolded triple_def, rule_format]
            simp: io_def)
    qed (auto simp: live_exists_def)
    with it k show ?thesis by simp
  qed
  have "dget pres p \<in> {PStr ''directory'', PStr ''file'', PStr ''missing''}"
    using rec by (auto simp: recorded_def kind_of_def split: option.splits item.splits)
  then show ?thesis
    unfolding restore_path_def Let_def
    by (simp add: triple_bnd [OF remove_exact_fine [OF p] rest])
qed

lemma restore_paths_fine:
  assumes "\<forall>p \<in> set ps. p \<in> set managed_paths \<and> \<not> h_linked h p \<and> recorded L (bk_files b) pres p"
    "distinct ps" "set ps \<inter> D = {}"
  shows "triple (restored h f L R D) (for_each ps (restore_path h b pres))
    (\<lambda>_. restored h f L R (D \<union> set ps)) (\<lambda>_ _. False)"
  using assms
proof (induction ps arbitrary: D)
  case Nil
  then show ?case by (auto intro!: triple_ret)
next
  case (Cons p ps)
  have "triple (restored h f L R (insert p D)) (for_each ps (restore_path h b pres))
    (\<lambda>_. restored h f L R (insert p D \<union> set ps)) (\<lambda>_ _. False)"
    by (rule Cons.IH) (use Cons.prems in auto)
  then have IH: "triple (restored h f L R (insert p D)) (for_each ps (restore_path h b pres))
    (\<lambda>_. restored h f L R (D \<union> set (p # ps))) (\<lambda>_ _. False)"
    by simp
  show ?case
    unfolding for_each.simps
    by (rule triple_bnd [OF restore_path_fine IH]) (use Cons.prems in auto)
qed

lemma restore_fine:
  assumes "clear_paths h"
  shows "triple (\<lambda>w. exposed h f L R w \<and> w_fates w = []) (restore h f)
    (\<lambda>_ w. same_live L w \<and> w_runtime w = R \<and> w_fates w = []) (\<lambda>_ _. False)"
  unfolding triple_def
proof (intro allI impI)
  fix w assume w: "exposed h f L R w \<and> w_fates w = []"
  then obtain b where b: "map_of (w_backups w) f = Some b" "backup_is_complete b" "faithful L R b"
    by (auto simp: exposed_def backup_complete_def honest_def split: option.splits)
  then obtain pres c where f: "bk_presence b = Some (Json pres)" "bk_complete b = Some (Json c)"
    "\<forall>p \<in> set managed_paths. recorded L (bk_files b) pres p"
    "dget c ''runtime_present'' = PBool (R \<noteq> None)" "R \<noteq> None \<longrightarrow> bk_runtime b = R"
    by (auto simp: faithful_def)
  have "restored h f L R {} w"
    using w by (simp add: restored_def)
  then obtain w' where w': "for_each managed_paths (restore_path h b pres) w = (Inr (), w')"
    "restored h f L R (set managed_paths) w'"
    using restore_paths_fine [of managed_paths h L b pres "{}" f R, unfolded triple_def, rule_format, of w]
      assms f(3) distinct_managed
    by (auto simp: clear_paths_def split: prod.splits sum.splits)
  have "\<exists>w2. restore_runtime b c w' = (Inr (), w2) \<and> w_runtime w2 = R \<and> w_live w2 = w_live w' \<and> w_fates w2 = []"
    using f(4,5) w'(2)
    by (cases R) (auto simp: restore_runtime_def restored_def io_def io_atomic_def bnd_def gets_def when_do_def ret_def)
  then show "case restore h f w of (Inl e, w') \<Rightarrow> False
      | (Inr x, w') \<Rightarrow> same_live L w' \<and> w_runtime w' = R \<and> w_fates w' = []"
    using w' b(1,2) f(1,2)
    by (auto simp: restore_def bnd_def gets_def lift_exn_def read_json_def restored_def same_live_def)
qed

lemma same_live_frame [simp]:
  "same_live L (w_fates_update g w) = same_live L w"
  "same_live L (w_pending_update g1 w) = same_live L w"
  "same_live L (w_runtime_update g2 w) = same_live L w"
  "same_live L (w_events_update g3 w) = same_live L w"
  "same_live L (w_txns_update g4 w) = same_live L w"
  by (simp_all add: same_live_def)

lemma update_same_live: "triple (same_live L) (update_transaction f p cs) (\<lambda>_. same_live L) (\<lambda>_. same_live L)"
  unfolding update_transaction_def Let_def write_txn_def
  by (rule triple_bnd [OF triple_io_atomic [where Q = "same_live L"]]) (auto intro!: triple_ret)

lemma untouched_same: "untouched h f L R w \<Longrightarrow> same_live L w"
  by (simp add: untouched_def)

lemma restore_for_recovery_fine:
  assumes p: "txn_ok h f p" and h: "clear_paths h"
  shows "triple (\<lambda>w. recoverable h f L R w \<and> current f p w \<and> w_fates w = []) (restore_for_recovery h f)
    (\<lambda>_. same_live L) (\<lambda>_. same_live L)"
  unfolding triple_def
proof (intro allI impI)
  fix w assume w: "recoverable h f L R w \<and> current f p w \<and> w_fates w = []"
  have ctx: "get_context h f w = (Inr p, w)"
    using w p by (simp add: get_context_def bnd_def gets_def lift_exn_def read_json_def current_def
        txn_ok_def ret_def)
  let ?p1 = "merge_entry (status_stage ''rolling_back'' ''restoring_backup'') p"
  show "case restore_for_recovery h f w of (Inl e, w') \<Rightarrow> same_live L w' | (Inr x, w') \<Rightarrow> same_live L w'"
  proof (cases "backup_complete f w")
    case False
    then have "same_live L w"
      using w by (auto simp: recoverable_def exposed_def untouched_same)
    then have s: "same_live L (w_txns_update g w)" for g by simp
    show ?thesis
      using ctx False s w
      by (simp add: restore_for_recovery_def bnd_def gets_def update_transaction_def write_txn_def
          io_atomic_def io_def ret_def Let_def)
  next
    case True
    let ?w1 = "w_txns_update (AList.update f (Json ?p1)) w"
    have "late ?p1"
      by (rule late_rolling) (simp add: before_replacement_def)
    then have x: "exposed h f L R ?w1 \<and> w_fates ?w1 = []"
      using w p True by (auto intro: write_exposed)
    have mon: "triple (\<lambda>w. same_live L w \<and> w_runtime w = R \<and> w_fates w = []) (monitor_rollback h f ?p1)
        (\<lambda>_. same_live L) (\<lambda>_. same_live L)"
      by (rule triple_pre [OF monitor_rollback_triple]) auto
    have seq: "triple (\<lambda>w. exposed h f L R w \<and> w_fates w = []) (bnd (restore h f) (\<lambda>_. monitor_rollback h f ?p1))
        (\<lambda>_. same_live L) (\<lambda>_. same_live L)"
      by (rule triple_bnd [OF triple_weaken [OF restore_fine [OF h]] mon]) auto
    have fin: "case bnd (restore h f) (\<lambda>_. monitor_rollback h f ?p1) ?w1 of
        (Inl e, w') \<Rightarrow> same_live L w' | (Inr x, w') \<Rightarrow> same_live L w'"
      using seq [unfolded triple_def, rule_format, OF x] .
    have "restore_for_recovery h f w = bnd (restore h f) (\<lambda>_. monitor_rollback h f ?p1) ?w1"
      using ctx True w
      by (simp add: restore_for_recovery_def bnd_def gets_def update_transaction_def write_txn_def
          io_atomic_def io_def ret_def Let_def)
    then show ?thesis using fin by simp
  qed
qed

lemma recover_newest_fine:
  assumes p: "txn_ok h f p" and h: "clear_paths h"
  shows "triple (\<lambda>w. recoverable h f L R w \<and> current f p w \<and> w_fates w = []) (recover_newest h f p)
    (\<lambda>_. same_live L) (\<lambda>_. same_live L)"
proof -
  have clear: "triple (same_live L) clear_pending (\<lambda>_. same_live L) (\<lambda>_. same_live L)"
    by (rule clear_pending_triple) auto
  have early: "triple (same_live L) (bnd clear_pending (\<lambda>_. bnd (update_transaction f p
            (status_stage ''failed'' ''interrupted_before_replacement'' @ [(''error'', PStr ''restarted'')]))
            (\<lambda>_. ret 0))) (\<lambda>_. same_live L) (\<lambda>_. same_live L)"
    by (intro triple_bnd [OF clear] triple_bnd [OF update_same_live] triple_ret)
  have mark: "triple (same_live L) (bnd (update_transaction f p
             (status_stage ''recovery_required'' ''restore_failed'' @ [(''rollback_error'', exn_text e)]))
             (\<lambda>_. ret ())) (\<lambda>_. same_live L) (\<lambda>_. same_live L)" for e
    by (intro triple_bnd [OF update_same_live] triple_ret)
  have handler: "triple (same_live L) (bnd (try_except
           (bnd (update_transaction f p
             (status_stage ''recovery_required'' ''restore_failed'' @ [(''rollback_error'', exn_text e)]))
             (\<lambda>_. ret ()))
           (\<lambda>_. ret ())) (\<lambda>_. ret 1)) (\<lambda>_. same_live L) (\<lambda>_. same_live L)" for e
    by (intro triple_bnd [OF triple_try [OF mark]] triple_ret) auto
  have body: "triple (\<lambda>w. recoverable h f L R w \<and> current f p w \<and> w_fates w = [])
      (if raw_str_field p ''stage'' \<in> set before_replacement then
          bnd clear_pending (\<lambda>_. bnd (update_transaction f p
            (status_stage ''failed'' ''interrupted_before_replacement'' @ [(''error'', PStr ''restarted'')]))
            (\<lambda>_. ret 0))
        else bnd (restore_for_recovery h f) (\<lambda>ok. ret (if ok then 0 else 1)))
      (\<lambda>_. same_live L) (\<lambda>_. same_live L)"
    by (intro triple_if triple_pre [OF early] triple_bnd [OF restore_for_recovery_fine [OF p h]] triple_ret)
      (auto dest!: stage_untouched intro: untouched_same)
  show ?thesis
    unfolding recover_newest_def by (rule triple_try [OF body handler])
qed

lemma recover_fine:
  assumes h: "clear_paths h" and w: "recoverable h f L R w" "w_fates w = []"
  shows "same_live L (snd (recover_transactions h w))"
proof -
  obtain p where p: "others_closed f w" "current f p w" "txn_ok h f p"
    using recoverable_txn [OF w(1)] by blast
  show ?thesis
  proof (cases "recoverable_status (dget p ''status'')")
    case True
    then have "recover_transactions h w = recover_newest h f p w"
      using h open_only [OF p] by (simp add: recover_transactions_def bnd_def gets_def clear_paths_def)
    then show ?thesis
      using recover_newest_fine [OF p(3) h, of L R, unfolded triple_def, rule_format, of w] w p(2)
      by (auto split: prod.splits sum.splits)
  next
    case False
    then have "recover_transactions h w = (Inr 0, w)"
      using h open_only [OF p] by (simp add: recover_transactions_def bnd_def gets_def clear_paths_def ret_def)
    moreover have "same_live L w"
      using w(1) False p(2) by (auto simp: recoverable_def exposed_def has_txn_def late_def current_def untouched_same)
    ultimately show ?thesis by simp
  qed
qed

end
