(* ===== verification/Update_Properties.thy ===== *)
theory Update_Properties
  imports Update_Proofs
begin

text \<open>
  What the update transaction guarantees: a crash-safe replacement, a healthy update that
  stays, and what a candidate that fails its validation does to the next starts.
\<close>

section \<open>Restarts\<close>

text \<open>The container starts again and again, each time running \<open>recover_transactions\<close> with the
  given fates of its file operations.\<close>

definition restarts :: "host \<Rightarrow> fate list list \<Rightarrow> world \<Rightarrow> world" where
  "restarts h runs w = fold (\<lambda>fates w. snd (recover_transactions h (w\<lparr>w_fates := fates\<rparr>))) runs w"

lemma triple_snd: "triple P m (\<lambda>_. Q) (\<lambda>_. Q) \<Longrightarrow> P w \<Longrightarrow> Q (snd (m w))"
  by (cases "m w"; cases "fst (m w)") (auto simp: triple_def)

lemma restarts_keep:
  "recoverable h f L R w \<Longrightarrow> recoverable h f L R (restarts h runs w)"
proof (induction runs arbitrary: w)
  case (Cons fates runs)
  then have "recoverable h f L R (w\<lparr>w_fates := fates\<rparr>)" by simp
  from Cons.IH [OF triple_snd [OF recover_recoverable this]] show ?case
    by (simp add: restarts_def)
qed (simp add: restarts_def)

section \<open>A transaction that cannot be recovered\<close>

definition stuck :: "host \<Rightarrow> string \<Rightarrow> world \<Rightarrow> bool" where
  "stuck h f w \<longleftrightarrow> has_txn h f late w \<and> map_of (w_backups w) f = None \<and> w_fates w = []"

lemma update_fine:
  "w_fates w = [] \<Longrightarrow> update_transaction f p cs w =
     (Inr (merge_entry cs p), w_txns_update (AList.update f (Json (merge_entry cs p))) w)"
  by (simp add: update_transaction_def write_txn_def io_atomic_def io_def action_defs Let_def)

lemma context_fine:
  "current f p w \<Longrightarrow> check_context h f p \<Longrightarrow> get_context h f w = (Inr p, w)"
  by (simp add: get_context_def action_defs read_json_def current_def)

lemma stuck_recover:
  assumes s: "stuck h f w" and h: "\<not> h_linked h ''data/update/transactions''"
  shows "fst (recover_transactions h w) = Inr 1 \<and> stuck h f (snd (recover_transactions h w))"
proof -
  obtain p where p: "others_closed f w" "current f p w" "txn_ok h f p" "late p"
    using s by (auto simp: stuck_def has_txn_def current_def)
  let ?cs = "status_stage ''recovery_required'' ''backup_incomplete'' @ [(''rollback_error'', PStr ''incomplete'')]"
  let ?w = "w_txns_update (AList.update f (Json (merge_entry ?cs p))) w"
  have fates: "w_fates w = []" and b: "\<not> backup_complete f w"
    using s by (auto simp: stuck_def backup_complete_def)
  have ctx: "get_context h f w = (Inr p, w)"
    using p(2,3) by (simp add: context_fine txn_ok_def)
  have "restore_for_recovery h f w = (Inr False, ?w)"
    unfolding restore_for_recovery_def using ctx b fates by (simp add: bnd_def gets_def ret_def update_fine)
  then have "recover_transactions h w = (Inr 1, ?w)"
    using open_only [OF p(1-3)] p(4) h
    by (simp add: recover_transactions_def recover_newest_def late_def bnd_def gets_def ret_def try_except_def)
  moreover have "stuck h f ?w"
    using s p by (simp add: stuck_def) (rule has_txn_write, auto simp: late_interrupted before_replacement_def)
  ultimately show ?thesis by simp
qed

lemma stuck_restarts:
  assumes "\<not> h_linked h ''data/update/transactions''"
  shows "stuck h f w \<Longrightarrow> stuck h f (restarts h (replicate n []) w)"
proof (induction n arbitrary: w)
  case (Suc n)
  have "w\<lparr>w_fates := []\<rparr> = w"
    using Suc.prems by (cases w) (simp add: stuck_def)
  with Suc stuck_recover [OF Suc.prems assms] show ?case
    by (simp add: restarts_def)
qed (simp add: restarts_def)

lemma apply_unvalidated:
  assumes p: "current f p w" "check_context h f p" "dget p ''status'' = PStr ''prepared''"
      "dget p ''stage'' = PStr ''waiting_for_shutdown''"
    and bad: "\<not> candidate_valid (candidate_of f w) p" and w: "h_is_pid1 h" "w_fates w = []"
  shows "\<exists>e. apply_transaction h f w = (Inr 1, w_txns_update (AList.update f (Json (merge_entry
     (status_stage ''recovery_required'' ''apply_interrupted'' @ [(''error'', e)]) p))) (w\<lparr>w_payload := Some p\<rparr>))"
proof -
  let ?w = "w\<lparr>w_payload := None\<rparr>" and ?w' = "w\<lparr>w_payload := Some p\<rparr>"
  have "current f p ?w" using p(1) by (simp add: current_def)
  then have "apply_body h f ?w = (Inl (helper_error ''candidate''), ?w')"
    using p bad w by (simp add: apply_body_def context_fine bnd_def gets_def validate_candidate_def
        set_local_def modify_def fail_def raise_exn_def candidate_of_def)
  moreover have "raw_str_field p ''stage'' = ''waiting_for_shutdown''"
    using p(4) by (simp add: raw_str_field_def py_or_def)
  ultimately show ?thesis
    using w(2) by (auto simp: apply_transaction_def bnd_def modify_def try_except_def apply_failed_def
        gets_def update_fine ret_def helper_error_def killed_def)
qed

section \<open>An example\<close>

definition example_id :: string where
  "example_id = ''0123456789abcdef01234567''"

definition example_txn :: string where
  "example_txn = ''/app/data/update/transactions/'' @ example_id @ ''/transaction.json''"

definition example_payload :: "string \<Rightarrow> string \<Rightarrow> entry" where
  "example_payload status stage = [(''transaction_id'', PStr example_id), (''source_root'', PStr ''/app''),
     (''state_root'', PStr ''/app''),
     (''candidate_root'', PStr (''/app/data/update/transactions/'' @ example_id @ ''/candidate/RocketCatShell-linux'')),
     (''created_at'', PInt 5), (''current_version'', PStr ''v0.2.4''), (''target_version'', PStr ''v0.2.5''),
     (''health_urls'', PList [PStr ''http://127.0.0.1:5751'']), (''candidate_files'', PList []),
     (''status'', PStr status), (''stage'', PStr stage)]"

definition example_host :: host where
  "example_host = \<lparr>h_resolve = id, h_linked = (\<lambda>_. False), h_is_pid1 = True, h_is_file = (\<lambda>_. True),
     h_venv = (\<lambda>_. Inr ''/app/data/update/venvs/x/bin/python''), h_executable = ''/usr/bin/python'',
     h_float = (\<lambda>v. case v of PInt n \<Rightarrow> Some (of_int n) | _ \<Rightarrow> None),
     h_healthy = (\<lambda>_ v t. v = ''v0.2.5'' \<and> t = example_id)\<rparr>"

definition example_marker :: entry where
  "example_marker = runtime_payload ''v0.2.5'' ''/usr/bin/python'' ''v0.2.4'' example_id ''target_monitoring''"

definition example_world :: "string \<Rightarrow> string \<Rightarrow> fate list \<Rightarrow> world" where
  "example_world status stage fates = \<lparr>w_txns = [(example_txn, Json (example_payload status stage))],
     w_candidates = [], w_backups = [], w_live = [(''LICENSE'', Plain [1, 2, 3])],
     w_runtime = Some (Json example_marker), w_pending = Marker_file, w_payload = None, w_events = [],
     w_fates = fates\<rparr>"

lemma example_fields:
  "dget (example_payload s t) ''transaction_id'' = PStr example_id"
  "dget (example_payload s t) ''source_root'' = PStr ''/app''"
  "dget (example_payload s t) ''state_root'' = PStr ''/app''"
  "dget (example_payload s t) ''candidate_root'' =
     PStr (''/app/data/update/transactions/'' @ example_id @ ''/candidate/RocketCatShell-linux'')"
  "dget (example_payload s t) ''created_at'' = PInt 5"
  "dget (example_payload s t) ''target_version'' = PStr ''v0.2.5''"
  "dget (example_payload s t) ''health_urls'' = PList [PStr ''http://127.0.0.1:5751'']"
  "dget (example_payload s t) ''candidate_files'' = PList []"
  "dget (example_payload s t) ''status'' = PStr s" "dget (example_payload s t) ''stage'' = PStr t"
  by (simp_all add: example_payload_def dget_def)

lemma example_id_ok: "is_transaction_id example_id" "example_id \<noteq> []"
  by code_simp+

lemma example_context: "check_context example_host example_txn (example_payload s t)"
  using example_id_ok by (simp add: check_context_def raw_str_field_def py_or_def example_fields example_host_def
      example_txn_def package_root_def)

lemma example_has_txn:
  "T (example_payload status stage) \<Longrightarrow> has_txn example_host example_txn T (example_world status stage fates)"
  using example_context [of status stage]
  by (simp add: has_txn_def others_closed_def example_world_def txn_ok_def example_fields py_or_def)
    (simp add: example_host_def)

lemma example_world_simps:
  "w_live (example_world s t fates) = [(''LICENSE'', Plain [1, 2, 3])]" "w_fates (example_world s t fates) = fates"
  "w_runtime (example_world s t fates) = Some (Json example_marker)" "w_backups (example_world s t fates) = []"
  by (simp_all add: example_world_def)

lemma example_marker_simps:
  "dget example_marker ''container_runtime_generation'' = PInt 1"
  "raw_str_field example_marker ''python'' = ''/usr/bin/python''"
  by (simp_all add: example_marker_def runtime_payload_def raw_str_field_def dget_def py_or_def)

lemma example_host_simps:
  "h_resolve example_host s = s" "h_linked example_host s = False" "h_is_file example_host s = True"
  "h_healthy example_host us v t = (v = ''v0.2.5'' \<and> t = example_id)"
  by (simp_all add: example_host_def)

lemma example_clear: "clear_paths example_host"
  by (simp add: clear_paths_def example_host_def)

section \<open>The properties\<close>

text \<open>C23. An update is crash-safe: whatever happens to the file operations of
  \<open>apply_transaction\<close> (each one succeeds, fails or is the last before the process is killed,
  leaving debris), and to those of any number of interrupted recoveries after it, a recovery
  that runs without faults finds or puts back the original content of every managed path.
\<close>

theorem crash_safe_update:
  assumes "has_txn h f (\<lambda>_. True) w" "map_of (w_backups w) f = None" "clear_paths h"
  shows "\<forall>p \<in> set managed_paths. map_of (w_live (snd (recover_transactions h
     ((restarts h runs (snd (apply_transaction h f w)))\<lparr>w_fates := []\<rparr>)))) p = map_of (w_live w) p"
proof -
  have "untouched h f (map_of (w_live w)) (w_runtime w) w \<and> w_runtime w = w_runtime w"
    using assms(1,2) by (simp add: untouched_def honest_def same_live_def)
  from restarts_keep [OF triple_snd [OF apply_recoverable this], of runs]
  have "recoverable h f (map_of (w_live w)) (w_runtime w)
      ((restarts h runs (snd (apply_transaction h f w)))\<lparr>w_fates := []\<rparr>)"
    by simp
  from recover_fine [OF assms(3) this] show ?thesis
    by (simp add: same_live_def)
qed

theorem crash_safe_update_witness:
  "map_of (w_live (snd (recover_transactions example_host ((restarts example_host
       [[Fine, Kill Clean], [Fail (Partial_file [7])]]
       (snd (apply_transaction example_host example_txn (example_world ''prepared'' ''waiting_for_shutdown''
         [Fine, Kill Clean]))))\<lparr>w_fates := []\<rparr>)))) ''LICENSE'' = Some (Plain [1, 2, 3])"
proof -
  let ?w = "example_world ''prepared'' ''waiting_for_shutdown'' [Fine, Kill Clean]"
  have "map_of (w_backups ?w) example_txn = None" by (simp add: example_world_def)
  note all = crash_safe_update [OF example_has_txn [where T = "\<lambda>_. True", OF TrueI] this example_clear,
      of "[[Fine, Kill Clean], [Fail (Partial_file [7])]]"]
  have "''LICENSE'' \<in> set managed_paths"
    by (simp add: managed_paths_def managed_files_def)
  from all [rule_format, OF this] show ?thesis
    by (simp add: example_world_def)
qed

text \<open>C24. A candidate that fails its validation blocks every later start: although nothing has
  been replaced and no backup was made, the failed apply records \<open>recovery_required\<close> (the
  stage it looks at is still \<open>waiting_for_shutdown\<close>, which it does not count as before the
  replacement), and from then on \<open>recover_transactions\<close> returns 1 at every start.
\<close>

theorem failed_validation_blocks_restart:
  assumes "has_txn h f (\<lambda>p. dget p ''status'' = PStr ''prepared'' \<and>
       dget p ''stage'' = PStr ''waiting_for_shutdown'' \<and> \<not> candidate_valid (candidate_of f w) p) w"
    "map_of (w_backups w) f = None" "h_is_pid1 h" "w_fates w = []"
    "\<not> h_linked h ''data/update/transactions''"
  shows "fst (apply_transaction h f w) = Inr 1 \<and> w_live (snd (apply_transaction h f w)) = w_live w \<and>
     fst (recover_transactions h (restarts h (replicate n []) (snd (apply_transaction h f w)))) = Inr 1"
proof -
  obtain p where p: "others_closed f w" "current f p w" "txn_ok h f p" "dget p ''status'' = PStr ''prepared''"
    "dget p ''stage'' = PStr ''waiting_for_shutdown''" "\<not> candidate_valid (candidate_of f w) p"
    using assms(1) by (auto simp: has_txn_def current_def)
  then obtain e where e: "apply_transaction h f w = (Inr 1, w_txns_update (AList.update f (Json (merge_entry
     (status_stage ''recovery_required'' ''apply_interrupted'' @ [(''error'', e)]) p))) (w\<lparr>w_payload := Some p\<rparr>))"
    using apply_unvalidated [of f p w h] assms(3,4) by (auto simp: txn_ok_def)
  have "has_txn h f (\<lambda>_. True) (w\<lparr>w_payload := Some p\<rparr>)"
    using assms(1) by (auto simp: has_txn_def others_closed_def)
  then have "stuck h f (snd (apply_transaction h f w))"
    using assms(2,4) p(3) unfolding e stuck_def
    by (auto intro!: has_txn_write simp: late_interrupted before_replacement_def)
  from stuck_recover [OF stuck_restarts [OF assms(5) this] assms(5)] show ?thesis
    by (simp add: e)
qed

theorem failed_validation_blocks_restart_witness:
  "fst (recover_transactions example_host (restarts example_host (replicate 3 [])
     (snd (apply_transaction example_host example_txn
       (example_world ''prepared'' ''waiting_for_shutdown'' []))))) = Inr 1"
proof -
  let ?w = "example_world ''prepared'' ''waiting_for_shutdown'' []"
  have "has_txn example_host example_txn (\<lambda>p. dget p ''status'' = PStr ''prepared'' \<and>
       dget p ''stage'' = PStr ''waiting_for_shutdown'' \<and> \<not> candidate_valid (candidate_of example_txn ?w) p) ?w"
    by (rule example_has_txn) (simp add: example_fields candidate_valid_def)
  from failed_validation_blocks_restart [OF this, of 3] show ?thesis
    by (simp add: example_world_def example_host_def)
qed

text \<open>C25. A healthy update is final: when the watchdog of the new version sees it healthy, it
  completes the transaction and marks the runtime active without touching a managed path; a
  recovery after that leaves the installation as it is, and the next start runs the
  interpreter of the marker outside any transaction.
\<close>

theorem healthy_update_is_final:
  assumes "has_txn h f (\<lambda>p. p = payload) w" "w_fates w = []" "w_runtime w = Some (Json marker)"
    "dget payload ''transaction_id'' = PStr txn_id" "dget payload ''target_version'' = PStr ver"
    "py_iter (py_or (dget payload ''health_urls'') (PList [])) = Inr urls"
    "h_healthy h (map py_str urls) ver txn_id" "\<not> h_linked h ''data/update/transactions''"
    "py_str (dget marker ''container_runtime_generation'') = str_int 1"
    "h_is_file h (h_resolve h (raw_str_field marker ''python''))"
  shows "\<exists>w' img'. watch_transaction h f ''target'' w = (Inr 0, w') \<and> w_live w' = w_live w \<and>
     recover_transactions h w' = (Inr 0, w') \<and>
     run_runtime h img w' = Inr (h_resolve h (raw_str_field marker ''python''), [], img')"
proof -
  let ?m = "merge_entry [(''active_transaction'', PStr []), (''mode'', PStr ''active'')] marker"
  let ?cs = "status_stage ''completed'' ''completed'' @ [(''error'', PStr [])]"
  let ?p = "merge_entry ?cs payload"
  let ?w1 = "w\<lparr>w_runtime := Some (Json ?m)\<rparr>"
  let ?w2 = "w_txns_update (AList.update f (Json ?p)) ?w1"
  have p: "others_closed f w" "current f payload w" "txn_ok h f payload"
    using assms(1) by (auto simp: has_txn_def current_def)
  have req: "required_field payload k w = (Inr s, w)" if "dget payload k = PStr s" for k s
    using that by (auto simp: required_field_def dget_def ret_def split: option.splits)
  have "watch_healthy f ''target'' w = (Inr 0, ?w2)"
    using p(2) assms(2,3) by (simp add: watch_healthy_def read_txn_def read_runtime_def read_json_def current_def
        write_runtime_def io_atomic_def io_def action_defs update_fine)
  then have watch: "watch_transaction h f ''target'' w = (Inr 0, ?w2)"
    using p assms(4-7) by (simp add: watch_transaction_def context_fine txn_ok_def req try_except_def
        bnd_def lift_exn_def)
  have closed: "\<not> recoverable_status (dget ?p ''status'')"
    by (simp add: dget_merge status_stage_def recoverable_status_def terminal_statuses_def)
  have "others_closed f ?w2"
    using p(1) by (intro others_closed_write) (simp add: others_closed_def)
  then have "open_transactions h ?w2 = []"
    using open_only [of f ?w2 ?p h] p(3) closed
    by (simp add: current_def)
  then have "recover_transactions h ?w2 = (Inr 0, ?w2)"
    using assms(8) by (simp add: recover_transactions_def action_defs)
  moreover have "\<exists>img'. run_runtime h img ?w2 = Inr (h_resolve h (raw_str_field marker ''python''), [], img')"
  proof -
    have "raw_str_field ?m ''python'' = raw_str_field marker ''python''"
      "raw_str_field ?m ''active_transaction'' = []"
      by (simp_all add: raw_str_field_def dget_merge py_or_def)
    then show ?thesis
      using assms(9,10) by (simp add: run_runtime_def read_json_def dget_merge Let_def)
  qed
  ultimately show ?thesis
    using watch by auto
qed

theorem healthy_update_is_final_witness:
  "\<exists>w' img'. watch_transaction example_host example_txn ''target''
       (example_world ''monitoring'' ''monitoring_target'' []) = (Inr 0, w') \<and>
     w_live w' = [(''LICENSE'', Plain [1, 2, 3])] \<and> recover_transactions example_host w' = (Inr 0, w') \<and>
     run_runtime example_host ''v0.2.4'' w' = Inr (''/usr/bin/python'', [], img')"
proof -
  let ?w = "example_world ''monitoring'' ''monitoring_target'' []"
  have "has_txn example_host example_txn (\<lambda>p. p = example_payload ''monitoring'' ''monitoring_target'') ?w"
    by (rule example_has_txn) simp
  from healthy_update_is_final [OF this, of example_marker example_id "''v0.2.5''"
      "[PStr ''http://127.0.0.1:5751'']" "''v0.2.4''"]
  show ?thesis
    by (simp add: example_world_simps example_fields example_host_simps example_marker_simps py_or_def)
qed

end
