(* ===== verification/Action_Dispatcher.thy ===== *)
theory Action_Dispatcher
  imports Cq_Codec
begin

text \<open>
  The worker pool that executes OneBot actions, \<open>bridge/transports/action_dispatcher.py\<close>.

  \<^item> The code runs on one event loop: what happens between two \<open>await\<close>s is one step. Every
    step is a function on the state; the relation \<open>work\<close> says which steps the tasks of the
    pool may take and \<open>dispatch\<close> adds what callers and cancellation do, so that all
    interleavings are covered.
  \<^item> \<open>ds_task\<close> is where each worker task stands. \<open>asyncio.Queue\<close> and \<open>asyncio.Lock\<close> are
    modelled as the standard library documents them: an idle worker may take an item as soon
    as there is one, a lock is handed to its waiters in order.
  \<^item> The action handler is the environment: it returns a response, raises, or runs into the
    time limit of 60 seconds (then \<open>Timed_out\<close> carries what the optional resolver answers).
    A responder that raises counts as called. A cancelled task ends at its next step.
  \<^item> \<open>start\<close> is only called when no \<open>stop\<close> is in progress, which is how the transports call
    them. Requests are told apart by a ticket (the responder of the code); \<open>ds_replies\<close>
    records the calls of responders, which return or raise. Timings are left out.
\<close>

section \<open>State\<close>

record request =
  rq_ticket :: nat
  rq_action :: string
  rq_params :: entry
  rq_echo :: pyval

datatype outcome = Returned entry | Timed_out "entry option" | Raised string

datatype phase = Waiting | Handling | Replying

datatype task = Absent | Fresh | Idle | Busy phase request nat | Ended

record lock_obj =
  lk_holder :: "nat option"
  lk_waiters :: "nat list"

datatype stopping = Not_stopping | Draining | Cancelling "nat list"

record dispatcher =
  ds_codec :: codec
  ds_queue :: "request list"
  ds_task :: "nat \<Rightarrow> task"
  ds_workers :: "nat list"
  ds_active :: int
  ds_unfinished :: int \<comment> \<open>the count behind \<open>queue.join\<close>\<close>
  ds_locks :: "string \<Rightarrow> nat option"
  ds_users :: "string \<Rightarrow> int option"
  ds_lock :: "nat \<Rightarrow> lock_obj" \<comment> \<open>the lock objects by identity\<close>
  ds_next_lock :: nat
  ds_running :: bool
  ds_sequence :: nat
  ds_stop :: stopping \<comment> \<open>where the call of \<open>stop\<close> stands\<close>
  ds_counters :: "string \<Rightarrow> int"
  ds_next_ticket :: nat
  ds_replies :: "(nat \<times> entry) list"

definition action_worker_count :: nat where "action_worker_count = 8"

definition action_queue_capacity :: nat where "action_queue_capacity = 256"

definition free_lock :: lock_obj where
  "free_lock = \<lparr>lk_holder = None, lk_waiters = []\<rparr>"

definition new_dispatcher :: "codec \<Rightarrow> dispatcher" where
  "new_dispatcher cd = \<lparr>ds_codec = cd, ds_queue = [], ds_task = (\<lambda>_. Absent), ds_workers = [],
     ds_active = 0, ds_unfinished = 0, ds_locks = (\<lambda>_. None), ds_users = (\<lambda>_. None),
     ds_lock = (\<lambda>_. free_lock), ds_next_lock = 0, ds_running = False, ds_sequence = 0,
     ds_stop = Not_stopping, ds_counters = (\<lambda>_. 0), ds_next_ticket = 0, ds_replies = []\<rparr>"

definition set_task :: "nat \<Rightarrow> task \<Rightarrow> dispatcher \<Rightarrow> dispatcher" where
  "set_task w t d = d\<lparr>ds_task := (ds_task d)(w := t)\<rparr>"

definition set_lock :: "nat \<Rightarrow> lock_obj \<Rightarrow> dispatcher \<Rightarrow> dispatcher" where
  "set_lock l k d = d\<lparr>ds_lock := (ds_lock d)(l := k)\<rparr>"

definition increment :: "string \<Rightarrow> dispatcher \<Rightarrow> dispatcher" where
  "increment name d = d\<lparr>ds_counters := (ds_counters d)(name := ds_counters d name + 1)\<rparr>"

section \<open>Responses\<close>

fun key_field :: "entry \<Rightarrow> string list \<Rightarrow> string option" where
  "key_field params [] = None"
| "key_field params (k # ks) =
     (if dget params k \<noteq> PNone then Some (k @ '':'' @ py_str (dget params k)) else key_field params ks)"

definition target_key :: "string \<Rightarrow> entry \<Rightarrow> string" where
  "target_key action params =
     (case key_field params [''group_id'', ''user_id'', ''message_id'', ''id''] of
        Some k \<Rightarrow> k | None \<Rightarrow> ''action:'' @ action)"

definition request_key :: "request \<Rightarrow> string" where
  "request_key r = target_key (rq_action r) (rq_params r)"

definition response_payload :: "codec \<Rightarrow> entry \<Rightarrow> pyval \<Rightarrow> entry" where
  "response_payload cd response echo =
     [(''status'', dget_or response ''status'' (PStr ''ok'')),
      (''retcode'', dget_or response ''retcode'' (PInt 0)),
      (''data'', encode_response_data cd (dget response ''data'')),
      (''wording'', dget_or response ''wording'' (PStr [])), (''echo'', echo)]"

definition failure :: "int \<Rightarrow> string \<Rightarrow> entry" where
  "failure code wording = [(''status'', PStr ''failed''), (''retcode'', PInt code), (''data'', PNone),
     (''wording'', PStr wording)]"

definition outcome_response :: "outcome \<Rightarrow> entry" where
  "outcome_response o' = (case o' of
     Returned e \<Rightarrow> e
   | Timed_out (Some e) \<Rightarrow> e
   | Timed_out None \<Rightarrow> failure 1504 ''RocketCatShell OneBot action timed out after 60 seconds''
   | Raised text \<Rightarrow> failure 1500 text)"

definition reply :: "request \<Rightarrow> entry \<Rightarrow> dispatcher \<Rightarrow> dispatcher" where
  "reply r response d =
     d\<lparr>ds_replies := ds_replies d @ [(rq_ticket r, response_payload (ds_codec d) response (rq_echo r))]\<rparr>"

section \<open>Workers\<close>

definition spawn_worker :: "dispatcher \<Rightarrow> dispatcher" where
  "spawn_worker d = (let n = Suc (ds_sequence d) in
     set_task n Fresh (d\<lparr>ds_sequence := n, ds_workers := ds_workers d @ [n]\<rparr>))"

definition desired_workers :: "dispatcher \<Rightarrow> int" where
  "desired_workers d = min (int action_worker_count) (max 1 (int (length (ds_queue d)) + ds_active d))"

definition ensure_workers :: "dispatcher \<Rightarrow> dispatcher" where
  "ensure_workers d =
     (if \<not> ds_running d then d
      else (spawn_worker ^^ nat (desired_workers d - int (length (ds_workers d)))) d)"

definition submit :: "string \<Rightarrow> entry \<Rightarrow> pyval \<Rightarrow> dispatcher \<Rightarrow> bool \<times> dispatcher" where
  "submit action params echo d =
     (let r = \<lparr>rq_ticket = ds_next_ticket d, rq_action = action,
               rq_params = normalize_action_params params, rq_echo = echo\<rparr>;
          d = d\<lparr>ds_next_ticket := Suc (ds_next_ticket d)\<rparr>
      in if action_queue_capacity \<le> length (ds_queue d)
         then (False, reply r (failure 1503 ''RocketCatShell OneBot action queue is busy; retry later'')
                 (increment ''busy_rejected'' d))
         else (True, ensure_workers (increment ''accepted''
                 (d\<lparr>ds_queue := ds_queue d @ [r], ds_unfinished := ds_unfinished d + 1\<rparr>))))"

definition enter_lock :: "nat \<Rightarrow> request \<Rightarrow> nat \<Rightarrow> dispatcher \<Rightarrow> dispatcher" where
  "enter_lock w r l d = (let k = ds_lock d l in
     if lk_holder k = None \<and> lk_waiters k = []
     then set_lock l (k\<lparr>lk_holder := Some w\<rparr>) (set_task w (Busy Handling r l) d)
     else set_lock l (k\<lparr>lk_waiters := lk_waiters k @ [w]\<rparr>) (set_task w (Busy Waiting r l) d))"

definition lock_of :: "string \<Rightarrow> dispatcher \<Rightarrow> nat \<times> dispatcher" where
  \<comment> \<open>\<open>self._target_locks.setdefault(target_key, asyncio.Lock())\<close>\<close>
  "lock_of key d = (case ds_locks d key of
     Some l \<Rightarrow> (l, d)
   | None \<Rightarrow> (let l = ds_next_lock d in
       (l, set_lock l free_lock (d\<lparr>ds_locks := (ds_locks d)(key \<mapsto> l), ds_next_lock := Suc l\<rparr>))))"

definition begin_request :: "nat \<Rightarrow> request \<Rightarrow> dispatcher \<Rightarrow> dispatcher" where
  "begin_request w r d = (let key = request_key r in case lock_of key d of (l, d1) \<Rightarrow>
     enter_lock w r l (d1\<lparr>ds_users := (ds_users d1)(key \<mapsto>
       (case ds_users d1 key of None \<Rightarrow> 0 | Some n \<Rightarrow> n) + 1)\<rparr>))"

text \<open>From the top of the loop of \<open>_worker_loop\<close> to the next \<open>await\<close>.\<close>

definition worker_get :: "nat \<Rightarrow> dispatcher \<Rightarrow> dispatcher" where
  "worker_get w d = (case ds_queue d of
     [] \<Rightarrow> set_task w Idle d
   | r # rs \<Rightarrow> begin_request w r (d\<lparr>ds_queue := rs, ds_active := ds_active d + 1\<rparr>))"

definition acquire :: "nat \<Rightarrow> request \<Rightarrow> nat \<Rightarrow> dispatcher \<Rightarrow> dispatcher" where
  "acquire w r l d = (let k = ds_lock d l in
     set_lock l (k\<lparr>lk_holder := Some w, lk_waiters := tl (lk_waiters k)\<rparr>) (set_task w (Busy Handling r l) d))"

definition finish :: "nat \<Rightarrow> request \<Rightarrow> nat \<Rightarrow> outcome \<Rightarrow> dispatcher \<Rightarrow> dispatcher" where
  "finish w r l o' d =
     (let d1 = (case o' of Timed_out _ \<Rightarrow> increment ''timed_out'' d | _ \<Rightarrow> d)
      in set_task w (Busy Replying r l) (reply r (outcome_response o') d1))"

definition release :: "nat \<Rightarrow> nat \<Rightarrow> dispatcher \<Rightarrow> dispatcher" where
  \<comment> \<open>leaving \<open>async with lock\<close>, or giving up waiting for it\<close>
  "release w l d = (let k = ds_lock d l in
     set_lock l \<lparr>lk_holder = (if lk_holder k = Some w then None else lk_holder k),
                 lk_waiters = removeAll w (lk_waiters k)\<rparr> d)"

definition leave_target :: "string \<Rightarrow> dispatcher \<Rightarrow> dispatcher" where
  \<comment> \<open>the \<open>finally\<close> of \<open>_handle_request\<close>\<close>
  "leave_target key d =
     (let remaining = (case ds_users d key of None \<Rightarrow> 1 | Some n \<Rightarrow> n) - 1
      in if remaining \<le> 0
         then d\<lparr>ds_users := (ds_users d)(key := None), ds_locks := (ds_locks d)(key := None)\<rparr>
         else d\<lparr>ds_users := (ds_users d)(key \<mapsto> remaining)\<rparr>)"

definition end_request :: "nat \<Rightarrow> request \<Rightarrow> nat \<Rightarrow> dispatcher \<Rightarrow> dispatcher" where
  \<comment> \<open>both \<open>finally\<close> blocks: of \<open>_handle_request\<close> and of \<open>_worker_loop\<close>\<close>
  "end_request w r l d =
     (let d1 = leave_target (request_key r) (release w l d)
      in d1\<lparr>ds_active := max 0 (ds_active d1 - 1), ds_unfinished := ds_unfinished d1 - 1\<rparr>)"

definition replied :: "nat \<Rightarrow> request \<Rightarrow> nat \<Rightarrow> bool \<Rightarrow> dispatcher \<Rightarrow> dispatcher" where
  \<comment> \<open>the responder returned (or raised), and on to the next request\<close>
  "replied w r l ok d =
     worker_get w (increment (if ok then ''processed'' else ''failed'')
       (end_request w r l (set_task w Fresh d)))"

definition on_worker_done :: "nat \<Rightarrow> bool \<Rightarrow> dispatcher \<Rightarrow> dispatcher" where
  "on_worker_done w was_cancelled d =
     (let d1 = set_task w Absent (d\<lparr>ds_workers := removeAll w (ds_workers d)\<rparr>)
      in if \<not> was_cancelled \<and> ds_running d1 \<and> ds_queue d1 \<noteq> [] then ensure_workers d1 else d1)"

section \<open>Starting, stopping, cancelling\<close>

definition start :: "dispatcher \<Rightarrow> dispatcher" where
  "start d = d\<lparr>ds_running := True\<rparr>"

definition stop_begin :: "dispatcher \<Rightarrow> dispatcher" where
  "stop_begin d = d\<lparr>ds_running := False, ds_stop := Draining\<rparr>"

definition stop_cancel :: "dispatcher \<Rightarrow> dispatcher" where
  "stop_cancel d = d\<lparr>ds_stop := Cancelling (filter (\<lambda>w. ds_task d w \<notin> {Absent, Ended}) (ds_workers d)),
     ds_workers := []\<rparr>"

definition discard_pending :: "dispatcher \<Rightarrow> nat \<times> dispatcher" where
  "discard_pending d = (length (ds_queue d),
     d\<lparr>ds_queue := [], ds_unfinished := ds_unfinished d - int (length (ds_queue d))\<rparr>)"

definition stop_finish :: "dispatcher \<Rightarrow> dispatcher" where
  "stop_finish d = (snd (discard_pending d))
     \<lparr>ds_locks := (\<lambda>_. None), ds_users := (\<lambda>_. None), ds_stop := Not_stopping\<rparr>"

definition cancelled :: "dispatcher \<Rightarrow> nat \<Rightarrow> bool" where
  "cancelled d w = (case ds_stop d of Cancelling ws \<Rightarrow> w \<in> set ws | _ \<Rightarrow> False)"

definition cancel_task :: "nat \<Rightarrow> dispatcher \<Rightarrow> dispatcher" where
  "cancel_task w d = (case ds_task d w of
     Busy ph r l \<Rightarrow> end_request w r l (set_task w Ended d)
   | _ \<Rightarrow> set_task w Ended d)"

section \<open>Steps\<close>

inductive work :: "dispatcher \<Rightarrow> dispatcher \<Rightarrow> bool" where
  begin_get: "ds_task d w = Fresh \<Longrightarrow> \<not> cancelled d w \<Longrightarrow> work d (worker_get w d)"
| resume_get: "ds_task d w = Idle \<Longrightarrow> ds_queue d \<noteq> [] \<Longrightarrow> \<not> cancelled d w \<Longrightarrow> work d (worker_get w d)"
| idle_timeout: "ds_task d w = Idle \<Longrightarrow> \<not> cancelled d w \<Longrightarrow> work d (set_task w Ended d)"
| worker_done: "ds_task d w = Ended \<Longrightarrow> work d (on_worker_done w (cancelled d w) d)"
| lock_acquired: "ds_task d w = Busy Waiting r l \<Longrightarrow> lk_holder (ds_lock d l) = None \<Longrightarrow>
     hd (lk_waiters (ds_lock d l)) = w \<Longrightarrow> \<not> cancelled d w \<Longrightarrow> work d (acquire w r l d)"
| handler_done: "ds_task d w = Busy Handling r l \<Longrightarrow> \<not> cancelled d w \<Longrightarrow> work d (finish w r l o' d)"
| responder_done: "ds_task d w = Busy Replying r l \<Longrightarrow> \<not> cancelled d w \<Longrightarrow> work d (replied w r l ok d)"

inductive dispatch :: "dispatcher \<Rightarrow> dispatcher \<Rightarrow> bool" where
  working: "work d d' \<Longrightarrow> dispatch d d'"
| submitted: "dispatch d (snd (submit action params echo d))"
| started: "ds_stop d = Not_stopping \<Longrightarrow> dispatch d (start d)"
| stopping: "ds_stop d = Not_stopping \<Longrightarrow> dispatch d (stop_begin d)"
| draining_over: "ds_stop d = Draining \<Longrightarrow> dispatch d (stop_cancel d)"
| task_cancelled: "cancelled d w \<Longrightarrow> ds_task d w \<notin> {Absent, Ended} \<Longrightarrow> dispatch d (cancel_task w d)"
| stopped: "ds_stop d = Cancelling ws \<Longrightarrow> \<forall>w \<in> set ws. ds_task d w \<in> {Absent, Ended} \<Longrightarrow>
     dispatch d (stop_finish d)"

definition dispatch_states :: "codec \<Rightarrow> dispatcher \<Rightarrow> bool" where
  \<comment> \<open>the reachable states\<close>
  "dispatch_states cd = dispatch\<^sup>*\<^sup>* (new_dispatcher cd)"

inductive_cases work_elim: "work d d'"

inductive_cases dispatch_elim: "dispatch d d'"

end
