(* ===== verification/Dispatcher_Proofs.thy ===== *)
theory Dispatcher_Proofs
  imports Action_Dispatcher
begin

text \<open>
  The invariant of the action worker pool: how locks, user counts, worker list, counters and
  tickets agree with where the worker tasks stand. Each part is kept by each step.
\<close>

section \<open>Where the tasks stand\<close>

definition busy :: "(nat \<Rightarrow> task) \<Rightarrow> nat set" where
  "busy T = {w. \<exists>ph r l. T w = Busy ph r l}"

definition users :: "(nat \<Rightarrow> task) \<Rightarrow> string \<Rightarrow> nat set" where
  "users T k = {w. \<exists>ph r l. T w = Busy ph r l \<and> request_key r = k}"

definition waiting_on :: "(nat \<Rightarrow> task) \<Rightarrow> nat \<Rightarrow> nat set" where
  "waiting_on T l = {w. \<exists>r. T w = Busy Waiting r l}"

definition holding :: "(nat \<Rightarrow> task) \<Rightarrow> nat \<Rightarrow> nat set" where
  "holding T l = {w. \<exists>ph r. T w = Busy ph r l \<and> ph \<noteq> Waiting}"

definition is_busy :: "task \<Rightarrow> bool" where
  "is_busy t = (\<exists>ph r l. t = Busy ph r l)"

lemma is_busy_simps [simp]: "is_busy (Busy ph r l)" "\<not> is_busy Absent" "\<not> is_busy Fresh" "\<not> is_busy Idle"
  "\<not> is_busy Ended"
  by (simp_all add: is_busy_def)

lemma busy_update: "busy (T(w := t)) = (if is_busy t then insert w (busy T) else busy T - {w})"
  by (auto simp: busy_def is_busy_def)

lemma busy_iff: "w \<in> busy T \<longleftrightarrow> is_busy (T w)"
  by (simp add: busy_def is_busy_def)

lemma users_update: "users (T(w := t)) k =
    (if \<exists>ph r l. t = Busy ph r l \<and> request_key r = k then insert w (users T k) else users T k - {w})"
  by (auto simp: users_def)

lemma users_busy: "users T k \<subseteq> busy T"
  by (auto simp: users_def busy_def)

lemma waiting_update: "waiting_on (T(w := t)) l =
    (if \<exists>r. t = Busy Waiting r l then insert w (waiting_on T l) else waiting_on T l - {w})"
  by (auto simp: waiting_on_def)

lemma holding_update: "holding (T(w := t)) l =
    (if \<exists>ph r. t = Busy ph r l \<and> ph \<noteq> Waiting then insert w (holding T l) else holding T l - {w})"
  by (auto simp: holding_def)

lemma not_in_sets: "\<not> is_busy (T w) \<Longrightarrow> w \<notin> busy T \<and> w \<notin> users T k \<and> w \<notin> waiting_on T l \<and> w \<notin> holding T l"
  by (auto simp: busy_def users_def waiting_on_def holding_def is_busy_def)

lemmas task_updates = busy_update users_update waiting_update holding_update

section \<open>Locks\<close>

definition keyed :: "dispatcher \<Rightarrow> bool" where
  "keyed d \<longleftrightarrow> (\<forall>w ph r l. ds_task d w = Busy ph r l \<longrightarrow> ds_locks d (request_key r) = Some l)"

definition counted :: "dispatcher \<Rightarrow> bool" where
  "counted d \<longleftrightarrow> finite (busy (ds_task d)) \<and> (\<forall>k. ds_users d k =
     (if users (ds_task d) k = {} then None else Some (int (card (users (ds_task d) k)))))"

definition present :: "dispatcher \<Rightarrow> bool" where
  "present d \<longleftrightarrow> (\<forall>k. ds_locks d k = None \<longleftrightarrow> users (ds_task d) k = {})"

definition separate :: "dispatcher \<Rightarrow> bool" where
  "separate d \<longleftrightarrow> (\<forall>k l. ds_locks d k = Some l \<longrightarrow> l < ds_next_lock d \<and> (\<forall>k'. ds_locks d k' = Some l \<longrightarrow> k' = k))"

definition lock_fits :: "(nat \<Rightarrow> task) \<Rightarrow> nat \<Rightarrow> lock_obj \<Rightarrow> bool" where
  "lock_fits T l k \<longleftrightarrow> holding T l = set_option (lk_holder k) \<and>
     distinct (lk_waiters k) \<and> set (lk_waiters k) = waiting_on T l"

definition handed :: "dispatcher \<Rightarrow> bool" where
  "handed d \<longleftrightarrow> (\<forall>l. lock_fits (ds_task d) l (ds_lock d l))"

definition locks_ok :: "dispatcher \<Rightarrow> bool" where
  "locks_ok d \<longleftrightarrow> keyed d \<and> counted d \<and> present d \<and> separate d \<and> handed d"

lemmas lock_inv_defs = keyed_def counted_def present_def separate_def handed_def

lemma keyedD: "keyed d \<Longrightarrow> ds_task d w = Busy ph r l \<Longrightarrow> ds_locks d (request_key r) = Some l"
  by (auto simp: keyed_def)

text \<open>Changes that concern no request.\<close>

lemma locks_ok_calm:
  assumes "\<not> is_busy (ds_task d w)" "\<not> is_busy t"
  shows "locks_ok (set_task w t d) = locks_ok d"
proof -
  let ?T = "ds_task d"
  have s: "busy (?T(w := t)) = busy ?T" "users (?T(w := t)) = users ?T"
    "waiting_on (?T(w := t)) = waiting_on ?T" "holding (?T(w := t)) = holding ?T"
    using not_in_sets [of ?T w] assms
    by (auto simp: task_updates fun_eq_iff is_busy_def)
  have "keyed (set_task w t d) = keyed d"
  proof -
    have "(?T(w := t)) v = Busy ph r l \<longleftrightarrow> ?T v = Busy ph r l" for v ph r l
      using assms by (auto simp: is_busy_def)
    then show ?thesis by (simp add: keyed_def set_task_def)
  qed
  then show ?thesis
    by (simp add: locks_ok_def counted_def present_def separate_def handed_def lock_fits_def set_task_def s)
qed

lemma locks_ok_frame [simp]:
  "locks_ok (ds_queue_update g1 d) = locks_ok d" "locks_ok (ds_workers_update g2 d) = locks_ok d"
  "locks_ok (ds_active_update g3 d) = locks_ok d" "locks_ok (ds_unfinished_update g4 d) = locks_ok d"
  "locks_ok (ds_running_update g5 d) = locks_ok d" "locks_ok (ds_sequence_update g6 d) = locks_ok d"
  "locks_ok (ds_stop_update g7 d) = locks_ok d" "locks_ok (ds_counters_update g8 d) = locks_ok d"
  "locks_ok (ds_next_ticket_update g9 d) = locks_ok d" "locks_ok (ds_replies_update g10 d) = locks_ok d"
  by (simp_all add: locks_ok_def lock_inv_defs)

lemma locks_ok_increment [simp]: "locks_ok (increment n d) = locks_ok d"
  by (simp add: increment_def)

lemma locks_ok_reply [simp]: "locks_ok (reply r e d) = locks_ok d"
  by (simp add: reply_def)

text \<open>A lock no request uses is free.\<close>

lemma unused_lock:
  assumes "locks_ok d" "\<And>k. ds_locks d k \<noteq> Some l"
  shows "holding (ds_task d) l = {}" "waiting_on (ds_task d) l = {}"
  using assms keyedD unfolding holding_def waiting_on_def locks_ok_def by blast+

lemma fresh_lock: "locks_ok d \<Longrightarrow> ds_locks d k \<noteq> Some (ds_next_lock d)"
  by (auto simp: locks_ok_def separate_def)

text \<open>Taking up a request.\<close>

definition entering :: "nat \<Rightarrow> request \<Rightarrow> nat \<Rightarrow> dispatcher \<Rightarrow> bool" where
  \<comment> \<open>the lock of the target is registered, its users not yet counted\<close>
  "entering w r l d \<longleftrightarrow> \<not> is_busy (ds_task d w) \<and> keyed d \<and> counted d \<and> separate d \<and> handed d \<and>
     ds_locks d (request_key r) = Some l \<and>
     (\<forall>k. k \<noteq> request_key r \<longrightarrow> (ds_locks d k = None \<longleftrightarrow> users (ds_task d) k = {}))"

lemma lock_of_entering:
  assumes "locks_ok d" "\<not> is_busy (ds_task d w)" "lock_of (request_key r) d = (l, d1)"
  shows "entering w r l d1 \<and> ds_users d1 = ds_users d \<and> ds_task d1 = ds_task d"
proof (cases "ds_locks d (request_key r)")
  case None
  have free: "holding (ds_task d) (ds_next_lock d) = {}" "waiting_on (ds_task d) (ds_next_lock d) = {}"
    using unused_lock [OF assms(1)] fresh_lock [OF assms(1)] by blast+
  have none: "users (ds_task d) (request_key r) = {}"
    using None assms(1) by (auto simp: locks_ok_def present_def)
  have d1: "l = ds_next_lock d" "d1 = set_lock l free_lock (d\<lparr>ds_locks := (ds_locks d)(request_key r \<mapsto> l),
      ds_next_lock := Suc l\<rparr>)"
    using None assms(3) by (auto simp: lock_of_def Let_def)
  have "keyed d1"
    using assms(1) none by (auto simp: d1 keyed_def locks_ok_def set_lock_def users_def)
  moreover have "separate d1"
    using assms(1) unfolding d1 separate_def locks_ok_def set_lock_def
    by (auto simp: less_Suc_eq split: if_splits)
  moreover have "handed d1"
    using assms(1) free by (auto simp: d1 handed_def locks_ok_def set_lock_def lock_fits_def free_lock_def)
  moreover have "counted d1"
    using assms(1) by (simp add: d1 counted_def locks_ok_def set_lock_def)
  ultimately show ?thesis
    using assms(1,2) by (simp add: entering_def d1 set_lock_def locks_ok_def present_def)
next
  case (Some l')
  then show ?thesis
    using assms by (auto simp: lock_of_def entering_def locks_ok_def present_def)
qed

lemma card_users_insert:
  assumes "counted d" "\<not> is_busy (ds_task d w)"
  shows "(case ds_users d k of None \<Rightarrow> 0 | Some n \<Rightarrow> n) + 1 = int (card (insert w (users (ds_task d) k)))"
proof -
  have "finite (users (ds_task d) k)"
    using assms(1) finite_subset [OF users_busy] by (auto simp: counted_def)
  then show ?thesis
    using assms not_in_sets [of "ds_task d" w k] by (auto simp: counted_def)
qed

lemma entering_locks:
  assumes e: "entering w r l d"
  shows "locks_ok (enter_lock w r l (d\<lparr>ds_users := (ds_users d)(request_key r \<mapsto>
     (case ds_users d (request_key r) of None \<Rightarrow> 0 | Some n \<Rightarrow> n) + 1)\<rparr>))"
proof -
  let ?T = "ds_task d" and ?k = "ds_lock d l"
  let ?ph = "if lk_holder ?k = None \<and> lk_waiters ?k = [] then Handling else Waiting"
  let ?lk = "if lk_holder ?k = None \<and> lk_waiters ?k = [] then ?k\<lparr>lk_holder := Some w\<rparr>
    else ?k\<lparr>lk_waiters := lk_waiters ?k @ [w]\<rparr>"
  let ?d = "enter_lock w r l (d\<lparr>ds_users := (ds_users d)(request_key r \<mapsto>
     (case ds_users d (request_key r) of None \<Rightarrow> 0 | Some n \<Rightarrow> n) + 1)\<rparr>)"
  note notin = not_in_sets [of ?T w]
  have nb: "\<not> is_busy (?T w)" using e by (simp add: entering_def)
  have d: "ds_task ?d = ?T(w := Busy ?ph r l)" "ds_lock ?d = (ds_lock d)(l := ?lk)" "ds_locks ?d = ds_locks d"
    "ds_next_lock ?d = ds_next_lock d"
    "ds_users ?d = (ds_users d)(request_key r \<mapsto> int (card (insert w (users ?T (request_key r)))))"
    using card_users_insert [of d w "request_key r"] e
    by (simp_all add: enter_lock_def Let_def set_task_def set_lock_def entering_def)
  have users: "users (?T(w := Busy ?ph r l)) k = (if k = request_key r then insert w (users ?T k) else users ?T k)" for k
    unfolding users_update using notin [OF nb] by auto
  have "keyed ?d"
    using e unfolding keyed_def d by (auto simp: entering_def keyed_def)
  moreover have "counted ?d"
    using e unfolding counted_def d users by (auto simp: entering_def counted_def busy_update)
  moreover have "present ?d"
    using e unfolding present_def d users by (auto simp: entering_def)
  moreover have "separate ?d"
    using e unfolding separate_def d by (simp add: entering_def separate_def)
  moreover have "handed ?d"
    unfolding handed_def
  proof
    fix m
    have fit: "lock_fits ?T m (ds_lock d m)" using e by (simp add: entering_def handed_def)
    show "lock_fits (ds_task ?d) m (ds_lock ?d m)"
      using fit notin [OF nb] unfolding d lock_fits_def waiting_update holding_update
      by (auto split: if_splits)
  qed
  ultimately show ?thesis by (simp add: locks_ok_def)
qed

lemma begin_request_locks:
  assumes "locks_ok d" "\<not> is_busy (ds_task d w)"
  shows "locks_ok (begin_request w r d)"
proof -
  obtain l d1 where l: "lock_of (request_key r) d = (l, d1)" by fastforce
  from lock_of_entering [OF assms l] have e: "entering w r l d1" by simp
  from entering_locks [OF e] show ?thesis
    by (simp add: begin_request_def l Let_def)
qed

text \<open>A request that moves on keeps its target: only who waits for and holds the lock changes.\<close>

lemma busy_moves:
  assumes ok: "locks_ok d" and w: "ds_task d w = Busy ph r l" and d': "ds_task d' = (ds_task d)(w := Busy ph' r l)"
    "ds_locks d' = ds_locks d" "ds_users d' = ds_users d" "ds_next_lock d' = ds_next_lock d"
    and h: "handed d'"
  shows "locks_ok d'"
proof -
  have u: "users ((ds_task d)(w := Busy ph' r l)) = users (ds_task d)"
    using w by (auto simp: users_def fun_eq_iff)
  have b: "busy ((ds_task d)(w := Busy ph' r l)) = busy (ds_task d)"
    using w by (auto simp: busy_def)
  have "keyed d'"
    using ok keyedD [OF _ w] unfolding keyed_def d' by (auto simp: locks_ok_def keyed_def)
  moreover have "counted d'" "present d'" "separate d'"
    using ok unfolding locks_ok_def counted_def present_def separate_def d' u b by simp_all
  ultimately show ?thesis using h by (simp add: locks_ok_def)
qed

lemma other_lock: "ds_task d w = Busy ph r l \<Longrightarrow> m \<noteq> l \<Longrightarrow>
    w \<notin> holding (ds_task d) m \<and> w \<notin> waiting_on (ds_task d) m"
  by (simp add: holding_def waiting_on_def)

lemma acquire_locks:
  assumes ok: "locks_ok d" and w: "ds_task d w = Busy Waiting r l"
    and free: "lk_holder (ds_lock d l) = None" "hd (lk_waiters (ds_lock d l)) = w"
  shows "locks_ok (acquire w r l d)"
proof (rule busy_moves [OF ok w, where ph' = Handling])
  let ?T = "ds_task d" and ?k = "ds_lock d l"
  have fit: "lock_fits ?T m (ds_lock d m)" for m using ok by (simp add: locks_ok_def handed_def)
  have "w \<in> waiting_on ?T l" using w by (simp add: waiting_on_def)
  then obtain ws where "lk_waiters ?k = w # ws"
    using fit [of l] free(2) by (cases "lk_waiters ?k") (auto simp: lock_fits_def)
  then have t: "distinct (tl (lk_waiters ?k))" "set (tl (lk_waiters ?k)) = waiting_on ?T l - {w}"
    using fit [of l] by (auto simp: lock_fits_def)
  show "handed (acquire w r l d)"
    unfolding handed_def
  proof
    fix m
    show "lock_fits (ds_task (acquire w r l d)) m (ds_lock (acquire w r l d) m)"
      using fit [of m] t free other_lock [OF w, of m]
      by (cases "m = l")
        (auto simp: lock_fits_def acquire_def Let_def set_task_def set_lock_def waiting_update holding_update)
  qed
qed (simp_all add: acquire_def Let_def set_task_def set_lock_def)

lemma finish_locks:
  assumes ok: "locks_ok d" and w: "ds_task d w = Busy Handling r l"
  shows "locks_ok (finish w r l o' d)"
proof (rule busy_moves [OF ok w, where ph' = Replying])
  have "holding ((ds_task d)(w := Busy Replying r l)) = holding (ds_task d)"
    "waiting_on ((ds_task d)(w := Busy Replying r l)) = waiting_on (ds_task d)"
    using w by (auto simp: holding_def waiting_on_def fun_eq_iff)
  then show "handed (finish w r l o' d)"
    using ok by (auto simp: locks_ok_def handed_def lock_fits_def finish_def set_task_def increment_def
        reply_def split: outcome.split)
qed (simp_all add: finish_def set_task_def increment_def reply_def split: outcome.split)

lemma end_request_parts:
  assumes ok: "locks_ok d" and w: "ds_task d w = Busy ph r l" and t: "\<not> is_busy t"
  defines "d' \<equiv> end_request w r l (set_task w t d)" and "U \<equiv> users (ds_task d) (request_key r) - {w}"
  shows "ds_task d' = (ds_task d)(w := t)"
    "ds_users d' = (ds_users d)(request_key r := (if U = {} then None else Some (int (card U))))"
    "ds_locks d' = (if U = {} then (ds_locks d)(request_key r := None) else ds_locks d)"
    "ds_next_lock d' = ds_next_lock d"
    "ds_lock d' = (ds_lock d)(l := \<lparr>lk_holder = (if lk_holder (ds_lock d l) = Some w then None else lk_holder (ds_lock d l)),
        lk_waiters = removeAll w (lk_waiters (ds_lock d l))\<rparr>)"
proof -
  have f: "finite (users (ds_task d) (request_key r))"
    using ok finite_subset [OF users_busy] by (auto simp: locks_ok_def counted_def)
  have m: "w \<in> users (ds_task d) (request_key r)" using w by (auto simp: users_def)
  have u: "card (users (ds_task d) (request_key r)) = Suc (card U)" "finite U"
    "users (ds_task d) (request_key r) \<noteq> {}"
    using card.remove [OF f m] f m by (auto simp: U_def)
  then have n: "ds_users d (request_key r) = Some (int (card U) + 1)" "card U = 0 \<longleftrightarrow> U = {}"
    using ok by (auto simp: locks_ok_def counted_def)
  then show "ds_task d' = (ds_task d)(w := t)"
    "ds_users d' = (ds_users d)(request_key r := (if U = {} then None else Some (int (card U))))"
    "ds_locks d' = (if U = {} then (ds_locks d)(request_key r := None) else ds_locks d)"
    "ds_next_lock d' = ds_next_lock d"
    "ds_lock d' = (ds_lock d)(l := \<lparr>lk_holder = (if lk_holder (ds_lock d l) = Some w then None else lk_holder (ds_lock d l)),
        lk_waiters = removeAll w (lk_waiters (ds_lock d l))\<rparr>)"
    by (auto simp: d'_def end_request_def leave_target_def release_def set_task_def set_lock_def Let_def)
qed

lemma end_request_locks:
  assumes ok: "locks_ok d" and w: "ds_task d w = Busy ph r l" and t: "\<not> is_busy t"
  shows "locks_ok (end_request w r l (set_task w t d))"
proof -
  let ?T = "ds_task d" and ?U = "users (ds_task d) (request_key r) - {w}"
  note d' = end_request_parts [OF ok w t]
  have users: "users (?T(w := t)) k = (if k = request_key r then ?U else users ?T k)" for k
    using t w unfolding users_update by (auto simp: is_busy_def users_def)
  have busy: "busy (?T(w := t)) = busy ?T - {w}"
    using t by (simp add: busy_update)
  have "keyed (end_request w r l (set_task w t d))"
    unfolding keyed_def
  proof (intro allI impI)
    fix v ph' r' l'
    assume "ds_task (end_request w r l (set_task w t d)) v = Busy ph' r' l'"
    then have v: "v \<noteq> w" "?T v = Busy ph' r' l'"
      using t by (auto simp: d' is_busy_def split: if_splits)
    then have "request_key r' = request_key r \<Longrightarrow> ?U \<noteq> {}" by (auto simp: users_def)
    with v show "ds_locks (end_request w r l (set_task w t d)) (request_key r') = Some l'"
      using ok keyedD [of d v] by (auto simp: d' locks_ok_def)
  qed
  moreover have "counted (end_request w r l (set_task w t d))"
    using ok unfolding counted_def d' users busy by (simp add: locks_ok_def counted_def)
  moreover have "present (end_request w r l (set_task w t d))"
    using ok unfolding present_def d' users by (auto simp: locks_ok_def present_def)
  moreover have "separate (end_request w r l (set_task w t d))"
    using ok unfolding separate_def d' by (auto simp: locks_ok_def separate_def split: if_splits)
  moreover have "handed (end_request w r l (set_task w t d))"
    unfolding handed_def
  proof
    fix m
    have fit: "lock_fits ?T m (ds_lock d m)" using ok by (simp add: locks_ok_def handed_def)
    show "lock_fits (ds_task (end_request w r l (set_task w t d))) m (ds_lock (end_request w r l (set_task w t d)) m)"
      using fit other_lock [OF w, of m] t unfolding d' lock_fits_def
      by (auto simp: waiting_update holding_update is_busy_def distinct_removeAll split: if_splits)
  qed
  ultimately show ?thesis by (simp add: locks_ok_def)
qed

section \<open>What the steps change\<close>

text \<open>Frame rules: the fields a step leaves alone, and where it leaves its own task.\<close>

lemma set_task_frame [simp]:
  "ds_queue (set_task w t d) = ds_queue d" "ds_workers (set_task w t d) = ds_workers d"
  "ds_active (set_task w t d) = ds_active d" "ds_unfinished (set_task w t d) = ds_unfinished d"
  "ds_running (set_task w t d) = ds_running d" "ds_sequence (set_task w t d) = ds_sequence d"
  "ds_stop (set_task w t d) = ds_stop d" "ds_next_ticket (set_task w t d) = ds_next_ticket d"
  "ds_replies (set_task w t d) = ds_replies d" "ds_locks (set_task w t d) = ds_locks d"
  "ds_users (set_task w t d) = ds_users d" "ds_lock (set_task w t d) = ds_lock d"
  "ds_next_lock (set_task w t d) = ds_next_lock d" "ds_codec (set_task w t d) = ds_codec d"
  "ds_counters (set_task w t d) = ds_counters d"
  by (simp_all add: set_task_def)

lemma set_task_task [simp]: "ds_task (set_task w t d) = (ds_task d)(w := t)"
  by (simp add: set_task_def)

lemma increment_frame [simp]:
  "ds_queue (increment n d) = ds_queue d" "ds_workers (increment n d) = ds_workers d"
  "ds_active (increment n d) = ds_active d" "ds_unfinished (increment n d) = ds_unfinished d"
  "ds_running (increment n d) = ds_running d" "ds_sequence (increment n d) = ds_sequence d"
  "ds_stop (increment n d) = ds_stop d" "ds_next_ticket (increment n d) = ds_next_ticket d"
  "ds_replies (increment n d) = ds_replies d" "ds_task (increment n d) = ds_task d"
  by (simp_all add: increment_def)

lemma set_lock_frame [simp]:
  "ds_queue (set_lock l k d) = ds_queue d" "ds_workers (set_lock l k d) = ds_workers d"
  "ds_active (set_lock l k d) = ds_active d" "ds_unfinished (set_lock l k d) = ds_unfinished d"
  "ds_running (set_lock l k d) = ds_running d" "ds_sequence (set_lock l k d) = ds_sequence d"
  "ds_stop (set_lock l k d) = ds_stop d" "ds_next_ticket (set_lock l k d) = ds_next_ticket d"
  "ds_replies (set_lock l k d) = ds_replies d" "ds_task (set_lock l k d) = ds_task d"
  by (simp_all add: set_lock_def)

lemma reply_frame [simp]:
  "ds_queue (reply r e d) = ds_queue d" "ds_workers (reply r e d) = ds_workers d"
  "ds_active (reply r e d) = ds_active d" "ds_unfinished (reply r e d) = ds_unfinished d"
  "ds_running (reply r e d) = ds_running d" "ds_sequence (reply r e d) = ds_sequence d"
  "ds_stop (reply r e d) = ds_stop d" "ds_next_ticket (reply r e d) = ds_next_ticket d"
  "ds_task (reply r e d) = ds_task d"
  by (simp_all add: reply_def)

lemma enter_lock_frame [simp]:
  "ds_queue (enter_lock w r l d) = ds_queue d" "ds_workers (enter_lock w r l d) = ds_workers d"
  "ds_active (enter_lock w r l d) = ds_active d" "ds_unfinished (enter_lock w r l d) = ds_unfinished d"
  "ds_running (enter_lock w r l d) = ds_running d" "ds_sequence (enter_lock w r l d) = ds_sequence d"
  "ds_stop (enter_lock w r l d) = ds_stop d" "ds_next_ticket (enter_lock w r l d) = ds_next_ticket d"
  "ds_replies (enter_lock w r l d) = ds_replies d"
  by (simp_all add: enter_lock_def Let_def)

definition entry_phase :: "dispatcher \<Rightarrow> nat \<Rightarrow> phase" where
  "entry_phase d l = (if lk_holder (ds_lock d l) = None \<and> lk_waiters (ds_lock d l) = [] then Handling else Waiting)"

lemma enter_lock_task: "ds_task (enter_lock w r l d) = (ds_task d)(w := Busy (entry_phase d l) r l)"
  by (simp add: enter_lock_def entry_phase_def Let_def)

lemma lock_of_frame [simp]:
  "ds_queue (snd (lock_of k d)) = ds_queue d" "ds_workers (snd (lock_of k d)) = ds_workers d"
  "ds_active (snd (lock_of k d)) = ds_active d" "ds_unfinished (snd (lock_of k d)) = ds_unfinished d"
  "ds_running (snd (lock_of k d)) = ds_running d" "ds_sequence (snd (lock_of k d)) = ds_sequence d"
  "ds_stop (snd (lock_of k d)) = ds_stop d" "ds_next_ticket (snd (lock_of k d)) = ds_next_ticket d"
  "ds_replies (snd (lock_of k d)) = ds_replies d" "ds_task (snd (lock_of k d)) = ds_task d"
  by (simp_all add: lock_of_def Let_def split: option.split)

lemma begin_request_eq:
  "begin_request w r d = (let key = request_key r; l = fst (lock_of key d); d1 = snd (lock_of key d) in
     enter_lock w r l (d1\<lparr>ds_users := (ds_users d1)(key \<mapsto>
       (case ds_users d1 key of None \<Rightarrow> 0 | Some n \<Rightarrow> n) + 1)\<rparr>))"
  by (simp add: begin_request_def split_beta Let_def)

lemma begin_request_frame [simp]:
  "ds_queue (begin_request w r d) = ds_queue d" "ds_workers (begin_request w r d) = ds_workers d"
  "ds_active (begin_request w r d) = ds_active d"
  "ds_unfinished (begin_request w r d) = ds_unfinished d"
  "ds_running (begin_request w r d) = ds_running d" "ds_sequence (begin_request w r d) = ds_sequence d"
  "ds_stop (begin_request w r d) = ds_stop d" "ds_next_ticket (begin_request w r d) = ds_next_ticket d"
  "ds_replies (begin_request w r d) = ds_replies d"
  by (simp_all add: begin_request_eq Let_def)

lemma begin_request_task:
  "\<exists>ph l. ph \<noteq> Replying \<and> ds_task (begin_request w r d) = (ds_task d)(w := Busy ph r l)"
  by (auto simp: begin_request_eq Let_def enter_lock_task entry_phase_def)

lemma acquire_frame [simp]:
  "ds_queue (acquire w r l d) = ds_queue d" "ds_workers (acquire w r l d) = ds_workers d"
  "ds_active (acquire w r l d) = ds_active d" "ds_unfinished (acquire w r l d) = ds_unfinished d"
  "ds_running (acquire w r l d) = ds_running d" "ds_sequence (acquire w r l d) = ds_sequence d"
  "ds_stop (acquire w r l d) = ds_stop d" "ds_next_ticket (acquire w r l d) = ds_next_ticket d"
  "ds_replies (acquire w r l d) = ds_replies d"
  by (simp_all add: acquire_def Let_def)

lemma acquire_task [simp]: "ds_task (acquire w r l d) = (ds_task d)(w := Busy Handling r l)"
  by (simp add: acquire_def Let_def)

lemma finish_frame [simp]:
  "ds_queue (finish w r l o' d) = ds_queue d" "ds_workers (finish w r l o' d) = ds_workers d"
  "ds_active (finish w r l o' d) = ds_active d" "ds_unfinished (finish w r l o' d) = ds_unfinished d"
  "ds_running (finish w r l o' d) = ds_running d" "ds_sequence (finish w r l o' d) = ds_sequence d"
  "ds_stop (finish w r l o' d) = ds_stop d" "ds_next_ticket (finish w r l o' d) = ds_next_ticket d"
  by (simp_all add: finish_def split: outcome.split)

lemma finish_task [simp]: "ds_task (finish w r l o' d) = (ds_task d)(w := Busy Replying r l)"
  by (simp add: finish_def split: outcome.split)

lemma finish_replies [simp]:
  "map fst (ds_replies (finish w r l o' d)) = map fst (ds_replies d) @ [rq_ticket r]"
  "fst ` set (ds_replies (finish w r l o' d)) = insert (rq_ticket r) (fst ` set (ds_replies d))"
  by (simp_all add: finish_def reply_def Let_def split: outcome.split)

lemma leave_target_frame [simp]:
  "ds_queue (leave_target k d) = ds_queue d" "ds_workers (leave_target k d) = ds_workers d"
  "ds_active (leave_target k d) = ds_active d" "ds_unfinished (leave_target k d) = ds_unfinished d"
  "ds_running (leave_target k d) = ds_running d" "ds_sequence (leave_target k d) = ds_sequence d"
  "ds_stop (leave_target k d) = ds_stop d" "ds_next_ticket (leave_target k d) = ds_next_ticket d"
  "ds_replies (leave_target k d) = ds_replies d" "ds_task (leave_target k d) = ds_task d"
  by (simp_all add: leave_target_def Let_def)

lemma release_frame [simp]:
  "ds_queue (release w l d) = ds_queue d" "ds_workers (release w l d) = ds_workers d"
  "ds_active (release w l d) = ds_active d" "ds_unfinished (release w l d) = ds_unfinished d"
  "ds_running (release w l d) = ds_running d" "ds_sequence (release w l d) = ds_sequence d"
  "ds_stop (release w l d) = ds_stop d" "ds_next_ticket (release w l d) = ds_next_ticket d"
  "ds_replies (release w l d) = ds_replies d" "ds_task (release w l d) = ds_task d"
  by (simp_all add: release_def Let_def)

lemma end_request_frame [simp]:
  "ds_queue (end_request w r l d) = ds_queue d" "ds_workers (end_request w r l d) = ds_workers d"
  "ds_running (end_request w r l d) = ds_running d" "ds_sequence (end_request w r l d) = ds_sequence d"
  "ds_stop (end_request w r l d) = ds_stop d" "ds_next_ticket (end_request w r l d) = ds_next_ticket d"
  "ds_replies (end_request w r l d) = ds_replies d" "ds_task (end_request w r l d) = ds_task d"
  by (simp_all add: end_request_def Let_def)

lemma end_request_counts [simp]:
  "ds_active (end_request w r l d) = max 0 (ds_active d - 1)"
  "ds_unfinished (end_request w r l d) = ds_unfinished d - 1"
  by (simp_all add: end_request_def Let_def)

section \<open>The pool\<close>

definition pool :: "dispatcher \<Rightarrow> nat list" where
  \<comment> \<open>the tasks that may be at work\<close>
  "pool d = (case ds_stop d of Cancelling ws \<Rightarrow> ws | _ \<Rightarrow> ds_workers d)"

definition pool_ok :: "dispatcher \<Rightarrow> bool" where
  "pool_ok d \<longleftrightarrow> distinct (ds_workers d) \<and> distinct (pool d) \<and> length (pool d) \<le> action_worker_count \<and>
     (\<forall>w. ds_task d w \<noteq> Absent \<longrightarrow> w \<le> ds_sequence d) \<and> (\<forall>w \<in> set (ds_workers d). ds_task d w \<noteq> Absent) \<and>
     (\<forall>w. ds_task d w \<notin> {Absent, Ended} \<longrightarrow> w \<in> set (pool d)) \<and>
     (ds_running d \<longrightarrow> ds_stop d = Not_stopping) \<and> (\<forall>ws. ds_stop d = Cancelling ws \<longrightarrow> ds_workers d = [])"

definition counts_ok :: "dispatcher \<Rightarrow> bool" where
  "counts_ok d \<longleftrightarrow> ds_active d = int (card (busy (ds_task d))) \<and>
     ds_unfinished d = int (length (ds_queue d)) + int (card (busy (ds_task d)))"

definition ticket_of :: "task \<Rightarrow> (nat \<times> phase) option" where
  "ticket_of t = (case t of Busy ph r l \<Rightarrow> Some (rq_ticket r, ph) | _ \<Rightarrow> None)"

definition tickets_fit :: "nat list \<Rightarrow> nat list \<Rightarrow> nat \<Rightarrow> (nat \<Rightarrow> (nat \<times> phase) option) \<Rightarrow> bool" where
  \<comment> \<open>queued tickets, answered tickets, the next ticket, and the ticket of each worker\<close>
  "tickets_fit qs as n K \<longleftrightarrow> distinct qs \<and> distinct as \<and> set qs \<inter> set as = {} \<and> (\<forall>t \<in> set qs \<union> set as. t < n) \<and>
     (\<forall>w t ph. K w = Some (t, ph) \<longrightarrow> t < n \<and> t \<notin> set qs \<and> (t \<in> set as \<longleftrightarrow> ph = Replying) \<and>
        (\<forall>w' ph'. K w' = Some (t, ph') \<longrightarrow> w' = w))"

definition tickets_ok :: "dispatcher \<Rightarrow> bool" where
  "tickets_ok d \<longleftrightarrow> tickets_fit (map rq_ticket (ds_queue d)) (map fst (ds_replies d)) (ds_next_ticket d)
     (\<lambda>w. ticket_of (ds_task d w))"

lemma ticket_of_simps [simp]: "ticket_of (Busy ph r l) = Some (rq_ticket r, ph)"
  "\<not> is_busy t \<Longrightarrow> ticket_of t = None"
  by (auto simp: ticket_of_def is_busy_def split: task.split)

lemma ticket_update: "(\<lambda>v. ticket_of ((T(w := t)) v)) = (\<lambda>v. ticket_of (T v))(w := ticket_of t)"
  by auto

lemma fit_queued: "tickets_fit (t # qs) as n K \<Longrightarrow> K w \<noteq> Some (t, ph)"
  unfolding tickets_fit_def by (metis list.set_intros(1))

lemma fit_take: "tickets_fit (t # qs) as n K \<Longrightarrow> K w = None \<Longrightarrow> ph \<noteq> Replying \<Longrightarrow>
    tickets_fit qs as n (K(w \<mapsto> (t, ph)))"
  using fit_queued [of t qs as n K] by (auto simp: tickets_fit_def)

lemma fit_move: "tickets_fit qs as n K \<Longrightarrow> K w = Some (t, Waiting) \<Longrightarrow> tickets_fit qs as n (K(w \<mapsto> (t, Handling)))"
  unfolding tickets_fit_def by (auto split: if_splits)

lemma fit_answer: "tickets_fit qs as n K \<Longrightarrow> K w = Some (t, Handling) \<Longrightarrow>
    tickets_fit qs (as @ [t]) n (K(w \<mapsto> (t, Replying)))"
  unfolding tickets_fit_def by (auto split: if_splits)

lemma fit_leave: "tickets_fit qs as n K \<Longrightarrow> tickets_fit qs as n (K(w := None))"
  by (auto simp: tickets_fit_def)

lemma fit_discard: "tickets_fit qs as n K \<Longrightarrow> tickets_fit [] as n K"
  by (auto simp: tickets_fit_def)

lemma fit_fresh: "tickets_fit qs as n K \<Longrightarrow> K w \<noteq> Some (n, ph)"
  unfolding tickets_fit_def by (metis less_irrefl)

lemma fit_submit: "tickets_fit qs as n K \<Longrightarrow> tickets_fit (qs @ [n]) as (Suc n) K"
  using fit_fresh [of qs as n K] unfolding tickets_fit_def by (auto simp: less_Suc_eq)

lemma fit_reject: "tickets_fit qs as n K \<Longrightarrow> tickets_fit qs (as @ [n]) (Suc n) K"
  using fit_fresh [of qs as n K] unfolding tickets_fit_def by (auto simp: less_Suc_eq)

definition dispatch_inv :: "dispatcher \<Rightarrow> bool" where
  "dispatch_inv d \<longleftrightarrow> locks_ok d \<and> pool_ok d \<and> counts_ok d \<and> tickets_ok d"

lemma finite_busy: "dispatch_inv d \<Longrightarrow> finite (busy (ds_task d))"
  by (simp add: dispatch_inv_def locks_ok_def counted_def)

lemma busy_in_pool: "pool_ok d \<Longrightarrow> busy (ds_task d) \<subseteq> set (pool d)"
  by (fastforce simp: busy_def pool_ok_def)

lemma counts_calm: "\<not> is_busy (ds_task d w) \<Longrightarrow> \<not> is_busy t \<Longrightarrow> counts_ok (set_task w t d) = counts_ok d"
  using not_in_sets [of "ds_task d" w] by (simp add: counts_ok_def set_task_def busy_update)

lemma tickets_calm:
  "\<not> is_busy (ds_task d w) \<Longrightarrow> \<not> is_busy t \<Longrightarrow> tickets_ok (set_task w t d) = tickets_ok d"
  by (simp add: tickets_ok_def ticket_update fun_upd_idem del: fun_upd_apply)

text \<open>The remaining steps of a worker do not leave the pool.\<close>

lemma pool_task:
  assumes "pool_ok d" "w \<in> set (pool d)" "ds_task d w \<noteq> Absent" "t \<noteq> Absent"
    and d': "ds_task d' = (ds_task d)(w := t)" "ds_workers d' = ds_workers d" "ds_stop d' = ds_stop d"
      "ds_running d' = ds_running d" "ds_sequence d' = ds_sequence d"
  shows "pool_ok d'"
proof -
  have "pool d' = pool d" by (simp add: pool_def d' split: stopping.split)
  with assms(1-4) show ?thesis unfolding pool_ok_def d' by auto
qed

section \<open>Every step keeps the invariant\<close>

lemma calm_inv:
  assumes "dispatch_inv d" "ds_task d w \<in> {Fresh, Idle}" "t \<in> {Fresh, Idle, Ended}"
  shows "dispatch_inv (set_task w t d)"
proof -
  have "w \<in> set (pool d)" using assms(1,2) by (auto simp: dispatch_inv_def pool_ok_def)
  then have "pool_ok (set_task w t d)"
    by (rule pool_task [of d w t, rotated]) (use assms in \<open>auto simp: dispatch_inv_def\<close>)
  moreover have "\<not> is_busy (ds_task d w)" "\<not> is_busy t" using assms(2,3) by auto
  ultimately show ?thesis
    using assms(1) by (simp add: dispatch_inv_def locks_ok_calm counts_calm tickets_calm)
qed

lemma worker_get_inv:
  assumes inv: "dispatch_inv d" and w: "ds_task d w \<in> {Fresh, Idle}"
  shows "dispatch_inv (worker_get w d)"
proof (cases "ds_queue d")
  case Nil
  then show ?thesis using calm_inv [OF assms, of Idle] by (simp add: worker_get_def)
next
  case (Cons r rs)
  let ?d = "d\<lparr>ds_queue := rs, ds_active := ds_active d + 1\<rparr>"
  have eq: "worker_get w d = begin_request w r ?d" using Cons by (simp add: worker_get_def)
  have nb: "\<not> is_busy (ds_task d w)" and wp: "w \<in> set (pool d)" and na: "ds_task d w \<noteq> Absent"
    using w inv by (auto simp: dispatch_inv_def pool_ok_def)
  obtain ph l where ph: "ph \<noteq> Replying" "ds_task (begin_request w r ?d) = (ds_task ?d)(w := Busy ph r l)"
    using begin_request_task by blast
  have "locks_ok (begin_request w r ?d)"
    by (rule begin_request_locks) (use inv nb in \<open>simp_all add: dispatch_inv_def\<close>)
  moreover have "pool_ok (begin_request w r ?d)"
    by (rule pool_task [of d w "Busy ph r l"]) (use inv wp na ph in \<open>auto simp: dispatch_inv_def\<close>)
  moreover have "counts_ok (begin_request w r ?d)"
    using inv nb finite_busy [OF inv] not_in_sets [of "ds_task d" w] Cons
    unfolding counts_ok_def ph(2) by (simp add: counts_ok_def dispatch_inv_def busy_update)
  moreover have "tickets_ok (begin_request w r ?d)"
    using inv nb Cons ph(1) unfolding tickets_ok_def ph(2) ticket_update
    by (auto simp: dispatch_inv_def tickets_ok_def simp del: fun_upd_apply intro!: fit_take)
  ultimately show ?thesis by (simp add: dispatch_inv_def eq)
qed

lemma end_request_inv:
  assumes inv: "dispatch_inv d" and w: "ds_task d w = Busy ph r l" and t: "t \<in> {Fresh, Ended}"
  shows "dispatch_inv (end_request w r l (set_task w t d))"
proof -
  let ?d = "end_request w r l (set_task w t d)"
  have wp: "w \<in> set (pool d)" and nt: "\<not> is_busy t" "t \<noteq> Absent" and b: "w \<in> busy (ds_task d)"
    using w inv t by (auto simp: dispatch_inv_def pool_ok_def busy_def)
  have "locks_ok ?d"
    by (rule end_request_locks [OF _ w nt(1)]) (use inv in \<open>simp add: dispatch_inv_def\<close>)
  moreover have "pool_ok ?d"
    by (rule pool_task [of d w t]) (use inv wp nt w in \<open>auto simp: dispatch_inv_def\<close>)
  moreover have "counts_ok ?d"
    using inv nt(1) card.remove [OF finite_busy [OF inv] b]
    by (simp add: counts_ok_def dispatch_inv_def busy_update)
  moreover have "tickets_ok ?d"
    using inv nt(1) by (simp add: tickets_ok_def dispatch_inv_def ticket_update fit_leave del: fun_upd_apply)
  ultimately show ?thesis by (simp add: dispatch_inv_def)
qed

lemma pool_updates [simp]:
  "pool (ds_next_ticket_update g d) = pool d" "pool (ds_queue_update g1 d) = pool d"
  "pool (ds_unfinished_update g2 d) = pool d" "pool (ds_replies_update g3 d) = pool d"
  by (simp_all add: pool_def split: stopping.split)

lemma pool_increment [simp]: "pool (increment n d) = pool d"
  by (simp add: pool_def split: stopping.split)

lemma inv_increment [simp]: "dispatch_inv (increment n d) = dispatch_inv d"
  by (simp add: dispatch_inv_def pool_ok_def counts_ok_def tickets_ok_def)

lemma replied_inv:
  assumes "dispatch_inv d" "ds_task d w = Busy Replying r l"
  shows "dispatch_inv (replied w r l ok d)"
  unfolding replied_def
  by (rule worker_get_inv) (use end_request_inv [OF assms, of Fresh] in simp_all)

lemma cancel_inv:
  assumes "dispatch_inv d" "ds_task d w \<notin> {Absent, Ended}"
  shows "dispatch_inv (cancel_task w d)"
  using assms end_request_inv [OF assms(1), where w = w and t = Ended] calm_inv [OF assms(1), of w Ended]
  by (auto simp: cancel_task_def split: task.split)

lemma acquire_inv:
  assumes "dispatch_inv d" "ds_task d w = Busy Waiting r l" "lk_holder (ds_lock d l) = None"
    "hd (lk_waiters (ds_lock d l)) = w"
  shows "dispatch_inv (acquire w r l d)"
proof -
  have "locks_ok (acquire w r l d)"
    by (rule acquire_locks) (use assms in \<open>auto simp: dispatch_inv_def\<close>)
  moreover have "pool_ok (acquire w r l d)"
    by (rule pool_task [of d w "Busy Handling r l"]) (use assms in \<open>auto simp: dispatch_inv_def pool_ok_def\<close>)
  moreover have "busy (ds_task d) = insert w (busy (ds_task d))"
    using assms(2) by (auto simp: busy_def)
  then have "counts_ok (acquire w r l d)"
    using assms(1) by (simp add: counts_ok_def dispatch_inv_def busy_update)
  moreover have "tickets_ok (acquire w r l d)"
    using assms(1,2) by (simp add: tickets_ok_def dispatch_inv_def ticket_update fit_move del: fun_upd_apply)
  ultimately show ?thesis by (simp add: dispatch_inv_def)
qed

lemma finish_inv:
  assumes "dispatch_inv d" "ds_task d w = Busy Handling r l"
  shows "dispatch_inv (finish w r l o' d)"
proof -
  have "locks_ok (finish w r l o' d)"
    by (rule finish_locks) (use assms in \<open>auto simp: dispatch_inv_def\<close>)
  moreover have "pool_ok (finish w r l o' d)"
    by (rule pool_task [of d w "Busy Replying r l"]) (use assms in \<open>auto simp: dispatch_inv_def pool_ok_def\<close>)
  moreover have "busy (ds_task d) = insert w (busy (ds_task d))"
    using assms(2) by (auto simp: busy_def)
  then have "counts_ok (finish w r l o' d)"
    using assms(1) by (simp add: counts_ok_def dispatch_inv_def busy_update)
  moreover have "tickets_ok (finish w r l o' d)"
    using assms by (simp add: tickets_ok_def dispatch_inv_def ticket_update fit_answer del: fun_upd_apply)
  ultimately show ?thesis by (simp add: dispatch_inv_def)
qed

lemma spawn_fields [simp]:
  "ds_queue (spawn_worker d) = ds_queue d" "ds_active (spawn_worker d) = ds_active d"
  "ds_unfinished (spawn_worker d) = ds_unfinished d" "ds_running (spawn_worker d) = ds_running d"
  "ds_stop (spawn_worker d) = ds_stop d" "ds_next_ticket (spawn_worker d) = ds_next_ticket d"
  "ds_replies (spawn_worker d) = ds_replies d" "ds_sequence (spawn_worker d) = Suc (ds_sequence d)"
  "ds_workers (spawn_worker d) = ds_workers d @ [Suc (ds_sequence d)]"
  "ds_task (spawn_worker d) = (ds_task d)(Suc (ds_sequence d) := Fresh)"
  by (simp_all add: spawn_worker_def Let_def)

lemma spawn_inv:
  assumes inv: "dispatch_inv d" and run: "ds_running d" "length (ds_workers d) < action_worker_count"
  shows "dispatch_inv (spawn_worker d)"
proof -
  let ?n = "Suc (ds_sequence d)"
  have pool: "pool_ok d" and stop: "ds_stop d = Not_stopping"
    using inv run(1) by (auto simp: dispatch_inv_def pool_ok_def)
  then have new: "ds_task d ?n = Absent" by (fastforce simp: pool_ok_def)
  then have fresh: "?n \<notin> set (ds_workers d)" using pool by (auto simp: pool_ok_def)
  have eq: "spawn_worker d = set_task ?n Fresh (d\<lparr>ds_sequence := ?n, ds_workers := ds_workers d @ [?n]\<rparr>)"
    by (simp add: spawn_worker_def Let_def)
  have "locks_ok (spawn_worker d)"
    unfolding eq using new inv by (simp add: locks_ok_calm dispatch_inv_def)
  moreover have "pool_ok (spawn_worker d)"
    using pool fresh run(2) stop unfolding pool_ok_def pool_def
    by (auto simp: le_Suc_eq)
  moreover have "counts_ok (spawn_worker d)" "tickets_ok (spawn_worker d)"
    using inv new not_in_sets [of "ds_task d" ?n]
    by (simp_all add: counts_ok_def tickets_ok_def dispatch_inv_def busy_update ticket_update fun_upd_idem
        del: fun_upd_apply)
  ultimately show ?thesis by (simp add: dispatch_inv_def)
qed

lemma spawn_power:
  "ds_running ((spawn_worker ^^ n) d) = ds_running d" "length (ds_workers ((spawn_worker ^^ n) d)) = length (ds_workers d) + n"
  "ds_queue ((spawn_worker ^^ n) d) = ds_queue d" "ds_replies ((spawn_worker ^^ n) d) = ds_replies d"
  "ds_stop ((spawn_worker ^^ n) d) = ds_stop d" "ds_active ((spawn_worker ^^ n) d) = ds_active d"
  by (induction n) simp_all

lemma spawn_many:
  "dispatch_inv d \<Longrightarrow> ds_running d \<Longrightarrow> length (ds_workers d) + n \<le> action_worker_count \<Longrightarrow>
    dispatch_inv ((spawn_worker ^^ n) d)"
  by (induction n) (simp_all add: spawn_inv spawn_power)

lemma ensure_inv:
  assumes "dispatch_inv d"
  shows "dispatch_inv (ensure_workers d)"
proof (cases "ds_running d")
  case True
  have "length (ds_workers d) \<le> action_worker_count"
    using assms True by (auto simp: dispatch_inv_def pool_ok_def pool_def)
  then have "length (ds_workers d) + nat (desired_workers d - int (length (ds_workers d))) \<le> action_worker_count"
    by (auto simp: desired_workers_def)
  then show ?thesis using spawn_many [OF assms True] True by (simp add: ensure_workers_def)
qed (use assms in \<open>simp add: ensure_workers_def\<close>)

lemma done_inv:
  assumes inv: "dispatch_inv d" and w: "ds_task d w = Ended"
  shows "dispatch_inv (on_worker_done w b d)"
proof -
  let ?d = "set_task w Absent (d\<lparr>ds_workers := removeAll w (ds_workers d)\<rparr>)"
  have "locks_ok ?d"
    using inv w by (simp add: locks_ok_calm dispatch_inv_def)
  moreover have "pool_ok ?d"
    using inv w unfolding pool_ok_def pool_def dispatch_inv_def
    by (auto simp: distinct_removeAll split: stopping.splits intro: le_trans [OF length_removeAll_less_eq])
  moreover have "counts_ok ?d" "tickets_ok ?d"
    using inv w not_in_sets [of "ds_task d" w]
    by (simp_all add: counts_ok_def tickets_ok_def dispatch_inv_def busy_update ticket_update fun_upd_idem
        del: fun_upd_apply)
  ultimately have "dispatch_inv ?d" by (simp add: dispatch_inv_def)
  then show ?thesis using ensure_inv by (simp add: on_worker_done_def Let_def)
qed

lemma reply_increment: "reply r e (increment n d) = increment n (reply r e d)"
  by (simp add: reply_def increment_def)

lemma submit_inv:
  assumes inv: "dispatch_inv d"
  shows "dispatch_inv (snd (submit action params echo d))"
proof -
  let ?r = "\<lparr>rq_ticket = ds_next_ticket d, rq_action = action,
               rq_params = normalize_action_params params, rq_echo = echo\<rparr>"
  let ?d = "d\<lparr>ds_next_ticket := Suc (ds_next_ticket d)\<rparr>"
  have "dispatch_inv (?d\<lparr>ds_queue := ds_queue d @ [?r], ds_unfinished := ds_unfinished d + 1\<rparr>)"
    using inv by (simp add: dispatch_inv_def pool_ok_def counts_ok_def tickets_ok_def fit_submit)
  moreover have "dispatch_inv (reply ?r e ?d)" for e
    using inv by (simp add: dispatch_inv_def pool_ok_def counts_ok_def tickets_ok_def fit_reject reply_def)
  ultimately show ?thesis
    by (simp add: submit_def Let_def ensure_inv reply_increment)
qed

lemma stop_finish_inv:
  assumes inv: "dispatch_inv d" and stop: "ds_stop d = Cancelling ws" and over: "\<forall>w \<in> set ws. ds_task d w \<in> {Absent, Ended}"
  shows "dispatch_inv (stop_finish d)"
proof -
  have pool: "pool d = ws" and ok: "pool_ok d" and ww: "ds_workers d = []"
    using inv stop by (auto simp: pool_def dispatch_inv_def pool_ok_def)
  have live: "ds_task d w \<in> {Absent, Ended}" for w
    using ok over pool by (auto simp: pool_ok_def)
  have nb: "\<not> is_busy (ds_task d w)" for w
    using live [of w] by auto
  have empty: "busy (ds_task d) = {}" "users (ds_task d) k = {}" for k
    using nb by (auto simp: busy_iff) (use nb in \<open>fastforce simp: users_def is_busy_def\<close>)
  have d': "ds_task (stop_finish d) = ds_task d" "ds_locks (stop_finish d) = (\<lambda>_. None)"
    "ds_users (stop_finish d) = (\<lambda>_. None)" "ds_lock (stop_finish d) = ds_lock d" "ds_queue (stop_finish d) = []"
    "ds_unfinished (stop_finish d) = ds_unfinished d - int (length (ds_queue d))"
    "ds_active (stop_finish d) = ds_active d" "ds_replies (stop_finish d) = ds_replies d"
    "ds_next_ticket (stop_finish d) = ds_next_ticket d" "ds_workers (stop_finish d) = []"
    "ds_stop (stop_finish d) = Not_stopping" "ds_sequence (stop_finish d) = ds_sequence d"
    using ww by (simp_all add: stop_finish_def discard_pending_def)
  have "keyed (stop_finish d)" using nb by (auto simp: keyed_def d' is_busy_def)
  then have "locks_ok (stop_finish d)"
    using inv by (simp add: locks_ok_def counted_def present_def separate_def handed_def d' empty dispatch_inv_def)
  moreover have "pool_ok (stop_finish d)"
    using ok live by (auto simp: pool_ok_def pool_def d')
  moreover have "counts_ok (stop_finish d)"
    using inv by (simp add: counts_ok_def d' dispatch_inv_def)
  moreover have "tickets_ok (stop_finish d)"
    using inv by (auto simp: tickets_ok_def d' dispatch_inv_def intro: fit_discard)
  ultimately show ?thesis by (simp add: dispatch_inv_def)
qed

lemma stop_cancel_inv:
  assumes inv: "dispatch_inv d" and stop: "ds_stop d = Draining"
  shows "dispatch_inv (stop_cancel d)"
proof -
  have "pool_ok d" "pool d = ds_workers d" "\<not> ds_running d"
    using inv stop by (auto simp: dispatch_inv_def pool_def pool_ok_def)
  then have "pool_ok (stop_cancel d)"
    by (auto simp: pool_ok_def stop_cancel_def pool_def intro: le_trans [OF length_filter_le])
  then show ?thesis
    using inv by (simp add: dispatch_inv_def stop_cancel_def counts_ok_def tickets_ok_def)
qed

lemma stop_begin_inv: "dispatch_inv d \<Longrightarrow> ds_stop d = Not_stopping \<Longrightarrow> dispatch_inv (stop_begin d)"
  by (auto simp: dispatch_inv_def stop_begin_def counts_ok_def tickets_ok_def pool_ok_def pool_def)

lemma start_inv: "dispatch_inv d \<Longrightarrow> ds_stop d = Not_stopping \<Longrightarrow> dispatch_inv (start d)"
  by (auto simp: dispatch_inv_def start_def counts_ok_def tickets_ok_def pool_ok_def pool_def)

lemma work_inv: "work d d' \<Longrightarrow> dispatch_inv d \<Longrightarrow> dispatch_inv d'"
  by (induction rule: work.induct)
    (auto intro: worker_get_inv calm_inv done_inv acquire_inv finish_inv replied_inv)

lemma dispatch_step_inv: "dispatch d d' \<Longrightarrow> dispatch_inv d \<Longrightarrow> dispatch_inv d'"
  by (induction rule: dispatch.induct)
    (auto intro: work_inv submit_inv start_inv stop_begin_inv stop_cancel_inv cancel_inv stop_finish_inv)

lemma new_inv: "dispatch_inv (new_dispatcher cd)"
  by (simp add: dispatch_inv_def new_dispatcher_def locks_ok_def lock_inv_defs lock_fits_def free_lock_def
      pool_ok_def pool_def counts_ok_def tickets_ok_def tickets_fit_def busy_def users_def waiting_on_def
      holding_def)

lemma reachable_inv: "dispatch_states cd d \<Longrightarrow> dispatch_inv d"
  unfolding dispatch_states_def
  by (induction rule: rtranclp_induct) (auto intro: new_inv dispatch_step_inv)

section \<open>The work gets done\<close>

text \<open>As long as nobody submits or stops, every step brings the pool closer to rest: a request
  leaves the queue, or the queue stays and the tasks have less before them. Fresh tasks weigh
  nothing while there is something to take.\<close>

definition weight :: "bool \<Rightarrow> task \<Rightarrow> nat" where
  "weight rest t = (case t of
     Absent \<Rightarrow> 0 | Ended \<Rightarrow> 1 | Idle \<Rightarrow> 2 | Fresh \<Rightarrow> if rest then 3 else 0
   | Busy ph r l \<Rightarrow> (case ph of Replying \<Rightarrow> 4 | Handling \<Rightarrow> 5 | Waiting \<Rightarrow> 6))"

definition load :: "dispatcher \<Rightarrow> nat" where
  "load d = (\<Sum>w \<le> ds_sequence d. weight (ds_queue d = []) (ds_task d w))"

lemma load_task:
  assumes "ds_task d' = (ds_task d)(w := t)" "ds_queue d' = ds_queue d" "ds_sequence d' = ds_sequence d"
    "w \<le> ds_sequence d"
  shows "load d' + weight (ds_queue d = []) (ds_task d w) = load d + weight (ds_queue d = []) t"
proof -
  have "(\<Sum>v \<in> {..ds_sequence d} - {w}. weight (ds_queue d = []) (ds_task d' v)) =
      (\<Sum>v \<in> {..ds_sequence d} - {w}. weight (ds_queue d = []) (ds_task d v))"
    using assms(1) by (intro sum.cong) auto
  then show ?thesis
    using assms by (simp add: load_def sum.remove [of "{..ds_sequence d}" w])
qed

lemma load_spawn: "ds_queue d \<noteq> [] \<Longrightarrow> load ((spawn_worker ^^ n) d) = load d"
proof (induction n)
  case (Suc n)
  let ?d = "(spawn_worker ^^ n) d"
  have "(\<Sum>w \<le> ds_sequence ?d. weight False (ds_task (spawn_worker ?d) w)) =
      (\<Sum>w \<le> ds_sequence ?d. weight False (ds_task ?d w))"
    by (rule sum.cong) auto
  moreover have "weight False (ds_task (spawn_worker ?d) (Suc (ds_sequence ?d))) = 0"
    by (simp add: weight_def)
  ultimately show ?case
    using Suc by (simp add: load_def spawn_power)
qed simp

lemma load_ensure: "ds_queue d \<noteq> [] \<Longrightarrow> load (ensure_workers d) = load d"
  by (simp add: ensure_workers_def load_spawn)

lemma ensure_queue [simp]: "ds_queue (ensure_workers d) = ds_queue d"
  by (simp add: ensure_workers_def spawn_power)

lemma task_in_range: "dispatch_inv d \<Longrightarrow> ds_task d w \<noteq> Absent \<Longrightarrow> w \<le> ds_sequence d"
  by (auto simp: dispatch_inv_def pool_ok_def)

lemma weight_simps [simp]:
  "weight b Absent = 0" "weight b Ended = 1" "weight b Idle = 2" "weight True Fresh = 3"
  "weight b (Busy Replying r l) = 4" "weight b (Busy Handling r l) = 5" "weight b (Busy Waiting r l) = 6"
  by (simp_all add: weight_def)

lemma get_shrinks: "ds_queue d \<noteq> [] \<Longrightarrow> length (ds_queue (worker_get w d)) < length (ds_queue d)"
  by (cases "ds_queue d") (simp_all add: worker_get_def)

definition progress :: "(dispatcher \<times> dispatcher) set" where
  "progress = inv_image (less_than <*lex*> less_than) (\<lambda>d. (length (ds_queue d), load d))"

lemma wf_progress: "wf progress"
  by (simp add: progress_def wf_lex_prod)

lemma work_progress:
  assumes "work d d'" "dispatch_inv d"
  shows "(d', d) \<in> progress"
  using assms
proof (induction rule: work.induct)
  case (begin_get d w)
  then show ?case
    using get_shrinks [of d w] load_task [of "set_task w Idle d" d w Idle] task_in_range [of d w]
    by (cases "ds_queue d") (auto simp: progress_def worker_get_def)
next
  case (resume_get d w)
  then show ?case using get_shrinks [of d w] by (simp add: progress_def)
next
  case (idle_timeout d w)
  then show ?case
    using load_task [of "set_task w Ended d" d w Ended] task_in_range [of d w] by (simp add: progress_def)
next
  case (worker_done d w)
  let ?d = "set_task w Absent (d\<lparr>ds_workers := removeAll w (ds_workers d)\<rparr>)"
  have "load ?d < load d"
    using load_task [of ?d d w Absent] task_in_range [of d w] worker_done by simp
  then show ?case by (simp add: progress_def on_worker_done_def Let_def load_ensure)
next
  case (lock_acquired d w r l)
  then show ?case
    using load_task [of "acquire w r l d" d w "Busy Handling r l"] task_in_range [of d w]
    by (simp add: progress_def)
next
  case (handler_done d w r l o')
  then show ?case
    using load_task [of "finish w r l o' d" d w "Busy Replying r l"] task_in_range [of d w]
    by (simp add: progress_def)
next
  case (responder_done d w r l ok)
  let ?d = "increment (if ok then ''processed'' else ''failed'') (end_request w r l (set_task w Fresh d))"
  show ?case
  proof (cases "ds_queue d = []")
    case True
    then have "replied w r l ok d = set_task w Idle ?d"
      by (simp add: replied_def worker_get_def)
    then show ?thesis
      using load_task [of "set_task w Idle ?d" d w Idle] task_in_range [of d w] responder_done
      by (simp add: progress_def)
  next
    case False
    then show ?thesis using get_shrinks [of ?d w] by (simp add: progress_def replied_def)
  qed
qed

text \<open>A running pool with work has workers.\<close>

definition served :: "dispatcher \<Rightarrow> bool" where
  "served d \<longleftrightarrow> ds_running d \<and> (ds_queue d \<noteq> [] \<longrightarrow> ds_workers d \<noteq> [])"

lemma ensure_some: "ds_running d \<Longrightarrow> ds_workers (ensure_workers d) \<noteq> []"
proof -
  assume run: "ds_running d"
  have "1 \<le> desired_workers d" by (simp add: desired_workers_def action_worker_count_def)
  then have "0 < length (ds_workers (ensure_workers d))"
    using run by (simp add: ensure_workers_def spawn_power del: length_greater_0_conv) linarith
  then show ?thesis by simp
qed

lemma ensure_running [simp]: "ds_running (ensure_workers d) = ds_running d"
  by (simp add: ensure_workers_def spawn_power)

lemma get_served [simp]: "ds_running (worker_get w d) = ds_running d" "ds_workers (worker_get w d) = ds_workers d"
  by (simp_all add: worker_get_def split: list.split)

lemma get_nonempty: "ds_queue (worker_get w d) \<noteq> [] \<Longrightarrow> ds_queue d \<noteq> []"
  by (auto simp: worker_get_def)

lemma running_not_cancelled: "dispatch_inv d \<Longrightarrow> ds_running d \<Longrightarrow> \<not> cancelled d w"
  by (simp add: dispatch_inv_def pool_ok_def cancelled_def)

lemma work_served: "work d d' \<Longrightarrow> dispatch_inv d \<Longrightarrow> served d \<Longrightarrow> served d'"
proof (induction rule: work.induct)
  case (worker_done d w)
  then have "\<not> cancelled d w" by (simp add: served_def running_not_cancelled)
  with worker_done show ?case
    by (auto simp: served_def on_worker_done_def Let_def ensure_some)
qed (auto simp: served_def replied_def dest: get_nonempty)

text \<open>A pool that cannot move has nothing left to do.\<close>

lemma stuck_rests:
  assumes inv: "dispatch_inv d" and serve: "served d" and stuck: "\<And>d'. \<not> work d d'"
  shows "ds_queue d = [] \<and> busy (ds_task d) = {}"
proof -
  have free: "\<not> cancelled d w" for w
    using inv serve by (simp add: served_def running_not_cancelled)
  have held: "\<not> (ds_task d w = Busy ph r l \<and> ph \<noteq> Waiting)" for w ph r l
    using stuck free handler_done [of d w r l] responder_done [of d w r l] by (cases ph) auto
  have "ds_task d w \<noteq> Busy ph r l" for w ph r l
  proof
    assume w: "ds_task d w = Busy ph r l"
    then have "w \<in> waiting_on (ds_task d) l" using held [of w ph r l] by (cases ph) (auto simp: waiting_on_def)
    moreover have fit: "lock_fits (ds_task d) l (ds_lock d l)"
      using inv by (simp add: dispatch_inv_def locks_ok_def handed_def)
    moreover have "holding (ds_task d) l = {}" using held by (auto simp: holding_def)
    ultimately obtain v where "lk_holder (ds_lock d l) = None" "hd (lk_waiters (ds_lock d l)) = v"
      "v \<in> waiting_on (ds_task d) l"
      by (cases "lk_waiters (ds_lock d l)") (auto simp: lock_fits_def)
    then show False
      using stuck free lock_acquired [of d v] by (auto simp: waiting_on_def)
  qed
  then have none: "busy (ds_task d) = {}" by (auto simp: busy_def)
  have "ds_queue d = []"
  proof (rule ccontr)
    assume q: "ds_queue d \<noteq> []"
    then have "hd (ds_workers d) \<in> set (ds_workers d)" using serve by (simp add: served_def)
    then obtain w where w: "w \<in> set (ds_workers d)" by blast
    then have "ds_task d w \<noteq> Absent" using inv by (simp add: dispatch_inv_def pool_ok_def)
    then show False
      using none q stuck free begin_get [of d w] resume_get [of d w] worker_done [of d w]
      by (cases "ds_task d w") (auto simp: busy_def)
  qed
  with none show ?thesis by simp
qed

text \<open>No request is lost while the pool works.\<close>

definition held :: "task \<Rightarrow> nat set" where
  "held t = (case t of Busy ph r l \<Rightarrow> {rq_ticket r} | _ \<Rightarrow> {})"

lemma held_simps [simp]: "held (Busy ph r l) = {rq_ticket r}" "\<not> is_busy t \<Longrightarrow> held t = {}"
  by (auto simp: held_def is_busy_def split: task.split)

definition accounted :: "dispatcher \<Rightarrow> nat set" where
  "accounted d = rq_ticket ` set (ds_queue d) \<union> fst ` set (ds_replies d) \<union> (\<Union>w. held (ds_task d w))"

lemma union_step: "Q \<subseteq> Q' \<union> H \<Longrightarrow> R \<subseteq> R' \<Longrightarrow> U \<subseteq> R' \<union> U' \<Longrightarrow> H \<subseteq> U' \<Longrightarrow> Q \<union> R \<union> U \<subseteq> Q' \<union> R' \<union> U'"
  by blast

lemma accounted_task:
  assumes "ds_task d' = (ds_task d)(w := t)" "rq_ticket ` set (ds_queue d) \<subseteq> rq_ticket ` set (ds_queue d') \<union> held t"
    "fst ` set (ds_replies d) \<subseteq> fst ` set (ds_replies d')"
    "held (ds_task d w) \<subseteq> held t \<union> fst ` set (ds_replies d')"
  shows "accounted d \<subseteq> accounted d'"
proof -
  have t: "held t \<subseteq> (\<Union>v. held (ds_task d' v))"
    using UN_upper [of w UNIV "\<lambda>v. held (ds_task d' v)"] by (simp add: assms(1))
  have "held (ds_task d v) \<subseteq> held t \<union> fst ` set (ds_replies d') \<union> held (ds_task d' v)" for v
    using assms(1,4) by (cases "v = w") auto
  then have "(\<Union>v. held (ds_task d v)) \<subseteq> fst ` set (ds_replies d') \<union> (\<Union>v. held (ds_task d' v))"
    using t by blast
  then show ?thesis
    unfolding accounted_def by (rule union_step [OF assms(2,3) _ t])
qed

lemma accounted_calm: "\<not> is_busy (ds_task d w) \<Longrightarrow> accounted d \<subseteq> accounted (set_task w t d)"
  by (rule accounted_task [where w = w and t = t]) simp_all

lemma get_accounted:
  assumes "\<not> is_busy (ds_task d w)"
  shows "accounted d \<subseteq> accounted (worker_get w d)"
proof (cases "ds_queue d")
  case Nil
  then show ?thesis
    using accounted_calm [OF assms, of Idle] by (simp add: worker_get_def)
next
  case (Cons r rs)
  obtain ph l where "ds_task (begin_request w r (d\<lparr>ds_queue := rs, ds_active := ds_active d + 1\<rparr>)) =
      (ds_task d)(w := Busy ph r l)"
    using begin_request_task [of w r "d\<lparr>ds_queue := rs, ds_active := ds_active d + 1\<rparr>"] by auto
  then show ?thesis
    using Cons assms by (simp add: worker_get_def) (rule accounted_task [where w = w and t = "Busy ph r l"], simp_all)
qed

lemma accounted_same: "ds_task d' = ds_task d \<Longrightarrow> ds_queue d' = ds_queue d \<Longrightarrow> ds_replies d' = ds_replies d \<Longrightarrow>
    accounted d' = accounted d"
  by (simp add: accounted_def)

lemma spawn_accounted:
  assumes "pool_ok d"
  shows "accounted d \<subseteq> accounted (spawn_worker d)"
proof -
  have "ds_task d (Suc (ds_sequence d)) = Absent"
    using assms by (fastforce simp: pool_ok_def)
  then show ?thesis
    by (intro accounted_task [where d' = "spawn_worker d" and w = "Suc (ds_sequence d)" and t = Fresh]) simp_all
qed

lemma spawn_many_accounted:
  "dispatch_inv d \<Longrightarrow> ds_running d \<Longrightarrow> length (ds_workers d) + n \<le> action_worker_count \<Longrightarrow>
    accounted d \<subseteq> accounted ((spawn_worker ^^ n) d)"
proof (induction n)
  case (Suc n)
  have "dispatch_inv ((spawn_worker ^^ n) d)"
    using Suc.prems by (intro spawn_many) auto
  with Suc spawn_accounted [of "(spawn_worker ^^ n) d"] show ?case
    by (auto simp: dispatch_inv_def)
qed simp

lemma ensure_length: "length (ds_workers d) \<le> action_worker_count \<Longrightarrow>
    length (ds_workers d) + nat (desired_workers d - int (length (ds_workers d))) \<le> action_worker_count"
  by (auto simp: desired_workers_def)

lemma ensure_accounted:
  assumes "dispatch_inv d"
  shows "accounted d \<subseteq> accounted (ensure_workers d)"
proof (cases "ds_running d")
  case True
  have "length (ds_workers d) \<le> action_worker_count"
    using assms True by (auto simp: dispatch_inv_def pool_ok_def pool_def)
  from spawn_many_accounted [OF assms True ensure_length [OF this]] True show ?thesis
    by (simp add: ensure_workers_def)
qed (simp add: ensure_workers_def)

lemma leave_accounted:
  assumes "ds_task d w = Busy ph r l" "rq_ticket r \<in> fst ` set (ds_replies d)"
  shows "accounted d \<subseteq> accounted (end_request w r l (set_task w t d))"
  by (rule accounted_task [where w = w and t = t]) (use assms in simp_all)

lemma fit_replying: "tickets_fit qs as n K \<Longrightarrow> K w = Some (t, Replying) \<Longrightarrow> t \<in> set as"
  unfolding tickets_fit_def by blast

lemma replying_ticket:
  assumes "dispatch_inv d" "ds_task d w = Busy Replying r l"
  shows "rq_ticket r \<in> fst ` set (ds_replies d)"
proof -
  have "tickets_fit (map rq_ticket (ds_queue d)) (map fst (ds_replies d)) (ds_next_ticket d)
      (\<lambda>w. ticket_of (ds_task d w))"
    using assms(1) by (simp add: dispatch_inv_def tickets_ok_def)
  from fit_replying [OF this, of w "rq_ticket r"] assms(2) show ?thesis by simp
qed

lemma work_accounted: "work d d' \<Longrightarrow> dispatch_inv d \<Longrightarrow> accounted d \<subseteq> accounted d'"
proof (induction rule: work.induct)
  case (worker_done d w)
  let ?d = "set_task w Absent (d\<lparr>ds_workers := removeAll w (ds_workers d)\<rparr>)"
  have "dispatch_inv (on_worker_done w True d)" using worker_done done_inv by blast
  then have "dispatch_inv ?d" by (simp add: on_worker_done_def Let_def)
  then have "accounted ?d \<subseteq> accounted (on_worker_done w (cancelled d w) d)"
    using ensure_accounted [of ?d] by (simp add: on_worker_done_def Let_def)
  moreover have "accounted d \<subseteq> accounted ?d"
    using worker_done by (intro accounted_task [where d' = ?d and w = w and t = Absent]) simp_all
  ultimately show ?case by blast
next
  case (lock_acquired d w r l)
  then show ?case
    by (intro accounted_task [where d' = "acquire w r l d" and w = w and t = "Busy Handling r l"]) auto
next
  case (handler_done d w r l o')
  then show ?case
    by (intro accounted_task [where d' = "finish w r l o' d" and w = w and t = "Busy Replying r l"]) auto
next
  case (responder_done d w r l ok)
  let ?d = "end_request w r l (set_task w Fresh d)"
  have "accounted d \<subseteq> accounted ?d"
    using responder_done by (intro leave_accounted replying_ticket)
  moreover have "accounted ?d = accounted (increment (if ok then ''processed'' else ''failed'') ?d)"
    by (rule accounted_same) simp_all
  moreover have "accounted (increment (if ok then ''processed'' else ''failed'') ?d) \<subseteq> accounted (replied w r l ok d)"
    unfolding replied_def by (rule get_accounted) simp
  ultimately show ?case by blast
next
  case (begin_get d w)
  then show ?case by (intro get_accounted) simp
next
  case (resume_get d w)
  then show ?case by (intro get_accounted) simp
next
  case (idle_timeout d w)
  then show ?case by (intro accounted_calm) simp
qed

lemma work_star:
  "work\<^sup>*\<^sup>* d d' \<Longrightarrow> dispatch_inv d \<Longrightarrow> served d \<Longrightarrow>
    dispatch_inv d' \<and> served d' \<and> accounted d \<subseteq> accounted d'"
  by (induction rule: rtranclp_induct) (auto dest: work_inv work_served work_accounted)

lemma work_ends: "dispatch_inv d \<Longrightarrow> \<not> (\<exists>f. f 0 = d \<and> (\<forall>i. work (f i) (f (Suc i))))"
proof
  assume inv: "dispatch_inv d" and "\<exists>f. f 0 = d \<and> (\<forall>i. work (f i) (f (Suc i)))"
  then obtain f where f: "f 0 = d" "\<And>i. work (f i) (f (Suc i))" by blast
  have "dispatch_inv (f i)" for i
    by (induction i) (use inv f work_inv in auto)
  then have "(f (Suc i), f i) \<in> progress" for i
    using f(2) work_progress by blast
  then show False
    using wf_progress unfolding wf_iff_no_infinite_down_chain by blast
qed

text \<open>What an accepted request leaves behind.\<close>

lemma submit_accepted:
  assumes inv: "dispatch_inv d" and run: "ds_running d" and ok: "fst (submit action params echo d)"
  shows "served (snd (submit action params echo d))"
    "ds_next_ticket d \<in> accounted (snd (submit action params echo d))"
proof -
  let ?r = "\<lparr>rq_ticket = ds_next_ticket d, rq_action = action,
               rq_params = normalize_action_params params, rq_echo = echo\<rparr>"
  let ?d = "increment ''accepted'' (d\<lparr>ds_next_ticket := Suc (ds_next_ticket d), ds_queue := ds_queue d @ [?r],
      ds_unfinished := ds_unfinished d + 1\<rparr>)"
  have eq: "snd (submit action params echo d) = ensure_workers ?d"
    using ok by (auto simp: submit_def Let_def split: if_splits)
  show "served (snd (submit action params echo d))"
    using run ensure_some [of ?d] by (simp add: eq served_def)
  show "ds_next_ticket d \<in> accounted (snd (submit action params echo d))"
    by (simp add: eq accounted_def)
qed

end
