(* ===== verification/Dispatcher_Properties.thy ===== *)
theory Dispatcher_Properties
  imports Dispatcher_Proofs
begin

text \<open>
  What the action worker pool guarantees in every interleaving: one action per target at a
  time, at most eight at once, at most one answer per request, and an answer for every
  accepted request while the pool runs.
\<close>

section \<open>An example\<close>

text \<open>Two actions for one group: the first worker handles the first, the second one waits.\<close>

definition example_params :: entry where
  "example_params = [(''group_id'', PInt 7)]"

definition one_queued :: dispatcher where
  "one_queued = snd (submit ''send_group_msg'' example_params PNone (start (new_dispatcher False)))"

definition one_handled :: dispatcher where
  "one_handled = worker_get 1 one_queued"

definition two_submitted :: dispatcher where
  "two_submitted = snd (submit ''delete_msg'' example_params PNone one_handled)"

definition example_pool :: dispatcher where
  "example_pool = worker_get 2 two_submitted"

lemma one_queued_steps: "ds_task one_queued 1 = Fresh \<and> \<not> cancelled one_queued 1"
  by code_simp

lemma two_submitted_steps: "ds_task two_submitted 2 = Fresh \<and> \<not> cancelled two_submitted 2"
  by code_simp

lemma example_reachable: "dispatch_states False example_pool"
proof -
  have s1: "dispatch (new_dispatcher False) (start (new_dispatcher False))"
    by (rule started) (simp add: new_dispatcher_def)
  have s2: "dispatch (start (new_dispatcher False)) one_queued"
    unfolding one_queued_def by (rule submitted)
  have s3: "dispatch one_queued one_handled"
    unfolding one_handled_def using one_queued_steps by (intro working begin_get) simp_all
  have s4: "dispatch one_handled two_submitted"
    unfolding two_submitted_def by (rule submitted)
  have s5: "dispatch two_submitted example_pool"
    unfolding example_pool_def using two_submitted_steps by (intro working begin_get) simp_all
  note r2 = rtranclp.rtrancl_into_rtrancl [OF r_into_rtranclp [of dispatch, OF s1] s2]
  note r4 = rtranclp.rtrancl_into_rtrancl [OF rtranclp.rtrancl_into_rtrancl [OF r2 s3] s4]
  from rtranclp.rtrancl_into_rtrancl [OF r4 s5] show ?thesis
    by (simp add: dispatch_states_def)
qed

section \<open>The properties\<close>

text \<open>C21. In every reachable state of the pool at most one action per target is being handled
  or answered, at most eight requests are in progress and \<open>active_count\<close> counts them, the user
  count of a target is the number of requests that handle it or wait for it, and no request
  has been answered twice.
\<close>

theorem one_action_per_target:
  assumes "dispatch_states cd d"
  shows "card {w. \<exists>ph r l. ds_task d w = Busy ph r l \<and> ph \<noteq> Waiting \<and> request_key r = key} \<le> 1 \<and>
     ds_active d = int (card {w. \<exists>ph r l. ds_task d w = Busy ph r l}) \<and> ds_active d \<le> 8 \<and>
     (case ds_users d key of None \<Rightarrow> 0 | Some n \<Rightarrow> n) =
       int (card {w. \<exists>ph r l. ds_task d w = Busy ph r l \<and> request_key r = key}) \<and>
     distinct (map fst (ds_replies d))"
proof -
  have inv: "dispatch_inv d" using assms by (rule reachable_inv)
  then have locks: "locks_ok d" and pool: "pool_ok d" by (simp_all add: dispatch_inv_def)
  let ?H = "{w. \<exists>ph r l. ds_task d w = Busy ph r l \<and> ph \<noteq> Waiting \<and> request_key r = key}"
  have hold: "holding (ds_task d) l = set_option (lk_holder (ds_lock d l))" for l
    using locks by (simp add: locks_ok_def handed_def lock_fits_def)
  define x where "x = (case ds_locks d key of None \<Rightarrow> None | Some l \<Rightarrow> lk_holder (ds_lock d l))"
  have "?H \<subseteq> set_option x"
  proof
    fix w assume "w \<in> ?H"
    then obtain ph r l where w: "ds_task d w = Busy ph r l" "ph \<noteq> Waiting" "request_key r = key" by blast
    then have "ds_locks d key = Some l" "w \<in> holding (ds_task d) l"
      using locks keyedD [of d w] by (auto simp: locks_ok_def holding_def)
    then show "w \<in> set_option x" by (simp add: x_def hold)
  qed
  then have "card ?H \<le> 1" using card_mono [of "set_option x" ?H] by (cases x) auto
  moreover have busy: "busy (ds_task d) = {w. \<exists>ph r l. ds_task d w = Busy ph r l}"
    by (simp add: busy_def)
  moreover have "card (busy (ds_task d)) \<le> length (pool d)"
    using card_mono [OF _ busy_in_pool [OF pool]] card_length [of "pool d"] by fastforce
  moreover have "(case ds_users d key of None \<Rightarrow> 0 | Some n \<Rightarrow> n) = int (card (users (ds_task d) key))"
    using locks by (simp add: locks_ok_def counted_def)
  ultimately show ?thesis
    using inv pool unfolding dispatch_inv_def counts_ok_def tickets_ok_def tickets_fit_def pool_ok_def users_def
    by (simp add: action_worker_count_def)
qed

theorem one_action_per_target_witness:
  "card {w. \<exists>ph r l. ds_task example_pool w = Busy ph r l \<and> ph \<noteq> Waiting \<and> request_key r = ''group_id:7''} \<le> 1 \<and>
     ds_active example_pool \<le> 8"
  using one_action_per_target [OF example_reachable, of "''group_id:7''"] by blast

text \<open>C22. Every request a running pool accepts is answered: from then on the pool cannot work
  for ever without new requests, and when it has come to rest the queue is empty, no request
  is in progress and the responder of the request has been called.
\<close>

theorem accepted_requests_are_answered:
  assumes "dispatch_states cd d" "ds_running d" "submit action params echo d = (True, d')"
  shows "\<not> (\<exists>f. f 0 = d' \<and> (\<forall>i. work (f i) (f (Suc i)))) \<and>
     (\<forall>e. work\<^sup>*\<^sup>* d' e \<and> (\<forall>e'. \<not> work e e') \<longrightarrow> ds_queue e = [] \<and> ds_active e = 0 \<and>
        ds_next_ticket d \<in> fst ` set (ds_replies e))"
proof (intro conjI allI impI)
  have inv: "dispatch_inv d'"
    using submit_inv [OF reachable_inv [OF assms(1)], of action params echo] assms(3) by simp
  then show "\<not> (\<exists>f. f 0 = d' \<and> (\<forall>i. work (f i) (f (Suc i))))" by (rule work_ends)
  have sub: "served d'" "ds_next_ticket d \<in> accounted d'"
    using submit_accepted [OF reachable_inv [OF assms(1)] assms(2), of action params echo] assms(3) by simp_all
  fix e assume "work\<^sup>*\<^sup>* d' e \<and> (\<forall>e'. \<not> work e e')"
  then have e: "dispatch_inv e" "ds_next_ticket d \<in> accounted e" "ds_queue e = []" "busy (ds_task e) = {}"
    using work_star [of d' e] inv sub stuck_rests [of e] by blast+
  show "ds_queue e = []" by fact
  show "ds_active e = 0" using e(1,4) by (simp add: dispatch_inv_def counts_ok_def)
  have "held (ds_task e w) = {}" for w
    using e(4) busy_iff [of w "ds_task e"] by simp
  then show "ds_next_ticket d \<in> fst ` set (ds_replies e)"
    using e(2,3) by (simp add: accounted_def)
qed

theorem accepted_requests_are_answered_witness:
  "\<not> (\<exists>f. f 0 = snd (submit ''get_status'' [] PNone example_pool) \<and> (\<forall>i. work (f i) (f (Suc i))))"
proof -
  have "ds_running example_pool" "fst (submit ''get_status'' [] PNone example_pool)" by code_simp+
  then have "submit ''get_status'' [] PNone example_pool = (True, snd (submit ''get_status'' [] PNone example_pool))"
    by (simp add: prod_eq_iff)
  from accepted_requests_are_answered [OF example_reachable \<open>ds_running example_pool\<close> this] show ?thesis by blast
qed

end
