(* ===== verification/Transport_Settings.thy ===== *)
theory Transport_Settings
  imports Py_Values
begin

text \<open>
  OneBot transport settings: \<open>bridge/transports/spec.py\<close> (field specifications and their
  coercion), \<open>catalog.py\<close> (choice of the transport, defaults, normalisation), the \<open>SPEC\<close>
  constants of the five transports, \<open>reconcile_legacy_settings\<close> of \<open>websocket_client.py\<close>, and
  the transport fields of a \<open>BotRecord\<close> (\<open>models.py\<close>) that \<open>registry.py\<close> saves and loads.

  \<^item> Labels, help texts, card fields and factories play no part in the validation and are left
    out. Labels and aliases outside the code points of a \<open>string\<close> match no modelled input.
  \<^item> \<open>ipaddress.ip_address\<close>, the \<open>idna\<close> codec, the check of a bracketed host by \<open>urlparse\<close>,
    the number \<open>int(float(v) * 1000)\<close> and the random token are the environment, \<open>net_env\<close>.
  \<^item> A validation error is \<open>TransportValidationError\<close>; a \<open>ValueError\<close> of \<open>urlparse\<close> is not
    caught by the loop over the fields and escapes.
\<close>

section \<open>Specifications\<close>

record net_env =
  ne_ip :: "string \<Rightarrow> bool"
  ne_idna :: "string \<Rightarrow> string option"
  ne_bracket :: "string \<Rightarrow> bool"
  ne_millis :: "pyval \<Rightarrow> exn + int"
  ne_token :: string

record field_spec =
  fs_key :: string
  fs_kind :: string
  fs_default :: pyval
  fs_required :: bool
  fs_minimum :: "int option"
  fs_maximum :: "int option"
  fs_options :: "string list"
  fs_schemes :: "string list"
  fs_shell_default :: string
  fs_invert :: bool
  fs_random_token :: bool

definition field :: "string \<Rightarrow> string \<Rightarrow> pyval \<Rightarrow> field_spec" where
  \<comment> \<open>the defaults of the optional attributes\<close>
  "field key kind d = \<lparr>fs_key = key, fs_kind = kind, fs_default = d, fs_required = False,
     fs_minimum = None, fs_maximum = None, fs_options = [], fs_schemes = [], fs_shell_default = [],
     fs_invert = False, fs_random_token = False\<rparr>"

record transport_spec =
  ts_type :: string
  ts_fields :: "field_spec list"
  ts_server :: bool
  ts_aliases :: "string list"
  ts_reconciles :: bool

definition validation_error :: "string \<Rightarrow> exn" where
  "validation_error m = OtherError ''TransportValidationError'' m"

definition field_default :: "net_env \<Rightarrow> entry \<Rightarrow> bool \<Rightarrow> field_spec \<Rightarrow> pyval" where
  "field_default env shell for_create fs =
     (if for_create \<and> fs_random_token fs then PStr (ne_token env)
      else if fs_shell_default fs = [] then fs_default fs
      else (let v = dget_or shell (fs_shell_default fs) (fs_default fs)
            in if fs_invert fs then PBool (\<not> truthy v) else v))"

definition spec_defaults :: "net_env \<Rightarrow> transport_spec \<Rightarrow> entry \<Rightarrow> bool \<Rightarrow> entry" where
  "spec_defaults env spec shell for_create =
     map (\<lambda>fs. (fs_key fs, field_default env shell for_create fs)) (ts_fields spec)"

section \<open>Hosts and URLs\<close>

definition is_alnum_ascii :: "char \<Rightarrow> bool" where
  "is_alnum_ascii c = (let n = (of_char c :: int) in
     (48 \<le> n \<and> n \<le> 57) \<or> (65 \<le> n \<and> n \<le> 90) \<or> (97 \<le> n \<and> n \<le> 122))"

definition is_alpha_ascii :: "char \<Rightarrow> bool" where
  "is_alpha_ascii c = (let n = (of_char c :: int) in (65 \<le> n \<and> n \<le> 90) \<or> (97 \<le> n \<and> n \<le> 122))"

definition host_label :: "string \<Rightarrow> bool" where
  "host_label s \<longleftrightarrow> s \<noteq> [] \<and> length s \<le> 63 \<and> is_alnum_ascii (hd s) \<and> is_alnum_ascii (last s) \<and>
     list_all (\<lambda>c. is_alnum_ascii c \<or> c = CHR ''-'') s"

fun split_dots :: "string \<Rightarrow> string \<Rightarrow> string list" where
  "split_dots cur [] = [rev cur]"
| "split_dots cur (c # s) = (if c = CHR ''.'' then rev cur # split_dots [] s else split_dots (c # cur) s)"

definition unbracket :: "string \<Rightarrow> string" where
  "unbracket s = (if s \<noteq> [] \<and> hd s = CHR ''['' \<and> last s = CHR '']'' then py_strip (butlast (tl s)) else s)"

definition normalize_host :: "net_env \<Rightarrow> string \<Rightarrow> exn + string" where
  "normalize_host env value =
     (let s0 = py_strip value in
      if s0 = ''*'' then Inr ''0.0.0.0''
      else let s = unbracket s0 in
        if s = [] \<or> list_ex py_isspace s then Inl (validation_error ''host'')
        else if ne_ip env s then Inr s
        else if CHR '':'' \<in> set s \<or> CHR ''/'' \<in> set s \<or> CHR 0x5C \<in> set s then Inl (validation_error ''host'')
        else case ne_idna env s of
          None \<Rightarrow> Inl (validation_error ''host'')
        | Some ascii \<Rightarrow> (let canonical = py_lower (py_rstrip_char CHR ''.'' ascii) in
            if canonical = [] \<or> 253 < length canonical \<or> \<not> list_all host_label (split_dots [] canonical)
            then Inl (validation_error ''host'') else Inr canonical))"

definition scheme_char :: "char \<Rightarrow> bool" where
  "scheme_char c \<longleftrightarrow> is_alnum_ascii c \<or> c \<in> set ''+-.''"

definition clean_url :: "string \<Rightarrow> string" where
  "clean_url s = filter (\<lambda>c. c \<notin> set [CHR 0x09, CHR 0x0A, CHR 0x0D])
     (dropWhile (\<lambda>c. (of_char c :: int) \<le> 32) s)"

definition url_scheme :: "string \<Rightarrow> string \<times> string" where
  \<comment> \<open>the scheme of a cleaned URL and the rest\<close>
  "url_scheme s = (let front = takeWhile (\<lambda>c. c \<noteq> CHR '':'') s in
     if front \<noteq> s \<and> front \<noteq> [] \<and> is_alpha_ascii (hd front) \<and> list_all scheme_char front
     then (py_lower front, drop (Suc (length front)) s) else ([], s))"

definition url_parse :: "net_env \<Rightarrow> string \<Rightarrow> exn + (string \<times> string)" where
  \<comment> \<open>scheme and network location of \<open>urlparse\<close>\<close>
  "url_parse env s = (case url_scheme (clean_url s) of (scheme, rest) \<Rightarrow>
     let netloc = (if take 2 rest = ''//''
                   then takeWhile (\<lambda>c. c \<notin> set ''/?#'') (drop 2 rest) else []);
         opening = CHR ''['' \<in> set netloc; closing = CHR '']'' \<in> set netloc
     in if opening \<noteq> closing \<or> (opening \<and> \<not> ne_bracket env netloc) then Inl (ValueError ''url'')
        else Inr (scheme, netloc))"

section \<open>Coercion\<close>

definition true_words :: "string list" where "true_words = [''true'', ''1'', ''yes'', ''on'']"

definition false_words :: "string list" where "false_words = [''false'', ''0'', ''no'', ''off'', []]"

definition read_bool :: "pyval \<Rightarrow> bool option" where
  "read_bool v = (case v of
     PBool b \<Rightarrow> Some b
   | PInt n \<Rightarrow> if n = 0 \<or> n = 1 then Some (n = 1) else None
   | PStr s \<Rightarrow> (let w = py_lower (py_strip s) in
       if w \<in> set true_words then Some True else if w \<in> set false_words then Some False else None)
   | _ \<Rightarrow> None)"

definition coerce_text :: "net_env \<Rightarrow> field_spec \<Rightarrow> pyval \<Rightarrow> exn + pyval" where
  "coerce_text env fs value =
     (let s = py_strip (py_str (py_or value (PStr []))) in
      if fs_required fs \<and> s = [] then Inl (validation_error ''required'')
      else sbind (if fs_kind fs = ''url'' \<and> s \<noteq> []
          then sbind (url_parse env s) (\<lambda>(scheme, netloc).
            let allowed = (if fs_schemes fs = [] then [''http'', ''https''] else fs_schemes fs)
            in if py_lower scheme \<notin> set allowed \<or> netloc = [] then Inl (validation_error ''url'') else Inr s)
          else Inr s) (\<lambda>s.
        if fs_key fs = ''host'' \<and> s \<noteq> [] then sbind (normalize_host env s) (\<lambda>h. Inr (PStr h))
        else Inr (PStr s)))"

definition coerce_field :: "net_env \<Rightarrow> field_spec \<Rightarrow> pyval \<Rightarrow> exn + pyval" where
  "coerce_field env fs value =
     (if fs_kind fs \<in> {''text'', ''url'', ''password''} then coerce_text env fs value
      else if fs_kind fs = ''boolean'' then
        (case read_bool value of Some b \<Rightarrow> Inr (PBool b) | None \<Rightarrow> Inl (validation_error ''boolean''))
      else if fs_kind fs = ''number'' then
        (case py_int value of
           Inl _ \<Rightarrow> Inl (validation_error ''number'')
         | Inr n \<Rightarrow>
             if (case fs_minimum fs of None \<Rightarrow> False | Some m \<Rightarrow> n < m) then Inl (validation_error ''minimum'')
             else if (case fs_maximum fs of None \<Rightarrow> False | Some m \<Rightarrow> m < n) then Inl (validation_error ''maximum'')
             else Inr (PInt n))
      else if fs_kind fs = ''select'' then
        (let s = py_lower (py_strip (py_str (py_or value (PStr []))))
         in if s \<in> set (fs_options fs) then Inr (PStr s) else Inl (validation_error ''select''))
      else Inl (validation_error ''kind''))"

fun coerce_fields :: "net_env \<Rightarrow> entry \<Rightarrow> entry \<Rightarrow> field_spec list \<Rightarrow> bool \<Rightarrow> entry \<Rightarrow> exn + entry" where
  \<comment> \<open>validation errors are collected, anything else escapes\<close>
  "coerce_fields env source defaults [] failed normalized =
     (if failed then Inl (validation_error ''settings'') else Inr normalized)"
| "coerce_fields env source defaults (fs # rest) failed normalized =
     (let value = (case map_of source (fs_key fs) of
                     Some v \<Rightarrow> v | None \<Rightarrow> dget_or defaults (fs_key fs) (fs_default fs))
      in case coerce_field env fs value of
        Inr v \<Rightarrow> coerce_fields env source defaults rest failed (AList.update (fs_key fs) v normalized)
      | Inl (OtherError c m) \<Rightarrow> coerce_fields env source defaults rest True normalized
      | Inl e \<Rightarrow> Inl e)"

definition coerce_transport_settings :: "net_env \<Rightarrow> transport_spec \<Rightarrow> pyval \<Rightarrow> entry \<Rightarrow> exn + entry" where
  "coerce_transport_settings env spec raw defaults =
     (case (case raw of PNone \<Rightarrow> Some [] | PDict e \<Rightarrow> Some e | _ \<Rightarrow> None) of
        None \<Rightarrow> Inl (validation_error ''object'')
      | Some source \<Rightarrow>
          if \<not> set (keys_of source) \<subseteq> fs_key ` set (ts_fields spec) then Inl (validation_error ''unknown'')
          else coerce_fields env source defaults (ts_fields spec) False [])"

section \<open>The five transports\<close>

definition format_field :: field_spec where
  "format_field = (field ''message_post_format'' ''select'' (PStr ''array''))\<lparr>fs_options := [''array'', ''string'']\<rparr>"

definition report_field :: field_spec where
  "report_field = (field ''report_self_message'' ''boolean'' (PBool False))
     \<lparr>fs_shell_default := ''default_skip_own_messages'', fs_invert := True\<rparr>"

definition random_token_field :: field_spec where
  "random_token_field = (field ''access_token'' ''password'' (PStr []))\<lparr>fs_random_token := True\<rparr>"

definition debug_field :: field_spec where
  "debug_field = (field ''debug'' ''boolean'' (PBool False))\<lparr>fs_shell_default := ''default_debug''\<rparr>"

definition host_field :: field_spec where
  "host_field = (field ''host'' ''text'' (PStr ''127.0.0.1''))\<lparr>fs_required := True\<rparr>"

definition port_field :: "int \<Rightarrow> field_spec" where
  "port_field n = (field ''port'' ''number'' (PInt n))\<lparr>fs_minimum := Some 1, fs_maximum := Some 65535\<rparr>"

definition heartbeat_field :: field_spec where
  "heartbeat_field = (field ''heartbeat_interval_ms'' ''number'' (PInt 30000))
     \<lparr>fs_minimum := Some 0, fs_maximum := Some 3600000\<rparr>"

definition http_server_spec :: transport_spec where
  "http_server_spec = \<lparr>ts_type = ''http-server'', ts_fields = [host_field, port_field 3000,
     field ''enable_cors'' ''boolean'' (PBool True), field ''enable_websocket'' ''boolean'' (PBool False),
     format_field, random_token_field, debug_field], ts_server = True,
     ts_aliases = [''http server''], ts_reconciles = False\<rparr>"

definition http_client_spec :: transport_spec where
  "http_client_spec = \<lparr>ts_type = ''http-client'', ts_fields = [
     (field ''url'' ''url'' (PStr ''http://localhost:8080''))\<lparr>fs_required := True, fs_schemes := [''http'', ''https'']\<rparr>,
     format_field, report_field, random_token_field, debug_field], ts_server = False,
     ts_aliases = [''http client''], ts_reconciles = False\<rparr>"

definition http_sse_server_spec :: transport_spec where
  "http_sse_server_spec = \<lparr>ts_type = ''http-sse-server'', ts_fields = [host_field, port_field 3000,
     field ''enable_cors'' ''boolean'' (PBool True), field ''enable_websocket'' ''boolean'' (PBool False),
     format_field, report_field, random_token_field, debug_field], ts_server = True,
     ts_aliases = [''http sse server''], ts_reconciles = False\<rparr>"

definition websocket_server_spec :: transport_spec where
  "websocket_server_spec = \<lparr>ts_type = ''websocket-server'', ts_fields = [host_field, port_field 3001,
     format_field, report_field, field ''enableForcePushEvent'' ''boolean'' (PBool True), heartbeat_field,
     random_token_field, debug_field], ts_server = True,
     ts_aliases = [''ws-server'', ''websocket server''], ts_reconciles = False\<rparr>"

definition websocket_client_spec :: transport_spec where
  "websocket_client_spec = \<lparr>ts_type = ''websocket-client'', ts_fields = [
     (field ''url'' ''url'' (PStr ''ws://127.0.0.1:6199/ws/''))
       \<lparr>fs_required := True, fs_schemes := [''ws'', ''wss''], fs_shell_default := ''default_onebot_ws_url''\<rparr>,
     format_field, report_field,
     (field ''reconnect_interval_ms'' ''number'' (PInt 5000))\<lparr>fs_minimum := Some 100, fs_maximum := Some 3600000\<rparr>,
     heartbeat_field,
     (field ''access_token'' ''password'' (PStr []))\<lparr>fs_shell_default := ''default_onebot_access_token''\<rparr>,
     debug_field], ts_server = False,
     ts_aliases = [''ws-client'', ''websocket client''], ts_reconciles = True\<rparr>"

definition transport_specs :: "transport_spec list" where
  "transport_specs = [http_server_spec, http_client_spec, http_sse_server_spec, websocket_server_spec,
     websocket_client_spec]"

definition get_transport_spec :: "string \<Rightarrow> exn + transport_spec" where
  "get_transport_spec type_id =
     (let t = py_lower (py_strip type_id) in
      case find (\<lambda>spec. ts_type spec = t) transport_specs of
        Some spec \<Rightarrow> Inr spec
      | None \<Rightarrow> (case find (\<lambda>spec. t \<in> set (ts_aliases spec)) transport_specs of
          Some spec \<Rightarrow> Inr spec | None \<Rightarrow> Inl (validation_error ''type'')))"

section \<open>Settings of older versions\<close>

definition legacy_bool :: "pyval \<Rightarrow> bool \<Rightarrow> bool" where
  "legacy_bool v d = (case read_bool v of Some b \<Rightarrow> b | None \<Rightarrow> d)"

definition set_if :: "bool \<Rightarrow> string \<Rightarrow> pyval \<Rightarrow> entry \<Rightarrow> entry" where
  "set_if b k v e = (if b then AList.update k v e else e)"

definition legacy_number :: "exn + int \<Rightarrow> int \<Rightarrow> exn + int" where
  \<comment> \<open>\<open>except (TypeError, ValueError)\<close>\<close>
  "legacy_number r d = (case r of
     Inr n \<Rightarrow> Inr n | Inl TypeError \<Rightarrow> Inr d | Inl (ValueError _) \<Rightarrow> Inr d | Inl e \<Rightarrow> Inl e)"

definition reconcile_legacy_settings ::
  "net_env \<Rightarrow> entry \<Rightarrow> entry \<Rightarrow> entry \<Rightarrow> bool \<Rightarrow> exn + entry" where
  "reconcile_legacy_settings env settings legacy shell explicit =
     (let skip = truthy (dget_or shell ''default_skip_own_messages'' (PBool True));
          debug = truthy (dget_or shell ''default_debug'' (PBool False));
          m1 = set_if (has_key legacy ''onebot_ws_url'') ''url'' (PStr (str_field legacy ''onebot_ws_url'')) settings;
          m2 = set_if (has_key legacy ''onebot_access_token'') ''access_token''
                 (PStr (raw_str_field legacy ''onebot_access_token'')) m1;
          m3 = set_if (has_key legacy ''skip_own_messages'') ''report_self_message''
                 (PBool (\<not> legacy_bool (dget legacy ''skip_own_messages'') skip)) m2;
          m4 = set_if (has_key legacy ''debug'') ''debug'' (PBool (legacy_bool (dget legacy ''debug'') debug)) m3
      in if explicit then Inr m4
         else let m5 = set_if (has_key legacy ''message_post_format'') ''message_post_format''
                (PStr (py_lower (py_strip (py_str (py_or (dget legacy ''message_post_format'') (PStr ''array'')))))) m4
           in sbind (if has_key legacy ''onebot_reconnect_delay''
                then sbind (legacy_number (case ne_millis env (dget legacy ''onebot_reconnect_delay'') of
                       Inr n \<Rightarrow> Inr (max 100 n) | Inl e \<Rightarrow> Inl e) 5000)
                     (\<lambda>n. Inr (AList.update ''reconnect_interval_ms'' (PInt n) m5))
                else Inr m5) (\<lambda>m6.
              if has_key legacy ''onebot_heartbeat_interval_ms''
              then sbind (legacy_number (int_field legacy ''onebot_heartbeat_interval_ms'') 30000)
                     (\<lambda>n. Inr (AList.update ''heartbeat_interval_ms'' (PInt n) m6))
              else Inr m6))"

section \<open>Normalisation\<close>

definition normalize_transport ::
  "net_env \<Rightarrow> entry \<Rightarrow> bool \<Rightarrow> entry \<Rightarrow> entry \<Rightarrow> exn + (string \<times> entry)" where
  \<comment> \<open>\<open>payload\<close> and \<open>legacy\<close> are \<open>[]\<close> when they are \<open>None\<close>\<close>
  "normalize_transport env shell for_create legacy payload =
     (let explicit = (payload \<noteq> []);
          source = (if explicit then payload
                    else [(''type'', PStr ''websocket-client''), (''settings'', PDict [])]);
          type_id = py_lower (py_strip (py_str (py_or (dget source ''type'') (PStr ''websocket-client''))))
      in sbind (get_transport_spec type_id) (\<lambda>spec.
           let defaults = spec_defaults env spec shell for_create;
               settings = dget source ''settings''
           in sbind (if ts_reconciles spec \<and> legacy \<noteq> [] \<and> (settings = PNone \<or> is_dict settings)
                then sbind (reconcile_legacy_settings env
                       (case settings of PDict e \<Rightarrow> e | _ \<Rightarrow> []) legacy shell explicit) (\<lambda>e. Inr (PDict e))
                else Inr settings) (\<lambda>settings'.
              sbind (coerce_transport_settings env spec settings' defaults) (\<lambda>n. Inr (ts_type spec, n)))))"

section \<open>The transport of a bot\<close>

record bot_transport =
  bt_type :: string
  bt_settings :: entry
  bt_ws_url :: string
  bt_access_token :: string
  bt_skip_own :: bool
  bt_debug :: bool

definition coerce_bool :: "pyval \<Rightarrow> bool \<Rightarrow> bool" where
  "coerce_bool v d = (case v of
     PNone \<Rightarrow> d
   | PBool b \<Rightarrow> b
   | PInt n \<Rightarrow> n \<noteq> 0
   | PStr s \<Rightarrow> (let w = py_lower (py_strip s) in
       if w \<in> set true_words then True else if w \<in> set false_words then False else s \<noteq> [])
   | _ \<Rightarrow> truthy v)"

definition default_ws_url :: string where "default_ws_url = ''ws://127.0.0.1:6199/ws/''"

definition apply_onebot_transport :: "entry \<Rightarrow> bot_transport \<Rightarrow> bot_transport" where
  "apply_onebot_transport payload b =
     (let t = py_lower (py_strip (py_str (py_or (dget payload ''type'') (PStr ''websocket-client''))));
          settings = (case dget payload ''settings'' of PDict e \<Rightarrow> e | _ \<Rightarrow> []);
          b1 = b\<lparr>bt_type := t, bt_settings := settings,
                 bt_access_token := raw_str_field settings ''access_token'',
                 bt_debug := coerce_bool (dget_or settings ''debug'' (PBool (bt_debug b))) (bt_debug b)\<rparr>;
          b2 = (if has_key settings ''report_self_message''
                then b1\<lparr>bt_skip_own := \<not> coerce_bool (dget settings ''report_self_message'') False\<rparr> else b1)
      in if t = ''websocket-client''
         then b2\<lparr>bt_ws_url := py_strip (py_str (py_or (dget settings ''url'')
                (py_or (PStr (bt_ws_url b2)) (PStr default_ws_url))))\<rparr>
         else b2)"

definition onebot_transport_mapping :: "bot_transport \<Rightarrow> entry" where
  "onebot_transport_mapping b =
     [(''type'', PStr (if bt_type b = [] then ''websocket-client'' else bt_type b)),
      (''settings'', PDict (bt_settings b))]"

definition disabled_ws_url :: string where
  "disabled_ws_url = ''ws://127.0.0.1:1/__rocketcat_disabled_transport__''"

definition legacy_transport_fields :: "bot_transport \<Rightarrow> entry" where
  \<comment> \<open>the fields of \<open>to_legacy_mapping\<close> that concern the transport\<close>
  "legacy_transport_fields b = (let ws = (bt_type b = ''websocket-client'') in
     [(''onebot_ws_url'', PStr (if ws then bt_ws_url b else disabled_ws_url)),
      (''onebot_access_token'', PStr (if ws then bt_access_token b else [])),
      (''skip_own_messages'', PBool (bt_skip_own b)), (''debug'', PBool (bt_debug b))])"

definition transport_from_mapping :: "entry \<Rightarrow> entry \<Rightarrow> bot_transport" where
  \<comment> \<open>the transport fields of \<open>BotRecord.from_mapping\<close>\<close>
  "transport_from_mapping shell data =
     (let url = dget shell ''default_onebot_ws_url''; token = dget shell ''default_onebot_access_token'';
          skip = truthy (dget shell ''default_skip_own_messages''); debug = truthy (dget shell ''default_debug'');
          ws = py_strip (py_str (py_or (dget_or data ''onebot_ws_url'' url) url));
          tok = py_str (py_or (dget_or data ''onebot_access_token'' token) token);
          own = coerce_bool (dget_or data ''skip_own_messages'' (PBool skip)) skip;
          dbg = coerce_bool (dget_or data ''debug'' (PBool debug)) debug
      in \<lparr>bt_type = (case dget data ''onebot_transport'' of
            PDict t \<Rightarrow> py_lower (py_strip (py_str (py_or (dget t ''type'') (PStr ''websocket-client''))))
          | _ \<Rightarrow> ''websocket-client''),
          bt_settings = (case dget data ''onebot_transport'' of
            PDict t \<Rightarrow> (case dget t ''settings'' of PDict e \<Rightarrow> e | _ \<Rightarrow> [])
          | _ \<Rightarrow> [(''url'', PStr ws), (''message_post_format'', PStr ''array''),
            (''report_self_message'', PBool (\<not> own)), (''reconnect_interval_ms'', PInt 5000),
            (''access_token'', PStr tok), (''debug'', PBool dbg), (''heartbeat_interval_ms'', PInt 30000)]),
          bt_ws_url = ws, bt_access_token = tok, bt_skip_own = own, bt_debug = dbg\<rparr>)"

section \<open>Loading the bots\<close>

definition baseline_escapes :: "net_env \<Rightarrow> entry \<Rightarrow> entry option \<Rightarrow> exn option" where
  \<comment> \<open>the stored transport is normalised once more, without the legacy fields, for the log\<close>
  "baseline_escapes env shell stored = (case stored of
     None \<Rightarrow> None
   | Some e \<Rightarrow> (case normalize_transport env shell False [] e of
       Inl (OtherError _ _) \<Rightarrow> None | Inl x \<Rightarrow> Some x | Inr _ \<Rightarrow> None))"

definition load_transport :: "net_env \<Rightarrow> entry \<Rightarrow> entry option \<Rightarrow> entry \<Rightarrow> exn + (bool \<times> bot_transport)" where
  \<comment> \<open>the transport of one bot in \<open>BotRegistry.load\<close>: the stored one, the item of \<open>bots.json\<close>;
     the flag tells whether the configuration was valid\<close>
  "load_transport env shell stored item =
     (let b = transport_from_mapping shell item;
          src = (case stored of None \<Rightarrow> [] | Some e \<Rightarrow> e)
      in case normalize_transport env shell False item src of
           Inr (t, s) \<Rightarrow> (case baseline_escapes env shell stored of
               Some x \<Rightarrow> Inl x
             | None \<Rightarrow> Inr (True, apply_onebot_transport [(''type'', PStr t), (''settings'', PDict s)] b))
         | Inl (OtherError _ _) \<Rightarrow> Inr (False, apply_onebot_transport
             (case stored of Some e \<Rightarrow> e | None \<Rightarrow> onebot_transport_mapping b) b)
         | Inl e \<Rightarrow> Inl e)"

text \<open>
  \<open>BotRegistry.load\<close> on what was read of \<open>bots.json\<close> and \<open>onebot_transports.json\<close>. The stored
  transport is looked up by the item's id; an item without an id gets a new one, \<open>gen i\<close> for
  the \<open>i\<close>-th item (a random one in the program). The result is the flag
  \<open>loaded_transport_state_valid\<close> and the bots; their other fields, and the files that \<open>load\<close>
  writes when one was missing, are left out.
\<close>

record loaded_bot =
  lb_id :: string
  lb_name :: string
  lb_transport :: bot_transport

definition mapped_text :: "entry \<Rightarrow> string \<Rightarrow> string \<Rightarrow> string" where
  \<comment> \<open>\<open>str(data.get(k) or data.get(k') or "").strip()\<close>\<close>
  "mapped_text data k k' = py_strip (py_str (py_or (py_or (dget data k) (dget data k')) (PStr [])))"

definition loaded_id :: "(nat \<Rightarrow> string) \<Rightarrow> nat \<Rightarrow> entry \<Rightarrow> string" where
  "loaded_id gen i data = (let bid = mapped_text data ''id'' ''bot_id'' in if bid = [] then gen i else bid)"

definition load_bot :: "net_env \<Rightarrow> entry \<Rightarrow> (nat \<Rightarrow> string) \<Rightarrow> entry \<Rightarrow> nat \<Rightarrow> entry \<Rightarrow> exn + (bool \<times> loaded_bot)" where
  "load_bot env shell gen stored i data =
     (let bid = loaded_id gen i data;
          name = mapped_text data ''name'' ''display_name'';
          source = (case dget stored bid of PDict e \<Rightarrow> Some e | _ \<Rightarrow> None)
      in sbind (load_transport env shell source data) (\<lambda>(ok, t).
           Inr (ok, \<lparr>lb_id = bid, lb_name = (if name = [] then bid else name), lb_transport = t\<rparr>)))"

fun load_bots :: "net_env \<Rightarrow> entry \<Rightarrow> (nat \<Rightarrow> string) \<Rightarrow> entry \<Rightarrow> nat \<Rightarrow> pyval list \<Rightarrow> bool
    \<Rightarrow> exn + (bool \<times> loaded_bot list)" where
  "load_bots env shell gen stored i [] valid = Inr (valid, [])"
| "load_bots env shell gen stored i (PDict data # items) valid =
     sbind (load_bot env shell gen stored i data) (\<lambda>(ok, b).
     sbind (load_bots env shell gen stored (Suc i) items (valid \<and> ok)) (\<lambda>(v, bs). Inr (v, b # bs)))"
| "load_bots env shell gen stored i (_ # items) valid = load_bots env shell gen stored (Suc i) items valid"

definition load_registry :: "net_env \<Rightarrow> entry \<Rightarrow> (nat \<Rightarrow> string) \<Rightarrow> pyval \<Rightarrow> pyval
    \<Rightarrow> exn + (bool \<times> loaded_bot list)" where
  "load_registry env shell gen bots_file transports_file =
     (let items = (case bots_file of PDict p \<Rightarrow> dget_or p ''bots'' (PList []) | _ \<Rightarrow> PList []);
          version = (case transports_file of PDict p \<Rightarrow> dget p ''format_version'' | _ \<Rightarrow> PNone);
          supported = (version = PInt 1 \<or> version = PBool True);
          stored = (case transports_file of
              PDict p \<Rightarrow> (if supported then (case dget_or p ''transports'' (PDict []) of PDict e \<Rightarrow> e | _ \<Rightarrow> []) else [])
            | _ \<Rightarrow> [])
      in sbind (py_iter items) (\<lambda>its. load_bots env shell gen stored 0 its supported))"

end
