(* ===== verification/Transport_Proofs.thy ===== *)
theory Transport_Proofs
  imports Transport_Settings
begin

text \<open>
  Typing and idempotence of the coercion of transport settings, and the fields of a bot
  through saving and loading.
\<close>

section \<open>Strings\<close>

lemma lower_char_idem [simp]: "py_lower_char (py_lower_char c) = py_lower_char c"
proof -
  have "(of_char (char_of (of_char c + 32 :: int)) :: int) = of_char c + 32"
    if "(65 \<le> (of_char c :: int) \<and> of_char c \<le> (90 :: int)) \<or> (192 \<le> (of_char c :: int) \<and> of_char c \<le> (222 :: int))"
    using that by (auto simp: take_bit_eq_mod mod_pos_pos_trivial)
  then show ?thesis by (auto simp: py_lower_char_def Let_def)
qed

lemma lower_idem [simp]: "py_lower (py_lower s) = py_lower s"
  by (simp add: py_lower_def)

section \<open>Hosts\<close>

lemma split_dots_chars:
  "list_all host_label (split_dots cur s) \<Longrightarrow> c \<in> set cur \<union> set s \<Longrightarrow> is_alnum_ascii c \<or> c = CHR ''-'' \<or> c = CHR ''.''"
proof (induction cur s rule: split_dots.induct)
  case (2 cur d s)
  then show ?case by (auto split: if_splits simp: host_label_def list_all_iff)
qed (auto simp: host_label_def list_all_iff)

lemma split_dots_last: "list_all host_label (split_dots cur s) \<Longrightarrow> s \<noteq> [] \<Longrightarrow> last s \<noteq> CHR ''.''"
proof (induction cur s rule: split_dots.induct)
  case (2 cur c s)
  then show ?case
    by (cases s) (auto split: if_splits simp: host_label_def)
qed simp

definition host_ok :: "net_env \<Rightarrow> string \<Rightarrow> bool" where
  \<comment> \<open>an address, or a host name of LDH labels in lower case\<close>
  "host_ok env h \<longleftrightarrow> h \<noteq> [] \<and> list_all (\<lambda>c. \<not> py_isspace c) h \<and>
     (ne_ip env h \<or> (list_all host_label (split_dots [] h) \<and> length h \<le> 253 \<and> py_lower h = h))"

definition plain_env :: "net_env \<Rightarrow> bool" where
  \<comment> \<open>addresses are neither \<open>*\<close> nor bracketed, an LDH host name is its own IDNA encoding\<close>
  "plain_env env \<longleftrightarrow> (\<forall>h. ne_ip env h \<longrightarrow> h \<noteq> ''*'' \<and> hd h \<noteq> CHR ''['') \<and>
     (\<forall>h. list_all host_label (split_dots [] h) \<longrightarrow> ne_idna env h = Some h)"

lemma ldh_char:
  assumes "is_alnum_ascii c \<or> c = CHR ''-'' \<or> c = CHR ''.''"
  shows "\<not> py_isspace c" "c \<noteq> CHR ''[''" "c \<noteq> CHR ''*''" "c \<noteq> CHR '':''" "c \<noteq> CHR ''/''" "c \<noteq> CHR 0x5C"
  using assms by (auto simp: is_alnum_ascii_def py_isspace_def Let_def)

lemma normalize_host_ok:
  assumes "normalize_host env s = Inr h"
  shows "host_ok env h"
proof (cases "py_strip s = ''*''")
  case True
  then have "h = ''0.0.0.0''" using assms by (simp add: normalize_host_def Let_def)
  moreover have "list_all host_label (split_dots [] ''0.0.0.0'') \<and> py_lower ''0.0.0.0'' = ''0.0.0.0'' \<and>
      list_all (\<lambda>c. \<not> py_isspace c) ''0.0.0.0''"
    by code_simp
  ultimately show ?thesis by (simp add: host_ok_def)
next
  case False
  let ?s = "unbracket (py_strip s)"
  consider "?s \<noteq> []" "\<not> list_ex py_isspace ?s" "ne_ip env ?s" "h = ?s"
    | a where "h = py_lower (py_rstrip_char CHR ''.'' a)" "h \<noteq> []" "length h \<le> 253"
        "list_all host_label (split_dots [] h)"
    using assms False by (auto simp: normalize_host_def Let_def split: if_splits option.splits)
  then show ?thesis
  proof cases
    case 1
    then show ?thesis by (auto simp: host_ok_def list_all_iff list_ex_iff)
  next
    case 2
    then have "list_all (\<lambda>c. \<not> py_isspace c) h"
      using split_dots_chars [OF 2(4)] ldh_char(1) by (fastforce simp: list_all_iff)
    with 2 show ?thesis by (simp add: host_ok_def)
  qed
qed

lemma rstrip_char_last: "s \<noteq> [] \<Longrightarrow> last s \<noteq> c \<Longrightarrow> py_rstrip_char c s = s"
  by (cases s rule: rev_cases) (simp_all add: py_rstrip_char_def)

lemma host_ok_fixed:
  assumes env: "plain_env env" and h: "host_ok env h"
  shows "normalize_host env h = Inr h"
proof -
  have s: "py_strip h = h" "\<not> list_ex py_isspace h" "h \<noteq> []"
    using h by (auto simp: host_ok_def list_all_iff list_ex_iff intro!: py_strip_nonspace)
  show ?thesis
  proof (cases "ne_ip env h")
    case True
    then have "h \<noteq> ''*''" "hd h \<noteq> CHR ''[''" using env by (auto simp: plain_env_def)
    then show ?thesis using s True by (simp add: normalize_host_def unbracket_def Let_def)
  next
    case False
    then have l: "list_all host_label (split_dots [] h)" "length h \<le> 253" "py_lower h = h"
      using h by (auto simp: host_ok_def)
    have c: "is_alnum_ascii c \<or> c = CHR ''-'' \<or> c = CHR ''.''" if "c \<in> set h" for c
      using split_dots_chars [OF l(1)] that by simp
    have plain: "x \<noteq> CHR ''[''" "x \<noteq> CHR ''*''" "x \<noteq> CHR '':''" "x \<noteq> CHR ''/''" "x \<noteq> CHR 0x5C"
      if "x \<in> set h" for x
      using ldh_char [OF c [OF that]] by blast+
    have "hd h \<noteq> CHR ''[''" by (rule plain(1) [OF hd_in_set [OF s(3)]])
    moreover have "h \<noteq> ''*''" using plain(2) [of "CHR ''*''"] by auto
    moreover have "CHR '':'' \<notin> set h" "CHR ''/'' \<notin> set h" "CHR 0x5C \<notin> set h"
      using plain(3) [of "CHR '':''"] plain(4) [of "CHR ''/''"] plain(5) [of "CHR 0x5C"] by blast+
    ultimately have "hd h \<noteq> CHR ''[''" "h \<noteq> ''*''" "CHR '':'' \<notin> set h" "CHR ''/'' \<notin> set h"
      "CHR 0x5C \<notin> set h" by blast+
    then show ?thesis
      using s False l env rstrip_char_last [OF s(3) split_dots_last [OF l(1) s(3)]]
      by (simp add: normalize_host_def unbracket_def Let_def plain_env_def)
  qed
qed

section \<open>Single fields\<close>

definition field_fits :: "field_spec \<Rightarrow> bool" where
  \<comment> \<open>what the specifications of the five transports have in common\<close>
  "field_fits fs \<longleftrightarrow> fs_kind fs \<in> {''text'', ''url'', ''password'', ''boolean'', ''number'', ''select''} \<and>
     list_all (\<lambda>s. py_lower (py_strip s) = s \<and> s \<noteq> []) (fs_options fs) \<and> (fs_key fs = ''host'' \<longrightarrow> fs_kind fs = ''text'')"

definition url_ok :: "net_env \<Rightarrow> field_spec \<Rightarrow> string \<Rightarrow> bool" where
  "url_ok env fs s \<longleftrightarrow> (\<exists>scheme netloc. url_parse env s = Inr (scheme, netloc) \<and> netloc \<noteq> [] \<and>
     py_lower scheme \<in> set (if fs_schemes fs = [] then [''http'', ''https''] else fs_schemes fs))"

definition well_typed :: "net_env \<Rightarrow> field_spec \<Rightarrow> pyval \<Rightarrow> bool" where
  "well_typed env fs v \<longleftrightarrow>
     (if fs_kind fs = ''boolean'' then \<exists>b. v = PBool b
      else if fs_kind fs = ''number'' then \<exists>n. v = PInt n \<and>
        (\<forall>m. fs_minimum fs = Some m \<longrightarrow> m \<le> n) \<and> (\<forall>m. fs_maximum fs = Some m \<longrightarrow> n \<le> m)
      else if fs_kind fs = ''select'' then \<exists>s. v = PStr s \<and> s \<in> set (fs_options fs)
      else \<exists>s. v = PStr s \<and> py_strip s = s \<and> (fs_required fs \<longrightarrow> s \<noteq> []) \<and>
        (fs_kind fs = ''url'' \<and> s \<noteq> [] \<longrightarrow> url_ok env fs s) \<and> (fs_key fs = ''host'' \<and> s \<noteq> [] \<longrightarrow> host_ok env s))"

lemma coerce_text_typed:
  assumes "field_fits fs" "fs_kind fs \<in> {''text'', ''url'', ''password''}" "coerce_text env fs value = Inr v"
  shows "well_typed env fs v"
proof -
  have k: "fs_kind fs \<noteq> ''boolean''" "fs_kind fs \<noteq> ''number''" "fs_kind fs \<noteq> ''select''"
    using assms(2) by auto
  let ?s = "py_strip (py_str (py_or value (PStr [])))"
  have r: "\<not> (fs_required fs \<and> ?s = [])"
    using assms(3) by (auto simp: coerce_text_def Let_def)
  show ?thesis
  proof (cases "fs_key fs = ''host'' \<and> ?s \<noteq> []")
    case True
    then have "fs_kind fs = ''text''" using assms(1) by (auto simp: field_fits_def)
    then obtain h where "v = PStr h" "normalize_host env ?s = Inr h"
      using True r assms(3) by (auto simp: coerce_text_def Let_def sbind_Inr)
    then have "host_ok env h" "v = PStr h" by (auto dest: normalize_host_ok)
    moreover have "py_strip h = h" using \<open>host_ok env h\<close> by (auto simp: host_ok_def intro: py_strip_nonspace)
    ultimately show ?thesis
      using k \<open>fs_kind fs = ''text''\<close> by (simp add: well_typed_def host_ok_def)
  next
    case False
    then have "v = PStr ?s" "fs_kind fs = ''url'' \<and> ?s \<noteq> [] \<longrightarrow> url_ok env fs ?s"
      using r assms(3) by (auto simp: coerce_text_def Let_def sbind_Inr url_ok_def split: if_splits)
    then show ?thesis
      using k r False unfolding well_typed_def by auto
  qed
qed

lemma coerce_field_typed:
  assumes "field_fits fs" "coerce_field env fs value = Inr v"
  shows "well_typed env fs v"
proof -
  consider "fs_kind fs \<in> {''text'', ''url'', ''password''}" | "fs_kind fs = ''boolean''" | "fs_kind fs = ''number''"
    | "fs_kind fs = ''select''"
    using assms(1) by (auto simp: field_fits_def)
  then show ?thesis
  proof cases
    case 1
    then show ?thesis using coerce_text_typed [OF assms(1) 1] assms(2) by (simp add: coerce_field_def)
  next
    case 3
    then show ?thesis
      using assms(2) by (auto simp: coerce_field_def well_typed_def split: sum.splits if_splits option.splits)
  qed (use assms(2) in \<open>auto simp: coerce_field_def well_typed_def Let_def split: option.splits if_splits\<close>)
qed

lemma str_or_empty: "py_str (py_or (PStr s) (PStr [])) = s"
  by (simp add: py_or_def)

lemma typed_fixed:
  assumes env: "plain_env env" and fs: "field_fits fs" and v: "well_typed env fs v"
  shows "coerce_field env fs v = Inr v"
proof -
  consider "fs_kind fs \<in> {''text'', ''url'', ''password''}" | "fs_kind fs = ''boolean''" | "fs_kind fs = ''number''"
    | "fs_kind fs = ''select''"
    using fs by (auto simp: field_fits_def)
  then show ?thesis
  proof cases
    case 1
    then obtain s where s: "v = PStr s" "py_strip s = s" "fs_required fs \<longrightarrow> s \<noteq> []"
      "fs_kind fs = ''url'' \<and> s \<noteq> [] \<longrightarrow> url_ok env fs s" "fs_key fs = ''host'' \<and> s \<noteq> [] \<longrightarrow> host_ok env s"
    proof -
      have "fs_kind fs \<noteq> ''boolean''" "fs_kind fs \<noteq> ''number''" "fs_kind fs \<noteq> ''select''"
        using 1 by auto
      then show ?thesis using v that unfolding well_typed_def by (simp only: if_False) blast
    qed
    have "fs_key fs = ''host'' \<and> s \<noteq> [] \<Longrightarrow> normalize_host env s = Inr s"
      using s(5) by (intro host_ok_fixed [OF env]) simp
    then have "coerce_text env fs v = Inr v"
      using s(1-4) unfolding coerce_text_def Let_def str_or_empty s(1)
      by (auto simp: url_ok_def split: if_splits)
    then show ?thesis using 1 by (simp add: coerce_field_def)
  next
    case 2
    then show ?thesis using v by (auto simp: coerce_field_def well_typed_def read_bool_def)
  next
    case 3
    then show ?thesis using v by (auto simp: coerce_field_def well_typed_def split: option.split)
  next
    case 4
    then show ?thesis
      using v fs by (auto simp: coerce_field_def well_typed_def field_fits_def list_all_iff str_or_empty)
  qed
qed

section \<open>All fields\<close>

definition field_value :: "entry \<Rightarrow> entry \<Rightarrow> field_spec \<Rightarrow> pyval" where
  "field_value source defaults fs = (case map_of source (fs_key fs) of
     Some v \<Rightarrow> v | None \<Rightarrow> dget_or defaults (fs_key fs) (fs_default fs))"

lemma coerce_fields_value:
  "coerce_fields env source defaults (fs # rest) failed acc = (case coerce_field env fs (field_value source defaults fs) of
     Inr v \<Rightarrow> coerce_fields env source defaults rest failed (AList.update (fs_key fs) v acc)
   | Inl (OtherError c m) \<Rightarrow> coerce_fields env source defaults rest True acc
   | Inl e \<Rightarrow> Inl e)"
  by (simp add: field_value_def Let_def)

lemma coerce_fields_failed: "coerce_fields env source defaults fss True acc \<noteq> Inr n"
  by (induction fss arbitrary: acc) (auto split: sum.split exn.split)

lemma coerce_fields_Inr:
  assumes "distinct (keys_of acc @ map fs_key fss)"
  shows "coerce_fields env source defaults fss False acc = Inr n \<longleftrightarrow>
    (\<exists>vs. list_all2 (\<lambda>fs v. coerce_field env fs (field_value source defaults fs) = Inr v) fss vs \<and>
       n = acc @ zip (map fs_key fss) vs)"
  using assms
proof (induction fss arbitrary: acc)
  case (Cons fs fss)
  let ?c = "coerce_field env fs (field_value source defaults fs)"
  have upd: "AList.update (fs_key fs) v acc = acc @ [(fs_key fs, v)]" for v
    using Cons.prems by (intro update_new) auto
  show ?case
  proof (cases ?c)
    case (Inl e)
    then show ?thesis
      unfolding coerce_fields_value by (cases e) (auto simp: list_all2_Cons1 coerce_fields_failed)
  next
    case (Inr v)
    have "coerce_fields env source defaults fss False (acc @ [(fs_key fs, v)]) = Inr n \<longleftrightarrow>
      (\<exists>vs. list_all2 (\<lambda>fs v. coerce_field env fs (field_value source defaults fs) = Inr v) fss vs \<and>
         n = (acc @ [(fs_key fs, v)]) @ zip (map fs_key fss) vs)"
      by (rule Cons.IH) (use Cons.prems in auto)
    moreover have "coerce_fields env source defaults (fs # fss) False acc =
        coerce_fields env source defaults fss False (acc @ [(fs_key fs, v)])"
      by (subst coerce_fields_value) (simp add: Inr upd)
    moreover have "list_all2 (\<lambda>fs v. coerce_field env fs (field_value source defaults fs) = Inr v) (fs # fss) us \<longleftrightarrow>
      (\<exists>vs. us = v # vs \<and>
         list_all2 (\<lambda>fs v. coerce_field env fs (field_value source defaults fs) = Inr v) fss vs)" for us
      using Inr by (auto simp: list_all2_Cons1)
    ultimately show ?thesis by auto
  qed
qed auto

lemma specs_fit:
  assumes "spec \<in> set transport_specs"
  shows "list_all field_fits (ts_fields spec)" "distinct (map fs_key (ts_fields spec))"
    "get_transport_spec (ts_type spec) = Inr spec" "py_lower (py_strip (ts_type spec)) = ts_type spec"
    "ts_type spec \<noteq> []"
proof -
  have "list_all (\<lambda>spec. list_all field_fits (ts_fields spec)) transport_specs"
    "list_all (\<lambda>spec. distinct (map fs_key (ts_fields spec))) transport_specs"
    "list_all (\<lambda>spec. py_lower (py_strip (ts_type spec)) = ts_type spec \<and> ts_type spec \<noteq> []) transport_specs"
    by code_simp+
  then show "list_all field_fits (ts_fields spec)" "distinct (map fs_key (ts_fields spec))"
    "py_lower (py_strip (ts_type spec)) = ts_type spec" "ts_type spec \<noteq> []"
    using assms by (auto simp: list_all_iff)
  have "get_transport_spec (ts_type http_server_spec) = Inr http_server_spec"
    "get_transport_spec (ts_type http_client_spec) = Inr http_client_spec"
    "get_transport_spec (ts_type http_sse_server_spec) = Inr http_sse_server_spec"
    "get_transport_spec (ts_type websocket_server_spec) = Inr websocket_server_spec"
    "get_transport_spec (ts_type websocket_client_spec) = Inr websocket_client_spec"
    by code_simp+
  then show "get_transport_spec (ts_type spec) = Inr spec"
    using assms by (auto simp: transport_specs_def)
qed

lemma found_spec: "get_transport_spec t = Inr spec \<Longrightarrow> spec \<in> set transport_specs"
  by (auto simp: get_transport_spec_def Let_def find_Some_iff split: option.splits)

text \<open>What an accepted coercion returns.\<close>

lemma coerced_settings:
  assumes spec: "spec \<in> set transport_specs" and ok: "coerce_transport_settings env spec raw defaults = Inr n"
  shows "\<exists>vs. n = zip (map fs_key (ts_fields spec)) vs \<and> list_all2 (well_typed env) (ts_fields spec) vs"
proof -
  have d: "distinct (keys_of ([] :: entry) @ map fs_key (ts_fields spec))"
    using specs_fit(2) [OF spec] by simp
  obtain source where "coerce_fields env source defaults (ts_fields spec) False [] = Inr n"
    using ok by (auto simp: coerce_transport_settings_def split: option.splits if_splits)
  then obtain vs where vs: "list_all2 (\<lambda>fs v. coerce_field env fs (field_value source defaults fs) = Inr v) (ts_fields spec) vs"
    "n = zip (map fs_key (ts_fields spec)) vs"
    unfolding coerce_fields_Inr [OF d] by auto
  have "list_all2 (well_typed env) (ts_fields spec) vs"
    using specs_fit(1) [OF spec]
    by (intro list.rel_mono_strong [OF vs(1)]) (auto simp: list_all_iff intro: coerce_field_typed)
  with vs(2) show ?thesis by blast
qed

lemma fixed_settings:
  assumes env: "plain_env env" and spec: "spec \<in> set transport_specs"
    and vs: "list_all2 (well_typed env) (ts_fields spec) vs"
  shows "coerce_transport_settings env spec (PDict (zip (map fs_key (ts_fields spec)) vs)) defaults =
    Inr (zip (map fs_key (ts_fields spec)) vs)"
proof -
  let ?n = "zip (map fs_key (ts_fields spec)) vs"
  have len: "length vs = length (ts_fields spec)" using vs by (simp add: list_all2_lengthD)
  have d: "distinct (keys_of ([] :: entry) @ map fs_key (ts_fields spec))"
    using specs_fit(2) [OF spec] by simp
  have "field_value ?n defaults (ts_fields spec ! i) = vs ! i" if "i < length vs" for i
  proof -
    have "map_of ?n (map fs_key (ts_fields spec) ! i) = Some (vs ! i)"
      using specs_fit(2) [OF spec] that len by (intro map_of_zip_nth) auto
    then show ?thesis using that len by (simp add: field_value_def)
  qed
  then have "list_all2 (\<lambda>fs v. coerce_field env fs (field_value ?n defaults fs) = Inr v) (ts_fields spec) vs"
    using vs specs_fit(1) [OF spec] typed_fixed [OF env]
    by (auto simp: list_all2_conv_all_nth list_all_length)
  then have "coerce_fields env ?n defaults (ts_fields spec) False [] = Inr ?n"
    unfolding coerce_fields_Inr [OF d] by auto
  moreover have "set (keys_of ?n) \<subseteq> fs_key ` set (ts_fields spec)"
    by (auto dest: set_zip_leftD)
  ultimately show ?thesis by (simp add: coerce_transport_settings_def)
qed

lemma normalized_parts:
  assumes "normalize_transport env shell for_create legacy payload = Inr (t, n)"
  shows "\<exists>spec vs. spec \<in> set transport_specs \<and> ts_type spec = t \<and> n = zip (map fs_key (ts_fields spec)) vs \<and>
    list_all2 (well_typed env) (ts_fields spec) vs"
proof -
  obtain type_id spec settings where n: "get_transport_spec type_id = Inr spec" "t = ts_type spec"
    "coerce_transport_settings env spec settings (spec_defaults env spec shell for_create) = Inr n"
    using assms by (auto simp: normalize_transport_def Let_def sbind_Inr split: if_splits)
  from coerced_settings [OF found_spec [OF n(1)] n(3)] show ?thesis
    using found_spec [OF n(1)] n(2) by blast
qed

end
