(* ===== verification/Transport_Properties.thy ===== *)
theory Transport_Properties
  imports Transport_Proofs
begin

text \<open>
  Properties of transport settings: what is accepted is well typed and stays as it is, what is
  saved is loaded again, and the error that escapes the validation.
\<close>

section \<open>Saving and loading\<close>

text \<open>A normalised transport normalises to itself, whatever legacy fields say the same.\<close>

lemma normalized_again:
  assumes env: "plain_env env" and spec: "spec \<in> set transport_specs"
    and vs: "list_all2 (well_typed env) (ts_fields spec) vs"
    and legacy: "ts_reconciles spec \<Longrightarrow> legacy \<noteq> [] \<Longrightarrow>
      reconcile_legacy_settings env (zip (map fs_key (ts_fields spec)) vs) legacy shell True =
        Inr (zip (map fs_key (ts_fields spec)) vs)"
  shows "normalize_transport env shell for_create legacy [(''type'', PStr (ts_type spec)),
     (''settings'', PDict (zip (map fs_key (ts_fields spec)) vs))] =
       Inr (ts_type spec, zip (map fs_key (ts_fields spec)) vs)"
proof -
  let ?n = "zip (map fs_key (ts_fields spec)) vs"
  let ?p = "[(''type'', PStr (ts_type spec)), (''settings'', PDict ?n)]"
  have p: "dget ?p ''type'' = PStr (ts_type spec)" "dget ?p ''settings'' = PDict ?n"
    by (simp_all add: dget_def)
  have "py_lower (py_strip (py_str (py_or (PStr (ts_type spec)) (PStr ''websocket-client'')))) = ts_type spec"
    using specs_fit(4,5) [OF spec] by (simp add: py_or_def)
  then show ?thesis
    using specs_fit(3) [OF spec] fixed_settings [OF env spec vs] legacy
    by (simp add: normalize_transport_def Let_def p)
qed

lemma typed_lookup:
  assumes "spec \<in> set transport_specs" "list_all2 (well_typed env) (ts_fields spec) vs" "fs \<in> set (ts_fields spec)"
  shows "\<exists>v. map_of (zip (map fs_key (ts_fields spec)) vs) (fs_key fs) = Some v \<and> well_typed env fs v"
proof -
  obtain i where i: "i < length (ts_fields spec)" "fs = ts_fields spec ! i"
    using assms(3) by (auto simp: in_set_conv_nth)
  have "map_of (zip (map fs_key (ts_fields spec)) vs) (map fs_key (ts_fields spec) ! i) = Some (vs ! i)"
    using specs_fit(2) [OF assms(1)] i assms(2) by (intro map_of_zip_nth) (auto simp: list_all2_lengthD)
  moreover have "well_typed env fs (vs ! i)"
    using assms(2) i by (auto simp: list_all2_conv_all_nth)
  ultimately show ?thesis using i by auto
qed

lemma debug_everywhere:
  assumes "spec \<in> set transport_specs" "list_all2 (well_typed env) (ts_fields spec) vs"
  shows "\<exists>b. map_of (zip (map fs_key (ts_fields spec)) vs) ''debug'' = Some (PBool b)"
proof -
  have "debug_field \<in> set (ts_fields spec)"
    using assms(1) by (auto simp: transport_specs_def http_server_spec_def http_client_spec_def
        http_sse_server_spec_def websocket_server_spec_def websocket_client_spec_def)
  from typed_lookup [OF assms this] show ?thesis
    by (auto simp: well_typed_def debug_field_def field_def)
qed

lemma client_settings:
  assumes "list_all2 (well_typed env) (ts_fields websocket_client_spec) vs"
  shows "\<exists>u r tok. u \<noteq> [] \<and> py_strip u = u \<and>
     map_of (zip (map fs_key (ts_fields websocket_client_spec)) vs) ''url'' = Some (PStr u) \<and>
     map_of (zip (map fs_key (ts_fields websocket_client_spec)) vs) ''report_self_message'' = Some (PBool r) \<and>
     map_of (zip (map fs_key (ts_fields websocket_client_spec)) vs) ''access_token'' = Some (PStr tok)"
proof -
  have "websocket_client_spec \<in> set transport_specs" by (simp add: transport_specs_def)
  note look = typed_lookup [OF this assms]
  let ?url = "ts_fields websocket_client_spec ! 0" and ?tok = "ts_fields websocket_client_spec ! 5"
  have "?url \<in> set (ts_fields websocket_client_spec)" "?tok \<in> set (ts_fields websocket_client_spec)"
    "report_field \<in> set (ts_fields websocket_client_spec)"
    by (simp_all add: websocket_client_spec_def)
  note look = look [OF this(1)] look [OF this(2)] look [OF this(3)]
  have "fs_key ?url = ''url'' \<and> fs_kind ?url = ''url'' \<and> fs_required ?url"
    "fs_key ?tok = ''access_token'' \<and> fs_kind ?tok = ''password''"
    "fs_key report_field = ''report_self_message'' \<and> fs_kind report_field = ''boolean''"
    by code_simp+
  with look show ?thesis by (auto simp: well_typed_def)
qed

text \<open>The legacy fields that are saved say what the transport says.\<close>

lemma reconcile_same:
  assumes vs: "list_all2 (well_typed env) (ts_fields websocket_client_spec) vs"
    and n: "n = zip (map fs_key (ts_fields websocket_client_spec)) vs"
    and b: "b = apply_onebot_transport [(''type'', PStr ''websocket-client''), (''settings'', PDict n)] b0"
    and item: "\<forall>(k, v) \<in> set (legacy_transport_fields b). map_of item k = Some v"
  shows "reconcile_legacy_settings env n item shell True = Inr n"
proof -
  obtain u r tok where u: "u \<noteq> []" "py_strip u = u" "map_of n ''url'' = Some (PStr u)"
    "map_of n ''report_self_message'' = Some (PBool r)" "map_of n ''access_token'' = Some (PStr tok)"
    using client_settings [OF vs] unfolding n by blast
  obtain g where g: "map_of n ''debug'' = Some (PBool g)"
    using debug_everywhere [OF _ vs] unfolding n by (auto simp: transport_specs_def)
  have t: "py_lower (py_strip ''websocket-client'') = ''websocket-client''" by code_simp
  have b': "bt_type b = ''websocket-client''" "bt_ws_url b = u" "bt_access_token b = tok" "bt_skip_own b = (\<not> r)"
    "bt_debug b = g"
    using u g t by (simp_all add: b apply_onebot_transport_def Let_def dget_def dget_or_def has_key_def py_or_def
        raw_str_field_def coerce_bool_def)
  have i: "map_of item ''onebot_ws_url'' = Some (PStr u)" "map_of item ''onebot_access_token'' = Some (PStr tok)"
    "map_of item ''skip_own_messages'' = Some (PBool (\<not> r))" "map_of item ''debug'' = Some (PBool g)"
    using item by (simp_all add: legacy_transport_fields_def b' Let_def)
  have v: "str_field item ''onebot_ws_url'' = u" "raw_str_field item ''onebot_access_token'' = tok"
    using u(1,2) i by (simp_all add: str_field_def raw_str_field_def dget_def py_or_def)
  show ?thesis
    using u g i v by (simp add: reconcile_legacy_settings_def Let_def set_if_def has_key_def update_triv dget_def
        legacy_bool_def read_bool_def)
qed

lemma item_field: "\<forall>(k, v) \<in> set xs. map_of item k = Some v \<Longrightarrow> (k, v) \<in> set xs \<Longrightarrow> map_of item k = Some v"
  by auto

section \<open>An example\<close>

definition example_env :: net_env where
  "example_env = \<lparr>ne_ip = (\<lambda>s. s = ''::1''), ne_idna = Some, ne_bracket = (\<lambda>_. True),
     ne_millis = (\<lambda>_. Inl TypeError), ne_token = ''0123456789abcdef''\<rparr>"

definition example_shell :: entry where
  "example_shell = [(''default_onebot_ws_url'', PStr ''ws://127.0.0.1:6199/ws/''),
     (''default_onebot_access_token'', PStr []), (''default_skip_own_messages'', PBool True),
     (''default_debug'', PBool False)]"

definition example_payload :: entry where
  "example_payload = [(''type'', PStr '' Websocket-Client''), (''settings'', PDict [(''url'', PStr '' wss://bot.example/ws ''),
     (''debug'', PStr ''yes'')])]"

definition example_normalized :: "string \<times> entry" where
  "example_normalized = (''websocket-client'', [(''url'', PStr ''wss://bot.example/ws''), (''message_post_format'', PStr ''array''),
     (''report_self_message'', PBool False), (''reconnect_interval_ms'', PInt 5000),
     (''heartbeat_interval_ms'', PInt 30000), (''access_token'', PStr []), (''debug'', PBool True)])"

lemma example_env_plain: "plain_env example_env"
  by (simp add: plain_env_def example_env_def)

lemma example_accepted: "normalize_transport example_env example_shell True [] example_payload = Inr example_normalized"
  by code_simp

section \<open>The properties\<close>

text \<open>C33. Accepted transport settings are well typed: they are those of one of the five transports,
  have exactly the fields of its specification, and every field has a value of its kind (a
  trimmed text, a usable URL or host, a boolean, a number in range, one of the options).
  Normalising them again, with any defaults, changes nothing.
\<close>

theorem accepted_settings_are_typed:
  assumes "plain_env env" "normalize_transport env shell for_create legacy payload = Inr (t, n)"
  shows "\<exists>spec vs. spec \<in> set transport_specs \<and> ts_type spec = t \<and>
     n = zip (map fs_key (ts_fields spec)) vs \<and> list_all2 (well_typed env) (ts_fields spec) vs \<and>
     normalize_transport env shell' for_create' [] [(''type'', PStr t), (''settings'', PDict n)] = Inr (t, n)"
proof -
  obtain spec vs where p: "spec \<in> set transport_specs" "ts_type spec = t" "n = zip (map fs_key (ts_fields spec)) vs"
    "list_all2 (well_typed env) (ts_fields spec) vs"
    using normalized_parts [OF assms(2)] by blast
  have "normalize_transport env shell' for_create' [] [(''type'', PStr t), (''settings'', PDict n)] = Inr (t, n)"
    using normalized_again [OF assms(1) p(1,4), of "[]" shell' for_create'] by (simp add: p(2,3))
  with p show ?thesis by blast
qed

theorem accepted_settings_are_typed_witness:
  "normalize_transport example_env [] False []
     [(''type'', PStr (fst example_normalized)), (''settings'', PDict (snd example_normalized))] = Inr example_normalized"
  using accepted_settings_are_typed [OF example_env_plain, of example_shell True "[]" example_payload
      "fst example_normalized" "snd example_normalized" "[]" False] example_accepted
  by auto

text \<open>C34. An accepted transport survives saving and loading: when it has been applied to a bot and
  the bot was saved (the legacy fields in \<open>bots.json\<close>, the transport beside it), loading the bot
  gives the same transport type, settings, token and flags; only the URL of a bot that is not
  a Websocket client is replaced by the address that disables older versions.
\<close>

theorem stored_transport_is_loaded:
  assumes "plain_env env" "normalize_transport env shell for_create legacy payload = Inr (t, n)"
    "b = apply_onebot_transport [(''type'', PStr t), (''settings'', PDict n)] b0"
    "\<forall>(k, v) \<in> set (legacy_transport_fields b). map_of item k = Some v"
  shows "load_transport env shell' (Some (onebot_transport_mapping b)) item =
     Inr (True, if t = ''websocket-client'' then b else b\<lparr>bt_ws_url := disabled_ws_url\<rparr>)"
proof -
  obtain spec vs where p: "spec \<in> set transport_specs" "ts_type spec = t" "n = zip (map fs_key (ts_fields spec)) vs"
    "list_all2 (well_typed env) (ts_fields spec) vs"
    using normalized_parts [OF assms(2)] by blast
  have t: "py_lower (py_strip t) = t" "t \<noteq> []" using specs_fit(4,5) [OF p(1)] p(2) by auto
  obtain g where g: "map_of n ''debug'' = Some (PBool g)" using debug_everywhere [OF p(1,4)] p(3) by blast
  let ?m = "[(''type'', PStr t), (''settings'', PDict n)]"
  have bt: "bt_type b = t" "bt_settings b = n" "bt_access_token b = raw_str_field n ''access_token''" "bt_debug b = g"
    using t g by (simp_all add: assms(3) apply_onebot_transport_def Let_def dget_def dget_or_def py_or_def coerce_bool_def)
  have mapping: "onebot_transport_mapping b = ?m"
    using t(2) by (simp add: onebot_transport_mapping_def bt)
  have client: "t = ''websocket-client'' \<Longrightarrow> spec = websocket_client_spec"
    using specs_fit(3) [OF p(1)] specs_fit(3) [of websocket_client_spec] p(2)
    by (simp add: transport_specs_def websocket_client_spec_def)
  have only: "ts_reconciles spec \<Longrightarrow> t = ''websocket-client''"
    using p(1,2) by (auto simp: transport_specs_def http_server_spec_def http_client_spec_def
        http_sse_server_spec_def websocket_server_spec_def websocket_client_spec_def)
  have "normalize_transport env shell' False item ?m = Inr (t, n)"
    unfolding p(3) p(2) [symmetric]
  proof (rule normalized_again [OF assms(1) p(1,4)])
    assume "ts_reconciles spec"
    then have w: "t = ''websocket-client''" by (rule only)
    note c = client [OF w]
    show "reconcile_legacy_settings env (zip (map fs_key (ts_fields spec)) vs) item shell' True =
        Inr (zip (map fs_key (ts_fields spec)) vs)"
      using reconcile_same [OF p(4) [unfolded c] refl _ assms(4)] assms(3) p(3) w unfolding c by blast
  qed
  moreover have "normalize_transport env shell' False [] ?m = Inr (t, n)"
    using normalized_again [OF assms(1) p(1,4), of "[]" shell' False] by (simp add: p(2,3))
  then have "baseline_escapes env shell' (Some ?m) = None"
    by (simp add: baseline_escapes_def)
  moreover have "apply_onebot_transport ?m (transport_from_mapping shell' item) =
      (if t = ''websocket-client'' then b else b\<lparr>bt_ws_url := disabled_ws_url\<rparr>)"
  proof (rule bot_transport.equality)
    let ?I = "transport_from_mapping shell' item"
    have ws: "map_of item ''onebot_ws_url'' = Some (PStr (if t = ''websocket-client'' then bt_ws_url b else disabled_ws_url))"
      and own: "map_of item ''skip_own_messages'' = Some (PBool (bt_skip_own b))"
      by (rule item_field [OF assms(4)], simp add: legacy_transport_fields_def Let_def bt)+
    have skip: "bt_skip_own ?I = bt_skip_own b"
      using own by (simp add: transport_from_mapping_def Let_def dget_or_def coerce_bool_def)
    have url: "t \<noteq> ''websocket-client'' \<Longrightarrow> bt_ws_url ?I = disabled_ws_url"
    proof -
      have "disabled_ws_url \<noteq> [] \<and> py_strip disabled_ws_url = disabled_ws_url" by code_simp
      then show "t \<noteq> ''websocket-client'' \<Longrightarrow> bt_ws_url ?I = disabled_ws_url"
        using ws by (simp add: transport_from_mapping_def Let_def dget_or_def py_or_def)
    qed
    show "bt_skip_own (apply_onebot_transport ?m ?I) =
        bt_skip_own (if t = ''websocket-client'' then b else b\<lparr>bt_ws_url := disabled_ws_url\<rparr>)"
      using skip t by (auto simp: assms(3) apply_onebot_transport_def Let_def dget_def has_key_def py_or_def)
    show "bt_ws_url (apply_onebot_transport ?m ?I) =
        bt_ws_url (if t = ''websocket-client'' then b else b\<lparr>bt_ws_url := disabled_ws_url\<rparr>)"
    proof (cases "t = ''websocket-client''")
      case True
      obtain u where "u \<noteq> []" "map_of n ''url'' = Some (PStr u)"
        using client_settings [OF p(4) [unfolded client [OF True]]] unfolding p(3) client [OF True] by blast
      then show ?thesis
        using True t by (simp add: assms(3) apply_onebot_transport_def Let_def dget_def py_or_def)
    next
      case False
      then show ?thesis using url t by (simp add: apply_onebot_transport_def Let_def dget_def py_or_def)
    qed
  qed (use t g bt in \<open>simp_all add: apply_onebot_transport_def Let_def dget_def dget_or_def py_or_def coerce_bool_def\<close>)
  ultimately show ?thesis
    by (simp add: load_transport_def mapping Let_def)
qed

definition example_bot :: bot_transport where
  "example_bot = apply_onebot_transport [(''type'', PStr (fst example_normalized)), (''settings'', PDict (snd example_normalized))]
     (transport_from_mapping example_shell [])"

theorem stored_transport_is_loaded_witness:
  "load_transport example_env [] (Some (onebot_transport_mapping example_bot)) (legacy_transport_fields example_bot) =
     Inr (True, example_bot)"
proof -
  have d: "distinct (keys_of (legacy_transport_fields example_bot))"
    by (simp add: legacy_transport_fields_def Let_def)
  have "\<forall>(k, v) \<in> set (legacy_transport_fields example_bot). map_of (legacy_transport_fields example_bot) k = Some v"
    using map_of_is_SomeI [OF d] by auto
  from stored_transport_is_loaded [OF example_env_plain, of example_shell True "[]" example_payload
      "fst example_normalized" "snd example_normalized" example_bot _ _ "[]", OF _ example_bot_def this]
  show ?thesis using example_accepted by (simp add: example_normalized_def)
qed

text \<open>The one exception that is not a validation error: \<open>urlparse\<close> on a network location with an
  unmatched bracket, or a bracketed host it does not accept.\<close>

definition unmatched :: "net_env \<Rightarrow> pyval \<Rightarrow> bool" where
  "unmatched env v = (case url_parse env (py_strip (py_str (py_or v (PStr [])))) of Inl _ \<Rightarrow> True | Inr _ \<Rightarrow> False)"

lemma url_parse_Inl: "url_parse env s = Inl x \<Longrightarrow> x = ValueError ''url'' \<and> s \<noteq> []"
  by (auto simp: url_parse_def Let_def url_scheme_def clean_url_def split: prod.splits if_splits)

lemma coerce_field_url:
  assumes "fs_kind fs = ''url''" "unmatched env v"
  shows "coerce_field env fs v = Inl (ValueError ''url'')"
proof -
  obtain x where "url_parse env (py_strip (py_str (py_or v (PStr [])))) = Inl x"
    using assms(2) by (auto simp: unmatched_def split: sum.splits)
  with url_parse_Inl [OF this] assms(1) show ?thesis
    by (simp add: coerce_field_def coerce_text_def Let_def)
qed

lemma normalize_host_Inl: "normalize_host env s = Inl x \<Longrightarrow> \<exists>m. x = validation_error m"
  by (auto simp: normalize_host_def Let_def split: if_splits option.splits)

lemma coerce_text_validates:
  assumes "coerce_text env fs v = Inl x" "fs_kind fs = ''url'' \<longrightarrow> \<not> unmatched env v"
  shows "\<exists>c m. x = OtherError c m"
proof -
  let ?s = "py_strip (py_str (py_or v (PStr [])))"
  have host: "sbind (normalize_host env ?s) (\<lambda>h. Inr (PStr h)) = Inl x \<Longrightarrow> \<exists>c m. x = OtherError c m"
    by (cases "normalize_host env ?s") (auto simp: validation_error_def dest: normalize_host_Inl)
  show ?thesis
  proof (cases "fs_kind fs = ''url'' \<and> ?s \<noteq> []")
    case True
    then obtain scheme netloc where "url_parse env ?s = Inr (scheme, netloc)"
      using assms(2) by (auto simp: unmatched_def split: sum.splits)
    with True assms(1) host show ?thesis
      by (auto simp: coerce_text_def Let_def validation_error_def split: if_splits)
  next
    case False
    then show ?thesis using assms(1) host by (auto simp: coerce_text_def Let_def validation_error_def split: if_splits)
  qed
qed

lemma coerce_field_validates:
  assumes "coerce_field env fs v = Inl x" "fs_kind fs = ''url'' \<longrightarrow> \<not> unmatched env v"
  shows "\<exists>c m. x = OtherError c m"
proof (cases "fs_kind fs \<in> {''text'', ''url'', ''password''}")
  case True
  then show ?thesis using assms coerce_text_validates [of env fs v x] by (simp add: coerce_field_def)
next
  case False
  then show ?thesis
    using assms(1) by (auto simp: coerce_field_def Let_def validation_error_def split: if_splits option.splits sum.splits)
qed

lemma coerce_fields_validates:
  assumes "\<forall>fs \<in> set fss. fs_kind fs = ''url'' \<longrightarrow> \<not> unmatched env
      (case map_of source (fs_key fs) of Some v \<Rightarrow> v | None \<Rightarrow> dget_or defaults (fs_key fs) (fs_default fs))"
    and "coerce_fields env source defaults fss failed n = Inl x"
  shows "\<exists>c m. x = OtherError c m"
  using assms
proof (induction env source defaults fss failed n rule: coerce_fields.induct)
  case (1 env source defaults failed n)
  then show ?case by (auto simp: validation_error_def split: if_splits)
next
  case (2 env source defaults fs rest failed n)
  let ?v = "case map_of source (fs_key fs) of Some v \<Rightarrow> v | None \<Rightarrow> dget_or defaults (fs_key fs) (fs_default fs)"
  show ?case
  proof (cases "coerce_field env fs ?v")
    case (Inr y)
    then show ?thesis using "2.IH" "2.prems" by simp
  next
    case (Inl y)
    then obtain c m where "y = OtherError c m"
      using coerce_field_validates [OF Inl] "2.prems"(1) by auto
    with Inl have rest: "coerce_fields env source defaults rest True n = Inl x"
      using "2.prems"(2) by simp
    show ?thesis
      by (rule "2.IH"(1) [OF refl Inl \<open>y = OtherError c m\<close> _ rest]) (use "2.prems"(1) in simp)
  qed
qed

text \<open>A transport with a URL: the client transports, whose URL is the first field and the only one.\<close>

lemma client_specs:
  assumes "spec \<in> {http_client_spec, websocket_client_spec}"
  shows "\<exists>uf rest. ts_fields spec = uf # rest \<and> fs_key uf = ''url'' \<and> fs_kind uf = ''url''
      \<and> (\<forall>fs \<in> set rest. fs_kind fs \<noteq> ''url'')"
    and "get_transport_spec (ts_type spec) = Inr spec" and "py_lower (py_strip (ts_type spec)) = ts_type spec"
    and "ts_type spec \<noteq> []" and "ts_reconciles spec \<longleftrightarrow> spec = websocket_client_spec"
proof -
  have s: "spec \<in> set transport_specs" using assms by (auto simp: transport_specs_def)
  show "get_transport_spec (ts_type spec) = Inr spec" "py_lower (py_strip (ts_type spec)) = ts_type spec" "ts_type spec \<noteq> []"
    using specs_fit(3,4,5) [OF s] by simp_all
  show "ts_reconciles spec \<longleftrightarrow> spec = websocket_client_spec"
    using assms by (auto simp: http_client_spec_def websocket_client_spec_def)
  show "\<exists>uf rest. ts_fields spec = uf # rest \<and> fs_key uf = ''url'' \<and> fs_kind uf = ''url''
      \<and> (\<forall>fs \<in> set rest. fs_kind fs \<noteq> ''url'')"
    using assms
    by (auto simp: http_client_spec_def websocket_client_spec_def field_def format_field_def report_field_def
        random_token_field_def heartbeat_field_def debug_field_def)
qed

lemma coerce_client_settings:
  assumes spec: "spec \<in> {http_client_spec, websocket_client_spec}"
    and keys: "set (keys_of s) \<subseteq> fs_key ` set (ts_fields spec)" and url: "map_of s ''url'' = Some v"
  shows "unmatched env v \<Longrightarrow> coerce_transport_settings env spec (PDict s) defaults = Inl (ValueError ''url'')"
    and "\<not> unmatched env v \<Longrightarrow> coerce_transport_settings env spec (PDict s) defaults = Inl x \<Longrightarrow> \<exists>c m. x = OtherError c m"
proof -
  obtain uf rest where f: "ts_fields spec = uf # rest" "fs_key uf = ''url''" "fs_kind uf = ''url''"
    "\<forall>fs \<in> set rest. fs_kind fs \<noteq> ''url''"
    using client_specs(1) [OF spec] by blast
  show "coerce_transport_settings env spec (PDict s) defaults = Inl (ValueError ''url'')" if "unmatched env v"
    using that keys url f coerce_field_url [OF f(3) that] by (simp add: coerce_transport_settings_def)
  show "\<exists>c m. x = OtherError c m" if "\<not> unmatched env v" "coerce_transport_settings env spec (PDict s) defaults = Inl x"
  proof (rule coerce_fields_validates)
    show "coerce_fields env s defaults (ts_fields spec) False [] = Inl x"
      using that(2) keys by (simp add: coerce_transport_settings_def)
  qed (use that(1) url f in auto)
qed

text \<open>What the legacy fields of an item leave of the stored settings: the URL they name.\<close>

lemma reconciled_client:
  assumes keys: "set (keys_of s) \<subseteq> fs_key ` set (ts_fields websocket_client_spec)" and url: "map_of s ''url'' = Some v"
  shows "\<exists>s'. reconcile_legacy_settings env s item shell True = Inr s'
    \<and> set (keys_of s') \<subseteq> fs_key ` set (ts_fields websocket_client_spec)
    \<and> map_of s' ''url'' = Some (if has_key item ''onebot_ws_url'' then PStr (str_field item ''onebot_ws_url'') else v)"
proof -
  have k: "{''url'', ''access_token'', ''report_self_message'', ''debug''} \<subseteq> fs_key ` set (ts_fields websocket_client_spec)"
    by (simp add: websocket_client_spec_def field_def report_field_def debug_field_def)
  show ?thesis
    using keys url k
    by (auto simp: reconcile_legacy_settings_def Let_def set_if_def update_conv dom_update)
qed

text \<open>A list of bots is loaded when every one of them is.\<close>

lemma load_bots_raises:
  assumes "PDict item \<in> set items" "\<forall>i. \<exists>x. load_bot env shell gen stored i item = Inl x"
  shows "\<exists>x. load_bots env shell gen stored i items valid = Inl x"
  using assms(1)
proof (induction items arbitrary: i valid)
  case (Cons it items)
  show ?case
  proof (cases it)
    case (PDict data)
    show ?thesis
    proof (cases "load_bot env shell gen stored i data")
      case (Inl x)
      then show ?thesis using PDict by simp
    next
      case (Inr r)
      then have "data \<noteq> item" using assms(2) by (metis Inl_Inr_False)
      then have "PDict item \<in> set items" using Cons.prems PDict by simp
      then obtain x where "load_bots env shell gen stored (Suc i) items (valid \<and> fst r) = Inl x"
        using Cons.IH by blast
      then show ?thesis using Inr PDict by (cases r) simp
    qed
  qed (use Cons in auto)
qed simp

lemma normalize_client:
  assumes spec: "spec \<in> {http_client_spec, websocket_client_spec}"
    and tp: "dget tp ''type'' = PStr (ts_type spec)" "dget tp ''settings'' = PDict s"
    and keys: "set (keys_of s) \<subseteq> fs_key ` set (ts_fields spec)" and url: "map_of s ''url'' = Some v"
    and used: "used = (if spec = websocket_client_spec \<and> has_key item ''onebot_ws_url''
      then PStr (str_field item ''onebot_ws_url'') else v)"
  shows "unmatched env used \<Longrightarrow> normalize_transport env shell False item tp = Inl (ValueError ''url'')"
    and "\<not> unmatched env used \<Longrightarrow> normalize_transport env shell False item tp = Inl x \<Longrightarrow> \<exists>c m. x = OtherError c m"
proof -
  have tp0: "tp \<noteq> []" using tp(1) by (auto simp: dget_def)
  have ty: "py_lower (py_strip (py_str (py_or (PStr (ts_type spec)) (PStr ''websocket-client'')))) = ts_type spec"
    using client_specs(3,4) [OF spec] by (simp add: py_or_def)
  let ?d = "spec_defaults env spec shell False"
  have "\<exists>s'. normalize_transport env shell False item tp =
        sbind (coerce_transport_settings env spec (PDict s') ?d) (\<lambda>n. Inr (ts_type spec, n))
      \<and> set (keys_of s') \<subseteq> fs_key ` set (ts_fields spec) \<and> map_of s' ''url'' = Some used"
  proof (cases "spec = websocket_client_spec \<and> item \<noteq> []")
    case True
    then have k: "set (keys_of s) \<subseteq> fs_key ` set (ts_fields websocket_client_spec)" using keys by simp
    from reconciled_client [OF k url, of env item shell] True show ?thesis
      using tp tp0 ty client_specs(2,5) [OF spec] used
      by (elim exE) (auto simp: normalize_transport_def Let_def)
  next
    case False
    moreover from this have "used = v" using used by (auto simp: has_key_def)
    ultimately show ?thesis
      using tp tp0 ty client_specs(2,5) [OF spec] keys url
      by (intro exI [of _ s]) (auto simp: normalize_transport_def Let_def)
  qed
  then obtain s' where s': "normalize_transport env shell False item tp =
        sbind (coerce_transport_settings env spec (PDict s') ?d) (\<lambda>n. Inr (ts_type spec, n))"
      "set (keys_of s') \<subseteq> fs_key ` set (ts_fields spec)" "map_of s' ''url'' = Some used"
    by blast
  note c = coerce_client_settings [OF spec s'(2,3), of env]
  show "normalize_transport env shell False item tp = Inl (ValueError ''url'')" if "unmatched env used"
    using s'(1) c(1) [OF that] by simp
  show "\<exists>c m. x = OtherError c m" if "\<not> unmatched env used" "normalize_transport env shell False item tp = Inl x"
    using s'(1) that(2) c(2) [OF that(1), of ?d]
    by (cases "coerce_transport_settings env spec (PDict s') ?d") auto
qed

text \<open>C35. The error that escapes: a stored client transport (HTTP or Websocket, with known setting
  names) whose URL has an unmatched bracket makes \<open>urlparse\<close> raise a \<open>ValueError\<close>. Neither the
  loop over the fields nor the registry catches it (both only catch
  \<open>TransportValidationError\<close>). The URL is the one in \<open>bots.json\<close> when a Websocket client has one
  there and the stored one otherwise. Whatever the other bots are, loading then raises instead
  of keeping the configuration for repair; with matched brackets every other invalid value
  of the same transport is kept and the bot is loaded.
\<close>

theorem unmatched_bracket_stops_loading:
  assumes spec: "spec \<in> {http_client_spec, websocket_client_spec}"
    and tp: "dget tp ''type'' = PStr (ts_type spec)" "dget tp ''settings'' = PDict s"
    and keys: "set (keys_of s) \<subseteq> fs_key ` set (ts_fields spec)" and url: "map_of s ''url'' = Some v"
    and used: "used = (if spec = websocket_client_spec \<and> has_key item ''onebot_ws_url''
      then PStr (str_field item ''onebot_ws_url'') else v)"
    and stored: "mapped_text item ''id'' ''bot_id'' = bid" "bid \<noteq> []" "dget stored bid = PDict tp"
    and item: "PDict item \<in> set items"
  shows "if unmatched env used
     then load_transport env shell (Some tp) item = Inl (ValueError ''url'')
       \<and> (\<exists>x. load_registry env shell gen (PDict [(''bots'', PList items)])
            (PDict [(''format_version'', PInt 1), (''transports'', PDict stored)]) = Inl x)
     else \<not> unmatched env v \<longrightarrow>
       (\<exists>ok b. load_bot env shell gen stored i item = Inr (ok, b) \<and> lb_id b = bid
          \<and> (\<not> ok \<longrightarrow> lb_transport b = apply_onebot_transport tp (transport_from_mapping shell item)))"
proof -
  note n = normalize_client [OF spec tp keys url used, of env shell]
  have bot: "load_bot env shell gen stored i item = sbind (load_transport env shell (Some tp) item) (\<lambda>(ok, t).
      Inr (ok, \<lparr>lb_id = bid, lb_name = (let m = mapped_text item ''name'' ''display_name'' in if m = [] then bid else m),
        lb_transport = t\<rparr>))" for i
    using stored by (simp add: load_bot_def loaded_id_def Let_def)
  show ?thesis
  proof (cases "unmatched env used")
    case True
    have l: "load_transport env shell (Some tp) item = Inl (ValueError ''url'')"
      using n(1) [OF True] by (simp add: load_transport_def Let_def)
    then have "\<forall>i. \<exists>x. load_bot env shell gen stored i item = Inl x" using bot by simp
    from load_bots_raises [OF item this]
    have "\<exists>x. load_registry env shell gen (PDict [(''bots'', PList items)])
            (PDict [(''format_version'', PInt 1), (''transports'', PDict stored)]) = Inl x"
      by (simp add: load_registry_def Let_def dget_def dget_or_def)
    with l True show ?thesis by simp
  next
    case False
    have "\<exists>ok b. load_bot env shell gen stored i item = Inr (ok, b) \<and> lb_id b = bid
        \<and> (\<not> ok \<longrightarrow> lb_transport b = apply_onebot_transport tp (transport_from_mapping shell item))"
      if v: "\<not> unmatched env v"
    proof -
      have base: "baseline_escapes env shell (Some tp) = None"
        using normalize_client(2) [OF spec tp keys url refl, of env "[]" shell] v
        by (auto simp: baseline_escapes_def has_key_def split: sum.split exn.split)
      show ?thesis
        using n(2) [OF False] base
        by (cases "normalize_transport env shell False item tp") (auto simp: bot load_transport_def Let_def)
    qed
    with False show ?thesis by simp
  qed
qed

text \<open>The bot of the example as it is saved, with its URL edited in \<open>bots.json\<close>.\<close>

definition edited_item :: entry where
  "edited_item = (''id'', PStr ''b1'') # AList.update ''onebot_ws_url'' (PStr ''ws://[::1/'') (legacy_transport_fields example_bot)"

theorem unmatched_bracket_stops_loading_witness:
  "load_transport example_env [] (Some (onebot_transport_mapping example_bot)) edited_item = Inl (ValueError ''url'')
   \<and> (\<exists>x. load_registry example_env [] (\<lambda>_. ''new'') (PDict [(''bots'', PList [PDict [], PDict edited_item])])
        (PDict [(''format_version'', PInt 1),
          (''transports'', PDict [(''b1'', PDict (onebot_transport_mapping example_bot))])]) = Inl x)"
proof -
  have e: "dget (onebot_transport_mapping example_bot) ''type'' = PStr (ts_type websocket_client_spec)"
    "dget (onebot_transport_mapping example_bot) ''settings'' = PDict (snd example_normalized)"
    "set (keys_of (snd example_normalized)) \<subseteq> fs_key ` set (ts_fields websocket_client_spec)"
    "map_of (snd example_normalized) ''url'' = Some (PStr ''wss://bot.example/ws'')"
    "mapped_text edited_item ''id'' ''bot_id'' = ''b1''"
    by code_simp+
  have h: "has_key edited_item ''onebot_ws_url'' \<and> str_field edited_item ''onebot_ws_url'' = ''ws://[::1/''" by code_simp
  have u: "unmatched example_env (PStr ''ws://[::1/'')" by code_simp
  have s: "dget [(''b1'', PDict (onebot_transport_mapping example_bot))] ''b1'' = PDict (onebot_transport_mapping example_bot)"
    by (simp add: dget_def)
  from unmatched_bracket_stops_loading [OF _ e(1,2,3,4) refl e(5) _ s, of "[PDict [], PDict edited_item]" example_env "[]" "\<lambda>_. ''new''"] h u
  show ?thesis by simp
qed

end
