(* ===== verification/Runtime_Stores.thy ===== *)
theory Runtime_Stores
  imports Journal Identity_Cache
begin

text \<open>
  The stores the running bridge hands to its translators: the \<open>Memory*\<close> facades of
  \<open>bridge/hot_storage.py\<close> over one state engine, and \<open>UserIdentityIdMap\<close> of
  \<open>bridge/user_identity.py\<close>, which sends the namespace \<open>user\<close> to the registry and every
  other namespace to the engine.

  \<open>bridge\<close> is the state behind them. Its last field records every request for the direct room of
  a user, in order, and whether the server answered it; \<open>client\<close> is the Rocket.Chat client as the translators see it:
  what it knows about itself and what the server answers (or raises) during one request,
  together with the clock reading of that request. The fallback dictionaries for users in
  \<open>MemoryDurableIdMap\<close> are not reachable through \<open>UserIdentityIdMap\<close> and are left out.
\<close>

section \<open>State and environment\<close>

record bridge =
  br_engine :: engine
  br_users :: registry
  br_asked :: "(string \<times> bool) list"

record client =
  cl_user_id :: string
  cl_bot_username :: string
  cl_username :: string
  cl_self_id :: int
  cl_user_info :: "string \<Rightarrow> exn + entry"
  cl_room_info :: "string \<Rightarrow> exn + entry"
  cl_direct_room :: "string \<Rightarrow> exn + string"
  cl_now :: rat

definition on_stores :: "(engine, 'a) action \<Rightarrow> (bridge, 'a) action" where
  "on_stores m b = (case m (br_engine b) of (r, s) \<Rightarrow> (r, b\<lparr>br_engine := s\<rparr>))"

definition on_users :: "(registry, 'a) action \<Rightarrow> (bridge, 'a) action" where
  "on_users m b = (case m (br_users b) of (r, g) \<Rightarrow> (r, b\<lparr>br_users := g\<rparr>))"

section \<open>Ids\<close>

definition to_id_mapping :: "user_row \<Rightarrow> id_mapping" where
  "to_id_mapping r = \<lparr>im_namespace = ''user'', im_source_id = ur_user_id r, im_surrogate_id = ur_onebot r\<rparr>"

definition no_profile :: profile where
  "no_profile = \<lparr>pf_username = [], pf_nickname = [], pf_is_bot = False, pf_synthetic = False\<rparr>"

definition ensure_user :: "rat \<Rightarrow> string \<Rightarrow> profile \<Rightarrow> (bridge, id_mapping) action" where
  "ensure_user now user_id p =
     bnd (on_users (ensure_mapping_sync now user_id p None None)) (\<lambda>r. ret (to_id_mapping r))"

definition ensure_users :: "rat \<Rightarrow> entry list \<Rightarrow> (bridge, (string \<times> id_mapping) list) action" where
  "ensure_users now items =
     bnd (on_users (ensure_mappings_sync now items None)) (\<lambda>rs.
       ret (fold (\<lambda>r. AList.update (ur_user_id r) (to_id_mapping r)) rs []))"

definition map_get_or_create :: "rat \<Rightarrow> string \<Rightarrow> string \<Rightarrow> (bridge, id_mapping) action" where
  "map_get_or_create now namespace k =
     (if namespace = ''user'' then ensure_user now k no_profile
      else bnd (on_stores (allocate_mapping namespace k)) (\<lambda>(m, _). ret m))"

definition map_get_source :: "string \<Rightarrow> pyval \<Rightarrow> (bridge, string option) action" where
  "map_get_source namespace v =
     (if namespace = ''user'' then bnd (on_users (get_by_onebot_id v)) (\<lambda>r. ret (map_option ur_user_id r))
      else bnd (gets (\<lambda>b. eng_get_source namespace (py_str v) (br_engine b))) lift_exn)"

definition map_get_surrogate :: "string \<Rightarrow> string \<Rightarrow> (bridge, int option) action" where
  "map_get_surrogate namespace k =
     (if namespace = ''user'' then bnd (on_users (get_by_user_id k)) (\<lambda>r. ret (map_option ur_onebot r))
      else bnd (gets (\<lambda>b. eng_get_surrogate namespace k (br_engine b))) lift_exn)"

definition map_set_window :: "pyval \<Rightarrow> bridge \<Rightarrow> bridge" where
  \<comment> \<open>the facade normalises the size, and the engine does so again\<close>
  "map_set_window w b = b\<lparr>br_engine := eng_set_window (PInt (normalize_window w)) (br_engine b)\<rparr>"

definition map_rebuild_window :: "bool \<Rightarrow> (bridge, entry) action" where
  "map_rebuild_window force_compact =
     bnd (on_stores (eng_rebuild_window force_compact)) (\<lambda>sn. ret
       [(''changed'', PBool (ws_changed sn)), (''removed_count'', PInt (ws_removed sn)),
        (''compacted'', PBool False), (''active_count'', PInt (ws_active_count sn)),
        (''max_entries'', PInt (ws_max_entries sn)),
        (''highest_surrogate_id'',
           if ws_active sn = [] then PNone else PInt (Max (set (map snd (ws_active sn))))),
        (''reset_surrogate_id'', PNone)])"

section \<open>Messages, private rooms, context rooms\<close>

definition message_put :: "entry \<Rightarrow> (bridge, unit) action" where
  "message_put e = on_stores (put_message e)"

definition message_by_source :: "string \<Rightarrow> (bridge, entry option) action" where
  "message_by_source k = gets (\<lambda>b. eng_message_by_source (br_engine b) k)"

definition message_by_surrogate :: "pyval \<Rightarrow> (bridge, entry option) action" where
  "message_by_surrogate v = gets (\<lambda>b. eng_message_by_surrogate (br_engine b) (py_str v))"

definition latest_room :: "rat \<Rightarrow> string \<Rightarrow> string \<Rightarrow> rat \<Rightarrow> (bridge, string option) action" where
  "latest_room now ctx sender max_age =
     bnd (gets (\<lambda>b. eng_latest_room now (Some max_age) (br_engine b) ctx sender)) lift_exn"

definition latest_thread :: "rat \<Rightarrow> string \<Rightarrow> string \<Rightarrow> rat \<Rightarrow> (bridge, string option) action" where
  "latest_thread now ctx sender max_age =
     bnd (gets (\<lambda>b. eng_latest_thread now (Some max_age) (br_engine b) ctx sender)) lift_exn"

definition private_bind :: "string \<Rightarrow> int \<Rightarrow> string \<Rightarrow> (bridge, unit) action" where
  "private_bind user surrogate room = on_stores (bind_private_room user surrogate room)"

definition private_room_by_surrogate :: "pyval \<Rightarrow> (bridge, string option) action" where
  "private_room_by_surrogate v = gets (\<lambda>b. eng_room_by_user_surrogate (br_engine b) (py_str v))"

definition context_bind :: "context_args \<Rightarrow> (bridge, unit) action" where
  "context_bind a = on_stores (bind_context_room a)"

definition context_by_surrogate :: "pyval \<Rightarrow> (bridge, entry option) action" where
  "context_by_surrogate v = gets (\<lambda>b. eng_context_by_surrogate (br_engine b) (py_str v))"

section \<open>The client\<close>

definition open_direct_room :: "client \<Rightarrow> string \<Rightarrow> (bridge, string) action" where
  "open_direct_room cl u b = (case cl_direct_room cl u of
     Inl e \<Rightarrow> (Inl e, b\<lparr>br_asked := br_asked b @ [(u, False)]\<rparr>)
   | Inr room \<Rightarrow> (Inr room, b\<lparr>br_asked := br_asked b @ [(u, True)]\<rparr>))"

end
