(* ===== verification/Outbound_Translator.thy ===== *)
theory Outbound_Translator
  imports Runtime_Stores Cq_Codec
begin

text \<open>
  \<open>OutboundMessageTranslator\<close> of \<open>bridge/translator_outbound.py\<close>: the segments of a OneBot
  message become the room, thread, segments, reply and mentions of a Rocket.Chat message.

  \<^item> The coroutine is an action on the \<open>bridge\<close>. Its awaits let other tasks run; the model is
    one call that runs alone, which is how the action pool treats two sends to one target.
  \<^item> The zero width space that \<open>_normalize_text\<close> removes is not a character of a model string.
  \<^item> The word boundary of the mention pattern is the flag of \<open>mentions_in\<close>: whether the
    character before the current one is a space (or there is none).
\<close>

section \<open>Text\<close>

definition name_char :: "char \<Rightarrow> bool" where
  "name_char c = (let n = (of_char c :: int) in
     (65 \<le> n \<and> n \<le> 90) \<or> (97 \<le> n \<and> n \<le> 122) \<or> py_isdigit c \<or> c \<in> set ''._-'')"

function mentions_in :: "bool \<Rightarrow> string \<Rightarrow> string list" where
  "mentions_in free [] = []"
| "mentions_in free (c # s) =
     (let name = takeWhile name_char s in
      if free \<and> c = CHR ''@'' \<and> name \<noteq> [] then name # mentions_in False (dropWhile name_char s)
      else mentions_in (py_isspace c) s)"
  by pat_completeness auto
termination
  by (relation "measure (\<lambda>(_, s). length s)") (auto simp: le_imp_less_Suc length_dropWhile_le)

definition extract_usernames :: "string \<Rightarrow> string list" where
  "extract_usernames text = filter (\<lambda>u. u \<noteq> []) (map py_strip (mentions_in True text))"

definition normalize_text :: "string \<Rightarrow> string" where
  "normalize_text text = (if py_strip text = [] then [] else text)"

definition format_mention :: "string \<Rightarrow> string" where
  "format_mention username =
     (let n = py_strip username in
      if n = [] then [] else if n = ''all'' then ''@all '' else ''@'' @ n @ '' '')"

fun dedupe :: "string list \<Rightarrow> string list \<Rightarrow> string list" where
  "dedupe seen [] = []"
| "dedupe seen (v # vs) =
     (let n = py_strip v in
      if n = [] \<or> n \<in> set seen then dedupe seen vs else n # dedupe (n # seen) vs)"

definition normalize_segments :: "pyval \<Rightarrow> entry list" where
  "normalize_segments message = (case message of
     PStr s \<Rightarrow> [the (as_dict (text_segment s))]
   | PList xs \<Rightarrow> List.map_filter as_dict xs
   | _ \<Rightarrow> [the (as_dict (text_segment (py_str (py_or message (PStr []))))) ])"

section \<open>Segments\<close>

record outbound_acc =
  oa_segments :: "pyval list"
  oa_reply :: "string option"
  oa_mentions :: "string list"

definition attribute_error :: exn where
  "attribute_error = OtherError ''AttributeError'' ''get''"

definition data_of :: "entry \<Rightarrow> pyval" where
  \<comment> \<open>\<open>segment.get("data", {}) or {}\<close>\<close>
  "data_of seg = py_or (dget_or seg ''data'' (PDict [])) (PDict [])"

definition data_dict :: "entry \<Rightarrow> exn + entry" where
  \<comment> \<open>what \<open>data.get\<close> needs\<close>
  "data_dict seg = (case data_of seg of PDict d \<Rightarrow> Inr d | _ \<Rightarrow> Inl attribute_error)"

definition resolve_mention_username :: "client \<Rightarrow> entry \<Rightarrow> (bridge, string) action" where
  "resolve_mention_username cl data =
     (let qq = dget data ''qq'' in
      if py_str qq = ''all'' then ret ''all''
      else if qq = PNone then ret []
      else if py_str qq = str_int (cl_self_id cl)
      then ret (if cl_bot_username cl \<noteq> [] then cl_bot_username cl else cl_username cl)
      else bnd (map_get_source ''user'' qq) (\<lambda>u.
        if u \<noteq> None \<and> u \<noteq> Some [] then
          bnd (lift_exn (cl_user_info cl (the u))) (\<lambda>info.
            ret (py_str (py_or (py_or (dget info ''username'') (dget info ''name'')) (PStr (the u)))))
        else ret (str_field data ''name'')))"

definition add_text :: "string \<Rightarrow> outbound_acc \<Rightarrow> outbound_acc" where
  "add_text text a = (if text = [] then a else a\<lparr>oa_segments := oa_segments a @ [text_segment text]\<rparr>)"

definition text_step :: "entry \<Rightarrow> outbound_acc \<Rightarrow> outbound_acc" where
  "text_step data a =
     (let text = normalize_text (raw_str_field data ''text'') in
      add_text text (a\<lparr>oa_mentions := oa_mentions a @ (if text = [] then [] else extract_usernames text)\<rparr>))"

definition at_step :: "client \<Rightarrow> entry \<Rightarrow> outbound_acc \<Rightarrow> (bridge, outbound_acc) action" where
  "at_step cl data a =
     bnd (resolve_mention_username cl data) (\<lambda>u.
       ret (add_text (format_mention u)
         (a\<lparr>oa_mentions := oa_mentions a @ (if u = [] then [] else [u])\<rparr>)))"

definition resolve_reply :: "entry \<Rightarrow> (bridge, string option) action" where
  "resolve_reply data =
     bnd (message_by_surrogate (dget data ''id'')) (\<lambda>e.
       case e of
         Some x \<Rightarrow> if truthy (dget x ''source_id'') then ret (Some (py_str (dget x ''source_id'')))
                   else map_get_source ''message'' (dget data ''id'')
       | None \<Rightarrow> map_get_source ''message'' (dget data ''id''))"

definition reply_step :: "bool \<Rightarrow> entry \<Rightarrow> outbound_acc \<Rightarrow> (bridge, outbound_acc) action" where
  "reply_step required data a =
     bnd (resolve_reply data) (\<lambda>r.
       if required \<and> (r = None \<or> r = Some []) then raise_exn (ValueError ''reply reference'')
       else ret (a\<lparr>oa_reply := r\<rparr>))"

definition markdown_step :: "entry \<Rightarrow> outbound_acc \<Rightarrow> outbound_acc" where
  "markdown_step data a =
     add_text (normalize_text (py_str (py_or (py_or (dget data ''markdown'') (dget data ''content'')) (PStr [])))) a"

definition media_types :: "string list" where
  "media_types = [''image'', ''file'', ''record'', ''video'']"

definition segment_step :: "client \<Rightarrow> bool \<Rightarrow> entry \<Rightarrow> outbound_acc \<Rightarrow> (bridge, outbound_acc) action" where
  "segment_step cl required seg a =
     (let t = segment_type seg in
      if t = ''text'' then bnd (lift_exn (data_dict seg)) (\<lambda>d. ret (text_step d a))
      else if t = ''at'' then bnd (lift_exn (data_dict seg)) (\<lambda>d. at_step cl d a)
      else if t = ''reply'' \<and> oa_reply a = None
      then bnd (lift_exn (data_dict seg)) (\<lambda>d. reply_step required d a)
      else if t \<in> set media_types then
        bnd (lift_exn (py_dict (data_of seg))) (\<lambda>d.
          ret (a\<lparr>oa_segments := oa_segments a @ [cq_segment t d]\<rparr>))
      else if t = ''markdown'' then bnd (lift_exn (data_dict seg)) (\<lambda>d. ret (markdown_step d a))
      else ret a)"

primrec segments_loop ::
    "client \<Rightarrow> bool \<Rightarrow> entry list \<Rightarrow> outbound_acc \<Rightarrow> (bridge, outbound_acc) action" where
  "segments_loop cl required [] a = ret a"
| "segments_loop cl required (s # ss) a =
     bnd (segment_step cl required s a) (segments_loop cl required ss)"

section \<open>Rooms and threads\<close>

definition recent_self_ttl :: rat where
  "recent_self_ttl = 120"

definition recent_self :: "(rat \<Rightarrow> string \<Rightarrow> string \<Rightarrow> rat \<Rightarrow> (bridge, string option) action) \<Rightarrow>
    client \<Rightarrow> entry \<Rightarrow> (bridge, string option) action" where
  \<comment> \<open>\<open>_resolve_recent_self_context_room\<close> and \<open>_resolve_recent_self_context_thread\<close>\<close>
  "recent_self latest cl context =
     (let ctx = str_field context ''context_source_id''; sender = py_strip (cl_user_id cl) in
      if ctx = [] \<or> sender = [] then ret None else latest (cl_now cl) ctx sender recent_self_ttl)"

definition context_room :: "client \<Rightarrow> pyval \<Rightarrow> (bridge, string option) action" where
  "context_room cl group_id =
     bnd (context_by_surrogate group_id) (\<lambda>c. case c of
       None \<Rightarrow> ret None
     | Some e \<Rightarrow>
         if e = [] then ret None
         else bnd (recent_self latest_room cl e) (\<lambda>r.
           if r \<noteq> None \<and> r \<noteq> Some [] then ret r
           else if truthy (dget e ''room_source_id'') then ret (Some (py_str (dget e ''room_source_id'')))
           else ret None))"

definition mapped_room :: "client \<Rightarrow> pyval \<Rightarrow> (bridge, string option) action" where
  "mapped_room cl group_id =
     bnd (map_get_source ''room'' group_id) (\<lambda>r.
       if r \<noteq> None \<and> r \<noteq> Some [] then ret r else context_room cl group_id)"

definition resolve_group_room ::
    "client \<Rightarrow> pyval \<Rightarrow> string option \<Rightarrow> (bridge, string option) action" where
  "resolve_group_room cl group_id reply =
     (case reply of
        Some r \<Rightarrow>
          if r = [] then mapped_room cl group_id
          else bnd (message_by_source r) (\<lambda>e. case e of
            Some x \<Rightarrow> if truthy (dget x ''room_source_id'') then ret (Some (py_str (dget x ''room_source_id'')))
                      else mapped_room cl group_id
          | None \<Rightarrow> mapped_room cl group_id)
      | None \<Rightarrow> mapped_room cl group_id)"

definition resolve_private_room :: "client \<Rightarrow> pyval \<Rightarrow> (bridge, string) action" where
  "resolve_private_room cl user_id =
     bnd (private_room_by_surrogate user_id) (\<lambda>r.
       if r \<noteq> None \<and> r \<noteq> Some [] then ret (the r)
       else bnd (map_get_source ''user'' user_id) (\<lambda>u.
         if u = None \<or> u = Some [] then raise_exn (ValueError ''user_id'')
         else bnd (open_direct_room cl (the u)) (\<lambda>room.
           bnd (map_get_or_create (cl_now cl) ''user'' (the u)) (\<lambda>m.
           bnd (private_bind (the u) (im_surrogate_id m) room) (\<lambda>_. ret room)))))"

definition resolve_room :: "client \<Rightarrow> pyval \<Rightarrow> pyval \<Rightarrow> string option \<Rightarrow> (bridge, string) action" where
  "resolve_room cl group_id user_id reply =
     (if group_id \<noteq> PNone then
        bnd (resolve_group_room cl group_id reply) (\<lambda>r.
          if r = None \<or> r = Some [] then raise_exn (ValueError ''group_id'') else ret (the r))
      else if user_id \<noteq> PNone then resolve_private_room cl user_id
      else raise_exn (ValueError ''group_id or user_id''))"

definition reply_thread :: "string \<Rightarrow> string \<Rightarrow> (bridge, string option) action" where
  \<comment> \<open>the thread of a reply, given the thread of the context\<close>
  "reply_thread reply context_thread =
     bnd (message_by_source reply) (\<lambda>e.
       let t = (case e of None \<Rightarrow> [] | Some x \<Rightarrow> str_field x ''thread_source_id'') in
       if t \<noteq> [] then ret (Some t)
       else if context_thread \<noteq> [] \<and> context_thread = reply then ret (Some context_thread)
       else ret None)"

definition resolve_thread :: "client \<Rightarrow> pyval \<Rightarrow> string option \<Rightarrow> (bridge, string option) action" where
  "resolve_thread cl group_id reply =
     (if group_id = PNone then ret None
      else bnd (context_by_surrogate group_id) (\<lambda>c.
        let ct = (case c of None \<Rightarrow> [] | Some e \<Rightarrow> str_field e ''thread_source_id'') in
        if reply \<noteq> None \<and> reply \<noteq> Some [] then reply_thread (the reply) ct
        else (case c of
          None \<Rightarrow> ret None
        | Some e \<Rightarrow>
            if has_key e ''thread_source_id'' then ret (if ct = [] then None else Some ct)
            else bnd (recent_self latest_thread cl e) (\<lambda>t.
              ret (if t = Some [] then None else t)))))"

definition refresh_context :: "client \<Rightarrow> pyval \<Rightarrow> string \<Rightarrow> string option \<Rightarrow> (bridge, unit) action" where
  "refresh_context cl group_id room thread =
     bnd (context_by_surrogate group_id) (\<lambda>c. case c of
       None \<Rightarrow> ret ()
     | Some e \<Rightarrow>
         (let ctx = str_field e ''context_source_id''; g = dget e ''context_surrogate_id'' in
          if ctx = [] \<or> g = PNone then ret ()
          else bnd (map_get_or_create (cl_now cl) ''room'' room) (\<lambda>m.
            bnd (lift_exn (cl_room_info cl room)) (\<lambda>info.
              context_bind \<lparr>ca_source = ctx, ca_surrogate = g, ca_room_source = room,
                ca_room_surrogate = PInt (im_surrogate_id m),
                ca_room_name = py_str (py_or (py_or (dget info ''fname'') (dget info ''name'')) (PStr room)),
                ca_room_slug = py_str (py_or (py_or (dget info ''name'') (dget info ''fname'')) (PStr room)),
                ca_thread = py_strip (case thread of None \<Rightarrow> [] | Some t \<Rightarrow> t),
                ca_timestamp = None\<rparr>))))"

definition reply_mention :: "client \<Rightarrow> string \<Rightarrow> (bridge, string) action" where
  "reply_mention cl reply =
     bnd (message_by_source reply) (\<lambda>e. case e of
       None \<Rightarrow> ret []
     | Some x \<Rightarrow>
         (let sender = str_field x ''sender_source_id''; own = str_field x ''sender_name'' in
          if sender = [] then ret own
          else bnd (lift_exn (cl_user_info cl sender)) (\<lambda>info.
            let u = py_strip (py_str (py_or (py_or (py_or (dget info ''username'') (dget info ''name''))
                      (dget x ''sender_name'')) (PStr [])))
            in ret (if u \<noteq> [] then u else own))))"

section \<open>Translation\<close>

record outbound =
  ob_room :: string
  ob_thread :: "string option"
  ob_segments :: "pyval list"
  ob_reply :: "string option"
  ob_reply_mention :: string
  ob_mentions :: "string list"

definition destination :: "client \<Rightarrow> pyval \<Rightarrow> pyval \<Rightarrow> entry option \<Rightarrow> string option \<Rightarrow>
    (bridge, string \<times> string option) action" where
  "destination cl group_id user_id fixed reply =
     (case fixed of
        Some d \<Rightarrow>
          (let room = str_field d ''room_id''; t = str_field d ''thread_source_id'' in
           if room = [] then raise_exn (ValueError ''room_id'')
           else ret (room, if t = [] then None else Some t))
      | None \<Rightarrow>
          bnd (resolve_room cl group_id user_id reply) (\<lambda>room.
            bnd (resolve_thread cl group_id reply) (\<lambda>thread. ret (room, thread))))"

definition translate_outbound :: "client \<Rightarrow> pyval \<Rightarrow> pyval \<Rightarrow> pyval \<Rightarrow> entry option \<Rightarrow> bool \<Rightarrow>
    (bridge, outbound) action" where
  "translate_outbound cl message group_id user_id fixed required =
     bnd (segments_loop cl required (normalize_segments message)
            \<lparr>oa_segments = [], oa_reply = None, oa_mentions = []\<rparr>) (\<lambda>a.
     bnd (destination cl group_id user_id fixed (oa_reply a)) (\<lambda>(room, thread).
     bnd (if group_id \<noteq> PNone \<and> fixed = None then refresh_context cl group_id room thread else ret ()) (\<lambda>_.
     bnd (case oa_reply a of None \<Rightarrow> ret [] | Some r \<Rightarrow> if r = [] then ret [] else reply_mention cl r) (\<lambda>rm.
       ret \<lparr>ob_room = room, ob_thread = thread, ob_segments = oa_segments a, ob_reply = oa_reply a,
            ob_reply_mention = rm, ob_mentions = dedupe [] (oa_mentions a)\<rparr>))))"

end
