(* ===== verification/Outbound_Proofs.thy ===== *)
theory Outbound_Proofs
  imports Outbound_Translator
begin

text \<open>
  Lemmas on the outbound translator: the sent segments are a normal form, direct rooms are
  opened at most once for each user, and the parts of a translation that do not change the stores.
\<close>

section \<open>Texts and segments\<close>

lemma mentions_in_names: "u \<in> set (mentions_in free s) \<Longrightarrow> u \<noteq> [] \<and> list_all name_char u"
proof (induction free s rule: mentions_in.induct)
  case (2 free c s)
  then show ?case by (auto simp: Let_def list_all_iff split: if_splits dest: set_takeWhileD)
qed simp

lemma dedupe_spec:
  "distinct (dedupe seen vs) \<and> set (dedupe seen vs) = {n. n \<in> py_strip ` set vs \<and> n \<noteq> [] \<and> n \<notin> set seen}"
  by (induction seen vs rule: dedupe.induct) (auto simp: Let_def)

lemma dedupe_fixed: "distinct vs \<Longrightarrow> set vs \<inter> set seen = {} \<Longrightarrow> \<forall>v \<in> set vs. v \<noteq> [] \<and> py_strip v = v \<Longrightarrow> dedupe seen vs = vs"
  by (induction seen vs rule: dedupe.induct) (auto simp: Let_def)

definition sendable :: "pyval \<Rightarrow> bool" where
  "sendable v \<longleftrightarrow> (\<exists>t. v = text_segment t \<and> py_strip t \<noteq> []) \<or> (\<exists>k d. k \<in> set media_types \<and> v = cq_segment k d)"

lemma strip_blank: "py_strip s = [] \<longleftrightarrow> list_all py_isspace s"
proof -
  have "py_strip s = [] \<longleftrightarrow> dropWhile py_isspace s = []"
  proof
    assume a: "py_strip s = []"
    show "dropWhile py_isspace s = []"
    proof (rule ccontr)
      assume n: "dropWhile py_isspace s \<noteq> []"
      with hd_dropWhile [OF n] have "\<exists>x \<in> set (rev (dropWhile py_isspace s)). \<not> py_isspace x"
        by (metis hd_in_set set_rev)
      then have "dropWhile py_isspace (rev (dropWhile py_isspace s)) \<noteq> []" by simp
      with a show False by (simp add: py_strip_def py_lstrip_def py_rstrip_def)
    qed
  next
    assume "dropWhile py_isspace s = []"
    then show "py_strip s = []" by (simp only: py_strip_def py_lstrip_def py_rstrip_def) simp
  qed
  then show ?thesis by (simp add: list_all_iff)
qed

lemma mention_not_blank: "format_mention u \<noteq> [] \<Longrightarrow> py_strip (format_mention u) \<noteq> []"
  by (auto simp: strip_blank format_mention_def Let_def py_isspace_def split: if_splits)

lemma normalize_not_blank: "normalize_text t \<noteq> [] \<Longrightarrow> py_strip (normalize_text t) \<noteq> []"
  by (auto simp: normalize_text_def split: if_splits)

lemma sendable_text: "py_strip t \<noteq> [] \<Longrightarrow> sendable (text_segment t)"
  by (auto simp: sendable_def)

lemma add_text_sendable:
  "list_all sendable (oa_segments a) \<Longrightarrow> (t \<noteq> [] \<Longrightarrow> py_strip t \<noteq> []) \<Longrightarrow> list_all sendable (oa_segments (add_text t a))"
  by (simp add: add_text_def sendable_text)

text \<open>What a successful action returns, whatever the state it started from.\<close>

definition returns :: "('s, 'a) action \<Rightarrow> ('a \<Rightarrow> bool) \<Rightarrow> bool" where
  "returns m P \<longleftrightarrow> (\<forall>s x t. m s = (Inr x, t) \<longrightarrow> P x)"

lemma returnsD: "returns m P \<Longrightarrow> m s = (Inr x, t) \<Longrightarrow> P x"
  unfolding returns_def by blast

lemma returns_ret: "P x \<Longrightarrow> returns (ret x) P"
  by (simp add: returns_def ret_def)

lemma returns_raise: "returns (raise_exn e) P"
  by (simp add: returns_def raise_exn_def)

lemma returns_lift: "(\<And>x. r = Inr x \<Longrightarrow> P x) \<Longrightarrow> returns (lift_exn r) P"
  by (simp add: returns_def lift_exn_def)

lemma returns_bnd: "returns m Q \<Longrightarrow> (\<And>x. Q x \<Longrightarrow> returns (k x) P) \<Longrightarrow> returns (bnd m k) P"
  by (fastforce simp: returns_def bnd_def split: prod.splits sum.splits)

lemma returns_any: "returns m (\<lambda>_. True)"
  by (simp add: returns_def)

lemma bndI: "(\<And>x. returns (k x) P) \<Longrightarrow> returns (bnd m k) P"
  by (rule returns_bnd [OF returns_any])

lemma segment_step_sendable:
  assumes "list_all sendable (oa_segments a)"
  shows "returns (segment_step cl req seg a) (\<lambda>a'. list_all sendable (oa_segments a'))"
proof -
  have m: "sendable (cq_segment k d)" if "k \<in> set media_types" for k d
    using that by (auto simp: sendable_def)
  have "returns (reply_step req d a) (\<lambda>a'. list_all sendable (oa_segments a'))" for d
    unfolding reply_step_def using assms by (intro bndI) (auto intro: returns_ret returns_raise)
  moreover have "returns (at_step cl d a) (\<lambda>a'. list_all sendable (oa_segments a'))" for d
    unfolding at_step_def using assms
    by (intro bndI returns_ret add_text_sendable) (auto dest: mention_not_blank)
  moreover have "list_all sendable (oa_segments (text_step d a))"
      "list_all sendable (oa_segments (markdown_step d a))" for d
    unfolding text_step_def markdown_step_def Let_def using assms
    by (intro add_text_sendable normalize_not_blank; simp)+
  ultimately show ?thesis
    using assms unfolding segment_step_def Let_def by (auto simp: m intro!: bndI intro: returns_ret)
qed

lemma segments_loop_sendable:
  "list_all sendable (oa_segments a) \<Longrightarrow> returns (segments_loop cl req ss a) (\<lambda>a'. list_all sendable (oa_segments a'))"
proof (induction ss arbitrary: a)
  case (Cons s ss)
  then show ?case by (auto intro: returns_bnd [OF segment_step_sendable])
qed (simp add: returns_ret)

text \<open>A sendable segment is taken over as it is.\<close>

lemma segment_step_again:
  assumes "sendable v"
  shows "\<exists>seg a'. as_dict v = Some seg \<and> segment_step cl req seg a b = (Inr a', b) \<and>
    oa_segments a' = oa_segments a @ [v] \<and> oa_reply a' = oa_reply a"
  using assms unfolding sendable_def
proof (elim disjE exE conjE)
  fix t assume t: "v = text_segment t" "py_strip t \<noteq> []"
  then have "t \<noteq> []" by auto
  with t show ?thesis
    by (auto simp: text_segment_def segment_step_def segment_type_def dget_def py_or_def data_dict_def data_of_def
        dget_or_def text_step_def raw_str_field_def normalize_text_def add_text_def action_defs Let_def)
next
  fix k d assume k: "k \<in> set media_types" "v = cq_segment k d"
  have "py_or (PDict d) (PDict []) = PDict d" by (simp add: py_or_def)
  with k show ?thesis
    by (auto simp: cq_segment_def segment_step_def segment_type_def dget_def data_of_def py_or_def
        dget_or_def media_types_def action_defs Let_def)
qed

lemma segments_loop_again:
  "list_all sendable vs \<Longrightarrow> \<exists>a'. segments_loop cl req (List.map_filter as_dict vs) a b = (Inr a', b) \<and>
     oa_segments a' = oa_segments a @ vs \<and> oa_reply a' = oa_reply a"
proof (induction vs arbitrary: a)
  case Nil
  then show ?case by (simp add: ret_def List.map_filter_def)
next
  case (Cons v vs)
  from Cons.prems segment_step_again [of v cl req a b] obtain seg a1 where
    s: "as_dict v = Some seg" "segment_step cl req seg a b = (Inr a1, b)"
      "oa_segments a1 = oa_segments a @ [v]" "oa_reply a1 = oa_reply a"
    by auto
  from Cons.IH [of a1] Cons.prems s show ?case
    by (auto simp: List.map_filter_def bnd_def)
qed

section \<open>Direct rooms\<close>

text \<open>
  Every user a room was opened for is registered, and the OneBot id of that user has a room.
  User ids are registered without surrounding spaces.
\<close>

definition opened_rooms :: "bridge \<Rightarrow> string list" where
  \<comment> \<open>the users whose direct room the server named\<close>
  "opened_rooms b = map fst (filter snd (br_asked b))"

text \<open>Once a request for a user was answered there is no other for the same user.\<close>

fun asked_once :: "(string \<times> bool) list \<Rightarrow> bool" where
  "asked_once [] = True"
| "asked_once ((u, answered) # rest) = ((answered \<longrightarrow> u \<notin> set (map fst rest)) \<and> asked_once rest)"

lemma asked_once_snoc:
  "asked_once (asks @ [(u, ok)]) \<longleftrightarrow> asked_once asks \<and> u \<notin> set (map fst (filter snd asks))"
  by (induction asks rule: asked_once.induct) auto

lemma opened_rooms_asked [simp]:
  "opened_rooms (b\<lparr>br_asked := xs @ [(u, True)]\<rparr>) = opened_rooms (b\<lparr>br_asked := xs\<rparr>) @ [u]"
  "opened_rooms (b\<lparr>br_asked := xs @ [(u, False)]\<rparr>) = opened_rooms (b\<lparr>br_asked := xs\<rparr>)"
  "opened_rooms (b\<lparr>br_engine := e\<rparr>) = opened_rooms b" "opened_rooms (b\<lparr>br_users := g\<rparr>) = opened_rooms b"
  "opened_rooms (b\<lparr>br_asked := br_asked b\<rparr>) = opened_rooms b"
  by (simp_all add: opened_rooms_def)

definition stripped_users :: "identity_db \<Rightarrow> bool" where
  "stripped_users db \<longleftrightarrow> (\<forall>u r. row_by_user db u = Some r \<longrightarrow> py_strip u = u)"

lemma asked_once_split: "asked_once (before @ (u, True) # after) \<Longrightarrow> u \<notin> set (map fst after)"
  by (induction before rule: asked_once.induct) auto

definition opened_ok :: "bridge \<Rightarrow> bool" where
  "opened_ok b \<longleftrightarrow> registry_ok (br_users b) \<and> stripped_users (rg_db (br_users b)) \<and> asked_once (br_asked b) \<and>
     (\<forall>u \<in> set (opened_rooms b). \<exists>r room. row_by_user (rg_db (br_users b)) u = Some r \<and>
        map_of (eng_private_surrogate (br_engine b)) (str_int (ur_onebot r)) = Some room \<and> room \<noteq> [])"

lemma on_stores_opened:
  assumes "\<And>p. keeps (\<lambda>s. eng_private_surrogate s = p) m"
  shows "keeps opened_ok (on_stores m)"
proof
  fix b assume "opened_ok b"
  moreover have "eng_private_surrogate (snd (m (br_engine b))) = eng_private_surrogate (br_engine b)"
    using keepsD [OF assms, of "br_engine b"] by simp
  ultimately show "opened_ok (snd (on_stores m b))"
    by (simp add: on_stores_def opened_ok_def opened_rooms_def case_prod_beta)
qed

lemma on_users_opened:
  assumes "\<And>g. registry_ok g \<Longrightarrow> stripped_users (rg_db g) \<Longrightarrow>
    registry_ok (snd (m g)) \<and> stripped_users (rg_db (snd (m g))) \<and>
    (\<forall>u r. row_by_user (rg_db g) u = Some r \<longrightarrow>
      (\<exists>r'. row_by_user (rg_db (snd (m g))) u = Some r' \<and> ur_onebot r' = ur_onebot r))"
  shows "keeps opened_ok (on_users m)"
proof
  fix b assume "opened_ok b"
  with assms [of "br_users b"] show "opened_ok (snd (on_users m b))"
    by (fastforce simp: on_users_def opened_ok_def opened_rooms_def case_prod_beta)
qed

lemma trim_loop_frame:
  assumes "\<And>k ks s. P s \<Longrightarrow> P (snd (evict_message k (s\<lparr>eng_order := ks\<rparr>)))"
  shows "keeps P (trim_loop r)"
proof
  fix s assume "P s"
  then show "P (snd (trim_loop r s))"
  proof (induction r s rule: trim_loop.induct)
    case (1 r s)
    show ?case
    proof (cases "int (length (eng_order s)) > eng_window s \<and> eng_order s \<noteq> []")
      case True
      then obtain k ks where o: "eng_order s = k # ks" by (cases "eng_order s") auto
      obtain r' t where t: "evict_message k (s\<lparr>eng_order := ks\<rparr>) = (r', t)"
        by (cases "evict_message k (s\<lparr>eng_order := ks\<rparr>)")
      have P: "P t" using assms [OF "1.prems", of k ks] t by simp
      show ?thesis
      proof (cases r')
        case (Inl x)
        with True o t P show ?thesis by (subst trim_loop.simps) simp
      next
        case (Inr u)
        from "1.IH" [OF conjunct1 [OF True] o t [symmetric] Inr P] True o t Inr show ?thesis
          by (subst trim_loop.simps) simp
      qed
    qed (use "1.prems" in \<open>auto simp: trim_loop.simps split: list.split\<close>)
  qed
qed

lemma evict_private: "eng_private_surrogate (snd (evict_message k (s\<lparr>eng_order := ks\<rparr>))) = eng_private_surrogate s"
proof -
  have "rest_of (snd (remove_message_entry k False t)) = rest_of t" for t
    by (rule keepsD [OF remove_message_entry_rest]) simp
  note r = rest_ofD(7) [OF this]
  show ?thesis by (simp add: evict_message_def Let_def r split: option.split)
qed

lemma allocate_locked_private: "keeps (\<lambda>s. eng_private_surrogate s = p) (allocate_locked ns k)"
proof -
  have l: "keeps (\<lambda>s. eng_private_surrogate s = p) (trim_message_window a b)" for a b
    unfolding trim_message_window_def by (intro keeps_bnd trim_loop_frame keeps_gets) (simp add: evict_private)
  have k: "keeps (\<lambda>s. eng_private_surrogate s = p)
      (bnd (trim_message_window False False) (\<lambda>snap. ret (m, snap, True)))" for m :: id_mapping
    by (intro keeps_bnd l keeps_ret)
  show ?thesis
  proof
    fix s :: engine
    assume "eng_private_surrogate s = p"
    with keepsD [OF k] show "eng_private_surrogate (snd (allocate_locked ns k s)) = p"
      by (auto simp: allocate_locked_def Let_def split: option.split)
  qed
qed

lemma record_private: "keeps (\<lambda>s. eng_private_surrogate s = p) (eng_record r)"
  unfolding eng_record_def by (rule keeps_modify) simp

lemma allocate_private: "keeps (\<lambda>s. eng_private_surrogate s = p) (allocate_mapping ns k)"
  unfolding allocate_mapping_def case_prod_beta
  by (intro keeps_bnd keeps_when allocate_locked_private record_private keeps_ret)

lemma bind_locked_private: "keeps (\<lambda>s. eng_private_surrogate s = p) (bind_context_without_record e)"
  by (auto simp: keeps_def bind_context_without_record_def Let_def split: option.split sum.split bool.split)

lemma bind_context_private: "keeps (\<lambda>s. eng_private_surrogate s = p) (bind_context_room a)"
  unfolding bind_context_room_def by (intro keeps_bnd keeps_lift keeps_when bind_locked_private record_private)

lemma lookup_opened: "keeps opened_ok (on_users (get_by_onebot_id v))"
proof (rule on_users_opened)
  fix g assume "registry_ok g"
  moreover assume "stripped_users (rg_db g)"
  ultimately show "registry_ok (snd (get_by_onebot_id v g)) \<and> stripped_users (rg_db (snd (get_by_onebot_id v g))) \<and>
    (\<forall>u r. row_by_user (rg_db g) u = Some r \<longrightarrow>
      (\<exists>r'. row_by_user (rg_db (snd (get_by_onebot_id v g))) u = Some r' \<and> ur_onebot r' = ur_onebot r))"
    using get_by_onebot_id_ok [of g v] by auto
qed

lemma ensure_facts:
  assumes g: "registry_ok g" "stripped_users (rg_db g)"
    and e: "ensure_mapping_sync now u p ov b g = (res, h)"
  shows "registry_ok h" "stripped_users (rg_db h)"
    "row_by_user (rg_db g) w = Some r \<Longrightarrow> \<exists>r'. row_by_user (rg_db h) w = Some r' \<and> ur_onebot r' = ur_onebot r"
    "res = Inr m \<Longrightarrow> row_by_user (rg_db h) (py_strip u) = Some m"
proof -
  note f = ensure_mapping_ok [OF g(1) e]
  show "registry_ok h" using f by simp
  show "stripped_users (rg_db h)"
    unfolding stripped_users_def
  proof (intro allI impI)
    fix w r assume r: "row_by_user (rg_db h) w = Some r"
    show "py_strip w = w"
      using f g(2) r by (cases "w = py_strip u"; cases res) (auto simp: stripped_users_def)
  qed
  show "row_by_user (rg_db g) w = Some r \<Longrightarrow> \<exists>r'. row_by_user (rg_db h) w = Some r' \<and> ur_onebot r' = ur_onebot r"
    using f by (cases res; cases "w = py_strip u") auto
  show "res = Inr m \<Longrightarrow> row_by_user (rg_db h) (py_strip u) = Some m"
    using f by simp
qed

text \<open>Ensuring a user that is registered does not raise.\<close>

lemma ensure_known:
  assumes g: "registry_ok g" and u: "row_by_user (rg_db g) u = Some r" "py_strip u = u" "u \<noteq> []"
  shows "\<exists>m h. ensure_mapping_sync now u p ov b g = (Inr m, h)"
proof (cases "case map_of (ic_by_user (rg_cache g)) u of
    Some m \<Rightarrow> if profile_matches (normalized_profile p) m then Some m else None | None \<Rightarrow> None")
  case None
  with u show ?thesis
    by (auto simp: ensure_mapping_sync_def ensure_in_db_def Let_def)
next
  case (Some m)
  with u show ?thesis
    by (auto simp: ensure_mapping_sync_def Let_def action_defs touch_bot_user_def)
qed

lemma ensure_opened: "keeps opened_ok (on_users (ensure_mapping_sync now u p ov b))"
proof (rule on_users_opened)
  fix g assume g: "registry_ok g" "stripped_users (rg_db g)"
  obtain res h where e: "ensure_mapping_sync now u p ov b g = (res, h)" by (metis surj_pair)
  from ensure_facts [OF g e] e show "registry_ok (snd (ensure_mapping_sync now u p ov b g)) \<and>
    stripped_users (rg_db (snd (ensure_mapping_sync now u p ov b g))) \<and>
    (\<forall>w r. row_by_user (rg_db g) w = Some r \<longrightarrow>
      (\<exists>r'. row_by_user (rg_db (snd (ensure_mapping_sync now u p ov b g))) w = Some r' \<and> ur_onebot r' = ur_onebot r))"
    by simp
qed

lemma source_opened: "keeps opened_ok (map_get_source ns v)"
  unfolding map_get_source_def by (auto intro!: keeps_bnd lookup_opened)

lemma create_opened: "keeps opened_ok (map_get_or_create now ns k)"
  unfolding map_get_or_create_def ensure_user_def
  by (auto intro!: keeps_bnd ensure_opened on_stores_opened allocate_private)

lemma queries_opened [intro]:
  "keeps opened_ok (message_by_source k)" "keeps opened_ok (message_by_surrogate v)"
  "keeps opened_ok (private_room_by_surrogate v)" "keeps opened_ok (context_by_surrogate v)"
  "keeps opened_ok (latest_room now c s t)" "keeps opened_ok (latest_thread now c s t)"
  unfolding message_by_source_def message_by_surrogate_def private_room_by_surrogate_def context_by_surrogate_def
    latest_room_def latest_thread_def
  by (intro keeps_gets keeps_bnd keeps_lift)+

text \<open>Opening a room for a user that has none yet and binding it keeps the invariant.\<close>

lemma bind_opened:
  assumes ok: "opened_ok b" and u: "row_by_user (rg_db (br_users b)) u = Some r" and room: "room \<noteq> []"
    and new: "u \<notin> set (opened_rooms b)"
  shows "opened_ok (snd (private_bind v (ur_onebot r) room (b\<lparr>br_asked := br_asked b @ [(u, True)]\<rparr>)))"
proof -
  have "asked_once (br_asked b @ [(u, True)])"
    using ok new by (simp add: opened_ok_def opened_rooms_def asked_once_snoc)
  with assms show ?thesis
    by (auto simp: private_bind_def on_stores_def bind_private_room_def bind_private_without_record_def bnd_def
        modify_def opened_ok_def)
qed

text \<open>
  A user id names its user as the stores write it: a number, or a text that reads as the number
  it is written for. A padded or signed numeral is looked up under another name than the one
  its room is stored for, so it asks every time.
\<close>

definition canonical_id :: "pyval \<Rightarrow> bool" where
  "canonical_id v = (case validate_onebot_user_id v of Inl _ \<Rightarrow> True | Inr i \<Rightarrow> py_str v = str_int i)"

lemma canonical_simps [simp]: "canonical_id PNone" "canonical_id (PInt i)" "canonical_id (PStr (str_int i))"
  by (auto simp: canonical_id_def validate_onebot_user_id_def)

lemma resolve_private_opened:
  assumes room: "\<forall>u r. cl_direct_room cl u = Inr r \<longrightarrow> r \<noteq> []" and can: "canonical_id v"
  shows "keeps opened_ok (resolve_private_room cl v)"
proof
  fix b assume ok: "opened_ok b"
  then have reg: "registry_ok (br_users b)" "stripped_users (rg_db (br_users b))" by (simp_all add: opened_ok_def)
  define found where "found = (case validate_onebot_user_id v of
    Inl _ \<Rightarrow> None | Inr i \<Rightarrow> row_by_onebot (rg_db (br_users b)) i)"
  from get_by_onebot_id_ok [OF reg(1), of v] obtain g where
    g: "get_by_onebot_id v (br_users b) = (Inr found, g)" "registry_ok g" "rg_db g = rg_db (br_users b)"
    unfolding found_def by blast
  let ?b1 = "b\<lparr>br_users := g\<rparr>"
  have ok1: "opened_ok ?b1" using ok g(2,3) by (simp add: opened_ok_def opened_rooms_def)
  have src: "map_get_source ''user'' v b = (Inr (map_option ur_user_id found), ?b1)"
    using g(1) by (simp add: map_get_source_def on_users_def bnd_def ret_def)
  note defs = resolve_private_room_def private_room_by_surrogate_def bnd_def gets_def ret_def raise_exn_def src
    open_direct_room_def
  let ?free = "\<forall>r. eng_room_by_user_surrogate (br_engine b) (py_str v) = Some r \<longrightarrow> r = []"
  have known: "\<exists>i. row_by_user (rg_db g) (ur_user_id row) = Some row \<and> ur_onebot row = i
      \<and> py_strip (ur_user_id row) = ur_user_id row \<and> ur_user_id row \<notin> set (opened_rooms b)"
    if free: ?free and row: "found = Some row" for row
  proof -
    from row obtain i where i: "validate_onebot_user_id v = Inr i" "row_by_onebot (rg_db g) i = Some row"
      by (auto simp: found_def g(3) split: sum.splits)
    then have u: "row_by_user (rg_db g) (ur_user_id row) = Some row" "ur_onebot row = i"
      using row_iff [OF registry_okD(1) [OF g(2)], of i row] by auto
    moreover have "py_str v = str_int i" using can i(1) by (simp add: canonical_id_def)
    ultimately show ?thesis
      using ok free reg(2) g(3) by (auto simp: opened_ok_def eng_room_by_user_surrogate_def stripped_users_def)
  qed
  consider (bound) r where "eng_room_by_user_surrogate (br_engine b) (py_str v) = Some r" "r \<noteq> []"
    | (unknown) ?free "found = None \<or> map_option ur_user_id found = Some []"
    | (refused) row e where ?free "found = Some row" "ur_user_id row \<noteq> []" "cl_direct_room cl (ur_user_id row) = Inl e"
    | (opened) row rm where ?free "found = Some row" "ur_user_id row \<noteq> []" "cl_direct_room cl (ur_user_id row) = Inr rm"
  proof (cases ?free)
    case True
    with that(2,3,4) show thesis
      by (cases found; cases "cl_direct_room cl (ur_user_id (the found))") (simp_all, blast+)
  qed (use that(1) in blast)
  then show "opened_ok (snd (resolve_private_room cl v b))"
  proof cases
    case bound
    with ok show ?thesis by (simp add: defs)
  next
    case unknown
    with ok ok1 show ?thesis by (auto simp: defs)
  next
    case refused
    have "opened_ok (?b1\<lparr>br_asked := br_asked b @ [(ur_user_id row, False)]\<rparr>)"
      using ok1 known [OF refused(1,2)] by (simp add: opened_ok_def opened_rooms_def asked_once_snoc)
    with refused show ?thesis by (auto simp: defs)
  next
    case opened
    let ?u = "ur_user_id row"
    obtain i where row: "row_by_user (rg_db g) ?u = Some row" "ur_onebot row = i" and stripped: "py_strip ?u = ?u"
      and new: "?u \<notin> set (opened_rooms b)"
      using known [OF opened(1,2)] by blast
    have str: "stripped_users (rg_db g)" using reg(2) g(3) by simp
    obtain m h where e: "ensure_mapping_sync (cl_now cl) ?u no_profile None None g = (Inr m, h)"
      using ensure_known [OF g(2) row(1) stripped opened(3)] by blast
    note f = ensure_facts [OF g(2) str e]
    have m: "row_by_user (rg_db h) ?u = Some m" using f(4) [OF refl] stripped by simp
    let ?b3 = "b\<lparr>br_users := h\<rparr>"
    have ok3: "opened_ok ?b3"
      using keepsD [OF ensure_opened ok1, of "cl_now cl" ?u no_profile None None] e by (simp add: on_users_def)
    have "resolve_private_room cl v b =
        bnd (private_bind ?u (ur_onebot m) rm) (\<lambda>_. ret rm) (b\<lparr>br_asked := br_asked b @ [(?u, True)], br_users := h\<rparr>)"
      using opened(1,2,3,4) e
      by (auto simp: defs map_get_or_create_def ensure_user_def on_users_def to_id_mapping_def)
    moreover have "snd (bnd (private_bind v i' rm) (\<lambda>_. ret rm) c) = snd (private_bind v i' rm c)" for v i' c
      by (simp add: bnd_def ret_def case_prod_beta split: sum.split)
    moreover have "b\<lparr>br_asked := br_asked b @ [(?u, True)], br_users := h\<rparr> = ?b3\<lparr>br_asked := br_asked ?b3 @ [(?u, True)]\<rparr>"
      by simp
    moreover from bind_opened [OF ok3, of ?u m rm ?u] m(1) new room opened(4)
    have "opened_ok (snd (private_bind ?u (ur_onebot m) rm (?b3\<lparr>br_asked := br_asked ?b3 @ [(?u, True)]\<rparr>)))"
      by (auto simp: opened_rooms_def)
    ultimately show ?thesis by simp
  qed
qed

section \<open>A whole translation\<close>

text \<open>The segments of a message read the stores; only the cache of the registry may change.\<close>

lemma segment_step_keeps:
  assumes src: "\<And>ns v. keeps P (map_get_source ns v)"
  shows "keeps P (segment_step cl req s a)"
proof -
  have "keeps P (resolve_mention_username cl d)" for d
    unfolding resolve_mention_username_def Let_def by (auto intro!: keeps_bnd src)
  then have "keeps P (at_step cl d a)" for d
    unfolding at_step_def by (intro keeps_bnd keeps_ret)
  moreover have "keeps P (resolve_reply d)" for d
    unfolding resolve_reply_def message_by_surrogate_def by (auto intro!: keeps_bnd src split: option.split)
  then have "keeps P (reply_step req d a)" for d
    unfolding reply_step_def by (intro keeps_bnd keeps_if keeps_raise keeps_ret)
  ultimately show ?thesis
    unfolding segment_step_def Let_def by (intro keeps_if keeps_bnd keeps_lift keeps_ret) simp_all
qed

lemma segments_loop_keeps:
  assumes "\<And>ns v. keeps P (map_get_source ns v)"
  shows "keeps P (segments_loop cl req ss a)"
proof (induction ss arbitrary: a)
  case (Cons s ss)
  then show ?case by (auto intro: keeps_bnd [OF segment_step_keeps [OF assms]])
qed simp

lemmas segments_loop_opened = segments_loop_keeps [OF source_opened]

lemma source_engine: "keeps (\<lambda>b. br_engine b = s) (map_get_source ns v)"
proof -
  have "keeps (\<lambda>b. br_engine b = s) (on_users m)" for m :: "(registry, 'b) action"
    by (simp add: keeps_def on_users_def case_prod_beta)
  then show ?thesis unfolding map_get_source_def by (intro keeps_if keeps_bnd keeps_gets keeps_lift keeps_ret)
qed

lemmas segments_loop_engine = segments_loop_keeps [OF source_engine]

text \<open>The first reply of a message stays its reply.\<close>

lemma segments_loop_reply:
  "oa_reply a = Some r \<Longrightarrow> returns (segments_loop cl req ss a) (\<lambda>a'. oa_reply a' = Some r)"
proof (induction ss arbitrary: a)
  case (Cons s ss)
  have "returns (segment_step cl req s a) (\<lambda>a'. oa_reply a' = Some r)"
    using Cons.prems unfolding segment_step_def at_step_def text_step_def markdown_step_def add_text_def Let_def
    by (auto intro!: bndI returns_ret)
  from returns_bnd [OF this Cons.IH] show ?case by simp
qed (simp add: returns_ret)

lemma keeps_bnd_returns:
  "keeps P m \<Longrightarrow> returns m Q \<Longrightarrow> (\<And>x. Q x \<Longrightarrow> keeps P (k x)) \<Longrightarrow> keeps P (bnd m k)"
  by (fastforce simp: keeps_def returns_def bnd_def split: prod.splits sum.splits)

lemma destination_room: "returns (destination cl gid user fixed r) (\<lambda>d. gid \<noteq> PNone \<and> fixed = None \<longrightarrow> fst d \<noteq> [])"
proof -
  have room: "returns (resolve_room cl gid user r) (\<lambda>x. gid \<noteq> PNone \<longrightarrow> x \<noteq> [])"
    unfolding resolve_room_def by (auto intro!: bndI returns_ret returns_raise simp: returns_any)
  have "returns (bnd (resolve_room cl gid user r) (\<lambda>room. bnd (resolve_thread cl gid r) (\<lambda>thread. ret (room, thread))))
      (\<lambda>d. gid \<noteq> PNone \<longrightarrow> fst d \<noteq> [])"
    by (rule returns_bnd [OF room], rule bndI, rule returns_ret) simp
  then show ?thesis
    unfolding destination_def Let_def by (cases fixed) (auto intro!: returns_ret returns_raise)
qed

text \<open>
  The stores as the outbound translator uses them: \<open>P\<close> is a property that its requests keep.
\<close>

locale outbound_invariant =
  fixes cl :: client and user :: pyval and P :: "bridge \<Rightarrow> bool"
  assumes looking_up: "keeps P (map_get_source ns v)"
    and allocating: "room \<noteq> [] \<Longrightarrow> keeps P (map_get_or_create (cl_now cl) ''room'' room)"
    and binding: "keeps P (context_bind a)"
    and private_room: "user \<noteq> PNone \<Longrightarrow> keeps P (resolve_private_room cl user)"
begin

lemma queries_keep:
  "keeps P (message_by_source k)" "keeps P (message_by_surrogate v)" "keeps P (context_by_surrogate v)"
  "keeps P (latest_room now c s t)" "keeps P (latest_thread now c s t)"
  unfolding message_by_source_def message_by_surrogate_def context_by_surrogate_def latest_room_def latest_thread_def
  by (intro keeps_gets keeps_bnd keeps_lift)+

lemma recent_self_keep:
  "keeps P (recent_self latest_room cl e)" "keeps P (recent_self latest_thread cl e)"
  unfolding recent_self_def Let_def by (auto intro!: queries_keep)

lemma group_room_keep: "keeps P (resolve_group_room cl g r)"
proof -
  have "keeps P (mapped_room cl g)"
    unfolding mapped_room_def context_room_def
    by (auto intro!: keeps_bnd looking_up queries_keep recent_self_keep split: option.split)
  then show ?thesis
    unfolding resolve_group_room_def by (auto intro!: keeps_bnd queries_keep split: option.split)
qed

lemma destination_keep: "keeps P (destination cl gid user fixed r)"
proof -
  have "keeps P (resolve_thread cl gid r)"
    unfolding resolve_thread_def reply_thread_def Let_def
    by (auto intro!: keeps_bnd queries_keep recent_self_keep split: option.split)
  moreover have "keeps P (resolve_room cl gid user r)"
    unfolding resolve_room_def by (auto intro!: keeps_bnd group_room_keep private_room)
  ultimately show ?thesis
    unfolding destination_def Let_def by (auto intro!: keeps_bnd split: option.split)
qed

lemma refresh_keep: "room \<noteq> [] \<Longrightarrow> keeps P (refresh_context cl g room thread)"
  unfolding refresh_context_def Let_def
  by (auto intro!: keeps_bnd queries_keep allocating binding split: option.split)

lemma reply_mention_keep: "keeps P (reply_mention cl r)"
  unfolding reply_mention_def Let_def by (auto intro!: keeps_bnd queries_keep split: option.split)

lemma translate_keep: "keeps P (translate_outbound cl message gid user fixed required)"
proof -
  have room: "returns (destination cl gid user fixed r) (\<lambda>d. gid \<noteq> PNone \<and> fixed = None \<longrightarrow> fst d \<noteq> [])" for r
    by (rule destination_room)
  have "keeps P (bnd (destination cl gid user fixed r) (\<lambda>(room, thread).
      bnd (if gid \<noteq> PNone \<and> fixed = None then refresh_context cl gid room thread else ret ()) (\<lambda>_. k room thread)))"
    if "\<And>room thread. keeps P (k room thread)" for r and k :: "string \<Rightarrow> string option \<Rightarrow> (bridge, outbound) action"
    by (rule keeps_bnd_returns [OF destination_keep room]) (auto intro!: keeps_bnd refresh_keep that)
  then show ?thesis
    unfolding translate_outbound_def
    by (rule keeps_bnd [OF segments_loop_keeps [OF looking_up]])
      (auto intro!: keeps_bnd reply_mention_keep split: option.split)
qed

end

lemma translate_opened:
  assumes room: "\<forall>u r. cl_direct_room cl u = Inr r \<longrightarrow> r \<noteq> []" and user: "canonical_id user"
  shows "keeps opened_ok (translate_outbound cl message gid user fixed required)"
proof -
  have "outbound_invariant cl user opened_ok"
    using user resolve_private_opened [OF room]
    by unfold_locales (auto simp: context_bind_def intro: source_opened create_opened on_stores_opened bind_context_private)
  from outbound_invariant.translate_keep [OF this] show ?thesis .
qed

text \<open>What a successful translation returned, step by step.\<close>

lemma translate_parts:
  assumes "translate_outbound cl message gid user fixed required b = (Inr out, b')"
  shows "\<exists>a b1 b2 b3. segments_loop cl required (normalize_segments message)
        \<lparr>oa_segments = [], oa_reply = None, oa_mentions = []\<rparr> b = (Inr a, b1)
    \<and> destination cl gid user fixed (oa_reply a) b1 = (Inr (ob_room out, ob_thread out), b2)
    \<and> (if gid \<noteq> PNone \<and> fixed = None then refresh_context cl gid (ob_room out) (ob_thread out) else ret ()) b2 = (Inr (), b3)
    \<and> ob_segments out = oa_segments a \<and> ob_reply out = oa_reply a \<and> ob_mentions out = dedupe [] (oa_mentions a)"
  using assms unfolding translate_outbound_def bnd_def
  by (auto simp: ret_def split: prod.splits sum.splits)

text \<open>
  The first reply of a message counts, wherever it stands. When it refers to a stored message, the
  message goes to the room and the thread of that one, whatever group it was addressed to; when
  the stored message has no thread, the thread of the group's context is used only if it is the
  thread that the message itself opened.
\<close>

definition context_thread :: "bridge \<Rightarrow> pyval \<Rightarrow> string" where
  "context_thread b gid = (case eng_context_by_surrogate (br_engine b) (py_str gid) of
     None \<Rightarrow> [] | Some c \<Rightarrow> str_field c ''thread_source_id'')"

lemma segment_step_no_reply:
  "segment_type seg \<noteq> ''reply'' \<Longrightarrow> oa_reply a = r \<Longrightarrow> returns (segment_step cl req seg a) (\<lambda>a'. oa_reply a' = r)"
  unfolding segment_step_def at_step_def text_step_def markdown_step_def add_text_def Let_def
  by (auto intro!: bndI returns_ret)

lemma segments_loop_no_reply:
  "\<forall>e \<in> set ss. segment_type e \<noteq> ''reply'' \<Longrightarrow> oa_reply a = r \<Longrightarrow> returns (segments_loop cl req ss a) (\<lambda>a'. oa_reply a' = r)"
proof (induction ss arbitrary: a)
  case (Cons s ss)
  have "returns (bnd (segment_step cl req s a) (segments_loop cl req ss)) (\<lambda>a'. oa_reply a' = r)"
    by (rule returns_bnd [OF segment_step_no_reply Cons.IH]) (use Cons.prems in auto)
  then show ?case by simp
qed (simp add: returns_ret)

lemma segments_loop_append:
  "segments_loop cl req (xs @ ys) a = bnd (segments_loop cl req xs a) (segments_loop cl req ys)"
  by (induction xs arbitrary: a) (auto simp: bnd_def ret_def fun_eq_iff split: prod.split sum.split)

lemma reply_first:
  assumes run: "segments_loop cl req (normalize_segments (PList (before @ cq_segment ''reply'' data # rest)))
      \<lparr>oa_segments = [], oa_reply = None, oa_mentions = []\<rparr> b = (Inr a, b1)"
    and plain: "\<forall>e \<in> set (List.map_filter as_dict before). segment_type e \<noteq> ''reply''"
    and e: "map_of (eng_by_surrogate (br_engine b)) (py_str (dget data ''id'')) = Some e"
      "dget e ''source_id'' = PStr m" "m \<noteq> []" "data \<noteq> []"
  shows "oa_reply a = Some m" "br_engine b1 = br_engine b"
proof -
  let ?seg = "[(''type'', PStr ''reply''), (''data'', PDict data)]"
  let ?a0 = "\<lparr>oa_segments = [], oa_reply = None, oa_mentions = []\<rparr>"
  have split: "normalize_segments (PList (before @ cq_segment ''reply'' data # rest)) =
      List.map_filter as_dict before @ ?seg # List.map_filter as_dict rest"
    by (simp add: normalize_segments_def cq_segment_def List.map_filter_def)
  obtain a1 b' where before: "segments_loop cl req (List.map_filter as_dict before) ?a0 b = (Inr a1, b')"
    and loop: "bnd (segment_step cl req ?seg a1) (segments_loop cl req (List.map_filter as_dict rest)) b' = (Inr a, b1)"
    using run unfolding split segments_loop_append segments_loop.simps
    by (auto simp: bnd_def split: prod.splits sum.splits)
  have none: "oa_reply a1 = None" by (rule returnsD [OF segments_loop_no_reply [OF plain] before]) simp
  have engine: "br_engine b' = br_engine b"
    using keepsD [OF segments_loop_engine [of "br_engine b"], of b, OF refl] before by (metis snd_conv)
  have data: "data_dict ?seg = Inr data"
    using e(4) by (simp add: data_dict_def data_of_def dget_or_def py_or_def)
  have "resolve_reply data b' = (Inr (Some m), b')"
    using e engine by (simp add: resolve_reply_def message_by_surrogate_def bnd_def gets_def ret_def
        eng_message_by_surrogate_def)
  then have step: "segment_step cl req ?seg a1 b' = (Inr (a1\<lparr>oa_reply := Some m\<rparr>), b')"
    using data e(3) none by (simp add: segment_step_def segment_type_def dget_def py_or_def reply_step_def bnd_def lift_exn_def ret_def)
  from loop step have loop: "segments_loop cl req (List.map_filter as_dict rest) (a1\<lparr>oa_reply := Some m\<rparr>) b' = (Inr a, b1)"
    by (simp add: bnd_def)
  show "oa_reply a = Some m" by (rule returnsD [OF segments_loop_reply loop]) simp
  show "br_engine b1 = br_engine b"
    using keepsD [OF segments_loop_engine [of "br_engine b'"], of b', OF refl] loop engine by (metis snd_conv)
qed

lemma reply_destination:
  assumes run: "translate_outbound cl (PList (before @ cq_segment ''reply'' data # rest)) gid user None required b = (Inr out, b')"
    and plain: "\<forall>e \<in> set (List.map_filter as_dict before). segment_type e \<noteq> ''reply''" and data: "data \<noteq> []"
    and stored: "map_of (eng_by_surrogate (br_engine b)) (py_str (dget data ''id'')) = Some e" "map_of (eng_by_source (br_engine b)) m = Some e"
    and e: "dget e ''source_id'' = PStr m" "m \<noteq> []" "dget e ''room_source_id'' = PStr r" "r \<noteq> []"
    and gid: "gid \<noteq> PNone"
  shows "ob_reply out = Some m" "ob_room out = r"
    "ob_thread out = (if str_field e ''thread_source_id'' \<noteq> [] then Some (str_field e ''thread_source_id'')
       else if context_thread b gid = m then Some m else None)"
proof -
  from translate_parts [OF run] obtain a b1 b2 where
    loop: "segments_loop cl required (normalize_segments (PList (before @ cq_segment ''reply'' data # rest)))
        \<lparr>oa_segments = [], oa_reply = None, oa_mentions = []\<rparr> b = (Inr a, b1)"
    and dest: "destination cl gid user None (oa_reply a) b1 = (Inr (ob_room out, ob_thread out), b2)"
    and reply: "ob_reply out = oa_reply a" by blast
  note first = reply_first [OF loop plain stored(1) e(1,2) data]
  from first reply show "ob_reply out = Some m" by simp
  have src: "message_by_source m b1 = (Inr (Some e), b1)"
    using stored(2) first(2) by (simp add: message_by_source_def gets_def eng_message_by_source_def)
  have room: "resolve_room cl gid user (Some m) b1 = (Inr r, b1)"
    using src e gid by (simp add: resolve_room_def resolve_group_room_def bnd_def ret_def)
  have thread: "resolve_thread cl gid (Some m) b1 = (Inr (if str_field e ''thread_source_id'' \<noteq> []
      then Some (str_field e ''thread_source_id'') else if context_thread b gid = m then Some m else None), b1)"
    using src e gid first(2)
    by (auto simp: resolve_thread_def reply_thread_def context_by_surrogate_def bnd_def gets_def ret_def Let_def context_thread_def)
  from dest first(1) room thread show "ob_room out = r" "ob_thread out = (if str_field e ''thread_source_id'' \<noteq> []
      then Some (str_field e ''thread_source_id'') else if context_thread b gid = m then Some m else None)"
    by (simp_all add: destination_def bnd_def ret_def)
qed

end
