(* ===== verification/Inbound_Parsing.thy ===== *)
theory Inbound_Parsing
  imports Transport_Settings Runtime_Stores
begin

text \<open>
  The pure part of \<open>InboundTranslator\<close> (\<open>bridge/translator_inbound.py\<close>): message links,
  quoted messages in the text and in attachments, and which messages may carry media.

  \<^item> \<open>inbound_env\<close> extends the client by what the translator takes from its configuration and
    from other modules: fetching a message, the media service, and the library functions
    behind \<open>urlparse\<close> (\<open>net_env\<close>) and the decoding of percent-encoded bytes.
  \<^item> The Chinese labels of the module are not strings of the model; they are the fields of
    \<open>labels\<close>.
  \<^item> \<open>_QUOTE_PATTERN\<close> is \<open>quote_at\<close>: its first alternative needs the closing brackets that come
    next, the second takes the longest run without a space, so no match backtracks into
    another one. Letters match in either case.
\<close>

section \<open>Environment\<close>

record labels =
  lb_room :: string
  lb_colon :: string
  lb_unknown :: string
  lb_history :: string
  lb_follows :: string
  lb_no_text :: string
  lb_image :: string
  lb_audio :: string
  lb_video :: string
  lb_file :: string
  lb_unreadable :: string
  lb_encrypted :: string
  lb_unsupported :: string
  lb_items :: string

record inbound_env = client +
  ie_net :: net_env
  ie_labels :: labels
  ie_server_url :: string
  ie_isolated :: bool
  ie_early :: bool \<comment> \<open>was the sender registered before a step that failed\<close>
  ie_decode :: "nat list \<Rightarrow> string"
  ie_fetch :: "string \<Rightarrow> exn + entry"  \<comment> \<open>an unknown message is the empty dictionary\<close>
  ie_media :: "entry \<Rightarrow> exn + entry list"
  ie_publish :: "string \<Rightarrow> string \<Rightarrow> string \<Rightarrow> exn + string"
    \<comment> \<open>\<open>publish_local_media_file\<close>; not published is the empty string\<close>
  ie_prepare :: "entry \<Rightarrow> bool \<times> entry"
    \<comment> \<open>\<open>prepare_cached_onebot_event_media\<close>, with the event it may have rewritten\<close>

section \<open>Links\<close>

fun infix_of :: "string \<Rightarrow> string \<Rightarrow> bool" where
  \<comment> \<open>\<open>p in s\<close>\<close>
  "infix_of p [] = (p = [])"
| "infix_of p (c # s) = (startswith (c # s) p \<or> infix_of p s)"

definition hex_val :: "char \<Rightarrow> nat option" where
  "hex_val c = (let n = (of_char c :: nat) in
     if 48 \<le> n \<and> n \<le> 57 then Some (n - 48)
     else if 65 \<le> n \<and> n \<le> 70 then Some (n - 55)
     else if 97 \<le> n \<and> n \<le> 102 then Some (n - 87) else None)"

fun percent_bytes :: "string \<Rightarrow> nat list" where
  "percent_bytes (c # a # b # s) =
     (case (hex_val a, hex_val b) of
        (Some h, Some l) \<Rightarrow> if c = CHR ''%'' then (16 * h + l) # percent_bytes s
                            else of_char c # percent_bytes (a # b # s)
      | _ \<Rightarrow> of_char c # percent_bytes (a # b # s))"
| "percent_bytes (c # s) = of_char c # percent_bytes s"
| "percent_bytes [] = []"

fun unquote_runs :: "(nat list \<Rightarrow> string) \<Rightarrow> string \<Rightarrow> string \<Rightarrow> string" where
  \<comment> \<open>runs of ASCII characters are decoded, the others are kept\<close>
  "unquote_runs decode run [] = (if run = [] then [] else decode (percent_bytes run))"
| "unquote_runs decode run (c # s) =
     (if (of_char c :: nat) < 128 then unquote_runs decode (run @ [c]) s
      else (if run = [] then [] else decode (percent_bytes run)) @ c # unquote_runs decode [] s)"

definition unquote :: "(nat list \<Rightarrow> string) \<Rightarrow> string \<Rightarrow> string" where
  "unquote decode s =
     (let t = map (\<lambda>c. if c = CHR ''+'' then CHR '' '' else c) s
      in if CHR ''%'' \<in> set t then unquote_runs decode [] t else t)"

definition parse_qs :: "(nat list \<Rightarrow> string) \<Rightarrow> string \<Rightarrow> (string \<times> string) list" where
  "parse_qs decode query =
     List.map_filter (\<lambda>item. case partition_on CHR ''='' item of (name, found, v) \<Rightarrow>
         if found \<and> v \<noteq> [] then Some (unquote decode name, unquote decode v) else None)
       (split_on CHR ''&'' query)"

definition url_query :: "net_env \<Rightarrow> string \<Rightarrow> exn + string" where
  "url_query env u =
     sbind (url_parse env u) (\<lambda>_.
       (let rest = snd (url_scheme (clean_url u));
            path = (if take 2 rest = ''//'' then dropWhile (\<lambda>c. c \<notin> set ''/?#'') (drop 2 rest) else rest);
            unfragmented = takeWhile (\<lambda>c. c \<noteq> CHR ''#'') path
        in Inr (snd (snd (partition_on CHR ''?'' unfragmented)))))"

definition message_id_of_url :: "inbound_env \<Rightarrow> string \<Rightarrow> exn + string" where
  \<comment> \<open>\<open>_extract_message_id_from_url\<close>; no id is the empty string\<close>
  "message_id_of_url env u =
     (if \<not> infix_of ''msg='' u then Inr []
      else sbind (url_query (ie_net env) u) (\<lambda>q.
        Inr (case map_of (parse_qs (ie_decode env) q) ''msg'' of None \<Rightarrow> [] | Some v \<Rightarrow> v)))"

section \<open>Quote links in the text\<close>

definition markdown_link :: "string \<Rightarrow> (string \<times> string) option" where
  \<comment> \<open>\<open>\[[^\]]*\]\(([^)]*msg=[^)]*)\)\<close> at the start of the string: the link and the rest\<close>
  "markdown_link s =
     (if s = [] \<or> hd s \<noteq> CHR ''['' then None
      else (case dropWhile (\<lambda>c. c \<noteq> CHR '']'') (tl s) of
        _ # c # r \<Rightarrow>
          (let link = takeWhile (\<lambda>c. c \<noteq> CHR '')'') r; rest = dropWhile (\<lambda>c. c \<noteq> CHR '')'') r
           in if c = CHR ''('' \<and> rest \<noteq> [] \<and> infix_of ''msg='' (py_lower link) then Some (link, tl rest) else None)
      | _ \<Rightarrow> None))"

definition http_prefix :: "string \<Rightarrow> nat option" where
  "http_prefix s = (if startswith (py_lower s) ''http://'' then Some 7
     else if startswith (py_lower s) ''https://'' then Some 8 else None)"

definition bare_link :: "string \<Rightarrow> (string \<times> string) option" where
  \<comment> \<open>\<open>https?://\S*msg=\S+\<close> at the start of the string\<close>
  "bare_link s = (case http_prefix s of
     None \<Rightarrow> None
   | Some n \<Rightarrow>
       (let run = takeWhile (\<lambda>c. \<not> py_isspace c) (drop n s)
        in if infix_of ''msg='' (py_lower (butlast run)) then Some (take n s @ run, drop (n + length run) s) else None))"

definition quote_at :: "string \<Rightarrow> (string \<times> string) option" where
  "quote_at s = (case markdown_link s of Some r \<Rightarrow> Some r | None \<Rightarrow> bare_link s)"

lemma drop_until: "dropWhile P xs = y # ys \<Longrightarrow> length ys < length xs"
  by (metis Suc_le_eq length_Cons length_dropWhile_le)

lemma http_prefix_nonempty: "http_prefix s = Some n \<Longrightarrow> 0 < n \<and> s \<noteq> []"
  by (auto simp: http_prefix_def startswith_def py_lower_def split: if_splits)

lemma quote_at_shorter: "quote_at s = Some (link, rest) \<Longrightarrow> length rest < length s"
proof (unfold quote_at_def, cases "markdown_link s")
  case None
  assume "(case markdown_link s of None \<Rightarrow> bare_link s | Some r \<Rightarrow> Some r) = Some (link, rest)"
  with None show ?thesis
    by (auto simp: bare_link_def Let_def split: option.splits if_splits dest!: http_prefix_nonempty)
next
  case (Some r)
  assume "(case markdown_link s of None \<Rightarrow> bare_link s | Some r \<Rightarrow> Some r) = Some (link, rest)"
  with Some have m: "markdown_link s = Some (link, rest)" by simp
  then obtain c0 s' where s: "s = c0 # s'" by (cases s) (auto simp: markdown_link_def)
  with m obtain a c r' where d: "dropWhile (\<lambda>c. c \<noteq> CHR '']'') s' = a # c # r'"
      and rest: "rest = tl (dropWhile (\<lambda>c. c \<noteq> CHR '')'') r')"
    by (auto simp: markdown_link_def Let_def split: if_splits list.splits)
  have "length rest \<le> length r'"
    unfolding rest by (metis diff_le_self le_trans length_dropWhile_le length_tl)
  with drop_until [OF d] s show ?thesis by simp
qed

function quote_scan :: "string \<Rightarrow> string \<times> string list" where
  \<comment> \<open>the text without the quote links, and the links\<close>
  "quote_scan [] = ([], [])"
| "quote_scan (c # s) = (case quote_at (c # s) of
     Some (link, rest) \<Rightarrow> (case quote_scan rest of (t, ls) \<Rightarrow> (t, link # ls))
   | None \<Rightarrow> (case quote_scan s of (t, ls) \<Rightarrow> (c # t, ls)))"
  by pat_completeness auto
termination
  by (relation "measure length") (auto dest: quote_at_shorter)

definition without_quotes :: "string \<Rightarrow> string" where
  "without_quotes s = py_strip (fst (quote_scan s))"

section \<open>Attachments\<close>

definition attachments_of :: "entry \<Rightarrow> entry list" where
  \<comment> \<open>the dictionaries among the attachments; a single dictionary counts as a list\<close>
  "attachments_of payload = (case dget payload ''attachments'' of
     PDict e \<Rightarrow> [e] | PList xs \<Rightarrow> List.map_filter as_dict xs | _ \<Rightarrow> [])"

definition dicts_of :: "pyval \<Rightarrow> entry list" where
  "dicts_of v = (case v of PList xs \<Rightarrow> List.map_filter as_dict xs | _ \<Rightarrow> [])"

lemma dget_field_smaller: "dget e k = v \<Longrightarrow> v \<noteq> PNone \<Longrightarrow> size v < size (PDict e)"
  by (rule size_dget)

lemma attachments_smaller: "a \<in> set (attachments_of payload) \<Longrightarrow> size (PDict a) < size (PDict payload)"
proof -
  assume a: "a \<in> set (attachments_of payload)"
  show ?thesis
  proof (cases "dget payload ''attachments''")
    case (PList xs)
    with a have "PDict a \<in> set xs" by (auto simp: attachments_of_def List.map_filter_def)
    then have "size (PDict a) \<le> size_list size xs" by (rule size_list_estimation') simp
    with size_dget [OF PList] show ?thesis by simp
  next
    case (PDict e)
    with a size_dget [OF PDict] show ?thesis by (simp add: attachments_of_def)
  qed (use a in \<open>simp_all add: attachments_of_def\<close>)
qed

function has_quote_attachment :: "inbound_env \<Rightarrow> entry list \<Rightarrow> exn + bool" where
  \<comment> \<open>\<open>_payload_has_quote_attachment\<close> on the attachments of a payload\<close>
  "has_quote_attachment env [] = Inr False"
| "has_quote_attachment env (a # as) =
     sbind (message_id_of_url env (raw_str_field a ''message_link'')) (\<lambda>i.
       if i \<noteq> [] then Inr True
       else sbind (has_quote_attachment env (attachments_of a)) (\<lambda>b.
         if b then Inr True else has_quote_attachment env as))"
  by pat_completeness auto

lemma attachments_total:
  "(\<Sum>b \<leftarrow> attachments_of a. size (PDict b)) < size (PDict a)"
proof (cases "dget a ''attachments''")
  case (PList xs)
  have "(\<Sum>b \<leftarrow> List.map_filter as_dict ys. size (PDict b)) \<le> size_list size ys" for ys
  proof (induction ys)
    case (Cons y ys)
    then show ?case by (cases y) (simp_all add: List.map_filter_def)
  qed (simp add: List.map_filter_def)
  from this [of xs] size_dget [OF PList] PList show ?thesis by (simp add: attachments_of_def)
next
  case (PDict e)
  with size_dget [OF PDict] show ?thesis by (simp add: attachments_of_def)
qed (simp_all add: attachments_of_def)

termination has_quote_attachment
proof (relation "measure (\<lambda>(_, as). \<Sum>a \<leftarrow> as. size (PDict a))", goal_cases)
  case (2 env a as i)
  then show ?case using attachments_total [of a] by simp
qed auto

definition quote_url_obj :: "entry \<Rightarrow> bool" where
  "quote_url_obj u =
     ((case dget_or u ''parsedUrl'' (PDict []) of
         PDict p \<Rightarrow> (case dget_or p ''query'' (PDict []) of PDict q \<Rightarrow> truthy (dget q ''msg'') | _ \<Rightarrow> False)
       | _ \<Rightarrow> False) \<or> infix_of ''msg='' (raw_str_field u ''url''))"

definition may_have_quote_contexts :: "inbound_env \<Rightarrow> entry \<Rightarrow> exn + bool" where
  "may_have_quote_contexts env raw =
     sbind (has_quote_attachment env (attachments_of raw)) (\<lambda>b.
       Inr (b \<or> list_ex quote_url_obj (dicts_of (dget raw ''urls'')) \<or> infix_of ''msg='' (raw_str_field raw ''msg'')))"

fun linked_attachments :: "inbound_env \<Rightarrow> entry list \<Rightarrow> exn + (entry \<times> string) list" where
  \<comment> \<open>\<open>_extract_top_level_quote_attachments\<close>\<close>
  "linked_attachments env [] = Inr []"
| "linked_attachments env (a # as) =
     sbind (message_id_of_url env (raw_str_field a ''message_link'')) (\<lambda>i.
       sbind (linked_attachments env as) (\<lambda>rest. Inr (if i \<noteq> [] then (a, i) # rest else rest)))"

section \<open>The message a reply refers to\<close>

fun first_id :: "(string \<Rightarrow> exn + string) \<Rightarrow> string list \<Rightarrow> exn + string" where
  "first_id f [] = Inr []"
| "first_id f (u # us) = sbind (f u) (\<lambda>i. if i \<noteq> [] then Inr i else first_id f us)"

definition url_obj_id :: "inbound_env \<Rightarrow> entry \<Rightarrow> exn + string" where
  "url_obj_id env u =
     (let direct = (case dget_or u ''parsedUrl'' (PDict []) of
          PDict p \<Rightarrow> (case dget_or p ''query'' (PDict []) of
              PDict q \<Rightarrow> (case dget q ''msg'' of PList (v # _) \<Rightarrow> v | PList [] \<Rightarrow> PNone | v \<Rightarrow> v)
            | _ \<Rightarrow> PNone)
        | _ \<Rightarrow> PNone)
      in if truthy direct then Inr (py_str direct) else message_id_of_url env (raw_str_field u ''url''))"

fun first_url_id :: "inbound_env \<Rightarrow> entry list \<Rightarrow> exn + string" where
  "first_url_id env [] = Inr []"
| "first_url_id env (u # us) = sbind (url_obj_id env u) (\<lambda>i. if i \<noteq> [] then Inr i else first_url_id env us)"

definition reply_source_id :: "inbound_env \<Rightarrow> entry \<Rightarrow> exn + (string option \<times> string)" where
  \<comment> \<open>\<open>_extract_reply_source_id\<close>: the id and the text without the links\<close>
  "reply_source_id env raw =
     (let text = raw_str_field raw ''msg'' in
      sbind (first_url_id env (dicts_of (dget raw ''urls''))) (\<lambda>i.
        if i \<noteq> [] then Inr (Some i, without_quotes text)
        else sbind (first_id (message_id_of_url env)
               (map (\<lambda>a. raw_str_field a ''message_link'') (attachments_of raw))) (\<lambda>i.
          if i \<noteq> [] then Inr (Some i, without_quotes text)
          else sbind (first_id (message_id_of_url env) (snd (quote_scan text))) (\<lambda>i.
            if i \<noteq> [] then Inr (Some i, without_quotes text) else Inr (None, text)))))"

section \<open>The quotes in front of a decrypted message\<close>

definition is_blank :: "char \<Rightarrow> bool" where
  "is_blank c = (c = CHR '' '' \<or> c = CHR 0x09)"

definition link_with_id :: "string \<Rightarrow> bool" where
  \<comment> \<open>\<open>https?://[^)\r\n]*[?&]msg=[^)\r\n]+\<close> on a string without brackets and line ends\<close>
  "link_with_id link = (case http_prefix link of
     None \<Rightarrow> False
   | Some n \<Rightarrow> (let r = py_lower (butlast (drop n link)) in infix_of ''?msg='' r \<or> infix_of ''&msg='' r))"

definition line_end :: "string \<Rightarrow> string option" where
  "line_end s = (if startswith s [CHR 0x0D, CHR 0x0A] then Some (drop 2 s)
     else if startswith s [CHR 0x0A] then Some (drop 1 s) else if s = [] then Some [] else None)"

definition prefix_line :: "string \<Rightarrow> (string \<times> string) option" where
  \<comment> \<open>\<open>_E2EE_QUOTE_PREFIX_LINE_PATTERN\<close> at the start of the string: the link and the rest\<close>
  "prefix_line s =
     (case dropWhile is_blank s of
        c # s1 \<Rightarrow>
          if c \<noteq> CHR ''['' then None
          else (let s2 = dropWhile is_blank s1 in
            if \<not> startswith s2 '']('' then None
            else (let link = takeWhile (\<lambda>c. c \<notin> set [CHR '')'', CHR 0x0D, CHR 0x0A]) (drop 2 s2);
                      s3 = dropWhile (\<lambda>c. c \<notin> set [CHR '')'', CHR 0x0D, CHR 0x0A]) (drop 2 s2)
                  in if s3 = [] \<or> hd s3 \<noteq> CHR '')'' \<or> \<not> link_with_id link then None
                     else (case line_end (dropWhile is_blank (tl s3)) of
                         None \<Rightarrow> None | Some rest \<Rightarrow> Some (link, rest))))
      | [] \<Rightarrow> None)"

lemma line_end_le: "line_end s = Some r \<Longrightarrow> length r \<le> length s"
  by (auto simp: line_end_def split: if_splits)

lemma prefix_line_shorter: "prefix_line s = Some (link, rest) \<Longrightarrow> length rest < length s"
proof -
  assume p: "prefix_line s = Some (link, rest)"
  let ?P = "\<lambda>c. c \<notin> set [CHR '')'', CHR 0x0D, CHR 0x0A]"
  from p obtain c s1 where s1: "dropWhile is_blank s = c # s1"
    by (cases "dropWhile is_blank s") (auto simp: prefix_line_def)
  let ?s3 = "dropWhile ?P (drop 2 (dropWhile is_blank s1))"
  from p s1 have "line_end (dropWhile is_blank (tl ?s3)) = Some rest"
    by (auto simp: prefix_line_def Let_def split: if_splits option.splits)
  then have "length rest \<le> length (dropWhile is_blank (tl ?s3))" by (rule line_end_le)
  also have "\<dots> \<le> length ?s3" using length_dropWhile_le [of is_blank "tl ?s3"] by simp
  also have "\<dots> \<le> length s1"
    using length_dropWhile_le [of ?P "drop 2 (dropWhile is_blank s1)"] length_dropWhile_le [of is_blank s1] by simp
  finally show ?thesis using drop_until [OF s1] by simp
qed

function prefix_quotes :: "inbound_env \<Rightarrow> string \<Rightarrow> exn + ((entry \<times> string) list \<times> string)" where
  "prefix_quotes env s = (case prefix_line s of
     None \<Rightarrow> Inr ([], s)
   | Some (link, rest) \<Rightarrow>
       sbind (message_id_of_url env link) (\<lambda>i.
         if i = [] then Inr ([], s)
         else sbind (prefix_quotes env rest) (\<lambda>(qs, r).
           Inr (([(''message_link'', PStr link), (''_rocketcat_e2ee_quote_prefix'', PBool True)], i) # qs, r))))"
  by pat_completeness auto
termination
  by (relation "measure (\<lambda>(_, s). length s)") (auto dest!: prefix_line_shorter simp del: sbind_def)

declare prefix_quotes.simps [simp del]

definition e2ee_prefix :: "inbound_env \<Rightarrow> entry \<Rightarrow> exn + ((entry \<times> string) list \<times> string)" where
  \<comment> \<open>\<open>_extract_e2ee_multi_quote_prefix\<close>\<close>
  "e2ee_prefix env raw =
     (let text = raw_str_field raw ''msg'' in
      if py_lower (raw_str_field raw ''e2e'') \<noteq> ''done'' then Inr ([], text)
      else sbind (prefix_quotes env text) (\<lambda>(qs, rest).
        if length qs < 2 then Inr ([], text)
        else Inr (qs, py_strip (dropWhile (\<lambda>c. c \<in> set [CHR 0x0D, CHR 0x0A]) rest))))"

section \<open>The translation plan\<close>

record plan =
  pl_reply :: "string option"
  pl_quotes :: "(entry \<times> string) list"
  pl_multi :: bool
  pl_has_contexts :: bool \<comment> \<open>was the task that collects quote contexts started\<close>
  pl_text :: string

definition translation_plan :: "inbound_env \<Rightarrow> entry \<Rightarrow> exn + plan" where
  "translation_plan env raw =
     (let text = raw_str_field raw ''msg'' in
      sbind (linked_attachments env (attachments_of raw)) (\<lambda>top.
      sbind (e2ee_prefix env raw) (\<lambda>(prefix, prefix_text).
        (let use_prefix = length top < 2 \<and> 2 \<le> length prefix;
             quotes = (if use_prefix then prefix else top)
         in if 2 \<le> length quotes then
              Inr \<lparr>pl_reply = None, pl_quotes = quotes, pl_multi = True, pl_has_contexts = False,
                   pl_text = (if use_prefix then prefix_text else without_quotes text)\<rparr>
            else sbind (may_have_quote_contexts env raw) (\<lambda>m.
              if m then sbind (reply_source_id env raw) (\<lambda>(r, t).
                Inr \<lparr>pl_reply = r, pl_quotes = quotes, pl_multi = False, pl_has_contexts = True, pl_text = t\<rparr>)
              else Inr \<lparr>pl_reply = None, pl_quotes = quotes, pl_multi = False, pl_has_contexts = False,
                        pl_text = text\<rparr>)))))"

section \<open>Media\<close>

definition media_keys :: "string list" where
  "media_keys = [''_media'', ''media'', ''files'', ''file'', ''fileUpload'', ''type'', ''mimeType'',
     ''contentType'', ''image_url'', ''imageUrl'', ''audio_url'', ''audioUrl'', ''video_url'', ''videoUrl'',
     ''title_link'', ''titleLink'', ''url'', ''path'', ''link'']"

definition dict_field :: "entry \<Rightarrow> string \<Rightarrow> entry" where
  "dict_field e k = (case dget e k of PDict d \<Rightarrow> d | _ \<Rightarrow> [])"

definition image_url_obj :: "entry \<Rightarrow> bool" where
  "image_url_obj u =
     (let meta = dict_field u ''meta''; headers = dict_field u ''headers''
      in startswith (py_str (py_or (py_or (py_or (dget meta ''contentType'') (dget headers ''contentType''))
           (dget headers ''content-type'')) (PStr []))) ''image/'')"

function may_have_media :: "entry list \<Rightarrow> bool" where
  \<comment> \<open>\<open>_payload_may_have_context_media\<close> on a list of payloads\<close>
  "may_have_media [] = False"
| "may_have_media (p # ps) =
     (list_ex (\<lambda>k. truthy (dget p k)) media_keys
      \<or> list_ex image_url_obj (dicts_of (dget p ''urls''))
      \<or> may_have_media (filter (\<lambda>a. \<not> truthy (dget a ''message_link'')) (attachments_of p))
      \<or> may_have_media ps)"
  by pat_completeness auto

lemma filter_total: "(\<Sum>b \<leftarrow> filter P bs. f b) \<le> (\<Sum>b \<leftarrow> bs. f b :: nat)"
  by (induction bs) auto

termination may_have_media
proof (relation "measure (\<lambda>as. \<Sum>a \<leftarrow> as. size (PDict a))", goal_cases)
  case (2 p ps)
  show ?case
    using le_less_trans [OF filter_total attachments_total, of "\<lambda>a. \<not> truthy (dget a ''message_link'')" p] by simp
qed auto

definition context_sender_name :: "inbound_env \<Rightarrow> entry \<Rightarrow> string" where
  "context_sender_name env p =
     (let u = dict_field p ''u'' in
      py_str (py_or (py_or (py_or (py_or (dget p ''author_name'') (dget u ''name'')) (dget u ''username''))
        (dget u ''_id'')) (PStr (lb_unknown (ie_labels env)))))"

definition context_sender_id :: "entry \<Rightarrow> string" where
  "context_sender_id p =
     py_strip (py_str (py_or (py_or (dget (dict_field p ''u'') ''_id'') (dget p ''author_id'')) (PStr [])))"

definition quote_text :: "entry \<Rightarrow> string" where
  "quote_text p = without_quotes (py_str (py_or (py_or (dget p ''text'') (dget p ''msg'')) (PStr [])))"

end
