(* ===== verification/Media_Segments.thy ===== *)
theory Media_Segments
  imports Inbound_Parsing Cq_Codec
begin

text \<open>
  From media descriptors to OneBot segments: \<open>resolve_onebot_media_file_ref\<close>,
  \<open>build_onebot_segment_from_descriptor\<close>, \<open>build_onebot_segments_from_descriptors\<close> and
  \<open>summarize_unsupported_media\<close> of \<open>bridge/media.py\<close>. Publishing a file is the environment.
  A published file is noted in the descriptor itself, so the functions return the descriptor
  beside the segment; a missing segment is the empty dictionary.
\<close>

definition resolve_file_ref :: "inbound_env \<Rightarrow> entry \<Rightarrow> exn + (entry \<times> string)" where
  "resolve_file_ref env media =
     (let ref = py_str (py_or (py_or (dget media ''path'') (dget media ''url'')) (PStr []));
          local_path = str_field media ''path''
      in if ref = [] then Inr (media, [])
         else if local_path \<noteq> [] then
           sbind (ie_publish env local_path (raw_str_field media ''name'') (raw_str_field media ''content_type''))
             (\<lambda>u. Inr (if u \<noteq> [] then AList.update ''url'' (PStr u) media else media, u))
         else Inr (media, ref))"

definition build_segment :: "inbound_env \<Rightarrow> entry \<Rightarrow> string \<Rightarrow> entry" where
  \<comment> \<open>the segment of a descriptor whose file or URL is \<open>ref\<close>\<close>
  "build_segment env media ref =
     (let kind = raw_str_field media ''kind''; name = py_str (py_or (dget media ''name'') (PStr ''attachment''));
          seg = (\<lambda>t d. [(''type'', PStr t), (''data'', PDict d)])
      in if ref = [] then []
         else if kind = ''image'' then seg ''image'' [(''file'', PStr ref)]
         else if kind = ''audio'' then seg ''record'' [(''file'', PStr ref)]
         else if kind = ''video'' then seg ''video'' [(''file'', PStr ref)]
         else if truthy (dget media ''path'')
         then seg ''text'' [(''text'', PStr (lb_encrypted (ie_labels env) @ name))]
         else seg ''file'' [(''url'', PStr ref), (''file_name'', PStr name), (''name'', PStr name)])"

definition media_segment :: "inbound_env \<Rightarrow> entry \<Rightarrow> exn + (entry \<times> entry)" where
  "media_segment env media =
     sbind (resolve_file_ref env media) (\<lambda>(media', ref). Inr (media', build_segment env media' ref))"

definition segment_key :: "entry \<Rightarrow> string \<times> string" where
  \<comment> \<open>the type of a segment and the file or URL it refers to\<close>
  "segment_key seg =
     (let data = (case dget seg ''data'' of PDict d \<Rightarrow> d | _ \<Rightarrow> [])
      in (raw_str_field seg ''type'', py_str (py_or (py_or (dget data ''file'') (dget data ''url'')) (PStr []))))"

fun media_segments_loop :: "inbound_env \<Rightarrow> (string \<times> string) list \<Rightarrow> entry list \<Rightarrow>
    exn + (entry list \<times> pyval list \<times> (string \<times> string) list)" where
  \<comment> \<open>descriptors, segments and the keys seen; a segment without a reference or with a key
    that was seen is skipped\<close>
  "media_segments_loop env seen [] = Inr ([], [], seen)"
| "media_segments_loop env seen (m # ms) =
     sbind (media_segment env m) (\<lambda>(m', seg).
       let key = segment_key seg; skip = (seg = [] \<or> snd key = [] \<or> key \<in> set seen) in
       sbind (media_segments_loop env (if skip then seen else key # seen) ms) (\<lambda>(ms', segs, seen').
         Inr (m' # ms', if skip then segs else PDict seg # segs, seen')))"

definition media_segments :: "inbound_env \<Rightarrow> entry list \<Rightarrow> exn + (entry list \<times> pyval list)" where
  "media_segments env ms =
     sbind (media_segments_loop env [] ms) (\<lambda>(ms', segs, _). Inr (ms', segs))"

definition count_dicts :: "pyval \<Rightarrow> int" where
  "count_dicts v = (case v of PDict _ \<Rightarrow> 1 | PList xs \<Rightarrow> int (length (filter is_dict xs)) | _ \<Rightarrow> 0)"

definition unsupported_media :: "inbound_env \<Rightarrow> entry \<Rightarrow> string" where
  \<comment> \<open>\<open>summarize_unsupported_media\<close>; nothing to report is the empty string\<close>
  "unsupported_media env raw =
     (let attachments = count_dicts (dget raw ''attachments'');
          files = (if truthy (dget raw ''file'') then 1 else 0) +
                  (case dget raw ''files'' of PList xs \<Rightarrow> int (length xs) | _ \<Rightarrow> 0)
      in if attachments = 0 \<and> files = 0 then []
         else lb_unsupported (ie_labels env) @ str_int (attachments + files) @ lb_items (ie_labels env))"

section \<open>Properties of the segments\<close>

text \<open>A segment that is kept refers to a file; a text segment never does.\<close>

lemma built_cases:
  obtains "build_segment env m ref = []"
  | t d where "build_segment env m ref = [(''type'', PStr t), (''data'', PDict d)]" "t \<noteq> ''text''"
  | x where "build_segment env m ref = [(''type'', PStr ''text''), (''data'', PDict [(''text'', PStr x)])]"
proof -
  note b = build_segment_def Let_def
  show thesis
  proof (cases "ref = []")
    case True
    then show thesis by (intro that(1)) (simp add: b)
  next
    case r: False
    show thesis
    proof (cases "raw_str_field m ''kind'' \<in> {''image'', ''audio'', ''video''}")
      case True
      then consider (i) "raw_str_field m ''kind'' = ''image''" | (a) "raw_str_field m ''kind'' = ''audio''"
        | (v) "raw_str_field m ''kind'' = ''video''" by blast
      then show thesis
      proof cases
        case i
        with r show thesis by (intro that(2) [of "''image''" "[(''file'', PStr ref)]"]) (simp_all add: b)
      next
        case a
        with r show thesis by (intro that(2) [of "''record''" "[(''file'', PStr ref)]"]) (simp_all add: b)
      next
        case v
        with r show thesis by (intro that(2) [of "''video''" "[(''file'', PStr ref)]"]) (simp_all add: b)
      qed
    next
      case k: False
      show thesis
      proof (cases "truthy (dget m ''path'')")
        case True
        with r k show thesis by (intro that(3)) (simp add: b)
      next
        case False
        from r k False have "build_segment env m ref = [(''type'', PStr ''file''), (''data'', PDict
            [(''url'', PStr ref), (''file_name'', PStr (py_str (py_or (dget m ''name'') (PStr ''attachment'')))),
             (''name'', PStr (py_str (py_or (dget m ''name'') (PStr ''attachment''))))])]" by (simp add: b)
        then show thesis by (rule that(2)) simp
      qed
    qed
  qed
qed

lemma build_segment_text:
  "dget (build_segment env m ref) ''type'' = PStr ''text'' \<Longrightarrow> snd (segment_key (build_segment env m ref)) = []"
  by (cases env m ref rule: built_cases) (simp_all add: segment_key_def dget_def py_or_def)

lemma media_segment_text:
  assumes "media_segment env m = Inr (m', seg)" "dget seg ''type'' = PStr ''text''"
  shows "snd (segment_key seg) = []"
proof -
  from assms(1) obtain ref where "seg = build_segment env m' ref"
    unfolding media_segment_def by (auto simp: sbind_Inr)
  with assms(2) build_segment_text show ?thesis by simp
qed

lemma media_segments_loop_kept:
  "media_segments_loop env seen ms = Inr (ms', segs, seen') \<Longrightarrow>
   length ms' = length ms \<and> set seen' = set seen \<union> {segment_key seg |seg. PDict seg \<in> set segs} \<and>
   distinct (map (\<lambda>v. segment_key (the (as_dict v))) segs) \<and>
   (\<forall>v \<in> set segs. \<exists>seg. v = PDict seg \<and> seg \<noteq> [] \<and> snd (segment_key seg) \<noteq> [] \<and> segment_key seg \<notin> set seen \<and>
      dget seg ''type'' \<noteq> PStr ''text'')"
proof (induction ms arbitrary: seen ms' segs seen')
  case (Cons m ms)
  from Cons.prems obtain m1 seg where m1: "media_segment env m = Inr (m1, seg)"
    by (cases "media_segment env m") auto
  define skip where "skip = (seg = [] \<or> snd (segment_key seg) = [] \<or> segment_key seg \<in> set seen)"
  let ?seen = "if skip then seen else segment_key seg # seen"
  from Cons.prems m1 have "sbind (media_segments_loop env ?seen ms) (\<lambda>(ms', segs, seen').
      Inr (m1 # ms', if skip then segs else PDict seg # segs, seen')) = Inr (ms', segs, seen')"
    by (simp add: skip_def Let_def)
  then obtain ms2 segs2 where l: "media_segments_loop env ?seen ms = Inr (ms2, segs2, seen')"
    and eq: "ms' = m1 # ms2" "segs = (if skip then segs2 else PDict seg # segs2)"
    by (auto simp: sbind_Inr)
  note ih = Cons.IH [OF l]
  show ?case
  proof (cases skip)
    case True
    with ih eq show ?thesis by auto
  next
    case False
    with media_segment_text [OF m1] have "dget seg ''type'' \<noteq> PStr ''text''" by (auto simp: skip_def)
    with False ih eq show ?thesis by (fastforce simp: skip_def)
  qed
qed simp

end
