(* ===== verification/Inbound_Translator.thy ===== *)
theory Inbound_Translator
  imports Media_Segments Outbound_Translator
begin

text \<open>
  \<open>InboundTranslator\<close> of \<open>bridge/translator_inbound.py\<close>: a Rocket.Chat message becomes a
  OneBot event, the ids it needs are allocated, and the message is stored so that replies to
  it can be resolved and the event can be built again.

  \<^item> While a message is translated the engine is reached through one mutation batch; the state
    of a translation is \<open>inflight\<close>, the batch and the user registry. The \<open>finally\<close> clause
    commits the batch whether the translation returned or raised.
  \<^item> Room lookup, sender registration and quote collection run as concurrent tasks. They work on
    different parts of the state, so they are placed where the code awaits them; \<open>ie_early\<close>
    says whether the sender was registered when an earlier step fails. The branches of a quote
    tree are followed one after the other.
  \<^item> \<open>int(time.time())\<close> is the integer part of \<open>cl_now\<close>. Seconds are computed from
    milliseconds by an exact division. Logging is left out.
\<close>

section \<open>State\<close>

record inflight =
  fl_batch :: batch
  fl_users :: registry

definition on_batch :: "(batch, 'a) action \<Rightarrow> (inflight, 'a) action" where
  "on_batch m f = (case m (fl_batch f) of (r, b) \<Rightarrow> (r, f\<lparr>fl_batch := b\<rparr>))"

definition on_registry :: "(registry, 'a) action \<Rightarrow> (inflight, 'a) action" where
  "on_registry m f = (case m (fl_users f) of (r, g) \<Rightarrow> (r, f\<lparr>fl_users := g\<rparr>))"

definition catching :: "('s, 'a) action \<Rightarrow> ('s, 'a) action \<Rightarrow> ('s, 'a) action" where
  "catching m handler s = (case m s of (Inl e, t) \<Rightarrow> handler t | (Inr x, t) \<Rightarrow> (Inr x, t))"

definition get_or_create_mapping :: "string \<Rightarrow> string \<Rightarrow> (inflight, id_mapping) action" where
  "get_or_create_mapping namespace k = on_batch (batch_get_or_create namespace k)"

definition ensure_user_mapping :: "inbound_env \<Rightarrow> string \<Rightarrow> string \<Rightarrow> string \<Rightarrow> (inflight, id_mapping) action" where
  "ensure_user_mapping env u username nickname =
     bnd (on_registry (ensure_mapping_sync (cl_now env) u
       \<lparr>pf_username = username, pf_nickname = nickname, pf_is_bot = False, pf_synthetic = False\<rparr> None None))
       (\<lambda>r. ret (to_id_mapping r))"

definition time_now :: "inbound_env \<Rightarrow> int" where
  "time_now env = floor (cl_now env)"

section \<open>Labels and lines\<close>

definition room_label :: "inbound_env \<Rightarrow> string \<Rightarrow> string \<Rightarrow> string" where
  "room_label env room_type room_name =
     (if room_type = ''d'' \<or> room_name = [] then [] else lb_room (ie_labels env) @ room_name @ '']'')"

definition media_brief :: "inbound_env \<Rightarrow> entry list \<Rightarrow> string" where
  "media_brief env media = intercalate '' '' (map (\<lambda>item.
     let kind = py_str (py_or (dget item ''kind'') (PStr ''file''));
         name = py_str (py_or (dget item ''name'') (PStr ''attachment''));
         lb = ie_labels env
     in (if kind = ''image'' then lb_image lb else if kind = ''audio'' then lb_audio lb
         else if kind = ''video'' then lb_video lb else lb_file lb) @ name @ '']'') media)"

definition message_content :: "inbound_env \<Rightarrow> string \<Rightarrow> string list \<Rightarrow> entry list \<Rightarrow> string" where
  "message_content env message_text names media =
     (let prefix = intercalate '' '' (map (\<lambda>n. ''@'' @ n) (filter (\<lambda>n. n \<noteq> []) names));
          text = (if prefix = [] then py_strip message_text
                  else intercalate '' '' (filter (\<lambda>p. p \<noteq> []) [py_strip prefix, py_strip message_text]));
          media_text = media_brief env media
      in if text \<noteq> [] \<and> media_text \<noteq> [] then text @ '' '' @ media_text
         else if text \<noteq> [] then text
         else if media_text \<noteq> [] then media_text else lb_no_text (ie_labels env))"

definition current_line :: "inbound_env \<Rightarrow> string \<Rightarrow> string \<Rightarrow> string \<Rightarrow> string list \<Rightarrow> entry list \<Rightarrow> string" where
  "current_line env label sender_name message_text names media =
     (let content = message_content env message_text names media; lb = ie_labels env in
      if label \<noteq> [] then label @ lb_colon lb @ (if sender_name = [] then lb_unknown lb else sender_name) @ lb_colon lb @ content
      else content)"

definition context_line :: "inbound_env \<Rightarrow> entry \<Rightarrow> string" where
  "context_line env context =
     py_str (py_or (dget context ''sender_name'') (PStr (lb_unknown (ie_labels env)))) @ lb_colon (ie_labels env)
       @ message_content env (raw_str_field context ''text'') [] (dicts_of (dget context ''media''))"

fun context_lines :: "inbound_env \<Rightarrow> entry list \<Rightarrow> string list" where
  "context_lines env [] = []"
| "context_lines env (c # cs) =
     (''    '' @ context_line env c @ (if cs \<noteq> [] then lb_follows (ie_labels env) else [])) # context_lines env cs"

definition context_block :: "inbound_env \<Rightarrow> entry list \<Rightarrow> string" where
  "context_block env contexts =
     (if contexts = [] then []
      else lb_history (ie_labels env) @ [CHR 0x0A] @ intercalate [CHR 0x0A] (context_lines env contexts) @ [CHR 0x0A, CHR '']''])"

definition group_context_id :: "inbound_env \<Rightarrow> string \<Rightarrow> string \<Rightarrow> string" where
  "group_context_id env room_type room_id =
     (if room_type = ''d'' then []
      else (let u = py_rstrip_char CHR ''/'' (ie_server_url env); server = (if u = [] then ''default'' else u)
            in if ie_isolated env then ''rocketchat-room-context::'' @ server @ ''::'' @ room_id
               else ''rocketchat-group-context::'' @ server))"

definition timestamp_of :: "inbound_env \<Rightarrow> entry \<Rightarrow> exn + int" where
  "timestamp_of env raw = (case dget raw ''ts'' of
     PDict ts \<Rightarrow>
       if has_key ts ''$date''
       then sbind (py_int (dget ts ''$date'')) (\<lambda>n. Inr (if 0 \<le> n then n div 1000 else - ((- n) div 1000)))
       else Inr (time_now env)
   | _ \<Rightarrow> Inr (time_now env))"

section \<open>Mentions\<close>

fun find_at :: "string \<Rightarrow> string \<Rightarrow> nat option" where
  \<comment> \<open>\<open>s.find(p)\<close> for a non-empty \<open>p\<close>\<close>
  "find_at p [] = None"
| "find_at p (c # s) = (if startswith (c # s) p then Some 0 else map_option Suc (find_at p s))"

record mention_acc =
  ma_segments :: "pyval list"
  ma_text :: string
  ma_unmatched :: "pyval list"
  ma_meta :: "pyval list"
  ma_rest :: string \<comment> \<open>the text behind the cursor\<close>

definition mention_segment :: "inbound_env \<Rightarrow> entry \<Rightarrow> (inflight, entry) action" where
  "mention_segment env m =
     (let i = py_str (dget m ''_id''); username = dget m ''username'';
          name = py_or (py_or (dget m ''name'') username) (PStr i)
      in bnd (if i = cl_user_id env then ret (str_int (cl_self_id env))
              else bnd (ensure_user_mapping env i (py_str (py_or username (PStr []))) (py_str (py_or name (PStr []))))
                     (\<lambda>im. ret (str_int (im_surrogate_id im))))
          (\<lambda>qq. ret [(''type'', PStr ''at''), (''data'', PDict [(''qq'', PStr qq), (''name'', name)])]))"

definition append_text :: "pyval list \<Rightarrow> string \<Rightarrow> pyval list" where
  "append_text segs t = (if py_strip t = [] then segs else segs @ [text_segment t])"

definition place_mention :: "entry \<Rightarrow> entry \<Rightarrow> mention_acc \<Rightarrow> mention_acc" where
  "place_mention m seg a =
     (let data = dict_field seg ''data'';
          meta = PDict [(''source_id'', PStr (py_str (dget m ''_id''))),
                        (''username'', PStr (raw_str_field m ''username'')),
                        (''name'', PStr (py_str (py_or (py_or (dget m ''name'') (dget data ''name'')) (dget m ''_id'')))),
                        (''qq'', PStr (raw_str_field data ''qq''))];
          a = a\<lparr>ma_meta := ma_meta a @ [meta]\<rparr>;
          token = (if truthy (dget m ''username'') then ''@'' @ py_str (dget m ''username'') else []);
          unmatched = a\<lparr>ma_unmatched := ma_unmatched a @ [PDict seg]\<rparr>
      in if token = [] then unmatched
         else case find_at token (ma_rest a) of
           None \<Rightarrow> unmatched
         | Some n \<Rightarrow> a\<lparr>ma_segments := append_text (ma_segments a) (take n (ma_rest a)) @ [PDict seg],
             ma_text := ma_text a @ take n (ma_rest a), ma_rest := drop (n + length token) (ma_rest a)\<rparr>)"

primrec mentions_loop :: "inbound_env \<Rightarrow> entry list \<Rightarrow> mention_acc \<Rightarrow> (inflight, mention_acc) action" where
  "mentions_loop env [] a = ret a"
| "mentions_loop env (m # ms) a =
     (if \<not> truthy (dget m ''_id'') then mentions_loop env ms a
      else bnd (mention_segment env m) (\<lambda>seg. mentions_loop env ms (place_mention m seg a)))"

definition finish_mentions :: "mention_acc \<Rightarrow> pyval list \<times> string \<times> pyval list" where
  "finish_mentions a =
     (append_text (ma_segments a) (ma_rest a) @ ma_unmatched a, py_strip (ma_text a @ ma_rest a), ma_meta a)"

definition build_mentions :: "inbound_env \<Rightarrow> entry \<Rightarrow> string \<Rightarrow> (inflight, pyval list \<times> string \<times> pyval list) action" where
  "build_mentions env raw text =
     (case dget raw ''mentions'' of
        PList (x # xs) \<Rightarrow>
          bnd (mentions_loop env (List.map_filter as_dict (x # xs))
             \<lparr>ma_segments = [], ma_text = [], ma_unmatched = [], ma_meta = [], ma_rest = text\<rparr>)
            (\<lambda>a. ret (finish_mentions a))
      | _ \<Rightarrow> (let s = py_strip text in ret (if s = [] then [] else [text_segment s], s, [])))"

section \<open>Quoted messages\<close>

definition max_quote_depth :: nat where
  "max_quote_depth = 2"

definition quote_entry :: "inbound_env \<Rightarrow> entry \<Rightarrow> string \<Rightarrow> nat \<Rightarrow> exn + entry" where
  "quote_entry env payload source_id depth =
     sbind (if may_have_media [payload] then ie_media env payload else Inr []) (\<lambda>media.
       Inr [(''depth'', PInt (int depth)), (''source_id'', PStr source_id),
            (''sender_name'', PStr (context_sender_name env payload)), (''text'', PStr (quote_text payload)),
            (''media'', PList (map PDict media))])"

fun claim_quotes :: "inbound_env \<Rightarrow> entry list \<Rightarrow> string list \<Rightarrow> exn + ((entry \<times> string) list \<times> string list)" where
  \<comment> \<open>the attachments that quote a message not visited yet\<close>
  "claim_quotes env [] visited = Inr ([], visited)"
| "claim_quotes env (a # as) visited =
     sbind (message_id_of_url env (raw_str_field a ''message_link'')) (\<lambda>i.
       if i = [] \<or> i \<in> set visited then claim_quotes env as visited
       else sbind (claim_quotes env as (i # visited)) (\<lambda>(qs, v). Inr ((a, i) # qs, v)))"

primrec quote_branches :: "(entry \<times> string \<Rightarrow> string list \<Rightarrow> exn + (entry list \<times> string list)) \<Rightarrow>
    (entry \<times> string) list \<Rightarrow> string list \<Rightarrow> exn + (entry list \<times> string list)" where
  "quote_branches branch [] visited = Inr ([], visited)"
| "quote_branches branch (q # qs) visited =
     sbind (branch q visited) (\<lambda>(cs, v). sbind (quote_branches branch qs v) (\<lambda>(ds, w). Inr (cs @ ds, w)))"

primrec collect_quotes :: "nat \<Rightarrow> inbound_env \<Rightarrow> entry \<Rightarrow> string list \<Rightarrow> exn + (entry list \<times> string list)" where
  \<comment> \<open>the first argument counts the levels left, \<open>max_depth + 1 - depth\<close>\<close>
  "collect_quotes 0 env payload visited = Inr ([], visited)"
| "collect_quotes (Suc n) env payload visited =
     sbind (claim_quotes env (attachments_of payload) visited) (\<lambda>(qs, v).
       quote_branches (\<lambda>(a, i) w.
         sbind (quote_entry env a i (max_quote_depth - n)) (\<lambda>e.
           sbind (collect_quotes n env a w) (\<lambda>(cs, w'). Inr (e # cs, w')))) qs v)"

definition quotes_of_message :: "inbound_env \<Rightarrow> string \<Rightarrow> string list \<Rightarrow> exn + entry list" where
  "quotes_of_message env source_id visited =
     (if source_id \<in> set visited then Inr []
      else sbind (ie_fetch env source_id) (\<lambda>raw.
        if raw = [] then Inr []
        else sbind (quote_entry env raw source_id 1) (\<lambda>e.
          sbind (collect_quotes (max_quote_depth - 1) env raw (source_id # visited)) (\<lambda>(cs, _). Inr (e # cs)))))"

definition quote_contexts :: "inbound_env \<Rightarrow> entry \<Rightarrow> string option \<Rightarrow> exn + entry list" where
  "quote_contexts env raw reply =
     sbind (collect_quotes max_quote_depth env raw []) (\<lambda>(cs, visited).
       if cs \<noteq> [] then Inr cs
       else case reply of None \<Rightarrow> Inr []
         | Some r \<Rightarrow> if r = [] then Inr [] else quotes_of_message env r visited)"

fun quote_media_loop :: "inbound_env \<Rightarrow> (string \<times> string) list \<Rightarrow> entry list \<Rightarrow> exn + (entry list \<times> pyval list)" where
  \<comment> \<open>\<open>_build_quote_media_segments\<close>: the contexts with their descriptors as they are afterwards,
    and the segments\<close>
  "quote_media_loop env seen [] = Inr ([], [])"
| "quote_media_loop env seen (c # cs) =
     sbind (int_field c ''depth'') (\<lambda>d.
       if d \<le> 0 \<or> int max_quote_depth < d
       then sbind (quote_media_loop env seen cs) (\<lambda>(cs', segs). Inr (c # cs', segs))
       else sbind (media_segments_loop env seen (dicts_of (dget c ''media''))) (\<lambda>(ms, segs, seen').
         sbind (quote_media_loop env seen' cs) (\<lambda>(cs', segs').
           Inr (AList.update ''media'' (PList (map PDict ms)) c # cs', segs @ segs'))))"

section \<open>Several quotes at once\<close>

definition unreadable_segments :: "inbound_env \<Rightarrow> pyval list" where
  "unreadable_segments env = [text_segment (lb_unreadable (ie_labels env))]"

definition fetch_quoted :: "inbound_env \<Rightarrow> string \<Rightarrow> entry" where
  \<comment> \<open>\<open>_fetch_multi_quote_source_message\<close>: an error counts as not found\<close>
  "fetch_quoted env source_id = (case ie_fetch env source_id of Inl _ \<Rightarrow> [] | Inr e \<Rightarrow> e)"

definition quoted_payload :: "inbound_env \<Rightarrow> entry \<times> string \<Rightarrow> entry" where
  "quoted_payload env q = (let e = fetch_quoted env (snd q) in if e = [] then fst q else e)"

fun quoted_users :: "inbound_env \<Rightarrow> string list \<Rightarrow> entry list \<Rightarrow> entry list" where
  "quoted_users env seen [] = []"
| "quoted_users env seen (p # ps) =
     (let s = context_sender_id p; u = dict_field p ''u'' in
      if s = [] \<or> s = cl_user_id env \<or> s \<in> set seen then quoted_users env seen ps
      else [(''user_id'', PStr s), (''username'', PStr (raw_str_field u ''username'')),
            (''nickname'', PStr (py_str (py_or (dget u ''name'') (PStr (context_sender_name env p)))))]
        # quoted_users env (s # seen) ps)"

definition ensure_quoted_users :: "inbound_env \<Rightarrow> entry list \<Rightarrow> (inflight, (string \<times> id_mapping) list) action" where
  "ensure_quoted_users env items =
     (if items = [] then ret []
      else bnd (on_registry (ensure_mappings_sync (cl_now env) items None)) (\<lambda>rs.
        ret (fold (\<lambda>r. AList.update (ur_user_id r) (to_id_mapping r)) rs [])))"

definition quote_node :: "int \<Rightarrow> string \<Rightarrow> int \<Rightarrow> pyval list \<Rightarrow> entry" where
  "quote_node user name t segs =
     [(''sender'', PDict [(''user_id'', PInt user), (''nickname'', PStr name), (''card'', PStr name)]),
      (''time'', PInt t), (''message'', PList segs)]"

definition quote_context :: "string \<Rightarrow> string \<Rightarrow> int \<Rightarrow> string \<Rightarrow> string \<Rightarrow> entry list \<Rightarrow> entry" where
  "quote_context source_id sender_id sender name text media =
     [(''depth'', PInt 1), (''source_id'', PStr source_id), (''sender_source_id'', PStr sender_id),
      (''sender_surrogate_id'', PInt sender), (''sender_name'', PStr name), (''text'', PStr text),
      (''media'', PList (map PDict media))]"

definition quote_sender :: "inbound_env \<Rightarrow> entry \<Rightarrow> (string \<times> id_mapping) list \<Rightarrow> (inflight, int) action" where
  "quote_sender env p mapped =
     (let s = context_sender_id p; u = dict_field p ''u''; name = context_sender_name env p in
      if s = [] then ret 0
      else if s = cl_user_id env then ret (cl_self_id env)
      else case map_of mapped s of
        Some m \<Rightarrow> ret (im_surrogate_id m)
      | None \<Rightarrow> bnd (ensure_user_mapping env s (raw_str_field u ''username'')
                     (py_str (py_or (dget u ''name'') (PStr name)))) (\<lambda>m. ret (im_surrogate_id m)))"

definition quote_snapshot :: "inbound_env \<Rightarrow> entry \<Rightarrow> string \<Rightarrow> (string \<times> id_mapping) list \<Rightarrow>
    (inflight, entry \<times> entry) action" where
  "quote_snapshot env p source_id mapped =
     bnd (quote_sender env p mapped) (\<lambda>sender.
     bnd (lift_exn (ie_media env p)) (\<lambda>media.
     bnd (lift_exn (media_segments env media)) (\<lambda>(media, segs).
       let name = context_sender_name env p; text = quote_text p;
           message = (if text = [] then [] else [text_segment text]) @ segs
       in bnd (lift_exn (timestamp_of env p)) (\<lambda>t.
         ret (quote_node sender name t (if message = [] then unreadable_segments env else message),
              quote_context source_id (context_sender_id p) sender name text media)))))"

definition quote_placeholder :: "inbound_env \<Rightarrow> entry \<Rightarrow> string \<Rightarrow> entry \<times> entry" where
  "quote_placeholder env p source_id =
     (let name = context_sender_name env p in
      (quote_node 0 name (time_now env) (unreadable_segments env),
       quote_context source_id [] 0 name (lb_unreadable (ie_labels env)) []))"

primrec quote_snapshots :: "inbound_env \<Rightarrow> (string \<times> id_mapping) list \<Rightarrow> (entry \<times> string) list \<Rightarrow>
    (inflight, (entry \<times> entry \<times> bool) list) action" where
  \<comment> \<open>node, context and whether the attachment had to do\<close>
  "quote_snapshots env mapped [] = ret []"
| "quote_snapshots env mapped (q # qs) =
     (let p = quoted_payload env q in
      bnd (catching (quote_snapshot env p (snd q) mapped) (ret (quote_placeholder env p (snd q)))) (\<lambda>(node, context).
      bnd (quote_snapshots env mapped qs) (\<lambda>rest.
        ret ((node, context, fetch_quoted env (snd q) = []) # rest))))"

definition multi_quotes :: "inbound_env \<Rightarrow> (entry \<times> string) list \<Rightarrow>
    (inflight, (entry \<times> entry \<times> bool) list) action" where
  "multi_quotes env qs =
     bnd (ensure_quoted_users env (quoted_users env [] (map (quoted_payload env) qs)))
       (\<lambda>mapped. quote_snapshots env mapped qs)"

section \<open>Events\<close>

text \<open>The parts of a translated message, named as the variables of \<open>translate\<close>.\<close>

record message_parts =
  mp_timestamp :: int
  mp_room_type :: string
  mp_message :: int
  mp_sender :: int
  mp_sender_name :: pyval
  mp_sender_username :: string
  mp_sender_source :: string
  mp_source :: string
  mp_segments :: "pyval list"
  mp_input_text :: string
  mp_text :: string
  mp_meta :: "pyval list"
  mp_contexts :: "entry list"
  mp_quote_media :: "pyval list"
  mp_line :: string
  mp_reply :: "string option"
  mp_reply_ids :: "string list"
  mp_room :: string
  mp_room_name :: string
  mp_room_slug :: string
  mp_room_label :: string
  mp_room_id :: int
  mp_context :: string
  mp_context_id :: "int option"
  mp_thread :: string

definition opt_str :: "string option \<Rightarrow> pyval" where
  "opt_str r = (case r of None \<Rightarrow> PNone | Some s \<Rightarrow> PStr s)"

definition opt_int :: "int option \<Rightarrow> pyval" where
  "opt_int r = (case r of None \<Rightarrow> PNone | Some n \<Rightarrow> PInt n)"

definition direct_reply :: "entry list \<Rightarrow> entry" where
  "direct_reply contexts = (case contexts of [] \<Rightarrow> [] | c # _ \<Rightarrow> c)"

definition raw_message_of :: "message_parts \<Rightarrow> string" where
  "raw_message_of p = (if mp_input_text p \<noteq> [] then mp_input_text p else mp_text p)"

definition inbound_event :: "inbound_env \<Rightarrow> message_parts \<Rightarrow> entry" where
  "inbound_event env p = (let direct = direct_reply (mp_contexts p) in
     [(''time'', PInt (mp_timestamp p)), (''self_id'', PInt (cl_self_id env)), (''post_type'', PStr ''message''),
      (''message_type'', PStr (if mp_room_type p = ''d'' then ''private'' else ''group'')),
      (''sub_type'', PStr (if mp_room_type p = ''d'' then ''friend'' else ''normal'')),
      (''message_id'', PInt (mp_message p)), (''user_id'', PInt (mp_sender p)),
      (''message'', PList (mp_segments p)), (''raw_message'', PStr (raw_message_of p)), (''font'', PInt 0),
      (''sender'', PDict [(''user_id'', PInt (mp_sender p)), (''nickname'', mp_sender_name p), (''card'', mp_sender_name p)]),
      (''message_format'', PStr ''array''),
      (''rocketchat_sender_name'', mp_sender_name p),
      (''rocketchat_sender_username'', PStr (mp_sender_username p)),
      (''rocketchat_sender_source_id'', PStr (mp_sender_source p)),
      (''rocketchat_sender_surrogate_id'', PInt (mp_sender p)),
      (''rocketchat_mentions'', PList (mp_meta p)),
      (''rocketchat_quote_contexts'', PList (map PDict (mp_contexts p))),
      (''rocketchat_quote_context_text'', PStr (context_block env (mp_contexts p))),
      (''rocketchat_current_message_input_text'', PStr (mp_input_text p)),
      (''rocketchat_quote_media_segments'', PList (mp_quote_media p)),
      (''rocketchat_current_message_text'', PStr (mp_text p)),
      (''rocketchat_current_message_line'', PStr (mp_line p)),
      (''rocketchat_reply_source_id'', opt_str (mp_reply p)),
      (''rocketchat_reply_source_ids'', PList (map PStr (mp_reply_ids p))),
      (''rocketchat_reply_sender_name'', PStr (raw_str_field direct ''sender_name'')),
      (''rocketchat_reply_message_text'', PStr (raw_str_field direct ''text'')),
      (''rocketchat_room_source_id'', PStr (mp_room p)), (''rocketchat_room_name'', PStr (mp_room_name p)),
      (''rocketchat_room_slug'', PStr (mp_room_slug p)), (''rocketchat_room_label'', PStr (mp_room_label p)),
      (''rocketchat_room_surrogate_id'', PInt (mp_room_id p)),
      (''rocketchat_context_source_id'', PStr (mp_context p)),
      (''rocketchat_context_group_id'', opt_int (mp_context_id p)),
      (''rocketchat_thread_source_id'', PStr (mp_thread p))]
     @ (if mp_room_type p = ''d'' then []
        else [(''group_id'', PInt (case mp_context_id p of Some g \<Rightarrow> g | None \<Rightarrow> mp_room_id p)),
              (''group_name'', PStr (mp_room_name p))]))"

definition stored_entry :: "inbound_env \<Rightarrow> message_parts \<Rightarrow> entry" where
  \<comment> \<open>the entry that \<open>_persist_translated_event\<close> stores\<close>
  "stored_entry env p = (let direct = direct_reply (mp_contexts p); event = inbound_event env p in
     [(''source_id'', PStr (mp_source p)), (''surrogate_id'', PInt (mp_message p)),
      (''room_source_id'', PStr (mp_room p)), (''room_surrogate_id'', PInt (mp_room_id p)),
      (''room_type'', PStr (mp_room_type p)), (''room_name'', PStr (mp_room_name p)),
      (''room_slug'', PStr (mp_room_slug p)), (''context_source_id'', PStr (mp_context p)),
      (''context_surrogate_id'', opt_int (mp_context_id p)),
      (''sender_source_id'', PStr (mp_sender_source p)), (''sender_surrogate_id'', PInt (mp_sender p)),
      (''sender_name'', mp_sender_name p), (''sender_username'', PStr (mp_sender_username p)),
      (''mention_metadata'', PList (mp_meta p)), (''input_text'', PStr (mp_input_text p)),
      (''text'', PStr (mp_text p)), (''quote_contexts'', PList (map PDict (mp_contexts p))),
      (''quote_context_text'', PStr (context_block env (mp_contexts p))),
      (''reply_sender_name'', PStr (raw_str_field direct ''sender_name'')),
      (''reply_message_text'', PStr (raw_str_field direct ''text'')),
      (''timestamp'', PInt (mp_timestamp p)), (''onebot_message_segments'', PList (mp_segments p)),
      (''raw_message'', PStr (raw_message_of p)), (''self_id'', PInt (cl_self_id env)),
      (''reply_source_id'', opt_str (mp_reply p)),
      (''reply_source_ids'', PList (map PStr (mp_reply_ids p))),
      (''quote_media_segments'', PList (mp_quote_media p)), (''current_message_line'', PStr (mp_line p)),
      (''room_label'', PStr (mp_room_label p)), (''group_id'', dget event ''group_id''),
      (''group_name'', dget event ''group_name''), (''thread_source_id'', PStr (mp_thread p))])"

definition fallback_entry :: "inbound_env \<Rightarrow> message_parts \<Rightarrow> string \<Rightarrow> int \<Rightarrow> entry \<Rightarrow> entry \<Rightarrow> exn + entry" where
  \<comment> \<open>\<open>_put_multi_quote_fallback_entry\<close>: a quoted message known from its attachment only\<close>
  "fallback_entry env p source_id surrogate node context =
     (let sender = dict_field node ''sender''; text = raw_str_field context ''text'';
          name = py_str (py_or (py_or (py_or (dget sender ''nickname'') (dget context ''sender_name''))
                   (dget context ''sender_source_id'')) (PStr source_id));
          event = inbound_event env p
      in sbind (int_field sender ''user_id'') (\<lambda>user.
         sbind (py_int (py_or (dget node ''time'') (PInt (time_now env)))) (\<lambda>t. Inr
     [(''source_id'', PStr source_id), (''surrogate_id'', PInt surrogate),
      (''room_source_id'', PStr (mp_room p)), (''room_surrogate_id'', PInt (mp_room_id p)),
      (''room_type'', PStr (mp_room_type p)), (''room_name'', PStr (mp_room_name p)),
      (''room_slug'', PStr (mp_room_slug p)), (''room_label'', PStr (mp_room_label p)),
      (''context_source_id'', PStr (mp_context p)), (''context_surrogate_id'', opt_int (mp_context_id p)),
      (''sender_source_id'', PStr (raw_str_field context ''sender_source_id'')),
      (''sender_surrogate_id'', PInt user), (''sender_name'', PStr name), (''sender_username'', PStr []),
      (''mention_metadata'', PList []), (''input_text'', PStr text), (''text'', PStr text),
      (''quote_contexts'', PList []), (''quote_context_text'', PStr []), (''reply_sender_name'', PStr []),
      (''reply_message_text'', PStr []), (''timestamp'', PInt t),
      (''onebot_message_segments'', py_or (dget node ''message'') (PList [])), (''raw_message'', PStr text),
      (''self_id'', PInt (cl_self_id env)), (''reply_source_id'', PNone), (''reply_source_ids'', PList []),
      (''quote_media_segments'', PList []),
      (''current_message_line'', PStr (current_line env (mp_room_label p) name text [] (dicts_of (dget context ''media'')))),
      (''group_id'', dget event ''group_id''), (''group_name'', dget event ''group_name''),
      (''thread_source_id'', PStr []), (''multi_quote_snapshot_fallback'', PBool True)])))"

section \<open>Translation\<close>

text \<open>What is known once the ids are allocated, the rooms looked up and the media extracted.\<close>

record prepared =
  pr_media :: "entry list"
  pr_room_info :: entry
  pr_room :: int
  pr_sender :: int
  pr_quoted :: "int list"
  pr_message :: int
  pr_context_id :: "int option"

definition room_type_of :: "entry \<Rightarrow> string" where
  "room_type_of info = py_str (py_or (dget info ''t'') (PStr ''c''))"

definition room_name_of :: "entry \<Rightarrow> string \<Rightarrow> string" where
  "room_name_of info room_id = py_str (py_or (py_or (dget info ''fname'') (dget info ''name'')) (PStr room_id))"

definition room_slug_of :: "entry \<Rightarrow> string \<Rightarrow> string" where
  "room_slug_of info room_id = py_str (py_or (py_or (dget info ''name'') (dget info ''fname'')) (PStr room_id))"

definition sender_name_of :: "entry \<Rightarrow> pyval" where
  "sender_name_of sender =
     py_or (py_or (dget sender ''name'') (dget sender ''username'')) (PStr (raw_str_field sender ''_id''))"

definition register_sender :: "inbound_env \<Rightarrow> entry \<Rightarrow> (inflight, id_mapping) action" where
  "register_sender env sender =
     ensure_user_mapping env (raw_str_field sender ''_id'') (raw_str_field sender ''username'') (raw_str_field sender ''name'')"

definition awaiting :: "inbound_env \<Rightarrow> entry \<Rightarrow> exn + 'a \<Rightarrow> (inflight, 'a) action" where
  \<comment> \<open>a step awaited while the sender is being registered\<close>
  "awaiting env sender r = (case r of
     Inr x \<Rightarrow> ret x
   | Inl e \<Rightarrow> bnd (if ie_early env then catching (bnd (register_sender env sender) (\<lambda>_. ret ())) (ret ()) else ret ())
                 (\<lambda>_. raise_exn e))"

primrec quoted_ids :: "string list \<Rightarrow> (inflight, int list) action" where
  "quoted_ids [] = ret []"
| "quoted_ids (k # ks) =
     bnd (get_or_create_mapping ''message'' k) (\<lambda>m. bnd (quoted_ids ks) (\<lambda>is. ret (im_surrogate_id m # is)))"

definition context_surrogate :: "inbound_env \<Rightarrow> string \<Rightarrow> string \<Rightarrow> int \<Rightarrow> (inflight, int option) action" where
  "context_surrogate env room_type context room =
     (if room_type = ''d'' \<or> context = [] then ret None
      else if ie_isolated env then ret (Some room)
      else bnd (get_or_create_mapping ''context'' context) (\<lambda>m. ret (Some (im_surrogate_id m))))"

definition prepare :: "inbound_env \<Rightarrow> entry \<Rightarrow> entry \<Rightarrow> plan \<Rightarrow> (inflight, prepared) action" where
  "prepare env raw sender pl =
     (let room_id = raw_str_field raw ''rid'' in
      bnd (awaiting env sender (if may_have_media [raw] then ie_media env raw else Inr [])) (\<lambda>media.
      bnd (awaiting env sender (cl_room_info env room_id)) (\<lambda>info.
      bnd (get_or_create_mapping ''room'' room_id) (\<lambda>room.
      bnd (register_sender env sender) (\<lambda>user.
      bnd (if pl_multi pl then quoted_ids (map snd (pl_quotes pl)) else ret []) (\<lambda>quoted.
      bnd (get_or_create_mapping ''message'' (raw_str_field raw ''_id'')) (\<lambda>message.
      bnd (context_surrogate env (room_type_of info) (group_context_id env (room_type_of info) room_id)
             (im_surrogate_id room)) (\<lambda>ctx.
        ret \<lparr>pr_media = media, pr_room_info = info, pr_room = im_surrogate_id room, pr_sender = im_surrogate_id user,
             pr_quoted = quoted, pr_message = im_surrogate_id message, pr_context_id = ctx\<rparr>))))))))"

definition bind_rooms :: "inbound_env \<Rightarrow> entry \<Rightarrow> entry \<Rightarrow> prepared \<Rightarrow> int \<Rightarrow> (inflight, unit) action" where
  "bind_rooms env raw sender pr timestamp =
     (let room_id = raw_str_field raw ''rid''; info = pr_room_info pr; t = room_type_of info in
      if t = ''d'' then on_batch (batch_bind_private (raw_str_field sender ''_id'') (pr_sender pr) room_id)
      else case pr_context_id pr of
        None \<Rightarrow> ret ()
      | Some g \<Rightarrow> on_batch (batch_bind_context \<lparr>ca_source = group_context_id env t room_id, ca_surrogate = PInt g,
          ca_room_source = room_id, ca_room_surrogate = PInt (pr_room pr),
          ca_room_name = room_name_of info room_id, ca_room_slug = room_slug_of info room_id,
          ca_thread = str_field raw ''tmid'', ca_timestamp = Some (PInt timestamp)\<rparr>))"

definition quotes_of :: "inbound_env \<Rightarrow> entry \<Rightarrow> plan \<Rightarrow> (inflight, (entry \<times> entry \<times> bool) list \<times> entry list) action" where
  \<comment> \<open>the snapshots of several quotes and the quote contexts\<close>
  "quotes_of env raw pl =
     (if pl_multi pl then bnd (multi_quotes env (pl_quotes pl)) (\<lambda>qs. ret (qs, map (\<lambda>(_, c, _). c) qs))
      else if pl_has_contexts pl then bnd (lift_exn (quote_contexts env raw (pl_reply pl))) (\<lambda>cs. ret ([], cs))
      else ret ([], []))"

definition reply_segment :: "int \<Rightarrow> pyval" where
  "reply_segment i = cq_segment ''reply'' [(''id'', PStr (str_int i))]"

definition reply_segments :: "plan \<Rightarrow> prepared \<Rightarrow> (inflight, pyval list) action" where
  "reply_segments pl pr =
     (if pr_quoted pr \<noteq> [] then ret (map reply_segment (pr_quoted pr))
      else case pl_reply pl of
        None \<Rightarrow> ret []
      | Some r \<Rightarrow> if r = [] then ret []
          else bnd (get_or_create_mapping ''message'' r) (\<lambda>m. ret [reply_segment (im_surrogate_id m)]))"

definition mention_names :: "pyval list \<Rightarrow> string list" where
  "mention_names meta = filter (\<lambda>n. n \<noteq> []) (map (\<lambda>v. raw_str_field (the (as_dict v)) ''name'') meta)"

definition message_parts_of :: "inbound_env \<Rightarrow> entry \<Rightarrow> entry \<Rightarrow> plan \<Rightarrow> prepared \<Rightarrow> int \<Rightarrow>
    (inflight, message_parts \<times> (entry \<times> entry \<times> bool) list) action" where
  "message_parts_of env raw sender pl pr timestamp =
     (let room_id = raw_str_field raw ''rid''; info = pr_room_info pr; t = room_type_of info;
          name = room_name_of info room_id; label = room_label env t name; input = py_strip (pl_text pl)
      in bnd (build_mentions env raw (pl_text pl)) (\<lambda>(message_segs, cleaned, meta).
         bnd (quotes_of env raw pl) (\<lambda>(snapshots, contexts).
         bnd (lift_exn (media_segments env (pr_media pr))) (\<lambda>(media, media_segs).
         bnd (lift_exn (if pl_multi pl then Inr (contexts, []) else quote_media_loop env [] contexts)) (\<lambda>(contexts, quote_segs).
         bnd (reply_segments pl pr) (\<lambda>replies.
           let segs = replies @ quote_segs @ message_segs @ media_segs; text = py_strip cleaned;
               placeholder = (if segs = [] then unsupported_media env raw else []);
               use = (placeholder \<noteq> [])
           in ret (\<lparr>mp_timestamp = timestamp, mp_room_type = t, mp_message = pr_message pr, mp_sender = pr_sender pr,
                 mp_sender_name = sender_name_of sender, mp_sender_username = raw_str_field sender ''username'',
                 mp_sender_source = raw_str_field sender ''_id'', mp_source = raw_str_field raw ''_id'',
                 mp_segments = (if use then [text_segment placeholder] else segs),
                 mp_input_text = (if use then placeholder else input), mp_text = (if use then placeholder else text),
                 mp_meta = meta, mp_contexts = contexts, mp_quote_media = quote_segs,
                 mp_line = current_line env label (py_str (sender_name_of sender)) text (mention_names meta) media,
                 mp_reply = pl_reply pl, mp_reply_ids = (if pl_multi pl then map snd (pl_quotes pl) else []),
                 mp_room = room_id, mp_room_name = name, mp_room_slug = room_slug_of info room_id,
                 mp_room_label = label, mp_room_id = pr_room pr,
                 mp_context = group_context_id env t room_id, mp_context_id = pr_context_id pr,
                 mp_thread = str_field raw ''tmid''\<rparr>, snapshots)))))))"

definition persist_fallback :: "inbound_env \<Rightarrow> message_parts \<Rightarrow> string \<times> int \<times> entry \<times> entry \<times> bool \<Rightarrow> (inflight, unit) action" where
  "persist_fallback env p q = (case q of (source_id, surrogate, node, context, used) \<Rightarrow>
     if used then bnd (lift_exn (fallback_entry env p source_id surrogate node context)) (\<lambda>e. on_batch (batch_put_message e))
     else ret ())"

definition persist :: "inbound_env \<Rightarrow> plan \<Rightarrow> prepared \<Rightarrow> message_parts \<Rightarrow> (entry \<times> entry \<times> bool) list \<Rightarrow> (inflight, unit) action" where
  "persist env pl pr p snapshots =
     bnd (for_each (zip (map snd (pl_quotes pl)) (zip (pr_quoted pr) snapshots)) (persist_fallback env p))
       (\<lambda>_. on_batch (batch_put_message (stored_entry env p)))"

definition translate_body :: "inbound_env \<Rightarrow> entry \<Rightarrow> entry \<Rightarrow> plan \<Rightarrow> (inflight, entry option) action" where
  "translate_body env raw sender pl =
     bnd (prepare env raw sender pl) (\<lambda>pr.
     bnd (lift_exn (timestamp_of env raw)) (\<lambda>t.
     bnd (bind_rooms env raw sender pr t) (\<lambda>_.
     bnd (message_parts_of env raw sender pl pr t) (\<lambda>(p, snapshots).
       if mp_segments p = [] then ret None
       else bnd (persist env pl pr p snapshots) (\<lambda>_. ret (Some (inbound_event env p)))))))"

definition in_batch :: "(inflight, 'a) action \<Rightarrow> (bridge, 'a) action" where
  \<comment> \<open>the batch begins with the engine and is committed in any case\<close>
  "in_batch m b =
     (case m \<lparr>fl_batch = begin_batch (br_engine b), fl_users = br_users b\<rparr> of
        (r, f) \<Rightarrow> (r, b\<lparr>br_engine := mb_engine (snd (batch_commit (fl_batch f))), br_users := fl_users f\<rparr>))"

definition translate_inbound :: "inbound_env \<Rightarrow> entry \<Rightarrow> (bridge, entry option) action" where
  "translate_inbound env raw =
     (case py_or (dget_or raw ''u'' (PDict [])) (PDict []) of
        PDict sender \<Rightarrow>
          if raw_str_field raw ''rid'' = [] \<or> raw_str_field sender ''_id'' = [] \<or> raw_str_field raw ''_id'' = [] then ret None
          else bnd (lift_exn (translation_plan env raw)) (\<lambda>pl. in_batch (translate_body env raw sender pl))
      | _ \<Rightarrow> raise_exn attribute_error)"

section \<open>Stored messages\<close>

definition first_context :: "pyval \<Rightarrow> exn + entry option" where
  \<comment> \<open>\<open>quote_contexts[0] if quote_contexts else {}\<close>; \<open>None\<close> has no attribute \<open>get\<close>\<close>
  "first_context v = (case v of
     PList [] \<Rightarrow> Inr (Some [])
   | PList (PDict d # _) \<Rightarrow> Inr (Some d)
   | PList _ \<Rightarrow> Inr None
   | PStr _ \<Rightarrow> Inr None
   | PDict _ \<Rightarrow> Inl (KeyError ''0'')
   | _ \<Rightarrow> Inl TypeError)"

definition own_or_context :: "pyval \<Rightarrow> entry option \<Rightarrow> string \<Rightarrow> exn + string" where
  "own_or_context own direct k =
     (if truthy own then Inr (py_str own)
      else case direct of None \<Rightarrow> Inl attribute_error | Some d \<Rightarrow> Inr (raw_str_field d k))"

definition stored_mention_names :: "pyval \<Rightarrow> exn + string list" where
  "stored_mention_names v =
     sbind (py_iter (py_or v (PList []))) (\<lambda>xs.
       Inr (filter (\<lambda>n. n \<noteq> []) (map (\<lambda>e. raw_str_field e ''name'') (List.map_filter as_dict xs))))"

definition rebuilt_group :: "entry \<Rightarrow> string \<Rightarrow> string \<Rightarrow> exn + entry" where
  "rebuilt_group e room_type room_name =
     (if room_type = ''d'' then Inr []
      else (let g = dget e ''group_id''; c = dget e ''context_surrogate_id'';
                g' = (if g \<noteq> PNone then g else if c \<noteq> PNone then c else dget e ''room_surrogate_id'')
            in sbind (py_int g') (\<lambda>i. Inr [(''group_id'', PInt i),
                 (''group_name'', PStr (py_str (py_or (dget e ''group_name'') (PStr room_name))))])))"

definition rebuild_cached_event :: "inbound_env \<Rightarrow> entry \<Rightarrow> exn + entry option" where
  "rebuild_cached_event env e =
     (if str_field e ''source_id'' = [] \<or> dget e ''surrogate_id'' = PNone \<or> dget e ''sender_surrogate_id'' = PNone
      then Inr None
      else (let room_type = py_str (py_or (dget e ''room_type'') (PStr ''c'')); room_name = raw_str_field e ''room_name'';
          label = py_str (py_or (dget e ''room_label'') (PStr (room_label env room_type room_name)));
          text = raw_str_field e ''text''; input = py_str (py_or (dget e ''input_text'') (PStr text));
          name = py_str (py_or (py_or (dget e ''sender_name'') (dget e ''sender_source_id'')) (PStr []));
          contexts = py_or (dget e ''quote_contexts'') (PList [])
        in sbind (py_int (py_or (dget e ''timestamp'') (PInt (time_now env)))) (\<lambda>t.
        sbind (first_context contexts) (\<lambda>direct.
        sbind (py_int (py_or (dget e ''self_id'') (PInt (cl_self_id env)))) (\<lambda>self_id.
        sbind (py_int (dget e ''surrogate_id'')) (\<lambda>i.
        sbind (py_int (dget e ''sender_surrogate_id'')) (\<lambda>sender.
        sbind (if truthy (dget e ''current_message_line'') then Inr (py_str (dget e ''current_message_line''))
               else sbind (stored_mention_names (dget e ''mention_metadata'')) (\<lambda>ns.
                 Inr (current_line env label name text ns []))) (\<lambda>line.
        sbind (sbind (py_iter (py_or (dget e ''reply_source_ids'') (PList []))) (\<lambda>xs.
                 Inr (filter (\<lambda>s. s \<noteq> []) (map py_str xs)))) (\<lambda>reply_ids.
        sbind (own_or_context (dget e ''reply_sender_name'') direct ''sender_name'') (\<lambda>reply_sender.
        sbind (own_or_context (dget e ''reply_message_text'') direct ''text'') (\<lambda>reply_text.
        sbind (int_field e ''room_surrogate_id'') (\<lambda>room.
        sbind (rebuilt_group e room_type room_name) (\<lambda>grp. Inr (Some (
     [(''time'', PInt t), (''self_id'', PInt self_id), (''post_type'', PStr ''message''),
      (''message_type'', PStr (if room_type = ''d'' then ''private'' else ''group'')),
      (''sub_type'', PStr (if room_type = ''d'' then ''friend'' else ''normal'')),
      (''message_id'', PInt i), (''user_id'', PInt sender),
      (''message'', py_or (dget e ''onebot_message_segments'') (PList [])),
      (''raw_message'', PStr (py_str (py_or (dget e ''raw_message'') (PStr (if input \<noteq> [] then input else text))))),
      (''font'', PInt 0),
      (''sender'', PDict [(''user_id'', PInt sender), (''nickname'', PStr name), (''card'', PStr name)]),
      (''message_format'', PStr ''array''),
      (''rocketchat_sender_name'', PStr name),
      (''rocketchat_sender_username'', PStr (raw_str_field e ''sender_username'')),
      (''rocketchat_sender_source_id'', PStr (raw_str_field e ''sender_source_id'')),
      (''rocketchat_sender_surrogate_id'', PInt sender),
      (''rocketchat_mentions'', py_or (dget e ''mention_metadata'') (PList [])),
      (''rocketchat_quote_contexts'', contexts),
      (''rocketchat_quote_context_text'', PStr (raw_str_field e ''quote_context_text'')),
      (''rocketchat_current_message_input_text'', PStr input),
      (''rocketchat_quote_media_segments'', py_or (dget e ''quote_media_segments'') (PList [])),
      (''rocketchat_current_message_text'', PStr text),
      (''rocketchat_current_message_line'', PStr line),
      (''rocketchat_reply_source_id'', PStr (raw_str_field e ''reply_source_id'')),
      (''rocketchat_reply_source_ids'', PList (map PStr reply_ids)),
      (''rocketchat_reply_sender_name'', PStr reply_sender),
      (''rocketchat_reply_message_text'', PStr reply_text),
      (''rocketchat_room_source_id'', PStr (raw_str_field e ''room_source_id'')),
      (''rocketchat_room_name'', PStr room_name),
      (''rocketchat_room_slug'', PStr (raw_str_field e ''room_slug'')), (''rocketchat_room_label'', PStr label),
      (''rocketchat_room_surrogate_id'', PInt room),
      (''rocketchat_context_source_id'', PStr (raw_str_field e ''context_source_id'')),
      (''rocketchat_context_group_id'', dget e ''context_surrogate_id''),
      (''rocketchat_thread_source_id'', PStr (raw_str_field e ''thread_source_id''))] @ grp)))))))))))))))"

definition extract_cached_event :: "inbound_env \<Rightarrow> entry option \<Rightarrow> exn + entry option" where
  "extract_cached_event env cached = (case cached of
     None \<Rightarrow> Inr None
   | Some e \<Rightarrow> (case dget e ''onebot_message'' of PDict ev \<Rightarrow> Inr (Some ev) | _ \<Rightarrow> rebuild_cached_event env e))"

definition should_refresh :: "entry \<Rightarrow> bool" where
  "should_refresh e \<longleftrightarrow>
     truthy (dget e ''quote_contexts'') \<or> truthy (dget e ''reply_source_id'') \<or> truthy (dget e ''reply_source_ids'') \<or>
     (case dget e ''onebot_message'' of
        PDict ev \<Rightarrow> truthy (dget ev ''rocketchat_reply_source_id'') \<or> truthy (dget ev ''rocketchat_reply_source_ids'')
      | _ \<Rightarrow> False)"

definition hydrate :: "inbound_env \<Rightarrow> pyval \<Rightarrow> (bridge, entry option) action" where
  "hydrate env surrogate =
     bnd (message_by_surrogate surrogate) (\<lambda>cached.
     bnd (lift_exn (extract_cached_event env cached)) (\<lambda>ev.
       let present = (ev \<noteq> None \<and> ev \<noteq> Some []);
           (ready, ev') = (if present then (case ie_prepare env (the ev) of (r, x) \<Rightarrow> (r, Some x)) else (False, ev));
           source = (case cached of None \<Rightarrow> [] | Some e \<Rightarrow> raw_str_field e ''source_id'')
       in if present \<and> ready \<and> \<not> should_refresh (the cached) then ret ev'
          else bnd (if source \<noteq> [] then ret source
                    else bnd (map_get_source ''message'' surrogate) (\<lambda>s. ret (case s of None \<Rightarrow> [] | Some x \<Rightarrow> x))) (\<lambda>source.
            if source = [] then ret ev'
            else bnd (lift_exn (ie_fetch env source)) (\<lambda>raw.
              if raw = [] then ret ev' else translate_inbound env raw))))"

end
