(* ===== verification/Inbound_Proofs.thy ===== *)
theory Inbound_Proofs
  imports Inbound_Translator Outbound_Proofs
begin

text \<open>
  Lemmas on the inbound translator: the message is stored under its id and its OneBot id, an
  event can be built again from the stored entry, the quote tree names every message once, and
  the invariants of the stores and the registry are kept.
\<close>

section \<open>What a stored message looks like\<close>

lemma put_normalized_stored:
  assumes put: "put_normalized e s = (Inr (), t)" and src: "map_of e ''source_id'' = Some v"
  shows "map_of (eng_by_source t) (py_str v) = Some e"
    "str_field e ''surrogate_id'' \<noteq> [] \<Longrightarrow> map_of (eng_by_surrogate t) (str_field e ''surrogate_id'') = Some e"
proof -
  have idx: "eng_by_source u' = eng_by_source u \<and> eng_by_surrogate u' = eng_by_surrogate u"
    if "index_latest e u = (r, u')" for r u u'
    using that by (auto simp: index_latest_def action_defs Let_def split: option.splits sum.splits)
  from put src obtain s1 r1 where
    "index_latest e (s1\<lparr>eng_by_source := AList.update (py_str v) e (eng_by_source s1),
       eng_by_surrogate := (if str_field e ''surrogate_id'' \<noteq> []
         then AList.update (str_field e ''surrogate_id'') e (eng_by_surrogate s1) else eng_by_surrogate s1)\<rparr>) = (r1, t)"
    by (auto simp: put_normalized_def bnd_def modify_def Let_def split: prod.splits sum.splits)
  from idx [OF this] show "map_of (eng_by_source t) (py_str v) = Some e"
    "str_field e ''surrogate_id'' \<noteq> [] \<Longrightarrow> map_of (eng_by_surrogate t) (str_field e ''surrogate_id'') = Some e"
    by simp_all
qed

lemma stored_entry_fields:
  "map_of (stored_entry env p) ''source_id'' = Some (PStr (mp_source p))"
  "dget (stored_entry env p) ''room_source_id'' = PStr (mp_room p)"
  "dget (stored_entry env p) ''thread_source_id'' = PStr (mp_thread p)"
  "dget (stored_entry env p) ''surrogate_id'' = PInt (mp_message p)"
  by (simp_all add: stored_entry_def Let_def dget_def)

lemma persist_stored:
  assumes "persist env pl pr p snapshots f = (Inr (), f')" "mp_message p \<noteq> 0"
  shows "map_of (eng_by_source (mb_engine (fl_batch f'))) (mp_source p) = Some (stored_entry env p)"
    "map_of (eng_by_surrogate (mb_engine (fl_batch f'))) (str_int (mp_message p)) = Some (stored_entry env p)"
proof -
  from assms obtain f1 :: inflight and t where put: "put_normalized (stored_entry env p) (mb_engine (fl_batch f1)) = (Inr (), t)"
    and f': "mb_engine (fl_batch f') = t"
    by (auto simp: persist_def batch_put_message_def on_batch_def on_engine_def add_mutation_def bnd_def modify_def
        split: prod.splits sum.splits)
  have s: "str_field (stored_entry env p) ''surrogate_id'' = str_int (mp_message p)"
    using assms(2) by (simp add: str_field_def stored_entry_fields py_or_def)
  from put_normalized_stored [OF put stored_entry_fields(1)] s f' show
    "map_of (eng_by_source (mb_engine (fl_batch f'))) (mp_source p) = Some (stored_entry env p)"
    "map_of (eng_by_surrogate (mb_engine (fl_batch f'))) (str_int (mp_message p)) = Some (stored_entry env p)"
    by simp_all
qed

lemma commit_lookups:
  "eng_by_source (mb_engine (snd (batch_commit b))) = eng_by_source (mb_engine b)"
  "eng_by_surrogate (mb_engine (snd (batch_commit b))) = eng_by_surrogate (mb_engine b)"
  by (simp_all add: batch_commit_def on_engine_def bnd_def modify_def)

text \<open>A translation that returns an event comes down to the parts of a message and their storage.\<close>

lemma translate_inbound_Some:
  assumes "translate_inbound env raw b = (Inr (Some ev), b')"
  obtains sender pl pr t f0 p snaps f1 f2 where
    "py_or (dget_or raw ''u'' (PDict [])) (PDict []) = PDict sender"
    "raw_str_field raw ''rid'' \<noteq> []" "raw_str_field sender ''_id'' \<noteq> []" "raw_str_field raw ''_id'' \<noteq> []"
    "translation_plan env raw = Inr pl"
    "message_parts_of env raw sender pl pr t f0 = (Inr (p, snaps), f1)"
    "persist env pl pr p snaps f1 = (Inr (), f2)" "mp_segments p \<noteq> []" "ev = inbound_event env p"
    "eng_by_source (br_engine b') = eng_by_source (mb_engine (fl_batch f2))"
    "eng_by_surrogate (br_engine b') = eng_by_surrogate (mb_engine (fl_batch f2))"
proof -
  from assms obtain sender where s: "py_or (dget_or raw ''u'' (PDict [])) (PDict []) = PDict sender"
    by (cases "py_or (dget_or raw ''u'' (PDict [])) (PDict [])") (auto simp: translate_inbound_def raise_exn_def)
  with assms have n: "raw_str_field raw ''rid'' \<noteq> []" "raw_str_field sender ''_id'' \<noteq> []" "raw_str_field raw ''_id'' \<noteq> []"
    by (auto simp: translate_inbound_def ret_def split: if_splits)
  with assms s obtain pl where pl: "translation_plan env raw = Inr pl"
    by (cases "translation_plan env raw") (auto simp: translate_inbound_def bnd_def lift_exn_def)
  with assms s n have m: "in_batch (translate_body env raw sender pl) b = (Inr (Some ev), b')"
    by (simp add: translate_inbound_def bnd_def lift_exn_def)
  then obtain f2 where f2: "translate_body env raw sender pl \<lparr>fl_batch = begin_batch (br_engine b), fl_users = br_users b\<rparr>
      = (Inr (Some ev), f2)" and b': "b' = b\<lparr>br_engine := mb_engine (snd (batch_commit (fl_batch f2))), br_users := fl_users f2\<rparr>"
    by (auto simp: in_batch_def split: prod.splits)
  from f2 obtain pr t f0 p snaps f1 where "message_parts_of env raw sender pl pr t f0 = (Inr (p, snaps), f1)"
    "persist env pl pr p snaps f1 = (Inr (), f2)" "mp_segments p \<noteq> []" "ev = inbound_event env p"
    by (auto simp: translate_body_def bnd_def lift_exn_def ret_def split: prod.splits sum.splits if_splits)
  with s n pl that show thesis by (simp add: b' commit_lookups)
qed

text \<open>The fields of the parts that do not depend on the stores.\<close>

lemma message_parts_fields:
  assumes "message_parts_of env raw sender pl pr t f = (Inr (p, snaps), f')"
  shows "mp_source p = raw_str_field raw ''_id''" "mp_room p = raw_str_field raw ''rid''"
    "mp_thread p = str_field raw ''tmid''" "mp_message p = pr_message pr" "mp_timestamp p = t"
    "mp_sender_name p = sender_name_of sender" "mp_room_label p = room_label env (mp_room_type p) (mp_room_name p)"
    "mp_reply_ids p = (if pl_multi pl then map snd (pl_quotes pl) else [])"
    "mp_sender_source p = raw_str_field sender ''_id''"
    "\<exists>info. mp_room_type p = room_type_of info \<and> mp_room_name p = room_name_of info (raw_str_field raw ''rid'')"
    "\<exists>text ns media. mp_line p = current_line env (mp_room_label p) (py_str (sender_name_of sender)) text ns media"
proof -
  show "\<exists>text ns media. mp_line p = current_line env (mp_room_label p) (py_str (sender_name_of sender)) text ns media"
    using assms by (auto simp: message_parts_of_def Let_def bnd_def lift_exn_def ret_def split: prod.splits sum.splits) blast+
qed (use assms in \<open>auto simp: message_parts_of_def Let_def bnd_def lift_exn_def ret_def split: prod.splits sum.splits\<close>)

section \<open>Building the event again\<close>

lemma intercalate_nonempty: "xs \<noteq> [] \<Longrightarrow> hd xs \<noteq> [] \<Longrightarrow> intercalate sep xs \<noteq> []"
  by (cases xs) auto

lemma py_str_truthy: "truthy v \<Longrightarrow> py_str v \<noteq> []"
  by (cases v) (auto simp: repr_string_def Let_def)

lemma py_or_PStr: "s \<noteq> [] \<Longrightarrow> py_str (py_or v (PStr s)) \<noteq> []"
  by (auto simp: py_or_def py_str_truthy)

lemma room_fields_nonempty: "room_type_of info \<noteq> []" "room_id \<noteq> [] \<Longrightarrow> room_name_of info room_id \<noteq> []"
  by (simp_all add: room_type_of_def room_name_of_def py_or_PStr)

lemma message_content_nonempty: "lb_no_text (ie_labels env) \<noteq> [] \<Longrightarrow> message_content env t ns ms \<noteq> []"
  by (simp add: message_content_def Let_def)

lemma current_line_nonempty: "lb_no_text (ie_labels env) \<noteq> [] \<Longrightarrow> current_line env l s t ns ms \<noteq> []"
  using message_content_nonempty by (simp add: current_line_def Let_def)

text \<open>Taking the mentions out of a text adds no characters.\<close>

lemma place_mention_chars:
  "set (ma_text (place_mention m seg a)) \<union> set (ma_rest (place_mention m seg a)) \<subseteq> set (ma_text a) \<union> set (ma_rest a)"
  by (auto simp: place_mention_def Let_def split: option.splits dest: in_set_takeD in_set_dropD)

lemma mentions_loop_chars:
  "returns (mentions_loop env ms a) (\<lambda>a'. set (ma_text a') \<union> set (ma_rest a') \<subseteq> set (ma_text a) \<union> set (ma_rest a))"
proof (induction ms arbitrary: a)
  case (Cons m ms)
  have "returns (mentions_loop env ms (place_mention m seg a))
      (\<lambda>a'. set (ma_text a') \<union> set (ma_rest a') \<subseteq> set (ma_text a) \<union> set (ma_rest a))" for seg
    using Cons.IH [of "place_mention m seg a"] place_mention_chars [of m seg a]
    unfolding returns_def by blast
  with Cons.IH [of a] show ?case by (auto intro: bndI)
qed (simp add: returns_ret)

lemma strip_blank_mono: "py_strip s = [] \<Longrightarrow> set t \<subseteq> set s \<Longrightarrow> py_strip t = []"
  by (auto simp: strip_blank list_all_iff)

lemma build_mentions_blank:
  assumes "py_strip text = []"
  shows "returns (build_mentions env raw text) (\<lambda>(segs, cleaned, meta). cleaned = [])"
proof (cases "\<exists>x xs. dget raw ''mentions'' = PList (x # xs)")
  case True
  then obtain x xs where m: "dget raw ''mentions'' = PList (x # xs)" by blast
  have "py_strip (ma_text a @ ma_rest a) = []" if "set (ma_text a) \<union> set (ma_rest a) \<subseteq> set text" for a :: mention_acc
    by (rule strip_blank_mono [OF assms]) (use that in auto)
  with m show ?thesis
    unfolding build_mentions_def finish_mentions_def
    by (auto intro!: returns_bnd [OF mentions_loop_chars] returns_ret)
next
  case False
  with assms show ?thesis
    by (auto simp: build_mentions_def Let_def returns_ret split: pyval.split list.split)
qed

lemma message_parts_blank:
  assumes "message_parts_of env raw sender pl pr t f = (Inr (p, snaps), f')" "mp_input_text p = []"
  shows "mp_text p = []"
proof -
  have m: "returns (build_mentions env raw s) (\<lambda>r. py_strip s = [] \<longrightarrow> fst (snd r) = [])" for s
    using build_mentions_blank by (cases "py_strip s = []") (fastforce simp: returns_def)+
  have "returns (message_parts_of env raw sender pl pr t) (\<lambda>r. mp_input_text (fst r) = [] \<longrightarrow> mp_text (fst r) = [])"
    unfolding message_parts_of_def Let_def case_prod_beta
    by (rule returns_bnd [OF m]) (intro bndI returns_ret; auto)
  from returnsD [OF this assms(1)] assms(2) show ?thesis by simp
qed

definition as_rebuilt :: "entry \<Rightarrow> entry" where
  \<comment> \<open>the one field that differs: no reply is \<open>None\<close> in a new event and empty in a rebuilt one\<close>
  "as_rebuilt ev = AList.update ''rocketchat_reply_source_id'' (PStr (raw_str_field ev ''rocketchat_reply_source_id'')) ev"

definition rebuildable :: "inbound_env \<Rightarrow> message_parts \<Rightarrow> bool" where
  "rebuildable env p \<longleftrightarrow> py_strip (mp_source p) \<noteq> [] \<and> mp_timestamp p \<noteq> 0 \<and> mp_line p \<noteq> [] \<and>
     (\<exists>n. mp_sender_name p = PStr n \<and> n \<noteq> []) \<and> mp_room_type p \<noteq> [] \<and> mp_room_name p \<noteq> [] \<and>
     mp_room_label p = room_label env (mp_room_type p) (mp_room_name p) \<and>
     (mp_input_text p = [] \<longrightarrow> mp_text p = []) \<and> [] \<notin> set (mp_reply_ids p)"

lemma py_or_simps [simp]:
  "py_str (py_or (PStr s) (PStr [])) = s" "py_or (PList xs) (PList []) = PList xs" "py_str (py_or PNone (PStr s)) = s"
  "s \<noteq> [] \<Longrightarrow> py_or (PStr s) v = PStr s" "py_or (PStr []) v = v" "py_or PNone v = v"
  "n \<noteq> 0 \<Longrightarrow> py_or (PInt n) v = PInt n"
  by (simp_all add: py_or_def)

lemma py_int_or [simp]: "py_int (py_or (PInt n) (PInt n)) = Inr n" "py_int (py_or (PInt n) (PInt 0)) = Inr n"
  by (simp_all add: py_or_def)

lemma map_str_ids: "[] \<notin> set ids \<Longrightarrow> filter (\<lambda>s. s \<noteq> []) (map py_str (map PStr ids)) = ids"
  by (induction ids) auto

lemma first_context_dicts: "first_context (PList (map PDict cs)) = Inr (Some (direct_reply cs))"
  by (cases cs) (simp_all add: first_context_def direct_reply_def)

lemma own_context_same: "own_or_context (PStr (raw_str_field d k)) (Some d) k = Inr (raw_str_field d k)"
  by (simp add: own_or_context_def)

text \<open>The fields of the stored entry that \<open>rebuild_cached_event\<close> reads.\<close>

lemma stored_entry_reads:
  "dget (stored_entry env p) ''source_id'' = PStr (mp_source p)"
  "dget (stored_entry env p) ''sender_surrogate_id'' = PInt (mp_sender p)"
  "dget (stored_entry env p) ''room_type'' = PStr (mp_room_type p)"
  "dget (stored_entry env p) ''room_name'' = PStr (mp_room_name p)"
  "dget (stored_entry env p) ''room_slug'' = PStr (mp_room_slug p)"
  "dget (stored_entry env p) ''room_label'' = PStr (mp_room_label p)"
  "dget (stored_entry env p) ''text'' = PStr (mp_text p)"
  "dget (stored_entry env p) ''input_text'' = PStr (mp_input_text p)"
  "dget (stored_entry env p) ''sender_name'' = mp_sender_name p"
  "dget (stored_entry env p) ''sender_source_id'' = PStr (mp_sender_source p)"
  "dget (stored_entry env p) ''sender_username'' = PStr (mp_sender_username p)"
  "dget (stored_entry env p) ''quote_contexts'' = PList (map PDict (mp_contexts p))"
  "dget (stored_entry env p) ''quote_context_text'' = PStr (context_block env (mp_contexts p))"
  "dget (stored_entry env p) ''timestamp'' = PInt (mp_timestamp p)"
  "dget (stored_entry env p) ''self_id'' = PInt (cl_self_id env)"
  by (simp_all add: stored_entry_def Let_def dget_def)

lemma stored_entry_reads_more:
  "dget (stored_entry env p) ''current_message_line'' = PStr (mp_line p)"
  "dget (stored_entry env p) ''mention_metadata'' = PList (mp_meta p)"
  "dget (stored_entry env p) ''reply_source_id'' = opt_str (mp_reply p)"
  "dget (stored_entry env p) ''reply_source_ids'' = PList (map PStr (mp_reply_ids p))"
  "dget (stored_entry env p) ''reply_sender_name'' = PStr (raw_str_field (direct_reply (mp_contexts p)) ''sender_name'')"
  "dget (stored_entry env p) ''reply_message_text'' = PStr (raw_str_field (direct_reply (mp_contexts p)) ''text'')"
  "dget (stored_entry env p) ''room_surrogate_id'' = PInt (mp_room_id p)"
  "dget (stored_entry env p) ''onebot_message_segments'' = PList (mp_segments p)"
  "dget (stored_entry env p) ''raw_message'' = PStr (raw_message_of p)"
  "dget (stored_entry env p) ''quote_media_segments'' = PList (mp_quote_media p)"
  "dget (stored_entry env p) ''context_source_id'' = PStr (mp_context p)"
  "dget (stored_entry env p) ''context_surrogate_id'' = opt_int (mp_context_id p)"
  "dget (stored_entry env p) ''group_id'' = dget (inbound_event env p) ''group_id''"
  "dget (stored_entry env p) ''group_name'' = dget (inbound_event env p) ''group_name''"
  by (simp_all add: stored_entry_def Let_def dget_def)

lemma event_group:
  "dget (inbound_event env p) ''group_id'' = (if mp_room_type p = ''d'' then PNone
     else PInt (case mp_context_id p of Some g \<Rightarrow> g | None \<Rightarrow> mp_room_id p))"
  "dget (inbound_event env p) ''group_name'' = (if mp_room_type p = ''d'' then PNone else PStr (mp_room_name p))"
  by (simp_all add: inbound_event_def Let_def dget_def)

lemma event_reply: "dget (inbound_event env p) ''rocketchat_reply_source_id'' = opt_str (mp_reply p)"
  by (simp add: inbound_event_def Let_def dget_def)

lemmas stored_reads = stored_entry_reads stored_entry_reads_more stored_entry_fields(2-4) event_group

lemma py_str_reply: "raw_str_field ev ''rocketchat_reply_source_id'' = (case mp_reply p of None \<Rightarrow> [] | Some r \<Rightarrow> r)"
  if "ev = inbound_event env p"
  using that by (simp add: raw_str_field_def event_reply opt_str_def py_or_def split: option.split)

lemma rebuilt_group_stored:
  assumes "mp_room_name p \<noteq> []"
  shows "rebuilt_group (stored_entry env p) (mp_room_type p) (mp_room_name p) =
    Inr (if mp_room_type p = ''d'' then []
        else [(''group_id'', PInt (case mp_context_id p of Some g \<Rightarrow> g | None \<Rightarrow> mp_room_id p)),
              (''group_name'', PStr (mp_room_name p))])"
  using assms by (simp add: rebuilt_group_def stored_reads Let_def)

lemma py_str_opt: "py_str (py_or (opt_str r) (PStr [])) = (case r of None \<Rightarrow> [] | Some s \<Rightarrow> s)"
  by (simp add: opt_str_def split: option.split)

lemma stored_strings:
  "raw_str_field (stored_entry env p) ''room_name'' = mp_room_name p"
  "raw_str_field (stored_entry env p) ''text'' = mp_text p"
  "raw_str_field (stored_entry env p) ''sender_username'' = mp_sender_username p"
  "raw_str_field (stored_entry env p) ''sender_source_id'' = mp_sender_source p"
  "raw_str_field (stored_entry env p) ''quote_context_text'' = context_block env (mp_contexts p)"
  "raw_str_field (stored_entry env p) ''reply_source_id'' = (case mp_reply p of None \<Rightarrow> [] | Some s \<Rightarrow> s)"
  "raw_str_field (stored_entry env p) ''room_source_id'' = mp_room p"
  "raw_str_field (stored_entry env p) ''room_slug'' = mp_room_slug p"
  "raw_str_field (stored_entry env p) ''context_source_id'' = mp_context p"
  "raw_str_field (stored_entry env p) ''thread_source_id'' = mp_thread p"
  "int_field (stored_entry env p) ''room_surrogate_id'' = Inr (mp_room_id p)"
  by (simp_all add: raw_str_field_def int_field_def stored_reads py_str_opt)

lemma rebuild_stored:
  assumes ok: "rebuildable env p"
  shows "rebuild_cached_event env (stored_entry env p) = Inr (Some (as_rebuilt (inbound_event env p)))"
proof -
  from ok obtain n where n: "mp_sender_name p = PStr n" "n \<noteq> []" by (auto simp: rebuildable_def)
  let ?e = "stored_entry env p"
  have src: "str_field ?e ''source_id'' \<noteq> []"
    using ok by (auto simp: rebuildable_def str_field_def stored_reads)
  have ids: "filter (\<lambda>s. s \<noteq> []) (map py_str (map PStr (mp_reply_ids p))) = mp_reply_ids p"
    using ok by (intro map_str_ids) (simp add: rebuildable_def)
  have input: "py_str (py_or (PStr (mp_input_text p)) (PStr (mp_text p))) = mp_input_text p"
    using ok by (cases "mp_input_text p = []") (simp_all add: rebuildable_def)
  have raw: "mp_input_text p \<noteq> [] \<Longrightarrow> py_str (py_or (PStr (raw_message_of p)) (PStr (mp_input_text p))) = raw_message_of p"
    "mp_input_text p = [] \<Longrightarrow> py_str (py_or (PStr (raw_message_of p)) (PStr (mp_text p))) = raw_message_of p"
    by (simp_all add: raw_message_of_def py_or_def)
  from ok have facts: "mp_timestamp p \<noteq> 0" "mp_line p \<noteq> []" "mp_room_type p \<noteq> []" "mp_room_name p \<noteq> []"
    "mp_room_label p = room_label env (mp_room_type p) (mp_room_name p)"
    by (simp_all add: rebuildable_def)
  have label: "py_str (py_or (PStr (mp_room_label p)) (PStr (room_label env (mp_room_type p) (mp_room_name p)))) = mp_room_label p"
    using facts(5) by (cases "mp_room_label p = []") simp_all
  show ?thesis
    unfolding rebuild_cached_event_def as_rebuilt_def py_str_reply [OF refl]
    unfolding inbound_event_def
    using facts(1-4) n(2) src
    by (simp add: stored_reads n(1) Let_def stored_strings first_context_dicts own_context_same
        rebuilt_group_stored ids [unfolded map_map] input raw label)
qed

text \<open>The quoted ids of a plan are never empty.\<close>

definition named :: "(entry \<times> string) list \<Rightarrow> bool" where
  "named qs = list_all (\<lambda>q. snd q \<noteq> []) qs"

lemma named_simps [simp]: "named []" "named (q # qs) \<longleftrightarrow> snd q \<noteq> [] \<and> named qs"
  by (simp_all add: named_def)

lemma linked_ids: "linked_attachments env as = Inr qs \<Longrightarrow> named qs"
  by (induction as arbitrary: qs) (auto simp: sbind_Inr)

lemma prefix_ids: "prefix_quotes env s = Inr (qs, r) \<Longrightarrow> named qs"
proof (induction env s arbitrary: qs r rule: prefix_quotes.induct)
  case (1 env s)
  show ?case
  proof (cases "prefix_line s")
    case None
    with "1.prems" show ?thesis by (subst (asm) prefix_quotes.simps) simp
  next
    case (Some p)
    obtain link rest where p: "p = (link, rest)" by (cases p)
    with "1.prems" Some obtain i where "i = [] \<and> qs = []
        \<or> i \<noteq> [] \<and> (\<exists>qs' r' e. prefix_quotes env rest = Inr (qs', r') \<and> qs = (e, i) # qs')"
      by (subst (asm) prefix_quotes.simps) (auto simp: sbind_Inr split: if_splits)
    with "1.IH" [OF Some p [symmetric]] show ?thesis by auto
  qed
qed

lemma e2ee_ids: "e2ee_prefix env raw = Inr (qs, r) \<Longrightarrow> named qs"
  by (auto simp: e2ee_prefix_def sbind_Inr Let_def split: if_splits dest: prefix_ids)

lemma plan_ids:
  assumes "translation_plan env raw = Inr pl"
  shows "named (pl_quotes pl)"
proof -
  from assms obtain top prefix pt where top: "linked_attachments env (attachments_of raw) = Inr top"
    and prefix: "e2ee_prefix env raw = Inr (prefix, pt)"
    by (auto simp: translation_plan_def sbind_Inr Let_def)
  with assms have "pl_quotes pl = prefix \<or> pl_quotes pl = top"
    by (auto simp: translation_plan_def sbind_Inr Let_def split: if_splits)
  with linked_ids [OF top] e2ee_ids [OF prefix] show ?thesis by auto
qed

lemma event_reads:
  "dget (inbound_event env p) ''message_id'' = PInt (mp_message p)"
  "dget (inbound_event env p) ''time'' = PInt (mp_timestamp p)"
  "dget (inbound_event env p) ''rocketchat_sender_name'' = mp_sender_name p"
  by (simp_all add: inbound_event_def Let_def dget_def)

lemma sender_name_truthy: "raw_str_field sender ''_id'' \<noteq> [] \<Longrightarrow> truthy (sender_name_of sender)"
  by (auto simp: sender_name_of_def py_or_def)

lemma translated_rebuildable:
  assumes parts: "message_parts_of env raw sender pl pr t f = (Inr (p, snaps), f')"
    and pl: "translation_plan env raw = Inr pl" and sender: "raw_str_field sender ''_id'' \<noteq> []"
    and room: "raw_str_field raw ''rid'' \<noteq> []" and lbl: "lb_no_text (ie_labels env) \<noteq> []"
    and i: "py_strip (raw_str_field raw ''_id'') \<noteq> []" and t: "mp_timestamp p \<noteq> 0" and n: "mp_sender_name p = PStr n"
  shows "rebuildable env p"
proof -
  note f = message_parts_fields [OF parts]
  obtain info where info: "mp_room_type p = room_type_of info" "mp_room_name p = room_name_of info (raw_str_field raw ''rid'')"
    using f(10) by blast
  have "n \<noteq> []" using sender_name_truthy [OF sender] n f(6) by (cases n) simp_all
  moreover have "mp_line p \<noteq> []" using f(11) current_line_nonempty [OF lbl] by metis
  moreover have "mp_input_text p = [] \<longrightarrow> mp_text p = []" using message_parts_blank [OF parts] by blast
  moreover have "[] \<notin> set (mp_reply_ids p)" using plan_ids [OF pl] f(8) by (auto simp: named_def list_all_iff)
  ultimately show ?thesis
    using i t n room room_fields_nonempty f(1) info f(7) by (simp add: rebuildable_def message_parts_fields [OF parts])
qed

section \<open>The tree of quoted messages\<close>

definition quote_ids :: "entry list \<Rightarrow> string list" where
  "quote_ids cs = map (\<lambda>c. raw_str_field c ''source_id'') cs"

lemma quote_ids_simps [simp]:
  "quote_ids [] = []" "quote_ids (c # cs) = raw_str_field c ''source_id'' # quote_ids cs" "quote_ids (cs @ ds) = quote_ids cs @ quote_ids ds"
  by (simp_all add: quote_ids_def)

definition quote_depth_ok :: "entry \<Rightarrow> bool" where
  "quote_depth_ok c \<longleftrightarrow> dget c ''depth'' = PInt 1 \<or> dget c ''depth'' = PInt 2"

text \<open>The quotes that were found are new, and all of them are visited afterwards.\<close>

definition found_new :: "string list \<Rightarrow> entry list \<Rightarrow> string list \<Rightarrow> bool" where
  "found_new vis cs v \<longleftrightarrow> distinct (quote_ids cs) \<and> set (quote_ids cs) \<inter> set vis = {}
     \<and> set v = set vis \<union> set (quote_ids cs) \<and> list_all quote_depth_ok cs"

lemma quote_entry_fields:
  "quote_entry env p i d = Inr e \<Longrightarrow> raw_str_field e ''source_id'' = i \<and> dget e ''depth'' = PInt (int d)"
  by (auto simp: quote_entry_def sbind_Inr raw_str_field_def dget_def py_or_def)

lemma claim_quotes_new:
  "claim_quotes env as vis = Inr (qs, v) \<Longrightarrow>
   distinct (map snd qs) \<and> snd ` set qs \<inter> set vis = {} \<and> set v = set vis \<union> snd ` set qs"
proof (induction as arbitrary: vis qs v)
  case (Cons a as)
  from Cons.prems obtain i where i: "message_id_of_url env (raw_str_field a ''message_link'') = Inr i"
    by (auto simp: sbind_Inr)
  show ?case
  proof (cases "i = [] \<or> i \<in> set vis")
    case True
    with Cons.prems i have "claim_quotes env as vis = Inr (qs, v)" by (auto split: if_splits)
    from Cons.IH [OF this] show ?thesis .
  next
    case False
    with Cons.prems i obtain qs' where q: "claim_quotes env as (i # vis) = Inr (qs', v)" "qs = (a, i) # qs'"
      by (auto simp: sbind_Inr)
    from Cons.IH [OF q(1)] q(2) False show ?thesis by auto
  qed
qed simp

lemma quote_branches_new:
  assumes branch: "\<And>q w cs w'. branch q w = Inr (cs, w') \<Longrightarrow> \<exists>c ds. cs = c # ds \<and>
      raw_str_field c ''source_id'' = snd q \<and> quote_depth_ok c \<and> found_new w ds w'"
  shows "quote_branches branch qs vis = Inr (cs, v) \<Longrightarrow> distinct (map snd qs) \<Longrightarrow> snd ` set qs \<subseteq> set vis \<Longrightarrow>
    distinct (quote_ids cs) \<and> set (quote_ids cs) \<inter> set vis = snd ` set qs \<and> set v = set vis \<union> set (quote_ids cs)
      \<and> list_all quote_depth_ok cs"
proof (induction qs arbitrary: vis cs v)
  case (Cons q qs)
  from Cons.prems(1) obtain cs1 w cs2 where b: "branch q vis = Inr (cs1, w)"
    and r: "quote_branches branch qs w = Inr (cs2, v)" and cs: "cs = cs1 @ cs2" by (auto simp: sbind_Inr)
  from branch [OF b] obtain c ds where c: "cs1 = c # ds" "raw_str_field c ''source_id'' = snd q" "quote_depth_ok c"
    "found_new vis ds w" by blast
  from c(4) have w: "set w = set vis \<union> set (quote_ids ds)" by (simp add: found_new_def)
  with Cons.prems have "distinct (map snd qs)" "snd ` set qs \<subseteq> set w" by auto
  note ih = Cons.IH [OF r this]
  have "\<forall>x \<in> set (quote_ids cs2). x \<in> set (quote_ids ds) \<or> x = snd q \<longrightarrow> x \<in> set vis \<and> x \<in> snd ` set qs"
    using ih w Cons.prems(3) by (auto dest!: equalityD1 [of "_ \<inter> _"] dest: subsetD)
  with c(4) Cons.prems(2) have "set (quote_ids cs2) \<inter> (insert (snd q) (set (quote_ids ds))) = {}"
    by (fastforce simp: found_new_def)
  moreover have "set (quote_ids cs2) \<inter> set vis = snd ` set qs"
    using ih w Cons.prems(3) by auto
  ultimately show ?case
    using ih w c Cons.prems(2,3) cs by (auto simp: found_new_def)
qed simp

lemma collect_quotes_new:
  "n \<le> max_quote_depth \<Longrightarrow> collect_quotes n env p vis = Inr (cs, v) \<Longrightarrow> found_new vis cs v"
proof (induction n arbitrary: p vis cs v)
  case (Suc n)
  let ?branch = "\<lambda>(a, i) w. sbind (quote_entry env a i (max_quote_depth - n)) (\<lambda>e.
     sbind (collect_quotes n env a w) (\<lambda>(cs, w'). Inr (e # cs, w')))"
  from Suc.prems(2) obtain qs w where claim: "claim_quotes env (attachments_of p) vis = Inr (qs, w)"
    and run: "quote_branches ?branch qs w = Inr (cs, v)" by (auto simp: sbind_Inr)
  note new = claim_quotes_new [OF claim]
  have d: "int (max_quote_depth - n) = 1 \<or> int (max_quote_depth - n) = 2"
    using Suc.prems(1) by (auto simp: max_quote_depth_def)
  have "\<exists>c ds. cs = c # ds \<and> raw_str_field c ''source_id'' = snd q \<and> quote_depth_ok c \<and> found_new w ds w'"
    if r: "?branch q w = Inr (cs, w')" for q w cs w'
  proof -
    from r obtain e ds where e: "quote_entry env (fst q) (snd q) (max_quote_depth - n) = Inr e"
      "collect_quotes n env (fst q) w = Inr (ds, w')" "cs = e # ds" by (auto simp: sbind_Inr case_prod_beta)
    with Suc.IH [OF _ e(2)] Suc.prems(1) quote_entry_fields [OF e(1)] d show ?thesis
      by (auto simp: quote_depth_ok_def)
  qed
  from quote_branches_new [OF this run] new show ?case by (auto simp: found_new_def)
qed (simp add: found_new_def)

lemma quote_contexts_new:
  assumes "quote_contexts env raw reply = Inr cs"
  shows "distinct (quote_ids cs) \<and> list_all quote_depth_ok cs"
proof -
  from assms obtain ds v where c: "collect_quotes max_quote_depth env raw [] = Inr (ds, v)"
    by (auto simp: quote_contexts_def sbind_Inr)
  note new = collect_quotes_new [OF le_refl c]
  show ?thesis
  proof (cases "ds \<noteq> [] \<or> cs = []")
    case True
    with assms c new show ?thesis by (auto simp: quote_contexts_def found_new_def)
  next
    case False
    with assms c obtain r where q: "quotes_of_message env r v = Inr cs"
      by (auto simp: quote_contexts_def split: option.splits if_splits)
    with False obtain p e es w where e: "quote_entry env p r 1 = Inr e"
      "collect_quotes (max_quote_depth - 1) env p (r # v) = Inr (es, w)" "cs = e # es"
      by (auto simp: quotes_of_message_def sbind_Inr split: if_splits)
    from collect_quotes_new [OF _ e(2)] quote_entry_fields [OF e(1)] e(3) show ?thesis
      by (auto simp: found_new_def quote_depth_ok_def)
  qed
qed

definition contexts_ok :: "plan \<Rightarrow> entry list \<Rightarrow> bool" where
  "contexts_ok pl cs \<longleftrightarrow> list_all quote_depth_ok cs \<and> (\<not> pl_multi pl \<longrightarrow> distinct (quote_ids cs))"

lemma quote_media_ids:
  "quote_media_loop env seen cs = Inr (ds, segs) \<Longrightarrow>
   quote_ids ds = quote_ids cs \<and> list_all quote_depth_ok ds = list_all quote_depth_ok cs"
proof (induction cs arbitrary: seen ds segs)
  case (Cons c cs)
  from Cons.prems have "\<exists>c' ds' seen' segs'. ds = c' # ds' \<and> quote_media_loop env seen' cs = Inr (ds', segs')
      \<and> (c' = c \<or> (\<exists>m. c' = AList.update ''media'' m c))"
    by (clarsimp simp: sbind_Inr split: if_splits) metis+
  then obtain c' ds' seen' segs' where ds: "ds = c' # ds'" "quote_media_loop env seen' cs = Inr (ds', segs')"
    "c' = c \<or> (\<exists>m. c' = AList.update ''media'' m c)" by blast
  from ds(3) have "raw_str_field c' ''source_id'' = raw_str_field c ''source_id'' \<and> quote_depth_ok c' = quote_depth_ok c"
    by (auto simp: raw_str_field_def quote_depth_ok_def dget_def update_conv)
  with Cons.IH [OF ds(2)] ds(1) show ?case by simp
qed simp

lemma catching_returns: "returns m P \<Longrightarrow> returns h P \<Longrightarrow> returns (catching m h) P"
  by (auto simp: returns_def catching_def split: prod.splits sum.splits)

lemma snapshot_depth:
  "returns (quote_snapshots env mapped qs) (\<lambda>r. list_all quote_depth_ok (map (\<lambda>(_, c, _). c) r))"
proof (induction qs)
  case (Cons q qs)
  have step: "returns (catching (quote_snapshot env p (snd q) mapped) (ret (quote_placeholder env p (snd q))))
      (\<lambda>r. quote_depth_ok (snd r))" for p
    by (rule catching_returns)
       (auto simp: quote_snapshot_def quote_placeholder_def quote_context_def quote_depth_ok_def dget_def Let_def
         intro!: bndI returns_ret)
  show ?case
    unfolding quote_snapshots.simps Let_def
    by (rule returns_bnd [OF step], clarify, rule returns_bnd [OF Cons.IH], rule returns_ret) simp
qed (simp add: returns_ret)

lemma message_parts_contexts:
  "returns (message_parts_of env raw sender pl pr t) (\<lambda>r. contexts_ok pl (mp_contexts (fst r)))"
proof -
  have q: "returns (quotes_of env raw pl) (\<lambda>r. contexts_ok pl (snd r))"
  proof (cases "pl_multi pl")
    case True
    have "returns (multi_quotes env qs) (\<lambda>r. list_all quote_depth_ok (map (\<lambda>(_, c, _). c) r))" for qs
      unfolding multi_quotes_def by (rule bndI) (rule snapshot_depth)
    with True show ?thesis
      unfolding quotes_of_def contexts_ok_def by (auto intro!: returns_bnd returns_ret)
  next
    case False
    have "returns (lift_exn (quote_contexts env raw (pl_reply pl))) (contexts_ok pl)"
      by (rule returns_lift) (simp add: contexts_ok_def quote_contexts_new)
    with False show ?thesis
      unfolding quotes_of_def by (auto intro!: returns_bnd returns_ret simp: contexts_ok_def)
  qed
  have loop: "returns (lift_exn (if pl_multi pl then Inr (cs, []) else quote_media_loop env [] cs)) (\<lambda>r. contexts_ok pl (fst r))"
    if "contexts_ok pl cs" for cs
    using that by (auto intro!: returns_lift simp: contexts_ok_def split: if_splits dest: quote_media_ids)
  show ?thesis
    unfolding message_parts_of_def Let_def case_prod_beta
    by (rule bndI, rule returns_bnd [OF q], rule bndI, rule returns_bnd [OF loop], assumption, rule bndI, rule returns_ret) simp
qed

end
