(* ===== verification/Batch_Proofs.thy ===== *)
theory Batch_Proofs
  imports Inbound_Proofs
begin

text \<open>
  A translation and the journal: the one record that the batch of a translation leaves in the
  journal replays everything the translation did to the engine, and the invariants of the
  engine and the registry hold before and after, also when a step raised.
\<close>

section \<open>Operations of a batch\<close>

definition batch_ok :: "engine \<Rightarrow> batch \<Rightarrow> bool" where
  \<comment> \<open>the mutations so far replay what happened to the engine since it was \<open>s0\<close>\<close>
  "batch_ok s0 b \<longleftrightarrow> all_ok (mb_engine b) \<and> \<not> mb_committed b \<and> eng_journal (mb_engine b) = eng_journal s0
     \<and> tracks s0 (mb_mutations b) (mb_engine b)"

lemma jl_same: "s = jl (eng_journal s) (eng_legacy s) s"
  by (simp add: jl_def)

text \<open>
  An operation that is logged when it runs on its own is one that a batch may run: the record
  goes to the mutations in place of the journal.
\<close>

lemma batch_step:
  assumes ok: "batch_ok s0 b" and ind: "indep m"
    and log: "\<And>s. all_ok s \<Longrightarrow> logged (bnd m (\<lambda>x. when_do (P x) (eng_record (f x)))) s"
  shows "\<exists>x t. m (mb_engine b) = (Inr x, t) \<and>
    batch_ok s0 (b\<lparr>mb_engine := t, mb_mutations := mb_mutations b @ (if P x then [f x] else [])\<rparr>)"
proof -
  define s where "s = mb_engine b"
  define s1 where "s1 = jl (Some []) (eng_legacy s) s"
  have s1: "s1 = s\<lparr>eng_journal := Some []\<rparr>" by (simp add: s1_def jl_def)
  have "all_ok s1" using ok by (simp add: batch_ok_def s1 s_def)
  from log [OF this] obtain t1 recs where run: "bnd m (\<lambda>x. when_do (P x) (eng_record (f x))) s1 = (Inr (), t1)"
    and t1: "all_ok t1" "eng_journal t1 = Some recs" "tracks s1 recs t1"
    by (auto simp: logged_def s1)
  obtain r t where m: "m s = (r, t)" by (cases "m s")
  have m1: "m s1 = (r, jl (Some []) (eng_legacy s) t)" using indepD [OF ind m] by (simp add: s1_def)
  from run m1 obtain x where r: "r = Inr x" by (cases r) (auto simp: bnd_def)
  have t1_eq: "t1 = t\<lparr>eng_journal := Some (if P x then [f x] else []), eng_legacy := eng_legacy s\<rparr>"
    using run m1 by (auto simp: bnd_def r when_do_def ret_def eng_record_def modify_def jl_def)
  have legacy: "t = jl (eng_journal s) (eng_legacy s) t"
    using indepD [OF ind m, of "eng_journal s" "eng_legacy s"] m by (simp add: jl_same [symmetric])
  have t: "t = t1\<lparr>eng_journal := eng_journal s\<rparr>"
    by (subst legacy) (simp add: t1_eq jl_def)
  have recs: "recs = (if P x then [f x] else [])" using t1(2) by (simp add: t1_eq)
  have "tracks s recs t"
    using t1(3) tracks_core [of s recs t1 t] by (simp add: t tracks_def s1)
  with ok have "tracks s0 (mb_mutations b @ recs) t"
    by (auto simp: batch_ok_def s_def intro: tracks_append)
  moreover have "all_ok t" "eng_journal t = eng_journal s0"
    using t1(1) ok by (simp_all add: t batch_ok_def s_def)
  ultimately have "batch_ok s0 (b\<lparr>mb_engine := t, mb_mutations := mb_mutations b @ recs\<rparr>)"
    using ok by (simp add: batch_ok_def)
  with m r recs show ?thesis by (auto simp: s_def)
qed

lemma batch_keeps:
  assumes ind: "indep m" and log: "\<And>s. all_ok s \<Longrightarrow> logged (bnd m (\<lambda>x. when_do (P x) (eng_record (f x)))) s"
  shows "keeps (batch_ok s0) (bnd (on_engine m) (\<lambda>x. bnd (when_do (P x) (add_mutation (f x))) (\<lambda>_. ret (h x))))"
proof (rule keepsI)
  fix b assume ok: "batch_ok s0 b"
  from batch_step [of s0 b m P f, OF ok ind log] obtain x t where m: "m (mb_engine b) = (Inr x, t)"
    and t: "batch_ok s0 (b\<lparr>mb_engine := t, mb_mutations := mb_mutations b @ (if P x then [f x] else [])\<rparr>)" by blast
  show "batch_ok s0 (snd (bnd (on_engine m) (\<lambda>x. bnd (when_do (P x) (add_mutation (f x))) (\<lambda>_. ret (h x))) b))"
    using t by (cases "P x") (simp_all add: bnd_def on_engine_def m when_do_def ret_def add_mutation_def modify_def)
qed

lemma bnd_ret [simp]: "bnd m ret = m"
  by (rule ext) (auto simp: bnd_def ret_def split: prod.split sum.split)

lemma bnd_lift [simp]: "bnd (lift_exn (Inr x)) k = k x"
  by (rule ext) (simp add: bnd_def lift_exn_def)

lemma indep_allocate: "indep (allocate_locked ns k)"
proof -
  have "indep (bnd (trim_message_window False False) (\<lambda>snap. ret (m, snap, True)))" for m :: id_mapping
    by (intro indep_intros)
  then show ?thesis
    by (auto simp: indep_def allocate_locked_def Let_def jl_update split: option.split)
qed

lemma batch_allocate_keeps:
  assumes "k \<noteq> []"
  shows "keeps (batch_ok s0) (batch_get_or_create (ns_name n) k)"
proof -
  have "logged (bnd (allocate_locked (ns_name n) k) (\<lambda>x. when_do (snd (snd x))
      (eng_record (id_put_record (ns_name n) k (im_surrogate_id (fst x)))))) s" if "all_ok s" for s
  proof -
    have "run_op (OpAllocate n k) = bnd (allocate_locked (ns_name n) k) (\<lambda>x. when_do (snd (snd x))
      (eng_record (id_put_record (ns_name n) k (im_surrogate_id (fst x)))))"
      by (rule ext) (auto simp: allocate_mapping_def bnd_def ret_def when_do_def eng_record_def modify_def split: prod.splits sum.splits)
    with logged_alloc [OF that assms, of n] show ?thesis by simp
  qed
  from batch_keeps [OF indep_allocate this, of s0 fst]
  show ?thesis unfolding batch_get_or_create_def case_prod_beta .
qed

lemma batch_put_keeps:
  assumes "op_ok (OpPut e)"
  shows "keeps (batch_ok s0) (batch_put_message e)"
proof -
  have "logged (bnd (put_normalized e) (\<lambda>x. when_do True (eng_record (message_put_record e)))) s" if "all_ok s" for s
    using logged_put [OF that assms] by (simp add: put_message_def when_do_def)
  from batch_keeps [OF indep_put_normalized this, of s0 "\<lambda>_. ()"] show ?thesis
    by (simp add: batch_put_message_def when_do_def)
qed

lemma batch_private_keeps: "keeps (batch_ok s0) (batch_bind_private u i r)"
proof -
  have ind: "indep (bind_private_without_record u i r)"
    unfolding bind_private_without_record_def by (intro indep_intros) (simp add: jl_def)
  have "logged (bnd (bind_private_without_record u i r) (\<lambda>x. when_do True (eng_record (private_bind_record u i r)))) s"
    if "all_ok s" for s
    using logged_private [OF that, of u i r] by (simp add: bind_private_room_def when_do_def)
  from batch_keeps [OF ind this, of s0 "\<lambda>_. ()"] show ?thesis
    by (simp add: batch_bind_private_def when_do_def)
qed

lemma batch_context_keeps: "keeps (batch_ok s0) (batch_bind_context a)"
proof (cases "context_entry a")
  case (Inl x)
  then show ?thesis by (simp add: batch_bind_context_def keeps_def bnd_def lift_exn_def)
next
  case (Inr e)
  have "logged (bnd (bind_context_without_record e) (\<lambda>x. when_do x (eng_record (context_bind_record e)))) s" if "all_ok s" for s
    using logged_context [OF that, of a] Inr by (simp add: bind_context_room_def)
  from batch_keeps [OF indep_bind_context this, of s0 "\<lambda>_. ()"]
  show ?thesis by (simp add: batch_bind_context_def Inr)
qed

text \<open>The committed batch is one record that replays all of it.\<close>

lemma batch_record_replays: "apply_record (batch_record ms) = replay_records ms"
proof -
  have "apply_items rs = replay_records rs" for rs
    by (induction rs) (simp_all add: replay_records_def)
  moreover have "List.map_filter as_dict (map PDict ms) = ms"
    by (induction ms) (simp_all add: List.map_filter_def)
  ultimately show ?thesis
    using apply_batch [of "batch_record ms" "map PDict ms"] by (simp add: batch_record_def dget_def py_or_def)
qed

definition durable :: "engine \<Rightarrow> engine \<Rightarrow> bool" where
  \<comment> \<open>from the first engine to the second by what the journal got, at most one record\<close>
  "durable s t \<longleftrightarrow> all_ok t \<and> (\<exists>recs. length recs \<le> 1 \<and>
     eng_journal t = map_option (\<lambda>j. j @ recs) (eng_journal s) \<and> tracks s recs t)"

lemma commit_durable:
  assumes ok: "batch_ok s0 b"
  shows "durable s0 (mb_engine (snd (batch_commit b)))"
proof (cases "mb_mutations b = []")
  case True
  with ok show ?thesis
    by (auto simp: batch_commit_def batch_ok_def durable_def option.map_ident intro!: exI [of _ "[]"])
next
  case False
  let ?r = "batch_record (mb_mutations b)"
  have "tracks s0 [?r] (mb_engine b)"
    using ok by (simp add: batch_ok_def tracks_def replay_records_def batch_record_replays)
  then have "tracks s0 [?r] ((mb_engine b)\<lparr>eng_journal := j\<rparr>)" for j
    by (rule tracks_core) simp
  with ok False show ?thesis
    by (auto simp: batch_commit_def batch_ok_def durable_def bnd_def on_engine_def eng_record_def modify_def
        intro!: exI [of _ "[?r]"])
qed

section \<open>What every step of a translation keeps\<close>

lemma keeps_catching: "keeps P m \<Longrightarrow> keeps P h \<Longrightarrow> keeps P (catching m h)"
  by (fastforce simp: keeps_def catching_def split: prod.splits sum.splits)

definition clean_ids :: "inbound_env \<Rightarrow> entry \<Rightarrow> bool" where
  \<comment> \<open>the ids of the message and of the messages it quotes have no spaces around them\<close>
  "clean_ids env raw \<longleftrightarrow> py_strip (raw_str_field raw ''_id'') = raw_str_field raw ''_id'' \<and>
     (case translation_plan env raw of Inl _ \<Rightarrow> True | Inr pl \<Rightarrow> list_all (\<lambda>q. py_strip (snd q) = snd q) (pl_quotes pl))"

lemma stored_entry_ok: "py_strip (mp_source p) = mp_source p \<Longrightarrow> op_ok (OpPut (stored_entry env p))"
  by (simp add: stored_entry_fields entry_ok_def readable_ts_def stored_reads int_field_def)

lemma fallback_entry_ok:
  assumes "fallback_entry env p k i node c = Inr e" "py_strip k = k"
  shows "op_ok (OpPut e)"
proof -
  from assms(1) have "map_of e ''source_id'' = Some (PStr k)" "\<exists>t. dget e ''timestamp'' = PInt t"
    by (auto simp: fallback_entry_def Let_def sbind_Inr dget_def)
  with assms(2) show ?thesis by (auto simp: entry_ok_def readable_ts_def int_field_def)
qed

text \<open>
  The stores as the inbound translator uses them: \<open>P\<close> is any property of the state that
  every one of its requests keeps.
\<close>

locale inbound_invariant =
  fixes env :: inbound_env and P :: "inflight \<Rightarrow> bool"
  assumes allocating: "k \<noteq> [] \<Longrightarrow> keeps P (get_or_create_mapping (ns_name n) k)"
    and registering: "keeps P (ensure_user_mapping env u username nickname)"
      "keeps P (on_registry (ensure_mappings_sync (cl_now env) items None))"
    and binding: "room \<noteq> [] \<Longrightarrow> keeps P (on_batch (batch_bind_private u i room))"
      "keeps P (on_batch (batch_bind_context a))"
    and storing: "op_ok (OpPut e) \<Longrightarrow> keeps P (on_batch (batch_put_message e))"
begin

lemma allocating_names:
  assumes "k \<noteq> []"
  shows "keeps P (get_or_create_mapping ''message'' k)" "keeps P (get_or_create_mapping ''room'' k)"
    "keeps P (get_or_create_mapping ''context'' k)"
  using allocating [OF assms, of NsMessage] allocating [OF assms, of NsRoom] allocating [OF assms, of NsContext] by simp_all

lemma mentions_keep: "keeps P (build_mentions env raw s)"
proof -
  have "keeps P (mentions_loop env ms a)" for ms a
    by (induction ms arbitrary: a) (auto simp: mention_segment_def Let_def intro!: keeps_bnd registering)
  then show ?thesis
    unfolding build_mentions_def Let_def by (auto intro!: keeps_bnd split: pyval.split list.split)
qed

lemma quotes_keep: "keeps P (quotes_of env raw pl)"
proof -
  have "keeps P (quote_snapshot env p k mapped)" for p k mapped
    unfolding quote_snapshot_def quote_sender_def Let_def case_prod_beta
    by (auto intro!: keeps_bnd registering split: option.split)
  then have "keeps P (quote_snapshots env mapped qs)" for mapped qs
    by (induction qs) (auto simp: Let_def intro!: keeps_bnd keeps_catching)
  moreover have "keeps P (ensure_quoted_users env items)" for items
    unfolding ensure_quoted_users_def by (auto intro!: keeps_bnd registering)
  ultimately show ?thesis
    unfolding quotes_of_def multi_quotes_def by (auto intro!: keeps_bnd)
qed

lemma parts_keep: "keeps P (message_parts_of env raw sender pl pr t)"
proof -
  have "keeps P (reply_segments pl pr)"
    unfolding reply_segments_def by (auto intro!: keeps_bnd allocating_names split: option.split)
  then show ?thesis
    unfolding message_parts_of_def Let_def case_prod_beta
    by (intro keeps_bnd mentions_keep quotes_keep keeps_lift keeps_ret)
qed

lemma awaiting_keep: "keeps P (awaiting env sender r)"
  unfolding awaiting_def register_sender_def by (auto intro!: keeps_bnd keeps_catching registering split: sum.split)

lemma prepare_keep:
  assumes "raw_str_field raw ''rid'' \<noteq> []" "raw_str_field raw ''_id'' \<noteq> []" "named (pl_quotes pl)"
  shows "keeps P (prepare env raw sender pl)"
proof -
  have "keeps P (quoted_ids ks)" if "[] \<notin> set ks" for ks
    using that by (induction ks) (auto intro!: keeps_bnd allocating_names)
  moreover have "[] \<notin> snd ` set (pl_quotes pl)" using assms(3) by (auto simp: named_def list_all_iff)
  moreover have "keeps P (register_sender env sender)" unfolding register_sender_def by (rule registering)
  moreover have "keeps P (context_surrogate env t c r)" for t c r
    unfolding context_surrogate_def by (auto intro!: keeps_bnd allocating_names)
  ultimately show ?thesis
    unfolding prepare_def Let_def using assms(1,2) by (auto intro!: keeps_bnd allocating_names awaiting_keep)
qed

lemma persist_keep:
  assumes "py_strip (mp_source p) = mp_source p" "list_all (\<lambda>q. py_strip (snd q) = snd q) (pl_quotes pl)"
  shows "keeps P (persist env pl pr p snaps)"
proof -
  have "keeps P (persist_fallback env p q)" if "fst q \<in> snd ` set (pl_quotes pl)" for q
  proof -
    obtain k i node c used where q: "q = (k, i, node, c, used)" by (cases q)
    have k: "py_strip k = k" using that assms(2) by (auto simp: q list_all_iff)
    have "keeps P (bnd (lift_exn (fallback_entry env p k i node c)) (\<lambda>e. on_batch (batch_put_message e)))"
      by (rule keeps_bnd_returns [where Q = "\<lambda>e. op_ok (OpPut e)"])
         (use k fallback_entry_ok storing in \<open>auto intro!: returns_lift simp del: op_ok.simps\<close>)
    then show ?thesis by (simp add: q persist_fallback_def)
  qed
  then have "keeps P (for_each (zip (map snd (pl_quotes pl)) rest) (persist_fallback env p))" for rest
    by (intro keeps_for_each) (auto dest!: set_zip_leftD)
  then show ?thesis
    unfolding persist_def using stored_entry_ok [OF assms(1)] by (intro keeps_bnd storing)
qed

lemma body_keep:
  assumes "raw_str_field raw ''rid'' \<noteq> []" "raw_str_field raw ''_id'' \<noteq> []" "clean_ids env raw"
    and pl: "translation_plan env raw = Inr pl"
  shows "keeps P (translate_body env raw sender pl)"
proof -
  from assms(3) pl have c: "py_strip (raw_str_field raw ''_id'') = raw_str_field raw ''_id''"
    "list_all (\<lambda>q. py_strip (snd q) = snd q) (pl_quotes pl)" by (simp_all add: clean_ids_def)
  have src: "returns (message_parts_of env raw sender pl pr t) (\<lambda>r. mp_source (fst r) = raw_str_field raw ''_id'')" for pr t
    using message_parts_fields(1) by (fastforce simp: returns_def)
  have tail: "keeps P (bnd (message_parts_of env raw sender pl pr t) (\<lambda>(p, snapshots).
      if mp_segments p = [] then ret None else bnd (persist env pl pr p snapshots) (\<lambda>_. ret (Some (inbound_event env p)))))" for pr t
    using c by (intro keeps_bnd_returns [OF parts_keep src]) (auto intro!: keeps_bnd persist_keep)
  have rooms: "keeps P (bind_rooms env raw sender pr t)" for pr t
    unfolding bind_rooms_def Let_def using assms(1) by (auto intro!: binding split: option.split)
  show ?thesis
    unfolding translate_body_def
    by (rule keeps_bnd, rule prepare_keep [OF assms(1,2) plan_ids [OF pl]], rule keeps_bnd, rule keeps_lift,
        rule keeps_bnd, rule rooms, rule tail)
qed

text \<open>The whole translation: the state it leaves is a committed batch of a state with the property.\<close>

lemma translate_keep:
  assumes ids: "clean_ids env raw" and start: "P \<lparr>fl_batch = begin_batch (br_engine b), fl_users = br_users b\<rparr>"
    and run: "translate_inbound env raw b = (r, b')"
  shows "b' = b \<or> (\<exists>f. P f \<and> b' = b\<lparr>br_engine := mb_engine (snd (batch_commit (fl_batch f))), br_users := fl_users f\<rparr>)"
proof (rule disjCI)
  assume ne: "\<not> (\<exists>f. P f \<and> b' = b\<lparr>br_engine := mb_engine (snd (batch_commit (fl_batch f))), br_users := fl_users f\<rparr>)"
  show "b' = b"
  proof (rule ccontr)
    assume "b' \<noteq> b"
    with run obtain sender pl where n: "raw_str_field raw ''rid'' \<noteq> []" "raw_str_field raw ''_id'' \<noteq> []"
      and pl: "translation_plan env raw = Inr pl" and m: "in_batch (translate_body env raw sender pl) b = (r, b')"
      by (auto simp: translate_inbound_def ret_def raise_exn_def bnd_def lift_exn_def split: pyval.splits if_splits sum.splits)
    from keepsD [OF body_keep [OF n ids pl] start, of sender] m ne show False
      by (auto simp: in_batch_def split: prod.splits)
  qed
qed

end

section \<open>The two invariants\<close>

lemma keeps_on_batch: "keeps Q m \<Longrightarrow> keeps (\<lambda>f. Q (fl_batch f)) (on_batch m)"
  by (simp add: keeps_def on_batch_def case_prod_beta)

lemma batch_frame: "keeps (\<lambda>f. fl_batch f = x) (on_registry m)"
  by (simp add: keeps_def on_registry_def case_prod_beta)

lemma batch_frame_pred: "keeps (\<lambda>f. Q (fl_batch f)) (on_registry m)"
  by (simp add: keeps_def on_registry_def case_prod_beta)

interpretation recorded: inbound_invariant env "\<lambda>f. batch_ok s0 (fl_batch f)" for env s0
  by unfold_locales
    (auto simp: get_or_create_mapping_def ensure_user_mapping_def simp del: op_ok.simps
      intro!: keeps_bnd keeps_on_batch batch_frame_pred batch_allocate_keeps batch_private_keeps batch_context_keeps batch_put_keeps)

text \<open>Every user of a list is registered and has a room.\<close>

definition rooms_known :: "string list \<Rightarrow> registry \<Rightarrow> engine \<Rightarrow> bool" where
  "rooms_known us g s \<longleftrightarrow> registry_ok g \<and> stripped_users (rg_db g) \<and>
     (\<forall>u \<in> set us. \<exists>r room. row_by_user (rg_db g) u = Some r \<and>
        map_of (eng_private_surrogate s) (str_int (ur_onebot r)) = Some room \<and> room \<noteq> [])"

lemma opened_ok_rooms: "opened_ok b \<longleftrightarrow> asked_once (br_asked b) \<and> rooms_known (opened_rooms b) (br_users b) (br_engine b)"
  by (auto simp: opened_ok_def rooms_known_def)

lemma put_private: "keeps (\<lambda>s. eng_private_surrogate s = x) (put_normalized e)"
proof -
  have "keeps (\<lambda>s. rest_of s = r) (put_normalized e)" for r
  proof (cases "map_of e ''source_id''")
    case (Some v)
    show ?thesis
      unfolding put_normalized_def Some option.case Let_def
      by (intro keeps_bnd remove_message_entry_rest index_latest_rest keeps_modify) (simp add: rest_of_def)
  qed (simp add: put_normalized_def)
  note rest = this
  show ?thesis
  proof (rule keepsI)
    fix s :: engine assume "eng_private_surrogate s = x"
    with rest_ofD(7) [OF keepsD [OF rest refl, of s]] show "eng_private_surrogate (snd (put_normalized e s)) = x" by simp
  qed
qed

lemma keeps_rooms:
  assumes "\<And>x. keeps (\<lambda>b. eng_private_surrogate (mb_engine b) = x) m"
  shows "keeps (\<lambda>f. rooms_known us (fl_users f) (mb_engine (fl_batch f))) (on_batch m)"
proof (rule keepsI)
  fix f :: inflight assume "rooms_known us (fl_users f) (mb_engine (fl_batch f))"
  with keepsD [OF assms [of "eng_private_surrogate (mb_engine (fl_batch f))"], OF refl]
  show "rooms_known us (fl_users (snd (on_batch m f))) (mb_engine (fl_batch (snd (on_batch m f))))"
    by (simp add: on_batch_def rooms_known_def case_prod_beta)
qed

lemma keeps_rooms_users:
  assumes "\<And>g. registry_ok g \<Longrightarrow> stripped_users (rg_db g) \<Longrightarrow>
    registry_ok (snd (m g)) \<and> stripped_users (rg_db (snd (m g))) \<and>
    (\<forall>u r. row_by_user (rg_db g) u = Some r \<longrightarrow>
      (\<exists>r'. row_by_user (rg_db (snd (m g))) u = Some r' \<and> ur_onebot r' = ur_onebot r))"
  shows "keeps (\<lambda>f. rooms_known us (fl_users f) (mb_engine (fl_batch f))) (on_registry m)"
proof (rule keepsI)
  fix f :: inflight assume "rooms_known us (fl_users f) (mb_engine (fl_batch f))"
  with assms [of "fl_users f"]
  show "rooms_known us (fl_users (snd (on_registry m f))) (mb_engine (fl_batch (snd (on_registry m f))))"
    by (fastforce simp: on_registry_def rooms_known_def case_prod_beta)
qed

lemma on_engine_private:
  "keeps (\<lambda>s. eng_private_surrogate s = x) m \<Longrightarrow> keeps (\<lambda>b. eng_private_surrogate (mb_engine b) = x) (on_engine m)"
  by (auto simp: keeps_def on_engine_def case_prod_beta)

lemma add_mutation_private: "keeps (\<lambda>b. eng_private_surrogate (mb_engine b) = x) (add_mutation r)"
  unfolding add_mutation_def by (rule keeps_modify) simp

lemma batch_private:
  "keeps (\<lambda>b. eng_private_surrogate (mb_engine b) = x) (batch_get_or_create ns k)"
  "keeps (\<lambda>b. eng_private_surrogate (mb_engine b) = x) (batch_put_message e)"
  "keeps (\<lambda>b. eng_private_surrogate (mb_engine b) = x) (batch_bind_context a)"
  unfolding batch_get_or_create_def batch_put_message_def batch_bind_context_def case_prod_beta
  by (intro keeps_bnd keeps_when keeps_lift keeps_ret on_engine_private add_mutation_private
      allocate_locked_private put_private bind_locked_private)+

lemma ensure_many_rows:
  assumes g: "registry_ok g" "stripped_users (rg_db g)" and e: "ensure_mappings_sync now items b g = (res, h)"
  shows "registry_ok h" "stripped_users (rg_db h)"
    "row_by_user (rg_db g) u = Some r \<Longrightarrow> \<exists>r'. row_by_user (rg_db h) u = Some r' \<and> ur_onebot r' = ur_onebot r"
proof -
  note f = ensure_mappings_ok [OF g(1) e]
  show "registry_ok h" using f by simp
  show "row_by_user (rg_db g) u = Some r \<Longrightarrow> \<exists>r'. row_by_user (rg_db h) u = Some r' \<and> ur_onebot r' = ur_onebot r"
    using f by (cases res) auto
  have keys: "py_strip v = v" if "v \<in> fst ` set (List.map_filter normalized_item items)" for v
    using that by (auto simp: List.map_filter_def normalized_item_def str_field_def Let_def split: if_splits)
  show "stripped_users (rg_db h)"
    unfolding stripped_users_def
  proof (intro allI impI)
    fix v r assume r: "row_by_user (rg_db h) v = Some r"
    show "py_strip v = v"
    proof (cases "v \<in> fst ` set (List.map_filter normalized_item items)")
      case False
      with f g(2) r show ?thesis by (cases res) (auto simp: stripped_users_def)
    qed (rule keys)
  qed
qed

lemma ensure_rooms: "keeps (\<lambda>f. rooms_known us (fl_users f) (mb_engine (fl_batch f))) (ensure_user_mapping env u a c)"
proof -
  have "registry_ok (snd (ensure_mapping_sync now u p ov b g)) \<and> stripped_users (rg_db (snd (ensure_mapping_sync now u p ov b g))) \<and>
    (\<forall>w r. row_by_user (rg_db g) w = Some r \<longrightarrow>
      (\<exists>r'. row_by_user (rg_db (snd (ensure_mapping_sync now u p ov b g))) w = Some r' \<and> ur_onebot r' = ur_onebot r))"
    if g: "registry_ok g" "stripped_users (rg_db g)" for now p ov b g
  proof -
    obtain res h where e: "ensure_mapping_sync now u p ov b g = (res, h)" by (metis surj_pair)
    from ensure_facts(1,2) [OF g e] ensure_facts(3) [OF g e] show ?thesis by (simp add: e)
  qed
  then show ?thesis
    unfolding ensure_user_mapping_def by (intro keeps_bnd keeps_rooms_users keeps_ret) simp
qed

lemma bind_rooms_known:
  assumes "room \<noteq> []"
  shows "keeps (\<lambda>f. rooms_known us (fl_users f) (mb_engine (fl_batch f))) (on_batch (batch_bind_private u i room))"
proof (rule keepsI)
  fix f :: inflight assume "rooms_known us (fl_users f) (mb_engine (fl_batch f))"
  then have "rooms_known us (fl_users f) (s\<lparr>eng_private_surrogate := AList.update (str_int i) room
      (eng_private_surrogate (mb_engine (fl_batch f)))\<rparr>)" for s
    using assms unfolding rooms_known_def by (fastforce simp: update_conv)
  then show "rooms_known us (fl_users (snd (on_batch (batch_bind_private u i room) f)))
      (mb_engine (fl_batch (snd (on_batch (batch_bind_private u i room) f))))"
    by (simp add: on_batch_def batch_bind_private_def on_engine_def bind_private_without_record_def
        add_mutation_def bnd_def modify_def)
qed

interpretation rooms: inbound_invariant env "\<lambda>f. rooms_known us (fl_users f) (mb_engine (fl_batch f))" for env us
proof unfold_locales
  show "keeps (\<lambda>f. rooms_known us (fl_users f) (mb_engine (fl_batch f)))
      (on_registry (ensure_mappings_sync (cl_now env) items None))" for items
  proof (rule keeps_rooms_users)
    fix g assume "registry_ok g" "stripped_users (rg_db g)"
    from ensure_many_rows [OF this, of "cl_now env" items None]
    show "registry_ok (snd (ensure_mappings_sync (cl_now env) items None g)) \<and>
      stripped_users (rg_db (snd (ensure_mappings_sync (cl_now env) items None g))) \<and>
      (\<forall>u r. row_by_user (rg_db g) u = Some r \<longrightarrow>
        (\<exists>r'. row_by_user (rg_db (snd (ensure_mappings_sync (cl_now env) items None g))) u = Some r' \<and> ur_onebot r' = ur_onebot r))"
      by (metis surj_pair snd_conv)
  qed
qed (simp_all add: get_or_create_mapping_def ensure_rooms bind_rooms_known keeps_rooms batch_private)

section \<open>The whole translation\<close>

lemma durable_same: "all_ok s \<Longrightarrow> durable s s"
  by (auto simp: durable_def option.map_ident intro!: exI [of _ "[]"] tracks_Nil)

lemma begin_batch_ok: "all_ok s \<Longrightarrow> batch_ok s (begin_batch s)"
  by (simp add: batch_ok_def begin_batch_def tracks_Nil)

lemma inbound_durable:
  assumes "all_ok (br_engine b)" "clean_ids env raw" "translate_inbound env raw b = (r, b')"
  shows "durable (br_engine b) (br_engine b')"
proof -
  have start: "batch_ok (br_engine b) (fl_batch \<lparr>fl_batch = begin_batch (br_engine b), fl_users = br_users b\<rparr>)"
    using assms(1) by (simp add: begin_batch_ok)
  from recorded.translate_keep [OF assms(2) start assms(3)] show ?thesis
    using durable_same [OF assms(1)] commit_durable by auto
qed

lemma commit_private: "eng_private_surrogate (mb_engine (snd (batch_commit b))) = eng_private_surrogate (mb_engine b)"
  by (simp add: batch_commit_def on_engine_def bnd_def modify_def eng_record_def)

lemma inbound_opened:
  assumes "opened_ok b" "clean_ids env raw" "translate_inbound env raw b = (r, b')"
  shows "opened_ok b'"
proof -
  have start: "rooms_known (opened_rooms b) (fl_users \<lparr>fl_batch = begin_batch (br_engine b), fl_users = br_users b\<rparr>)
      (mb_engine (fl_batch \<lparr>fl_batch = begin_batch (br_engine b), fl_users = br_users b\<rparr>))"
    using assms(1) by (simp add: opened_ok_rooms begin_batch_def)
  from rooms.translate_keep [OF assms(2) start assms(3)] show ?thesis
    using assms(1) by (auto simp: opened_ok_rooms rooms_known_def commit_private)
qed

section \<open>Requests of the running bridge\<close>

definition journaled :: "engine \<Rightarrow> engine \<Rightarrow> bool" where
  \<comment> \<open>from the first engine to the second by what the journal got\<close>
  "journaled s t \<longleftrightarrow> all_ok t \<and>
     (\<exists>recs. eng_journal t = map_option (\<lambda>j. j @ recs) (eng_journal s) \<and> tracks s recs t)"

lemma journaled_refl: "all_ok s \<Longrightarrow> journaled s s"
  by (auto simp: journaled_def option.map_ident intro!: exI [of _ "[]"] tracks_Nil)

lemma journaled_trans: "journaled s t \<Longrightarrow> journaled t u \<Longrightarrow> journaled s u"
  by (force simp: journaled_def option.map_comp comp_def intro: tracks_append)

lemma durable_journaled: "durable s t \<Longrightarrow> journaled s t"
  by (auto simp: durable_def journaled_def)

lemma journaled_ok: "journaled s t \<Longrightarrow> all_ok t"
  by (simp add: journaled_def)

lemma logged_journaled: "journaled s0 s \<Longrightarrow> logged m s \<Longrightarrow> journaled s0 (snd (m s))"
  by (rule journaled_trans) (auto simp: logged_def journaled_def)

lemma stores_journaled:
  assumes "\<And>s. all_ok s \<Longrightarrow> journaled s (snd (m s))"
  shows "keeps (\<lambda>b. journaled s0 (br_engine b)) (on_stores m)"
proof (rule keepsI)
  fix b :: bridge assume b: "journaled s0 (br_engine b)"
  from journaled_trans [OF b assms [OF journaled_ok [OF b]]]
  show "journaled s0 (br_engine (snd (on_stores m b)))" by (simp add: on_stores_def case_prod_beta)
qed

lemma logged_self: "all_ok s \<Longrightarrow> logged m s \<Longrightarrow> journaled s (snd (m s))"
  by (rule logged_journaled [OF journaled_refl])

lemma users_journaled: "keeps (\<lambda>b. journaled s0 (br_engine b)) (on_users m)"
  by (simp add: keeps_def on_users_def case_prod_beta)

lemma context_journaled: "keeps (\<lambda>b. journaled s0 (br_engine b)) (context_bind a)"
  unfolding context_bind_def
proof (rule stores_journaled)
  fix s assume ok: "all_ok s"
  show "journaled s (snd (bind_context_room a s))"
  proof (cases "context_entry a")
    case (Inl x)
    with journaled_refl [OF ok] show ?thesis by (simp add: bind_context_room_def bnd_def lift_exn_def)
  next
    case (Inr e)
    with logged_self [OF ok logged_context [OF ok, of a]] show ?thesis by simp
  qed
qed

lemma private_journaled: "keeps (\<lambda>b. journaled s0 (br_engine b)) (private_bind u i room)"
  unfolding private_bind_def by (rule stores_journaled) (use logged_self logged_private in fastforce)

lemma snd_discard: "snd (bnd m (\<lambda>_. ret x) s) = snd (m s)"
  by (simp add: bnd_def ret_def case_prod_beta split: sum.split)

lemma create_journaled:
  assumes "k \<noteq> []"
  shows "keeps (\<lambda>b. journaled s0 (br_engine b)) (map_get_or_create now (ns_name n) k)"
proof -
  have "journaled s (snd (allocate_mapping (ns_name n) k s))" if ok: "all_ok s" for s
    using logged_self [OF ok logged_alloc [OF ok assms, of n]] by (simp add: snd_discard)
  then show ?thesis
    unfolding map_get_or_create_def case_prod_beta ensure_user_def
    by (auto intro!: keeps_bnd stores_journaled users_journaled)
qed

lemmas room_journaled = create_journaled [of _ _ _ NsRoom, simplified ns_name.simps]

lemma source_journaled: "keeps (\<lambda>b. journaled s0 (br_engine b)) (map_get_source ns v)"
  unfolding map_get_source_def by (auto intro!: keeps_bnd users_journaled)

lemma resolve_private_journaled: "keeps (\<lambda>b. journaled s0 (br_engine b)) (resolve_private_room cl u)"
proof -
  have "keeps (\<lambda>b. journaled s0 (br_engine b)) (open_direct_room cl v)" for v
    by (simp add: keeps_def open_direct_room_def split: sum.split)
  moreover have "keeps (\<lambda>b. journaled s0 (br_engine b)) (map_get_or_create now ''user'' v)" for now v
    unfolding map_get_or_create_def ensure_user_def by (auto intro!: keeps_bnd users_journaled)
  ultimately show ?thesis
    unfolding resolve_private_room_def private_room_by_surrogate_def
    by (auto intro!: keeps_bnd source_journaled private_journaled)
qed

interpretation journal: outbound_invariant cl user "\<lambda>b. journaled s0 (br_engine b)" for cl user s0
  by unfold_locales (auto intro: source_journaled room_journaled context_journaled resolve_private_journaled)

text \<open>The requests that reach the translators, in any order.\<close>

datatype bridge_request =
    Receive inbound_env entry
  | Hydrate inbound_env pyval
  | Send client pyval pyval "int option" "entry option" bool

fun run_request :: "bridge_request \<Rightarrow> bridge \<Rightarrow> bridge" where
  "run_request (Receive env raw) b = snd (translate_inbound env raw b)"
| "run_request (Hydrate env v) b = snd (hydrate env v b)"
| "run_request (Send cl message gid user fixed required) b =
     snd (translate_outbound cl message gid (opt_int user) fixed required b)"

definition run_requests :: "bridge_request list \<Rightarrow> bridge \<Rightarrow> bridge" where
  "run_requests rs b = fold run_request rs b"

text \<open>What the requests may assume of the server: ids without spaces, rooms with a name.\<close>

fun request_ok :: "bridge_request \<Rightarrow> bool" where
  "request_ok (Receive env raw) = clean_ids env raw"
| "request_ok (Hydrate env v) = (\<forall>k raw. ie_fetch env k = Inr raw \<longrightarrow> clean_ids env raw)"
| "request_ok (Send cl message gid user fixed required) = (\<forall>u r. cl_direct_room cl u = Inr r \<longrightarrow> r \<noteq> [])"

lemma run_requests_simps [simp]:
  "run_requests [] b = b" "run_requests (r # rs) b = run_requests rs (run_request r b)"
  by (simp_all add: run_requests_def)

lemma run_requests_invariant:
  "(\<And>r b. P b \<Longrightarrow> request_ok r \<Longrightarrow> P (run_request r b)) \<Longrightarrow> P b \<Longrightarrow> list_all request_ok rs \<Longrightarrow> P (run_requests rs b)"
  by (induction rs arbitrary: b) auto

lemma hydrate_keeps:
  assumes inbound: "\<And>raw. clean_ids env raw \<Longrightarrow> keeps P (translate_inbound env raw)"
    and source: "keeps P (map_get_source ''message'' v)"
    and fetch: "\<forall>k raw. ie_fetch env k = Inr raw \<longrightarrow> clean_ids env raw"
  shows "keeps P (hydrate env v)"
proof -
  have "keeps P (bnd (lift_exn (ie_fetch env k)) (\<lambda>raw. if raw = [] then ret x else translate_inbound env raw))" for k x
    by (rule keeps_bnd_returns [where Q = "clean_ids env"]) (use fetch in \<open>auto intro!: returns_lift inbound\<close>)
  then show ?thesis
    unfolding hydrate_def Let_def message_by_surrogate_def case_prod_beta
    by (auto intro!: keeps_bnd source)
qed

lemma request_journaled: "journaled s0 (br_engine b) \<Longrightarrow> request_ok r \<Longrightarrow> journaled s0 (br_engine (run_request r b))"
proof -
  assume b: "journaled s0 (br_engine b)" and ok: "request_ok r"
  have inbound: "keeps (\<lambda>b. journaled s0 (br_engine b)) (translate_inbound env raw)" if "clean_ids env raw" for env raw
  proof (rule keepsI)
    fix c :: bridge assume c: "journaled s0 (br_engine c)"
    obtain x c' where run: "translate_inbound env raw c = (x, c')" by (metis surj_pair)
    from journaled_trans [OF c durable_journaled [OF inbound_durable [OF journaled_ok [OF c] that run]]] run
    show "journaled s0 (br_engine (snd (translate_inbound env raw c)))" by simp
  qed
  show ?thesis
  proof (cases r)
    case (Hydrate env v)
    with ok keepsD [OF hydrate_keeps [OF inbound source_journaled] b] show ?thesis by simp
  next
    case (Send cl message gid user fixed required)
    with keepsD [OF journal.translate_keep b] show ?thesis by simp
  qed (use keepsD [OF inbound b] ok in simp)
qed

lemma request_opened: "opened_ok b \<Longrightarrow> request_ok r \<Longrightarrow> opened_ok (run_request r b)"
proof -
  assume b: "opened_ok b" and ok: "request_ok r"
  have inbound: "keeps opened_ok (translate_inbound env raw)" if "clean_ids env raw" for env raw
    using inbound_opened [OF _ that] by (metis keepsI surj_pair snd_conv)
  show ?thesis
  proof (cases r)
    case (Hydrate env v)
    with ok keepsD [OF hydrate_keeps [OF inbound source_opened] b] show ?thesis by simp
  next
    case (Send cl message gid user fixed required)
    have "canonical_id (opt_int user)" by (simp add: opt_int_def split: option.split)
    with Send ok keepsD [OF translate_opened b] show ?thesis by simp
  qed (use keepsD [OF inbound b] ok in simp)
qed

end
