(* ===== verification/Bridge_Properties.thy ===== *)
theory Bridge_Properties
  imports Batch_Proofs Engine_Properties
begin

text \<open>
  Properties of the two translators over the shared stores, with a small server as the
  environment of the witnesses.
\<close>

section \<open>An example\<close>

definition sample_row :: user_row where
  "sample_row = \<lparr>ur_user_id = ''u1'', ur_username = ''al'', ur_nickname = ''Al'', ur_onebot = 10000000007,
     ur_primary = 10000000007, ur_offset = 0, ur_manual = False, ur_is_bot = False, ur_synthetic = False,
     ur_first_seen = 0, ur_last_seen = 0, ur_revision = 1\<rparr>"

definition sample_users :: registry where
  "sample_users = \<lparr>rg_db = \<lparr>db_users = [sample_row], db_bot_users = [((''bot'', ''u1''), 0)], db_conflicts = [],
       db_last_conflict = 0\<rparr>,
     rg_cache = \<lparr>ic_by_user = [(''u1'', sample_row)], ic_by_onebot = [(10000000007, ''u1'')],
       ic_seen = [(''bot'', ''u1'')], ic_max = 4096\<rparr>,
     rg_bot_id = ''bot'', rg_has_warning_path = False, rg_warning = None\<rparr>"

definition sample_bridge :: bridge where
  "sample_bridge = \<lparr>br_engine = bind_writer (new_engine (PInt 100)), br_users = sample_users, br_asked = []\<rparr>"

definition sample_env :: inbound_env where
  "sample_env = \<lparr>cl_user_id = ''b1'', cl_bot_username = ''bot'', cl_username = ''bot'', cl_self_id = 1,
     cl_user_info = (\<lambda>_. Inr [(''username'', PStr ''al'')]),
     cl_room_info = (\<lambda>_. Inr [(''t'', PStr ''c''), (''name'', PStr ''general'')]),
     cl_direct_room = (\<lambda>u. if u = ''b1'' then Inl (RuntimeError ''self'') else Inr (''d'' @ u)), cl_now = 5,
     ie_net = \<lparr>ne_ip = (\<lambda>_. False), ne_idna = Some, ne_bracket = (\<lambda>_. False), ne_millis = (\<lambda>_. Inl TypeError), ne_token = ''t''\<rparr>,
     ie_labels = \<lparr>lb_room = ''[room '', lb_colon = '': '', lb_unknown = ''someone'', lb_history = ''[history'',
       lb_follows = '';'', lb_no_text = ''[empty]'', lb_image = ''[image '', lb_audio = ''[audio '', lb_video = ''[video '',
       lb_file = ''[file '', lb_unreadable = ''[unreadable]'', lb_encrypted = ''[encrypted] '', lb_unsupported = ''[media '',
       lb_items = '' items]''\<rparr>,
     ie_server_url = ''https://chat'', ie_isolated = False, ie_early = False, ie_decode = (\<lambda>_. []),
     ie_fetch = (\<lambda>_. Inr []), ie_media = (\<lambda>_. Inr []), ie_publish = (\<lambda>_ _ _. Inr []), ie_prepare = (\<lambda>e. (True, e))\<rparr>"

definition sample_client :: client where
  "sample_client = \<lparr>cl_user_id = ''b1'', cl_bot_username = ''bot'', cl_username = ''bot'', cl_self_id = 1,
     cl_user_info = (\<lambda>_. Inr [(''username'', PStr ''al'')]),
     cl_room_info = (\<lambda>_. Inr [(''t'', PStr ''c''), (''name'', PStr ''general'')]),
     cl_direct_room = (\<lambda>u. Inr (''d'' @ u)), cl_now = 5\<rparr>"

definition sample_reply :: pyval where
  "sample_reply = PList [cq_segment ''reply'' [(''id'', PStr (str_int 3000000001))], text_segment ''hi @al'']"

definition sample_raw :: entry where
  "sample_raw = [(''_id'', PStr ''m1''), (''rid'', PStr ''r1''), (''tmid'', PStr ''t1''), (''msg'', PStr ''hello''),
     (''ts'', PDict [(''$date'', PInt 7000)]),
     (''u'', PDict [(''_id'', PStr ''u1''), (''username'', PStr ''al''), (''name'', PStr ''Al'')])]"

lemma sample_message:
  "\<exists>ev b'. translate_inbound sample_env sample_raw sample_bridge = (Inr (Some ev), b') \<and>
     dget ev ''message_id'' = PInt 3000000001 \<and> dget ev ''time'' = PInt 7 \<and> dget ev ''rocketchat_sender_name'' = PStr ''Al''"
proof -
  have "case translate_inbound sample_env sample_raw sample_bridge of
      (Inr (Some ev), b') \<Rightarrow> dget ev ''message_id'' = PInt 3000000001 \<and> dget ev ''time'' = PInt 7
        \<and> dget ev ''rocketchat_sender_name'' = PStr ''Al''
    | _ \<Rightarrow> False" by code_simp
  then show ?thesis by (auto split: prod.splits sum.splits option.splits)
qed

section \<open>From the message to the event and back\<close>

text \<open>C10. An event can be built again from the store: after a message was translated to an
  event, the stored message found under the event's OneBot id is turned into the same event,
  with every field equal; only the absent reply id is written as an empty string.\<close>

theorem rebuilt_event_matches:
  assumes run: "translate_inbound env raw b = (Inr (Some ev), b')"
    and labels: "lb_no_text (ie_labels env) \<noteq> []" and source: "py_strip (raw_str_field raw ''_id'') \<noteq> []"
    and fields: "dget ev ''message_id'' = PInt i" "i \<noteq> 0" "dget ev ''time'' \<noteq> PInt 0"
      "dget ev ''rocketchat_sender_name'' = PStr n"
  shows "\<exists>e. message_by_surrogate (PInt i) b' = (Inr (Some e), b') \<and>
    extract_cached_event env (Some e) = Inr (Some (as_rebuilt ev))"
proof -
  from translate_inbound_Some [OF run] obtain sender pl pr t f0 p snaps f1 f2 where
    n: "raw_str_field raw ''rid'' \<noteq> []" "raw_str_field sender ''_id'' \<noteq> []" and pl: "translation_plan env raw = Inr pl"
    and parts: "message_parts_of env raw sender pl pr t f0 = (Inr (p, snaps), f1)"
    and stored: "persist env pl pr p snaps f1 = (Inr (), f2)" and ev: "ev = inbound_event env p"
    and b': "eng_by_surrogate (br_engine b') = eng_by_surrogate (mb_engine (fl_batch f2))" by metis
  have m: "mp_message p = i" "mp_timestamp p \<noteq> 0" "mp_sender_name p = PStr n"
    using fields ev by (auto simp: event_reads)
  from persist_stored(2) [OF stored] m(1) fields(2) b'
  have "message_by_surrogate (PInt i) b' = (Inr (Some (stored_entry env p)), b')"
    by (simp add: message_by_surrogate_def gets_def eng_message_by_surrogate_def)
  moreover from translated_rebuildable [OF parts pl n(2,1) labels source m(2,3)]
  have "rebuild_cached_event env (stored_entry env p) = Inr (Some (as_rebuilt ev))"
    using rebuild_stored ev by simp
  moreover have "dget (stored_entry env p) ''onebot_message'' = PNone"
    by (simp add: stored_entry_def Let_def dget_def)
  ultimately show ?thesis by (auto simp: extract_cached_event_def)
qed

theorem rebuilt_event_matches_witness:
  "\<exists>ev b' e. translate_inbound sample_env sample_raw sample_bridge = (Inr (Some ev), b') \<and>
     message_by_surrogate (PInt 3000000001) b' = (Inr (Some e), b') \<and>
     extract_cached_event sample_env (Some e) = Inr (Some (as_rebuilt ev))"
proof -
  from sample_message obtain ev b' where ev: "translate_inbound sample_env sample_raw sample_bridge = (Inr (Some ev), b')"
    "dget ev ''message_id'' = PInt 3000000001" "dget ev ''time'' = PInt 7" "dget ev ''rocketchat_sender_name'' = PStr ''Al''"
    by blast
  have "lb_no_text (ie_labels sample_env) \<noteq> []" "py_strip (raw_str_field sample_raw ''_id'') \<noteq> []" by code_simp+
  from rebuilt_event_matches [OF ev(1) this ev(2) _ _ ev(4)] ev(3) have "\<exists>e. message_by_surrogate (PInt 3000000001) b' = (Inr (Some e), b')
      \<and> extract_cached_event sample_env (Some e) = Inr (Some (as_rebuilt ev))" by simp
  with ev(1) show ?thesis by blast
qed

text \<open>C9. Replies go home: take any later state in which the store still holds the message of an event as
  it was received (it was neither evicted from the message window nor replaced). A message whose
  first reply segment, wherever it stands, names the event's OneBot id, as a number or a text,
  goes to the room of the Rocket.Chat message the event was made from, whatever group the action
  names, and refers to that message. If the message was in a thread the reply goes to that
  thread. If it was in none, the reply goes to the thread opened by that very message when this
  is the thread of the named group's context, and to no thread otherwise.\<close>

theorem replies_go_home:
  assumes received: "translate_inbound env raw b = (Inr (Some ev), b')" "dget ev ''message_id'' = PInt i" "i \<noteq> 0"
    and kept: "fst (message_by_surrogate (PInt i) c) = fst (message_by_surrogate (PInt i) b')"
      "fst (message_by_source (raw_str_field raw ''_id'') c) = fst (message_by_source (raw_str_field raw ''_id'') b')"
    and reply: "data \<noteq> []" "dget data ''id'' \<in> {PInt i, PStr (str_int i)}"
      "\<forall>e \<in> set (List.map_filter as_dict before). segment_type e \<noteq> ''reply''"
    and sent: "translate_outbound cl (PList (before @ cq_segment ''reply'' data # rest)) gid user None required c = (Inr out, c')"
    and gid: "gid \<noteq> PNone"
  shows "ob_reply out = Some (raw_str_field raw ''_id'') \<and> ob_room out = raw_str_field raw ''rid'' \<and>
    ob_thread out = (if str_field raw ''tmid'' \<noteq> [] then Some (str_field raw ''tmid'')
      else if context_thread c gid = raw_str_field raw ''_id'' then Some (raw_str_field raw ''_id'') else None)"
proof -
  from translate_inbound_Some [OF received(1)] obtain sender pl pr t f0 p snaps f1 f2 where
    n: "raw_str_field raw ''rid'' \<noteq> []" "raw_str_field raw ''_id'' \<noteq> []"
    and parts: "message_parts_of env raw sender pl pr t f0 = (Inr (p, snaps), f1)"
    and stored: "persist env pl pr p snaps f1 = (Inr (), f2)" and ev: "ev = inbound_event env p"
    and b': "eng_by_source (br_engine b') = eng_by_source (mb_engine (fl_batch f2))"
      "eng_by_surrogate (br_engine b') = eng_by_surrogate (mb_engine (fl_batch f2))" by metis
  note f = message_parts_fields [OF parts]
  have m: "mp_message p = i" using received(2) ev by (simp add: event_reads)
  note st = persist_stored [OF stored, unfolded m, OF received(3)]
  have e: "dget (stored_entry env p) ''source_id'' = PStr (raw_str_field raw ''_id'')"
    "dget (stored_entry env p) ''room_source_id'' = PStr (raw_str_field raw ''rid'')"
    "str_field (stored_entry env p) ''thread_source_id'' = str_field raw ''tmid''"
    using f(1,2,3) by (simp_all add: stored_reads str_field_def py_or_def)
  have k: "py_str (dget data ''id'') = str_int i" using reply(2) by auto
  have c: "map_of (eng_by_surrogate (br_engine c)) (str_int i) = Some (stored_entry env p)"
    "map_of (eng_by_source (br_engine c)) (raw_str_field raw ''_id'') = Some (stored_entry env p)"
    using kept st b' f(1) by (simp_all add: message_by_surrogate_def message_by_source_def gets_def
        eng_message_by_surrogate_def eng_message_by_source_def)
  from reply_destination [OF sent reply(3,1) _ c(2) e(1) n(2) e(2) n(1) gid] c(1) k e(3) show ?thesis by simp
qed

definition sample_other :: entry where
  \<comment> \<open>a message that arrives between the message and the reply to it\<close>
  "sample_other = [(''_id'', PStr ''m2''), (''rid'', PStr ''r2''), (''msg'', PStr ''elsewhere''),
     (''ts'', PDict [(''$date'', PInt 8000)]),
     (''u'', PDict [(''_id'', PStr ''u1''), (''username'', PStr ''al''), (''name'', PStr ''Al'')])]"

theorem replies_go_home_witness:
  "\<exists>ev b' c out c'. translate_inbound sample_env sample_raw sample_bridge = (Inr (Some ev), b') \<and>
     c = snd (translate_inbound sample_env sample_other b') \<and>
     translate_outbound sample_client (PList [text_segment ''well, '', cq_segment ''reply'' [(''id'', PInt 3000000001)]])
       (PInt 7) PNone None True c = (Inr out, c') \<and>
     ob_reply out = Some ''m1'' \<and> ob_room out = ''r1'' \<and> ob_thread out = Some ''t1''"
proof -
  let ?send = "translate_outbound sample_client (PList [text_segment ''well, '', cq_segment ''reply'' [(''id'', PInt 3000000001)]])
       (PInt 7) PNone None True"
  from sample_message obtain ev b' where ev: "translate_inbound sample_env sample_raw sample_bridge = (Inr (Some ev), b')"
    "dget ev ''message_id'' = PInt 3000000001" by blast
  let ?c = "snd (translate_inbound sample_env sample_other b')"
  have "case translate_inbound sample_env sample_raw sample_bridge of
      (Inr (Some ev), b') \<Rightarrow> (let c = snd (translate_inbound sample_env sample_other b') in
        fst (message_by_surrogate (PInt 3000000001) c) = fst (message_by_surrogate (PInt 3000000001) b') \<and>
        fst (message_by_source ''m1'' c) = fst (message_by_source ''m1'' b') \<and>
        \<not> Option.is_none (case ?send c of (Inr out, _) \<Rightarrow> Some out | _ \<Rightarrow> None))
    | _ \<Rightarrow> False" by code_simp
  with ev(1) obtain out c' where kept: "fst (message_by_surrogate (PInt 3000000001) ?c) = fst (message_by_surrogate (PInt 3000000001) b')"
      "fst (message_by_source ''m1'' ?c) = fst (message_by_source ''m1'' b')"
    and out: "?send ?c = (Inr out, c')"
    by (auto simp: Let_def split: prod.splits sum.splits)
  have r: "raw_str_field sample_raw ''_id'' = ''m1''" "raw_str_field sample_raw ''rid'' = ''r1''"
    "str_field sample_raw ''tmid'' = ''t1''"
    "\<forall>e \<in> set (List.map_filter as_dict [text_segment ''well, '']). segment_type e \<noteq> ''reply''" by code_simp+
  have "ob_reply out = Some (raw_str_field sample_raw ''_id'') \<and> ob_room out = raw_str_field sample_raw ''rid'' \<and>
    ob_thread out = (if str_field sample_raw ''tmid'' \<noteq> [] then Some (str_field sample_raw ''tmid'')
      else if context_thread ?c (PInt 7) = raw_str_field sample_raw ''_id'' then Some (raw_str_field sample_raw ''_id'') else None)"
    by (rule replies_go_home [OF ev(1,2) _ kept(1) _ _ _ r(4), of "[(''id'', PInt 3000000001)]" sample_client "[]" _ PNone True out c'])
      (use out kept(2) r(1) in \<open>simp_all add: dget_def\<close>)
  with r have "ob_reply out = Some ''m1'' \<and> ob_room out = ''r1'' \<and> ob_thread out = Some ''t1''" by simp
  with ev(1) out show ?thesis by blast
qed

text \<open>What is sent is in normal form: only texts that are not blank and media segments, each
  mentioned user once and by a stripped name. Sending the segments again to a fixed room changes
  neither them nor the state.\<close>

theorem sent_segments_normal:
  assumes "translate_outbound cl message gid user fixed required b = (Inr out, b')"
  shows "list_all sendable (ob_segments out) \<and> distinct (ob_mentions out) \<and>
    list_all (\<lambda>u. u \<noteq> [] \<and> py_strip u = u) (ob_mentions out) \<and>
    (str_field d ''room_id'' \<noteq> [] \<longrightarrow>
      (\<exists>out2. translate_outbound cl2 (PList (ob_segments out)) gid2 user2 (Some d) required2 c = (Inr out2, c)
         \<and> ob_segments out2 = ob_segments out \<and> ob_reply out2 = None \<and> ob_room out2 = str_field d ''room_id''))"
proof -
  from translate_parts [OF assms] obtain a b1 where
    loop: "segments_loop cl required (normalize_segments message) \<lparr>oa_segments = [], oa_reply = None, oa_mentions = []\<rparr> b = (Inr a, b1)"
    and segs: "ob_segments out = oa_segments a" and mentions: "ob_mentions out = dedupe [] (oa_mentions a)" by blast
  have ok: "list_all sendable (ob_segments out)"
    unfolding segs by (rule returnsD [OF segments_loop_sendable loop]) simp
  from segments_loop_again [OF ok, of cl2 required2 "\<lparr>oa_segments = [], oa_reply = None, oa_mentions = []\<rparr>" c]
  obtain a2 where "segments_loop cl2 required2 (List.map_filter as_dict (ob_segments out))
      \<lparr>oa_segments = [], oa_reply = None, oa_mentions = []\<rparr> c = (Inr a2, c)" "oa_segments a2 = ob_segments out" "oa_reply a2 = None"
    by auto
  then have "\<exists>out2. translate_outbound cl2 (PList (ob_segments out)) gid2 user2 (Some d) required2 c = (Inr out2, c)
         \<and> ob_segments out2 = ob_segments out \<and> ob_reply out2 = None \<and> ob_room out2 = str_field d ''room_id''"
    if "str_field d ''room_id'' \<noteq> []"
    using that by (simp add: translate_outbound_def normalize_segments_def destination_def bnd_def ret_def Let_def)
  with ok dedupe_spec [of "[]" "oa_mentions a"] mentions show ?thesis by (auto simp: list_all_iff)
qed

theorem sent_segments_normal_witness:
  "\<exists>out b' out2. translate_outbound sample_client (PStr ''hi @al'') PNone PNone (Some [(''room_id'', PStr ''r2'')]) False sample_bridge
       = (Inr out, b') \<and> ob_mentions out = [''al''] \<and>
     translate_outbound sample_client (PList (ob_segments out)) PNone PNone (Some [(''room_id'', PStr ''r1'')]) False sample_bridge
       = (Inr out2, sample_bridge) \<and> ob_segments out2 = ob_segments out"
proof -
  have "case translate_outbound sample_client (PStr ''hi @al'') PNone PNone (Some [(''room_id'', PStr ''r2'')]) False sample_bridge
      of (Inr out, _) \<Rightarrow> ob_mentions out = [''al''] | _ \<Rightarrow> False" by code_simp
  then obtain out b' where out: "translate_outbound sample_client (PStr ''hi @al'') PNone PNone (Some [(''room_id'', PStr ''r2'')])
      False sample_bridge = (Inr out, b')" "ob_mentions out = [''al'']" by (auto split: prod.splits sum.splits)
  have "str_field [(''room_id'', PStr ''r1'')] ''room_id'' \<noteq> []" by code_simp
  with sent_segments_normal [OF out(1), of "[(''room_id'', PStr ''r1'')]" sample_client PNone PNone False sample_bridge] out
  show ?thesis by auto
qed

text \<open>An encrypted file that is not an image, a sound or a video never reaches the OneBot
  side: its descriptor is turned into a text that names the file, and the list of segments
  leaves out every segment without a file or an address.\<close>

theorem encrypted_files_are_dropped:
  assumes kind: "raw_str_field media ''kind'' \<notin> {''image'', ''audio'', ''video''}" and path: "str_field media ''path'' \<noteq> []"
    and published: "ie_publish env (str_field media ''path'') (raw_str_field media ''name'') (raw_str_field media ''content_type'') = Inr u"
      "u \<noteq> []"
  shows "\<exists>media' x. media_segment env media = Inr (media', [(''type'', PStr ''text''),
        (''data'', PDict [(''text'', PStr (lb_encrypted (ie_labels env) @ x))])]) \<and>
    media_segments env [media] = Inr ([media'], [])"
proof -
  have t: "truthy (dget media ''path'')"
    using path by (auto simp: str_field_def py_or_def split: if_splits)
  then have ref: "py_str (py_or (py_or (dget media ''path'') (dget media ''url'')) (PStr [])) \<noteq> []"
    by (simp add: py_or_def py_str_truthy)
  let ?m = "AList.update ''url'' (PStr u) media"
  have same: "raw_str_field ?m k = raw_str_field media k" "dget ?m k = dget media k" if "k \<noteq> ''url''" for k
    using that by (simp_all add: raw_str_field_def dget_def update_conv)
  have r: "resolve_file_ref env media = Inr (?m, u)"
    using ref path published by (simp add: resolve_file_ref_def Let_def)
  have seg: "build_segment env ?m u = [(''type'', PStr ''text''),
      (''data'', PDict [(''text'', PStr (lb_encrypted (ie_labels env) @ py_str (py_or (dget media ''name'') (PStr ''attachment''))))])]"
    using kind t published(2) by (simp add: build_segment_def same Let_def)
  then have "media_segments env [media] = Inr ([?m], [])"
    by (simp add: media_segments_def media_segment_def r segment_key_def dget_def py_or_def Let_def)
  with r seg show ?thesis by (simp add: media_segment_def)
qed

theorem encrypted_files_are_dropped_witness:
  "\<exists>media' x. media_segment (sample_env\<lparr>ie_publish := \<lambda>_ _ _. Inr ''u''\<rparr>)
       [(''kind'', PStr ''file''), (''path'', PStr ''p''), (''name'', PStr ''n'')]
     = Inr (media', [(''type'', PStr ''text''), (''data'', PDict [(''text'', PStr (''[encrypted] '' @ x))])]) \<and>
   media_segments (sample_env\<lparr>ie_publish := \<lambda>_ _ _. Inr ''u''\<rparr>)
       [[(''kind'', PStr ''file''), (''path'', PStr ''p''), (''name'', PStr ''n'')]] = Inr ([media'], [])"
proof -
  let ?m = "[(''kind'', PStr ''file''), (''path'', PStr ''p''), (''name'', PStr ''n'')]"
  let ?env = "sample_env\<lparr>ie_publish := \<lambda>_ _ _. Inr ''u''\<rparr>"
  have k: "raw_str_field ?m ''kind'' \<notin> {''image'', ''audio'', ''video''}" "str_field ?m ''path'' \<noteq> []" by code_simp+
  have "lb_encrypted (ie_labels ?env) = ''[encrypted] ''" by (simp add: sample_env_def)
  with encrypted_files_are_dropped [OF k, of ?env "''u''"] show ?thesis by simp
qed

text \<open>A link to a message whose host has an opening bracket only makes the translation fail:
  the error of the URL parser reaches the caller, the message is not delivered and nothing is stored.\<close>

theorem bracket_in_link_is_fatal:
  assumes "m \<noteq> []" "r \<noteq> []" "u \<noteq> []"
  shows "\<exists>x. translate_inbound env [(''_id'', PStr m), (''rid'', PStr r), (''msg'', PStr ''https://[a?msg=1''),
      (''u'', PDict [(''_id'', PStr u)])] b = (Inl (ValueError x), b)"
proof -
  let ?raw = "[(''_id'', PStr m), (''rid'', PStr r), (''msg'', PStr ''https://[a?msg=1''), (''u'', PDict [(''_id'', PStr u)])]"
  have "infix_of ''msg='' ''https://[a?msg=1''" "url_scheme (clean_url ''https://[a?msg=1'') = (''https'', ''//[a?msg=1'')" by code_simp+
  then have link: "message_id_of_url env ''https://[a?msg=1'' = Inl (ValueError ''url'')"
    by (simp add: message_id_of_url_def url_query_def url_parse_def)
  have scan: "quote_scan ''https://[a?msg=1'' = ([], [''https://[a?msg=1''])" by code_simp
  have parts: "infix_of ''msg='' ''https://[a?msg=1''" "py_lower [] \<noteq> ''done''" by code_simp+
  have "attachments_of ?raw = []" "dicts_of (dget ?raw ''urls'') = []" "raw_str_field ?raw ''msg'' = ''https://[a?msg=1''"
    "raw_str_field ?raw ''e2e'' = []"
    by (simp_all add: attachments_of_def dicts_of_def raw_str_field_def dget_def py_or_def)
  with link scan parts have "translation_plan env ?raw = Inl (ValueError ''url'')"
    by (simp add: translation_plan_def e2ee_prefix_def may_have_quote_contexts_def reply_source_id_def Let_def)
  moreover have "py_or (dget_or ?raw ''u'' (PDict [])) (PDict []) = PDict [(''_id'', PStr u)]"
    "raw_str_field ?raw ''rid'' \<noteq> []" "raw_str_field [(''_id'', PStr u)] ''_id'' \<noteq> []" "raw_str_field ?raw ''_id'' \<noteq> []"
    using assms by (simp_all add: dget_or_def py_or_def raw_str_field_def dget_def)
  ultimately show ?thesis by (simp add: translate_inbound_def bnd_def lift_exn_def)
qed

theorem bracket_in_link_is_fatal_witness:
  "\<exists>x. translate_inbound sample_env [(''_id'', PStr ''m1''), (''rid'', PStr ''r1''), (''msg'', PStr ''https://[a?msg=1''),
      (''u'', PDict [(''_id'', PStr ''u1'')])] sample_bridge = (Inl (ValueError x), sample_bridge)"
  by (rule bracket_in_link_is_fatal) simp_all

section \<open>Durability\<close>

text \<open>C8. A translation is one step of the journal: whatever a received message brings about, and
  also when a step raised half way, the journal gets at most one record, and replaying it takes
  an engine like the one before to one like the one after, which satisfies the invariants.\<close>

theorem translation_is_one_record:
  assumes "all_ok (br_engine b)" "clean_ids env raw" "translate_inbound env raw b = (r, b')"
    and journal: "eng_journal (br_engine b) = Some j" and same: "core s = core (br_engine b)"
  shows "\<exists>recs t. length recs \<le> 1 \<and> eng_journal (br_engine b') = Some (j @ recs) \<and>
    replay_records recs s = (Inr (), t) \<and> core t = core (br_engine b') \<and> all_ok (br_engine b')"
  using inbound_durable [OF assms(1-3)] journal same unfolding durable_def tracks_def by auto

lemma sample_engine_ok: "all_ok (br_engine sample_bridge)" "eng_journal (br_engine sample_bridge) = Some []"
  using new_engine_ok [of 100] by (simp_all add: sample_bridge_def bind_writer_def)

lemma sample_clean: "clean_ids sample_env sample_raw"
  by code_simp

theorem translation_is_one_record_witness:
  "\<exists>r b' recs t. translate_inbound sample_env sample_raw sample_bridge = (r, b') \<and> length recs \<le> 1 \<and>
     replay_records recs (br_engine sample_bridge) = (Inr (), t) \<and> core t = core (br_engine b')"
proof -
  obtain r b' where "translate_inbound sample_env sample_raw sample_bridge = (r, b')" by (metis surj_pair)
  with translation_is_one_record [OF sample_engine_ok(1) sample_clean this sample_engine_ok(2) refl] show ?thesis by metis
qed

text \<open>Nothing the bridge did is lost: after any sequence of received messages, messages looked up
  again and sent messages, in which requests may raise, replaying what the journal got on an
  engine like the first one gives one like the last, and the invariants hold.\<close>

theorem requests_are_recovered:
  assumes "all_ok (br_engine b)" "eng_journal (br_engine b) = Some j" "list_all request_ok rs" "core s = core (br_engine b)"
  shows "\<exists>recs t. eng_journal (br_engine (run_requests rs b)) = Some (j @ recs) \<and>
    replay_records recs s = (Inr (), t) \<and> core t = core (br_engine (run_requests rs b)) \<and>
    all_ok (br_engine (run_requests rs b))"
proof -
  have "journaled (br_engine b) (br_engine (run_requests rs b))"
    by (rule run_requests_invariant [where P = "\<lambda>c. journaled (br_engine b) (br_engine c)", OF request_journaled])
      (use assms journaled_refl in simp_all)
  with assms(2,4) show ?thesis unfolding journaled_def tracks_def by auto
qed

definition sample_requests :: "bridge_request list" where
  "sample_requests = [Receive sample_env sample_raw, Send sample_client sample_reply (PInt 7) None None True,
     Send sample_client (PStr ''hello'') PNone (Some 10000000007) None False,
     Send sample_client (PStr ''again'') PNone (Some 10000000007) None False]"

lemma sample_requests_ok: "list_all request_ok sample_requests"
  using sample_clean by (simp add: sample_requests_def) (simp add: sample_client_def)

theorem requests_are_recovered_witness:
  "\<exists>recs t. eng_journal (br_engine (run_requests sample_requests sample_bridge)) = Some recs \<and>
     replay_records recs (br_engine sample_bridge) = (Inr (), t) \<and>
     core t = core (br_engine (run_requests sample_requests sample_bridge))"
  using requests_are_recovered [OF sample_engine_ok sample_requests_ok refl] by auto

section \<open>Direct rooms\<close>

text \<open>Over any sequence of requests the server is not asked again for the direct room of a user once
  it named it. Afterwards the room is known for the OneBot id of that user.\<close>

theorem request_rooms_opened_once:
  assumes "registry_ok (br_users b)" "stripped_users (rg_db (br_users b))" "br_asked b = []" "list_all request_ok rs"
  shows "asked_once (br_asked (run_requests rs b)) \<and>
    (\<forall>u \<in> set (opened_rooms (run_requests rs b)). \<exists>r room.
       row_by_user (rg_db (br_users (run_requests rs b))) u = Some r \<and> room \<noteq> [] \<and>
       private_room_by_surrogate (PInt (ur_onebot r)) (run_requests rs b) = (Inr (Some room), run_requests rs b))"
proof -
  have "opened_ok (run_requests rs b)"
    by (rule run_requests_invariant [where P = opened_ok, OF request_opened])
      (use assms in \<open>simp_all add: opened_ok_def opened_rooms_def\<close>)
  then show ?thesis
    by (fastforce simp: opened_ok_def private_room_by_surrogate_def gets_def eng_room_by_user_surrogate_def)
qed

lemma sample_users_ok: "registry_ok (br_users sample_bridge)" "stripped_users (rg_db (br_users sample_bridge))"
proof -
  have "py_strip ''u1'' = ''u1''" by code_simp
  then show "registry_ok (br_users sample_bridge)" "stripped_users (rg_db (br_users sample_bridge))"
    by (simp_all add: sample_bridge_def sample_users_def sample_row_def registry_ok_def cache_ok_def paired_def
        exact_but_def db_ok_def stripped_users_def row_by_user_def row_ok_def user_ids_def user_id_bounds in_range_def)
qed

theorem request_rooms_opened_once_witness:
  "br_asked (run_requests sample_requests sample_bridge) = [(''u1'', True)] \<and> asked_once (br_asked (run_requests sample_requests sample_bridge))"
proof
  show "br_asked (run_requests sample_requests sample_bridge) = [(''u1'', True)]" by code_simp
  have "br_asked sample_bridge = []" by (simp add: sample_bridge_def)
  from request_rooms_opened_once [OF sample_users_ok this sample_requests_ok]
  show "asked_once (br_asked (run_requests sample_requests sample_bridge))" by blast
qed

section \<open>Quotes\<close>



end
