(* ===== verification/Message_Sending.thy ===== *)
theory Message_Sending
  imports Inbound_Translator Cq_Codec
begin

text \<open>
  The part of \<open>RocketChatClient\<close> (\<open>bridge/rocketchat_client.py\<close>) that turns the segments of a
  translated message into requests to the server, and the record of the bot's own messages
  that come back over the websocket.

  \<^item> \<open>office\<close> is the state behind it: the bridge, everything that was handed to the server so far
    (\<open>of_sent\<close>), the recent own messages and the progress of a merged forward.
  \<^item> \<open>desk\<close> is what the code relies on: the environment of the inbound translator, the answers of
    the server, which may depend on everything sent before, the encryption module, the download
    of remote media, and which own messages arrive while one is awaited. The uploads of
    \<open>bridge/media.py\<close> are requests too. A request that is cancelled raises \<open>cancelled_error\<close>.
  \<^item> No thread, no quote and no mention are the empty string. Deleting temporary files, counters
    and logging are left out; error texts are labels. The zero width space that
    \<open>_normalize_outbound_text\<close> removes is not a character of a model string.
\<close>

section \<open>State and environment\<close>

datatype job =
    Post string entry \<comment> \<open>REST endpoint and payload\<close>
  | Image_url string string string string bool
  | Image_file string string string string
  | Upload_file string string string string
  | Media_link string string string string bool

record progress =
  pg_thread_mode :: bool
  pg_phase :: string
  pg_item :: nat
  pg_total :: nat
  pg_sent :: nat
  pg_last :: "int option"
  pg_header :: "string option"
  pg_header_id :: "int option"

record breaker =
  bk_timeouts :: int
  bk_open_until :: rat
  bk_probing :: bool

record office =
  of_bridge :: bridge
  of_sent :: "job list"
  of_recent :: "(string \<times> (rat \<times> entry) list) list"
  of_progress :: "progress option"
  of_timeout :: "progress option"
  of_seen :: "(string \<times> string) list" \<comment> \<open>signatures of the messages that came in\<close>
  of_breakers :: "(string \<times> breaker) list"
  of_emitted :: "entry list" \<comment> \<open>events handed to the transports\<close>

datatype plugin_outcome = Answered pyval | Timed_out_at rat | Failed exn

text \<open>An enabled plugin during one message: its clock reading and what it does.\<close>

record plugin_call =
  pc_id :: string
  pc_wants :: "entry \<Rightarrow> entry \<Rightarrow> exn + bool"
  pc_now :: rat
  pc_run :: "entry \<Rightarrow> entry \<Rightarrow> plugin_outcome"

record desk =
  dk_env :: inbound_env
  dk_server :: "job list \<Rightarrow> job \<Rightarrow> exn + pyval"
  dk_threads :: "job list \<Rightarrow> exn + entry"
  dk_ready :: "entry \<Rightarrow> exn + bool" \<comment> \<open>\<open>e2ee.should_encrypt_room\<close>\<close>
  dk_encrypted :: "string \<Rightarrow> string \<Rightarrow> pyval list \<Rightarrow> string \<Rightarrow> entry option \<Rightarrow> exn + entry"
    \<comment> \<open>\<open>e2ee.build_send_message\<close>; no message is the empty dictionary\<close>
  dk_download :: "string \<Rightarrow> string \<Rightarrow> exn + string" \<comment> \<open>no file is the empty string\<close>
  dk_decoded :: "string \<Rightarrow> string \<Rightarrow> exn + string"
  dk_room_types :: "(string \<times> string) list"
  dk_room_names :: "(string \<times> string) list"
  dk_arriving :: "job list \<Rightarrow> string \<Rightarrow> entry list" \<comment> \<open>own messages within the two seconds\<close>
  dk_members :: "string \<Rightarrow> exn + entry list"
  dk_plugin :: "string \<Rightarrow> entry \<Rightarrow> exn + entry option"
  dk_threaded :: bool \<comment> \<open>\<open>forward_messages_to_thread\<close>\<close>
  dk_plugins :: "entry \<Rightarrow> plugin_call list"
  dk_decrypted :: "entry \<Rightarrow> exn + entry option"
  dk_digest :: "pyval \<Rightarrow> string" \<comment> \<open>\<open>_stable_hash_json\<close>\<close>
  dk_hash :: "string \<Rightarrow> int"
  dk_skip_own :: bool

definition dk_client :: "desk \<Rightarrow> client" where
  "dk_client d = client.truncate (dk_env d)"

definition cancelled_error :: exn where
  "cancelled_error = OtherError ''CancelledError'' []"

definition on_bridge :: "(bridge, 'a) action \<Rightarrow> (office, 'a) action" where
  "on_bridge m s = (case m (of_bridge s) of (r, b) \<Rightarrow> (r, s\<lparr>of_bridge := b\<rparr>))"

definition ask :: "desk \<Rightarrow> job \<Rightarrow> (office, pyval) action" where
  "ask d j s = (dk_server d (of_sent s) j, s\<lparr>of_sent := of_sent s @ [j]\<rparr>)"

section \<open>Messages and mentions\<close>

definition py_lstrip_at :: "string \<Rightarrow> string" where
  \<comment> \<open>\<open>str(name or "").strip().lstrip("@")\<close>\<close>
  "py_lstrip_at name = dropWhile (\<lambda>c. c = CHR ''@'') (py_strip name)"

definition in_names :: "pyval \<Rightarrow> string list \<Rightarrow> exn + bool" where
  \<comment> \<open>\<open>v in {...}\<close>, where lists and dictionaries cannot be hashed\<close>
  "in_names v ns = (case v of PList _ \<Rightarrow> Inl TypeError | PDict _ \<Rightarrow> Inl TypeError | _ \<Rightarrow> Inr (v \<in> set (map PStr ns)))"

definition encrypted_private :: "entry \<Rightarrow> bool" where
  "encrypted_private info \<longleftrightarrow> truthy (dget info ''encrypted'') \<and> dget info ''t'' = PStr ''p''"

fun fresh_mentions :: "string list \<Rightarrow> string list \<Rightarrow> string list" where
  "fresh_mentions seen [] = []"
| "fresh_mentions seen (u # us) =
     (let n = py_lstrip_at u in
      if n = [] \<or> n = ''all'' \<or> n \<in> set seen then fresh_mentions seen us
      else (''@'' @ n) # fresh_mentions (n # seen) us)"

definition build_e2ee_mentions :: "desk \<Rightarrow> string \<Rightarrow> string list \<Rightarrow> string \<Rightarrow> exn + entry option" where
  "build_e2ee_mentions d room mentions reply_name =
     sbind (cl_room_info (dk_env d) room) (\<lambda>info.
       let ms = fresh_mentions [] (reply_name # mentions) in
       Inr (if \<not> encrypted_private info \<or> ms = [] then None
            else Some [(''e2eUserMentions'', PList (map PStr ms)), (''e2eChannelMentions'', PList [])]))"

definition explicit_reply_mention :: "desk \<Rightarrow> string \<Rightarrow> string \<Rightarrow> exn + string" where
  "explicit_reply_mention d room name =
     sbind (cl_room_info (dk_env d) room) (\<lambda>info.
       let n = py_lstrip_at name; own = cl_bot_username (dk_env d);
           bot = py_lstrip_at (if own \<noteq> [] then own else cl_username (dk_env d))
       in Inr (if name = [] \<or> \<not> encrypted_private info \<or> n = [] \<or> n = bot then [] else ''@'' @ n))"

definition strip_leading_mention :: "string \<Rightarrow> string \<Rightarrow> string" where
  "strip_leading_mention s name =
     (let n = py_lstrip_at name; stripped = py_lstrip s; prefix = ''@'' @ n in
      if n = [] \<or> \<not> startswith stripped prefix then s else py_lstrip (drop (length prefix) stripped))"

definition with_mention :: "string \<Rightarrow> string \<Rightarrow> string \<Rightarrow> string" where
  \<comment> \<open>the text behind the explicit mention, if there is one\<close>
  "with_mention mention name s =
     (if mention = [] then s else py_strip (mention @ '' '' @ strip_leading_mention s name))"

definition message_link :: "desk \<Rightarrow> string \<Rightarrow> string \<Rightarrow> string" where
  "message_link d room source =
     (let t = (case map_of (dk_room_types d) room of None \<Rightarrow> ''c'' | Some x \<Rightarrow> x);
          name = (case map_of (dk_room_names d) room of None \<Rightarrow> room | Some x \<Rightarrow> x);
          path = (if t = ''c'' then ''channel/'' @ name else if t = ''p'' then ''group/'' @ name else ''direct/'' @ room)
      in ie_server_url (dk_env d) @ ''/'' @ path @ ''?msg='' @ source)"

section \<open>One message\<close>

definition post_json :: "desk \<Rightarrow> string \<Rightarrow> entry \<Rightarrow> (office, entry) action" where
  \<comment> \<open>\<open>_post_json_message\<close>; a refused message is the empty dictionary\<close>
  "post_json d endpoint payload = bnd (ask d (Post endpoint payload)) (\<lambda>v. case v of
     PDict data \<Rightarrow> ret (if truthy (dget data ''success'') then data else [])
   | _ \<Rightarrow> raise_exn attribute_error)"

definition given :: "string \<Rightarrow> pyval \<Rightarrow> entry" where
  \<comment> \<open>a field that is set only when there is a value\<close>
  "given k v = (if truthy v then [(k, v)] else [])"

definition plain_payload :: "string \<Rightarrow> string \<Rightarrow> pyval list \<Rightarrow> string \<Rightarrow> bool \<Rightarrow> string \<times> entry" where
  "plain_payload room s attachments tmid thread_mode =
     (let extra = given ''attachments'' (PList attachments) @ given ''tmid'' (PStr tmid) in
      if thread_mode
      then (''chat.sendMessage'', [(''message'', PDict ([(''rid'', PStr room), (''msg'', PStr s)] @ extra))])
      else (''chat.postMessage'', [(''roomId'', PStr room), (''text'', PStr s)] @ extra))"

definition room_is_e2ee :: "entry \<Rightarrow> exn + bool" where
  "room_is_e2ee info =
     (if truthy (dget info ''encrypted'') then in_names (dget info ''t'') [''d'', ''p''] else Inr False)"

definition message_request :: "desk \<Rightarrow> string \<Rightarrow> string \<Rightarrow> pyval list \<Rightarrow> string \<Rightarrow> entry option \<Rightarrow> bool \<Rightarrow>
    exn + (string \<times> entry) option" where
  \<comment> \<open>endpoint and payload, unless the message cannot be encrypted\<close>
  "message_request d room s attachments tmid mentions thread_mode =
     sbind (cl_room_info (dk_env d) room) (\<lambda>info.
     sbind (room_is_e2ee info) (\<lambda>secret.
       if \<not> secret then Inr (Some (plain_payload room s attachments tmid thread_mode))
       else sbind (dk_ready d info) (\<lambda>ready.
         if \<not> ready then Inr None
         else sbind (dk_encrypted d room s attachments tmid mentions) (\<lambda>payload.
           Inr (if payload = [] then None else Some (''chat.sendMessage'', payload))))))"

definition send_structured :: "desk \<Rightarrow> string \<Rightarrow> string \<Rightarrow> pyval list \<Rightarrow> string \<Rightarrow> entry option \<Rightarrow> bool \<Rightarrow>
    (office, pyval) action" where
  "send_structured d room s attachments tmid mentions thread_mode =
     bnd (lift_exn (message_request d room s attachments tmid mentions thread_mode)) (\<lambda>req. case req of
       None \<Rightarrow> ret PNone
     | Some (endpoint, payload) \<Rightarrow> bnd (post_json d endpoint payload) (\<lambda>data.
         ret (if data = [] then PNone else py_or (dget data ''message'') (PDict data))))"

definition send_text :: "desk \<Rightarrow> string \<Rightarrow> string \<Rightarrow> string \<Rightarrow> string list \<Rightarrow> string \<Rightarrow> bool \<Rightarrow> (office, pyval) action" where
  "send_text d room s tmid mentions reply_name thread_mode =
     (if s = [] then raise_exn (ValueError ''send_text'')
      else bnd (lift_exn (explicit_reply_mention d room reply_name)) (\<lambda>m.
           bnd (lift_exn (build_e2ee_mentions d room mentions reply_name)) (\<lambda>e.
             send_structured d room (with_mention m reply_name s) [] tmid e thread_mode)))"

definition quote_text_line :: "string \<Rightarrow> string \<Rightarrow> string" where
  "quote_text_line link line = (if line = [] then ''[ ]('' @ link @ '')'' else ''[ ]('' @ link @ '')'' @ [CHR 0x0A] @ line)"

definition send_with_quote :: "desk \<Rightarrow> string \<Rightarrow> string \<Rightarrow> string \<Rightarrow> string \<Rightarrow> string list \<Rightarrow> string \<Rightarrow> bool \<Rightarrow>
    (office, pyval) action" where
  "send_with_quote d room s quoted tmid mentions reply_name thread_mode =
     bnd (lift_exn (explicit_reply_mention d room reply_name)) (\<lambda>m.
     bnd (lift_exn (build_e2ee_mentions d room mentions reply_name)) (\<lambda>e.
       send_structured d room (quote_text_line (message_link d room quoted) (with_mention m reply_name s)) []
         tmid e thread_mode))"

section \<open>Media\<close>

definition is_http :: "string \<Rightarrow> bool" where
  "is_http s \<longleftrightarrow> startswith s ''http://'' \<or> startswith s ''https://''"

definition uploadable_path :: "desk \<Rightarrow> string \<Rightarrow> string \<Rightarrow> exn + string" where
  "uploadable_path d ref suffix =
     (if is_http ref then dk_download d ref suffix
      else if startswith ref ''base64://'' then dk_decoded d ref suffix
      else Inr (py_replace ''file://'' [] (py_replace ''file:///'' [] ref)))"

definition base_name :: "string \<Rightarrow> string" where
  "base_name s = last (split_on CHR ''/'' s)"

definition params_schemes :: "string list" where
  \<comment> \<open>\<open>urllib.parse.uses_params\<close>\<close>
  "params_schemes = [[], ''ftp'', ''hdl'', ''prospero'', ''http'', ''imap'', ''https'', ''shttp'', ''rtsp'', ''rtspu'',
     ''sip'', ''sips'', ''mms'', ''sftp'', ''tel'']"

definition url_base_name :: "net_env \<Rightarrow> string \<Rightarrow> exn + string" where
  \<comment> \<open>\<open>os.path.basename(urlparse(u).path)\<close>\<close>
  "url_base_name env u =
     sbind (url_parse env u) (\<lambda>(scheme, _).
       (let rest = snd (url_scheme (clean_url u));
            path = takeWhile (\<lambda>c. c \<notin> set ''?#'')
              (if take 2 rest = ''//'' then dropWhile (\<lambda>c. c \<notin> set ''/?#'') (drop 2 rest) else rest);
            name = base_name path
        in Inr (if scheme \<in> set params_schemes then takeWhile (\<lambda>c. c \<noteq> CHR '';'') name else name)))"

definition guess_filename :: "desk \<Rightarrow> string \<Rightarrow> string \<Rightarrow> string \<Rightarrow> exn + string" where
  "guess_filename d ref local_path fallback =
     (if startswith ref ''base64://'' then Inr fallback
      else sbind (url_base_name (ie_net (dk_env d)) ref) (\<lambda>name.
        Inr (if name \<noteq> [] then name else if base_name local_path \<noteq> [] then base_name local_path else fallback)))"

definition default_name :: "string \<Rightarrow> string" where
  "default_name t = (if t = ''record'' then ''record.ogg'' else if t = ''video'' then ''video.mp4'' else ''attachment'')"

definition default_suffix :: "string \<Rightarrow> string" where
  "default_suffix t = (if t = ''record'' then ''.ogg'' else if t = ''video'' then ''.mp4'' else ''.bin'')"

definition media_request :: "desk \<Rightarrow> string \<Rightarrow> string \<Rightarrow> entry \<Rightarrow> string \<Rightarrow> string \<Rightarrow> bool \<Rightarrow> exn + job option" where
  "media_request d room t data tmid description thread_mode =
     (let ref = py_str (py_or (py_or (dget data ''file'') (dget data ''url'')) (PStr [])) in
      if ref = [] then Inr None
      else if t = ''image'' then
        (if is_http ref then Inr (Some (Image_url room ref description tmid thread_mode))
         else sbind (uploadable_path d ref ''.png'') (\<lambda>path.
           Inr (if path = [] then None else Some (Image_file room path description tmid))))
      else sbind (uploadable_path d ref (default_suffix t)) (\<lambda>path.
        if path = [] then Inr (if is_http ref then Some (Media_link room ref t tmid thread_mode) else None)
        else sbind (guess_filename d ref path (py_str (py_or (py_or (dget data ''file_name'') (dget data ''name''))
                      (PStr (default_name t))))) (\<lambda>name.
          Inr (Some (Upload_file room path name tmid)))))"

definition send_media :: "desk \<Rightarrow> string \<Rightarrow> string \<Rightarrow> entry \<Rightarrow> string \<Rightarrow> string \<Rightarrow> bool \<Rightarrow> (office, pyval) action" where
  "send_media d room t data tmid description thread_mode =
     bnd (lift_exn (media_request d room t data tmid description thread_mode)) (\<lambda>j.
       case j of None \<Rightarrow> ret PNone | Some j \<Rightarrow> ask d j)"

section \<open>Segments\<close>

record sending =
  sg_room :: string
  sg_thread :: string
  sg_strict :: bool
  sg_thread_mode :: bool
  sg_on_message :: "pyval \<Rightarrow> (office, unit) action"

record send_acc =
  sa_sent :: "pyval list"
  sa_texts :: "string list"
  sa_quote :: string
  sa_mentions :: "string list"
  sa_reply_mention :: string

definition record_sent :: "sending \<Rightarrow> pyval \<Rightarrow> send_acc \<Rightarrow> (office, send_acc) action" where
  "record_sent g raw a =
     (if \<not> truthy raw then (if sg_strict g then raise_exn (RuntimeError ''not sent'') else ret a)
      else bnd (sg_on_message g raw) (\<lambda>_. ret (a\<lparr>sa_sent := sa_sent a @ [raw]\<rparr>)))"

definition flush_text :: "desk \<Rightarrow> sending \<Rightarrow> bool \<Rightarrow> send_acc \<Rightarrow> (office, send_acc) action" where
  "flush_text d g force_quote a =
     (let s = py_strip (concat (sa_texts a)); a1 = a\<lparr>sa_texts := []\<rparr> in
      if s = [] \<and> \<not> (force_quote \<and> sa_quote a \<noteq> []) then ret a1
      else bnd (if sa_quote a \<noteq> []
                then send_with_quote d (sg_room g) s (sa_quote a) (sg_thread g) (sa_mentions a) (sa_reply_mention a) (sg_thread_mode g)
                else send_text d (sg_room g) s (sg_thread g) (sa_mentions a) (sa_reply_mention a) (sg_thread_mode g))
             (\<lambda>raw. record_sent g raw (a1\<lparr>sa_quote := [], sa_mentions := [], sa_reply_mention := []\<rparr>)))"

fun caption_parts :: "entry list \<Rightarrow> exn + string option" where
  "caption_parts [] = Inr (Some [])"
| "caption_parts (s # ss) =
     (if segment_type s \<noteq> ''text'' then Inr None
      else sbind (data_dict s) (\<lambda>x. sbind (caption_parts ss) (\<lambda>r.
        Inr (map_option (\<lambda>t. raw_str_field x ''text'' @ t) r))))"

definition trailing_caption :: "entry list \<Rightarrow> exn + (string \<times> bool)" where
  \<comment> \<open>\<open>_collect_trailing_text_caption\<close>: the caption and whether it took the segments\<close>
  "trailing_caption ss = sbind (caption_parts ss) (\<lambda>r.
     Inr (case r of None \<Rightarrow> ([], False) | Some t \<Rightarrow> (py_strip t, True)))"

primrec send_loop :: "desk \<Rightarrow> sending \<Rightarrow> entry list \<Rightarrow> send_acc \<Rightarrow> (office, send_acc) action" where
  "send_loop d g [] a = ret a"
| "send_loop d g (s # ss) a =
     (let t = segment_type s in
      if t = ''text''
      then bnd (lift_exn (data_dict s)) (\<lambda>x. send_loop d g ss (a\<lparr>sa_texts := sa_texts a @ [raw_str_field x ''text'']\<rparr>))
      else
        bnd (if sa_texts a \<noteq> [] then flush_text d g False a
             else if sa_quote a \<noteq> [] then flush_text d g True a else ret a) (\<lambda>a1.
        bnd (lift_exn (if t = ''image'' \<and> sa_quote a = [] \<and> sa_mentions a1 = [] \<and> sa_reply_mention a1 = []
                       then trailing_caption ss else Inr ([], False))) (\<lambda>(caption, taken).
        bnd (lift_exn (data_dict s)) (\<lambda>x.
        bnd (send_media d (sg_room g) t x (sg_thread g) caption (sg_thread_mode g)) (\<lambda>raw.
        bnd (record_sent g raw a1) (\<lambda>a2.
          if taken then ret a2 else send_loop d g ss a2))))))"

definition send_message_segments :: "desk \<Rightarrow> sending \<Rightarrow> entry list \<Rightarrow> string \<Rightarrow> string list \<Rightarrow> string \<Rightarrow>
    (office, pyval list) action" where
  "send_message_segments d g segments quoted mentions reply_name =
     bnd (send_loop d g segments \<lparr>sa_sent = [], sa_texts = [], sa_quote = quoted, sa_mentions = mentions,
            sa_reply_mention = py_strip reply_name\<rparr>) (\<lambda>a.
     bnd (flush_text d g (sa_quote a \<noteq> []) a) (\<lambda>a. ret (sa_sent a)))"

definition are_threads_enabled :: "desk \<Rightarrow> (office, bool option) action" where
  "are_threads_enabled d =
     bnd (bnd (gets of_sent) (\<lambda>sent. lift_exn (dk_threads d sent))) (\<lambda>data.
       ret (if dget data ''success'' \<noteq> PBool True then None
            else case dget data ''settings'' of
              PList xs \<Rightarrow>
                (case List.find (\<lambda>e. dget e ''_id'' = PStr ''Threads_enabled'') (List.map_filter as_dict xs) of
                   None \<Rightarrow> None
                 | Some e \<Rightarrow> (case dget e ''value'' of PBool b \<Rightarrow> Some b | _ \<Rightarrow> None))
            | _ \<Rightarrow> None))"

section \<open>The bot's own messages\<close>

definition recent_only :: "rat \<Rightarrow> (rat \<times> entry) list \<Rightarrow> (rat \<times> entry) list" where
  "recent_only now = filter (\<lambda>(t, _). now - t \<le> 10)"

definition recent_of :: "string \<Rightarrow> office \<Rightarrow> (rat \<times> entry) list" where
  "recent_of room s = (case map_of (of_recent s) room of None \<Rightarrow> [] | Some b \<Rightarrow> b)"

definition remember_self :: "rat \<Rightarrow> entry \<Rightarrow> office \<Rightarrow> office" where
  "remember_self now raw s =
     (let room = raw_str_field raw ''rid'' in
      if room = [] then s
      else s\<lparr>of_recent := AList.update room (recent_only now (recent_of room s @ [(now, raw)])) (of_recent s)\<rparr>)"

definition pop_recent :: "rat \<Rightarrow> string \<Rightarrow> (office, entry option) action" where
  "pop_recent now room s =
     (case recent_only now (recent_of room s) of
        [] \<Rightarrow> (Inr None, s\<lparr>of_recent := (if recent_of room s = [] then of_recent s else AList.delete room (of_recent s))\<rparr>)
      | (t, raw) # rest \<Rightarrow> (Inr (Some raw),
          s\<lparr>of_recent := (if rest = [] then AList.delete room (of_recent s) else AList.update room rest (of_recent s))\<rparr>))"

definition await_echo :: "desk \<Rightarrow> string \<Rightarrow> (office, entry option) action" where
  \<comment> \<open>\<open>await_sent_message_echo\<close>: a remembered message, or the first that arrives in time; it is
    remembered as well\<close>
  "await_echo d room =
     bnd (pop_recent (cl_now (dk_env d)) room) (\<lambda>c. case c of
       Some raw \<Rightarrow> ret (Some raw)
     | None \<Rightarrow> bnd (gets (\<lambda>s. dk_arriving d (of_sent s) room)) (\<lambda>raws.
         bnd (modify (fold (remember_self (cl_now (dk_env d))) raws)) (\<lambda>_.
           ret (List.find (\<lambda>raw. raw_str_field raw ''rid'' = room) raws))))"

end
