(* ===== verification/Message_Intake.thy ===== *)
theory Message_Intake
  imports Message_Sending
begin

text \<open>
  A message that comes in over the websocket, up to the event that the transports get:
  \<open>_handle_incoming_message\<close> of \<open>bridge/rocketchat_client.py\<close> with the recognition of repeated
  updates, and \<open>_handle_rocketchat_message\<close> of \<open>bridge/runtime.py\<close> with the plugins, whose time-outs
  are counted by a circuit breaker each.

  \<^item> The cache of users, metrics, traces and logging are left out; decryption, hashing and what
    a plugin does are parameters of the \<open>desk\<close>. A plugin's clock readings come with its call.
  \<^item> Emitting an event is an entry of \<open>of_emitted\<close>. The worker that takes the messages from the
    queue survives every exception (\<open>arrive\<close>).
\<close>

section \<open>Repeated updates\<close>

definition signature_fields :: "string list" where
  "signature_fields = [''_id'', ''rid'', ''msg'', ''text'', ''tmid'', ''t'', ''groupable'', ''editedAt'', ''e2e'']"

definition digest_fields :: "string list" where
  "digest_fields = [''attachments'', ''files'', ''urls'', ''mentions'']"

definition signature_value :: "desk \<Rightarrow> string \<Rightarrow> pyval \<Rightarrow> string" where
  "signature_value d k v = (case v of
     PDict _ \<Rightarrow> dk_digest d v
   | PList _ \<Rightarrow> dk_digest d v
   | PStr s \<Rightarrow> if k \<in> {''msg'', ''text''} \<and> 64 < length s
       then str_int (int (length s)) @ '':'' @ str_int (dk_hash d s) else s
   | _ \<Rightarrow> py_str v)"

definition message_signature :: "desk \<Rightarrow> entry \<Rightarrow> string" where
  "message_signature d raw = intercalate [CHR 0x1F]
     (map (\<lambda>k. k @ ''='' @ signature_value d k (dget raw k)) (filter (\<lambda>k. dget raw k \<noteq> PNone) signature_fields)
      @ map (\<lambda>k. k @ ''='' @ dk_digest d (dget raw k)) (filter (\<lambda>k. truthy (dget raw k)) digest_fields))"

definition max_seen :: nat where
  "max_seen = 5000"

definition remember_signature :: "string \<Rightarrow> string \<Rightarrow> (string \<times> string) list \<Rightarrow> (string \<times> string) list" where
  "remember_signature k v seen =
     (let seen' = AList.update k v seen in if max_seen < length seen' then tl seen' else seen')"

definition should_emit :: "desk \<Rightarrow> entry \<Rightarrow> (office, bool) action" where
  "should_emit d raw s =
     (let k = str_field raw ''_id''; v = message_signature d raw in
      if k = [] then (Inr True, s)
      else (Inr (map_of (of_seen s) k \<noteq> Some v), s\<lparr>of_seen := remember_signature k v (of_seen s)\<rparr>))"

section \<open>Plugins\<close>

definition closed_breaker :: breaker where
  "closed_breaker = \<lparr>bk_timeouts = 0, bk_open_until = 0, bk_probing = False\<rparr>"

definition breaker_of :: "string \<Rightarrow> office \<Rightarrow> breaker" where
  "breaker_of k s = (case map_of (of_breakers s) k of None \<Rightarrow> closed_breaker | Some b \<Rightarrow> b)"

definition set_breaker :: "string \<Rightarrow> breaker \<Rightarrow> office \<Rightarrow> office" where
  "set_breaker k b s = s\<lparr>of_breakers := AList.update k b (of_breakers s)\<rparr>"

definition breaker_enter :: "rat \<Rightarrow> breaker \<Rightarrow> breaker option" where
  \<comment> \<open>\<open>None\<close> when the plugin is skipped\<close>
  "breaker_enter now b =
     (if now < bk_open_until b then None
      else if bk_open_until b = 0 then Some b
      else if bk_probing b then None else Some (b\<lparr>bk_probing := True\<rparr>))"

definition breaker_timeout :: "rat \<Rightarrow> breaker \<Rightarrow> breaker" where
  "breaker_timeout now b =
     (let n = bk_timeouts b + 1 in
      b\<lparr>bk_probing := False, bk_timeouts := n, bk_open_until := (if 3 \<le> n then now + 60 else bk_open_until b)\<rparr>)"

definition call_plugin :: "plugin_call \<Rightarrow> entry \<Rightarrow> entry \<Rightarrow> (office, bool) action" where
  \<comment> \<open>whether the plugin keeps the message to itself\<close>
  "call_plugin p event raw s =
     (let b = breaker_of (pc_id p) s in
      case breaker_enter (pc_now p) b of
        None \<Rightarrow> (Inr False, set_breaker (pc_id p) b s)
      | Some b \<Rightarrow> (case pc_run p event raw of
          Timed_out_at t \<Rightarrow> (Inr False, set_breaker (pc_id p) (breaker_timeout t b) s)
        | Failed e \<Rightarrow> if e = cancelled_error then (Inl e, set_breaker (pc_id p) b s)
                       else (Inr False, set_breaker (pc_id p) closed_breaker s)
        | Answered v \<Rightarrow> (Inr (v = PBool False), set_breaker (pc_id p) closed_breaker s)))"

primrec dispatch_plugins :: "entry \<Rightarrow> entry \<Rightarrow> plugin_call list \<Rightarrow> (office, bool) action" where
  "dispatch_plugins event raw [] = ret False"
| "dispatch_plugins event raw (p # ps) =
     bnd (lift_exn (pc_wants p event raw)) (\<lambda>wants.
       if \<not> wants then dispatch_plugins event raw ps
       else bnd (call_plugin p event raw) (\<lambda>taken.
         if taken then ret True else dispatch_plugins event raw ps))"

section \<open>From the message to the event\<close>

definition except_exception :: "('s, 'a) action \<Rightarrow> (exn \<Rightarrow> ('s, 'a) action) \<Rightarrow> ('s, 'a) action" where
  \<comment> \<open>\<open>except Exception\<close>, which a cancellation passes\<close>
  "except_exception m handler s = (case m s of
     (Inl e, t) \<Rightarrow> if e = cancelled_error then (Inl e, t) else handler e t
   | (Inr x, t) \<Rightarrow> (Inr x, t))"

lemma keeps_except: "keeps P m \<Longrightarrow> (\<And>e. keeps P (h e)) \<Longrightarrow> keeps P (except_exception m h)"
  by (fastforce simp: keeps_def except_exception_def split: prod.splits sum.splits)

definition emit_event :: "entry \<Rightarrow> (office, unit) action" where
  "emit_event event = modify (\<lambda>s. s\<lparr>of_emitted := of_emitted s @ [event]\<rparr>)"

definition handle_rocketchat_message :: "desk \<Rightarrow> entry \<Rightarrow> (office, unit) action" where
  "handle_rocketchat_message d raw =
     bnd (on_bridge (translate_inbound (dk_env d) raw)) (\<lambda>event. case event of
       None \<Rightarrow> ret ()
     | Some ev \<Rightarrow> bnd (except_exception (dispatch_plugins ev raw (dk_plugins d raw)) (\<lambda>_. ret False)) (\<lambda>taken.
         if taken then ret () else emit_event ev))"

definition deliver :: "desk \<Rightarrow> entry \<Rightarrow> (office, unit) action" where
  \<comment> \<open>\<open>_handle_incoming_message\<close> once the message is decrypted\<close>
  "deliver d raw =
     bnd (should_emit d raw) (\<lambda>new.
       if \<not> new then ret ()
       else case py_or (dget_or raw ''u'' (PDict [])) (PDict []) of
         PDict sender \<Rightarrow>
           (let own = (truthy (dget sender ''_id'') \<and> py_str (dget sender ''_id'') = cl_user_id (dk_env d)) in
            bnd (modify (\<lambda>s. if own then remember_self (cl_now (dk_env d)) raw s else s)) (\<lambda>_.
              if dk_skip_own d \<and> own then ret () else handle_rocketchat_message d raw))
       | _ \<Rightarrow> raise_exn attribute_error)"

definition handle_incoming :: "desk \<Rightarrow> entry \<Rightarrow> (office, unit) action" where
  "handle_incoming d raw =
     (let t = dget raw ''t'' in
      if truthy t \<and> t \<noteq> PStr ''e2e'' then ret ()
      else if t = PStr ''e2e'' then bnd (lift_exn (dk_decrypted d raw)) (\<lambda>r. case r of
        None \<Rightarrow> ret () | Some e \<Rightarrow> deliver d e)
      else deliver d raw)"

definition arrive :: "desk \<Rightarrow> entry \<Rightarrow> office \<Rightarrow> office" where
  "arrive d raw s = snd (handle_incoming d raw s)"

end
