(* ===== verification/Intake_Proofs.thy ===== *)
theory Intake_Proofs
  imports Message_Intake Batch_Proofs
begin

text \<open>
  The intake of messages: the memory of signatures is bounded and an update that repeats the last
  one changes nothing.
\<close>

lemma update_fresh: "map_of xs k = None \<Longrightarrow> AList.update k v xs = xs @ [(k, v)]"
  by (induction xs) auto

lemma update_length: "map_of xs k \<noteq> None \<Longrightarrow> length (AList.update k v xs) = length xs"
  by (induction xs) auto

lemma remember_signature_spec:
  assumes "length seen \<le> max_seen"
  shows "map_of (remember_signature k v seen) k = Some v" "length (remember_signature k v seen) \<le> max_seen"
proof -
  have "map_of (remember_signature k v seen) k = Some v \<and> length (remember_signature k v seen) \<le> max_seen"
  proof (cases "map_of seen k")
    case None
    then have u: "AList.update k v seen = seen @ [(k, v)]" by (rule update_fresh)
    show ?thesis
    proof (cases "length seen = max_seen")
      case True
      then obtain x xs where "seen = x # xs" by (cases seen) (auto simp: max_seen_def)
      with None True u show ?thesis
        by (auto simp: remember_signature_def Let_def map_add_def split: option.splits if_splits)
    next
      case False
      with u assms show ?thesis by (simp add: remember_signature_def Let_def None map_add_def)
    qed
  next
    case (Some w)
    with update_length [of seen k v] assms show ?thesis by (simp add: remember_signature_def Let_def update_conv)
  qed
  then show "map_of (remember_signature k v seen) k = Some v" "length (remember_signature k v seen) \<le> max_seen" by simp_all
qed

lemma remember_again:
  assumes "length seen \<le> max_seen"
  shows "remember_signature k v (remember_signature k v seen) = remember_signature k v seen"
  using remember_signature_spec [OF assms, of k v]
  by (simp add: remember_signature_def [of k v "remember_signature k v seen"] AList.update_triv)

lemma seen_frame: "keeps (\<lambda>s. of_seen s = x) (handle_rocketchat_message d raw)"
proof -
  have plugin: "keeps (\<lambda>s. of_seen s = x) (call_plugin p event raw)" for p event
    by (simp add: keeps_def call_plugin_def set_breaker_def Let_def split: option.split plugin_outcome.split)
  have plugins: "keeps (\<lambda>s. of_seen s = x) (dispatch_plugins event raw ps)" for event ps
    by (induction ps) (auto intro!: keeps_bnd plugin)
  have bridge: "keeps (\<lambda>s. of_seen s = x) (on_bridge m)" for m :: "(bridge, 'b) action"
    by (simp add: keeps_def on_bridge_def case_prod_beta)
  show ?thesis
    unfolding handle_rocketchat_message_def emit_event_def
    by (auto intro!: keeps_bnd keeps_modify bridge keeps_except plugins split: option.split)
qed

lemma deliver_seen:
  assumes "str_field raw ''_id'' \<noteq> []"
  shows "of_seen (snd (deliver d raw s)) = remember_signature (str_field raw ''_id'') (message_signature d raw) (of_seen s)"
proof -
  let ?x = "remember_signature (str_field raw ''_id'') (message_signature d raw) (of_seen s)"
  have "keeps (\<lambda>s. of_seen s = ?x) (case py_or (dget_or raw ''u'' (PDict [])) (PDict []) of
         PDict sender \<Rightarrow>
           (let own = (truthy (dget sender ''_id'') \<and> py_str (dget sender ''_id'') = cl_user_id (dk_env d)) in
            bnd (modify (\<lambda>s. if own then remember_self (cl_now (dk_env d)) raw s else s)) (\<lambda>_.
              if dk_skip_own d \<and> own then ret () else handle_rocketchat_message d raw))
       | _ \<Rightarrow> raise_exn attribute_error)"
    by (auto simp: Let_def remember_self_def intro!: keeps_bnd keeps_modify seen_frame split: pyval.split)
  then show ?thesis
    using assms by (auto simp: deliver_def should_emit_def Let_def bnd_def keeps_def ret_def split: if_splits)
qed

lemma deliver_again:
  assumes id: "str_field raw ''_id'' \<noteq> []" and seen: "of_seen s = remember_signature (str_field raw ''_id'') (message_signature d raw) x"
    "length x \<le> max_seen"
  shows "deliver d raw s = (Inr (), s)"
  using id remember_signature_spec [OF seen(2)] remember_again [OF seen(2)]
  by (simp add: deliver_def should_emit_def Let_def bnd_def ret_def seen(1) [symmetric]) (simp add: seen)

lemma deliver_bounded: "length (of_seen s) \<le> max_seen \<Longrightarrow> length (of_seen (snd (deliver d raw s))) \<le> max_seen"
proof (cases "str_field raw ''_id'' = []")
  case True
  assume "length (of_seen s) \<le> max_seen"
  moreover have "keeps (\<lambda>t. of_seen t = of_seen s) (deliver d raw)"
    unfolding deliver_def should_emit_def
    by (auto simp: Let_def remember_self_def keeps_def [of _ "\<lambda>s. (Inr True, s)"] True
        intro!: keeps_bnd keeps_modify seen_frame split: pyval.split)
  ultimately show ?thesis using keepsD [of "\<lambda>t. of_seen t = of_seen s" "deliver d raw" s] by simp
next
  case False
  assume "length (of_seen s) \<le> max_seen"
  with deliver_seen [OF False] remember_signature_spec(2) show ?thesis by simp
qed

text \<open>An arrival is either the delivery of one message or nothing.\<close>

lemma arrive_cases:
  obtains "\<And>s. arrive d raw s = s"
  | "\<And>s. arrive d raw s = snd (deliver d raw s)"
  | e where "dk_decrypted d raw = Inr (Some e)" "\<And>s. arrive d raw s = snd (deliver d e s)"
  by (cases "dk_decrypted d raw"; cases "projr (dk_decrypted d raw)"; cases "dget raw ''t'' = PStr ''e2e''"; cases "truthy (dget raw ''t'')")
    (auto simp: arrive_def handle_incoming_def Let_def ret_def bnd_def lift_exn_def)

lemma repeated_arrival:
  assumes "str_field raw ''_id'' \<noteq> []" "\<forall>e. dk_decrypted d raw = Inr (Some e) \<longrightarrow> str_field e ''_id'' \<noteq> []"
    and bound: "length (of_seen s) \<le> max_seen"
  shows "arrive d raw (arrive d raw s) = arrive d raw s" "length (of_seen (arrive d raw s)) \<le> max_seen"
proof -
  have again: "snd (deliver d e (snd (deliver d e s))) = snd (deliver d e s)" if "str_field e ''_id'' \<noteq> []" for e
    using deliver_again [OF that deliver_seen [OF that] bound, of d] by simp
  show "arrive d raw (arrive d raw s) = arrive d raw s"
    by (rule arrive_cases [of d raw]) (use again assms in auto)
  show "length (of_seen (arrive d raw s)) \<le> max_seen"
    by (rule arrive_cases [of d raw]) (use deliver_bounded bound in auto)
qed

end
