(* ===== verification/Onebot_Actions.thy ===== *)
theory Onebot_Actions
  imports Message_Intake Forward_Nodes Action_Dispatcher
begin

text \<open>
  \<open>OneBotActionHandler\<close> of \<open>bridge/onebot_actions.py\<close>: the OneBot actions of an application become
  messages of the bot, and queries about messages, groups and users are answered.

  \<^item> A handler is an action on the \<open>office\<close> that returns a response. One action runs alone; a
    cancellation is \<open>cancelled_error\<close>, raised by a request to the server, and it is the only
    exception that \<open>handle\<close> lets out.
  \<^item> \<open>of_progress\<close> and \<open>of_timeout\<close> are the entries that the two weak dictionaries hold for the
    running task. Phases and error texts are labels; the numbers in them are those of the code.
  \<^item> Plugins are the parameter \<open>dk_plugin\<close>. Logging is left out.
\<close>

section \<open>Responses\<close>

definition ok_response :: "pyval \<Rightarrow> entry" where
  "ok_response data = [(''status'', PStr ''ok''), (''retcode'', PInt 0), (''data'', data), (''wording'', PStr [])]"

definition failed :: "string \<Rightarrow> entry" where
  \<comment> \<open>\<open>_failed(wording)\<close> with the default code\<close>
  "failed wording = failure 1400 wording"

definition message_response :: "int \<Rightarrow> entry" where
  "message_response i = ok_response (PDict [(''message_id'', PInt i)])"

fun exn_text :: "exn \<Rightarrow> string" where
  \<comment> \<open>\<open>str(exc)\<close>\<close>
  "exn_text (ValueError s) = s"
| "exn_text (RuntimeError s) = s"
| "exn_text (KeyError s) = s"
| "exn_text (OtherError c s) = s"
| "exn_text TypeError = ''TypeError''"
| "exn_text IndexError = ''IndexError''"
| "exn_text RecursionError = ''RecursionError''"

section \<open>Sent messages\<close>

definition prefer_echo :: "pyval \<Rightarrow> string \<Rightarrow> bool" where
  "prefer_echo raw thread =
     (case raw of PDict e \<Rightarrow> thread \<noteq> [] \<and> str_field e ''tmid'' = [] | _ \<Rightarrow> False)"

definition translate_raw :: "inbound_env \<Rightarrow> pyval \<Rightarrow> (bridge, entry option) action" where
  "translate_raw env raw = (case raw of PDict e \<Rightarrow> translate_inbound env e | _ \<Rightarrow> raise_exn attribute_error)"

definition message_id_of :: "entry \<Rightarrow> exn + int" where
  \<comment> \<open>\<open>int(event["message_id"])\<close>\<close>
  "message_id_of event = (case map_of event ''message_id'' of None \<Rightarrow> Inl (KeyError ''message_id'') | Some v \<Rightarrow> py_int v)"

definition map_by_source :: "desk \<Rightarrow> string \<Rightarrow> (office, int) action" where
  "map_by_source d source =
     bnd (on_bridge (map_get_or_create (cl_now (dk_env d)) ''message'' source)) (\<lambda>m. ret (im_surrogate_id m))"

definition echo_or_thread :: "desk \<Rightarrow> string \<Rightarrow> string \<Rightarrow> pyval \<Rightarrow> (office, pyval) action" where
  \<comment> \<open>the message to translate: when a thread was asked for and none came back, the echo\<close>
  "echo_or_thread d room thread raw =
     (if prefer_echo raw thread then bnd (await_echo d room) (\<lambda>echo.
        ret (if echo \<noteq> None \<and> echo \<noteq> Some [] then PDict (the echo)
             else case raw of PDict e \<Rightarrow> PDict (AList.update ''tmid'' (PStr thread) e) | _ \<Rightarrow> raw))
      else ret raw)"

definition map_echo :: "desk \<Rightarrow> string \<Rightarrow> (office, int option) action" where
  "map_echo d room =
     bnd (await_echo d room) (\<lambda>echo.
       if echo = None \<or> echo = Some [] then ret None
       else bnd (on_bridge (translate_inbound (dk_env d) (the echo))) (\<lambda>event. case event of
         Some ev \<Rightarrow> bnd (lift_exn (message_id_of ev)) (\<lambda>i. ret (Some i))
       | None \<Rightarrow>
           if raw_str_field (the echo) ''_id'' \<noteq> []
           then bnd (map_by_source d (raw_str_field (the echo) ''_id'')) (\<lambda>i. ret (Some i))
           else ret None))"

definition map_sent_message :: "desk \<Rightarrow> string \<Rightarrow> string \<Rightarrow> pyval \<Rightarrow> (office, int option) action" where
  "map_sent_message d room thread raw =
     bnd (echo_or_thread d room thread raw) (\<lambda>raw.
     bnd (on_bridge (translate_raw (dk_env d) raw)) (\<lambda>event. case event of
       Some ev \<Rightarrow> bnd (lift_exn (message_id_of ev)) (\<lambda>i. ret (Some i))
     | None \<Rightarrow>
         (let source = (case raw of PDict e \<Rightarrow> raw_str_field e ''_id'' | _ \<Rightarrow> []) in
          if source \<noteq> [] then bnd (map_by_source d source) (\<lambda>i. ret (Some i)) else map_echo d room)))"

primrec map_messages :: "desk \<Rightarrow> string \<Rightarrow> string \<Rightarrow> pyval list \<Rightarrow> int option \<Rightarrow> (office, int option) action" where
  \<comment> \<open>the last id that a sent message got\<close>
  "map_messages d room thread [] last_id = ret last_id"
| "map_messages d room thread (raw # raws) last_id =
     bnd (map_sent_message d room thread raw) (\<lambda>i.
       map_messages d room thread raws (if i = None then last_id else i))"

definition segment_dicts :: "outbound \<Rightarrow> entry list" where
  "segment_dicts out = List.map_filter as_dict (ob_segments out)"

definition opt_text :: "string option \<Rightarrow> string" where
  \<comment> \<open>\<open>value or None\<close>, where nothing is the empty string\<close>
  "opt_text v = (case v of None \<Rightarrow> [] | Some s \<Rightarrow> s)"

definition plain_sending :: "string \<Rightarrow> string \<Rightarrow> sending" where
  "plain_sending room thread = \<lparr>sg_room = room, sg_thread = thread, sg_strict = False, sg_thread_mode = False,
     sg_on_message = (\<lambda>_. ret ())\<rparr>"

definition send_outbound :: "desk \<Rightarrow> outbound \<Rightarrow> (office, entry) action" where
  "send_outbound d out =
     (let thread = py_strip (opt_text (ob_thread out)); room = ob_room out in
      if ob_segments out = [] \<and> opt_text (ob_reply out) = [] then raise_exn (ValueError ''empty message'')
      else bnd (send_message_segments d (plain_sending room thread) (segment_dicts out) (opt_text (ob_reply out)) (ob_mentions out) (ob_reply_mention out)) (\<lambda>raws.
        if raws = [] then raise_exn (RuntimeError ''nothing was sent'')
        else bnd (map_messages d room thread raws None) (\<lambda>i. case i of
          None \<Rightarrow> raise_exn (RuntimeError ''no mapping'')
        | Some i \<Rightarrow> ret (message_response i))))"

section \<open>Merged forwards\<close>

definition set_progress :: "(progress \<Rightarrow> progress) \<Rightarrow> (office, unit) action" where
  "set_progress f = modify (\<lambda>s. s\<lparr>of_progress := map_option f (of_progress s)\<rparr>)"

definition progress_now :: "(office, progress) action" where
  "progress_now = gets (\<lambda>s. the (of_progress s))"

definition map_progress :: "desk \<Rightarrow> string \<Rightarrow> string \<Rightarrow> pyval \<Rightarrow> (office, unit) action" where
  "map_progress d room thread raw =
     bnd (set_progress (\<lambda>p. p\<lparr>pg_sent := pg_sent p + 1\<rparr>)) (\<lambda>_.
     bnd (map_sent_message d room thread raw) (\<lambda>i.
       if i = None then raise_exn (RuntimeError ''no message_id'')
       else set_progress (\<lambda>p. p\<lparr>pg_last := i\<rparr>)))"

definition item_segments :: "desk \<Rightarrow> forward_item \<Rightarrow> (office, pyval list) action" where
  "item_segments d item =
     (if fi_reference item = []
      then (case fi_segments item of None \<Rightarrow> raise_exn (ValueError ''invalid node'') | Some segs \<Rightarrow> ret segs)
      else bnd (on_bridge (hydrate (dk_env d) (PStr (fi_reference item)))) (\<lambda>event. case event of
        None \<Rightarrow> raise_exn (ValueError ''reference'')
      | Some ev \<Rightarrow> lift_exn (validate_forward_segments
          (case dget ev ''message'' of PStr s \<Rightarrow> PList (cq_to_segments s) | v \<Rightarrow> v))))"

primrec prepare_items :: "desk \<Rightarrow> pyval \<Rightarrow> pyval \<Rightarrow> entry \<Rightarrow> nat \<Rightarrow> forward_item list \<Rightarrow> (office, (nat \<times> outbound) list) action" where
  "prepare_items d gid user dest n [] = ret []"
| "prepare_items d gid user dest n (item # items) =
     bnd (set_progress (\<lambda>p. p\<lparr>pg_item := n\<rparr>)) (\<lambda>_.
     bnd (item_segments d item) (\<lambda>segs.
     bnd (on_bridge (translate_outbound (dk_client d) (PList segs) gid user (Some dest) True)) (\<lambda>out.
       if ob_segments out = [] \<and> opt_text (ob_reply out) = [] then raise_exn (ValueError ''nothing to send'')
       else bnd (prepare_items d gid user dest (n + 1) items) (\<lambda>rest. ret ((fi_index item, out) # rest)))))"

definition forward_sending :: "desk \<Rightarrow> string \<Rightarrow> string \<Rightarrow> bool \<Rightarrow> sending" where
  "forward_sending d room thread thread_mode = \<lparr>sg_room = room, sg_thread = thread, sg_strict = True,
     sg_thread_mode = thread_mode, sg_on_message = map_progress d room thread\<rparr>"

definition send_item :: "desk \<Rightarrow> string \<Rightarrow> string \<Rightarrow> bool \<Rightarrow> outbound \<Rightarrow> (office, entry option) action" where
  "send_item d room thread thread_mode out =
     bnd (send_message_segments d (forward_sending d room thread thread_mode) (segment_dicts out) (opt_text (ob_reply out)) (ob_mentions out) (ob_reply_mention out))
       (\<lambda>_. ret None)"

definition item_failure :: "string \<Rightarrow> nat \<Rightarrow> nat \<Rightarrow> exn \<Rightarrow> (office, entry option) action" where
  "item_failure stage n node e =
     bnd progress_now (\<lambda>p. ret (Some (failure 1500 (stage @ '': item '' @ str_int (int n) @ '', node '' @ str_int (int node)
       @ '', sent '' @ str_int (int (pg_sent p)) @ '': '' @ exn_text e))))"

primrec send_items :: "desk \<Rightarrow> string \<Rightarrow> string \<Rightarrow> bool \<Rightarrow> string \<Rightarrow> nat \<Rightarrow> (nat \<times> outbound) list \<Rightarrow> (office, entry option) action" where
  \<comment> \<open>the response of the item that failed, if one did\<close>
  "send_items d room thread thread_mode stage n [] = ret None"
| "send_items d room thread thread_mode stage n (x # xs) =
     bnd (set_progress (\<lambda>p. p\<lparr>pg_phase := stage, pg_item := n\<rparr>)) (\<lambda>_.
     bnd (except_exception (send_item d room thread thread_mode (snd x)) (item_failure stage n (fst x))) (\<lambda>r.
       if r \<noteq> None then ret r else send_items d room thread thread_mode stage (n + 1) xs))"

definition last_response :: "(office, entry) action" where
  "last_response = bnd progress_now (\<lambda>p. ret (case pg_last p of
     None \<Rightarrow> failure 1500 ''no message could be mapped'' | Some i \<Rightarrow> message_response i))"

definition send_all :: "desk \<Rightarrow> string \<Rightarrow> string \<Rightarrow> bool \<Rightarrow> string \<Rightarrow> (nat \<times> outbound) list \<Rightarrow> (office, entry) action" where
  "send_all d room thread thread_mode stage xs =
     bnd (send_items d room thread thread_mode stage 1 xs) (\<lambda>r. case r of Some e \<Rightarrow> ret e | None \<Rightarrow> last_response)"

definition forward_title :: "nat \<Rightarrow> string" where
  "forward_title n = ''merged forward of '' @ str_int (int n)"

definition thread_header :: "desk \<Rightarrow> string \<Rightarrow> nat \<Rightarrow> (office, string + entry) action" where
  \<comment> \<open>the id of the header, or the response when it could not be sent\<close>
  "thread_header d room nodes = except_exception
     (bnd (send_text d room (forward_title nodes) [] [] [] True) (\<lambda>raw. case raw of
        PDict e \<Rightarrow>
          (let source = str_field e ''_id'' in
           if source = [] then raise_exn (RuntimeError ''header id'')
           else bnd (set_progress (\<lambda>p. p\<lparr>pg_header := Some source\<rparr>)) (\<lambda>_.
                bnd (map_sent_message d room [] raw) (\<lambda>i.
                  if i = None then raise_exn (RuntimeError ''header mapping'')
                  else bnd (set_progress (\<lambda>p. p\<lparr>pg_header_id := i\<rparr>)) (\<lambda>_. ret (Inl source)))))
      | _ \<Rightarrow> raise_exn (RuntimeError ''no header'')))
     (\<lambda>e. bnd progress_now (\<lambda>p. ret (Inr (failure 1500
        ((if pg_header p \<noteq> None then ''header without mapping: '' else ''header not confirmed: '') @ exn_text e)))))"

definition threads_state :: "desk \<Rightarrow> (office, entry option) action" where
  \<comment> \<open>the response when threads are not known to be enabled\<close>
  "threads_state d = except_exception
     (bnd (are_threads_enabled d) (\<lambda>r. ret (if r = Some True then None else Some (failure 1500 ''threads are not enabled''))))
     (\<lambda>_. ret (Some (failure 1500 ''threads unknown'')))"

definition send_in_thread :: "desk \<Rightarrow> string \<Rightarrow> nat \<Rightarrow> (nat \<times> outbound) list \<Rightarrow> (office, entry) action" where
  "send_in_thread d room nodes xs =
     bnd (set_progress (\<lambda>p. p\<lparr>pg_phase := ''threads''\<rparr>)) (\<lambda>_.
     bnd (threads_state d) (\<lambda>r. case r of Some e \<Rightarrow> ret e | None \<Rightarrow>
     bnd (set_progress (\<lambda>p. p\<lparr>pg_phase := ''header''\<rparr>)) (\<lambda>_.
     bnd (thread_header d room nodes) (\<lambda>h. case h of
       Inr e \<Rightarrow> ret e | Inl source \<Rightarrow> send_all d room source True ''thread body'' xs))))"

definition node_count :: "forward_item list \<Rightarrow> nat" where
  "node_count items = length (remdups (map fi_index items))"

definition forward_body :: "desk \<Rightarrow> pyval \<Rightarrow> pyval \<Rightarrow> pyval \<Rightarrow> (office, entry) action" where
  "forward_body d payload gid user =
     bnd (lift_exn (parse_forward_nodes payload)) (\<lambda>items.
     bnd (set_progress (\<lambda>p. p\<lparr>pg_total := length items, pg_phase := ''check''\<rparr>)) (\<lambda>_.
     bnd (on_bridge (translate_outbound (dk_client d) (PList []) gid user None False)) (\<lambda>target.
     bnd (prepare_items d gid user [(''room_id'', PStr (ob_room target)), (''thread_source_id'', opt_str (ob_thread target))] 1 items) (\<lambda>xs.
       if xs = [] then raise_exn (ValueError ''empty forward'')
       else (let room = ob_room target; thread = py_strip (opt_text (ob_thread target)) in
         bnd (set_progress (\<lambda>p. p\<lparr>pg_phase := ''sending''\<rparr>)) (\<lambda>_.
           if dk_threaded d then send_in_thread d room (node_count items) xs
           else send_all d room thread False ''sending'' xs))))))"

definition forward_excepts :: "exn \<Rightarrow> (office, entry) action" where
  "forward_excepts e =
     (if e = cancelled_error then bnd (modify (\<lambda>s. s\<lparr>of_timeout := of_progress s\<rparr>)) (\<lambda>_. raise_exn e)
      else case e of TypeError \<Rightarrow> ret (failed (exn_text e)) | ValueError _ \<Rightarrow> ret (failed (exn_text e)) | _ \<Rightarrow> raise_exn e)"

definition handle_forward_send :: "desk \<Rightarrow> entry \<Rightarrow> pyval \<Rightarrow> pyval \<Rightarrow> (office, entry) action" where
  "handle_forward_send d params gid user s =
     (let payload = (if dget params ''messages'' = PNone then dget params ''message'' else dget params ''messages'');
          start = s\<lparr>of_progress := Some \<lparr>pg_thread_mode = dk_threaded d, pg_phase = ''parse'', pg_item = 1, pg_total = 0,
                     pg_sent = 0, pg_last = None, pg_header = None, pg_header_id = None\<rparr>\<rparr>;
          (r, t) = (case forward_body d payload gid user start of (Inl e, t) \<Rightarrow> forward_excepts e t | x \<Rightarrow> x)
      in (r, t\<lparr>of_progress := None\<rparr>))"

definition addressed_to_group :: "entry \<Rightarrow> bool" where
  "addressed_to_group params \<longleftrightarrow> dget params ''message_type'' = PStr ''group'' \<or> dget params ''group_id'' \<noteq> PNone"

definition forward_to_group :: "desk \<Rightarrow> entry \<Rightarrow> (office, entry) action" where
  "forward_to_group d params = handle_forward_send d params (dget params ''group_id'') PNone"

definition forward_to_user :: "desk \<Rightarrow> entry \<Rightarrow> (office, entry) action" where
  "forward_to_user d params = handle_forward_send d params PNone (dget params ''user_id'')"

definition handle_forward_action :: "desk \<Rightarrow> string \<Rightarrow> entry \<Rightarrow> (office, entry) action" where
  "handle_forward_action d action params =
     (if action = ''send_group_forward_msg'' then forward_to_group d params
      else if action = ''send_private_forward_msg'' then forward_to_user d params
      else if addressed_to_group params then forward_to_group d params else forward_to_user d params)"

section \<open>Messages\<close>

definition handle_send_group_msg :: "desk \<Rightarrow> entry \<Rightarrow> (office, entry) action" where
  "handle_send_group_msg d params =
     (if is_forward_candidate (dget params ''message'') then forward_to_group d params
      else bnd (on_bridge (translate_outbound (dk_client d) (dget params ''message'') (dget params ''group_id'') PNone None False))
             (send_outbound d))"

definition handle_send_private_msg :: "desk \<Rightarrow> entry \<Rightarrow> (office, entry) action" where
  "handle_send_private_msg d params =
     (if is_forward_candidate (dget params ''message'') then forward_to_user d params
      else bnd (on_bridge (translate_outbound (dk_client d) (dget params ''message'') PNone (dget params ''user_id'') None False))
             (send_outbound d))"

definition handle_send_msg :: "desk \<Rightarrow> entry \<Rightarrow> (office, entry) action" where
  "handle_send_msg d params =
     (if addressed_to_group params then handle_send_group_msg d params else handle_send_private_msg d params)"

definition handle_get_msg :: "desk \<Rightarrow> entry \<Rightarrow> (office, entry) action" where
  "handle_get_msg d params =
     (let i = (if dget params ''message_id'' = PNone then dget params ''id'' else dget params ''message_id'') in
      bnd (on_bridge (hydrate (dk_env d) i)) (\<lambda>event. ret (case event of
        None \<Rightarrow> failure 1404 ''message not found''
      | Some ev \<Rightarrow> if ev = [] then failure 1404 ''message not found'' else ok_response (PDict ev))))"

section \<open>Groups and users\<close>

definition group_room_source :: "pyval \<Rightarrow> (bridge, string) action" where
  \<comment> \<open>\<open>_resolve_group_room_source\<close>; no room is the empty string\<close>
  "group_room_source gid =
     (if gid = PNone then ret []
      else bnd (map_get_source ''room'' gid) (\<lambda>r.
        if opt_text r \<noteq> [] then ret (opt_text r)
        else bnd (context_by_surrogate gid) (\<lambda>c. ret (case c of
          Some e \<Rightarrow> if e \<noteq> [] \<and> truthy (dget e ''room_source_id'') then py_str (dget e ''room_source_id'') else []
        | None \<Rightarrow> []))))"

definition user_source :: "desk \<Rightarrow> pyval \<Rightarrow> (bridge, string) action" where
  \<comment> \<open>\<open>_resolve_user_source_id\<close>\<close>
  "user_source d user =
     (if user = PNone then ret []
      else if py_str user = str_int (cl_self_id (dk_env d)) then ret (cl_user_id (dk_env d))
      else bnd (map_get_source ''user'' user) (\<lambda>r. ret (opt_text r)))"

definition ensure_profile :: "desk \<Rightarrow> string \<Rightarrow> entry \<Rightarrow> (bridge, id_mapping) action" where
  \<comment> \<open>\<open>_ensure_user_mapping\<close>\<close>
  "ensure_profile d u info = ensure_user (cl_now (dk_env d)) u
     \<lparr>pf_username = raw_str_field info ''username'',
      pf_nickname = py_str (py_or (py_or (dget info ''name'') (dget info ''nickname'')) (PStr [])),
      pf_is_bot = (u = cl_user_id (dk_env d)), pf_synthetic = False\<rparr>"

definition member_role :: "entry \<Rightarrow> string" where
  "member_role info = (case dget info ''roles'' of
     PList rs \<Rightarrow> if PStr ''owner'' \<in> set rs then ''owner'' else if PStr ''admin'' \<in> set rs then ''admin'' else ''member''
   | _ \<Rightarrow> ''member'')"

definition member_entry :: "int \<Rightarrow> int \<Rightarrow> pyval \<Rightarrow> string \<Rightarrow> entry" where
  "member_entry gid user name role =
     [(''group_id'', PInt gid), (''user_id'', PInt user), (''nickname'', name), (''card'', name),
      (''sex'', PStr ''unknown''), (''age'', PInt 0), (''area'', PStr []), (''join_time'', PInt 0),
      (''last_sent_time'', PInt 0), (''level'', PStr ''0''), (''role'', PStr role), (''unfriendly'', PBool False),
      (''title'', PStr []), (''title_expire_time'', PInt 0), (''card_changeable'', PBool False)]"

definition resolve_member :: "desk \<Rightarrow> string \<Rightarrow> string \<Rightarrow> pyval \<Rightarrow> entry \<Rightarrow> id_mapping option \<Rightarrow> (bridge, entry) action" where
  "resolve_member d room u gid cached mapping =
     bnd (if cached \<noteq> [] then ret cached else lift_exn (cl_user_info (dk_env d) u)) (\<lambda>info.
     bnd (case mapping of Some m \<Rightarrow> ret m | None \<Rightarrow> ensure_profile d u info) (\<lambda>m.
     bnd (if gid \<noteq> PNone then ret gid
          else bnd (map_get_or_create (cl_now (dk_env d)) ''room'' room) (\<lambda>r. ret (PInt (im_surrogate_id r)))) (\<lambda>g.
     bnd (lift_exn (py_int g)) (\<lambda>g.
       ret (member_entry g (im_surrogate_id m) (py_or (py_or (dget info ''name'') (dget info ''username'')) (PStr u))
         (member_role info))))))"

definition handle_get_group_info :: "desk \<Rightarrow> entry \<Rightarrow> (bridge, entry) action" where
  "handle_get_group_info d params =
     bnd (group_room_source (dget params ''group_id'')) (\<lambda>room.
       if room = [] then ret (failure 1404 ''group_id'')
       else bnd (lift_exn (cl_room_info (dk_env d) room)) (\<lambda>info.
            bnd (lift_exn (dk_members d room)) (\<lambda>members.
            bnd (lift_exn (py_int (dget params ''group_id''))) (\<lambda>g. ret (ok_response (PDict
              [(''group_id'', PInt g),
               (''group_name'', py_or (py_or (dget info ''fname'') (dget info ''name'')) (PStr room)),
               (''member_count'', PInt (int (length members))), (''max_member_count'', PInt 0)]))))))"

definition handle_get_group_member_info :: "desk \<Rightarrow> entry \<Rightarrow> (bridge, entry) action" where
  "handle_get_group_member_info d params =
     bnd (group_room_source (dget params ''group_id'')) (\<lambda>room.
     bnd (user_source d (dget params ''user_id'')) (\<lambda>u.
       if room = [] \<or> u = [] then ret (failure 1404 ''group_id or user_id'')
       else bnd (resolve_member d room u (dget params ''group_id'') [] None) (\<lambda>m. ret (ok_response (PDict m)))))"

definition member_item :: "desk \<Rightarrow> entry \<Rightarrow> entry" where
  "member_item d m =
     [(''user_id'', PStr (raw_str_field m ''_id'')), (''username'', PStr (raw_str_field m ''username'')),
      (''nickname'', PStr (py_str (py_or (py_or (dget m ''name'') (dget m ''nickname'')) (PStr [])))),
      (''is_bot'', PBool (raw_str_field m ''_id'' = cl_user_id (dk_env d)))]"

primrec resolve_members :: "desk \<Rightarrow> string \<Rightarrow> pyval \<Rightarrow> (string \<times> id_mapping) list \<Rightarrow> entry list \<Rightarrow> (bridge, pyval list) action" where
  "resolve_members d room gid mapped [] = ret []"
| "resolve_members d room gid mapped (m # ms) =
     (if \<not> truthy (dget m ''_id'') then resolve_members d room gid mapped ms
      else bnd (resolve_member d room (py_str (dget m ''_id'')) gid m (map_of mapped (py_str (dget m ''_id'')))) (\<lambda>e.
           bnd (resolve_members d room gid mapped ms) (\<lambda>es. ret (PDict e # es))))"

definition handle_get_group_member_list :: "desk \<Rightarrow> entry \<Rightarrow> (bridge, entry) action" where
  "handle_get_group_member_list d params =
     bnd (group_room_source (dget params ''group_id'')) (\<lambda>room.
       if room = [] then ret (failure 1404 ''group_id'')
       else bnd (lift_exn (dk_members d room)) (\<lambda>members.
            bnd (ensure_users (cl_now (dk_env d)) (map (member_item d) (filter (\<lambda>m. truthy (dget m ''_id'')) members))) (\<lambda>mapped.
            bnd (resolve_members d room (dget params ''group_id'') mapped members) (\<lambda>es.
              ret (ok_response (PList es))))))"

definition handle_get_stranger_info :: "desk \<Rightarrow> entry \<Rightarrow> (bridge, entry) action" where
  "handle_get_stranger_info d params =
     (let user = dget params ''user_id'' in
      bnd (user_source d user) (\<lambda>u.
        if u = [] then ret (failure 1404 ''user_id'')
        else bnd (lift_exn (cl_user_info (dk_env d) u)) (\<lambda>info.
          bnd (if py_str user = str_int (cl_self_id (dk_env d)) then ret (cl_self_id (dk_env d))
               else bnd (ensure_profile d u info) (\<lambda>m. ret (im_surrogate_id m))) (\<lambda>i.
            ret (ok_response (PDict
              [(''user_id'', PInt i),
               (''nickname'', py_or (py_or (dget info ''name'') (dget info ''username'')) (PStr u)),
               (''remark'', py_or (dget info ''username'') (PStr [])), (''sex'', PStr ''unknown''), (''age'', PInt 0)]))))))"

section \<open>Dispatch\<close>

definition forward_actions :: "string list" where
  "forward_actions = [''send_group_forward_msg'', ''send_private_forward_msg'', ''send_forward_msg'']"

definition unhandled_action :: "desk \<Rightarrow> string \<Rightarrow> entry" where
  "unhandled_action d action =
     (if action = ''set_msg_emoji_like'' then failure 1404 ''no plugin''
      else if action = ''get_login_info'' then ok_response (PDict
        [(''user_id'', PInt (cl_self_id (dk_env d))),
         (''nickname'', PStr (if cl_bot_username (dk_env d) \<noteq> [] then cl_bot_username (dk_env d) else cl_username (dk_env d)))])
      else failure 1404 (''not implemented: '' @ action))"

definition run_action :: "desk \<Rightarrow> string \<Rightarrow> entry \<Rightarrow> (office, entry) action" where
  "run_action d action params =
     (if action = ''send_group_msg'' then handle_send_group_msg d params
      else if action = ''send_private_msg'' then handle_send_private_msg d params
      else if action = ''send_msg'' then handle_send_msg d params
      else if action = ''get_msg'' then handle_get_msg d params
      else if action = ''get_group_info'' then on_bridge (handle_get_group_info d params)
      else if action = ''get_group_member_info'' then on_bridge (handle_get_group_member_info d params)
      else if action = ''get_group_member_list'' then on_bridge (handle_get_group_member_list d params)
      else if action = ''get_forward_msg'' then ret (failure 1404 ''get_forward_msg'')
      else if action \<in> set forward_actions then handle_forward_action d action params
      else if action = ''get_stranger_info'' then on_bridge (handle_get_stranger_info d params)
      else bnd (lift_exn (dk_plugin d action params)) (\<lambda>r. case r of
        Some e \<Rightarrow> ret e | None \<Rightarrow> ret (unhandled_action d action)))"

definition handle :: "desk \<Rightarrow> string \<Rightarrow> entry \<Rightarrow> (office, entry) action" where
  "handle d action params s = (case run_action d action params s of
     (Inr r, t) \<Rightarrow> (Inr r, t)
   | (Inl e, t) \<Rightarrow>
       if e = cancelled_error
       then (Inl e, if of_progress t = None then t else t\<lparr>of_timeout := of_progress t\<rparr>)
       else (Inr (failure 1500 (exn_text e)), t))"

definition timeout_report :: "progress \<Rightarrow> entry" where
  "timeout_report p = failure 1504
     (if pg_thread_mode p
      then ''thread timeout: '' @ pg_phase p
        @ (if pg_header p \<noteq> None \<and> pg_header p \<noteq> Some [] then '', header created'' else '', header unknown'')
        @ '', item '' @ str_int (int (pg_item p)) @ '', sent '' @ str_int (int (pg_sent p))
      else ''timeout: item '' @ str_int (int (pg_item p)) @ '', sent '' @ str_int (int (pg_sent p)))"

definition take_timeout_response :: "(office, entry option) action" where
  "take_timeout_response s = (Inr (map_option timeout_report (of_timeout s)), s\<lparr>of_timeout := None\<rparr>)"

definition action_outcome :: "desk \<Rightarrow> string \<Rightarrow> entry \<Rightarrow> office \<Rightarrow> outcome \<times> office" where
  \<comment> \<open>what the action pool sees: a response, or a time-out with the handler's own response\<close>
  "action_outcome d action params s = (case handle d action params s of
     (Inr r, t) \<Rightarrow> (Returned r, t)
   | (Inl _, t) \<Rightarrow> (case take_timeout_response t of (Inr r, u) \<Rightarrow> (Timed_out r, u) | (Inl _, u) \<Rightarrow> (Timed_out None, u)))"

end
