(* ===== verification/Action_Proofs.thy ===== *)
theory Action_Proofs
  imports Onebot_Actions Batch_Proofs
begin

text \<open>
  What the handlers of the OneBot actions keep and return: rules for their building blocks, the
  invariants of the stores through every action, and the requests a message leads to.
\<close>

section \<open>Building blocks\<close>

lemma keeps_on_bridge: "keeps Q m \<Longrightarrow> keeps (\<lambda>s. Q (of_bridge s)) (on_bridge m)"
  by (simp add: keeps_def on_bridge_def case_prod_beta)

lemma returns_on_bridge: "returns m P \<Longrightarrow> returns (on_bridge m) P"
  by (fastforce simp: returns_def on_bridge_def split: prod.splits)

lemma returns_if: "(b \<Longrightarrow> returns m P) \<Longrightarrow> (\<not> b \<Longrightarrow> returns n P) \<Longrightarrow> returns (if b then m else n) P"
  by simp

text \<open>A triple for a step whose result is known only in the states with the invariant.\<close>

definition gives :: "('s \<Rightarrow> bool) \<Rightarrow> ('s, 'a) action \<Rightarrow> ('a \<Rightarrow> bool) \<Rightarrow> bool" where
  "gives P m R \<longleftrightarrow> keeps P m \<and> (\<forall>s x t. P s \<longrightarrow> m s = (Inr x, t) \<longrightarrow> R x)"

lemma givesI: "keeps P m \<Longrightarrow> (\<And>s x t. P s \<Longrightarrow> m s = (Inr x, t) \<Longrightarrow> R x) \<Longrightarrow> gives P m R"
  by (auto simp: gives_def)

lemma keeps_bnd_gives: "gives P m R \<Longrightarrow> (\<And>x. R x \<Longrightarrow> keeps P (k x)) \<Longrightarrow> keeps P (bnd m k)"
  by (fastforce simp: keeps_def gives_def bnd_def split: prod.splits sum.splits)

lemmas office_intros = keeps_bnd keeps_if keeps_lift keeps_ret keeps_raise keeps_gets keeps_modify keeps_except

section \<open>Sending segments\<close>

definition answer_ok :: "(entry \<Rightarrow> bool) \<Rightarrow> pyval \<Rightarrow> bool" where
  \<comment> \<open>the answer and the message in it, if they are dictionaries\<close>
  "answer_ok good v \<longleftrightarrow> (\<forall>e. v = PDict e \<longrightarrow> good e \<and> (\<forall>m. dget e ''message'' = PDict m \<longrightarrow> good m))"

definition raw_ok :: "(entry \<Rightarrow> bool) \<Rightarrow> pyval \<Rightarrow> bool" where
  "raw_ok good v \<longleftrightarrow> (\<forall>e. v = PDict e \<longrightarrow> good e)"

text \<open>
  The client as the action handler uses it: \<open>P\<close> is kept by every request and by the callback on
  a message whose answer was \<open>good\<close>.
\<close>

locale sending_invariant =
  fixes d :: desk and g :: sending and P :: "office \<Rightarrow> bool" and good :: "entry \<Rightarrow> bool"
  assumes asking: "keeps P (ask d j)"
    and answered: "dk_server d sent j = Inr v \<Longrightarrow> answer_ok good v"
    and delivered: "raw_ok good raw \<Longrightarrow> keeps P (sg_on_message g raw)"
begin

lemma structured_keep: "keeps P (send_structured d room s attachments tmid mentions tm)"
  unfolding send_structured_def post_json_def
  by (auto intro!: office_intros asking split: option.split pyval.split)

lemma asked: "returns (ask d j) (answer_ok good)"
  using answered by (auto simp: returns_def ask_def)

lemma structured_returns: "returns (send_structured d room s attachments tmid mentions tm) (raw_ok good)"
proof -
  have "returns (post_json d endpoint payload) (\<lambda>data. data = [] \<or> answer_ok good (PDict data))" for endpoint payload
    unfolding post_json_def
  proof (rule returns_bnd [OF asked])
    fix v assume "answer_ok good v"
    then show "returns (case v of PDict data \<Rightarrow> ret (if truthy (dget data ''success'') then data else [])
        | _ \<Rightarrow> raise_exn attribute_error) (\<lambda>data. data = [] \<or> answer_ok good (PDict data))"
      by (cases v) (auto intro: returns_ret returns_raise)
  qed
  then have "returns (bnd (post_json d endpoint payload) (\<lambda>data. ret (if data = [] then PNone else py_or (dget data ''message'') (PDict data))))
      (raw_ok good)" for endpoint payload
    by (rule returns_bnd) (auto intro!: returns_ret simp: answer_ok_def raw_ok_def py_or_def)
  then show ?thesis
    unfolding send_structured_def
    by (intro bndI) (auto intro!: returns_ret simp: raw_ok_def split: option.split)
qed

lemma text_returns:
  "returns (send_text d room s tmid mentions r tm) (raw_ok good)"
  "returns (send_with_quote d room s q tmid mentions r tm) (raw_ok good)"
  unfolding send_text_def send_with_quote_def by (auto intro!: bndI returns_raise structured_returns)

lemma text_keep:
  "keeps P (send_text d room s tmid mentions r tm)" "keeps P (send_with_quote d room s q tmid mentions r tm)"
  unfolding send_text_def send_with_quote_def by (intro office_intros structured_keep)+

lemma media_keep: "keeps P (send_media d room t x tmid c tm)"
  unfolding send_media_def by (auto intro!: office_intros asking split: option.split)

lemma media_returns: "returns (send_media d room t x tmid c tm) (raw_ok good)"
proof -
  have "returns (ask d j) (raw_ok good)" for j
    using answered by (auto simp: returns_def ask_def answer_ok_def raw_ok_def)
  then show ?thesis
    unfolding send_media_def by (intro bndI) (auto intro!: returns_ret simp: raw_ok_def split: option.split)
qed

lemma record_keep: "raw_ok good raw \<Longrightarrow> keeps P (record_sent g raw a)"
  unfolding record_sent_def by (intro office_intros delivered)

lemma record_returns: "raw_ok good raw \<Longrightarrow> list_all (raw_ok good) (sa_sent a) \<Longrightarrow>
    returns (record_sent g raw a) (\<lambda>a'. list_all (raw_ok good) (sa_sent a'))"
  unfolding record_sent_def by (auto intro!: returns_ret returns_raise bndI)

lemma flush_keep: "keeps P (flush_text d g force a)"
proof -
  have "keeps P (bnd (if sa_quote a \<noteq> []
                then send_with_quote d (sg_room g) s (sa_quote a) (sg_thread g) (sa_mentions a) (sa_reply_mention a) (sg_thread_mode g)
                else send_text d (sg_room g) s (sg_thread g) (sa_mentions a) (sa_reply_mention a) (sg_thread_mode g))
        (\<lambda>raw. record_sent g raw b))" for s b
    by (rule keeps_bnd_returns [where Q = "raw_ok good"]) (auto intro!: text_keep text_returns record_keep)
  then show ?thesis unfolding flush_text_def Let_def by (intro keeps_if keeps_ret)
qed

lemma flush_returns: "list_all (raw_ok good) (sa_sent a) \<Longrightarrow> returns (flush_text d g force a) (\<lambda>a'. list_all (raw_ok good) (sa_sent a'))"
  unfolding flush_text_def Let_def
  by (rule returns_if, simp add: returns_ret, rule returns_bnd [where Q = "raw_ok good"])
    (auto intro!: text_returns record_returns)

lemma loop_keep: "keeps P (send_loop d g ss a)"
proof (induction ss arbitrary: a)
  case (Cons s ss)
  have media: "keeps P (bnd (send_media d (sg_room g) t x (sg_thread g) c (sg_thread_mode g)) (\<lambda>raw.
      bnd (record_sent g raw b) (\<lambda>a2. if taken then ret a2 else send_loop d g ss a2)))" for t x c b taken
    by (rule keeps_bnd_returns [OF media_keep media_returns]) (auto intro!: keeps_bnd record_keep Cons.IH)
  show ?case
    unfolding send_loop.simps Let_def case_prod_beta
    by (intro keeps_if keeps_bnd keeps_lift keeps_ret Cons.IH flush_keep media)
qed simp

lemma loop_returns: "list_all (raw_ok good) (sa_sent a) \<Longrightarrow> returns (send_loop d g ss a) (\<lambda>a'. list_all (raw_ok good) (sa_sent a'))"
proof (induction ss arbitrary: a)
  case (Cons s ss)
  have flush: "returns (if sa_texts a \<noteq> [] then flush_text d g False a
             else if sa_quote a \<noteq> [] then flush_text d g True a else ret a) (\<lambda>a'. list_all (raw_ok good) (sa_sent a'))"
    using Cons.prems by (auto intro!: flush_returns returns_ret)
  have media: "returns (bnd (send_media d (sg_room g) t x (sg_thread g) c (sg_thread_mode g)) (\<lambda>raw.
      bnd (record_sent g raw b) (\<lambda>a2. if taken then ret a2 else send_loop d g ss a2)))
      (\<lambda>a'. list_all (raw_ok good) (sa_sent a'))" if "list_all (raw_ok good) (sa_sent b)" for t x c b taken
    by (rule returns_bnd [OF media_returns], rule returns_bnd [OF record_returns]) (use that in \<open>auto intro!: returns_ret Cons.IH\<close>)
  show ?case
    unfolding send_loop.simps Let_def case_prod_beta
    by (rule returns_if, rule bndI, rule Cons.IH, use Cons.prems in simp, rule returns_bnd [OF flush],
        rule bndI, rule bndI, rule media)
qed (simp add: returns_ret)

lemma send_keep: "keeps P (send_message_segments d g ss q ms r)"
  unfolding send_message_segments_def by (intro keeps_bnd loop_keep flush_keep keeps_ret)

lemma send_returns: "returns (send_message_segments d g ss q ms r) (list_all (raw_ok good))"
  unfolding send_message_segments_def
  by (rule returns_bnd [OF loop_returns], simp, rule returns_bnd [OF flush_returns]) (auto intro: returns_ret)

end

section \<open>The stores through an action\<close>

text \<open>A thread id that is filled in does not touch the quotes of a message.\<close>

lemma dget_tmid: "k \<noteq> ''tmid'' \<Longrightarrow> dget (AList.update ''tmid'' v e) k = dget e k"
  by (simp add: dget_def update_conv)

lemma clean_ids_tmid: "clean_ids env (AList.update ''tmid'' v e) = clean_ids env e"
  by (simp add: clean_ids_def translation_plan_def e2ee_prefix_def may_have_quote_contexts_def reply_source_id_def
      attachments_of_def raw_str_field_def dget_tmid cong: if_cong)

definition trusted :: "desk list \<Rightarrow> entry \<Rightarrow> bool" where
  "trusted ds e \<longleftrightarrow> list_all (\<lambda>d. clean_ids (dk_env d) e) ds"

definition recent_trusted :: "desk list \<Rightarrow> office \<Rightarrow> bool" where
  "recent_trusted ds s \<longleftrightarrow> (\<forall>room. list_all (\<lambda>(t, e). trusted ds e) (recent_of room s))"

text \<open>What the server is relied on for: ids without spaces around them, rooms with a name.\<close>

definition polite :: "desk list \<Rightarrow> desk \<Rightarrow> bool" where
  "polite ds d \<longleftrightarrow> (\<forall>sent j v. dk_server d sent j = Inr v \<longrightarrow> answer_ok (trusted ds) v)
     \<and> (\<forall>sent room. list_all (trusted ds) (dk_arriving d sent room))
     \<and> (\<forall>e e'. dk_decrypted d e = Inr (Some e') \<longrightarrow> trusted ds e')
     \<and> (\<forall>k e. ie_fetch (dk_env d) k = Inr e \<longrightarrow> clean_ids (dk_env d) e)
     \<and> (\<forall>u r. cl_direct_room (dk_env d) u = Inr r \<longrightarrow> r \<noteq> [])"

lemma trusted_tmid: "trusted ds (AList.update ''tmid'' v e) = trusted ds e"
  by (simp add: trusted_def clean_ids_tmid)

lemma recent_update:
  "recent_trusted ds s \<Longrightarrow> list_all (\<lambda>(t, e). trusted ds e) b \<Longrightarrow>
   recent_trusted ds (s\<lparr>of_recent := AList.update room b (of_recent s)\<rparr>)"
  by (simp add: recent_trusted_def recent_of_def update_conv)

lemma recent_delete: "recent_trusted ds s \<Longrightarrow> recent_trusted ds (s\<lparr>of_recent := AList.delete room (of_recent s)\<rparr>)"
  by (simp add: recent_trusted_def recent_of_def delete_conv)

lemma recent_trustedD: "recent_trusted ds s \<Longrightarrow> (t, e) \<in> set (recent_of room s) \<Longrightarrow> trusted ds e"
  by (fastforce simp: recent_trusted_def list_all_iff)

lemma remember_trusted: "trusted ds e \<Longrightarrow> recent_trusted ds s \<Longrightarrow> recent_trusted ds (remember_self now e s)"
  unfolding remember_self_def Let_def
  by (auto simp: recent_only_def list_all_iff intro!: recent_update dest: recent_trustedD)

lemma recent_frame [simp]:
  "recent_trusted ds (s\<lparr>of_bridge := b\<rparr>) = recent_trusted ds s"
  "recent_trusted ds (s\<lparr>of_sent := js\<rparr>) = recent_trusted ds s"
  "recent_trusted ds (s\<lparr>of_progress := p\<rparr>) = recent_trusted ds s"
  "recent_trusted ds (s\<lparr>of_timeout := p\<rparr>) = recent_trusted ds s"
  "recent_trusted ds (s\<lparr>of_seen := x\<rparr>) = recent_trusted ds s"
  "recent_trusted ds (s\<lparr>of_breakers := y\<rparr>) = recent_trusted ds s"
  "recent_trusted ds (s\<lparr>of_emitted := z\<rparr>) = recent_trusted ds s"
  by (simp_all add: recent_trusted_def recent_of_def)

lemma pop_trusted:
  "keeps (recent_trusted ds) (pop_recent now room)"
  "recent_trusted ds s \<Longrightarrow> pop_recent now room s = (Inr (Some e), t) \<Longrightarrow> trusted ds e"
proof -
  have b: "list_all (\<lambda>(t, e). trusted ds e) (recent_only now (recent_of room s))" if "recent_trusted ds s" for s
    using that by (auto simp: recent_trusted_def recent_only_def list_all_iff)
  show "keeps (recent_trusted ds) (pop_recent now room)"
  proof (rule keepsI)
    fix s assume s: "recent_trusted ds s"
    with b [OF s] show "recent_trusted ds (snd (pop_recent now room s))"
      by (auto simp: pop_recent_def recent_delete recent_update split: list.split)
  qed
  show "recent_trusted ds s \<Longrightarrow> pop_recent now room s = (Inr (Some e), t) \<Longrightarrow> trusted ds e"
    using b [of s] by (auto simp: pop_recent_def split: list.splits)
qed

text \<open>
  An invariant of the bridge that every request to the stores keeps is kept by every action; the
  recent own messages stay such that they may be translated.
\<close>

locale bridge_invariant =
  fixes ds :: "desk list" and d :: desk and Q :: "bridge \<Rightarrow> bool"
  assumes receiving: "clean_ids (dk_env d) e \<Longrightarrow> keeps Q (translate_inbound (dk_env d) e)"
    and allocating: "k \<noteq> [] \<Longrightarrow> keeps Q (map_get_or_create now (ns_name n) k)"
    and looking_up: "keeps Q (map_get_source ns v)"
    and sending: "(\<forall>u r. cl_direct_room (dk_client d) u = Inr r \<longrightarrow> r \<noteq> []) \<Longrightarrow> canonical_id user \<Longrightarrow>
      keeps Q (translate_outbound (dk_client d) message gid user fixed required)"
    and registering: "keeps Q (ensure_user now u p)" "keeps Q (ensure_users now items)"
begin

definition good :: "entry \<Rightarrow> bool" where
  "good e \<longleftrightarrow> (polite ds d \<longrightarrow> trusted ds e)"

definition inv :: "office \<Rightarrow> bool" where
  "inv s \<longleftrightarrow> d \<in> set ds \<and> polite ds d \<and> recent_trusted ds s \<and> Q (of_bridge s)"

lemma inv_frame [simp]:
  "inv (s\<lparr>of_sent := js\<rparr>) = inv s" "inv (s\<lparr>of_progress := p\<rparr>) = inv s" "inv (s\<lparr>of_timeout := p\<rparr>) = inv s"
  "inv (s\<lparr>of_seen := x\<rparr>) = inv s" "inv (s\<lparr>of_breakers := y\<rparr>) = inv s" "inv (s\<lparr>of_emitted := z\<rparr>) = inv s"
  by (simp_all add: inv_def)

lemma keeps_known: "(d \<in> set ds \<Longrightarrow> polite ds d \<Longrightarrow> keeps inv m) \<Longrightarrow> keeps inv m"
  by (auto simp: keeps_def inv_def)

lemma bridge_keep: "keeps Q m \<Longrightarrow> keeps inv (on_bridge m)"
  by (simp add: keeps_def inv_def on_bridge_def case_prod_beta)

lemma progress_keep: "keeps inv (set_progress f)" "keeps inv progress_now"
  unfolding set_progress_def progress_now_def
  by (auto intro!: keeps_modify)

lemma ask_keep: "keeps inv (ask d j)"
  by (simp add: keeps_def ask_def)

lemma map_source_keep: "k \<noteq> [] \<Longrightarrow> keeps inv (map_by_source d k)"
  unfolding map_by_source_def using allocating [of k _ NsMessage] by (auto intro!: keeps_bnd bridge_keep)

lemma received_keep: "good e \<Longrightarrow> keeps inv (on_bridge (translate_inbound (dk_env d) e))"
  by (rule keeps_known) (auto simp: good_def trusted_def list_all_iff intro!: bridge_keep receiving)

lemma translate_raw_keep: "raw_ok good raw \<Longrightarrow> keeps inv (on_bridge (translate_raw (dk_env d) raw))"
  unfolding translate_raw_def
  by (cases raw) (simp_all add: raw_ok_def received_keep bridge_keep)

lemma remember_keep: "good e \<Longrightarrow> inv s \<Longrightarrow> inv (remember_self now e s)"
  using remember_trusted [of ds e s now] by (simp add: inv_def good_def remember_self_def Let_def)

lemma echo_keep: "keeps inv (await_echo d room)"
proof -
  have pop: "keeps inv (pop_recent now room)" for now
  proof (rule keepsI)
    fix s assume "inv s"
    moreover have "of_bridge (snd (pop_recent now room s)) = of_bridge s"
      by (auto simp: pop_recent_def split: list.split)
    ultimately show "inv (snd (pop_recent now room s))" using keepsD [OF pop_trusted(1)] by (auto simp: inv_def)
  qed
  have remembers: "inv (fold (remember_self now) raws s)" if "list_all good raws" "inv s" for now raws s
    using that by (induction raws arbitrary: s) (simp_all add: remember_keep)
  have "list_all good (dk_arriving d sent room)" for sent by (auto simp: polite_def good_def list_all_iff)
  with remembers have "keeps inv (bnd (gets (\<lambda>s. dk_arriving d (of_sent s) room)) (\<lambda>raws.
      bnd (modify (fold (remember_self now) raws)) (\<lambda>_. ret (f raws))))" for now and f :: "entry list \<Rightarrow> 'b"
    by (intro keeps_bnd_returns [where Q = "list_all good"]) (auto simp: returns_def gets_def intro!: keeps_bnd keeps_modify)
  note arrive = this
  show ?thesis
    unfolding await_echo_def by (rule keeps_bnd [OF pop]) (auto intro!: arrive split: option.split)
qed

lemma echo_gives: "gives inv (await_echo d room) (\<lambda>echo. \<forall>e. echo = Some e \<longrightarrow> good e)"
proof (rule givesI [OF echo_keep], intro allI impI)
  fix s x t e assume s: "inv s" and run: "await_echo d room s = (Inr x, t)" and x: "x = Some e"
  obtain c u where pop: "pop_recent (cl_now (dk_env d)) room s = (Inr c, u)"
    by (cases "recent_only (cl_now (dk_env d)) (recent_of room s)") (auto simp: pop_recent_def)
  show "good e"
  proof (cases c)
    case None
    with run pop x have "e \<in> set (dk_arriving d (of_sent u) room)"
      by (auto simp: await_echo_def bnd_def gets_def modify_def ret_def find_Some_iff)
    then show ?thesis by (auto simp: polite_def good_def list_all_iff)
  next
    case (Some e')
    with run pop x have "e' = e" by (simp add: await_echo_def bnd_def ret_def)
    with pop_trusted(2) [of ds s] s pop Some show ?thesis by (auto simp: inv_def good_def)
  qed
qed

lemma echo_or_thread_gives:
  assumes "raw_ok good raw"
  shows "gives inv (echo_or_thread d room thread raw) (raw_ok good)"
proof (rule givesI)
  show "keeps inv (echo_or_thread d room thread raw)"
    unfolding echo_or_thread_def by (intro office_intros echo_keep)
  fix s x t assume "inv s" and run: "echo_or_thread d room thread raw s = (Inr x, t)"
  with echo_gives [of room] assms show "raw_ok good x"
    by (auto simp: echo_or_thread_def gives_def raw_ok_def bnd_def ret_def good_def trusted_tmid
        split: if_splits prod.splits sum.splits pyval.splits)
qed

lemma map_sent_keep:
  assumes "raw_ok good raw"
  shows "keeps inv (map_sent_message d room thread raw)"
proof -
  have echoed: "keeps inv (map_echo d room)"
    unfolding map_echo_def
    by (rule keeps_bnd_gives [OF echo_gives]) (auto intro!: office_intros received_keep map_source_keep split: option.split)
  have rest: "keeps inv (bnd (on_bridge (translate_raw (dk_env d) raw)) (\<lambda>event. case event of
       Some ev \<Rightarrow> bnd (lift_exn (message_id_of ev)) (\<lambda>i. ret (Some i))
     | None \<Rightarrow>
         (let source = (case raw of PDict e \<Rightarrow> raw_str_field e ''_id'' | _ \<Rightarrow> []) in
          if source \<noteq> [] then bnd (map_by_source d source) (\<lambda>i. ret (Some i)) else map_echo d room)))"
    if "raw_ok good raw" for raw
    unfolding Let_def
    by (rule keeps_bnd [OF translate_raw_keep [OF that]]) (auto intro!: office_intros map_source_keep echoed split: option.split)
  from keeps_bnd_gives [OF echo_or_thread_gives [OF assms] rest] show ?thesis unfolding map_sent_message_def .
qed

lemma map_progress_keep: "raw_ok good raw \<Longrightarrow> keeps inv (map_progress d room thread raw)"
  unfolding map_progress_def by (intro office_intros progress_keep map_sent_keep)

lemma answers: "dk_server d sent j = Inr v \<Longrightarrow> answer_ok good v"
  by (auto simp: polite_def good_def answer_ok_def)

sublocale plain: sending_invariant d "plain_sending room thread" inv good for room thread
  by unfold_locales (auto simp: ask_keep plain_sending_def dest: answers)

sublocale strict: sending_invariant d "forward_sending d room thread mode" inv good for room thread mode
  by unfold_locales (auto simp: ask_keep forward_sending_def map_progress_keep dest: answers)

lemma map_messages_keep: "list_all (raw_ok good) raws \<Longrightarrow> keeps inv (map_messages d room thread raws i)"
  by (induction raws arbitrary: i) (auto intro!: keeps_bnd map_sent_keep)

lemma send_outbound_keep: "keeps inv (send_outbound d out)"
  unfolding send_outbound_def Let_def
  by (rule keeps_if [OF keeps_raise keeps_bnd_returns [OF plain.send_keep plain.send_returns]])
    (auto intro!: office_intros map_messages_keep split: option.split)

lemma send_items_keep: "keeps inv (send_items d room thread mode stage n xs)"
proof -
  have "keeps inv (send_item d room thread mode out)" for out
    unfolding send_item_def by (intro keeps_bnd keeps_ret strict.send_keep)
  then show ?thesis
    by (induction xs arbitrary: n) (auto simp: item_failure_def intro!: office_intros progress_keep)
qed

lemma send_all_keep: "keeps inv (send_all d room thread mode stage xs)"
  unfolding send_all_def last_response_def
  by (intro keeps_bnd [OF send_items_keep]) (auto intro!: office_intros progress_keep split: option.split)

lemma header_keep: "keeps inv (thread_header d room nodes)"
proof -
  have "keeps inv (bnd (send_text d room (forward_title nodes) [] [] [] True) (\<lambda>raw. case raw of
        PDict e \<Rightarrow>
          (let source = str_field e ''_id'' in
           if source = [] then raise_exn (RuntimeError ''header id'')
           else bnd (set_progress (\<lambda>p. p\<lparr>pg_header := Some source\<rparr>)) (\<lambda>_.
                bnd (map_sent_message d room [] raw) (\<lambda>i.
                  if i = None then raise_exn (RuntimeError ''header mapping'')
                  else bnd (set_progress (\<lambda>p. p\<lparr>pg_header_id := i\<rparr>)) (\<lambda>_. ret (Inl source)))))
      | _ \<Rightarrow> raise_exn (RuntimeError ''no header'')) :: (office, string + entry) action)"
    unfolding Let_def
    by (rule keeps_bnd_returns [OF plain.text_keep(1) plain.text_returns(1)])
      (auto intro!: office_intros progress_keep map_sent_keep split: pyval.split)
  then show ?thesis
    unfolding thread_header_def by (intro keeps_except) (auto intro!: office_intros progress_keep)
qed

lemma in_thread_keep: "keeps inv (send_in_thread d room nodes xs)"
proof -
  have "keeps inv (threads_state d)"
    unfolding threads_state_def are_threads_enabled_def by (intro office_intros)
  then show ?thesis
    unfolding send_in_thread_def
    by (auto intro!: keeps_bnd progress_keep header_keep send_all_keep split: option.split sum.split)
qed

lemma hydrate_keep: "keeps inv (on_bridge (hydrate (dk_env d) v))"
  by (rule keeps_known, rule bridge_keep, rule hydrate_keeps) (auto simp: polite_def intro: receiving looking_up)

lemma translate_out_keep:
  assumes "canonical_id user"
  shows "keeps inv (on_bridge (translate_outbound (dk_client d) message gid user fixed required))"
  by (rule keeps_known, rule bridge_keep, rule sending [OF _ assms])
    (auto simp: polite_def dk_client_def client.truncate_def)

lemma prepare_items_keep:
  assumes "canonical_id user"
  shows "keeps inv (prepare_items d gid user dest n items)"
proof -
  have "keeps inv (item_segments d item)" for item
    unfolding item_segments_def by (auto intro!: office_intros hydrate_keep split: option.split)
  then show ?thesis
    using assms by (induction items arbitrary: n) (auto intro!: office_intros progress_keep translate_out_keep)
qed

lemma forward_keep:
  assumes user: "canonical_id user"
  shows "keeps inv (handle_forward_send d params gid user)"
proof (rule keepsI)
  fix s assume s: "inv s"
  let ?payload = "if dget params ''messages'' = PNone then dget params ''message'' else dget params ''messages''"
  let ?start = "s\<lparr>of_progress := Some \<lparr>pg_thread_mode = dk_threaded d, pg_phase = ''parse'', pg_item = 1, pg_total = 0,
                     pg_sent = 0, pg_last = None, pg_header = None, pg_header_id = None\<rparr>\<rparr>"
  have body: "keeps inv (forward_body d ?payload gid user)"
    unfolding forward_body_def Let_def
    by (auto intro!: office_intros progress_keep translate_out_keep user prepare_items_keep [OF user] in_thread_keep send_all_keep)
  have "keeps inv (forward_excepts e)" for e
    unfolding forward_excepts_def
    by (auto intro!: office_intros split: exn.split)
  note excepts = this
  have "inv (snd (forward_body d ?payload gid user ?start))"
    by (rule keepsD [OF body]) (use s in simp)
  moreover have "inv (snd (forward_excepts e t))" if "inv t" for e t
    using that by (rule keepsD [OF excepts])
  ultimately have "inv (snd (case forward_body d ?payload gid user ?start of (Inl e, t) \<Rightarrow> forward_excepts e t | x \<Rightarrow> x))"
    by (auto split: prod.splits sum.splits)
  then show "inv (snd (handle_forward_send d params gid user s))"
    by (simp add: handle_forward_send_def Let_def case_prod_beta)
qed

lemma send_message_keep:
  assumes "canonical_id user"
  shows "keeps inv (bnd (on_bridge (translate_outbound (dk_client d) message gid user None False)) (send_outbound d))"
  by (intro keeps_bnd translate_out_keep send_outbound_keep assms)

lemma profile_keep: "keeps Q (ensure_profile d u info)"
  unfolding ensure_profile_def by (rule registering)

lemma member_keep: "room \<noteq> [] \<Longrightarrow> keeps Q (resolve_member d room u gid cached mapping)"
  using allocating [of room _ NsRoom] unfolding resolve_member_def
  by (auto intro!: office_intros profile_keep split: option.split)

lemma sources_keep: "keeps Q (group_room_source gid)" "keeps Q (user_source d user)"
  unfolding group_room_source_def user_source_def context_by_surrogate_def
  by (auto intro!: office_intros looking_up)

lemma members_keep: "room \<noteq> [] \<Longrightarrow> keeps Q (resolve_members d room gid mapped ms)"
  by (induction ms) (auto intro!: office_intros member_keep)

lemma queries_keep:
  "keeps Q (handle_get_group_info d params)" "keeps Q (handle_get_group_member_info d params)"
  "keeps Q (handle_get_group_member_list d params)" "keeps Q (handle_get_stranger_info d params)"
  unfolding handle_get_group_info_def handle_get_group_member_info_def handle_get_group_member_list_def
    handle_get_stranger_info_def Let_def
  by (auto intro!: office_intros sources_keep member_keep members_keep profile_keep registering)

lemma run_action_keep:
  assumes user: "canonical_id (dget params ''user_id'')"
  shows "keeps inv (run_action d action params)"
proof -
  have forwards: "keeps inv (forward_to_group d params)" "keeps inv (forward_to_user d params)"
    unfolding forward_to_group_def forward_to_user_def by (rule forward_keep, use user in simp)+
  have sends: "keeps inv (handle_send_group_msg d params)" "keeps inv (handle_send_private_msg d params)"
    unfolding handle_send_group_msg_def handle_send_private_msg_def
    by (intro keeps_if forwards send_message_keep, use user in simp)+
  show ?thesis
    unfolding run_action_def handle_send_msg_def handle_forward_action_def handle_get_msg_def Let_def
    by (intro keeps_if sends forwards keeps_bnd hydrate_keep keeps_ret bridge_keep queries_keep keeps_lift)
      (auto intro!: keeps_ret split: option.split)
qed

theorem handle_keep:
  assumes "canonical_id (dget params ''user_id'')"
  shows "keeps inv (handle d action params)"
proof (rule keepsI)
  fix s assume "inv s"
  from keepsD [OF run_action_keep [OF assms] this, of action]
  show "inv (snd (handle d action params s))"
    by (auto simp: handle_def split: prod.splits sum.splits)
qed

lemma plugins_keep: "keeps inv (dispatch_plugins event raw ps)"
proof -
  have "keeps inv (call_plugin p event raw)" for p
    by (simp add: keeps_def call_plugin_def set_breaker_def Let_def split: option.split plugin_outcome.split)
  then show ?thesis by (induction ps) (auto intro!: office_intros)
qed

lemma deliver_keep:
  assumes "good e"
  shows "keeps inv (deliver d e)"
proof -
  have "keeps inv (should_emit d e)" by (simp add: keeps_def should_emit_def Let_def)
  moreover have "keeps inv (handle_rocketchat_message d e)"
    unfolding handle_rocketchat_message_def emit_event_def
    by (auto intro!: office_intros received_keep plugins_keep assms split: option.split)
  ultimately show ?thesis
    unfolding deliver_def Let_def
    by (auto intro!: office_intros remember_keep assms split: pyval.split)
qed

theorem arrive_keep:
  assumes "good e" "inv s"
  shows "inv (arrive d e s)"
proof -
  have "returns (lift_exn (dk_decrypted d e)) (\<lambda>r. \<forall>e'. r = Some e' \<longrightarrow> good e')"
    by (auto intro!: returns_lift simp: polite_def good_def)
  then have "keeps inv (bnd (lift_exn (dk_decrypted d e)) (\<lambda>r. case r of None \<Rightarrow> ret () | Some e \<Rightarrow> deliver d e))"
    by (rule keeps_bnd_returns [OF keeps_lift]) (auto intro: deliver_keep split: option.split)
  then have "keeps inv (handle_incoming d e)"
    unfolding handle_incoming_def Let_def using assms(1) by (auto intro: deliver_keep)
  with assms(2) show ?thesis unfolding arrive_def by (rule keepsD [rotated])
qed

end

text \<open>The two invariants of the stores.\<close>

lemma inbound_journaled: "clean_ids env e \<Longrightarrow> keeps (\<lambda>b. journaled s0 (br_engine b)) (translate_inbound env e)"
  using request_journaled [of s0 _ "Receive env e"] by (auto simp: keeps_def)

interpretation act_journal: bridge_invariant ds d "\<lambda>b. journaled s0 (br_engine b)" for ds d s0
  by unfold_locales
    (auto simp: ensure_user_def ensure_users_def
      intro!: inbound_journaled create_journaled source_journaled journal.translate_keep keeps_bnd users_journaled)

lemma inbound_opens: "clean_ids env e \<Longrightarrow> keeps opened_ok (translate_inbound env e)"
  using request_opened [of _ "Receive env e"] by (auto simp: keeps_def)

lemma ensure_users_opened: "keeps opened_ok (ensure_users now items)"
proof -
  have "keeps opened_ok (on_users (ensure_mappings_sync now items None))"
  proof (rule on_users_opened)
    fix g assume "registry_ok g" "stripped_users (rg_db g)"
    from ensure_many_rows [OF this, of now items None]
    show "registry_ok (snd (ensure_mappings_sync now items None g)) \<and>
      stripped_users (rg_db (snd (ensure_mappings_sync now items None g))) \<and>
      (\<forall>u r. row_by_user (rg_db g) u = Some r \<longrightarrow>
        (\<exists>r'. row_by_user (rg_db (snd (ensure_mappings_sync now items None g))) u = Some r' \<and> ur_onebot r' = ur_onebot r))"
      by (metis surj_pair snd_conv)
  qed
  then show ?thesis unfolding ensure_users_def by (rule keeps_bnd) (rule keeps_ret)
qed

interpretation act_rooms: bridge_invariant ds d opened_ok for ds d
  by unfold_locales
    (auto simp: ensure_user_def intro!: inbound_opens create_opened source_opened translate_opened keeps_bnd ensure_opened ensure_users_opened)

section \<open>The running bridge\<close>

datatype office_request = Act desk string entry | Arrive desk entry

fun run_office :: "office_request \<Rightarrow> office \<Rightarrow> office" where
  "run_office (Act d action params) s = snd (action_outcome d action params s)"
| "run_office (Arrive d raw) s = arrive d raw s"

definition run_offices :: "office_request list \<Rightarrow> office \<Rightarrow> office" where
  "run_offices rs s = fold run_office rs s"

fun desk_of :: "office_request \<Rightarrow> desk" where
  "desk_of (Act d action params) = d"
| "desk_of (Arrive d raw) = d"

fun office_request_ok :: "desk list \<Rightarrow> office_request \<Rightarrow> bool" where
  "office_request_ok ds (Act d action params) = (polite ds d \<and> canonical_id (dget params ''user_id''))"
| "office_request_ok ds (Arrive d raw) = (polite ds d \<and> trusted ds raw)"

definition requests_ok :: "office_request list \<Rightarrow> bool" where
  "requests_ok rs \<longleftrightarrow> list_all (office_request_ok (map desk_of rs)) rs"

lemma outcome_state:
  "\<exists>p. snd (action_outcome d action params s) = snd (handle d action params s)
     \<or> snd (action_outcome d action params s) = (snd (handle d action params s))\<lparr>of_timeout := p\<rparr>"
  by (auto simp: action_outcome_def take_timeout_response_def split: prod.split sum.split)

text \<open>An invariant of the bridge over any sequence of actions and messages.\<close>

lemma run_office_keep:
  assumes law: "bridge_invariant (desk_of r) Q" and ok: "office_request_ok ds r" "desk_of r \<in> set ds"
    and s: "recent_trusted ds s" "Q (of_bridge s)"
  shows "recent_trusted ds (run_office r s) \<and> Q (of_bridge (run_office r s))"
proof (cases r)
  case (Act d action params)
  with ok have user: "canonical_id (dget params ''user_id'')"
    by simp
  from law Act have law: "bridge_invariant d Q" by simp
  note inv = bridge_invariant.inv_def [OF law]
  have "bridge_invariant.inv ds d Q (snd (handle d action params s))"
    by (rule keepsD [OF bridge_invariant.handle_keep [OF law user]]) (use ok s Act in \<open>simp add: inv\<close>)
  then show ?thesis using outcome_state [of d action params s] Act by (auto simp: inv)
next
  case (Arrive d raw)
  from law Arrive have law: "bridge_invariant d Q" by simp
  note inv = bridge_invariant.inv_def [OF law]
  have "bridge_invariant.inv ds d Q (arrive d raw s)"
    by (rule bridge_invariant.arrive_keep [OF law]) (use ok s Arrive in \<open>simp_all add: inv bridge_invariant.good_def [OF law]\<close>)
  then show ?thesis using Arrive by (simp add: inv)
qed

lemma run_offices_keep:
  assumes law: "\<And>d. bridge_invariant d Q" and rs: "requests_ok rs" and s: "of_recent s = []" "Q (of_bridge s)"
  shows "Q (of_bridge (run_offices rs s))"
proof -
  have "recent_trusted ds (run_offices qs s) \<and> Q (of_bridge (run_offices qs s))"
    if "list_all (office_request_ok ds) qs" "set (map desk_of qs) \<subseteq> set ds" "recent_trusted ds s" "Q (of_bridge s)" for ds qs s
    using that
  proof (induction qs arbitrary: s)
    case (Cons r qs)
    from run_office_keep [OF law, of ds r s] Cons.prems Cons.IH [of "run_office r s"] show ?case
      by (simp add: run_offices_def)
  qed (simp add: run_offices_def)
  from this [of "map desk_of rs" rs s] rs s show ?thesis
    by (simp add: requests_ok_def recent_trusted_def recent_of_def)
qed

end
