(* ===== verification/Delivery_Proofs.thy ===== *)
theory Delivery_Proofs
  imports Action_Proofs
begin

text \<open>
  What the server was asked to send: a forward that is refused sent nothing, the counts it
  reports never exceed the requests, and the requests of one message follow a plan that is
  fixed before the first of them.
\<close>

section \<open>Triples with both outcomes\<close>

definition hoare :: "('s \<Rightarrow> bool) \<Rightarrow> ('s, 'a) action \<Rightarrow> ('a \<Rightarrow> 's \<Rightarrow> bool) \<Rightarrow> (exn \<Rightarrow> 's \<Rightarrow> bool) \<Rightarrow> bool" where
  "hoare P m R E \<longleftrightarrow> (\<forall>s. P s \<longrightarrow> (case m s of (Inl e, t) \<Rightarrow> E e t | (Inr x, t) \<Rightarrow> R x t))"

lemma hoare_bnd: "hoare P m R E \<Longrightarrow> (\<And>x. hoare (R x) (k x) S E) \<Longrightarrow> hoare P (bnd m k) S E"
  by (fastforce simp: hoare_def bnd_def split: prod.splits sum.splits)

lemma hoare_ret: "(\<And>s. P s \<Longrightarrow> R x s) \<Longrightarrow> hoare P (ret x) R E"
  by (simp add: hoare_def ret_def)

lemma hoare_raise: "(\<And>s. P s \<Longrightarrow> E e s) \<Longrightarrow> hoare P (raise_exn e) R E"
  by (simp add: hoare_def raise_exn_def)

lemma hoare_lift: "(\<And>x s. r = Inr x \<Longrightarrow> P s \<Longrightarrow> R x s) \<Longrightarrow> (\<And>e s. r = Inl e \<Longrightarrow> P s \<Longrightarrow> E e s) \<Longrightarrow> hoare P (lift_exn r) R E"
  by (auto simp: hoare_def lift_exn_def split: sum.split)

lemma hoare_gets: "(\<And>s. P s \<Longrightarrow> R (f s) s) \<Longrightarrow> hoare P (gets f) R E"
  by (simp add: hoare_def gets_def)

lemma hoare_modify: "(\<And>s. P s \<Longrightarrow> R () (f s)) \<Longrightarrow> hoare P (modify f) R E"
  by (simp add: hoare_def modify_def)

lemma hoare_if: "(b \<Longrightarrow> hoare P m R E) \<Longrightarrow> (\<not> b \<Longrightarrow> hoare P n R E) \<Longrightarrow> hoare P (if b then m else n) R E"
  by simp

lemma hoare_keeps: "keeps P m \<Longrightarrow> hoare P m (\<lambda>_. P) (\<lambda>_. P)"
  by (auto simp: hoare_def keeps_def split: prod.split sum.split)

lemma hoare_conseq: "hoare P m R E \<Longrightarrow> (\<And>s. P' s \<Longrightarrow> P s) \<Longrightarrow> (\<And>x s. R x s \<Longrightarrow> R' x s) \<Longrightarrow>
    (\<And>e s. E e s \<Longrightarrow> E' e s) \<Longrightarrow> hoare P' m R' E'"
  by (fastforce simp: hoare_def split: prod.splits sum.splits)

lemma hoare_except: "hoare P m R (\<lambda>e s. if e = cancelled_error then E e s else F e s) \<Longrightarrow> (\<And>e. hoare (F e) (h e) R E) \<Longrightarrow>
    hoare P (except_exception m h) R E"
  by (fastforce simp: hoare_def except_exception_def split: prod.splits sum.splits if_splits)

lemma hoareD: "hoare P m R E \<Longrightarrow> P s \<Longrightarrow> m s = (Inr x, t) \<Longrightarrow> R x t"
  "hoare P m R E \<Longrightarrow> P s \<Longrightarrow> m s = (Inl e, t) \<Longrightarrow> E e t"
  by (auto simp: hoare_def split: prod.splits)

section \<open>Counting\<close>

text \<open>
  \<open>counted n\<close>: since there were \<open>n\<close> requests, at least as many were made as the progress says
  messages were delivered; \<open>counted_over\<close> while the last one still has to be reported.
\<close>

definition counted :: "nat \<Rightarrow> office \<Rightarrow> bool" where
  "counted n s \<longleftrightarrow> (\<exists>p. of_progress s = Some p \<and> n + pg_sent p \<le> length (of_sent s) \<and> (pg_last p \<noteq> None \<longrightarrow> 0 < pg_sent p))"

definition counted_over :: "nat \<Rightarrow> office \<Rightarrow> bool" where
  "counted_over n s \<longleftrightarrow> (\<exists>p. of_progress s = Some p \<and> n + pg_sent p < length (of_sent s) \<and> (pg_last p \<noteq> None \<longrightarrow> 0 < pg_sent p))"

lemma over_counted: "counted_over n s \<Longrightarrow> counted n s"
  by (auto simp: counted_over_def counted_def)

lemma ask_counted: "hoare (counted n) (ask d j) (\<lambda>_. counted_over n) (\<lambda>_. counted n)"
  by (auto simp: hoare_def ask_def counted_def counted_over_def split: sum.split)

text \<open>Mapping a message to an id leaves requests and progress alone.\<close>

lemma counted_frame:
  assumes "\<And>s. of_sent (snd (m s)) = of_sent s \<and> of_progress (snd (m s)) = of_progress s"
  shows "keeps (counted n) m" "keeps (counted_over n) m"
  using assms by (simp_all add: keeps_def counted_def counted_over_def)

definition calm :: "(office, 'a) action \<Rightarrow> bool" where
  "calm m \<longleftrightarrow> (\<forall>s. of_sent (snd (m s)) = of_sent s \<and> of_progress (snd (m s)) = of_progress s)"

lemma calm_basic [simp]: "calm (ret x)" "calm (raise_exn e)" "calm (lift_exn r)" "calm (gets f)" "calm (on_bridge b)"
  by (simp_all add: calm_def action_defs on_bridge_def case_prod_beta)

lemma calm_bnd: "calm m \<Longrightarrow> (\<And>x. calm (k x)) \<Longrightarrow> calm (bnd m k)"
  by (simp add: calm_def bnd_def split: prod.split sum.split) (metis snd_conv)

lemma calm_if: "(b \<Longrightarrow> calm m) \<Longrightarrow> (\<not> b \<Longrightarrow> calm n) \<Longrightarrow> calm (if b then m else n)"
  by simp

lemma remember_calm: "of_sent (remember_self now e s) = of_sent s \<and> of_progress (remember_self now e s) = of_progress s"
  by (simp add: remember_self_def Let_def)

lemma echo_calm: "calm (await_echo d room)"
proof -
  have "calm (pop_recent now room)" for now
    by (auto simp: calm_def pop_recent_def split: list.split)
  moreover have "of_sent (fold (remember_self now) raws s) = of_sent s \<and> of_progress (fold (remember_self now) raws s) = of_progress s"
    for now raws s
    by (induction raws arbitrary: s) (simp_all add: remember_calm)
  then have "calm (modify (fold (remember_self now) raws))" for now raws by (simp add: calm_def modify_def)
  ultimately show ?thesis
    unfolding await_echo_def by (auto intro!: calm_bnd split: option.split)
qed

lemma map_sent_calm: "calm (map_sent_message d room thread raw)"
proof -
  have "calm (map_echo d room)"
    unfolding map_echo_def map_by_source_def by (auto intro!: calm_bnd echo_calm split: option.split)
  then show ?thesis
    unfolding map_sent_message_def echo_or_thread_def map_by_source_def Let_def
    by (auto intro!: calm_bnd echo_calm split: option.split)
qed

lemma map_progress_counted: "hoare (counted_over n) (map_progress d room thread raw) (\<lambda>_. counted n) (\<lambda>_. counted n)"
proof -
  let ?R = "\<lambda>s. \<exists>p. of_progress s = Some p \<and> n + pg_sent p \<le> length (of_sent s) \<and> 0 < pg_sent p"
  have "hoare (counted_over n) (set_progress (\<lambda>p. p\<lparr>pg_sent := pg_sent p + 1\<rparr>)) (\<lambda>_. ?R) (\<lambda>_. counted n)"
    unfolding set_progress_def by (rule hoare_modify) (auto simp: counted_over_def)
  moreover have "hoare ?R (map_sent_message d room thread raw) (\<lambda>_. ?R) (\<lambda>_. counted n)"
    by (rule hoare_conseq [OF hoare_keeps, of ?R]) (use map_sent_calm in \<open>auto simp: keeps_def calm_def counted_def\<close>)
  moreover have "hoare ?R (if i = None then raise_exn (RuntimeError ''no message_id'') else set_progress (\<lambda>p. p\<lparr>pg_last := i\<rparr>))
      (\<lambda>_. counted n) (\<lambda>_. counted n)" for i
    unfolding set_progress_def by (intro hoare_if hoare_raise hoare_modify) (auto simp: counted_def)
  ultimately show ?thesis unfolding map_progress_def by (intro hoare_bnd)
qed

text \<open>A message that came back was asked for.\<close>

definition came_back :: "nat \<Rightarrow> pyval \<Rightarrow> office \<Rightarrow> bool" where
  "came_back n raw s \<longleftrightarrow> counted n s \<and> (truthy raw \<longrightarrow> counted_over n s)"

lemma structured_counted:
  "hoare (counted n) (send_structured d room s attachments tmid mentions tm) (came_back n) (\<lambda>_. counted n)"
proof -
  have post: "hoare (counted n) (post_json d endpoint payload) (\<lambda>_. counted_over n) (\<lambda>_. counted n)" for endpoint payload
    unfolding post_json_def
    by (rule hoare_bnd [OF ask_counted]) (auto intro!: hoare_ret hoare_raise over_counted split: pyval.split)
  have "hoare (counted n) (case req of None \<Rightarrow> ret PNone
     | Some (endpoint, payload) \<Rightarrow> bnd (post_json d endpoint payload) (\<lambda>data.
         ret (if data = [] then PNone else py_or (dget data ''message'') (PDict data)))) (came_back n) (\<lambda>_. counted n)" for req
    by (cases req) (auto intro!: hoare_bnd [OF post] hoare_ret over_counted simp: came_back_def)
  then show ?thesis
    unfolding send_structured_def by (intro hoare_bnd [where R = "\<lambda>_. counted n"] hoare_lift) auto
qed

lemma text_counted:
  "hoare (counted n) (send_text d room s tmid mentions r tm) (came_back n) (\<lambda>_. counted n)"
  "hoare (counted n) (send_with_quote d room s q tmid mentions r tm) (came_back n) (\<lambda>_. counted n)"
  unfolding send_text_def send_with_quote_def
  by (auto intro!: hoare_if hoare_raise structured_counted hoare_bnd [where R = "\<lambda>_. counted n"] hoare_lift)

lemma media_counted: "hoare (counted n) (send_media d room t x tmid c tm) (came_back n) (\<lambda>_. counted n)"
proof -
  have "hoare (counted n) (case j of None \<Rightarrow> ret PNone | Some j \<Rightarrow> ask d j) (came_back n) (\<lambda>_. counted n)" for j
    by (cases j) (auto intro!: hoare_ret hoare_conseq [OF ask_counted] simp: came_back_def over_counted)
  then show ?thesis
    unfolding send_media_def by (intro hoare_bnd [where R = "\<lambda>_. counted n"] hoare_lift) auto
qed

lemma record_counted: "hoare (came_back n raw) (record_sent (forward_sending d room thread mode) raw a) (\<lambda>_. counted n) (\<lambda>_. counted n)"
proof -
  have "hoare (\<lambda>s. came_back n raw s \<and> truthy raw) (map_progress d room thread raw) (\<lambda>_. counted n) (\<lambda>_. counted n)"
    by (rule hoare_conseq [OF map_progress_counted]) (auto simp: came_back_def)
  then show ?thesis
    unfolding record_sent_def forward_sending_def
    by (auto simp: hoare_def bnd_def raise_exn_def ret_def came_back_def split: prod.splits sum.splits)
qed

lemma flush_counted: "hoare (counted n) (flush_text d (forward_sending dd room thread mode) force a) (\<lambda>_. counted n) (\<lambda>_. counted n)"
  unfolding flush_text_def Let_def
  by (intro hoare_if hoare_ret hoare_bnd [OF _ record_counted]) (auto intro: text_counted)

lemma loop_counted: "hoare (counted n) (send_loop d (forward_sending dd room thread mode) ss a) (\<lambda>_. counted n) (\<lambda>_. counted n)"
proof (induction ss arbitrary: a)
  case (Cons s ss)
  let ?g = "forward_sending dd room thread mode"
  have media: "hoare (counted n) (bnd (send_media d (sg_room ?g) t x (sg_thread ?g) c (sg_thread_mode ?g)) (\<lambda>raw.
      bnd (record_sent ?g raw b) (\<lambda>a2. if taken then ret a2 else send_loop d ?g ss a2))) (\<lambda>_. counted n) (\<lambda>_. counted n)" for t x c b taken
    by (rule hoare_bnd [OF media_counted], rule hoare_bnd [OF record_counted]) (auto intro!: hoare_ret Cons.IH)
  have flush: "hoare (counted n) (if sa_texts a \<noteq> [] then flush_text d ?g False a
             else if sa_quote a \<noteq> [] then flush_text d ?g True a else ret a) (\<lambda>_. counted n) (\<lambda>_. counted n)"
    by (auto intro!: flush_counted hoare_ret)
  show ?case
    unfolding send_loop.simps Let_def case_prod_beta
    by (rule hoare_if, rule hoare_bnd [where R = "\<lambda>_. counted n"], rule hoare_lift, assumption, assumption, rule Cons.IH,
        rule hoare_bnd [OF flush], rule hoare_bnd [where R = "\<lambda>_. counted n"], rule hoare_lift, assumption, assumption,
        rule hoare_bnd [where R = "\<lambda>_. counted n"], rule hoare_lift, assumption, assumption, rule media)
qed (simp add: hoare_ret)

lemma send_item_counted: "hoare (counted n) (send_item d room thread mode out) (\<lambda>_. counted n) (\<lambda>_. counted n)"
  unfolding send_item_def send_message_segments_def
  by (rule hoare_bnd [OF hoare_bnd [OF loop_counted hoare_bnd [OF flush_counted hoare_ret]] hoare_ret])

section \<open>Reports of a merged forward\<close>

definition step_failed :: "exn \<Rightarrow> nat \<Rightarrow> office \<Rightarrow> bool" where
  "step_failed e n s \<longleftrightarrow> e = cancelled_error \<and> counted n s"

definition reported :: "nat \<Rightarrow> entry \<Rightarrow> office \<Rightarrow> bool" where
  \<comment> \<open>a response that is a failure, or a success after at least one request\<close>
  "reported n r s \<longleftrightarrow> counted n s \<and> (dget r ''retcode'' = PInt 1500 \<or> (dget r ''retcode'' = PInt 0 \<and> n < length (of_sent s)))"

lemma failure_code [simp]: "dget (failure c w) ''retcode'' = PInt c"
  by (simp add: failure_def dget_def)

lemma ok_code [simp]: "dget (ok_response v) ''retcode'' = PInt 0" "dget (message_response i) ''retcode'' = PInt 0"
  by (simp_all add: ok_response_def message_response_def dget_def)

lemma progress_counted:
  "(\<And>p. pg_sent (f p) = pg_sent p \<and> pg_last (f p) = pg_last p) \<Longrightarrow> hoare (counted n) (set_progress f) (\<lambda>_. counted n) E"
  unfolding set_progress_def by (rule hoare_modify) (auto simp: counted_def)

lemma failing_counted: "hoare (counted n) (bnd progress_now (\<lambda>p. ret (f p))) (\<lambda>r s. counted n s \<and> (\<exists>p. r = f p)) E"
  by (auto simp: hoare_def bnd_def progress_now_def gets_def ret_def)

lemma send_items_counted:
  "hoare (counted n) (send_items d room thread mode stage k xs)
     (\<lambda>r s. counted n s \<and> (\<forall>e. r = Some e \<longrightarrow> dget e ''retcode'' = PInt 1500)) (\<lambda>e. step_failed e n)"
proof (induction xs arbitrary: k)
  case (Cons x xs)
  have item: "hoare (counted n) (except_exception (send_item d room thread mode (snd x)) (item_failure stage k (fst x)))
      (\<lambda>r s. counted n s \<and> (\<forall>e. r = Some e \<longrightarrow> dget e ''retcode'' = PInt 1500)) (\<lambda>e. step_failed e n)"
  proof (rule hoare_except)
    have "returns (send_item d room thread mode (snd x)) (\<lambda>r. r = None)"
      unfolding send_item_def by (intro bndI returns_ret) simp
    then show "hoare (counted n) (send_item d room thread mode (snd x))
        (\<lambda>r s. counted n s \<and> (\<forall>e. r = Some e \<longrightarrow> dget e ''retcode'' = PInt 1500))
        (\<lambda>e s. if e = cancelled_error then step_failed e n s else counted n s)"
      using send_item_counted [of n d room thread mode "snd x"]
      by (fastforce simp: hoare_def returns_def step_failed_def split: prod.splits sum.splits)
    show "hoare (counted n) (item_failure stage k (fst x) e)
        (\<lambda>r s. counted n s \<and> (\<forall>e. r = Some e \<longrightarrow> dget e ''retcode'' = PInt 1500)) (\<lambda>e. step_failed e n)" for e
      unfolding item_failure_def by (rule hoare_conseq [OF failing_counted]) auto
  qed
  have rest: "hoare (\<lambda>s. counted n s \<and> (\<forall>e. r = Some e \<longrightarrow> dget e ''retcode'' = PInt 1500))
      (if r \<noteq> None then ret r else send_items d room thread mode stage (k + 1) xs)
      (\<lambda>r s. counted n s \<and> (\<forall>e. r = Some e \<longrightarrow> dget e ''retcode'' = PInt 1500)) (\<lambda>e. step_failed e n)" for r
    by (rule hoare_if, rule hoare_ret, simp, rule hoare_conseq [OF Cons.IH]) auto
  show ?case
    unfolding send_items.simps by (rule hoare_bnd [OF progress_counted], simp, rule hoare_bnd [OF item rest])
qed (auto intro: hoare_ret)

lemma send_all_reported: "hoare (counted n) (send_all d room thread mode stage xs) (reported n) (\<lambda>e. step_failed e n)"
proof -
  have last: "hoare (counted n) last_response (reported n) (\<lambda>e. step_failed e n)"
    by (auto simp: hoare_def last_response_def bnd_def progress_now_def gets_def ret_def reported_def counted_def split: option.split)
  have "hoare (\<lambda>s. counted n s \<and> (\<forall>e. r = Some e \<longrightarrow> dget e ''retcode'' = PInt 1500))
      (case r of Some e \<Rightarrow> ret e | None \<Rightarrow> last_response) (reported n) (\<lambda>e. step_failed e n)" for r
    by (cases r) (auto intro!: hoare_ret hoare_conseq [OF last] simp: reported_def)
  from hoare_bnd [OF send_items_counted this] show ?thesis unfolding send_all_def .
qed

lemma header_counted:
  "hoare (counted n) (thread_header d room nodes)
     (\<lambda>h s. counted n s \<and> (\<forall>e. h = Inr e \<longrightarrow> dget e ''retcode'' = PInt 1500)) (\<lambda>e. step_failed e n)"
proof -
  let ?R = "\<lambda>h s. counted n s \<and> (\<forall>e. h = Inr e \<longrightarrow> dget e ''retcode'' = PInt 1500)"
  let ?E = "\<lambda>_ :: exn. counted n"
  have tail: "hoare (counted n) (bnd (set_progress (\<lambda>p. p\<lparr>pg_header := Some source\<rparr>)) (\<lambda>_.
                bnd (map_sent_message d room [] raw) (\<lambda>i.
                  if i = None then raise_exn (RuntimeError ''header mapping'')
                  else bnd (set_progress (\<lambda>p. p\<lparr>pg_header_id := i\<rparr>)) (\<lambda>_. ret (Inl source))))) ?R ?E" for source raw
    by (rule hoare_bnd [OF progress_counted], simp,
        rule hoare_bnd [OF hoare_keeps [OF counted_frame(1)]], use map_sent_calm in \<open>auto simp: calm_def\<close>)
      (auto intro!: hoare_ret hoare_raise hoare_bnd [OF progress_counted])
  have "hoare (came_back n raw) (case raw of PDict e \<Rightarrow>
          (let source = str_field e ''_id'' in
           if source = [] then raise_exn (RuntimeError ''header id'')
           else bnd (set_progress (\<lambda>p. p\<lparr>pg_header := Some source\<rparr>)) (\<lambda>_.
                bnd (map_sent_message d room [] raw) (\<lambda>i.
                  if i = None then raise_exn (RuntimeError ''header mapping'')
                  else bnd (set_progress (\<lambda>p. p\<lparr>pg_header_id := i\<rparr>)) (\<lambda>_. ret (Inl source)))))
      | _ \<Rightarrow> raise_exn (RuntimeError ''no header'')) ?R ?E" for raw
    by (rule hoare_conseq [where P = "counted n"])
      (auto simp: Let_def came_back_def intro!: hoare_raise tail split: pyval.split)
  then have "hoare (counted n) (bnd (send_text d room (forward_title nodes) [] [] [] True) (\<lambda>raw. case raw of
        PDict e \<Rightarrow>
          (let source = str_field e ''_id'' in
           if source = [] then raise_exn (RuntimeError ''header id'')
           else bnd (set_progress (\<lambda>p. p\<lparr>pg_header := Some source\<rparr>)) (\<lambda>_.
                bnd (map_sent_message d room [] raw) (\<lambda>i.
                  if i = None then raise_exn (RuntimeError ''header mapping'')
                  else bnd (set_progress (\<lambda>p. p\<lparr>pg_header_id := i\<rparr>)) (\<lambda>_. ret (Inl source)))))
      | _ \<Rightarrow> raise_exn (RuntimeError ''no header''))) ?R ?E"
    by (rule hoare_bnd [OF text_counted(1)])
  then show ?thesis
    unfolding thread_header_def
    by (rule hoare_except [OF hoare_conseq [where E = ?E and R = ?R]])
      (auto simp: step_failed_def intro!: hoare_conseq [OF failing_counted])
qed

lemma in_thread_reported: "hoare (counted n) (send_in_thread d room nodes xs) (reported n) (\<lambda>e. step_failed e n)"
proof -
  have "calm (are_threads_enabled d)"
    unfolding are_threads_enabled_def by (intro calm_bnd) simp_all
  then have enabled: "hoare (counted n) (threads_state d)
      (\<lambda>r s. counted n s \<and> (\<forall>e. r = Some e \<longrightarrow> dget e ''retcode'' = PInt 1500)) (\<lambda>e. step_failed e n)"
    unfolding threads_state_def
    by (intro hoare_except [OF hoare_conseq [OF hoare_bnd [OF hoare_keeps [OF counted_frame(1)] hoare_ret]], where F = "\<lambda>_. counted n"])
      (auto simp: calm_def step_failed_def intro!: hoare_ret)
  have "hoare (\<lambda>s. counted n s \<and> (\<forall>e. h = Inr e \<longrightarrow> dget e ''retcode'' = PInt 1500))
      (case h of Inr e \<Rightarrow> ret e | Inl source \<Rightarrow> send_all d room source True ''thread body'' xs)
      (reported n) (\<lambda>e. step_failed e n)" for h
    by (cases h) (auto intro!: hoare_ret hoare_conseq [OF send_all_reported] simp: reported_def)
  note body = hoare_bnd [OF header_counted this]
  have "hoare (\<lambda>s. counted n s \<and> (\<forall>e. r = Some e \<longrightarrow> dget e ''retcode'' = PInt 1500)) (case r of Some e \<Rightarrow> ret e | None \<Rightarrow>
     bnd (set_progress (\<lambda>p. p\<lparr>pg_phase := ''header''\<rparr>)) (\<lambda>_.
     bnd (thread_header d room nodes) (\<lambda>h. case h of
       Inr e \<Rightarrow> ret e | Inl source \<Rightarrow> send_all d room source True ''thread body'' xs)))
      (reported n) (\<lambda>e. step_failed e n)" for r
    by (cases r) (auto intro!: hoare_ret hoare_conseq [OF hoare_bnd [OF progress_counted body]] simp: reported_def)
  from hoare_bnd [OF progress_counted hoare_bnd [OF enabled this]] show ?thesis unfolding send_in_thread_def by simp
qed

text \<open>Before the first item is sent nothing was sent.\<close>

definition unsent :: "job list \<Rightarrow> office \<Rightarrow> bool" where
  "unsent js s \<longleftrightarrow> of_sent s = js \<and> counted (length js) s"

lemma unsent_calm: "calm m \<Longrightarrow> keeps (unsent js) m"
  by (fastforce simp: keeps_def calm_def unsent_def counted_def)

lemma unsent_progress:
  "(\<And>p. pg_sent (f p) = pg_sent p \<and> pg_last (f p) = pg_last p) \<Longrightarrow> keeps (unsent js) (set_progress f)"
  unfolding set_progress_def by (rule keeps_modify) (auto simp: unsent_def counted_def)

lemma prepare_unsent: "keeps (unsent js) (prepare_items d gid user dest n items)"
proof (induction items arbitrary: n)
  case (Cons item items)
  have "calm (item_segments d item)"
    unfolding item_segments_def by (auto intro!: calm_bnd split: option.split)
  note segs = unsent_calm [OF this] and out = unsent_calm [OF calm_basic(5)]
  show ?case
    unfolding prepare_items.simps
    by (rule keeps_bnd [OF unsent_progress], simp, rule keeps_bnd [OF segs], rule keeps_bnd [OF out])
      (auto intro!: office_intros Cons.IH)
qed simp

definition refused_or :: "job list \<Rightarrow> exn \<Rightarrow> office \<Rightarrow> bool" where
  "refused_or js e s \<longleftrightarrow> counted (length js) s \<and> (e = cancelled_error \<or> of_sent s = js)"

lemma forward_body_reported:
  "hoare (unsent js) (forward_body d payload gid user) (reported (length js)) (refused_or js)"
proof -
  have pre: "hoare (unsent js) m (\<lambda>_. unsent js) (refused_or js)" if "keeps (unsent js) m" for m :: "(office, 'b) action"
    by (rule hoare_conseq [OF hoare_keeps [OF that]]) (auto simp: unsent_def refused_or_def)
  have sent: "hoare (unsent js) m (reported (length js)) (refused_or js)"
    if "hoare (counted (length js)) m (reported (length js)) (\<lambda>e. step_failed e (length js))" for m
    by (rule hoare_conseq [OF that]) (auto simp: unsent_def refused_or_def step_failed_def)
  have send: "hoare (unsent js) (if xs = [] then raise_exn (ValueError ''empty forward'')
       else (let room = ob_room target; thread = py_strip (opt_text (ob_thread target)) in
         bnd (set_progress (\<lambda>p. p\<lparr>pg_phase := ''sending''\<rparr>)) (\<lambda>_.
           if dk_threaded d then send_in_thread d room (node_count items) xs
           else send_all d room thread False ''sending'' xs))) (reported (length js)) (refused_or js)" for xs target items
    unfolding Let_def
    by (rule hoare_if, rule hoare_raise, simp add: unsent_def refused_or_def, rule hoare_bnd [OF pre [OF unsent_progress]], simp,
        rule hoare_if, rule sent, rule in_thread_reported, rule sent, rule send_all_reported)
  show ?thesis
    unfolding forward_body_def
    by (rule hoare_bnd [OF pre [OF keeps_lift]], rule hoare_bnd [OF pre [OF unsent_progress]], simp,
        rule hoare_bnd [OF pre [OF unsent_calm]], simp, rule hoare_bnd [OF pre [OF prepare_unsent]], rule send)
qed

lemma forward_excepts_cases:
  "forward_excepts e s = (r, t) \<Longrightarrow>
     (e = cancelled_error \<and> r = Inl e \<and> t = s\<lparr>of_timeout := of_progress s\<rparr>)
   \<or> (e \<noteq> cancelled_error \<and> t = s \<and> (r = Inl e \<or> r = Inr (failed (exn_text e))))"
  by (cases e) (auto simp: forward_excepts_def bnd_def modify_def raise_exn_def ret_def cancelled_error_def split: if_splits)

text \<open>The four ways a merged forward ends.\<close>

theorem forward_send_ends:
  assumes run: "handle_forward_send d params gid user s = (r, t)"
  shows "case r of
      Inr e \<Rightarrow> dget e ''retcode'' = PInt 1500 \<or> (dget e ''retcode'' = PInt 0 \<and> length (of_sent s) < length (of_sent t))
        \<or> (dget e ''retcode'' = PInt 1400 \<and> of_sent t = of_sent s)
    | Inl e \<Rightarrow> (if e = cancelled_error then \<exists>p. of_timeout t = Some p \<and> length (of_sent s) + pg_sent p \<le> length (of_sent t)
                else of_sent t = of_sent s)"
proof -
  let ?payload = "if dget params ''messages'' = PNone then dget params ''message'' else dget params ''messages''"
  let ?start = "s\<lparr>of_progress := Some \<lparr>pg_thread_mode = dk_threaded d, pg_phase = ''parse'', pg_item = 1, pg_total = 0,
                     pg_sent = 0, pg_last = None, pg_header = None, pg_header_id = None\<rparr>\<rparr>"
  obtain r' t' where body: "forward_body d ?payload gid user ?start = (r', t')" by (metis surj_pair)
  have "unsent (of_sent s) ?start" by (simp add: unsent_def counted_def)
  then have ends: "r' = Inr e \<Longrightarrow> reported (length (of_sent s)) e t'" "r' = Inl x \<Longrightarrow> refused_or (of_sent s) x t'" for e x
    using hoareD [OF forward_body_reported, of "of_sent s" ?start d ?payload gid user _ t'] body by blast+
  show ?thesis
  proof (cases r')
    case (Inr e)
    with body run have "r = Inr e" "t = t'\<lparr>of_progress := None\<rparr>" by (simp_all add: handle_forward_send_def Let_def)
    with ends(1) [OF Inr] show ?thesis by (auto simp: reported_def)
  next
    case (Inl e)
    obtain r2 t2 where ex: "forward_excepts e t' = (r2, t2)" by (metis surj_pair)
    with body run Inl have "r = r2" "t = t2\<lparr>of_progress := None\<rparr>" by (simp_all add: handle_forward_send_def Let_def)
    with forward_excepts_cases [OF ex] ends(2) [OF Inl] show ?thesis
      by (auto simp: refused_or_def counted_def failed_def)
  qed
qed

text \<open>
  Nothing is posted before every item was translated: when the list of requests has grown, the
  payload was parsed and all of its items were prepared while the list was what it was.
\<close>

lemma prepare_items_length:
  "returns (prepare_items d gid user dest n items) (\<lambda>xs. map fst xs = map fi_index items)"
proof (induction items arbitrary: n)
  case (Cons item items)
  show ?case
    unfolding prepare_items.simps
    by (rule bndI, rule bndI, rule bndI, rule returns_if, rule returns_raise, rule returns_bnd [OF Cons.IH], rule returns_ret) simp
qed (simp add: returns_ret)

definition all_prepared :: "desk \<Rightarrow> pyval \<Rightarrow> pyval \<Rightarrow> pyval \<Rightarrow> job list \<Rightarrow> bool" where
  "all_prepared d payload gid user js \<longleftrightarrow> (\<exists>items dest xs u v. parse_forward_nodes payload = Inr items \<and> items \<noteq> []
     \<and> prepare_items d gid user dest 1 items u = (Inr xs, v) \<and> of_sent u = js \<and> of_sent v = js
     \<and> map fst xs = map fi_index items)"

lemma forward_body_checked:
  assumes run: "forward_body d payload gid user s = (r, t)" and start: "unsent js s" and sent: "of_sent t \<noteq> js"
  shows "all_prepared d payload gid user js"
proof -
  have step: "\<exists>x u. m a = (Inr x, u) \<and> unsent js u \<and> k x u = (r, t)"
    if "bnd m k a = (r, t)" "unsent js a" "keeps (unsent js) m" for m :: "(office, 'b) action" and k a
  proof -
    obtain q u where q: "m a = (q, u)" by (metis surj_pair)
    with keepsD [OF that(3,2)] have u: "unsent js u" by simp
    from that(1) q u sent show ?thesis by (cases q) (auto simp: bnd_def unsent_def)
  qed
  let ?post = "\<lambda>items (target :: outbound) xs. if xs = [] then raise_exn (ValueError ''empty forward'')
       else (let room = ob_room target; thread = py_strip (opt_text (ob_thread target)) in
         bnd (set_progress (\<lambda>p. p\<lparr>pg_phase := ''sending''\<rparr>)) (\<lambda>_.
           if dk_threaded d then send_in_thread d room (node_count items) xs
           else send_all d room thread False ''sending'' xs))"
  let ?dest = "\<lambda>target :: outbound. [(''room_id'', PStr (ob_room target)), (''thread_source_id'', opt_str (ob_thread target))]"
  let ?prepare = "\<lambda>items target. bnd (prepare_items d gid user (?dest target) 1 items) (?post items target)"
  let ?resolve = "\<lambda>items. bnd (on_bridge (translate_outbound (dk_client d) (PList []) gid user None False)) (?prepare items)"
  from step [OF run [unfolded forward_body_def] start keeps_lift] obtain items s1 where
    s1: "lift_exn (parse_forward_nodes payload) s = (Inr items, s1)" "unsent js s1"
    and k1: "bnd (set_progress (\<lambda>p. p\<lparr>pg_total := length items, pg_phase := ''check''\<rparr>)) (\<lambda>_. ?resolve items) s1 = (r, t)"
    by (elim exE conjE) (rule that; assumption)
  have items: "parse_forward_nodes payload = Inr items" using s1(1) by (simp add: lift_exn_def)
  have "keeps (unsent js) (set_progress (\<lambda>p. p\<lparr>pg_total := length items, pg_phase := ''check''\<rparr>))"
    by (rule unsent_progress) simp
  from step [OF k1 s1(2) this] obtain s2 where s2: "unsent js s2" and k2: "?resolve items s2 = (r, t)"
    by (elim exE conjE) (rule that; assumption)
  from step [OF k2 s2 unsent_calm [OF calm_basic(5)]] obtain target s3 where
    s3: "unsent js s3" and k3: "?prepare items target s3 = (r, t)"
    by (elim exE conjE) (rule that; assumption)
  from step [OF k3 s3 prepare_unsent] obtain xs s4 where
    xs: "prepare_items d gid user (?dest target) 1 items s3 = (Inr xs, s4)" "unsent js s4"
    and k4: "?post items target xs s4 = (r, t)"
    by (elim exE conjE) (rule that; assumption)
  have idx: "map fst xs = map fi_index items" using returnsD [OF prepare_items_length xs(1)] .
  have "xs \<noteq> []" using k4 sent xs(2) by (auto simp: raise_exn_def unsent_def)
  with idx have "items \<noteq> []" by auto
  with items xs idx s3 show ?thesis unfolding all_prepared_def unsent_def by blast
qed

definition forward_payload :: "entry \<Rightarrow> pyval" where
  "forward_payload params = (if dget params ''messages'' = PNone then dget params ''message'' else dget params ''messages'')"

lemma forward_send_checked:
  assumes run: "handle_forward_send d params gid user s = (r, t)" and sent: "of_sent t \<noteq> of_sent s"
  shows "all_prepared d (forward_payload params) gid user (of_sent s)"
proof -
  let ?start = "s\<lparr>of_progress := Some \<lparr>pg_thread_mode = dk_threaded d, pg_phase = ''parse'', pg_item = 1, pg_total = 0,
                     pg_sent = 0, pg_last = None, pg_header = None, pg_header_id = None\<rparr>\<rparr>"
  obtain r' t' where body: "forward_body d (forward_payload params) gid user ?start = (r', t')" by (metis surj_pair)
  have start: "unsent (of_sent s) ?start" by (simp add: unsent_def counted_def)
  have "of_sent t = of_sent t'"
  proof (cases r')
    case (Inl e)
    obtain r2 t2 where ex: "forward_excepts e t' = (r2, t2)" by (metis surj_pair)
    with body run Inl have "t = t2\<lparr>of_progress := None\<rparr>" by (simp add: handle_forward_send_def forward_payload_def Let_def)
    with forward_excepts_cases [OF ex] show ?thesis by auto
  qed (use body run in \<open>auto simp: handle_forward_send_def forward_payload_def Let_def\<close>)
  with forward_body_checked [OF body start] sent show ?thesis by simp
qed

end
