(* ===== verification/Sent_Ids.thy ===== *)
theory Sent_Ids
  imports Delivery_Proofs
begin

text \<open>
  The OneBot id that a sent message gets: a reply to it finds the message, and which message it
  names when the id was taken from an echo.
\<close>

section \<open>Ids that can be replied to\<close>

definition repliable :: "int \<Rightarrow> bridge \<Rightarrow> bool" where
  "repliable i b \<longleftrightarrow> (\<exists>src. src \<noteq> [] \<and> resolve_reply [(''id'', PStr (str_int i))] b = (Inr (Some src), b))"

lemma repliable_stored:
  assumes "map_of (eng_by_surrogate (br_engine b)) (str_int i) = Some e" "dget e ''source_id'' = PStr m" "m \<noteq> []"
  shows "repliable i b"
  using assms
  by (simp add: repliable_def resolve_reply_def message_by_surrogate_def bnd_def gets_def ret_def dget_def
      eng_message_by_surrogate_def)

lemma repliable_mapped:
  assumes "eng_src (br_engine b) NsMessage i = Some k" "k \<noteq> []"
  shows "repliable i b"
proof -
  have "map_get_source ''message'' (PStr (str_int i)) b = (Inr (Some k), b)"
    using assms(1) by (auto simp: map_get_source_def bnd_def gets_def lift_exn_def eng_src_def split: sum.splits)
  then show ?thesis
    using assms(2) py_str_truthy
    by (cases "map_of (eng_by_surrogate (br_engine b)) (str_int i)")
      (auto simp: repliable_def resolve_reply_def message_by_surrogate_def bnd_def gets_def ret_def dget_def
        eng_message_by_surrogate_def)
qed

lemma translated_repliable:
  assumes "translate_inbound env raw b = (Inr (Some ev), b')" "message_id_of ev = Inr i" "i \<noteq> 0"
  shows "repliable i b'"
proof -
  from translate_inbound_Some [OF assms(1)] obtain sender pl pr t f0 p snaps f1 f2 where
    n: "raw_str_field raw ''_id'' \<noteq> []" and parts: "message_parts_of env raw sender pl pr t f0 = (Inr (p, snaps), f1)"
    and stored: "persist env pl pr p snaps f1 = (Inr (), f2)" and ev: "ev = inbound_event env p"
    and b': "eng_by_surrogate (br_engine b') = eng_by_surrogate (mb_engine (fl_batch f2))" by metis
  have m: "mp_message p = i" using assms(2) ev by (simp add: message_id_of_def inbound_event_def Let_def)
  show ?thesis
    by (rule repliable_stored [of _ _ "stored_entry env p" "raw_str_field raw ''_id''"])
      (use persist_stored(2) [OF stored] m assms(3) b' n message_parts_fields(1) [OF parts] in \<open>simp_all add: stored_reads\<close>)
qed

lemma created_repliable:
  assumes "all_ok (br_engine b)" "k \<noteq> []" "map_get_or_create now ''message'' k b = (Inr m, b')"
  shows "repliable (im_surrogate_id m) b'"
proof -
  have ok: "engine_ok (br_engine b)" using assms(1) by (simp add: all_ok_def)
  from assms(3) have "eng_alloc NsMessage k (br_engine b) = (Inr (im_surrogate_id m), br_engine b')"
    by (auto simp: map_get_or_create_def eng_alloc_def bnd_def on_stores_def ret_def split: prod.splits sum.splits)
  with engine_ids.alloc_readback [OF ok, of NsMessage k] show ?thesis
    using assms(2) by (auto intro!: repliable_mapped [of b' _ k])
qed

section \<open>The id of a sent message\<close>

text \<open>When a message gets no id, nothing was stored.\<close>

lemma unnamed_unchanged:
  assumes "raw_str_field e ''_id'' = []"
  shows "translate_inbound env e b = (r, b') \<Longrightarrow> b' = b"
  using assms by (auto simp: translate_inbound_def ret_def raise_exn_def split: pyval.splits)

lemma echo_bridge: "of_bridge (snd (await_echo d room s)) = of_bridge s"
proof -
  have "of_bridge (snd (pop_recent now room s)) = of_bridge s" for now s
    by (auto simp: pop_recent_def split: list.split)
  moreover have "of_bridge (fold (remember_self now) raws s) = of_bridge s" for now raws s
    by (induction raws arbitrary: s) (simp_all add: remember_self_def Let_def)
  ultimately show ?thesis
    by (auto simp: await_echo_def bnd_def gets_def modify_def ret_def split: prod.split sum.split option.split)
      (metis snd_conv)+
qed

lemma no_id_unchanged:
  assumes "map_sent_message d room thread raw s = (Inr None, t)"
  shows "of_bridge t = of_bridge s"
proof -
  have same: "of_bridge u' = of_bridge u"
    if "on_bridge (translate_inbound env e) u = (r, u')" "raw_str_field e ''_id'' = []" for env e u r u'
    using that unnamed_unchanged [of e env "of_bridge u"] by (auto simp: on_bridge_def split: prod.splits)
  have echo: "of_bridge u' = of_bridge u" if "map_echo d room u = (Inr None, u')" for u u'
    using that echo_bridge [of d room u]
    by (auto simp: map_echo_def bnd_def ret_def lift_exn_def map_by_source_def
        split: prod.splits sum.splits if_splits option.splits dest!: same)
  from assms obtain raw' u where e: "echo_or_thread d room thread raw s = (Inr raw', u)"
    and rest: "bnd (on_bridge (translate_raw (dk_env d) raw')) (\<lambda>event. case event of
       Some ev \<Rightarrow> bnd (lift_exn (message_id_of ev)) (\<lambda>i. ret (Some i))
     | None \<Rightarrow>
         (let source = (case raw' of PDict e \<Rightarrow> raw_str_field e ''_id'' | _ \<Rightarrow> []) in
          if source \<noteq> [] then bnd (map_by_source d source) (\<lambda>i. ret (Some i)) else map_echo d room)) u = (Inr None, t)"
    by (auto simp: map_sent_message_def bnd_def split: prod.splits sum.splits)
  have "of_bridge u = of_bridge s"
    using e echo_bridge [of d room s]
    by (auto simp: echo_or_thread_def bnd_def ret_def split: if_splits prod.splits sum.splits)
  moreover have "of_bridge t = of_bridge u"
  proof (cases raw')
    case (PDict e)
    with rest show ?thesis
      by (auto simp: translate_raw_def bnd_def ret_def lift_exn_def map_by_source_def Let_def
          split: prod.splits sum.splits if_splits option.splits dest!: same echo)
  qed (use rest in \<open>auto simp: translate_raw_def on_bridge_def raise_exn_def bnd_def\<close>)
  ultimately show ?thesis by simp
qed

definition id_ok :: "int option \<Rightarrow> office \<Rightarrow> bool" where
  "id_ok i s \<longleftrightarrow> (\<forall>j. i = Some j \<longrightarrow> j \<noteq> 0 \<longrightarrow> repliable j (of_bridge s))"

text \<open>The stores stay in order, and the id that was found can be replied to.\<close>

abbreviation steady :: "desk list \<Rightarrow> desk \<Rightarrow> engine \<Rightarrow> office \<Rightarrow> bool" where
  "steady ds d s0 \<equiv> bridge_invariant.inv ds d (\<lambda>b. journaled s0 (br_engine b))"

lemma steady_ok: "steady ds d s0 s \<Longrightarrow> all_ok (br_engine (of_bridge s))"
  using journaled_ok by (auto simp: act_journal.inv_def)

lemma translated_id:
  "hoare P (on_bridge (translate_inbound env e)) (\<lambda>ev s. \<forall>x. ev = Some x \<longrightarrow> (\<forall>i. message_id_of x = Inr i \<longrightarrow> id_ok (Some i) s)) (\<lambda>_ _. True)"
  using translated_repliable
  by (fastforce simp: hoare_def on_bridge_def id_ok_def split: prod.splits sum.splits)

lemma mapped_id:
  assumes "k \<noteq> []"
  shows "hoare (steady ds d s0) (bnd (map_by_source d k) (\<lambda>i. ret (Some i))) id_ok (\<lambda>_ _. True)"
  using created_repliable [OF steady_ok assms]
  by (fastforce simp: hoare_def map_by_source_def on_bridge_def bnd_def ret_def id_ok_def split: prod.splits sum.splits)

lemma hoare_and_keeps: "keeps P m \<Longrightarrow> hoare P m R E \<Longrightarrow> hoare P m (\<lambda>x s. P s \<and> R x s) E"
  by (fastforce simp: hoare_def keeps_def split: prod.splits sum.splits)

lemma no_id: "hoare P (ret None) id_ok (\<lambda>_ _. True)"
  by (simp add: hoare_def ret_def id_ok_def)

text \<open>Both ways to an id: from the event, else from the name of the message.\<close>

lemma event_or_source_id:
  assumes other: "hoare (steady ds d s0) other id_ok (\<lambda>_ _. True)"
  shows "hoare (\<lambda>s. steady ds d s0 s \<and> (\<forall>y. x = Some y \<longrightarrow> (\<forall>i. message_id_of y = Inr i \<longrightarrow> id_ok (Some i) s)))
      (case x of Some ev \<Rightarrow> bnd (lift_exn (message_id_of ev)) (\<lambda>i. ret (Some i))
       | None \<Rightarrow> if k \<noteq> [] then bnd (map_by_source d k) (\<lambda>i. ret (Some i)) else other) id_ok (\<lambda>_ _. True)"
proof (cases x)
  case None
  then show ?thesis
    using hoare_conseq [OF mapped_id [of k ds d s0]] hoare_conseq [OF other] by simp
next
  case (Some ev)
  then show ?thesis by (auto simp: hoare_def bnd_def lift_exn_def ret_def split: sum.split)
qed

lemma received_id:
  assumes "act_journal.good ds d e" "hoare (steady ds d s0) other id_ok (\<lambda>_ _. True)"
  shows "hoare (steady ds d s0) (bnd (on_bridge (translate_inbound (dk_env d) e)) (\<lambda>event. case event of
         Some ev \<Rightarrow> bnd (lift_exn (message_id_of ev)) (\<lambda>i. ret (Some i))
       | None \<Rightarrow> if k \<noteq> [] then bnd (map_by_source d k) (\<lambda>i. ret (Some i)) else other)) id_ok (\<lambda>_ _. True)"
  by (rule hoare_bnd [OF hoare_and_keeps [OF act_journal.received_keep [OF assms(1)] translated_id] event_or_source_id [OF assms(2)]])

lemma map_echo_id: "hoare (steady ds d s0) (map_echo d room) id_ok (\<lambda>_ _. True)"
proof -
  have "hoare (steady ds d s0) (await_echo d room) (\<lambda>echo s. steady ds d s0 s \<and> (\<forall>e. echo = Some e \<longrightarrow> act_journal.good ds d e)) (\<lambda>_ _. True)"
    using act_journal.echo_gives [of ds d s0 room] by (fastforce simp: gives_def hoare_def keeps_def split: prod.split sum.split)
  then show ?thesis
    unfolding map_echo_def
  proof (rule hoare_bnd)
    fix echo
    show "hoare (\<lambda>s. steady ds d s0 s \<and> (\<forall>e. echo = Some e \<longrightarrow> act_journal.good ds d e))
      (if echo = None \<or> echo = Some [] then ret None
       else bnd (on_bridge (translate_inbound (dk_env d) (the echo))) (\<lambda>event. case event of
         Some ev \<Rightarrow> bnd (lift_exn (message_id_of ev)) (\<lambda>i. ret (Some i))
       | None \<Rightarrow>
           if raw_str_field (the echo) ''_id'' \<noteq> []
           then bnd (map_by_source d (raw_str_field (the echo) ''_id'')) (\<lambda>i. ret (Some i))
           else ret None)) id_ok (\<lambda>_ _. True)"
    proof (cases "echo \<noteq> None \<and> echo \<noteq> Some [] \<and> act_journal.good ds d (the echo)")
      case True
      then have good: "act_journal.good ds d (the echo)" by simp
      from True show ?thesis
        using received_id [OF good no_id, of s0 "raw_str_field (the echo) ''_id''"]
        by (cases echo) (simp_all add: hoare_def)
    next
      case False
      then show ?thesis using no_id by (auto simp: hoare_def)
    qed
  qed
qed

lemma map_sent_id:
  assumes raw: "raw_ok (act_journal.good ds d) raw"
  shows "hoare (steady ds d s0) (map_sent_message d room thread raw) id_ok (\<lambda>_ _. True)"
proof -
  have given: "hoare (steady ds d s0) (echo_or_thread d room thread raw)
      (\<lambda>raw s. steady ds d s0 s \<and> raw_ok (act_journal.good ds d) raw) (\<lambda>_ _. True)"
    using act_journal.echo_or_thread_gives [OF raw] by (fastforce simp: gives_def hoare_def keeps_def split: prod.split sum.split)
  show ?thesis
    unfolding map_sent_message_def
  proof (rule hoare_bnd [OF given])
    fix raw
    show "hoare (\<lambda>s. steady ds d s0 s \<and> raw_ok (act_journal.good ds d) raw)
      (bnd (on_bridge (translate_raw (dk_env d) raw)) (\<lambda>event. case event of
         Some ev \<Rightarrow> bnd (lift_exn (message_id_of ev)) (\<lambda>i. ret (Some i))
       | None \<Rightarrow> (let source = (case raw of PDict e \<Rightarrow> raw_str_field e ''_id'' | _ \<Rightarrow> []) in
            if source \<noteq> [] then bnd (map_by_source d source) (\<lambda>i. ret (Some i)) else map_echo d room))) id_ok (\<lambda>_ _. True)"
    proof (cases raw)
      case (PDict e)
      show ?thesis
      proof (cases "act_journal.good ds d e")
        case True
        from received_id [OF True map_echo_id, of s0 "raw_str_field e ''_id''" room] show ?thesis
          unfolding PDict by (simp add: translate_raw_def Let_def hoare_def)
      qed (simp add: PDict raw_ok_def hoare_def)
    qed (simp_all add: hoare_def translate_raw_def on_bridge_def raise_exn_def bnd_def)
  qed
qed

lemma map_messages_id:
  "list_all (raw_ok (act_journal.good ds d)) raws \<Longrightarrow> steady ds d s0 s \<Longrightarrow> id_ok last_id s \<Longrightarrow>
   map_messages d room thread raws last_id s = (Inr i, t) \<Longrightarrow> id_ok i t"
proof (induction raws arbitrary: last_id s)
  case (Cons raw raws)
  from Cons.prems obtain j u where j: "map_sent_message d room thread raw s = (Inr j, u)"
    and rest: "map_messages d room thread raws (if j = None then last_id else j) u = (Inr i, t)"
    by (auto simp: bnd_def split: prod.splits sum.splits)
  have raw: "raw_ok (act_journal.good ds d) raw" using Cons.prems(1) by simp
  have u: "steady ds d s0 u" using keepsD [OF act_journal.map_sent_keep [OF raw] Cons.prems(2)] j by (metis snd_conv)
  have "id_ok (if j = None then last_id else j) u"
    using no_id_unchanged [of d room thread raw s u] j Cons.prems(3) hoareD(1) [OF map_sent_id [OF raw] Cons.prems(2) j]
    by (auto simp: id_ok_def)
  from Cons.IH [OF _ u this rest] Cons.prems(1) show ?case by simp
qed (simp add: ret_def)

theorem sent_id_repliable:
  assumes s: "steady ds d s0 s" and run: "send_outbound d out s = (Inr r, t)"
  shows "\<exists>i. r = message_response i \<and> (i \<noteq> 0 \<longrightarrow> repliable i (of_bridge t))"
proof -
  let ?thread = "py_strip (opt_text (ob_thread out))"
  from run obtain raws u i where
    sent: "send_message_segments d (plain_sending (ob_room out) ?thread) (segment_dicts out) (opt_text (ob_reply out))
      (ob_mentions out) (ob_reply_mention out) s = (Inr raws, u)"
    and mapped: "map_messages d (ob_room out) ?thread raws None u = (Inr (Some i), t)" and r: "r = message_response i"
    by (auto simp: send_outbound_def Let_def bnd_def ret_def raise_exn_def split: if_splits prod.splits sum.splits option.splits)
  have raws: "list_all (raw_ok (act_journal.good ds d)) raws"
    by (rule returnsD [OF act_journal.plain.send_returns sent])
  have "steady ds d s0 u"
    using keepsD [OF act_journal.plain.send_keep s] sent by (metis snd_conv)
  from map_messages_id [OF raws this _ mapped] have "i \<noteq> 0 \<longrightarrow> repliable i (of_bridge t)" by (simp add: id_ok_def)
  with r show ?thesis by blast
qed

section \<open>The echo of another message\<close>

text \<open>When the server's answer does not name the thread, the oldest own message of the room is taken for its echo.\<close>

theorem echo_replaces_message:
  assumes recent: "recent_of room s = (t0, e) # rest" "cl_now (dk_env d) - t0 \<le> 10" and e: "e \<noteq> []"
    and raw: "thread \<noteq> []" "str_field raw ''tmid'' = []"
  shows "\<exists>s'. of_bridge s' = of_bridge s \<and> of_sent s' = of_sent s \<and>
    map_sent_message d room thread (PDict raw) s = map_sent_message d room [] (PDict e) s'"
proof -
  obtain s' where pop: "pop_recent (cl_now (dk_env d)) room s = (Inr (Some e), s')"
    and s': "of_bridge s' = of_bridge s" "of_sent s' = of_sent s"
    using recent by (auto simp: pop_recent_def recent_only_def)
  then have "await_echo d room s = (Inr (Some e), s')" by (simp add: await_echo_def bnd_def ret_def)
  then have "echo_or_thread d room thread (PDict raw) s = (Inr (PDict e), s')"
    using raw e by (simp add: echo_or_thread_def prefer_echo_def bnd_def ret_def)
  moreover have "echo_or_thread d room [] (PDict e) s' = (Inr (PDict e), s')"
    by (simp add: echo_or_thread_def prefer_echo_def ret_def)
  ultimately have "map_sent_message d room thread (PDict raw) s = map_sent_message d room [] (PDict e) s'"
    by (simp add: map_sent_message_def bnd_def)
  with s' show ?thesis by blast
qed

end
