(* ===== verification/Message_Plan.thy ===== *)
theory Message_Plan
  imports Delivery_Proofs
begin

text \<open>
  What one message leads to, as a plan that is fixed before anything is sent: texts between
  media, the media segments, a caption, and the quote and mentions on the first text.
  \<open>send_message_segments\<close> carries out the plan; the plan loses and repeats nothing.
\<close>

section \<open>The plan\<close>

datatype message_unit =
    Text_unit string string "string list" string \<comment> \<open>quote, text, mentions, mention of the reply\<close>
  | Media_unit entry string \<comment> \<open>segment and caption\<close>

definition seg_data :: "entry \<Rightarrow> entry" where
  "seg_data s = (case data_dict s of Inl _ \<Rightarrow> [] | Inr d \<Rightarrow> d)"

definition seg_text :: "entry \<Rightarrow> string" where
  "seg_text s = raw_str_field (seg_data s) ''text''"

definition readable :: "entry \<Rightarrow> bool" where
  "readable s \<longleftrightarrow> data_dict s = Inr (seg_data s)"

definition fires :: "bool \<Rightarrow> string list \<Rightarrow> string \<Rightarrow> bool" where
  "fires force texts quote \<longleftrightarrow> py_strip (concat texts) \<noteq> [] \<or> (force \<and> quote \<noteq> [])"

definition caption_of :: "entry list \<Rightarrow> string option" where
  "caption_of ss = (if list_all (\<lambda>s. segment_type s = ''text'') ss then Some (py_strip (concat (map seg_text ss))) else None)"

primrec message_plan :: "entry list \<Rightarrow> string list \<Rightarrow> string \<Rightarrow> string list \<Rightarrow> string \<Rightarrow> message_unit list" where
  "message_plan [] texts q ms rm =
     (if fires (q \<noteq> []) texts q then [Text_unit q (py_strip (concat texts)) ms rm] else [])"
| "message_plan (s # ss) texts q ms rm =
     (if segment_type s = ''text'' then message_plan ss (texts @ [seg_text s]) q ms rm
      else let f = fires (texts = []) texts q;
               q' = (if f then [] else q); ms' = (if f then [] else ms); rm' = (if f then [] else rm);
               caption = (if segment_type s = ''image'' \<and> q = [] \<and> ms' = [] \<and> rm' = [] then caption_of ss else None)
           in (if f then [Text_unit q (py_strip (concat texts)) ms rm] else []) @
              (case caption of Some c \<Rightarrow> [Media_unit s c] | None \<Rightarrow> Media_unit s [] # message_plan ss [] q' ms' rm'))"

section \<open>Carrying it out\<close>

fun unit_action :: "desk \<Rightarrow> sending \<Rightarrow> message_unit \<Rightarrow> (office, pyval) action" where
  "unit_action d g (Text_unit q s ms rm) =
     (if q \<noteq> [] then send_with_quote d (sg_room g) s q (sg_thread g) ms rm (sg_thread_mode g)
      else send_text d (sg_room g) s (sg_thread g) ms rm (sg_thread_mode g))"
| "unit_action d g (Media_unit s c) =
     send_media d (sg_room g) (segment_type s) (seg_data s) (sg_thread g) c (sg_thread_mode g)"

definition record_raw :: "sending \<Rightarrow> pyval \<Rightarrow> pyval list \<Rightarrow> (office, pyval list) action" where
  "record_raw g raw sent =
     (if \<not> truthy raw then (if sg_strict g then raise_exn (RuntimeError ''not sent'') else ret sent)
      else bnd (sg_on_message g raw) (\<lambda>_. ret (sent @ [raw])))"

primrec run_units :: "desk \<Rightarrow> sending \<Rightarrow> message_unit list \<Rightarrow> pyval list \<Rightarrow> (office, pyval list) action" where
  "run_units d g [] sent = ret sent"
| "run_units d g (u # us) sent =
     bnd (unit_action d g u) (\<lambda>raw. bnd (record_raw g raw sent) (run_units d g us))"

lemma bnd_assoc: "bnd (bnd m k) h = bnd m (\<lambda>x. bnd (k x) h)"
  by (rule ext) (auto simp: bnd_def split: prod.split sum.split)

lemma bnd_ret_left [simp]: "bnd (ret x) k = k x"
  by (rule ext) (simp add: bnd_def ret_def)

lemma bnd_raise [simp]: "bnd (raise_exn e) k = raise_exn e"
  by (rule ext) (simp add: bnd_def raise_exn_def)

lemma record_raw_eq: "record_sent g raw a = bnd (record_raw g raw (sa_sent a)) (\<lambda>sent. ret (a\<lparr>sa_sent := sent\<rparr>))"
  by (simp add: record_sent_def record_raw_def bnd_assoc)

lemma flush_eq:
  "flush_text d g force a =
     (if fires force (sa_texts a) (sa_quote a)
      then bnd (unit_action d g (Text_unit (sa_quote a) (py_strip (concat (sa_texts a))) (sa_mentions a) (sa_reply_mention a)))
             (\<lambda>raw. bnd (record_raw g raw (sa_sent a)) (\<lambda>sent. ret \<lparr>sa_sent = sent, sa_texts = [], sa_quote = [],
                sa_mentions = [], sa_reply_mention = []\<rparr>))
      else ret (a\<lparr>sa_texts := []\<rparr>))"
  by (cases a) (auto simp: flush_text_def fires_def record_raw_eq Let_def)

lemma caption_parts_eq:
  "list_all readable ss \<Longrightarrow> caption_parts ss =
     Inr (if list_all (\<lambda>s. segment_type s = ''text'') ss then Some (concat (map seg_text ss)) else None)"
  by (induction ss) (auto simp: readable_def seg_text_def)

lemma trailing_caption_eq:
  "list_all readable ss \<Longrightarrow> trailing_caption ss = Inr (case caption_of ss of None \<Rightarrow> ([], False) | Some c \<Rightarrow> (c, True))"
  by (simp add: trailing_caption_def caption_parts_eq caption_of_def)

definition finish_sending :: "desk \<Rightarrow> sending \<Rightarrow> send_acc \<Rightarrow> (office, pyval list) action" where
  "finish_sending d g a = bnd (flush_text d g (sa_quote a \<noteq> []) a) (\<lambda>a. ret (sa_sent a))"

lemma finish_empty: "sa_texts a = [] \<Longrightarrow> sa_quote a = [] \<Longrightarrow> finish_sending d g a = ret (sa_sent a)"
  by (simp add: finish_sending_def flush_eq fires_def)

lemma run_units_Nil: "run_units d g [] = ret"
  by (rule ext) simp

theorem loop_runs_plan:
  assumes "list_all readable ss"
  shows "bnd (send_loop d g ss a) (finish_sending d g) =
    run_units d g (message_plan ss (sa_texts a) (sa_quote a) (sa_mentions a) (sa_reply_mention a)) (sa_sent a)"
  using assms
proof (induction ss arbitrary: a)
  case Nil
  show ?case by (simp add: finish_sending_def flush_eq bnd_assoc run_units_Nil)
next
  case (Cons s ss)
  from Cons.prems have ss: "list_all readable ss" by simp
  from Cons.prems have "readable s" by simp
  then have s: "data_dict s = Inr (seg_data s)" by (simp add: readable_def)
  show ?case
  proof (cases "segment_type s = ''text''")
    case True
    with Cons.IH [OF ss] s show ?thesis by (simp add: seg_text_def)
  next
    case False
    let ?f = "fires (sa_texts a = []) (sa_texts a) (sa_quote a)"
    define cont where "cont = (\<lambda>b. bnd (lift_exn (if segment_type s = ''image'' \<and> sa_quote a = [] \<and> sa_mentions b = []
             \<and> sa_reply_mention b = [] then trailing_caption ss else Inr ([], False))) (\<lambda>(caption, taken).
        bnd (lift_exn (data_dict s)) (\<lambda>x.
        bnd (send_media d (sg_room g) (segment_type s) x (sg_thread g) caption (sg_thread_mode g)) (\<lambda>raw.
        bnd (record_sent g raw b) (\<lambda>a2. if taken then ret a2 else send_loop d g ss a2)))))"
    have media: "bnd (cont b) (finish_sending d g) =
      run_units d g (case if segment_type s = ''image'' \<and> sa_quote a = [] \<and> sa_mentions b = [] \<and> sa_reply_mention b = []
            then caption_of ss else None of Some c \<Rightarrow> [Media_unit s c]
          | None \<Rightarrow> Media_unit s [] # message_plan ss [] (sa_quote b) (sa_mentions b) (sa_reply_mention b)) (sa_sent b)"
      if b: "sa_texts b = []" "sa_quote a = [] \<Longrightarrow> sa_quote b = []" for b
      using s b Cons.IH [OF ss] unfolding cont_def by (cases "caption_of ss")
        (auto simp: trailing_caption_eq [OF ss] record_raw_eq bnd_assoc finish_empty run_units_Nil)
    have "(if sa_texts a \<noteq> [] then flush_text d g False a else if sa_quote a \<noteq> [] then flush_text d g True a else ret a)
        = flush_text d g (sa_texts a = []) a"
      by (cases a) (auto simp: flush_eq fires_def)
    with False have "bnd (send_loop d g (s # ss) a) (finish_sending d g)
        = bnd (flush_text d g (sa_texts a = []) a) (\<lambda>b. bnd (cont b) (finish_sending d g))"
      by (simp add: cont_def bnd_assoc Let_def)
    then show ?thesis
      using False by (cases ?f) (simp_all add: flush_eq bnd_assoc media Let_def cong: option.case_cong)
  qed
qed

text \<open>The requests of a plan, one per unit at most, made in the order of the plan.\<close>

definition structured_jobs :: "exn + (string \<times> entry) option \<Rightarrow> job list" where
  "structured_jobs r = (case r of Inr (Some (endpoint, payload)) \<Rightarrow> [Post endpoint payload] | _ \<Rightarrow> [])"

definition text_request :: "desk \<Rightarrow> sending \<Rightarrow> string \<Rightarrow> string \<Rightarrow> string list \<Rightarrow> string \<Rightarrow> exn + (string \<times> entry) option" where
  "text_request d g q s ms rm =
     sbind (explicit_reply_mention d (sg_room g) rm) (\<lambda>m. sbind (build_e2ee_mentions d (sg_room g) ms rm) (\<lambda>e.
       message_request d (sg_room g) (if q \<noteq> [] then quote_text_line (message_link d (sg_room g) q) (with_mention m rm s)
         else with_mention m rm s) [] (sg_thread g) e (sg_thread_mode g)))"

fun unit_jobs :: "desk \<Rightarrow> sending \<Rightarrow> message_unit \<Rightarrow> job list" where
  "unit_jobs d g (Text_unit q s ms rm) = (if q = [] \<and> s = [] then [] else structured_jobs (text_request d g q s ms rm))"
| "unit_jobs d g (Media_unit s c) =
     (case media_request d (sg_room g) (segment_type s) (seg_data s) (sg_thread g) c (sg_thread_mode g) of
        Inr (Some j) \<Rightarrow> [j] | _ \<Rightarrow> [])"

lemma structured_sent:
  "of_sent (snd (send_structured d room s att tmid e mode st)) = of_sent st @ structured_jobs (message_request d room s att tmid e mode)"
  by (cases "message_request d room s att tmid e mode")
    (auto simp: send_structured_def structured_jobs_def bnd_def lift_exn_def ret_def post_json_def ask_def raise_exn_def
      split: option.split prod.split sum.split pyval.split)

lemma lifted_sent:
  "of_sent (snd (bnd (lift_exn r) k st)) = of_sent st @ (case r of Inl _ \<Rightarrow> [] | Inr x \<Rightarrow> drop (length (of_sent st)) (of_sent (snd (k x st))))"
  if "\<And>x. \<exists>js. of_sent (snd (k x st)) = of_sent st @ js"
  using that by (cases r) (auto simp: bnd_def lift_exn_def, metis append_eq_conv_conj)

lemma unit_sent: "of_sent (snd (unit_action d g u st)) = of_sent st @ unit_jobs d g u"
proof (cases u)
  case (Text_unit q s ms rm)
  show ?thesis
    by (cases "explicit_reply_mention d (sg_room g) rm"; cases "build_e2ee_mentions d (sg_room g) ms rm")
      (auto simp: Text_unit send_text_def send_with_quote_def text_request_def bnd_def lift_exn_def raise_exn_def
        structured_sent structured_jobs_def)
next
  case (Media_unit s c)
  show ?thesis
    by (auto simp: Media_unit send_media_def bnd_def lift_exn_def ret_def ask_def split: sum.split option.split)
qed

lemma record_raw_sent:
  assumes "\<And>raw s. of_sent (snd (sg_on_message g raw s)) = of_sent s"
  shows "of_sent (snd (record_raw g raw sent st)) = of_sent st"
  using assms [of raw st] by (auto simp: record_raw_def raise_exn_def ret_def bnd_def split: prod.split sum.split)

theorem plan_requests:
  assumes quiet: "\<And>raw s. of_sent (snd (sg_on_message g raw s)) = of_sent s"
    and run: "run_units d g us sent st = (r, t)"
  shows "\<exists>n \<le> length us. of_sent t = of_sent st @ concat (map (unit_jobs d g) (take n us)) \<and> (\<forall>x. r = Inr x \<longrightarrow> n = length us)"
  using run
proof (induction us arbitrary: sent st)
  case (Cons u us)
  obtain ur s1 where u: "unit_action d g u st = (ur, s1)" by (metis surj_pair)
  with unit_sent [of d g u st] have s1: "of_sent s1 = of_sent st @ unit_jobs d g u" by simp
  show ?case
  proof (cases ur)
    case (Inl e)
    with Cons.prems u s1 show ?thesis by (intro exI [of _ 1]) (auto simp: bnd_def)
  next
    case (Inr raw)
    obtain rr s2 where rec: "record_raw g raw sent s1 = (rr, s2)" by (metis surj_pair)
    with record_raw_sent [OF quiet, of raw sent s1] have s2: "of_sent s2 = of_sent s1" by simp
    show ?thesis
    proof (cases rr)
      case (Inl e)
      with Cons.prems u s1 s2 Inr rec show ?thesis by (intro exI [of _ 1]) (auto simp: bnd_def)
    next
      case rr: (Inr sent')
      with Cons.prems u Inr rec have "run_units d g us sent' s2 = (r, t)" by (simp add: bnd_def)
      from Cons.IH [OF this] obtain n where "n \<le> length us"
        "of_sent t = of_sent s2 @ concat (map (unit_jobs d g) (take n us))" "\<forall>x. r = Inr x \<longrightarrow> n = length us" by blast
      with s1 s2 show ?thesis by (intro exI [of _ "Suc n"]) simp
    qed
  qed
qed (auto simp: ret_def)

section \<open>Nothing is lost\<close>

fun unit_text :: "message_unit \<Rightarrow> string" where
  "unit_text (Text_unit q s ms rm) = s"
| "unit_text (Media_unit s c) = c"

fun unit_media :: "message_unit \<Rightarrow> entry list" where
  "unit_media (Text_unit q s ms rm) = []"
| "unit_media (Media_unit s c) = [s]"

fun unit_quotes :: "message_unit \<Rightarrow> string list" where
  "unit_quotes (Text_unit q s ms rm) = (if q = [] then [] else [q])"
| "unit_quotes (Media_unit s c) = []"

definition letters :: "string \<Rightarrow> string" where
  "letters s = filter (\<lambda>c. \<not> py_isspace c) s"

lemma letters_Nil [simp]: "letters [] = []"
  by (simp add: letters_def)

lemma letters_append: "letters (s @ t) = letters s @ letters t"
  by (simp add: letters_def)

lemma letters_strip: "letters (py_strip s) = letters s"
proof -
  have d: "filter (\<lambda>c. \<not> py_isspace c) (dropWhile py_isspace s) = filter (\<lambda>c. \<not> py_isspace c) s" for s
    by (induction s) auto
  have "filter (\<lambda>c. \<not> py_isspace c) (rev (dropWhile py_isspace (rev t))) = filter (\<lambda>c. \<not> py_isspace c) t" for t
    using d [of "rev t"] by (metis rev_filter rev_rev_ident)
  with d show ?thesis by (simp add: letters_def py_strip_def py_lstrip_def py_rstrip_def)
qed

lemma blank_letters: "py_strip s = [] \<Longrightarrow> letters s = []"
  using letters_strip [of s] by (simp add: letters_def)

theorem plan_keeps:
  "concat (map unit_media (message_plan ss texts q ms rm)) = filter (\<lambda>s. segment_type s \<noteq> ''text'') ss"
  "letters (concat (map unit_text (message_plan ss texts q ms rm)))
     = letters (concat texts @ concat (map seg_text (filter (\<lambda>s. segment_type s = ''text'') ss)))"
  "concat (map unit_quotes (message_plan ss texts q ms rm)) = (if q = [] then [] else [q])"
proof -
  show "concat (map unit_media (message_plan ss texts q ms rm)) = filter (\<lambda>s. segment_type s \<noteq> ''text'') ss"
    by (induction ss arbitrary: texts q ms rm) (auto simp: Let_def caption_of_def list_all_iff split: option.split)
  show "letters (concat (map unit_text (message_plan ss texts q ms rm)))
     = letters (concat texts @ concat (map seg_text (filter (\<lambda>s. segment_type s = ''text'') ss)))"
  proof (induction ss arbitrary: texts q ms rm)
    case (Cons s ss)
    have c: "filter (\<lambda>s. segment_type s = ''text'') ss = ss \<and> c = py_strip (concat (map seg_text ss))" if "caption_of ss = Some c" for c
      using that by (auto simp: caption_of_def list_all_iff split: if_splits)
    show ?case
      by (auto simp: Cons.IH Let_def letters_append letters_strip fires_def blank_letters dest!: c split: option.split)
  qed (auto simp: fires_def letters_strip blank_letters letters_append)
  show "concat (map unit_quotes (message_plan ss texts q ms rm)) = (if q = [] then [] else [q])"
    by (induction ss arbitrary: texts q ms rm) (simp_all add: Let_def fires_def split: option.split del: concat_eq_Nil_conv)
qed

section \<open>Translated messages\<close>

lemma sendable_readable: "sendable v \<Longrightarrow> \<exists>e. v = PDict e \<and> readable e"
  by (auto simp: sendable_def text_segment_def cq_segment_def readable_def seg_data_def data_dict_def data_of_def
      dget_or_def py_or_def split: if_splits)

lemma translated_readable:
  assumes "translate_outbound cl message gid user fixed required b = (Inr out, b')"
  shows "list_all readable (segment_dicts out)"
proof -
  from translate_parts [OF assms] obtain a b1 where
    loop: "segments_loop cl required (normalize_segments message) \<lparr>oa_segments = [], oa_reply = None, oa_mentions = []\<rparr> b = (Inr a, b1)"
    and segs: "ob_segments out = oa_segments a" by blast
  have "list_all sendable (ob_segments out)"
    unfolding segs by (rule returnsD [OF segments_loop_sendable loop]) simp
  then have "list_all readable (List.map_filter as_dict vs)" if "vs = ob_segments out" for vs
    using that by (fastforce simp: list_all_iff List.map_filter_def dest: sendable_readable)
  then show ?thesis by (simp add: segment_dicts_def)
qed

lemma map_progress_sent: "of_sent (snd (map_progress d room thread raw s)) = of_sent s"
proof -
  have set: "keeps (\<lambda>s. of_sent s = js) (set_progress f)" for js f
    unfolding set_progress_def by (rule keeps_modify) simp
  have "keeps (\<lambda>s. of_sent s = js) (map_sent_message d room thread raw)" for js
    using map_sent_calm by (simp add: keeps_def calm_def)
  then have "keeps (\<lambda>s. of_sent s = of_sent s') (map_progress d room thread raw)" for s' :: office
    unfolding map_progress_def by (intro office_intros set)
  from keepsD [OF this refl] show ?thesis .
qed

end
