(* ===== verification/Action_Properties.thy ===== *)
theory Action_Properties
  imports Sent_Ids Message_Plan Intake_Proofs Bridge_Properties
begin

text \<open>
  Properties of the OneBot actions over the translators and the stores, with a small server as
  the environment of the witnesses.
\<close>

section \<open>An example\<close>

definition sample_answer :: "string \<Rightarrow> entry" where
  "sample_answer k = [(''success'', PBool True), (''message'', PDict [(''_id'', PStr k), (''rid'', PStr ''r1''),
     (''msg'', PStr ''hi''), (''ts'', PDict [(''$date'', PInt 8000)]),
     (''u'', PDict [(''_id'', PStr ''b1''), (''username'', PStr ''bot'')])])]"

definition sample_desk :: desk where
  "sample_desk = \<lparr>dk_env = sample_env, dk_server = (\<lambda>sent j. Inr (PDict (sample_answer (if sent = [] then ''s1'' else ''s2'')))),
     dk_threads = (\<lambda>_. Inr []), dk_ready = (\<lambda>_. Inr False), dk_encrypted = (\<lambda>_ _ _ _ _. Inr []),
     dk_download = (\<lambda>_ _. Inr ''/tmp/f''), dk_decoded = (\<lambda>_ _. Inr ''/tmp/f''), dk_room_types = [], dk_room_names = [],
     dk_arriving = (\<lambda>_ _. []), dk_members = (\<lambda>_. Inr []), dk_plugin = (\<lambda>_ _. Inr None), dk_threaded = False,
     dk_plugins = (\<lambda>_. []), dk_decrypted = (\<lambda>_. Inr None), dk_digest = (\<lambda>_. ''x''), dk_hash = (\<lambda>_. 0),
     dk_skip_own = True\<rparr>"

definition bot_row :: user_row where
  "bot_row = \<lparr>ur_user_id = ''b1'', ur_username = ''bot'', ur_nickname = [], ur_onebot = 10000000008,
     ur_primary = 10000000008, ur_offset = 0, ur_manual = False, ur_is_bot = True, ur_synthetic = False,
     ur_first_seen = 0, ur_last_seen = 0, ur_revision = 1\<rparr>"

definition office_users :: registry where
  "office_users = \<lparr>rg_db = \<lparr>db_users = [sample_row, bot_row], db_bot_users = [((''bot'', ''u1''), 0), ((''bot'', ''b1''), 0)],
       db_conflicts = [], db_last_conflict = 0\<rparr>,
     rg_cache = \<lparr>ic_by_user = [(''u1'', sample_row), (''b1'', bot_row)],
       ic_by_onebot = [(10000000007, ''u1''), (10000000008, ''b1'')], ic_seen = [(''bot'', ''u1''), (''bot'', ''b1'')], ic_max = 4096\<rparr>,
     rg_bot_id = ''bot'', rg_has_warning_path = False, rg_warning = None\<rparr>"

definition sample_office :: office where
  "sample_office = \<lparr>of_bridge = sample_bridge\<lparr>br_users := office_users\<rparr>, of_sent = [], of_recent = [], of_progress = None, of_timeout = None,
     of_seen = [], of_breakers = [], of_emitted = []\<rparr>"

definition sample_node :: "pyval \<Rightarrow> pyval" where
  "sample_node content = PDict [(''type'', PStr ''node''), (''data'', PDict [(''content'', content)])]"

definition sample_forward :: entry where
  "sample_forward = [(''group_id'', PInt 2000000001),
     (''messages'', PList [sample_node (PList [text_segment ''one'']), sample_node (PList [text_segment ''two''])])]"

definition sample_message_params :: entry where
  "sample_message_params = [(''group_id'', PInt 2000000001), (''message'', sample_reply)]"

definition sample_office_requests :: "office_request list" where
  "sample_office_requests = [Arrive sample_desk sample_raw, Act sample_desk ''send_group_msg'' sample_message_params,
     Act sample_desk ''send_group_forward_msg'' sample_forward,
     Act sample_desk ''send_private_msg'' [(''user_id'', PInt 10000000007), (''message'', PStr ''hello'')],
     Act sample_desk ''send_private_msg'' [(''user_id'', PInt 10000000007), (''message'', PStr ''again'')]]"


lemma sample_office_ok:
  "all_ok (br_engine (of_bridge sample_office))" "eng_journal (br_engine (of_bridge sample_office)) = Some []"
  "of_recent sample_office = []" "of_timeout sample_office = None" "br_asked (of_bridge sample_office) = []"
  "br_users (of_bridge sample_office) = office_users"
  using sample_engine_ok by (simp_all add: sample_office_def sample_bridge_def)

lemma sample_polite:
  assumes "list_all (\<lambda>d. dk_env d = sample_env) ds"
  shows "polite ds sample_desk" "trusted ds sample_raw"
proof -
  have t: "trusted ds e" if "clean_ids sample_env e" for e
    using assms that by (auto simp: trusted_def list_all_iff)
  have "clean_ids sample_env (sample_answer k) \<and> clean_ids sample_env (the (as_dict (dget (sample_answer k) ''message'')))"
    if "k \<in> {''s1'', ''s2''}" for k using that by (elim insertE emptyE) (hypsubst, code_simp)+
  then have "answer_ok (trusted ds) (PDict (sample_answer k))" if "k \<in> {''s1'', ''s2''}" for k
    using that t by (fastforce simp: answer_ok_def)
  moreover have "clean_ids sample_env []" by code_simp
  moreover have "cl_direct_room sample_env u = Inr r \<longrightarrow> r \<noteq> []" "ie_fetch sample_env k = Inr []" for u r k
    by (auto simp: sample_env_def)
  ultimately show "polite ds sample_desk" by (auto simp: polite_def sample_desk_def)
  from t [OF sample_clean] show "trusted ds sample_raw" .
qed


definition sample_private_requests :: "office_request list" where
  \<comment> \<open>the server does not open a direct room of the bot with itself\<close>
  "sample_private_requests = map (\<lambda>u. Act sample_desk ''send_private_msg'' [(''user_id'', u), (''message'', PStr ''hello'')])
     [PInt 10000000008, PInt 10000000007, PInt 10000000008, PStr ''10000000007'']"

lemma sample_requests_trusted: "requests_ok sample_office_requests" "requests_ok sample_private_requests"
proof -
  have text_id: "canonical_id (PStr ''10000000007'')" by code_simp
  have "list_all (\<lambda>d. dk_env d = sample_env) (map desk_of sample_office_requests)"
    "list_all (\<lambda>d. dk_env d = sample_env) (map desk_of sample_private_requests)"
    by (simp_all add: sample_office_requests_def sample_private_requests_def) (simp_all add: sample_desk_def)
  from this [THEN sample_polite(1)] this [THEN sample_polite(2)]
  show "requests_ok sample_office_requests" "requests_ok sample_private_requests"
    using text_id
    by (simp_all add: requests_ok_def sample_office_requests_def sample_private_requests_def sample_message_params_def
        sample_forward_def dget_def)
qed

section \<open>Durability\<close>

text \<open>C1. Nothing the bridge did is lost: after any sequence of messages that arrived and actions of
  applications, each run to its end, in which any request may be refused, raise or be cancelled, replaying what the journal got
  on an engine like the first one gives one like the last, and the invariants of the engine hold.\<close>

theorem actions_are_recovered:
  assumes "all_ok (br_engine (of_bridge s))" "eng_journal (br_engine (of_bridge s)) = Some j" "of_recent s = []"
    and rs: "requests_ok rs" and same: "core e = core (br_engine (of_bridge s))"
  shows "\<exists>recs t. eng_journal (br_engine (of_bridge (run_offices rs s))) = Some (j @ recs) \<and>
    replay_records recs e = (Inr (), t) \<and> core t = core (br_engine (of_bridge (run_offices rs s))) \<and>
    all_ok (br_engine (of_bridge (run_offices rs s)))"
proof -
  have "journaled (br_engine (of_bridge s)) (br_engine (of_bridge (run_offices rs s)))"
    by (rule run_offices_keep [OF act_journal.bridge_invariant_axioms rs assms(3) journaled_refl [OF assms(1)]])
  with assms(2) same show ?thesis unfolding journaled_def tracks_def by auto
qed

theorem actions_are_recovered_witness:
  "\<exists>recs t. eng_journal (br_engine (of_bridge (run_offices sample_office_requests sample_office))) = Some recs \<and>
     replay_records recs (br_engine (of_bridge sample_office)) = (Inr (), t) \<and>
     core t = core (br_engine (of_bridge (run_offices sample_office_requests sample_office)))"
  using actions_are_recovered [OF sample_office_ok(1-3) sample_requests_trusted(1) refl] by auto



section \<open>Repeated updates\<close>

text \<open>C5. A message that arrives twice in a row is worked on once: the second arrival, such as an update that the
  server sends again, changes nothing at all, and so emits no second event, also when the first one failed. The memory of
  signatures stays within its bound.\<close>

theorem repeated_updates_are_ignored:
  assumes "str_field raw ''_id'' \<noteq> []" "\<forall>e. dk_decrypted d raw = Inr (Some e) \<longrightarrow> str_field e ''_id'' \<noteq> []"
    and "length (of_seen s) \<le> max_seen"
  shows "arrive d raw (arrive d raw s) = arrive d raw s \<and> length (of_seen (arrive d raw s)) \<le> max_seen"
  using repeated_arrival [OF assms] by blast

theorem repeated_updates_are_ignored_witness:
  "length (of_emitted (arrive sample_desk sample_raw sample_office)) = 1 \<and>
   arrive sample_desk sample_raw (arrive sample_desk sample_raw sample_office) = arrive sample_desk sample_raw sample_office"
proof
  show "length (of_emitted (arrive sample_desk sample_raw sample_office)) = 1" by code_simp
  have "str_field sample_raw ''_id'' \<noteq> []" by code_simp
  moreover have "dk_decrypted sample_desk sample_raw = Inr None" by (simp add: sample_desk_def)
  moreover have "of_seen sample_office = []" by (simp add: sample_office_def)
  ultimately show "arrive sample_desk sample_raw (arrive sample_desk sample_raw sample_office) = arrive sample_desk sample_raw sample_office"
    using repeated_updates_are_ignored [of sample_raw sample_desk sample_office] by simp
qed

section \<open>Merged forwards\<close>





section \<open>Sent messages\<close>

text \<open>C4. The id that a sent message was answered with can be used in a reply at once: whatever the
  server answered, and also when the id had to be taken from an echo, the reply finds the message it refers to.\<close>

theorem sent_messages_can_be_replied_to:
  assumes ok: "all_ok (br_engine (of_bridge s))" "of_recent s = []" "polite [d] d"
    and user: "canonical_id (dget params ''user_id'')"
    and action: "action \<in> {''send_group_msg'', ''send_private_msg'', ''send_msg''}" "\<not> is_forward_candidate (dget params ''message'')"
    and run: "handle d action params s = (Inr r, t)" "dget r ''status'' = PStr ''ok''"
  shows "\<exists>i. r = message_response i \<and> (i = 0 \<or> (\<exists>src. src \<noteq> [] \<and>
    resolve_reply [(''id'', PStr (str_int i))] (of_bridge t) = (Inr (Some src), of_bridge t)))"
proof -
  let ?send = "\<lambda>gid user. bnd (on_bridge (translate_outbound (dk_client d) (dget params ''message'') gid user None False)) (send_outbound d)"
  have failed: "dget (failure c w) ''status'' \<noteq> PStr ''ok''" for c w by (simp add: failure_def dget_def)
  have "run_action d action params = ?send (dget params ''group_id'') PNone \<or> run_action d action params = ?send PNone (dget params ''user_id'')"
    using action by (auto simp: run_action_def handle_send_msg_def handle_send_group_msg_def handle_send_private_msg_def)
  then obtain gid u where send: "run_action d action params = ?send gid u" and u: "canonical_id u"
    using user by auto
  with run failed obtain out s1 where out: "on_bridge (translate_outbound (dk_client d) (dget params ''message'') gid u None False) s = (Inr out, s1)"
    and sent: "send_outbound d out s1 = (Inr r, t)"
    by (auto simp: handle_def bnd_def split: prod.splits sum.splits if_splits)
  have "steady [d] d (br_engine (of_bridge s)) s"
    using ok by (simp add: act_journal.inv_def journaled_refl recent_trusted_def recent_of_def)
  from keepsD [OF act_journal.translate_out_keep [OF u] this] out have "steady [d] d (br_engine (of_bridge s)) s1" by (metis snd_conv)
  from sent_id_repliable [OF this sent] show ?thesis by (auto simp: repliable_def)
qed

theorem sent_messages_can_be_replied_to_witness:
  "\<exists>r t i src. handle sample_desk ''send_private_msg'' [(''user_id'', PInt 10000000007), (''message'', PStr ''hello'')] sample_office = (Inr r, t)
     \<and> r = message_response i \<and> i \<noteq> 0 \<and> src \<noteq> [] \<and>
     resolve_reply [(''id'', PStr (str_int i))] (of_bridge t) = (Inr (Some src), of_bridge t)"
proof -
  let ?params = "[(''user_id'', PInt 10000000007), (''message'', PStr ''hello'')]"
  have "fst (handle sample_desk ''send_private_msg'' ?params sample_office) = Inr (message_response 3000000001)" by code_simp
  then obtain t where run: "handle sample_desk ''send_private_msg'' ?params sample_office = (Inr (message_response 3000000001), t)"
    by (metis prod.collapse)
  have "polite [sample_desk] sample_desk" by (rule sample_polite) (simp add: sample_desk_def)
  moreover have "canonical_id (dget ?params ''user_id'')" by (simp add: dget_def)
  moreover have "\<not> is_forward_candidate (dget ?params ''message'')" by code_simp
  moreover have "dget (message_response 3000000001) ''status'' = PStr ''ok''" by (simp add: message_response_def ok_response_def dget_def)
  ultimately obtain i where "message_response 3000000001 = message_response i"
    "i = 0 \<or> (\<exists>src. src \<noteq> [] \<and> resolve_reply [(''id'', PStr (str_int i))] (of_bridge t) = (Inr (Some src), of_bridge t))"
    using sent_messages_can_be_replied_to [OF sample_office_ok(1,3) _ _ _ _ run] by blast
  moreover from this(1) have "i = 3000000001" by (simp add: message_response_def ok_response_def)
  ultimately show ?thesis using run by auto
qed

text \<open>C2. A message is sent as planned. The segments of a translated message are texts and media; their plan joins
  neighbouring texts, puts the text behind a single image into its caption and the quote on one unit. Whatever the
  server answers, the requests that were made are those of an initial part of the plan, and of all of it when the
  call returns. The plan has every medium once and in order, every letter of the texts once and in order, and
  the quote exactly once.\<close>

theorem messages_follow_their_plan:
  assumes out: "translate_outbound cl message gid user fixed required b = (Inr out, b')"
    and g: "g = plain_sending room thread \<or> g = forward_sending d room thread mode"
    and run: "send_message_segments d g (segment_dicts out) (opt_text (ob_reply out)) (ob_mentions out) (ob_reply_mention out) s = (r, t)"
    and us: "us = message_plan (segment_dicts out) [] (opt_text (ob_reply out)) (ob_mentions out) (py_strip (ob_reply_mention out))"
  shows "(\<exists>n \<le> length us. of_sent t = of_sent s @ concat (map (unit_jobs d g) (take n us)) \<and> ((\<exists>x. r = Inr x) \<longrightarrow> n = length us)) \<and>
    concat (map unit_media us) = filter (\<lambda>e. segment_type e \<noteq> ''text'') (segment_dicts out) \<and>
    letters (concat (map unit_text us)) = letters (concat (map seg_text (filter (\<lambda>e. segment_type e = ''text'') (segment_dicts out)))) \<and>
    concat (map unit_quotes us) = (if opt_text (ob_reply out) = [] then [] else [opt_text (ob_reply out)])"
proof -
  have quiet: "of_sent (snd (sg_on_message g raw s)) = of_sent s" for raw s
    using g map_progress_sent by (auto simp: plain_sending_def forward_sending_def ret_def)
  from run have units: "run_units d g us [] s = (r, t)"
    using loop_runs_plan [OF translated_readable [OF out], of d g
        "\<lparr>sa_sent = [], sa_texts = [], sa_quote = opt_text (ob_reply out), sa_mentions = ob_mentions out,
          sa_reply_mention = py_strip (ob_reply_mention out)\<rparr>"]
    by (simp add: send_message_segments_def finish_sending_def [abs_def] us)
  from plan_requests [OF quiet units] plan_keeps [of "segment_dicts out" "[]"] show ?thesis unfolding us by auto
qed

definition sample_pictures :: pyval where
  "sample_pictures = PList [text_segment ''see '', text_segment ''this'', cq_segment ''image'' [(''file'', PStr ''http://x/a.png'')],
     text_segment '' a caption'']"

theorem messages_follow_their_plan_witness:
  "\<exists>out b' raws t us. translate_outbound sample_client sample_pictures PNone PNone (Some [(''room_id'', PStr ''r1'')]) False sample_bridge
       = (Inr out, b') \<and>
     send_message_segments sample_desk (plain_sending ''r1'' []) (segment_dicts out) (opt_text (ob_reply out)) (ob_mentions out)
       (ob_reply_mention out) sample_office = (Inr raws, t) \<and>
     us = message_plan (segment_dicts out) [] (opt_text (ob_reply out)) (ob_mentions out) (py_strip (ob_reply_mention out)) \<and>
     length us = 2 \<and> of_sent t = concat (map (unit_jobs sample_desk (plain_sending ''r1'' [])) us) \<and>
     letters (concat (map unit_text us)) = ''seethisacaption''"
proof -
  let ?tr = "translate_outbound sample_client sample_pictures PNone PNone (Some [(''room_id'', PStr ''r1'')]) False sample_bridge"
  let ?g = "plain_sending ''r1'' []"
  let ?send = "\<lambda>out. send_message_segments sample_desk ?g (segment_dicts out) (opt_text (ob_reply out)) (ob_mentions out)
      (ob_reply_mention out) sample_office"
  let ?plan = "\<lambda>out. message_plan (segment_dicts out) [] (opt_text (ob_reply out)) (ob_mentions out) (py_strip (ob_reply_mention out))"
  let ?texts = "\<lambda>out. letters (concat (map seg_text (filter (\<lambda>e. segment_type e = ''text'') (segment_dicts out))))"
  have "case ?tr of (Inr out, _) \<Rightarrow> (case ?send out of (Inr raws, _) \<Rightarrow> True | _ \<Rightarrow> False) \<and> length (?plan out) = 2
      \<and> ?texts out = ''seethisacaption''
    | _ \<Rightarrow> False" by code_simp
  then obtain out b' where tr: "?tr = (Inr out, b')" and sends: "case ?send out of (Inr raws, _) \<Rightarrow> True | _ \<Rightarrow> False"
    and plan: "length (?plan out) = 2" "?texts out = ''seethisacaption''"
    by (cases ?tr; cases "fst ?tr") simp_all
  from sends obtain raws t where send: "?send out = (Inr raws, t)" by (cases "?send out"; cases "fst (?send out)") simp_all
  have "of_sent sample_office = []" by (simp add: sample_office_def)
  with messages_follow_their_plan [OF tr disjI1 [OF refl] send refl] tr send plan show ?thesis by auto
qed

section \<open>Echoes\<close>

text \<open>C7. The echo of another message: when a message is sent to a thread and the server's answer does not name the
  thread, the id that is returned is that of the oldest own message the room got in the last ten
  seconds, whatever the answer says: the answer is not looked at again.\<close>

theorem echo_of_another_message:
  assumes recent: "recent_of room s = (t0, e) # rest" "cl_now (dk_env d) - t0 \<le> 10" and e: "e \<noteq> []"
    and raw: "thread \<noteq> []" "str_field raw ''tmid'' = []"
  shows "\<exists>s'. of_bridge s' = of_bridge s \<and>
    map_sent_message d room thread (PDict raw) s = map_sent_message d room [] (PDict e) s'"
  using echo_replaces_message [OF recent e raw] by blast

definition sample_own :: "string \<Rightarrow> entry" where
  "sample_own k = the (as_dict (dget (sample_answer k) ''message''))"

theorem echo_of_another_message_witness:
  "\<exists>s s' t. s = arrive sample_desk (sample_own ''m9'') sample_office \<and>
     map_sent_message sample_desk ''r1'' ''t1'' (PDict (sample_own ''s1'')) s
       = map_sent_message sample_desk ''r1'' [] (PDict (sample_own ''m9'')) s' \<and>
     map_sent_message sample_desk ''r1'' ''t1'' (PDict (sample_own ''s1'')) s = (Inr (Some 3000000001), t) \<and>
     fst (map_get_source ''message'' (PInt 3000000001) (of_bridge t)) = Inr (Some ''m9'')"
proof -
  let ?s = "arrive sample_desk (sample_own ''m9'') sample_office"
  have "recent_of ''r1'' ?s = [(5, sample_own ''m9'')]" "cl_now (dk_env sample_desk) - 5 \<le> 10" "sample_own ''m9'' \<noteq> []"
    "str_field (sample_own ''s1'') ''tmid'' = []" by code_simp+
  from echo_of_another_message [OF this(1-3) _ this(4), of "''t1''"] obtain s' where
    "map_sent_message sample_desk ''r1'' ''t1'' (PDict (sample_own ''s1'')) ?s
       = map_sent_message sample_desk ''r1'' [] (PDict (sample_own ''m9'')) s'" by auto
  moreover have "case map_sent_message sample_desk ''r1'' ''t1'' (PDict (sample_own ''s1'')) ?s of
      (Inr (Some i), t) \<Rightarrow> i = 3000000001 \<and> fst (map_get_source ''message'' (PInt 3000000001) (of_bridge t)) = Inr (Some ''m9'')
    | _ \<Rightarrow> False" by code_simp
  then obtain t where "map_sent_message sample_desk ''r1'' ''t1'' (PDict (sample_own ''s1'')) ?s = (Inr (Some 3000000001), t)"
    "fst (map_get_source ''message'' (PInt 3000000001) (of_bridge t)) = Inr (Some ''m9'')"
    by (auto split: prod.splits sum.splits option.splits)
  ultimately show ?thesis by blast
qed

end
