(* ===== verification/Spec2Isabelle.thy ===== *)
theory Spec2Isabelle
  imports Py_Values Id_Map Storage Hot_State Journal Sha256 User_Identity Store_Properties
    Engine_Properties Identity_Cache Identity_Properties Cq_Codec Forward_Nodes Message_Properties
    Update_Manifest Release_Lemmas Release_Properties Update_Helper Update_Proofs Update_Properties
    Action_Dispatcher Dispatcher_Proofs Dispatcher_Properties
    Transport_Settings Transport_Proofs Transport_Properties
    Runtime_Stores Outbound_Translator Outbound_Proofs Inbound_Parsing Media_Segments Inbound_Translator
    Inbound_Proofs Batch_Proofs Bridge_Properties
    Message_Sending Message_Intake Intake_Proofs Onebot_Actions Action_Proofs Delivery_Proofs Sent_Ids Message_Plan
    Action_Properties
begin

text \<open>
  RocketCatShell connects Rocket.Chat servers to OneBot v11 clients. A bridge receives Rocket.Chat
  messages, gives every room, message, thread and user a numeric OneBot id, keeps what it needs to
  answer later actions, and executes the actions that OneBot clients send over one of five
  transports, which makes messages of the bot. Around the bridge are the bot registry, the web UI, a plugin system and a self-update.
  This development models the parts whose correctness is a matter of state and data: the ids, the
  stores and their journal, the user registry, the two translators over them, the OneBot actions and
  the way a message goes out and comes in, the message formats, the action pool, the transport settings and the update.

  \<^bold>\<open>Theories and sources\<close> (paths under \<open>src/rocketcat_shell\<close> unless they start with \<open>tools\<close>)

  \<^item> \<open>Py_Values\<close>: the Python values the code handles (\<open>pyval\<close>), exceptions (\<open>exn\<close>), coercions
    (\<open>str\<close>, \<open>int\<close>, \<open>bool\<close>, \<open>strip\<close>, \<open>lower\<close>), dictionaries in insertion order as association
    lists (\<open>entry\<close>), and two ways of writing code that may raise: \<open>exn + 'a\<close> where a raise leaves
    the state alone, and \<open>('s, 'a) action\<close> where the state at the raise is kept. A \<open>string\<close> covers
    the code points below 256.
  \<^item> \<open>Id_Map\<close>: \<open>bridge/id_map.py\<close>. \<open>durable_map\<close> is a \<open>DurableIdMap\<close>, \<open>get_or_create\<close> and the
    other operations carry the names of its methods.
  \<^item> \<open>Storage\<close>: \<open>bridge/storage.py\<close>; prefixes \<open>ms_\<close>, \<open>pr_\<close> and \<open>cr_\<close> stand for \<open>MessageStore\<close>,
    \<open>PrivateRoomStore\<close> and \<open>ContextRoomStore\<close>.
  \<^item> \<open>Hot_State\<close> and \<open>Journal\<close>: \<open>bridge/hot_storage.py\<close>. \<open>engine\<close> is a \<open>RuntimeStateEngine\<close>; its
    operations append records to \<open>eng_journal\<close>; the writer thread is \<open>writer_step\<close>, the file format
    \<open>write_record\<close> and \<open>iter_records\<close>.
  \<^item> \<open>Sha256\<close>, \<open>User_Identity\<close>, \<open>Identity_Cache\<close>: \<open>bridge/user_identity.py\<close>, with the hash the ids
    start from, the tables of the database and the caches before them.
  \<^item> \<open>Runtime_Stores\<close>: the \<open>Memory\<close> facades of \<open>bridge/hot_storage.py\<close> and \<open>UserIdentityIdMap\<close> of
    \<open>bridge/user_identity.py\<close>, through which the translators reach one engine and one registry
    (\<open>bridge\<close>), and the Rocket.Chat client as they see it (\<open>client\<close>).
  \<^item> \<open>Outbound_Translator\<close>: \<open>bridge/translator_outbound.py\<close>, from a OneBot message to a room, a thread
    and segments.
  \<^item> \<open>Inbound_Parsing\<close>, \<open>Inbound_Translator\<close>: \<open>bridge/translator_inbound.py\<close>, from a Rocket.Chat
    message to a OneBot event and a stored message; \<open>Media_Segments\<close>: the part of \<open>bridge/media.py\<close>
    that turns media descriptors into segments.
  \<^item> \<open>Message_Sending\<close>: the part of \<open>bridge/rocketchat_client.py\<close> that makes requests of segments
    and keeps the bot's own messages; \<open>office\<close> is the state of bridge, client and action handler,
    \<open>desk\<close> everything outside they rely on.
  \<^item> \<open>Message_Intake\<close>: \<open>_handle_incoming_message\<close> of the same file and the message handler of
    \<open>bridge/runtime.py\<close> with its plugins, up to the event that is emitted.
  \<^item> \<open>Onebot_Actions\<close>: \<open>bridge/onebot_actions.py\<close>; \<open>handle\<close> and the \<open>handle_\<close> functions carry the
    names of its methods.
  \<^item> \<open>Cq_Codec\<close>: \<open>bridge/transports/codec.py\<close>, message segments and CQ-coded strings.
  \<^item> \<open>Forward_Nodes\<close>: \<open>bridge/forward_messages.py\<close>, merged-forward messages.
  \<^item> \<open>Action_Dispatcher\<close>: \<open>bridge/transports/action_dispatcher.py\<close>, the pool that executes actions.
  \<^item> \<open>Transport_Settings\<close>: \<open>bridge/transports/spec.py\<close>, \<open>catalog.py\<close>, the \<open>SPEC\<close> constants of the
    five transports, and the transport fields of \<open>models.py\<close> and \<open>registry.py\<close>.
  \<^item> \<open>Update_Manifest\<close>: \<open>update_manifest.py\<close>; \<open>Update_Helper\<close>: \<open>tools/update_helper.py\<close>.
  \<^item> \<open>Dispatcher_Proofs\<close>, \<open>Transport_Proofs\<close>, \<open>Release_Lemmas\<close>, \<open>Update_Proofs\<close>, \<open>Outbound_Proofs\<close>,
    \<open>Inbound_Proofs\<close>, \<open>Batch_Proofs\<close>, \<open>Intake_Proofs\<close>, \<open>Action_Proofs\<close>, \<open>Delivery_Proofs\<close>, \<open>Sent_Ids\<close> and
    \<open>Message_Plan\<close> hold invariants and lemmas; \<open>Store_Properties\<close>, \<open>Engine_Properties\<close>, \<open>Identity_Properties\<close>, \<open>Message_Properties\<close>,
    \<open>Release_Properties\<close>, \<open>Update_Properties\<close>, \<open>Dispatcher_Properties\<close>, \<open>Transport_Properties\<close>,
    \<open>Bridge_Properties\<close> and \<open>Action_Properties\<close> state the properties C1 to C40, each with a concrete instance, and further
    theorems of the same kind.

  \<^bold>\<open>How the parts interact\<close>

  The id map and the engine offer the same contract, the locale \<open>id_store\<close> (allocate an id, look it
  up in both directions, what an allocation leaves alone); it is interpreted on both. The room
  bindings of the JSON store and of the engine share the contract \<open>context_rooms\<close> (a binding is
  never replaced by an older one). The engine's mutation batches are what the journal worker writes;
  reading the file back and replaying it goes through the same operations of the engine. The
  translators reach engine and registry through the facades; an inbound translation runs on one
  mutation batch, which it commits also when it raises. The locales \<open>inbound_invariant\<close> and
  \<open>outbound_invariant\<close> state what the translators need of the stores so that a property survives
  every request; they are interpreted for the journal (what the journal got replays what happened)
  and for the direct rooms. The action handler and the message handler call both translators; the
  locale \<open>bridge_invariant\<close> puts these two contracts together and carries a property of the bridge
  through every action and every arriving message, so that its two interpretations (\<open>act_journal\<close>,
  \<open>act_rooms\<close>) are about the whole of it. What the dispatcher gets from a handler is
  \<open>action_outcome\<close>; the dispatcher encodes its responses with the codec. The update helper validates and installs what
  \<open>Update_Manifest\<close> accepts.

  \<^bold>\<open>What the lemmas show\<close>

  \<^item> Actions (C1 to C7): the journal replays everything that any sequence of arriving messages and
    actions did, direct rooms are opened once, and the id a send action answers can be replied to
    (an invariant of every operation of handler, client and translators); the requests of a message
    are those of a plan (\<open>message_unit\<close>), against which the sending loop is proved; a merged forward is checked
    before anything is sent (triples over requests and progress); a repeated update is ignored; an
    echo can be that of another message.
  \<^item> Translators (C8 to C11): a received message is one record of the journal; replies reach the
    room and thread the message came from; events can be built again from the store; quotes are
    bounded. Not numbered: what is sent is in normal form, encrypted files get lost, and a malformed
    link stops a message.
  \<^item> Engine and journal (C12 to C16): ids are never reused; a journal cut at any byte replays to a
    prefix of the operations; merging batches changes nothing; a flush that is answered is on disk.
  \<^item> User registry (C17 to C20): users and ids are one to one after any sequence of requests, probing
    terminates at the first free slot, caches are transparent, failed operations change nothing.
  \<^item> Action pool (C21, C22): an invariant of the step relation over all interleavings, and a measure
    that decreases with every step of the workers, hence every accepted request is answered.
  \<^item> Updates (C23 to C25): an invariant over the file operations of a transaction, kept by every
    step, every failure and every kill, from which a recovery restores the installation.
  \<^item> Releases (C26 to C29): the safety of paths and extraction; a built manifest is accepted, and an
    accepted manifest describes the directory exactly.
  \<^item> Messages (C30 to C32): escaping is injective and inert, CQ strings round-trip, nested forwards
    are flattened.
  \<^item> Transports (C33 to C35): settings are well typed and stable under normalisation, they survive
    saving and loading; one exception escapes.
  \<^item> Stores (C36 to C40): the id map is a two-way map whatever the window does, permanent ids stay,
    the message window is bounded; the message store follows the new ids; the newest binding wins.

  \<^bold>\<open>Bounds and fuel\<close>

  No function runs on fuel: loops are structural or come with a measure (probing visits at most
  \<open>user_id_table_size\<close> slots; \<open>trim_loop\<close> and \<open>coalesce\<close> consume a list). Integers are Python's, hence
  \<open>int\<close>; words occur where the code has bytes, in SHA-256 and in the record headers of the journal,
  where lengths above 32 bits raise. Concurrency is a matter of atomic steps: one lock makes an
  operation of the engine or of the registry atomic, one event loop makes a dispatcher step atomic.
  Failures of file operations are the list \<open>w_fates\<close>, over which the theorems quantify.

  \<^bold>\<open>Parameters\<close>

  Code outside the repository is a parameter: the pickle codec of the journal, \<open>json.dumps\<close> and
  \<open>json.loads\<close>, the action handler, the network library functions of the transports (\<open>net_env\<close>),
  the Rocket.Chat server and the media service as the translators see them (\<open>client\<close>, \<open>inbound_env\<close>)
  the answers of the server to what was sent, encryption, downloads and plugins (\<open>desk\<close>),
  the Chinese labels of the events (\<open>labels\<close>),
  the host an update runs on (\<open>host\<close>: resolving paths, running programs, health). A theorem that needs a
  law of one states it as a hypothesis, and its instance discharges it for a concrete function.

  \<^bold>\<open>Not modelled\<close>

  \<^item> HTTP, websocket and file transfer code (the connections, login and uploads of
    \<open>rocketchat_client.py\<close>, most of \<open>media.py\<close>, \<open>webui.py\<close>, the network side of the transports):
    input and output with remote services. To the model an upload is one request.
  \<^item> \<open>rocketchat_e2ee.py\<close>: calls into a cryptographic library.
  \<^item> \<open>plugin_system\<close>: loading and calling foreign Python modules; the rest of \<open>bridge/runtime.py\<close> and
    \<open>shell/manager.py\<close>: wiring of tasks and objects.
  \<^item> The worker queues for arriving messages: an arriving message is one atomic step, and so is an
    action, where the code lets two of them interleave at their awaits.
  \<^item> Metrics, log texts and labels of the modelled files.
\<close>

end
